(* ===== verification/Prelude.thy ===== *)
theory Prelude
  imports Main "HOL-Library.Word"
begin

text \<open>
  Shared vocabulary of the development: Python \<open>bytes\<close> as lists of 8-bit characters, slices,
  the integer conversions of \<open>int.from_bytes\<close>, \<open>int.to_bytes\<close> and \<open>struct\<close>, and
  the two contracts that the components below instantiate: a strict codec (\<open>codec\<close>) and a
  state machine with an invariant and an abstraction (\<open>machine\<close>, \<open>implements\<close>).
\<close>

unbundle bit_operations_syntax

named_theorems byte_simps \<open>lengths, bounds and inverses of the integer conversions\<close>
named_theorems res_simps \<open>case analysis on results of fallible operations\<close>

section \<open>Bytes and slices\<close>

text \<open>
  A Python \<open>bytes\<close> object is a list of \<^typ>\<open>char\<close>, which is exactly an 8-bit value; byte
  string literals are string literals.
\<close>

type_synonym bytes = "char list"

abbreviation byte_val :: "char \<Rightarrow> nat" where
  "byte_val \<equiv> of_char"

abbreviation byte_of :: "nat \<Rightarrow> char" where
  "byte_of \<equiv> char_of"

text \<open>\<open>data[a:b]\<close> for non-negative bounds: clamped at the end, empty when \<open>b \<le> a\<close>.\<close>

definition pslice :: "nat \<Rightarrow> nat \<Rightarrow> 'a list \<Rightarrow> 'a list" where
  "pslice a b xs = take (b - a) (drop a xs)"

lemma length_pslice [simp]: "length (pslice a b xs) = min (b - a) (length xs - a)"
  by (simp add: pslice_def)

lemma pslice_append_left [simp]: "a = length xs \<Longrightarrow> b = length xs + length ys \<Longrightarrow> pslice a b (xs @ ys @ zs) = ys"
  by (simp add: pslice_def)

lemma pslice_append_drop: "length xs \<le> a \<Longrightarrow> pslice a b (xs @ ys) = pslice (a - length xs) (b - length xs) ys"
  by (simp add: pslice_def)

lemma pslice_Cons_Suc [simp]: "pslice (Suc a) (Suc b) (x # xs) = pslice a b xs"
  by (simp add: pslice_def)

lemma pslice_0 [simp]: "pslice 0 b xs = take b xs"
  by (simp add: pslice_def)

lemma pslice_eq_appendI: "xs = us @ ys @ vs \<Longrightarrow> length us = a \<Longrightarrow> length ys = b - a \<Longrightarrow> pslice a b xs = ys"
  by (simp add: pslice_def)

lemma pslice_split: "b \<le> length xs \<Longrightarrow> a \<le> b \<Longrightarrow> xs = take a xs @ pslice a b xs @ drop b xs"
  by (simp add: pslice_def) (metis append_take_drop_id drop_drop le_add_diff_inverse2)

lemma pslice_adjacent: "a \<le> b \<Longrightarrow> b \<le> c \<Longrightarrow> pslice a b xs @ pslice b c xs = pslice a c xs"
proof -
  assume "a \<le> b" "b \<le> c"
  then have "c - a = (b - a) + (c - b)" and "drop b xs = drop (b - a) (drop a xs)"
    by (simp_all add: ac_simps)
  then show ?thesis by (simp only: pslice_def take_add)
qed

lemma set_pslice_subset: "set (pslice a b xs) \<subseteq> set xs"
  by (auto simp: pslice_def dest: in_set_takeD in_set_dropD)

section \<open>Integers as bytes\<close>

text \<open>\<open>int.from_bytes(bs, "little")\<close> and \<open>int.from_bytes(bs, "big")\<close>.\<close>

primrec le_nat :: "bytes \<Rightarrow> nat" where
  "le_nat [] = 0"
| "le_nat (b # bs) = byte_val b + 256 * le_nat bs"

definition be_nat :: "bytes \<Rightarrow> nat" where
  "be_nat bs = foldl (\<lambda>a b. a * 256 + byte_val b) 0 bs"

text \<open>\<open>n.to_bytes(k, "little")\<close>, \<open>n.to_bytes(k, "big")\<close> and the unsigned \<open>struct\<close> codes
  (\<open>B\<close>, \<open>H\<close>, \<open>I\<close>, \<open>Q\<close>), for a value that fits in \<open>k\<close> bytes.\<close>

primrec to_le :: "nat \<Rightarrow> nat \<Rightarrow> bytes" where
  "to_le 0 n = []"
| "to_le (Suc k) n = byte_of (n mod 256) # to_le k (n div 256)"

definition to_be :: "nat \<Rightarrow> nat \<Rightarrow> bytes" where
  "to_be k n = rev (to_le k n)"

lemmas byte_val_less = nat_of_char_less_256

lemma byte_val_le [simp]: "byte_val c \<le> 255"
  using byte_val_less [of c] by linarith

lemma length_to_le [simp, byte_simps]: "length (to_le k n) = k"
  by (induction k arbitrary: n) simp_all

lemma length_to_be [simp, byte_simps]: "length (to_be k n) = k"
  by (simp add: to_be_def)

lemma be_nat_rev: "be_nat bs = le_nat (rev bs)"
proof -
  have "foldl (\<lambda>a b. a * 256 + byte_val b) 0 (rev cs) = le_nat cs" for cs
    by (induction cs) simp_all
  from this [of "rev bs"] show ?thesis by (simp add: be_nat_def)
qed

lemma be_nat_Nil [simp]: "be_nat [] = 0"
  by (simp add: be_nat_def)

lemma be_nat_snoc [simp]: "be_nat (bs @ [b]) = be_nat bs * 256 + byte_val b"
  by (simp add: be_nat_def)

lemma le_nat_append: "le_nat (xs @ ys) = le_nat xs + 256 ^ length xs * le_nat ys"
  by (induction xs) (simp_all add: algebra_simps)

lemma be_nat_append: "be_nat (xs @ ys) = be_nat xs * 256 ^ length ys + be_nat ys"
  by (simp add: be_nat_rev le_nat_append)

lemma be_nat_Cons: "be_nat (b # bs) = byte_val b * 256 ^ length bs + be_nat bs"
  using be_nat_append [of "[b]" bs] by (simp add: be_nat_def)

lemma le_nat_less: "le_nat bs < 256 ^ length bs"
proof (induction bs)
  case (Cons b bs)
  have "byte_val b + 256 * le_nat bs < 256 * Suc (le_nat bs)"
    using byte_val_less [of b] by simp
  also have "\<dots> \<le> 256 * 256 ^ length bs"
    using Cons.IH by (intro mult_le_mono) simp_all
  finally show ?case by simp
qed simp

lemma be_nat_less: "be_nat bs < 256 ^ length bs"
  using le_nat_less [of "rev bs"] by (simp add: be_nat_rev)

lemma le_nat_to_le: "le_nat (to_le k n) = n mod 256 ^ k"
proof (induction k arbitrary: n)
  case (Suc k)
  have "n mod (256 * 256 ^ k) = n mod 256 + 256 * (n div 256 mod 256 ^ k)"
    by (simp add: mod_mult2_eq)
  then show ?case using Suc.IH by simp
qed simp

lemma be_nat_to_be: "be_nat (to_be k n) = n mod 256 ^ k"
  by (simp add: be_nat_rev to_be_def le_nat_to_le)

lemma le_nat_to_le_id [simp, byte_simps]: "n < 256 ^ k \<Longrightarrow> le_nat (to_le k n) = n"
  by (simp add: le_nat_to_le)

lemma be_nat_to_be_id [simp, byte_simps]: "n < 256 ^ k \<Longrightarrow> be_nat (to_be k n) = n"
  by (simp add: be_nat_to_be)

lemma to_le_le_nat: "k = length bs \<Longrightarrow> to_le k (le_nat bs) = bs"
proof (induction bs arbitrary: k)
  case (Cons b bs)
  then obtain j where k: "k = Suc j" and j: "j = length bs" by (cases k) auto
  have "(byte_val b + 256 * le_nat bs) div 256 = le_nat bs"
    using byte_val_less [of b] by simp
  then show ?case using Cons.IH [OF j] k by (simp add: mod_less)
qed simp

lemma to_be_be_nat [simp, byte_simps]: "k = length bs \<Longrightarrow> to_be k (be_nat bs) = bs"
  using to_le_le_nat [of k "rev bs"] by (simp add: to_be_def be_nat_rev)

lemma le_nat_inj: "length xs = length ys \<Longrightarrow> le_nat xs = le_nat ys \<Longrightarrow> xs = ys"
  by (metis to_le_le_nat)

lemma be_nat_inj: "length xs = length ys \<Longrightarrow> be_nat xs = be_nat ys \<Longrightarrow> xs = ys"
  by (metis to_be_be_nat)

section \<open>Results of fallible operations\<close>

text \<open>
  A Python function that raises is a HOL function into \<open>'e + 'a\<close>: \<^term>\<open>Inl e\<close> is the
  exception, \<^term>\<open>Inr x\<close> the returned value.
\<close>

definition is_ok :: "'e + 'a \<Rightarrow> bool" where
  "is_ok r = (case r of Inl _ \<Rightarrow> False | Inr _ \<Rightarrow> True)"

lemma is_ok_simps [simp]: "is_ok (Inl e) = False" "is_ok (Inr x) = True"
  by (simp_all add: is_ok_def)

lemma is_ok_iff: "is_ok r \<longleftrightarrow> (\<exists>x. r = Inr x)"
  by (cases r) simp_all

definition bindE :: "'e + 'a \<Rightarrow> ('a \<Rightarrow> 'e + 'b) \<Rightarrow> 'e + 'b" where
  "bindE r f = (case r of Inl e \<Rightarrow> Inl e | Inr x \<Rightarrow> f x)"

lemma bindE_simps [simp]: "bindE (Inl e) f = Inl e" "bindE (Inr x) f = f x"
  by (simp_all add: bindE_def)

lemma bindE_InrE [res_simps]: "bindE r f = Inr y \<longleftrightarrow> (\<exists>x. r = Inr x \<and> f x = Inr y)"
  by (cases r) simp_all

lemma if_InrE [res_simps]: "(if c then Inl e else r) = Inr y \<longleftrightarrow> \<not> c \<and> r = Inr y"
  by simp

section \<open>The codec contract\<close>

text \<open>
  A strict codec: what the encoder accepts decodes to itself, and the decoder accepts nothing but
  the encoder's own output. \<open>fits\<close> is the size condition under which the decoder's own
  limits admit the encoding.
\<close>

locale codec =
  fixes encode :: "'a \<Rightarrow> 'e + bytes"
    and decode :: "bytes \<Rightarrow> 'f + 'a"
    and fits :: "'a \<Rightarrow> bool"
  assumes decode_encode: "fits x \<Longrightarrow> encode x = Inr w \<Longrightarrow> decode w = Inr x"
    and encode_decode: "decode w = Inr x \<Longrightarrow> encode x = Inr w"
begin

lemma encode_injective: "fits x \<Longrightarrow> fits y \<Longrightarrow> encode x = Inr w \<Longrightarrow> encode y = Inr w \<Longrightarrow> x = y"
  using decode_encode [of x w] decode_encode [of y w] by simp

lemma wire_unique: "decode w = Inr x \<Longrightarrow> decode w' = Inr x \<Longrightarrow> w = w'"
  using encode_decode [of w x] encode_decode [of w' x] by simp

lemma decode_iff: "fits x \<Longrightarrow> decode w = Inr x \<longleftrightarrow> encode x = Inr w"
  using decode_encode encode_decode by blast

end

section \<open>State machines\<close>

text \<open>
  A machine whose operations are applied one after the other (the source serialises them with a
  lock or runs them on one thread): \<open>run\<close> threads the state and collects the outputs.
\<close>

primrec run :: "('s \<Rightarrow> 'op \<Rightarrow> 's \<times> 'o) \<Rightarrow> 's \<Rightarrow> 'op list \<Rightarrow> 's \<times> 'o list" where
  "run f s [] = (s, [])"
| "run f s (op # ops) =
     (let (s', out) = f s op; (s'', outs) = run f s' ops in (s'', out # outs))"

lemma fst_run_Cons [simp]: "fst (run f s (op # ops)) = fst (run f (fst (f s op)) ops)"
  by (simp add: case_prod_unfold Let_def)

lemma snd_run_Cons [simp]: "snd (run f s (op # ops)) = snd (f s op) # snd (run f (fst (f s op)) ops)"
  by (simp add: case_prod_unfold Let_def)

lemma run_append: "run f s (xs @ ys) =
    (let (s', out) = run f s xs; (s'', out') = run f s' ys in (s'', out @ out'))"
  by (induction xs arbitrary: s) (simp_all add: Let_def split: prod.splits)

lemma run_snoc: "run f s (xs @ [x]) = (let (s', out) = run f s xs; (s'', z) = f s' x in (s'', out @ [z]))"
  by (simp add: run_append Let_def split: prod.splits)

text \<open>Repeating an operation leads from states with one property to states with another.\<close>

definition leads :: "('s \<Rightarrow> 'op \<Rightarrow> 's \<times> 'o) \<Rightarrow> 'op \<Rightarrow> nat \<Rightarrow> ('s \<Rightarrow> bool) \<Rightarrow> ('s \<Rightarrow> bool) \<Rightarrow> bool" where
  "leads f op n P Q \<longleftrightarrow> (\<forall>s. P s \<longrightarrow> Q (fst (run f s (replicate n op))))"

lemma leads_one: "(\<And>s. P s \<Longrightarrow> Q (fst (f s op))) \<Longrightarrow> leads f op 1 P Q"
  by (simp add: leads_def case_prod_unfold Let_def)

lemma leads_trans: "leads f op m P Q \<Longrightarrow> leads f op n Q R \<Longrightarrow> leads f op (m + n) P R"
  by (simp add: leads_def replicate_add run_append case_prod_unfold Let_def)

lemma leads_chain: "(\<And>i. i < n \<Longrightarrow> leads f op 1 (P i) (P (Suc i))) \<Longrightarrow> leads f op n (P 0) (P n)"
proof (induction n)
  case 0
  then show ?case by (simp add: leads_def)
next
  case (Suc n)
  from leads_trans [OF Suc.IH Suc.prems [of n]] Suc.prems show ?case by simp
qed

text \<open>A predicate every operation keeps.\<close>

locale machine =
  fixes step :: "'s \<Rightarrow> 'op \<Rightarrow> 's \<times> 'o"
    and inv :: "'s \<Rightarrow> bool"
  assumes inv_step: "inv s \<Longrightarrow> inv (fst (step s op))"
begin

lemma inv_run: "inv s \<Longrightarrow> inv (fst (run step s ops))"
  by (induction ops arbitrary: s) (simp_all add: inv_step del: run.simps(2))

end

text \<open>
  A machine that implements a specification: under the invariant, every operation commutes with
  the abstraction and returns what the specification returns. So whole runs do.
\<close>

locale implements = machine step inv
  for step :: "'s \<Rightarrow> 'op \<Rightarrow> 's \<times> 'o" and inv :: "'s \<Rightarrow> bool" +
  fixes abs :: "'s \<Rightarrow> 'a"
    and spec :: "'a \<Rightarrow> 'op \<Rightarrow> 'a \<times> 'o"
  assumes commutes: "inv s \<Longrightarrow> spec (abs s) op = (abs (fst (step s op)), snd (step s op))"
begin

lemma run_commutes: "inv s \<Longrightarrow> run spec (abs s) ops = (abs (fst (run step s ops)), snd (run step s ops))"
proof (induction ops arbitrary: s)
  case (Cons op ops)
  obtain s' x where st: "step s op = (s', x)" by fastforce
  with inv_step [OF Cons.prems, of op] have "inv s'" by simp
  from Cons.IH [OF this] commutes [OF Cons.prems, of op] show ?case
    by (simp add: st case_prod_unfold Let_def)
qed simp

end

end
