(* ===== verification/Strict_Wav.thy ===== *)
theory Strict_Wav
  imports Prelude
begin

text \<open>
  The canonical WAV intake parser of \<open>strict_wav.py\<close>, the only code that reads wire audio:
  the chunk walk of \<open>parse_canonical_wav\<close>, its rejections in source order, and
  \<open>build_canonical_wav\<close>. An independent reading of the RIFF container
  (\<open>riff_chunks\<close>) serves as specification of what the parser accepts.
\<close>

section \<open>The parser\<close>

definition CANONICAL_SAMPLE_RATE :: nat where "CANONICAL_SAMPLE_RATE = 16000"
definition CANONICAL_CHANNELS :: nat where "CANONICAL_CHANNELS = 1"
definition CANONICAL_BITS :: nat where "CANONICAL_BITS = 16"
definition MAX_AUDIO_SECONDS :: nat where "MAX_AUDIO_SECONDS = 330"

definition MAX_PAYLOAD_BYTES :: nat where
  "MAX_PAYLOAD_BYTES = 12 + 8 + 40 + 8 + (CANONICAL_SAMPLE_RATE * 2 * MAX_AUDIO_SECONDS) + 1024"

lemmas wav_constants [simp] = CANONICAL_SAMPLE_RATE_def CANONICAL_CHANNELS_def CANONICAL_BITS_def
  MAX_AUDIO_SECONDS_def MAX_PAYLOAD_BYTES_def

text \<open>\<open>WavReject\<close>, one constructor per message.\<close>

datatype WavReject =
    Payload_exceeds_maximum | Payload_too_small | Not_RIFF | Not_WAVE
  | Truncated_chunk | Fmt_too_small | Not_PCM nat | Not_mono nat | Bad_rate nat | Bad_bits nat
  | Data_before_fmt | Missing_fmt | Missing_data | Odd_data | Empty_audio | Audio_too_long

text \<open>The \<open>fmt\<close> branch: the six fields of \<open>"<HHIIHH"\<close> at the chunk body.\<close>

definition check_fmt :: "bytes \<Rightarrow> nat \<Rightarrow> nat \<Rightarrow> WavReject option" where
  "check_fmt payload body_start chunk_size =
     (let fmt_tag = le_nat (pslice body_start (body_start + 2) payload);
          channels = le_nat (pslice (body_start + 2) (body_start + 4) payload);
          rate = le_nat (pslice (body_start + 4) (body_start + 8) payload);
          bits = le_nat (pslice (body_start + 14) (body_start + 16) payload)
      in if chunk_size < 16 then Some Fmt_too_small
         else if fmt_tag \<noteq> 1 then Some (Not_PCM fmt_tag)
         else if channels \<noteq> CANONICAL_CHANNELS then Some (Not_mono channels)
         else if rate \<noteq> CANONICAL_SAMPLE_RATE then Some (Bad_rate rate)
         else if bits \<noteq> CANONICAL_BITS then Some (Bad_bits bits)
         else None)"

text \<open>The \<open>while pos + 8 <= len(payload)\<close> loop, returning \<open>fmt_seen\<close> and \<open>data\<close>.\<close>

function wav_walk :: "bytes \<Rightarrow> nat \<Rightarrow> bool \<Rightarrow> bytes option \<Rightarrow> WavReject + (bool \<times> bytes option)" where
  "wav_walk payload pos fmt_seen data =
     (if pos + 8 \<le> length payload then
        let chunk_id = pslice pos (pos + 4) payload;
            chunk_size = le_nat (pslice (pos + 4) (pos + 8) payload);
            body_start = pos + 8;
            body_end = body_start + chunk_size;
            next_pos = body_end + (chunk_size AND 1)
        in if body_end > length payload then Inl Truncated_chunk
           else if chunk_id = ''fmt '' then
             (case check_fmt payload body_start chunk_size of
                Some e \<Rightarrow> Inl e
              | None \<Rightarrow> wav_walk payload next_pos True data)
           else if chunk_id = ''data'' then
             (if \<not> fmt_seen then Inl Data_before_fmt
              else wav_walk payload next_pos fmt_seen (Some (pslice body_start body_end payload)))
           else wav_walk payload next_pos fmt_seen data
      else Inr (fmt_seen, data))"
  by pat_completeness auto
termination
  by (relation "measure (\<lambda>(payload, pos, _, _). length payload - pos)") auto

declare wav_walk.simps [simp del]

definition parse_canonical_wav :: "bytes \<Rightarrow> WavReject + (bytes \<times> nat)" where
  "parse_canonical_wav payload =
     (if length payload > MAX_PAYLOAD_BYTES then Inl Payload_exceeds_maximum
      else if length payload < 44 then Inl Payload_too_small
      else if pslice 0 4 payload \<noteq> ''RIFF'' then Inl Not_RIFF
      else if pslice 8 12 payload \<noteq> ''WAVE'' then Inl Not_WAVE
      else case wav_walk payload 12 False None of
          Inl e \<Rightarrow> Inl e
        | Inr (fmt_seen, data) \<Rightarrow>
            if \<not> fmt_seen then Inl Missing_fmt
            else case data of
                None \<Rightarrow> Inl Missing_data
              | Some d \<Rightarrow>
                  let n_samples = length d div 2
                  in if length d mod 2 \<noteq> 0 then Inl Odd_data
                     else if n_samples = 0 then Inl Empty_audio
                     else if n_samples > CANONICAL_SAMPLE_RATE * MAX_AUDIO_SECONDS then Inl Audio_too_long
                     else Inr (d, n_samples))"

text \<open>
  \<open>build_canonical_wav\<close>; \<open>struct.pack("<I", n)\<close> raises when \<open>n\<close> does not fit.
\<close>

datatype build_error = Odd_pcm | Struct_error

definition build_canonical_wav :: "bytes \<Rightarrow> build_error + bytes" where
  "build_canonical_wav pcm_data =
     (if length pcm_data mod 2 \<noteq> 0 then Inl Odd_pcm
      else if 36 + length pcm_data \<ge> 2 ^ 32 then Inl Struct_error
      else Inr (''RIFF'' @ to_le 4 (36 + length pcm_data) @ ''WAVE'' @ ''fmt ''
             @ to_le 4 16 @ to_le 2 1 @ to_le 2 CANONICAL_CHANNELS @ to_le 4 CANONICAL_SAMPLE_RATE
             @ to_le 4 (CANONICAL_SAMPLE_RATE * 2) @ to_le 2 2 @ to_le 2 CANONICAL_BITS
             @ ''data'' @ to_le 4 (length pcm_data) @ pcm_data))"

section \<open>Specification: the chunks of a RIFF container\<close>

text \<open>
  The chunk list of the container from an offset on, each chunk padded to an even length;
  \<^term>\<open>None\<close> when a chunk's declared length runs past the payload.
\<close>

function riff_chunks :: "bytes \<Rightarrow> nat \<Rightarrow> (bytes \<times> bytes) list option" where
  "riff_chunks p pos =
     (if pos + 8 \<le> length p then
        let size = le_nat (pslice (pos + 4) (pos + 8) p); stop = pos + 8 + size
        in if stop > length p then None
           else map_option ((#) (pslice pos (pos + 4) p, pslice (pos + 8) stop p))
                  (riff_chunks p (stop + size mod 2))
      else Some [])"
  by pat_completeness auto
termination
  by (relation "measure (\<lambda>(p, pos). length p - pos)") auto

declare riff_chunks.simps [simp del]

definition canonical_fmt :: "bytes \<Rightarrow> bool" where
  "canonical_fmt b \<longleftrightarrow> 16 \<le> length b \<and> le_nat (pslice 0 2 b) = 1 \<and> le_nat (pslice 2 4 b) = 1
     \<and> le_nat (pslice 4 8 b) = 16000 \<and> le_nat (pslice 14 16 b) = 16"

text \<open>All \<open>fmt\<close> chunks are canonical and every \<open>data\<close> chunk has one before it.\<close>

definition canonical_chunks :: "(bytes \<times> bytes) list \<Rightarrow> bool" where
  "canonical_chunks cs \<longleftrightarrow>
     (\<forall>b. (''fmt '', b) \<in> set cs \<longrightarrow> canonical_fmt b) \<and>
     (\<forall>c \<in> set (takeWhile (\<lambda>c. fst c \<noteq> ''fmt '') cs). fst c \<noteq> ''data'')"

primrec last_data :: "(bytes \<times> bytes) list \<Rightarrow> bytes option \<Rightarrow> bytes option" where
  "last_data [] d = d"
| "last_data (c # cs) d = last_data cs (if fst c = ''data'' then Some (snd c) else d)"

section \<open>The parser refines the specification\<close>

primrec accepts :: "bool \<Rightarrow> (bytes \<times> bytes) list \<Rightarrow> bool" where
  "accepts f [] = True"
| "accepts f (c # cs) =
     (if fst c = ''fmt '' then canonical_fmt (snd c) \<and> accepts True cs
      else (fst c = ''data'' \<longrightarrow> f) \<and> accepts f cs)"

lemma accepts_iff:
  "accepts f cs \<longleftrightarrow> (\<forall>b. (''fmt '', b) \<in> set cs \<longrightarrow> canonical_fmt b) \<and>
     (f \<or> (\<forall>c \<in> set (takeWhile (\<lambda>c. fst c \<noteq> ''fmt '') cs). fst c \<noteq> ''data''))"
  by (induction cs arbitrary: f) auto

lemma pslice_pslice: "j \<le> b - a \<Longrightarrow> pslice i j (pslice a b xs) = pslice (a + i) (a + j) xs"
  by (simp add: pslice_def drop_take min_def add.commute)

lemma check_fmt_None:
  assumes "s + n \<le> length p"
  shows "check_fmt p s n = None \<longleftrightarrow> canonical_fmt (pslice s (s + n) p)"
proof (cases "n < 16")
  case False
  then have inner: "pslice i j (pslice s (s + n) p) = pslice (s + i) (s + j) p" if "j \<le> 16" for i j
    using that by (intro pslice_pslice) simp
  have "canonical_fmt (pslice s (s + n) p) \<longleftrightarrow>
      le_nat (pslice (s + 0) (s + 2) p) = 1 \<and> le_nat (pslice (s + 2) (s + 4) p) = 1 \<and>
      le_nat (pslice (s + 4) (s + 8) p) = 16000 \<and> le_nat (pslice (s + 14) (s + 16) p) = 16"
    unfolding canonical_fmt_def using False assms by (subst inner, simp)+ simp
  then show ?thesis
    using False by (simp add: check_fmt_def Let_def)
qed (use assms in \<open>simp add: check_fmt_def canonical_fmt_def\<close>)

lemma wav_walk_Inr_iff:
  "wav_walk p pos f d = Inr (f', d') \<longleftrightarrow>
     (\<exists>cs. riff_chunks p pos = Some cs \<and> accepts f cs \<and>
        f' = (f \<or> ''fmt '' \<in> fst ` set cs) \<and> d' = last_data cs d)"
proof (induction p pos f d rule: wav_walk.induct)
  case (1 p pos f d)
  define n where "n = le_nat (pslice (pos + 4) (pos + 8) p)"
  define cid where "cid = pslice pos (pos + 4) p"
  define nxt where "nxt = pos + 8 + n + n mod 2"
  note unf = wav_walk.simps [of p pos] riff_chunks.simps [of p pos]
    n_def [symmetric] cid_def [symmetric] nxt_def [symmetric] Let_def and_one_eq
  consider (stop) "\<not> pos + 8 \<le> length p" | (over) "pos + 8 \<le> length p" "pos + 8 + n > length p"
    | (chunk) "pos + 8 \<le> length p" "pos + 8 + n \<le> length p"
    by linarith
  then show ?case
  proof cases
    case stop
    then show ?thesis by (auto simp: wav_walk.simps [of p pos] riff_chunks.simps [of p pos])
  next
    case over
    then show ?thesis by (simp add: unf)
  next
    case chunk
    note IH = 1 [OF chunk(1) refl refl refl refl refl, folded n_def cid_def, unfolded and_one_eq, folded nxt_def]
    have fmt: "check_fmt p (pos + 8) n = None \<longleftrightarrow> canonical_fmt (pslice (pos + 8) (pos + 8 + n) p)"
      using chunk by (rule_tac check_fmt_None)
    show ?thesis
    proof (cases "riff_chunks p nxt")
      case None
      then show ?thesis using IH chunk fmt
        by (cases f; cases "check_fmt p (pos + 8) n") (simp_all add: unf)
    next
      case (Some cs)
      then show ?thesis using IH chunk fmt
        by (cases f; cases "check_fmt p (pos + 8) n") (simp_all add: unf)
    qed
  qed
qed

lemma parse_canonical_wav_walk:
  "parse_canonical_wav p = Inr (d, n) \<longleftrightarrow>
     44 \<le> length p \<and> length p \<le> MAX_PAYLOAD_BYTES \<and> take 4 p = ''RIFF'' \<and> pslice 8 12 p = ''WAVE'' \<and>
     wav_walk p 12 False None = Inr (True, Some d) \<and> length d = 2 * n \<and> 0 < n \<and> n \<le> 16000 * 330"
proof (cases "wav_walk p 12 False None")
  case (Inr r)
  obtain f e where r: "r = (f, e)" by (cases r)
  show ?thesis
    by (cases f; cases e) (auto simp: parse_canonical_wav_def Inr r Let_def)
qed (simp add: parse_canonical_wav_def)

text \<open>
  C28. The parser accepts exactly the payloads that the container specification calls canonical:
  size within bounds, RIFF/WAVE magic, well-delimited chunks, every \<open>fmt\<close> chunk PCM, mono,
  16 kHz, 16 bit, a \<open>fmt\<close> before every \<open>data\<close> chunk; the result is the last
  \<open>data\<close> chunk, with a whole, positive and bounded number of samples.
\<close>

theorem parse_canonical_wav_iff:
  "parse_canonical_wav p = Inr (d, n) \<longleftrightarrow>
     44 \<le> length p \<and> length p \<le> MAX_PAYLOAD_BYTES \<and> take 4 p = ''RIFF'' \<and> pslice 8 12 p = ''WAVE'' \<and>
     (\<exists>cs. riff_chunks p 12 = Some cs \<and> canonical_chunks cs \<and> last_data cs None = Some d) \<and>
     length d = 2 * n \<and> 0 < n \<and> n \<le> 16000 * 330"
proof -
  have last_in: "last_data cs e = Some d \<Longrightarrow> e = Some d \<or> (''data'', d) \<in> set cs" for cs e
    by (induction cs arbitrary: e) (force split: if_splits)+
  have acc: "accepts False cs \<longleftrightarrow> canonical_chunks cs" for cs
    by (simp add: accepts_iff canonical_chunks_def)
  have seen: "''fmt '' \<in> fst ` set cs" if "canonical_chunks cs" and "last_data cs None = Some d" for cs
  proof -
    from last_in [OF that(2)] obtain pre post where "cs = pre @ (''data'', d) # post"
      by (auto dest: split_list)
    with that(1) show ?thesis by (force simp: canonical_chunks_def takeWhile_append split: if_splits)
  qed
  have walk: "wav_walk p 12 False None = Inr (True, Some d) \<longleftrightarrow>
      (\<exists>cs. riff_chunks p 12 = Some cs \<and> canonical_chunks cs \<and> last_data cs None = Some d)"
    unfolding wav_walk_Inr_iff acc using seen by auto
  show ?thesis unfolding parse_canonical_wav_walk walk ..
qed

text \<open>
  What \<open>build_canonical_wav\<close> emits for a non-empty recording within the duration bound
  parses back to the same PCM bytes and sample count.
\<close>

theorem build_parse_roundtrip:
  assumes "length pcm = 2 * n" and "0 < n" and "n \<le> CANONICAL_SAMPLE_RATE * MAX_AUDIO_SECONDS"
  shows "\<exists>w. build_canonical_wav pcm = Inr w \<and> parse_canonical_wav w = Inr (pcm, n)"
proof -
  obtain w where w: "build_canonical_wav pcm = Inr w"
    and w_eq: "w = ''RIFF'' @ to_le 4 (36 + length pcm) @ ''WAVE'' @ ''fmt ''
      @ to_le 4 16 @ to_le 2 1 @ to_le 2 1 @ to_le 4 16000 @ to_le 4 32000 @ to_le 2 2 @ to_le 2 16
      @ ''data'' @ to_le 4 (length pcm) @ pcm"
    using assms by (simp add: build_canonical_wav_def)
  have len: "length w = 44 + 2 * n" by (simp add: w_eq assms(1))
  have fmt: "check_fmt w 20 16 = None"
    by (simp add: check_fmt_def w_eq pslice_def)
  have "wav_walk w 12 False None = wav_walk w 36 True None"
    using fmt by (subst wav_walk.simps) (simp add: len, simp add: w_eq pslice_def Let_def)
  also have "\<dots> = wav_walk w (44 + 2 * n) True (Some pcm)"
    using assms by (subst wav_walk.simps) (simp add: len, simp add: w_eq pslice_def and_one_eq Let_def)
  also have "\<dots> = Inr (True, Some pcm)"
    by (subst wav_walk.simps) (simp add: len)
  finally have walk: "wav_walk w 12 False None = Inr (True, Some pcm)" .
  have "take 4 w = ''RIFF''" "pslice 8 12 w = ''WAVE''"
    by (simp_all add: w_eq pslice_def)
  with walk assms have "parse_canonical_wav w = Inr (pcm, n)"
    by (simp add: parse_canonical_wav_def len Let_def)
  with w show ?thesis by blast
qed

theorem build_parse_roundtrip_witness:
  "\<exists>w. build_canonical_wav ''abcd'' = Inr w \<and> parse_canonical_wav w = Inr (''abcd'', 2)"
  by (rule build_parse_roundtrip) simp_all

end
