(* ===== verification/Ratls_Contract.thy ===== *)
theory Ratls_Contract
  imports Prelude
begin

text \<open>
  The RA-TLS v1 wire contract of \<open>ratls_contract.py\<close>: the minimal DER codec
  (\<open>encode_sequence\<close>, \<open>decode_sequence\<close>) and the two evidence envelopes it carries.
  Both envelopes are shown to be strict codecs, so a byte string has at most one reading and an
  envelope at most one encoding.
\<close>

section \<open>DER primitives\<close>

datatype der_error =
    Negative_DER_length | Truncated_DER_length | Invalid_DER_length | Non_minimal_DER_length
  | Expected_DER_tag nat | Truncated_DER_value | Trailing_DER_bytes
  | Negative_DER_integer | Non_minimal_DER_integer | Unexpected_DER_field
  | Unsupported_version nat

text \<open>\<open>int.bit_length()\<close> and the byte count \<open>(n.bit_length() + 7) // 8\<close>.\<close>

fun bit_length :: "nat \<Rightarrow> nat" where
  "bit_length n = (if n = 0 then 0 else Suc (bit_length (n div 2)))"

declare bit_length.simps [simp del]

definition nbytes :: "nat \<Rightarrow> nat" where
  "nbytes n = (bit_length n + 7) div 8"

definition der_length :: "int \<Rightarrow> der_error + bytes" where
  "der_length n =
     (if n < 0 then Inl Negative_DER_length
      else if n < 128 then Inr [byte_of (nat n)]
      else let encoded = to_be (nbytes (nat n)) (nat n)
           in Inr (byte_of (128 OR length encoded) # encoded))"

definition der_tlv :: "nat \<Rightarrow> bytes \<Rightarrow> der_error + bytes" where
  "der_tlv tag v = bindE (der_length (int (length v))) (\<lambda>l. Inr (byte_of tag # l @ v))"

definition der_integer :: "int \<Rightarrow> der_error + bytes" where
  "der_integer v =
     (if v < 0 then Inl Negative_DER_integer
      else let encoded = to_be (max 1 (nbytes (nat v))) (nat v);
               encoded = (if byte_val (hd encoded) AND 128 \<noteq> 0 then CHR 0x00 # encoded else encoded)
           in der_tlv 0x02 encoded)"

definition der_octets :: "bytes \<Rightarrow> der_error + bytes" where
  "der_octets v = der_tlv 0x04 v"

fun der_concat :: "(der_error + bytes) list \<Rightarrow> der_error + bytes" where
  "der_concat [] = Inr []"
| "der_concat (r # rs) = bindE r (\<lambda>x. bindE (der_concat rs) (\<lambda>xs. Inr (x @ xs)))"

definition der_sequence :: "(der_error + bytes) list \<Rightarrow> der_error + bytes" where
  "der_sequence parts = bindE (der_concat parts) (\<lambda>body. der_tlv 0x30 body)"

definition encode_sequence :: "int \<Rightarrow> bytes list \<Rightarrow> der_error + bytes" where
  "encode_sequence version fields = der_sequence (der_integer version # map der_octets fields)"

definition read_length :: "bytes \<Rightarrow> nat \<Rightarrow> der_error + (nat \<times> nat)" where
  "read_length data offset =
     (if offset \<ge> length data then Inl Truncated_DER_length
      else let first = byte_val (data ! offset); offset = offset + 1
           in if first < 128 then Inr (first, offset)
              else let count = first AND 0x7F
                   in if count = 0 \<or> count > 4 \<or> offset + count > length data then Inl Invalid_DER_length
                      else let encoded = pslice offset (offset + count) data
                           in if hd encoded = CHR 0x00 then Inl Non_minimal_DER_length
                              else let n = be_nat encoded
                                   in if n < 128 then Inl Non_minimal_DER_length
                                      else Inr (n, offset + count))"

definition read_tlv :: "bytes \<Rightarrow> nat \<Rightarrow> nat \<Rightarrow> der_error + (bytes \<times> nat)" where
  "read_tlv data offset expected_tag =
     (if offset \<ge> length data \<or> byte_val (data ! offset) \<noteq> expected_tag then Inl (Expected_DER_tag expected_tag)
      else bindE (read_length data (offset + 1)) (\<lambda>(n, value_offset).
        let stop = value_offset + n
        in if stop > length data then Inl Truncated_DER_value
           else Inr (pslice value_offset stop data, stop)))"

text \<open>The \<open>for _ in range(octet_count)\<close> loop.\<close>

fun read_octets :: "bytes \<Rightarrow> nat \<Rightarrow> nat \<Rightarrow> der_error + (bytes list \<times> nat)" where
  "read_octets body offset 0 = Inr ([], offset)"
| "read_octets body offset (Suc k) =
     bindE (read_tlv body offset 0x04) (\<lambda>(v, offset).
       bindE (read_octets body offset k) (\<lambda>(vs, offset). Inr (v # vs, offset)))"

definition decode_sequence :: "bytes \<Rightarrow> nat \<Rightarrow> der_error + (nat \<times> bytes list)" where
  "decode_sequence data octet_count =
     bindE (read_tlv data 0 0x30) (\<lambda>(body, stop).
       if stop \<noteq> length data then Inl Trailing_DER_bytes
       else bindE (read_tlv body 0 0x02) (\<lambda>(integer, offset).
         if integer = [] \<or> (length integer > 1 \<and> integer ! 0 = CHR 0x00 \<and> byte_val (integer ! 1) < 0x80)
         then Inl Non_minimal_DER_integer
         else bindE (read_octets body offset octet_count) (\<lambda>(fields, offset).
           if offset \<noteq> length body then Inl Unexpected_DER_field
           else Inr (be_nat integer, fields))))"

section \<open>The two envelopes\<close>

definition PROTOCOL_VERSION :: nat where "PROTOCOL_VERSION = 1"

record CompositeEvidence =
  owner_nonce :: bytes
  tls_spki_der :: bytes
  amd_report :: bytes
  hcl_report :: bytes
  ak_public_key_pem :: bytes
  quote_message :: bytes
  quote_signature :: bytes
  quote_pcrs :: bytes
  amd_ark_pem :: bytes
  amd_ask_pem :: bytes
  amd_vcek_pem :: bytes
  gpu_envelope :: bytes

definition composite_values :: "CompositeEvidence \<Rightarrow> bytes list" where
  "composite_values e = [owner_nonce e, tls_spki_der e, amd_report e, hcl_report e, ak_public_key_pem e,
     quote_message e, quote_signature e, quote_pcrs e, amd_ark_pem e, amd_ask_pem e, amd_vcek_pem e,
     gpu_envelope e]"

definition composite_to_der :: "CompositeEvidence \<Rightarrow> der_error + bytes" where
  "composite_to_der e = encode_sequence (int PROTOCOL_VERSION) (composite_values e)"

definition composite_from_der :: "bytes \<Rightarrow> der_error + CompositeEvidence" where
  "composite_from_der data =
     bindE (decode_sequence data 12) (\<lambda>(version, fields).
       if version \<noteq> PROTOCOL_VERSION then Inl (Unsupported_version version)
       else case fields of
           [a, b, c, d, e, f, g, h, i, j, k, l] \<Rightarrow>
             Inr \<lparr>owner_nonce = a, tls_spki_der = b, amd_report = c, hcl_report = d, ak_public_key_pem = e,
                  quote_message = f, quote_signature = g, quote_pcrs = h, amd_ark_pem = i, amd_ask_pem = j,
                  amd_vcek_pem = k, gpu_envelope = l\<rparr>
         | _ \<Rightarrow> Inl Unexpected_DER_field)"

record ExporterProof =
  ep_owner_nonce :: bytes
  ep_tls_spki_der :: bytes
  ep_tls_exporter :: bytes
  ep_quote_message :: bytes
  ep_quote_signature :: bytes
  ep_quote_pcrs :: bytes

definition exporter_values :: "ExporterProof \<Rightarrow> bytes list" where
  "exporter_values p = [ep_owner_nonce p, ep_tls_spki_der p, ep_tls_exporter p, ep_quote_message p,
     ep_quote_signature p, ep_quote_pcrs p]"

definition exporter_to_der :: "ExporterProof \<Rightarrow> der_error + bytes" where
  "exporter_to_der p = encode_sequence (int PROTOCOL_VERSION) (exporter_values p)"

definition exporter_from_der :: "bytes \<Rightarrow> der_error + ExporterProof" where
  "exporter_from_der data =
     bindE (decode_sequence data 6) (\<lambda>(version, fields).
       if version \<noteq> PROTOCOL_VERSION then Inl (Unsupported_version version)
       else case fields of
           [a, b, c, d, e, f] \<Rightarrow>
             Inr \<lparr>ep_owner_nonce = a, ep_tls_spki_der = b, ep_tls_exporter = c, ep_quote_message = d,
                  ep_quote_signature = e, ep_quote_pcrs = f\<rparr>
         | _ \<Rightarrow> Inl Unexpected_DER_field)"

section \<open>Lengths\<close>

lemma bit_length_bounds: "0 < n \<Longrightarrow> 0 < bit_length n \<and> 2 ^ (bit_length n - 1) \<le> n \<and> n < 2 ^ bit_length n"
proof (induction n rule: bit_length.induct)
  case (1 n)
  show ?case
  proof (cases "n = 1")
    case True
    then show ?thesis by (simp add: bit_length.simps [of "Suc 0"] bit_length.simps [of 0])
  next
    case False
    with "1.prems" have half: "0 < n div 2" by simp
    define b where "b = bit_length (n div 2)"
    have b: "0 < b" "2 ^ (b - 1) \<le> n div 2" "n div 2 < 2 ^ b"
      using "1.IH" half "1.prems" by (simp_all add: b_def)
    then obtain c where c: "b = Suc c" by (cases b) auto
    have "bit_length n = Suc b" using "1.prems" by (simp add: b_def bit_length.simps [of n])
    with b c show ?thesis by auto
  qed
qed

lemma nbytes_bounds: "0 < n \<Longrightarrow> 0 < nbytes n \<and> 256 ^ (nbytes n - 1) \<le> n \<and> n < 256 ^ nbytes n"
proof -
  assume "0 < n"
  from bit_length_bounds [OF this] have b: "0 < bit_length n" "2 ^ (bit_length n - 1) \<le> n" "n < 2 ^ bit_length n"
    by auto
  have p: "(256 :: nat) ^ k = 2 ^ (8 * k)" for k by (simp add: power_mult)
  have "8 * (nbytes n - 1) \<le> bit_length n - 1" "bit_length n \<le> 8 * nbytes n" "0 < nbytes n"
    using b(1) by (auto simp: nbytes_def)
  then have "(2 :: nat) ^ (8 * (nbytes n - 1)) \<le> 2 ^ (bit_length n - 1)"
    and "(2 :: nat) ^ bit_length n \<le> 2 ^ (8 * nbytes n)"
    by (simp_all add: power_increasing)
  with b \<open>0 < nbytes n\<close> show ?thesis unfolding p by linarith
qed

lemma nbytes_unique:
  assumes "256 ^ (k - 1) \<le> n" and "n < 256 ^ k" and "0 < n"
  shows "nbytes n = k"
proof -
  have b: "256 ^ (nbytes n - 1) \<le> n" "n < 256 ^ nbytes n" "0 < nbytes n"
    using nbytes_bounds [OF assms(3)] by auto
  have "\<not> k < nbytes n"
  proof
    assume "k < nbytes n"
    then have "(256 :: nat) ^ k \<le> 256 ^ (nbytes n - 1)" by (intro power_increasing) auto
    with b assms show False by linarith
  qed
  moreover have "\<not> nbytes n < k"
  proof
    assume "nbytes n < k"
    then have "(256 :: nat) ^ nbytes n \<le> 256 ^ (k - 1)" by (intro power_increasing) auto
    with b assms show False by linarith
  qed
  ultimately show ?thesis by linarith
qed

lemma be_nat_hd_nonzero:
  assumes "bs \<noteq> []" and "hd bs \<noteq> CHR 0x00"
  shows "256 ^ (length bs - 1) \<le> be_nat bs" and "0 < be_nat bs"
proof -
  obtain b cs where bs: "bs = b # cs" using assms(1) by (cases bs) auto
  have "byte_val b \<noteq> 0"
    using assms(2) bs of_char_eq_iff [of b "CHR 0x00", where 'a = nat] by simp
  then have "256 ^ length cs \<le> byte_val b * 256 ^ length cs" by simp
  then show "256 ^ (length bs - 1) \<le> be_nat bs" by (simp add: bs be_nat_Cons add_increasing2 del: mult_le_cancel2)
  moreover have "0 < (256 :: nat) ^ (length bs - 1)" by simp
  ultimately show "0 < be_nat bs" by linarith
qed

lemma nbytes_be_nat: "bs \<noteq> [] \<Longrightarrow> hd bs \<noteq> CHR 0x00 \<Longrightarrow> nbytes (be_nat bs) = length bs"
  using be_nat_hd_nonzero be_nat_less by (intro nbytes_unique) auto

lemma nbytes_small: "0 < n \<Longrightarrow> n < 256 ^ k \<Longrightarrow> nbytes n \<le> k"
proof -
  assume "0 < n" "n < 256 ^ k"
  then have "256 ^ (nbytes n - 1) < (256 :: nat) ^ k" using nbytes_bounds [of n] by linarith
  then have "nbytes n - 1 < k" by (simp add: power_strict_increasing_iff)
  then show ?thesis by simp
qed

lemma hd_to_be_nbytes: "0 < n \<Longrightarrow> hd (to_be (nbytes n) n) \<noteq> CHR 0x00"
proof
  assume n: "0 < n" and z: "hd (to_be (nbytes n) n) = CHR 0x00"
  note b = nbytes_bounds [OF n]
  obtain c cs where cs: "to_be (nbytes n) n = c # cs" using b length_to_be [of "nbytes n" n] by (cases "to_be (nbytes n) n") auto
  then have len: "length cs = nbytes n - 1" using length_to_be [of "nbytes n" n] by simp
  have "n = be_nat (c # cs)" using b be_nat_to_be_id [of n "nbytes n"] by (simp add: cs)
  also have "\<dots> = be_nat cs" using z by (simp add: cs be_nat_Cons)
  also have "\<dots> < 256 ^ (nbytes n - 1)" using be_nat_less [of cs] by (simp add: len)
  finally show False using b by linarith
qed

lemma or_128: "0 < k \<Longrightarrow> k \<le> 4 \<Longrightarrow> (128 OR k :: nat) = 128 + k"
proof -
  assume "0 < k" "k \<le> 4"
  then have "k = 1 \<or> k = 2 \<or> k = 3 \<or> k = 4" by linarith
  then show ?thesis by auto
qed

lemma and_127: "128 \<le> f \<Longrightarrow> f < 256 \<Longrightarrow> (f AND 127 :: nat) = f - 128"
  using take_bit_eq_mask [of 7 f] by (auto simp: mask_eq_exp_minus_1 take_bit_eq_mod mod_if split: if_splits)

section \<open>Round trips of the primitives\<close>

text \<open>What \<^const>\<open>der_length\<close> writes, \<^const>\<open>read_length\<close> reads back wherever it stands.\<close>

lemma read_length_written:
  assumes "der_length (int n) = Inr l" and "n < 2 ^ 32" and "data = pre @ l @ post"
  shows "read_length data (length pre) = Inr (n, length pre + length l)"
proof (cases "n < 128")
  case True
  then have "l = [byte_of n]" using assms(1) by (simp add: der_length_def)
  with True show ?thesis by (simp add: read_length_def assms(3))
next
  case False
  define k where "k = nbytes n"
  have k: "0 < k" "k \<le> 4" and n: "n < 256 ^ k" and z: "hd (to_be k n) \<noteq> CHR 0x00"
    using False assms(2) nbytes_bounds [of n] nbytes_small [of n 4] hd_to_be_nbytes [of n] by (auto simp: k_def)
  have l: "l = byte_of (128 + k) # to_be k n"
    using False assms(1) or_128 [OF k] by (simp add: der_length_def k_def Let_def)
  have f: "(128 + k) AND 127 = k" using k by (subst and_127) auto
  have e: "pslice (Suc (length pre)) (Suc (length pre) + k) data = to_be k n"
    by (simp add: assms(3) l pslice_def)
  show ?thesis
    using k n z f e False by (simp add: read_length_def assms(3) l Let_def)
qed

lemma read_tlv_written:
  assumes "der_tlv tag v = Inr w" and "length v < 2 ^ 32" and "data = pre @ w @ post" and "tag < 256"
  shows "read_tlv data (length pre) tag = Inr (v, length pre + length w)"
proof -
  obtain l where l: "der_length (int (length v)) = Inr l" and w: "w = byte_of tag # l @ v"
    using assms(1) by (auto simp: der_tlv_def res_simps)
  have "read_length data (length (pre @ [byte_of tag])) = Inr (length v, length (pre @ [byte_of tag]) + length l)"
    using l assms(2) by (rule read_length_written) (simp add: assms(3) w)
  then show ?thesis
    using assms(4) by (simp add: read_tlv_def assms(3) w Let_def pslice_def)
qed

text \<open>Conversely, whatever the readers accept is what the writers produce.\<close>

lemma read_length_strict:
  assumes "read_length data off = Inr (n, e)"
  shows "off < e \<and> e \<le> length data \<and> n < 2 ^ 32 \<and> der_length (int n) = Inr (pslice off e data)"
proof -
  define f where "f = byte_val (data ! off)"
  have off: "off < length data" using assms by (simp add: read_length_def split: if_splits)
  have fb: "f < 256" by (simp add: f_def)
  have one: "pslice off (Suc off) data = [data ! off]"
    using off by (simp add: pslice_def take_Suc_conv_app_nth hd_drop_conv_nth Cons_nth_drop_Suc [symmetric])
  show ?thesis
  proof (cases "f < 128")
    case True
    with assms off have "n = f" "e = Suc off" by (simp_all add: read_length_def f_def)
    with True off one show ?thesis by (simp add: der_length_def f_def)
  next
    case False
    define c where "c = f AND 127"
    define enc where "enc = pslice (Suc off) (Suc off + c) data"
    have facts: "0 < c" "c \<le> 4" "Suc off + c \<le> length data" "hd enc \<noteq> CHR 0x00" "n = be_nat enc" "128 \<le> n"
        "e = Suc off + c"
      using assms off False by (auto simp: read_length_def f_def [symmetric] c_def enc_def Let_def split: if_splits)
    then have le: "length enc = c" by (simp add: enc_def)
    with facts have "enc \<noteq> []" by auto
    with facts le have k: "nbytes n = c" by (simp add: nbytes_be_nat)
    have n32: "n < 2 ^ 32"
    proof -
      have "n < 256 ^ c" using be_nat_less [of enc] by (simp add: facts(5) le)
      also have "(256 :: nat) ^ c \<le> 256 ^ 4" using facts(2) by (intro power_increasing) auto
      finally show ?thesis by simp
    qed
    have "128 OR c = f" using or_128 [OF facts(1,2)] and_127 [of f] False fb by (simp add: c_def)
    moreover have "pslice off e data = [data ! off] @ enc"
      unfolding enc_def facts(7) one [symmetric] by (subst pslice_adjacent) simp_all
    moreover have "to_be c n = enc" using facts(5) le by simp
    ultimately show ?thesis
      using facts n32 k le by (simp add: der_length_def Let_def f_def)
  qed
qed

lemma read_tlv_strict:
  assumes "read_tlv data off tag = Inr (v, e)"
  shows "off < e \<and> e \<le> length data \<and> length v < 2 ^ 32 \<and> der_tlv tag v = Inr (pslice off e data)"
proof -
  from assms obtain n vo where off: "off < length data" "byte_val (data ! off) = tag"
    and rl: "read_length data (off + 1) = Inr (n, vo)" and e: "e = vo + n" "e \<le> length data"
    and v: "v = pslice vo e data"
    by (auto simp: read_tlv_def res_simps Let_def split: if_splits prod.splits)
  note s = read_length_strict [OF rl]
  have lv: "length v = n" using v e by simp
  have "pslice off e data = [data ! off] @ pslice (off + 1) vo data @ v"
  proof -
    have "[data ! off] = pslice off (off + 1) data"
      using off by (simp add: pslice_def take_Suc_conv_app_nth hd_drop_conv_nth Cons_nth_drop_Suc [symmetric])
    then show ?thesis using s e unfolding v by (simp add: pslice_adjacent del: append_Cons append_Nil)
  qed
  moreover have "byte_of tag = data ! off" using off(2) by auto
  ultimately show ?thesis
    using s e lv by (simp add: der_tlv_def)
qed

section \<open>Round trips of sequences\<close>

lemma der_length_total: "\<exists>l. der_length (int n) = Inr l"
  by (simp add: der_length_def Let_def)

lemma der_tlv_total: "\<exists>w. der_tlv tag v = Inr w \<and> length v < length w"
  using der_length_total [of "length v"] by (auto simp: der_tlv_def)

lemma der_concat_octets_total:
  "\<exists>w. der_concat (map der_octets fs) = Inr w \<and> (\<forall>f \<in> set fs. length f \<le> length w)"
proof (induction fs)
  case (Cons f fs)
  then obtain w where "der_concat (map der_octets fs) = Inr w" "\<forall>f \<in> set fs. length f \<le> length w" by blast
  moreover obtain a where "der_octets f = Inr a" "length f < length a"
    using der_tlv_total unfolding der_octets_def by blast
  ultimately show ?case by (intro exI [of _ "a @ w"]) auto
qed simp

lemma read_octets_written:
  assumes "der_concat (map der_octets fs) = Inr w" and "\<forall>f \<in> set fs. length f < 2 ^ 32"
    and "data = pre @ w @ post"
  shows "read_octets data (length pre) (length fs) = Inr (fs, length pre + length w)"
  using assms
proof (induction fs arbitrary: w pre)
  case (Cons f fs)
  then obtain a b where a: "der_octets f = Inr a" and b: "der_concat (map der_octets fs) = Inr b" and w: "w = a @ b"
    by (auto simp: res_simps)
  have "read_tlv data (length pre) 4 = Inr (f, length pre + length a)"
    using a [unfolded der_octets_def] by (rule read_tlv_written) (use Cons.prems w in auto)
  moreover have "read_octets data (length (pre @ a)) (length fs) = Inr (fs, length (pre @ a) + length b)"
    using b by (rule Cons.IH) (use Cons.prems w in auto)
  ultimately show ?case by (simp add: w)
qed simp

lemma read_octets_strict:
  assumes "read_octets data off k = Inr (fs, e)" and "off \<le> length data"
  shows "length fs = k \<and> off \<le> e \<and> e \<le> length data \<and> der_concat (map der_octets fs) = Inr (pslice off e data)"
  using assms
proof (induction k arbitrary: off fs)
  case 0
  then show ?case by (auto simp: pslice_def)
next
  case (Suc k)
  then obtain v o1 vs where tlv: "read_tlv data off 4 = Inr (v, o1)"
    and rest: "read_octets data o1 k = Inr (vs, e)" and fs: "fs = v # vs"
    by (auto simp: res_simps split: prod.splits)
  note t = read_tlv_strict [OF tlv]
  have IH: "length vs = k \<and> o1 \<le> e \<and> e \<le> length data \<and> der_concat (map der_octets vs) = Inr (pslice o1 e data)"
    using rest by (rule Suc.IH) (use t in simp)
  have "der_octets v = Inr (pslice off o1 data)" using t by (simp add: der_octets_def)
  with t IH show ?case by (simp add: fs pslice_adjacent)
qed

text \<open>The integer that \<^const>\<open>der_integer\<close> writes passes the minimality check and reads back.\<close>

definition minimal_integer :: "bytes \<Rightarrow> bool" where
  "minimal_integer i \<longleftrightarrow> i \<noteq> [] \<and> \<not> (length i > 1 \<and> i ! 0 = CHR 0x00 \<and> byte_val (i ! 1) < 0x80)"

lemma der_integer_minimal:
  obtains i where "der_integer (int v) = der_tlv 0x02 i" "minimal_integer i" "be_nat i = v"
proof -
  define k where "k = max 1 (nbytes v)"
  define enc where "enc = to_be k v"
  have v: "v < 256 ^ k" and ne: "enc \<noteq> []"
    using nbytes_bounds [of v] length_to_be [of k v] by (cases "v = 0"; auto simp: k_def enc_def max_def nbytes_def bit_length.simps [of 0])+
  have val: "be_nat enc = v" using v by (simp add: enc_def)
  have lead: "length enc > 1 \<Longrightarrow> enc ! 0 \<noteq> CHR 0x00"
    using hd_to_be_nbytes [of v] ne by (cases "v = 0") (auto simp: enc_def k_def hd_conv_nth max_def nbytes_def bit_length.simps [of 0] split: if_splits)
  obtain c cs where c: "enc = c # cs" using ne by (cases enc) auto
  have top: "byte_val c AND 128 \<noteq> 0 \<Longrightarrow> \<not> byte_val c < 128"
  proof
    assume a: "byte_val c AND 128 \<noteq> 0" and lt: "byte_val c < 128"
    have "byte_val c AND 2 ^ 7 = 0" unfolding and_exp_eq_0_iff_not_bit using lt by (simp add: bit_iff_odd)
    with a show False by simp
  qed
  have di: "der_integer (int v) = der_tlv 2 (if byte_val (hd enc) AND 128 \<noteq> 0 then CHR 0x00 # enc else enc)"
    by (simp add: der_integer_def enc_def k_def Let_def)
  show ?thesis
  proof (cases "byte_val (hd enc) AND 128 \<noteq> 0")
    case True
    show ?thesis
      by (rule that [of "CHR 0x00 # enc"])
        (use True top c val di in \<open>auto simp: minimal_integer_def be_nat_Cons\<close>)
  next
    case False
    show ?thesis
      by (rule that [of enc])
        (use False lead ne val di in \<open>auto simp: minimal_integer_def\<close>)
  qed
qed

lemma decode_sequence_written:
  assumes w: "encode_sequence (int v) fs = Inr w" and "length w < 2 ^ 32"
  shows "decode_sequence w (length fs) = Inr (v, fs)"
proof -
  obtain i where i: "der_integer (int v) = der_tlv 2 i" "minimal_integer i" "be_nat i = v"
    by (rule der_integer_minimal)
  obtain a where a: "der_tlv 2 i = Inr a" "length i < length a" using der_tlv_total by blast
  obtain b where b: "der_concat (map der_octets fs) = Inr b" "\<forall>f \<in> set fs. length f \<le> length b"
    using der_concat_octets_total by blast
  have tlv: "der_tlv 48 (a @ b) = Inr w"
    using w i(1) a b by (simp add: encode_sequence_def der_sequence_def)
  have len: "length (a @ b) < length w" using tlv der_tlv_total [of 48 "a @ b"] by auto
  have outer: "read_tlv w 0 48 = Inr (a @ b, length w)"
    using read_tlv_written [OF tlv, of w "[]" "[]"] len assms(2) by simp
  have int: "read_tlv (a @ b) 0 2 = Inr (i, length a)"
    using read_tlv_written [OF a(1), of "a @ b" "[]" b] len a assms(2) by simp
  have oct: "read_octets (a @ b) (length a) (length fs) = Inr (fs, length a + length b)"
    using b(1) by (rule read_octets_written [where post = "[]"]) (use len b assms(2) in fastforce)+
  show ?thesis
    using outer int oct i by (auto simp: decode_sequence_def minimal_integer_def)
qed

lemma decode_sequence_strict:
  assumes "decode_sequence data k = Inr (v, fs)"
  obtains i a b where "der_tlv 0x02 i = Inr a" "minimal_integer i" "be_nat i = v" "length fs = k"
    "der_concat (map der_octets fs) = Inr b" "der_tlv 0x30 (a @ b) = Inr data"
proof -
  from assms obtain body i o1 where outer: "read_tlv data 0 48 = Inr (body, length data)"
    and int: "read_tlv body 0 2 = Inr (i, o1)" and min: "minimal_integer i"
    and oct: "read_octets body o1 k = Inr (fs, length body)" and v: "v = be_nat i"
    by (auto simp: decode_sequence_def res_simps minimal_integer_def split: prod.splits if_splits)
  note o = read_tlv_strict [OF outer] and n = read_tlv_strict [OF int]
  have r: "length fs = k \<and> der_concat (map der_octets fs) = Inr (pslice o1 (length body) body)"
    using read_octets_strict [OF oct] n by simp
  have "pslice 0 o1 body @ pslice o1 (length body) body = body"
    using n by (subst pslice_adjacent) auto
  then show ?thesis
    using o n r min v by (intro that [of i "pslice 0 o1 body" "pslice o1 (length body) body"]) simp_all
qed

lemma byte_of_1: "byte_of (Suc 0) = CHR 0x01"
  by (rule of_char_eqI [where 'a = nat]) simp

lemma minimal_integer_one: "minimal_integer i \<Longrightarrow> be_nat i = 1 \<Longrightarrow> i = [CHR 0x01]"
proof -
  assume m: "minimal_integer i" and one: "be_nat i = 1"
  obtain b bs where i: "i = b # bs" using m by (cases i) (auto simp: minimal_integer_def)
  show ?thesis
  proof (cases bs)
    case Nil
    then have "b = byte_of 1" using one char_of_char [of b, where 'a = nat] by (simp add: i be_nat_Cons)
    then show ?thesis using Nil by (simp add: i byte_of_1)
  next
    case (Cons c cs)
    have "byte_val b * 256 ^ length bs \<le> 1" using one by (simp add: i be_nat_Cons)
    moreover have "(256 :: nat) ^ 1 \<le> 256 ^ length bs" using Cons by (intro power_increasing) auto
    ultimately have "byte_val b = 0" by (cases "byte_val b") auto
    then have b: "b = CHR 0x00" using of_char_eq_iff [of b "CHR 0x00", where 'a = nat] by simp
    have "byte_val c * 256 ^ length cs \<le> 1" using one by (simp add: i Cons b be_nat_Cons)
    moreover have "byte_val c \<le> byte_val c * 256 ^ length cs" by simp
    ultimately have "byte_val c < 128" by linarith
    with b Cons m show ?thesis by (simp add: i minimal_integer_def)
  qed
qed

text \<open>For version 1 the decoder is strict: it accepts nothing but the encoder's output.\<close>

lemma decode_sequence_v1:
  assumes "decode_sequence data k = Inr (1, fs)"
  shows "encode_sequence 1 fs = Inr data \<and> length fs = k"
proof -
  from assms obtain i a b where d: "der_tlv 2 i = Inr a" "minimal_integer i" "be_nat i = 1" "length fs = k"
    "der_concat (map der_octets fs) = Inr b" "der_tlv 48 (a @ b) = Inr data"
    by (rule decode_sequence_strict)
  have "i = [CHR 0x01]" using d by (intro minimal_integer_one)
  moreover have "der_integer 1 = der_tlv 2 [CHR 0x01]"
    using nbytes_unique [of 1 1] by (simp add: der_integer_def to_be_def byte_of_1)
  ultimately show ?thesis using d by (simp add: encode_sequence_def der_sequence_def)
qed

section \<open>The envelopes are strict codecs\<close>

definition composite_fits :: "CompositeEvidence \<Rightarrow> bool" where
  "composite_fits e \<longleftrightarrow> (case composite_to_der e of Inl _ \<Rightarrow> True | Inr w \<Rightarrow> length w < 2 ^ 32)"

definition exporter_fits :: "ExporterProof \<Rightarrow> bool" where
  "exporter_fits p \<longleftrightarrow> (case exporter_to_der p of Inl _ \<Rightarrow> True | Inr w \<Rightarrow> length w < 2 ^ 32)"

lemma list12_exhaust: "length xs = 12 \<Longrightarrow> \<exists>a b c d e f g h i j k l. xs = [a, b, c, d, e, f, g, h, i, j, k, l]"
  by (auto simp: numeral_eq_Suc length_Suc_conv)

lemma list6_exhaust: "length xs = 6 \<Longrightarrow> \<exists>a b c d e f. xs = [a, b, c, d, e, f]"
  by (auto simp: numeral_eq_Suc length_Suc_conv)

interpretation composite: codec composite_to_der composite_from_der composite_fits
proof
  fix e w
  assume "composite_fits e" and w: "composite_to_der e = Inr w"
  then have "length w < 2 ^ 32" by (simp add: composite_fits_def)
  with w have "decode_sequence w (length (composite_values e)) = Inr (1, composite_values e)"
    by (intro decode_sequence_written) (simp_all add: composite_to_der_def PROTOCOL_VERSION_def)
  moreover have "length (composite_values e) = 12" by (simp add: composite_values_def)
  ultimately have d: "decode_sequence w 12 = Inr (1, composite_values e)" by (simp only:)
  show "composite_from_der w = Inr e"
    by (simp add: composite_from_der_def d) (simp add: composite_values_def PROTOCOL_VERSION_def)
next
  fix e w
  assume "composite_from_der w = Inr e"
  then obtain fs where d: "decode_sequence w 12 = Inr (1, fs)"
    by (auto simp: composite_from_der_def res_simps PROTOCOL_VERSION_def split: prod.splits if_splits)
  from decode_sequence_v1 [OF d] have enc: "encode_sequence 1 fs = Inr w" and len: "length fs = 12"
    by simp_all
  from list12_exhaust [OF len] \<open>composite_from_der w = Inr e\<close> d have "composite_values e = fs"
    by (auto simp: composite_from_der_def composite_values_def PROTOCOL_VERSION_def)
  with enc show "composite_to_der e = Inr w" by (simp add: composite_to_der_def PROTOCOL_VERSION_def)
qed

interpretation exporter: codec exporter_to_der exporter_from_der exporter_fits
proof
  fix p w
  assume "exporter_fits p" and w: "exporter_to_der p = Inr w"
  then have "length w < 2 ^ 32" by (simp add: exporter_fits_def)
  with w have "decode_sequence w (length (exporter_values p)) = Inr (1, exporter_values p)"
    by (intro decode_sequence_written) (simp_all add: exporter_to_der_def PROTOCOL_VERSION_def)
  moreover have "length (exporter_values p) = 6" by (simp add: exporter_values_def)
  ultimately have d: "decode_sequence w 6 = Inr (1, exporter_values p)" by (simp only:)
  show "exporter_from_der w = Inr p"
    by (simp add: exporter_from_der_def d) (simp add: exporter_values_def PROTOCOL_VERSION_def)
next
  fix p w
  assume "exporter_from_der w = Inr p"
  then obtain fs where d: "decode_sequence w 6 = Inr (1, fs)"
    by (auto simp: exporter_from_der_def res_simps PROTOCOL_VERSION_def split: prod.splits if_splits)
  from decode_sequence_v1 [OF d] have enc: "encode_sequence 1 fs = Inr w" and len: "length fs = 6"
    by simp_all
  from list6_exhaust [OF len] \<open>exporter_from_der w = Inr p\<close> d have "exporter_values p = fs"
    by (auto simp: exporter_from_der_def exporter_values_def PROTOCOL_VERSION_def)
  with enc show "exporter_to_der p = Inr w" by (simp add: exporter_to_der_def PROTOCOL_VERSION_def)
qed

text \<open>
  C25. The certificate extension is a strict codec: for evidence whose encoding stays below the
  four-byte length limit of the reader, a byte string decodes to it exactly when it is its
  encoding. So evidence survives the round trip and no second byte string carries it.
\<close>

theorem composite_der_iff:
  "composite_fits e \<Longrightarrow> composite_from_der w = Inr e \<longleftrightarrow> composite_to_der e = Inr w"
  by (rule composite.decode_iff)

theorem composite_der_iff_witness:
  "composite_fits \<lparr>owner_nonce = ''n'', tls_spki_der = ''s'', amd_report = ''r'', hcl_report = ''h'',
     ak_public_key_pem = ''a'', quote_message = ''m'', quote_signature = ''q'', quote_pcrs = ''p'',
     amd_ark_pem = ''k'', amd_ask_pem = ''j'', amd_vcek_pem = ''v'', gpu_envelope = []\<rparr> \<and>
   composite_from_der
     ([CHR 0x30, CHR 0x26, CHR 0x02, CHR 0x01, CHR 0x01] @
      concat (map (\<lambda>c. [CHR 0x04, CHR 0x01, c]) ''nsrhamqpkjv'') @ [CHR 0x04, CHR 0x00]) =
   Inr \<lparr>owner_nonce = ''n'', tls_spki_der = ''s'', amd_report = ''r'', hcl_report = ''h'',
     ak_public_key_pem = ''a'', quote_message = ''m'', quote_signature = ''q'', quote_pcrs = ''p'',
     amd_ark_pem = ''k'', amd_ask_pem = ''j'', amd_vcek_pem = ''v'', gpu_envelope = []\<rparr>"
  (is "composite_fits ?e \<and> composite_from_der ?w = _")
proof -
  have w: "composite_to_der ?e = Inr ?w" by code_simp
  then have f: "composite_fits ?e" by (simp add: composite_fits_def)
  with w composite_der_iff [OF f, of ?w] show ?thesis by blast
qed

text \<open>
  The exporter proof is a strict codec in the same sense.
\<close>

theorem exporter_der_iff:
  "exporter_fits p \<Longrightarrow> exporter_from_der w = Inr p \<longleftrightarrow> exporter_to_der p = Inr w"
  by (rule exporter.decode_iff)

theorem exporter_der_iff_witness:
  "exporter_fits \<lparr>ep_owner_nonce = ''n'', ep_tls_spki_der = ''s'', ep_tls_exporter = ''x'',
     ep_quote_message = ''m'', ep_quote_signature = ''q'', ep_quote_pcrs = ''p''\<rparr> \<and>
   exporter_from_der
     ([CHR 0x30, CHR 0x15, CHR 0x02, CHR 0x01, CHR 0x01] @
      concat (map (\<lambda>c. [CHR 0x04, CHR 0x01, c]) ''nsxmqp'')) =
   Inr \<lparr>ep_owner_nonce = ''n'', ep_tls_spki_der = ''s'', ep_tls_exporter = ''x'',
     ep_quote_message = ''m'', ep_quote_signature = ''q'', ep_quote_pcrs = ''p''\<rparr>"
  (is "exporter_fits ?p \<and> exporter_from_der ?w = _")
proof -
  have w: "exporter_to_der ?p = Inr ?w" by code_simp
  then have f: "exporter_fits ?p" by (simp add: exporter_fits_def)
  with w exporter_der_iff [OF f, of ?w] show ?thesis by blast
qed

text \<open>
  Below the envelope level the decoder is not strict in its INTEGER: it takes a leading byte
  with the sign bit set for a positive number, so \<open>02 01 80\<close> reads as 128 although
  \<open>encode_sequence\<close> writes 128 as \<open>02 02 00 80\<close>. The version check of both
  envelopes hides the difference.
\<close>

theorem decode_sequence_sign_bit:
  "decode_sequence [CHR 0x30, CHR 0x03, CHR 0x02, CHR 0x01, CHR 0x80] 0 = Inr (128, []) \<and>
   encode_sequence 128 [] = Inr [CHR 0x30, CHR 0x04, CHR 0x02, CHR 0x02, CHR 0x00, CHR 0x80]"
  by code_simp

end
