(* ===== verification/Unicode.thy ===== *)
theory Unicode
  imports Prelude
begin

text \<open>
  Python \<open>str\<close> as a list of code points, and the strict UTF-8 codec of
  \<open>str.encode("utf-8")\<close> and \<open>bytes.decode("utf-8")\<close>: overlong forms, surrogates and
  values beyond U+10FFFF are rejected in both directions.
\<close>

type_synonym ustr = "nat list"

text \<open>The code points of an ASCII literal.\<close>

definition ascii :: "string \<Rightarrow> ustr" where
  "ascii s = map byte_val s"

definition scalar :: "nat \<Rightarrow> bool" where
  "scalar c \<longleftrightarrow> c < 0x110000 \<and> \<not> (0xD800 \<le> c \<and> c \<le> 0xDFFF)"

datatype unicode_error = UnicodeEncodeError | UnicodeDecodeError

definition utf8_char :: "nat \<Rightarrow> bytes" where
  "utf8_char c =
     (if c < 0x80 then [byte_of c]
      else if c < 0x800 then [byte_of (0xC0 + c div 64), byte_of (0x80 + c mod 64)]
      else if c < 0x10000 then
        [byte_of (0xE0 + c div 4096), byte_of (0x80 + c div 64 mod 64), byte_of (0x80 + c mod 64)]
      else
        [byte_of (0xF0 + c div 262144), byte_of (0x80 + c div 4096 mod 64),
         byte_of (0x80 + c div 64 mod 64), byte_of (0x80 + c mod 64)])"

definition utf8_encode :: "ustr \<Rightarrow> unicode_error + bytes" where
  "utf8_encode s = (if list_all scalar s then Inr (concat (map utf8_char s)) else Inl UnicodeEncodeError)"

definition cont :: "char \<Rightarrow> bool" where
  "cont b \<longleftrightarrow> 0x80 \<le> byte_val b \<and> byte_val b < 0xC0"

text \<open>One character off the front of the input.\<close>

definition utf8_next :: "bytes \<Rightarrow> (nat \<times> bytes) option" where
  "utf8_next bs = (case bs of
       [] \<Rightarrow> None
     | b # r \<Rightarrow>
         let v = byte_val b
         in if v < 0x80 then Some (v, r)
            else if v < 0xC0 then None
            else if v < 0xE0 then (case r of
                b1 # r1 \<Rightarrow>
                  let c = (v - 0xC0) * 64 + (byte_val b1 - 0x80)
                  in if cont b1 \<and> 0x80 \<le> c then Some (c, r1) else None
              | _ \<Rightarrow> None)
            else if v < 0xF0 then (case r of
                b1 # b2 # r2 \<Rightarrow>
                  let c = (v - 0xE0) * 4096 + (byte_val b1 - 0x80) * 64 + (byte_val b2 - 0x80)
                  in if cont b1 \<and> cont b2 \<and> 0x800 \<le> c \<and> scalar c then Some (c, r2) else None
              | _ \<Rightarrow> None)
            else if v < 0xF8 then (case r of
                b1 # b2 # b3 # r3 \<Rightarrow>
                  let c = (v - 0xF0) * 262144 + (byte_val b1 - 0x80) * 4096 + (byte_val b2 - 0x80) * 64
                        + (byte_val b3 - 0x80)
                  in if cont b1 \<and> cont b2 \<and> cont b3 \<and> 0x10000 \<le> c \<and> scalar c then Some (c, r3) else None
              | _ \<Rightarrow> None)
            else None)"

lemma utf8_next_shorter: "utf8_next bs = Some (c, r) \<Longrightarrow> length r < length bs"
  by (auto simp: utf8_next_def Let_def split: list.splits if_splits)

function utf8_decode :: "bytes \<Rightarrow> unicode_error + ustr" where
  "utf8_decode bs =
     (if bs = [] then Inr []
      else case utf8_next bs of
          None \<Rightarrow> Inl UnicodeDecodeError
        | Some (c, r) \<Rightarrow> bindE (utf8_decode r) (\<lambda>s. Inr (c # s)))"
  by pat_completeness auto
termination by (relation "measure length") (auto dest: utf8_next_shorter)

declare utf8_decode.simps [simp del]

lemma utf8_decode_Nil [simp]: "utf8_decode [] = Inr []"
  by (simp add: utf8_decode.simps)

lemma of_char_byte_of: "n < 256 \<Longrightarrow> byte_val (byte_of n) = n"
  by simp

lemma cont_byte_of [simp]: "n < 64 \<Longrightarrow> cont (byte_of (0x80 + n))"
  by (simp add: cont_def)

text \<open>Base-64 digits of a code point, as the continuation bytes carry them.\<close>

lemma digit64: "w < 64 \<Longrightarrow> (x * 64 + w) div 64 = x" "w < 64 \<Longrightarrow> (x * 64 + w) mod 64 = (w :: nat)"
  by simp_all

lemma digits64: "(c :: nat) div 4096 = c div 64 div 64" "c div 262144 = c div 64 div 64 div 64"
    "c div 64 div 64 * 4096 + c div 64 mod 64 * 64 + c mod 64 = c"
    "c div 64 div 64 div 64 * 262144 + c div 64 div 64 mod 64 * 4096 + c div 64 mod 64 * 64 + c mod 64 = c"
proof -
  show "c div 4096 = c div 64 div 64" "c div 262144 = c div 64 div 64 div 64" by (simp_all add: div_mult2_eq [symmetric])
  have "x = x div 64 * 64 + x mod 64" for x :: nat by simp
  from this [of c] this [of "c div 64"] this [of "c div 64 div 64"]
  show "c div 64 div 64 * 4096 + c div 64 mod 64 * 64 + c mod 64 = c"
    "c div 64 div 64 div 64 * 262144 + c div 64 div 64 mod 64 * 4096 + c div 64 mod 64 * 64 + c mod 64 = c"
    by linarith+
qed

lemma utf8_next_char:
  assumes "scalar c"
  shows "utf8_next (utf8_char c @ r) = Some (c, r)"
proof -
  consider "c < 0x80" | "0x80 \<le> c" "c < 0x800" | "0x800 \<le> c" "c < 0x10000" | "0x10000 \<le> c" "c < 0x110000"
    using assms by (fastforce simp: scalar_def)
  then show ?thesis
  proof cases
    case 1
    then show ?thesis by (simp add: utf8_char_def utf8_next_def)
  next
    case 2
    then have "c div 64 < 32" by simp
    with 2 show ?thesis by (simp add: utf8_char_def utf8_next_def Let_def)
  next
    case 3
    then have "c div 64 div 64 < 16" by (simp add: digits64(1) [symmetric])
    with 3 assms show ?thesis by (simp add: utf8_char_def utf8_next_def Let_def digits64)
  next
    case 4
    then have "c div 64 div 64 div 64 < 8" by (simp add: digits64(2) [symmetric])
    with 4 assms show ?thesis by (simp add: utf8_char_def utf8_next_def Let_def digits64)
  qed
qed

lemma byte_of_eq: "n = byte_val b \<Longrightarrow> byte_of n = b"
  by (simp add: char_of_char)

lemma utf8_char_next:
  assumes "utf8_next bs = Some (c, r)"
  shows "utf8_char c @ r = bs \<and> scalar c"
proof -
  obtain b t where bs: "bs = b # t" using assms by (cases bs) (auto simp: utf8_next_def)
  define v where "v = byte_val b"
  have v: "v < 256" unfolding v_def by (rule byte_val_less)
  consider "v < 0x80" | "0xC0 \<le> v" "v < 0xE0" | "0xE0 \<le> v" "v < 0xF0" | "0xF0 \<le> v" "v < 0xF8"
    using assms by (fastforce simp: utf8_next_def bs v_def [symmetric] Let_def split: if_splits)
  then show ?thesis
  proof cases
    case 1
    then have "c = v \<and> r = t" using assms by (simp add: utf8_next_def bs v_def [symmetric])
    then show ?thesis using 1 by (simp add: utf8_char_def bs v_def scalar_def char_of_char)
  next
    case 2
    then obtain b1 where t: "t = b1 # r" and c: "c = (v - 0xC0) * 64 + (byte_val b1 - 0x80)"
      and ok: "cont b1" "0x80 \<le> c"
      using assms by (auto simp: utf8_next_def bs v_def [symmetric] Let_def split: list.splits if_splits)
    define w1 where "w1 = byte_val b1 - 0x80"
    have w1: "w1 < 64" "byte_val b1 = 0x80 + w1" using ok by (auto simp: cont_def w1_def)
    have "c div 64 = v - 0xC0" "c mod 64 = w1" using w1 by (simp_all add: c w1_def [symmetric])
    moreover have "c < 0x800" using 2 w1 by (simp add: c w1_def [symmetric])
    ultimately show ?thesis using 2 ok w1
      by (auto simp: utf8_char_def bs t scalar_def v_def intro!: byte_of_eq)
  next
    case 3
    then obtain b1 b2 where t: "t = b1 # b2 # r"
      and c: "c = (v - 0xE0) * 4096 + (byte_val b1 - 0x80) * 64 + (byte_val b2 - 0x80)"
      and ok: "cont b1" "cont b2" "0x800 \<le> c" "scalar c"
      using assms by (auto simp: utf8_next_def bs v_def [symmetric] Let_def split: list.splits if_splits)
    define w1 where "w1 = byte_val b1 - 0x80"
    define w2 where "w2 = byte_val b2 - 0x80"
    have w: "w1 < 64" "byte_val b1 = 0x80 + w1" "w2 < 64" "byte_val b2 = 0x80 + w2"
      using ok by (auto simp: cont_def w1_def w2_def)
    have c': "c = ((v - 0xE0) * 64 + w1) * 64 + w2" by (simp add: c w1_def [symmetric] w2_def [symmetric])
    then have "c div 64 = (v - 0xE0) * 64 + w1" "c mod 64 = w2" using w by (simp_all only: digit64)
    moreover from this have "c div 64 div 64 = v - 0xE0" "c div 64 mod 64 = w1" using w by (simp_all only: digit64)
    moreover have "c < 0x10000" using 3 w by (simp add: c')
    ultimately show ?thesis using 3 ok w
      by (auto simp: utf8_char_def bs t v_def digits64 intro!: byte_of_eq)
  next
    case 4
    then obtain b1 b2 b3 where t: "t = b1 # b2 # b3 # r"
      and c: "c = (v - 0xF0) * 262144 + (byte_val b1 - 0x80) * 4096 + (byte_val b2 - 0x80) * 64 + (byte_val b3 - 0x80)"
      and ok: "cont b1" "cont b2" "cont b3" "0x10000 \<le> c" "scalar c"
      using assms by (auto simp: utf8_next_def bs v_def [symmetric] Let_def split: list.splits if_splits)
    define w1 where "w1 = byte_val b1 - 0x80"
    define w2 where "w2 = byte_val b2 - 0x80"
    define w3 where "w3 = byte_val b3 - 0x80"
    have w: "w1 < 64" "byte_val b1 = 0x80 + w1" "w2 < 64" "byte_val b2 = 0x80 + w2" "w3 < 64" "byte_val b3 = 0x80 + w3"
      using ok by (auto simp: cont_def w1_def w2_def w3_def)
    have c': "c = (((v - 0xF0) * 64 + w1) * 64 + w2) * 64 + w3"
      by (simp add: c w1_def [symmetric] w2_def [symmetric] w3_def [symmetric])
    then have "c div 64 = ((v - 0xF0) * 64 + w1) * 64 + w2" "c mod 64 = w3" using w by (simp_all only: digit64)
    moreover from this have "c div 64 div 64 = (v - 0xF0) * 64 + w1" "c div 64 mod 64 = w2"
      using w by (simp_all only: digit64)
    moreover from this have "c div 64 div 64 div 64 = v - 0xF0" "c div 64 div 64 mod 64 = w1"
      using w by (simp_all only: digit64)
    ultimately show ?thesis using 4 ok w
      by (auto simp: utf8_char_def bs t v_def digits64 intro!: byte_of_eq)
  qed
qed

lemma utf8_char_nonempty: "utf8_char c \<noteq> []"
  by (simp add: utf8_char_def)

lemma utf8_decode_encoded: "list_all scalar s \<Longrightarrow> utf8_decode (concat (map utf8_char s)) = Inr s"
proof (induction s)
  case (Cons c s)
  then show ?case
    by (subst utf8_decode.simps) (simp add: utf8_next_char utf8_char_nonempty)
qed simp

lemma utf8_decode_strict: "utf8_decode bs = Inr s \<Longrightarrow> utf8_encode s = Inr bs"
proof (induction bs arbitrary: s rule: utf8_decode.induct)
  case (1 bs)
  show ?case
  proof (cases "bs = []")
    case True
    then show ?thesis using "1.prems" by (simp add: utf8_encode_def)
  next
    case False
    with "1.prems" obtain c r s' where n: "utf8_next bs = Some (c, r)" and d: "utf8_decode r = Inr s'" and s: "s = c # s'"
      by (subst (asm) utf8_decode.simps) (auto simp: res_simps split: option.splits)
    from "1.IH" [OF False n refl d] utf8_char_next [OF n] show ?thesis
      by (auto simp: utf8_encode_def s split: if_splits)
  qed
qed

interpretation utf8: codec utf8_encode utf8_decode "\<lambda>_. True"
proof
  fix s w
  assume "utf8_encode s = Inr w"
  then show "utf8_decode w = Inr s" by (auto simp: utf8_encode_def utf8_decode_encoded split: if_splits)
qed (rule utf8_decode_strict)

end
