(* ===== verification/Json.thy ===== *)
theory Json
  imports Unicode
begin

text \<open>
  \<open>json.loads\<close> of the standard library on a \<open>str\<close> of code points, with the hooks its
  callers install (\<open>object_pairs_hook\<close>, \<open>parse_float\<close>, \<open>parse_constant\<close>):
  the scanner follows CPython's, including surrogate pairs, the number grammar and the limit of
  4300 digits on integers.
\<close>

section \<open>Values and hooks\<close>

text \<open>
  A float keeps its literal text (also for \<open>NaN\<close> and the infinities); a dict is the list of
  its items in insertion order.
\<close>

datatype json =
    JNull
  | JBool bool
  | JInt int
  | JFloat ustr
  | JStr ustr
  | JArr "json list"
  | JObj "(ustr \<times> json) list"

record 'e hooks =
  on_float :: "ustr \<Rightarrow> 'e + json"
  on_constant :: "ustr \<Rightarrow> 'e + json"
  on_pairs :: "(ustr \<times> json) list \<Rightarrow> 'e + json"
  on_error :: 'e

text \<open>\<open>dict(pairs)\<close>: a repeated key keeps its first position and its last value.\<close>

fun dict_put :: "ustr \<Rightarrow> 'v \<Rightarrow> (ustr \<times> 'v) list \<Rightarrow> (ustr \<times> 'v) list" where
  "dict_put k v [] = [(k, v)]"
| "dict_put k v ((k', v') # d) = (if k = k' then (k, v) # d else (k', v') # dict_put k v d)"

definition dict_of :: "(ustr \<times> 'v) list \<Rightarrow> (ustr \<times> 'v) list" where
  "dict_of ps = foldl (\<lambda>d (k, v). dict_put k v d) [] ps"

definition default_hooks :: "'e \<Rightarrow> 'e hooks" where
  "default_hooks e = \<lparr>on_float = (\<lambda>t. Inr (JFloat t)), on_constant = (\<lambda>t. Inr (JFloat t)),
     on_pairs = (\<lambda>ps. Inr (JObj (dict_of ps))), on_error = e\<rparr>"

section \<open>Scanning\<close>

definition is_ws :: "nat \<Rightarrow> bool" where
  "is_ws c \<longleftrightarrow> c = 32 \<or> c = 9 \<or> c = 10 \<or> c = 13"

definition skip_ws :: "ustr \<Rightarrow> ustr" where
  "skip_ws s = dropWhile is_ws s"

definition is_digit :: "nat \<Rightarrow> bool" where
  "is_digit c \<longleftrightarrow> 48 \<le> c \<and> c \<le> 57"

definition hex_val :: "nat \<Rightarrow> nat option" where
  "hex_val c =
     (if 48 \<le> c \<and> c \<le> 57 then Some (c - 48)
      else if 97 \<le> c \<and> c \<le> 102 then Some (c - 87)
      else if 65 \<le> c \<and> c \<le> 70 then Some (c - 55)
      else None)"

definition hex4 :: "nat \<Rightarrow> nat \<Rightarrow> nat \<Rightarrow> nat \<Rightarrow> nat option" where
  "hex4 a b c d = (case (hex_val a, hex_val b, hex_val c, hex_val d) of
     (Some a, Some b, Some c, Some d) \<Rightarrow> Some (((a * 16 + b) * 16 + c) * 16 + d)
   | _ \<Rightarrow> None)"

text \<open>The one-character escapes: quote, backslash, slash, b, f, n, r, t.\<close>

definition simple_escape :: "nat \<Rightarrow> nat option" where
  "simple_escape e =
     (if e = 34 then Some 34 else if e = 92 then Some 92 else if e = 47 then Some 47
      else if e = 98 then Some 8 else if e = 102 then Some 12 else if e = 110 then Some 10
      else if e = 114 then Some 13 else if e = 116 then Some 9 else None)"

definition high_surrogate :: "nat \<Rightarrow> bool" where
  "high_surrogate u \<longleftrightarrow> 0xD800 \<le> u \<and> u \<le> 0xDBFF"

definition low_surrogate :: "nat \<Rightarrow> bool" where
  "low_surrogate u \<longleftrightarrow> 0xDC00 \<le> u \<and> u \<le> 0xDFFF"

definition join_surrogates :: "nat \<Rightarrow> nat \<Rightarrow> nat" where
  "join_surrogates h l = 0x10000 + (h - 0xD800) * 1024 + (l - 0xDC00)"

text \<open>
  The character an escape stands for, after the backslash, and what follows it. A high surrogate
  escape directly followed by a low one is one character.
\<close>

definition scan_escape :: "ustr \<Rightarrow> (nat \<times> ustr) option" where
  "scan_escape s = (case s of
     [] \<Rightarrow> None
   | e # r \<Rightarrow>
       if e \<noteq> 117 then map_option (\<lambda>x. (x, r)) (simple_escape e)
       else (case r of
          p # q # x # y # r3 \<Rightarrow>
            (case hex4 p q x y of
               None \<Rightarrow> None
             | Some u \<Rightarrow>
                 (case r3 of
                    a # b # p' # q' # x' # y' # r4 \<Rightarrow>
                      if high_surrogate u \<and> a = 92 \<and> b = 117 then
                        (case hex4 p' q' x' y' of
                           None \<Rightarrow> None
                         | Some l \<Rightarrow> if low_surrogate l then Some (join_surrogates u l, r4) else Some (u, r3))
                      else Some (u, r3)
                  | _ \<Rightarrow> Some (u, r3)))
        | _ \<Rightarrow> None))"

lemma scan_escape_shorter: "scan_escape s = Some (x, r) \<Longrightarrow> length r < length s"
  by (simp add: scan_escape_def split: list.splits option.splits if_splits) auto

text \<open>
  The rest of a string literal after its opening quote: its characters and what follows the
  closing quote.
\<close>

function scan_string :: "ustr \<Rightarrow> (ustr \<times> ustr) option" where
  "scan_string s = (case s of
     [] \<Rightarrow> None
   | c # r \<Rightarrow>
       if c = 34 then Some ([], r)
       else if c = 92 then
         (case scan_escape r of
            None \<Rightarrow> None
          | Some (x, r') \<Rightarrow> map_option (apfst ((#) x)) (scan_string r'))
       else if c < 32 then None
       else map_option (apfst ((#) c)) (scan_string r))"
  by pat_completeness auto
termination by (relation "measure length") (auto dest: scan_escape_shorter)

declare scan_string.simps [simp del]

text \<open>Decimal digits to a number, and \<open>int()\<close> with its digit limit.\<close>

definition digits_nat :: "ustr \<Rightarrow> nat" where
  "digits_nat ds = foldl (\<lambda>a d. a * 10 + (d - 48)) 0 ds"

definition INT_MAX_STR_DIGITS :: nat where "INT_MAX_STR_DIGITS = 4300"

text \<open>
  The number at the front of the input: the integer part, then a fraction only if a digit follows
  the point, then an exponent only if a digit follows its sign.
\<close>

definition scan_fraction :: "ustr \<Rightarrow> ustr \<times> ustr" where
  "scan_fraction s = (case s of
     p # d # _ \<Rightarrow> if p = 46 \<and> is_digit d then (p # takeWhile is_digit (tl s), dropWhile is_digit (tl s)) else ([], s)
   | _ \<Rightarrow> ([], s))"

definition scan_exponent :: "ustr \<Rightarrow> ustr \<times> ustr" where
  "scan_exponent s = (case s of
     e # r \<Rightarrow>
       if e = 101 \<or> e = 69 then
         let sign = (case r of c # _ \<Rightarrow> if c = 45 \<or> c = 43 then [c] else [] | [] \<Rightarrow> []);
             r1 = drop (length sign) r;
             ds = takeWhile is_digit r1
         in if ds = [] then ([], s) else (e # sign @ ds, dropWhile is_digit r1)
       else ([], s)
   | [] \<Rightarrow> ([], s))"

definition scan_integer :: "ustr \<Rightarrow> (ustr \<times> ustr) option" where
  "scan_integer s = (case s of
     c # r \<Rightarrow>
       if c = 48 then Some ([c], r)
       else if is_digit c then Some (takeWhile is_digit s, dropWhile is_digit s)
       else None
   | [] \<Rightarrow> None)"

definition scan_number :: "'e hooks \<Rightarrow> ustr \<Rightarrow> 'e + (json \<times> ustr)" where
  "scan_number h s =
     (let neg = (case s of c # _ \<Rightarrow> c = 45 | [] \<Rightarrow> False);
          s1 = (if neg then tl s else s)
      in case scan_integer s1 of
          None \<Rightarrow> Inl (on_error h)
        | Some (ds, r1) \<Rightarrow>
            let (frac, r2) = scan_fraction r1;
                (ex, r3) = scan_exponent r2;
                sign = (if neg then [45] else [])
            in if frac = [] \<and> ex = [] then
                 if length ds > INT_MAX_STR_DIGITS then Inl (on_error h)
                 else Inr (JInt (if neg then - int (digits_nat ds) else int (digits_nat ds)), r3)
               else bindE (on_float h (sign @ ds @ frac @ ex)) (\<lambda>v. Inr (v, r3)))"

text \<open>
  \<open>scan_once\<close>. The first argument bounds the depth of the recursion; \<open>json_loads\<close> passes
  more than twice the length of the text, which is never reached (\<open>parse_fuel\<close> below).
\<close>

definition starts :: "string \<Rightarrow> ustr \<Rightarrow> bool" where
  "starts lit s \<longleftrightarrow> take (length lit) s = ascii lit"

function parse_value :: "'e hooks \<Rightarrow> nat \<Rightarrow> ustr \<Rightarrow> 'e + (json \<times> ustr)"
  and parse_elements :: "'e hooks \<Rightarrow> nat \<Rightarrow> ustr \<Rightarrow> 'e + (json list \<times> ustr)"
  and parse_members :: "'e hooks \<Rightarrow> nat \<Rightarrow> ustr \<Rightarrow> 'e + ((ustr \<times> json) list \<times> ustr)"
where
  "parse_value h 0 s = Inl (on_error h)"
| "parse_value h (Suc n) s =
     (case s of
        [] \<Rightarrow> Inl (on_error h)
      | c # r \<Rightarrow>
          if c = 34 then
            (case scan_string r of None \<Rightarrow> Inl (on_error h) | Some (t, r') \<Rightarrow> Inr (JStr t, r'))
          else if c = 123 then
            (let r1 = skip_ws r
             in if r1 \<noteq> [] \<and> hd r1 = 125 then bindE (on_pairs h []) (\<lambda>v. Inr (v, tl r1))
                else bindE (parse_members h n r1) (\<lambda>(ps, r2). bindE (on_pairs h ps) (\<lambda>v. Inr (v, r2))))
          else if c = 91 then
            (let r1 = skip_ws r
             in if r1 \<noteq> [] \<and> hd r1 = 93 then Inr (JArr [], tl r1)
                else bindE (parse_elements h n r1) (\<lambda>(vs, r2). Inr (JArr vs, r2)))
          else if starts ''null'' s then Inr (JNull, drop 4 s)
          else if starts ''true'' s then Inr (JBool True, drop 4 s)
          else if starts ''false'' s then Inr (JBool False, drop 5 s)
          else if starts ''NaN'' s then bindE (on_constant h (ascii ''NaN'')) (\<lambda>v. Inr (v, drop 3 s))
          else if starts ''Infinity'' s then bindE (on_constant h (ascii ''Infinity'')) (\<lambda>v. Inr (v, drop 8 s))
          else if starts ''-Infinity'' s then bindE (on_constant h (ascii ''-Infinity'')) (\<lambda>v. Inr (v, drop 9 s))
          else scan_number h s)"
| "parse_elements h 0 s = Inl (on_error h)"
| "parse_elements h (Suc n) s =
     bindE (parse_value h n s) (\<lambda>(v, r).
       let r1 = skip_ws r
       in case r1 of
            [] \<Rightarrow> Inl (on_error h)
          | c # r2 \<Rightarrow>
              if c = 93 then Inr ([v], r2)
              else if c = 44 then bindE (parse_elements h n (skip_ws r2)) (\<lambda>(vs, r3). Inr (v # vs, r3))
              else Inl (on_error h))"
| "parse_members h 0 s = Inl (on_error h)"
| "parse_members h (Suc n) s =
     (case s of
        [] \<Rightarrow> Inl (on_error h)
      | q # r \<Rightarrow>
          if q \<noteq> 34 then Inl (on_error h)
          else case scan_string r of
              None \<Rightarrow> Inl (on_error h)
            | Some (k, r1) \<Rightarrow>
                (case skip_ws r1 of
                   [] \<Rightarrow> Inl (on_error h)
                 | c # r2 \<Rightarrow>
                     if c \<noteq> 58 then Inl (on_error h)
                     else bindE (parse_value h n (skip_ws r2)) (\<lambda>(v, r3).
                       case skip_ws r3 of
                         [] \<Rightarrow> Inl (on_error h)
                       | d # r4 \<Rightarrow>
                           if d = 125 then Inr ([(k, v)], r4)
                           else if d = 44 then
                             bindE (parse_members h n (skip_ws r4)) (\<lambda>(ps, r5). Inr ((k, v) # ps, r5))
                           else Inl (on_error h))))"
  by pat_completeness auto
termination
  by (relation "measure (\<lambda>x. case x of Inl (h, n, s) \<Rightarrow> n | Inr (Inl (h, n, s)) \<Rightarrow> n | Inr (Inr (h, n, s)) \<Rightarrow> n)")
    auto

declare parse_value.simps [simp del] parse_elements.simps [simp del] parse_members.simps [simp del]

definition json_loads :: "'e hooks \<Rightarrow> ustr \<Rightarrow> 'e + json" where
  "json_loads h s =
     (if s \<noteq> [] \<and> hd s = 0xFEFF then Inl (on_error h)
      else bindE (parse_value h (2 * length s + 2) (skip_ws s)) (\<lambda>(v, r).
        if skip_ws r = [] then Inr v else Inl (on_error h)))"

section \<open>The bound on the recursion is never reached\<close>

lemma length_skip_ws: "length (skip_ws s) \<le> length s"
  by (simp add: skip_ws_def length_dropWhile_le)

lemma scan_string_shorter: "scan_string s = Some (t, r) \<Longrightarrow> length r < length s"
proof (induction s arbitrary: t rule: scan_string.induct)
  case (1 s)
  obtain c u where s: "s = c # u" using "1.prems" by (cases s) (simp_all add: scan_string.simps)
  consider "c = 34" | x q where "c = 92" "scan_escape u = Some (x, q)" | "c \<noteq> 34" "c \<noteq> 92" "\<not> c < 32"
    using "1.prems" unfolding s by (subst (asm) scan_string.simps) (auto split: if_splits option.splits)
  then show ?case
  proof cases
    case 1
    then show ?thesis using "1.prems" unfolding s by (subst (asm) scan_string.simps) simp
  next
    case 2
    then obtain t' where "scan_string q = Some (t', r)"
      using "1.prems" unfolding s by (subst (asm) scan_string.simps) auto
    from "1.IH"(1) [OF s _ 2(1,2) refl this] 2 scan_escape_shorter [OF 2(2)] show ?thesis by (simp add: s)
  next
    case 3
    then obtain t' where "scan_string u = Some (t', r)"
      using "1.prems" unfolding s by (subst (asm) scan_string.simps) auto
    from "1.IH"(2) [OF s 3 this] show ?thesis by (simp add: s)
  qed
qed

lemma scan_number_shorter: "scan_number h s = Inr (v, r) \<Longrightarrow> length r < length s"
proof -
  assume a: "scan_number h s = Inr (v, r)"
  have i: "length q < length x" if "scan_integer x = Some (d, q)" for x d q
    using that by (auto simp: scan_integer_def is_digit_def length_dropWhile_le le_imp_less_Suc split: list.splits if_splits)
  have f: "length q \<le> length x" if "scan_fraction x = (d, q)" for x d q
    using that by (auto simp: scan_fraction_def le_Suc_eq split: list.splits if_splits
        intro: order_trans [OF length_dropWhile_le])
  have e: "length q \<le> length x" if "scan_exponent x = (d, q)" for x d q
    using that order_trans [OF length_dropWhile_le]
    by (auto simp: scan_exponent_def Let_def le_SucI length_dropWhile_le split: list.splits if_splits)
  define y where "y = (if (case s of c # _ \<Rightarrow> c = 45 | [] \<Rightarrow> False) then tl s else s)"
  have y: "length y \<le> length s" by (simp add: y_def)
  from a obtain d q1 f' q2 e' where "scan_integer y = Some (d, q1)"
    "scan_fraction q1 = (f', q2)" "scan_exponent q2 = (e', r)"
    by (auto simp: scan_number_def Let_def res_simps y_def [symmetric] split: option.splits prod.splits if_splits)
  from y i [OF this(1)] f [OF this(2)] e [OF this(3)] show ?thesis by linarith
qed

text \<open>Every successful parse consumes input.\<close>

lemma skip_ws_less: "length r < length (skip_ws s) \<Longrightarrow> length r < length s"
  using length_skip_ws [of s] by linarith

lemma skip_ws_Cons_less: "skip_ws s = c # r \<Longrightarrow> length r < length s"
  using length_skip_ws [of s] by simp

lemma skip_ws_tl: "skip_ws s \<noteq> [] \<Longrightarrow> length (tl (skip_ws s)) < length s"
  using length_skip_ws [of s] by (cases "skip_ws s") auto

lemma parse_shorter:
  "(\<forall>s v r. parse_value h n s = Inr (v, r) \<longrightarrow> length r < length s) \<and>
   (\<forall>s vs r. parse_elements h n s = Inr (vs, r) \<longrightarrow> length r < length s) \<and>
   (\<forall>s ps r. parse_members h n s = Inr (ps, r) \<longrightarrow> length r < length s)"
proof (induction n)
  case 0
  show ?case by (simp add: parse_value.simps parse_elements.simps parse_members.simps)
next
  case (Suc n)
  then have V: "\<And>s v r. parse_value h n s = Inr (v, r) \<Longrightarrow> length r < length s"
    and E: "\<And>s vs r. parse_elements h n s = Inr (vs, r) \<Longrightarrow> length r < length s"
    and M: "\<And>s ps r. parse_members h n s = Inr (ps, r) \<Longrightarrow> length r < length s" by blast+
  have "length r < length s" if p: "parse_value h (Suc n) s = Inr (v, r)" for s v r
    using p by (subst (asm) parse_value.simps)
      (auto simp: Let_def res_simps starts_def ascii_def intro: less_SucI skip_ws_tl skip_ws_less
        dest!: E M scan_string_shorter dest: scan_number_shorter split: list.splits if_splits option.splits)
  moreover have "length r < length s" if p: "parse_elements h (Suc n) s = Inr (vs, r)" for s vs r
  proof -
    from p obtain v q where v: "parse_value h n s = Inr (v, q)"
      by (subst (asm) parse_elements.simps) (auto simp: res_simps)
    with p obtain c q' where q': "skip_ws q = c # q'"
      by (cases "skip_ws q") (auto simp: parse_elements.simps)
    with p v have "r = q' \<or> (\<exists>vs'. parse_elements h n (skip_ws q') = Inr (vs', r))"
      by (auto simp: parse_elements.simps res_simps split: if_splits)
    then show ?thesis using V [OF v] skip_ws_Cons_less [OF q'] skip_ws_less [of r q'] E by fastforce
  qed
  moreover have "length r < length s" if p: "parse_members h (Suc n) s = Inr (ps, r)" for s ps r
  proof -
    from p obtain q where s: "s = 34 # q" by (cases s) (auto simp: parse_members.simps split: if_splits)
    with p obtain k r1 where k: "scan_string q = Some (k, r1)" by (auto simp: parse_members.simps split: option.splits)
    with p s obtain r2 where r2: "skip_ws r1 = 58 # r2"
      by (cases "skip_ws r1") (auto simp: parse_members.simps split: if_splits)
    with p s k obtain v r3 where v: "parse_value h n (skip_ws r2) = Inr (v, r3)"
      by (auto simp: parse_members.simps res_simps)
    with p s k r2 obtain d r4 where r4: "skip_ws r3 = d # r4" by (cases "skip_ws r3") (auto simp: parse_members.simps)
    with p s k r2 v have "r = r4 \<or> (\<exists>ps'. parse_members h n (skip_ws r4) = Inr (ps', r))"
      by (auto simp: parse_members.simps res_simps split: if_splits)
    then have "r = r4 \<or> length r < length r4" using M skip_ws_less by blast
    then show ?thesis using scan_string_shorter [OF k] skip_ws_Cons_less [OF r2] V [OF v, THEN skip_ws_less]
        skip_ws_Cons_less [OF r4] by (auto simp: s)
  qed
  ultimately show ?case by blast
qed

text \<open>
  With at least \<open>2 * length s + 1\<close> levels (one more for a list of elements, whose first
  element starts where the list does) the result no longer depends on the bound.
\<close>

lemma parse_fuel:
  "(\<forall>s m. 2 * length s + 1 \<le> n \<and> n \<le> m \<longrightarrow> parse_value h m s = parse_value h n s) \<and>
   (\<forall>s m. 2 * length s + 2 \<le> n \<and> n \<le> m \<longrightarrow> parse_elements h m s = parse_elements h n s) \<and>
   (\<forall>s m. 2 * length s + 1 \<le> n \<and> n \<le> m \<longrightarrow> parse_members h m s = parse_members h n s)"
proof (induction n)
  case (Suc n)
  then have V: "\<And>s m. 2 * length s + 1 \<le> n \<Longrightarrow> n \<le> m \<Longrightarrow> parse_value h m s = parse_value h n s"
    and E: "\<And>s m. 2 * length s + 2 \<le> n \<Longrightarrow> n \<le> m \<Longrightarrow> parse_elements h m s = parse_elements h n s"
    and M: "\<And>s m. 2 * length s + 1 \<le> n \<Longrightarrow> n \<le> m \<Longrightarrow> parse_members h m s = parse_members h n s"
    by blast+
  have sk: "length (skip_ws t) \<le> length t" for t by (rule length_skip_ws)
  have "parse_value h m s = parse_value h (Suc n) s" if len: "2 * length s + 1 \<le> Suc n" and m: "Suc n \<le> m" for s m
  proof -
    obtain m' where m': "m = Suc m'" "n \<le> m'" using m by (cases m) auto
    show ?thesis
    proof (cases s)
      case (Cons c t)
      then have "2 * length (skip_ws t) + 2 \<le> n" using len sk [of t] by simp
      then have eq: "parse_elements h m' (skip_ws t) = parse_elements h n (skip_ws t)"
        "parse_members h m' (skip_ws t) = parse_members h n (skip_ws t)"
        using E [OF _ m'(2)] M [OF _ m'(2)] by simp_all
      show ?thesis unfolding m'(1) parse_value.simps Cons list.case Let_def by (simp only: eq)
    qed (simp add: m'(1) parse_value.simps)
  qed
  moreover have "parse_elements h m s = parse_elements h (Suc n) s"
    if len: "2 * length s + 2 \<le> Suc n" and m: "Suc n \<le> m" for s m
  proof -
    obtain m' where m': "m = Suc m'" "n \<le> m'" using m by (cases m) auto
    have v: "parse_value h m' s = parse_value h n s" using V [OF _ m'(2)] len by simp
    have e: "parse_elements h m' (skip_ws q') = parse_elements h n (skip_ws q')"
      if "parse_value h n s = Inr (x, q)" "skip_ws q = c # q'" for x q c q'
      using that parse_shorter [of h n] len sk [of q'] skip_ws_Cons_less [OF that(2)]
      by (intro E [OF _ m'(2)]) fastforce
    show ?thesis unfolding m'(1) parse_elements.simps v
      by (cases "parse_value h n s") (auto simp: Let_def e split: list.splits)
  qed
  moreover have "parse_members h m s = parse_members h (Suc n) s"
    if len: "2 * length s + 1 \<le> Suc n" and m: "Suc n \<le> m" for s m
  proof -
    obtain m' where m': "m = Suc m'" "n \<le> m'" using m by (cases m) auto
    have v: "parse_value h m' (skip_ws r2) = parse_value h n (skip_ws r2)"
      if "s = q # r" "scan_string r = Some (k, r1)" "skip_ws r1 = c # r2" for q r k r1 c r2
      using that len sk [of r2] scan_string_shorter [OF that(2)] skip_ws_Cons_less [OF that(3)]
      by (intro V [OF _ m'(2)]) simp
    have e: "parse_members h m' (skip_ws r4) = parse_members h n (skip_ws r4)"
      if "s = q # r" "scan_string r = Some (k, r1)" "skip_ws r1 = c # r2"
        "parse_value h n (skip_ws r2) = Inr (x, r3)" "skip_ws r3 = d # r4" for q r k r1 c r2 x r3 d r4
    proof -
      have "length r3 < length (skip_ws r2)" using that(4) parse_shorter [of h n] by blast
      then show ?thesis using that(1) len sk [of r4] scan_string_shorter [OF that(2)] skip_ws_Cons_less [OF that(3)]
          skip_ws_less [of r3 r2] skip_ws_Cons_less [OF that(5)]
        by (intro M [OF _ m'(2)]) simp
    qed
    show ?thesis unfolding m'(1) parse_members.simps
      by (auto simp: v e bindE_def split: list.splits option.splits sum.splits)
  qed
  ultimately show ?case by blast
qed simp

end
