(* ===== verification/Conf_Json.thy ===== *)
theory Conf_Json
  imports Json "HOL-Library.List_Lexorder"
begin

text \<open>
  The canonical JSON codec of \<open>conf_proc_json.py\<close>: \<open>canonical_dumps\<close> orders object keys
  by UTF-16 and writes integers in the safe range only; \<open>canonical_loads\<close> parses with
  rejecting hooks and accepts a text only if it is its own canonical rendering. The two are shown
  to be inverse to each other, which needs the parser to read back everything the writer emits.
\<close>

section \<open>Encoder\<close>

datatype json_error =
    CP_JSON_DUPLICATE_KEY | CP_JSON_INVALID | CP_JSON_INVALID_UTF8 | CP_JSON_NONCANONICAL
  | CP_JSON_UNSUPPORTED_NUMBER | CP_JSON_UNSUPPORTED_TYPE | Encode_failed

definition JSON_SAFE_INTEGER_MIN :: int where "JSON_SAFE_INTEGER_MIN = - (2 ^ 53 - 1)"
definition JSON_SAFE_INTEGER_MAX :: int where "JSON_SAFE_INTEGER_MAX = 2 ^ 53 - 1"

text \<open>\<open>str(int)\<close>.\<close>

fun nat_str :: "nat \<Rightarrow> ustr" where
  "nat_str n = (if n < 10 then [48 + n] else nat_str (n div 10) @ [48 + n mod 10])"

declare nat_str.simps [simp del]

definition int_str :: "int \<Rightarrow> ustr" where
  "int_str i = (if i < 0 then 45 # nat_str (nat (- i)) else nat_str (nat i))"

definition has_surrogate :: "ustr \<Rightarrow> bool" where
  "has_surrogate s \<longleftrightarrow> list_ex (\<lambda>c. 0xD800 \<le> c \<and> c \<le> 0xDFFF) s"

definition hex_char :: "nat \<Rightarrow> nat" where
  "hex_char n = (if n < 10 then 48 + n else 87 + n)"

definition encode_char :: "nat \<Rightarrow> ustr" where
  "encode_char c =
     (if c = 8 then [92, 98] else if c = 9 then [92, 116] else if c = 10 then [92, 110]
      else if c = 12 then [92, 102] else if c = 13 then [92, 114] else if c = 34 then [92, 34]
      else if c = 92 then [92, 92]
      else if c \<le> 0x1F then [92, 117, 48, 48, hex_char (c div 16), hex_char (c mod 16)]
      else [c])"

definition encode_string :: "ustr \<Rightarrow> json_error + ustr" where
  "encode_string s =
     (if has_surrogate s then Inl CP_JSON_UNSUPPORTED_TYPE
      else Inr (34 # concat (map encode_char s) @ [34]))"

definition utf16_sort_key :: "ustr \<Rightarrow> nat list" where
  "utf16_sort_key s = concat (map (\<lambda>c.
     if c < 0x10000 then [c div 256, c mod 256]
     else let h = 0xD800 + (c - 0x10000) div 1024; l = 0xDC00 + (c - 0x10000) mod 1024
          in [h div 256, h mod 256, l div 256, l mod 256]) s)"

text \<open>\<open>",".join\<close> over fallible pieces, evaluated left to right.\<close>

fun join_results :: "(json_error + ustr) list \<Rightarrow> json_error + ustr" where
  "join_results [] = Inr []"
| "join_results [r] = r"
| "join_results (r # r' # rs) = bindE r (\<lambda>t. bindE (join_results (r' # rs)) (\<lambda>u. Inr (t @ 44 # u)))"

definition encode_member :: "ustr \<times> (json_error + ustr) \<Rightarrow> json_error + ustr" where
  "encode_member p = bindE (encode_string (fst p)) (\<lambda>k. bindE (snd p) (\<lambda>v. Inr (k @ 58 # v)))"

text \<open>\<open>_encode_object\<close> on the items whose values are already (lazily) encoded.\<close>

definition encode_object :: "(ustr \<times> (json_error + ustr)) list \<Rightarrow> json_error + ustr" where
  "encode_object items =
     (if \<not> distinct (map fst items) then Inl CP_JSON_DUPLICATE_KEY
      else if list_ex (\<lambda>p. has_surrogate (fst p)) items then Inl CP_JSON_UNSUPPORTED_TYPE
      else bindE (join_results (map encode_member (sort_key (utf16_sort_key \<circ> fst) items)))
        (\<lambda>t. Inr (123 # t @ [125])))"

primrec encode_value :: "json \<Rightarrow> json_error + ustr" where
  "encode_value JNull = Inr (ascii ''null'')"
| "encode_value (JBool b) = Inr (if b then ascii ''true'' else ascii ''false'')"
| "encode_value (JInt i) =
     (if JSON_SAFE_INTEGER_MIN \<le> i \<and> i \<le> JSON_SAFE_INTEGER_MAX then Inr (int_str i)
      else Inl CP_JSON_UNSUPPORTED_NUMBER)"
| "encode_value (JFloat t) = Inl CP_JSON_UNSUPPORTED_TYPE"
| "encode_value (JStr s) = encode_string s"
| "encode_value (JArr vs) =
     bindE (join_results (map encode_value vs)) (\<lambda>t. Inr (91 # t @ [93]))"
| "encode_value (JObj ps) = encode_object (map (map_prod id encode_value) ps)"

definition canonical_dumps :: "json \<Rightarrow> json_error + bytes" where
  "canonical_dumps v = bindE (encode_value v) (\<lambda>t.
     case utf8_encode t of Inl _ \<Rightarrow> Inl Encode_failed | Inr w \<Rightarrow> Inr w)"

section \<open>Decoder\<close>

definition object_without_duplicates :: "(ustr \<times> json) list \<Rightarrow> json_error + json" where
  "object_without_duplicates ps = (if distinct (map fst ps) then Inr (JObj ps) else Inl CP_JSON_DUPLICATE_KEY)"

definition canonical_hooks :: "json_error hooks" where
  "canonical_hooks = \<lparr>on_float = (\<lambda>_. Inl CP_JSON_UNSUPPORTED_NUMBER),
     on_constant = (\<lambda>_. Inl CP_JSON_UNSUPPORTED_NUMBER),
     on_pairs = object_without_duplicates, on_error = CP_JSON_INVALID\<rparr>"

definition canonical_loads :: "bytes \<Rightarrow> json_error + json" where
  "canonical_loads data =
     (case utf8_decode data of
        Inl _ \<Rightarrow> Inl CP_JSON_INVALID_UTF8
      | Inr text \<Rightarrow>
          bindE (json_loads canonical_hooks text) (\<lambda>v.
          bindE (canonical_dumps v) (\<lambda>w. if w \<noteq> data then Inl CP_JSON_NONCANONICAL else Inr v)))"

section \<open>Canonical form of a value\<close>

text \<open>Objects listed in key order; a Python dict is equal to its reordering.\<close>

primrec normal :: "json \<Rightarrow> json" where
  "normal JNull = JNull"
| "normal (JBool b) = JBool b"
| "normal (JInt i) = JInt i"
| "normal (JFloat t) = JFloat t"
| "normal (JStr s) = JStr s"
| "normal (JArr vs) = JArr (map normal vs)"
| "normal (JObj ps) = JObj (sort_key (utf16_sort_key \<circ> fst) (map (map_prod id normal) ps))"

section \<open>The parser reads back what the encoder writes\<close>

lemma is_digit_nat_str: "list_all is_digit (nat_str n)"
proof (induction n rule: nat_str.induct)
  case (1 n)
  have "is_digit (48 + n mod 10)" "n < 10 \<Longrightarrow> is_digit (48 + n)" by (auto simp: is_digit_def)
  with 1 show ?case by (subst nat_str.simps) auto
qed

lemma nat_str_nonempty: "nat_str n \<noteq> []"
  by (subst nat_str.simps) simp

lemma digits_nat_snoc: "digits_nat (ds @ [d]) = digits_nat ds * 10 + (d - 48)"
  by (simp add: digits_nat_def)

lemma digits_nat_str: "digits_nat (nat_str n) = n"
proof (induction n rule: nat_str.induct)
  case (1 n)
  show ?case
  proof (cases "n < 10")
    case True
    then show ?thesis by (subst nat_str.simps) (simp add: digits_nat_def)
  next
    case False
    with 1 show ?thesis by (subst nat_str.simps) (simp add: digits_nat_snoc)
  qed
qed

lemma hd_nat_str: "hd (nat_str n) = 48 \<longleftrightarrow> n = 0"
proof (induction n rule: nat_str.induct)
  case (1 n)
  show ?case
  proof (cases "n < 10")
    case True
    then show ?thesis by (subst nat_str.simps) simp
  next
    case False
    with 1 show ?thesis by (subst nat_str.simps) (auto simp: nat_str_nonempty)
  qed
qed

lemma length_nat_str: "n < 10 ^ k \<Longrightarrow> 0 < k \<Longrightarrow> length (nat_str n) \<le> k"
proof (induction n arbitrary: k rule: nat_str.induct)
  case (1 n)
  show ?case
  proof (cases "n < 10")
    case True
    then show ?thesis using "1.prems" by (subst nat_str.simps) simp
  next
    case False
    with "1.prems" obtain j where k: "k = Suc j" "0 < j" by (cases k; cases "k - 1") auto
    with "1.prems" have "n div 10 < 10 ^ j" by (simp add: less_mult_imp_div_less mult.commute)
    with 1(1) [OF False this k(2)] False k show ?thesis by (subst nat_str.simps) simp
  qed
qed

text \<open>What may follow a value in an encoded text.\<close>

definition follows :: "ustr \<Rightarrow> bool" where
  "follows r \<longleftrightarrow> r = [] \<or> hd r = 44 \<or> hd r = 93 \<or> hd r = 125"

lemma follows_scan:
  assumes "follows r"
  shows "scan_fraction r = ([], r)" "scan_exponent r = ([], r)" "takeWhile is_digit r = []" "dropWhile is_digit r = r"
  using assms by (cases r; auto simp: follows_def scan_fraction_def scan_exponent_def is_digit_def split: list.splits)+

lemma scan_integer_nat_str: "follows r \<Longrightarrow> scan_integer (nat_str n @ r) = Some (nat_str n, r)"
proof -
  assume f: "follows r"
  obtain c t where ct: "nat_str n = c # t" using nat_str_nonempty by (cases "nat_str n") auto
  have dig: "is_digit c" "\<forall>x \<in> set t. is_digit x" using is_digit_nat_str [of n] by (auto simp: ct list_all_iff)
  show ?thesis
  proof (cases "n = 0")
    case True
    then have "nat_str n = [48]" by (simp add: nat_str.simps)
    then show ?thesis by (simp add: scan_integer_def)
  next
    case False
    then have "c \<noteq> 48" using hd_nat_str [of n] by (simp add: ct)
    then show ?thesis using dig follows_scan [OF f] by (simp add: ct scan_integer_def)
  qed
qed

lemma scan_number_int_str:
  assumes "follows r" and "JSON_SAFE_INTEGER_MIN \<le> i" "i \<le> JSON_SAFE_INTEGER_MAX"
  shows "scan_number h (int_str i @ r) = Inr (JInt i, r)"
proof -
  define n where "n = (if i < 0 then nat (- i) else nat i)"
  have "n < 10 ^ 16" using assms(2,3) by (auto simp: n_def JSON_SAFE_INTEGER_MIN_def JSON_SAFE_INTEGER_MAX_def)
  then have len: "length (nat_str n) \<le> 16" by (rule length_nat_str) simp
  have "is_digit (hd (nat_str n))" using is_digit_nat_str [of n] nat_str_nonempty [of n] by (cases "nat_str n") auto
  then have "hd (nat_str n) \<noteq> 45" by (auto simp: is_digit_def)
  then have neg: "(case nat_str n @ r of [] \<Rightarrow> False | c # _ \<Rightarrow> c = 45) = False"
    using nat_str_nonempty [of n] by (cases "nat_str n") auto
  note parts = scan_integer_nat_str [OF assms(1)] follows_scan [OF assms(1)] digits_nat_str
  show ?thesis
  proof (cases "i < 0")
    case True
    then have "int_str i = 45 # nat_str n" "int n = - i" by (simp_all add: int_str_def n_def)
    then show ?thesis using len by (simp add: scan_number_def parts INT_MAX_STR_DIGITS_def)
  next
    case False
    then have "int_str i = nat_str n" "int n = i" by (simp_all add: int_str_def n_def)
    then show ?thesis using len neg by (simp add: scan_number_def parts INT_MAX_STR_DIGITS_def)
  qed
qed

lemma scan_string_encode_char:
  assumes "\<not> (0xD800 \<le> c \<and> c \<le> 0xDFFF)"
  shows "scan_string (encode_char c @ r) = map_option (apfst ((#) c)) (scan_string r)"
proof -
  have hx: "hex_val (hex_char n) = Some n" if "n < 16" for n
    using that by (auto simp: hex_val_def hex_char_def)
  have u: "scan_escape (117 # 48 # 48 # hex_char (c div 16) # hex_char (c mod 16) # r) = Some (c, r)" if "c \<le> 31"
    using that hx [of "c div 16"] hx [of "c mod 16"] div_mult_mod_eq [of c 16]
    by (simp add: scan_escape_def hex4_def hex_val_def [of 48] high_surrogate_def split: list.splits)
  show ?thesis
    by (subst scan_string.simps)
      (auto simp: encode_char_def u scan_escape_def [of "_ # r"] simple_escape_def)
qed

lemma scan_string_encoded:
  "\<not> has_surrogate s \<Longrightarrow> scan_string (concat (map encode_char s) @ 34 # r) = Some (s, r)"
proof (induction s)
  case Nil
  show ?case by (simp add: scan_string.simps)
next
  case (Cons c s)
  then show ?case by (simp add: has_surrogate_def scan_string_encode_char)
qed

text \<open>\<open>reads t v\<close>: the parser takes the text \<open>t\<close> for the value \<open>v\<close>, whatever follows it.\<close>

definition reads :: "ustr \<Rightarrow> json \<Rightarrow> bool" where
  "reads t v \<longleftrightarrow> (\<exists>c u. t = c # u \<and> \<not> is_ws c \<and> c \<noteq> 93 \<and> c \<noteq> 125 \<and> c < 128) \<and>
     (\<forall>n r. follows r \<and> 2 * length t + 1 \<le> n \<longrightarrow> parse_value canonical_hooks n (t @ r) = Inr (v, r))"

lemma reads_skip_ws [simp]: "reads t v \<Longrightarrow> skip_ws (t @ r) = t @ r"
  by (auto simp: reads_def skip_ws_def)

lemma reads_parse: "reads t v \<Longrightarrow> follows r \<Longrightarrow> 2 * length t + 1 \<le> n \<Longrightarrow>
    parse_value canonical_hooks n (t @ r) = Inr (v, r)"
  by (simp add: reads_def)

lemma skip_ws_mark [simp]: "skip_ws (44 # r) = 44 # r" "skip_ws (93 # r) = 93 # r" "skip_ws (125 # r) = 125 # r"
    "skip_ws (58 # r) = 58 # r" "skip_ws (34 # r) = 34 # r"
  by (simp_all add: skip_ws_def is_ws_def)

lemma follows_mark [simp]: "follows (44 # r)" "follows (93 # r)" "follows (125 # r)" "follows []"
  by (simp_all add: follows_def)

fun joined :: "ustr list \<Rightarrow> ustr" where
  "joined [] = []"
| "joined [t] = t"
| "joined (t # u # ts) = t @ 44 # joined (u # ts)"

lemma join_results_Inr: "join_results rs = Inr t \<Longrightarrow> \<exists>ts. rs = map Inr ts \<and> t = joined ts"
proof (induction rs arbitrary: t rule: join_results.induct)
  case (3 r r' rs)
  then obtain a b where a: "r = Inr a" and b: "join_results (r' # rs) = Inr b" and t: "t = a @ 44 # b"
    by (auto simp: res_simps)
  note IH = "3.IH" [OF b]
  obtain ts :: "ustr list" where ts: "r' # rs = map Inr ts" "b = joined ts" using IH by (elim exE conjE)
  then obtain u us where "ts = u # us" by (cases ts) auto
  with ts a t show ?case by (intro exI [of _ "a # ts"]) simp
next
  case (2 r)
  then show ?case by (intro exI [of _ "[t]"]) simp
qed simp

lemma parse_elements_joined:
  assumes "list_all2 reads ts vs" and "ts \<noteq> []" and "2 * length (joined ts) + 2 \<le> n"
  shows "parse_elements canonical_hooks n (joined ts @ 93 # r) = Inr (vs, r)"
  using assms
proof (induction ts arbitrary: vs n rule: joined.induct)
  case (2 t)
  then obtain v m where vs: "vs = [v]" "reads t v" and n: "n = Suc m" by (cases n) (auto simp: list_all2_Cons1)
  with 2 show ?case by (simp add: parse_elements.simps reads_parse)
next
  case (3 t u ts)
  then obtain v vs' m where vs: "vs = v # vs'" "reads t v" "list_all2 reads (u # ts) vs'" and n: "n = Suc m"
    by (cases n) (auto simp: list_all2_Cons1)
  obtain w where w: "reads u w" using vs(3) by (auto simp: list_all2_Cons1)
  have sk: "skip_ws (joined (u # ts) @ 93 # r) = joined (u # ts) @ 93 # r"
    using w by (cases ts) simp_all
  have "parse_elements canonical_hooks m (joined (u # ts) @ 93 # r) = Inr (vs', r)"
    using "3.prems"(3) vs(3) by (intro "3.IH") (simp_all add: n)
  with sk show ?case using "3.prems"(3) vs by (simp add: n parse_elements.simps reads_parse)
qed simp

definition member_text :: "ustr \<Rightarrow> ustr \<Rightarrow> ustr" where
  "member_text k u = 34 # concat (map encode_char k) @ 34 # 58 # u"

definition reads_member :: "ustr \<Rightarrow> ustr \<times> json \<Rightarrow> bool" where
  "reads_member t p \<longleftrightarrow> (\<exists>u. t = member_text (fst p) u \<and> \<not> has_surrogate (fst p) \<and> reads u (snd p))"

lemma parse_members_joined:
  assumes "list_all2 reads_member ts ps" and "ts \<noteq> []" and "2 * length (joined ts) + 1 \<le> n"
  shows "parse_members canonical_hooks n (joined ts @ 125 # r) = Inr (ps, r)"
  using assms
proof (induction ts arbitrary: ps n rule: joined.induct)
  case (2 t)
  then obtain k v u m where ps: "ps = [(k, v)]" "t = member_text k u" "\<not> has_surrogate k" "reads u v"
    and n: "n = Suc m" by (cases n) (auto simp: list_all2_Cons1 reads_member_def)
  with 2 show ?case by (simp add: parse_members.simps member_text_def scan_string_encoded reads_parse)
next
  case (3 t t' ts)
  then obtain p ps' m where p: "ps = p # ps'" "reads_member t p" and ps': "list_all2 reads_member (t' # ts) ps'"
    and n: "n = Suc m" by (cases n) (auto simp: list_all2_Cons1 [of _ t])
  then obtain k v u where ps: "ps = (k, v) # ps'" "t = member_text k u" "\<not> has_surrogate k" "reads u v"
    by (cases p) (auto simp: reads_member_def)
  have "\<exists>q. joined (t' # ts) = 34 # q"
    using ps' by (cases ts) (auto simp: list_all2_Cons1 reads_member_def member_text_def)
  then have sk: "skip_ws (joined (t' # ts) @ 125 # r) = joined (t' # ts) @ 125 # r" by auto
  have "parse_members canonical_hooks m (joined (t' # ts) @ 125 # r) = Inr (ps', r)"
    using "3.prems"(3) ps' by (intro "3.IH") (simp_all add: n)
  with sk show ?case using "3.prems"(3) ps
    by (simp add: n parse_members.simps member_text_def scan_string_encoded reads_parse)
qed simp

lemma insort_key_map_prod:
  "insort_key (f \<circ> fst) (map_prod id g p) (map (map_prod id g) ps) = map (map_prod id g) (insort_key (f \<circ> fst) p ps)"
  by (induction ps) auto

lemma sort_key_map_prod:
  "sort_key (f \<circ> fst) (map (map_prod id g) ps) = map (map_prod id g) (sort_key (f \<circ> fst) ps)"
  by (induction ps) (simp_all add: insort_key_map_prod del: o_apply comp_apply id_apply)

text \<open>The cases of the encoder.\<close>

lemma reads_literal: "reads (ascii ''null'') JNull" "reads (ascii ''true'') (JBool True)" "reads (ascii ''false'') (JBool False)"
proof -
  have "parse_value canonical_hooks n (ascii ''null'' @ r) = Inr (JNull, r)"
    "parse_value canonical_hooks n (ascii ''true'' @ r) = Inr (JBool True, r)"
    "parse_value canonical_hooks n (ascii ''false'' @ r) = Inr (JBool False, r)" if "0 < n" for n r
    using that by (cases n; simp add: parse_value.simps ascii_def starts_def)+
  then show "reads (ascii ''null'') JNull" "reads (ascii ''true'') (JBool True)" "reads (ascii ''false'') (JBool False)"
    by (auto simp: reads_def ascii_def is_ws_def)
qed

lemma reads_int:
  assumes "JSON_SAFE_INTEGER_MIN \<le> i" "i \<le> JSON_SAFE_INTEGER_MAX"
  shows "reads (int_str i) (JInt i)"
proof -
  obtain c u where t: "int_str i = c # u" and c: "c = 45 \<and> u \<noteq> [] \<and> is_digit (hd u) \<or> is_digit c"
  proof (cases "i < 0")
    case True
    then show ?thesis using is_digit_nat_str [of "nat (- i)"] nat_str_nonempty [of "nat (- i)"] that
      by (cases "nat_str (nat (- i))") (auto simp: int_str_def)
  next
    case False
    then show ?thesis using is_digit_nat_str [of "nat i"] nat_str_nonempty [of "nat i"] that
      by (cases "nat_str (nat i)") (auto simp: int_str_def)
  qed
  have "\<not> starts lit (c # u @ r)"
    if "lit \<in> {''null'', ''true'', ''false'', ''NaN'', ''Infinity'', ''-Infinity''}" for lit r
    using that c by (cases u) (auto simp: starts_def ascii_def is_digit_def)
  then have not_literal: "starts ''null'' (c # u @ r) = False" "starts ''true'' (c # u @ r) = False"
    "starts ''false'' (c # u @ r) = False" "starts ''NaN'' (c # u @ r) = False"
    "starts ''Infinity'' (c # u @ r) = False" "starts ''-Infinity'' (c # u @ r) = False" for r
    by simp_all
  have "parse_value canonical_hooks n (int_str i @ r) = Inr (JInt i, r)" if pos: "0 < n" and f: "follows r" for n r
  proof -
    obtain m where n: "n = Suc m" using pos by (cases n) auto
    have "parse_value canonical_hooks n (int_str i @ r) = scan_number canonical_hooks (int_str i @ r)"
      using not_literal by (simp only: n t parse_value.simps append_Cons list.case) (use c in \<open>auto simp: is_digit_def\<close>)
    then show ?thesis using scan_number_int_str [OF f assms] by simp
  qed
  then show ?thesis using c by (auto simp: reads_def t is_ws_def is_digit_def)
qed

lemma reads_string: "encode_string s = Inr t \<Longrightarrow> reads t (JStr s)"
proof -
  assume a: "encode_string s = Inr t"
  then have t: "t = 34 # concat (map encode_char s) @ [34]" and s: "\<not> has_surrogate s"
    by (auto simp: encode_string_def split: if_splits)
  have "parse_value canonical_hooks n (t @ r) = Inr (JStr s, r)" if "0 < n" for n r
    using that scan_string_encoded [OF s] by (cases n) (simp_all add: t parse_value.simps)
  then show ?thesis by (auto simp: reads_def is_ws_def t)
qed

lemma reads_array:
  assumes "list_all2 reads ts vs"
  shows "reads (91 # joined ts @ [93]) (JArr vs)"
proof -
  have "parse_value canonical_hooks n (91 # joined ts @ 93 # r) = Inr (JArr vs, r)"
    if n: "2 * length (joined ts) + 5 \<le> n" for n r
  proof -
    obtain m where m: "n = Suc m" using n by (cases n) auto
    show ?thesis
    proof (cases "ts = []")
      case True
      then show ?thesis using assms by (simp add: m parse_value.simps)
    next
      case False
      then obtain t us v where ts: "ts = t # us" "reads t v" using assms by (cases ts) (auto simp: list_all2_Cons1)
      then obtain c u where j: "joined ts = c # u" "\<not> is_ws c" "c \<noteq> 93"
        by (cases us) (auto simp: reads_def)
      have "parse_elements canonical_hooks m (joined ts @ 93 # r) = Inr (vs, r)"
        using assms False n by (intro parse_elements_joined) (simp_all add: m)
      with j show ?thesis by (simp add: m parse_value.simps skip_ws_def)
    qed
  qed
  then show ?thesis by (auto simp: reads_def is_ws_def)
qed

lemma reads_object:
  assumes "list_all2 reads_member ts ps" and "distinct (map fst ps)"
  shows "reads (123 # joined ts @ [125]) (JObj ps)"
proof -
  have hooks: "on_pairs canonical_hooks ps = Inr (JObj ps)"
    using assms(2) by (simp add: canonical_hooks_def object_without_duplicates_def)
  have "parse_value canonical_hooks n (123 # joined ts @ 125 # r) = Inr (JObj ps, r)"
    if n: "2 * length (joined ts) + 5 \<le> n" for n r
  proof -
    obtain m where m: "n = Suc m" using n by (cases n) auto
    show ?thesis
    proof (cases "ts = []")
      case True
      then show ?thesis using assms hooks by (simp add: m parse_value.simps)
    next
      case False
      then have j: "\<exists>u. joined ts = 34 # u"
        using assms(1) by (cases ts rule: joined.cases) (auto simp: list_all2_Cons1 reads_member_def member_text_def)
      have "parse_members canonical_hooks m (joined ts @ 125 # r) = Inr (ps, r)"
        using assms False n by (intro parse_members_joined) (simp_all add: m)
      with j hooks show ?thesis by (auto simp: m parse_value.simps)
    qed
  qed
  then show ?thesis by (auto simp: reads_def is_ws_def)
qed

lemma encode_value_reads: "encode_value v = Inr t \<Longrightarrow> reads t (normal v)"
proof (induction v arbitrary: t)
  case (JArr vs)
  then obtain u where u: "join_results (map encode_value vs) = Inr u" and t: "t = 91 # u @ [93]"
    by (auto simp: res_simps)
  from join_results_Inr [OF u] obtain ts where ts: "map encode_value vs = map Inr ts" "u = joined ts"
    by (elim exE conjE)
  have "list_all2 reads ts (map normal vs)"
  proof (rule list_all2_all_nthI)
    show len: "length ts = length (map normal vs)" using map_eq_imp_length_eq [OF ts(1)] by simp
    fix i
    assume i: "i < length ts"
    then have "encode_value (vs ! i) = Inr (ts ! i)" using arg_cong [OF ts(1), of "\<lambda>l. l ! i"] len by simp
    with JArr.IH [of "vs ! i" "ts ! i"] i len show "reads (ts ! i) (map normal vs ! i)" by simp
  qed
  then show ?case by (simp add: t ts(2) reads_array)
next
  case (JObj ps)
  define qs where "qs = sort_key (utf16_sort_key \<circ> fst) ps"
  have qs: "set qs = set ps" "map fst qs = map fst (sort_key (utf16_sort_key \<circ> fst) ps)"
    by (simp_all add: qs_def)
  have dist: "distinct (map fst ps)" and sur: "\<forall>p \<in> set ps. \<not> has_surrogate (fst p)"
    using JObj.prems by (auto simp: encode_object_def list_ex_iff o_def split: if_splits)
  with JObj.prems obtain u where
    u: "join_results (map encode_member (map (map_prod id encode_value) qs)) = Inr u" and t: "t = 123 # u @ [125]"
    by (auto simp: encode_object_def res_simps sort_key_map_prod qs_def split: if_splits)
  from join_results_Inr [OF u] obtain ts where
    ts: "map encode_member (map (map_prod id encode_value) qs) = map Inr ts" "u = joined ts"
    by (elim exE conjE)
  have "list_all2 reads_member ts (map (map_prod id normal) qs)"
  proof (rule list_all2_all_nthI)
    show len: "length ts = length (map (map_prod id normal) qs)" using map_eq_imp_length_eq [OF ts(1)] by simp
    fix i
    assume i: "i < length ts"
    obtain k v where p: "qs ! i = (k, v)" by fastforce
    with i len qs have mem: "(k, v) \<in> set ps" by (metis length_map nth_mem)
    have "encode_member (k, encode_value v) = Inr (ts ! i)"
      using arg_cong [OF ts(1), of "\<lambda>l. l ! i"] len i p by simp
    then obtain w where w: "encode_value v = Inr w" "ts ! i = member_text k w"
      using sur mem by (auto simp: encode_member_def encode_string_def member_text_def res_simps)
    from JObj.IH [of "(k, v)" v w] mem w(1) have "reads w (normal v)" by (simp add: snds.intros)
    then show "reads_member (ts ! i) (map (map_prod id normal) qs ! i)"
      using w sur mem i len p by (fastforce simp: reads_member_def)
  qed
  moreover have "distinct (map fst (map (map_prod id normal) qs))"
    using dist by (simp add: qs_def distinct_map inj_on_def o_def)
  ultimately show ?case using reads_object [of ts] by (simp add: t ts(2) sort_key_map_prod qs_def)
qed (auto simp: reads_literal reads_int reads_string split: if_splits)

lemma json_loads_encoded:
  assumes "encode_value v = Inr t"
  shows "json_loads canonical_hooks t = Inr (normal v)"
proof -
  note R = encode_value_reads [OF assms]
  have "parse_value canonical_hooks (2 * length t + 2) t = Inr (normal v, [])"
    using reads_parse [OF R, of "[]" "2 * length t + 2"] by simp
  moreover have "skip_ws t = t" using reads_skip_ws [OF R, of "[]"] by simp
  moreover have "hd t \<noteq> 0xFEFF" using R by (auto simp: reads_def)
  ultimately show ?thesis by (simp add: json_loads_def skip_ws_def)
qed

lemma encode_object_sorted: "encode_object (sort_key (utf16_sort_key \<circ> fst) items) = encode_object items"
  by (simp add: encode_object_def distinct_map list_ex_iff sort_key_id_if_sorted)

lemma encode_normal: "encode_value (normal v) = encode_value v"
proof (induction v)
  case (JArr vs)
  then show ?case by (simp cong: map_cong)
next
  case (JObj ps)
  let ?k = "utf16_sort_key \<circ> fst"
  have eq: "map (map_prod id encode_value) (map (map_prod id normal) ps) = map (map_prod id encode_value) ps"
    using JObj by (auto simp: snds.simps)
  then have "map (map_prod id encode_value) (sort_key ?k (map (map_prod id normal) ps)) =
      sort_key ?k (map (map_prod id encode_value) ps)"
    by (simp only: sort_key_map_prod [symmetric])
  then show ?case by (simp only: normal.simps encode_value.simps encode_object_sorted)
qed simp_all

lemma normal_normal: "normal (normal v) = normal v"
proof (induction v)
  case (JArr vs)
  then show ?case by (simp cong: map_cong)
next
  case (JObj ps)
  let ?k = "utf16_sort_key \<circ> fst"
  have "map (map_prod id normal) (map (map_prod id normal) ps) = map (map_prod id normal) ps"
    using JObj by (auto simp: snds.simps)
  then have "map (map_prod id normal) (sort_key ?k (map (map_prod id normal) ps)) =
      sort_key ?k (map (map_prod id normal) ps)"
    by (simp only: sort_key_map_prod [symmetric])
  then show ?case by (simp add: sort_key_id_if_sorted del: o_apply)
qed simp_all

lemma dumps_normal: "canonical_dumps (normal v) = canonical_dumps v"
  by (simp add: canonical_dumps_def encode_normal)

lemma canonical_loads_dumps:
  assumes "canonical_dumps v = Inr w"
  shows "canonical_loads w = Inr (normal v)"
proof -
  from assms obtain t where t: "encode_value v = Inr t" and w: "utf8_encode t = Inr w"
    by (cases "encode_value v") (auto simp: canonical_dumps_def split: sum.split_asm)
  show ?thesis using utf8.decode_encode [OF TrueI w] json_loads_encoded [OF t] assms
    by (simp add: canonical_loads_def dumps_normal)
qed

lemma canonical_dumps_loads:
  assumes "canonical_loads w = Inr v"
  shows "canonical_dumps v = Inr w" and "normal v = v"
proof -
  show d: "canonical_dumps v = Inr w"
    using assms by (cases "utf8_decode w") (auto simp: canonical_loads_def res_simps split: if_splits)
  show "normal v = v" using canonical_loads_dumps [OF d] assms by simp
qed

interpretation canonical: codec canonical_dumps canonical_loads "\<lambda>v. normal v = v"
proof
  fix v w
  assume "normal v = v" and "canonical_dumps v = Inr w"
  then show "canonical_loads w = Inr v" using canonical_loads_dumps [of v w] by simp
qed (rule canonical_dumps_loads(1))

text \<open>
  C24. Canonical JSON is a strict codec. Whatever value \<open>canonical_dumps\<close> encodes,
  \<open>canonical_loads\<close> reads back as the same value with every object in key order (an equal
  Python value); and a byte string that \<open>canonical_loads\<close> accepts is the one
  \<open>canonical_dumps\<close> writes for the result, so two accepted byte strings with equal values are
  equal.
\<close>

theorem canonical_json_iff:
  "canonical_loads w = Inr v \<longleftrightarrow> canonical_dumps v = Inr w \<and> normal v = v"
  using canonical.decode_iff canonical_dumps_loads by blast

text \<open>
  Everything the encoder writes is accepted: no value it takes is lost to the digit limit, the
  escapes, the key order or a byte order mark.
\<close>

theorem canonical_dumps_accepted:
  "canonical_dumps v = Inr w \<Longrightarrow> canonical_loads w = Inr (normal v)"
  by (rule canonical_loads_dumps)

theorem canonical_dumps_accepted_witness:
  "canonical_loads ''{\"a\":[1,-20],\"b\":null}'' = Inr (JObj [(ascii ''a'', JArr [JInt 1, JInt (-20)]), (ascii ''b'', JNull)])"
proof -
  have "canonical_dumps (JObj [(ascii ''b'', JNull), (ascii ''a'', JArr [JInt 1, JInt (-20)])]) =
      Inr ''{\"a\":[1,-20],\"b\":null}''"
    by (simp add: canonical_dumps_def ascii_def encode_object_def utf16_sort_key_def has_surrogate_def
        encode_member_def encode_string_def encode_char_def JSON_SAFE_INTEGER_MIN_def JSON_SAFE_INTEGER_MAX_def
        int_str_def nat_str.simps utf8_encode_def scalar_def utf8_char_def char_of_def bit_0)
  from canonical_dumps_accepted [OF this] show ?thesis
    by (simp add: ascii_def utf16_sort_key_def)
qed

end
