(* ===== verification/Bytes_Methods.thy ===== *)
theory Bytes_Methods
  imports Prelude
begin

text \<open>
  The methods of Python \<open>bytes\<close> that the protocol code uses: searching, splitting,
  partitioning, stripping ASCII whitespace, case, digits and decimal or hexadecimal \<open>int()\<close>.
\<close>

section \<open>Searching and splitting\<close>

definition starts_with :: "bytes \<Rightarrow> bytes \<Rightarrow> bool" where
  "starts_with p s \<longleftrightarrow> take (length p) s = p"

text \<open>\<open>s.find(m)\<close>: the first position of \<open>m\<close>.\<close>

fun find_sub :: "bytes \<Rightarrow> bytes \<Rightarrow> nat option" where
  "find_sub m s =
     (if starts_with m s then Some 0
      else case s of [] \<Rightarrow> None | c # r \<Rightarrow> map_option Suc (find_sub m r))"

declare find_sub.simps [simp del]

text \<open>\<open>s.split(m)\<close> for a non-empty separator.\<close>

function split_on :: "bytes \<Rightarrow> bytes \<Rightarrow> bytes list" where
  "split_on m s =
     (case find_sub m s of
        None \<Rightarrow> [s]
      | Some i \<Rightarrow> if m = [] then [s] else take i s # split_on m (drop (i + length m) s))"
  by pat_completeness auto

lemma starts_with_nil [simp]: "starts_with [] s" "starts_with m [] \<longleftrightarrow> m = []"
  by (auto simp: starts_with_def)

lemma starts_with_append: "starts_with m s \<longleftrightarrow> (\<exists>r. s = m @ r)"
  unfolding starts_with_def by (metis append_eq_conv_conj append_take_drop_id)

lemma find_sub_Some: "find_sub m s = Some i \<Longrightarrow> \<exists>r. s = take i s @ m @ r \<and> i + length m \<le> length s"
proof (induction m s arbitrary: i rule: find_sub.induct)
  case (1 m s)
  show ?case
  proof (cases "starts_with m s")
    case True
    then show ?thesis using "1.prems" by (auto simp: find_sub.simps [of m s] starts_with_append)
  next
    case False
    then obtain c t j where s: "s = c # t" and j: "find_sub m t = Some j" and i: "i = Suc j"
      using "1.prems" by (cases s) (auto simp: find_sub.simps [of m "_ # _"] find_sub.simps [of m "[]"])
    from "1.IH" [OF False s j] show ?thesis by (auto simp: s i)
  qed
qed

termination split_on
proof (relation "measure (\<lambda>(m, s). length s)")
  fix m s i
  assume "find_sub m s = Some i" and m: "m \<noteq> []"
  from find_sub_Some [OF this(1)] have "i + length m \<le> length s" by blast
  with m show "((m, drop (i + length m) s), m, s) \<in> measure (\<lambda>(m, s). length s)" by (cases m) auto
qed simp

declare split_on.simps [simp del]

text \<open>\<open>s.partition(c)\<close> for a one-byte separator: the part before it, whether it occurs, the part after it.\<close>

definition partition_at :: "char \<Rightarrow> bytes \<Rightarrow> bytes \<times> bool \<times> bytes" where
  "partition_at c s = (takeWhile (\<lambda>x. x \<noteq> c) s, c \<in> set s, tl (dropWhile (\<lambda>x. x \<noteq> c) s))"

section \<open>Characters\<close>

definition is_space :: "char \<Rightarrow> bool" where
  "is_space c \<longleftrightarrow> c = CHR '' '' \<or> 9 \<le> byte_val c \<and> byte_val c \<le> 13"

definition strip :: "bytes \<Rightarrow> bytes" where
  "strip s = rev (dropWhile is_space (rev (dropWhile is_space s)))"

definition lower_char :: "char \<Rightarrow> char" where
  "lower_char c = (if 65 \<le> byte_val c \<and> byte_val c \<le> 90 then byte_of (byte_val c + 32) else c)"

definition lower :: "bytes \<Rightarrow> bytes" where
  "lower s = map lower_char s"

definition digit_char :: "char \<Rightarrow> bool" where
  "digit_char c \<longleftrightarrow> 48 \<le> byte_val c \<and> byte_val c \<le> 57"

definition isdigit :: "bytes \<Rightarrow> bool" where
  "isdigit s \<longleftrightarrow> s \<noteq> [] \<and> list_all digit_char s"

definition dec_val :: "bytes \<Rightarrow> nat" where
  "dec_val s = foldl (\<lambda>a c. a * 10 + (byte_val c - 48)) 0 s"

text \<open>The decimal text of a number, as an f-string writes it.\<close>

fun dec_str :: "nat \<Rightarrow> bytes" where
  "dec_str n = (if n < 10 then [byte_of (48 + n)] else dec_str (n div 10) @ [byte_of (48 + n mod 10)])"

declare dec_str.simps [simp del]

text \<open>
  \<open>int(s, 16)\<close> on bytes: surrounding whitespace, a sign, an optional \<open>0x\<close> prefix, hexadecimal
  digits with single underscores between them (one may follow the prefix); \<^term>\<open>None\<close> is
  \<open>ValueError\<close>.
\<close>

definition hex_char_val :: "char \<Rightarrow> nat option" where
  "hex_char_val c = (let v = byte_val c in
     if 48 \<le> v \<and> v \<le> 57 then Some (v - 48)
     else if 97 \<le> v \<and> v \<le> 102 then Some (v - 87)
     else if 65 \<le> v \<and> v \<le> 70 then Some (v - 55)
     else None)"

fun hex_digits :: "nat \<Rightarrow> bool \<Rightarrow> bytes \<Rightarrow> nat option" where
  "hex_digits a us [] = (if us then None else Some a)"
| "hex_digits a us (c # r) =
     (if c = CHR ''_'' then (if us then None else hex_digits a True r)
      else case hex_char_val c of None \<Rightarrow> None | Some d \<Rightarrow> hex_digits (a * 16 + d) False r)"

definition int16 :: "bytes \<Rightarrow> int option" where
  "int16 s =
     (let t = strip s;
          neg = (t \<noteq> [] \<and> hd t = CHR ''-'');
          u = (if t \<noteq> [] \<and> (hd t = CHR ''-'' \<or> hd t = CHR ''+'') then tl t else t);
          prefixed = (length u \<ge> 2 \<and> hd u = CHR ''0'' \<and> (u ! 1 = CHR ''x'' \<or> u ! 1 = CHR ''X''));
          ds = (if prefixed then drop 2 u else u);
          digits = (if ds = [] then None
                    else if hd ds = CHR ''_'' \<and> \<not> prefixed then None
                    else hex_digits 0 False ds)
      in map_option (\<lambda>n. if neg then - int n else int n) digits)"

section \<open>Facts\<close>

lemma find_sub_first:
  "find_sub m s = Some i \<longleftrightarrow> starts_with m (drop i s) \<and> i \<le> length s \<and> (\<forall>j < i. \<not> starts_with m (drop j s))"
proof (induction m s arbitrary: i rule: find_sub.induct)
  case (1 m s)
  show ?case
  proof (cases "starts_with m s")
    case True
    then show ?thesis by (auto simp: find_sub.simps [of m s] intro: gr0I)
  next
    case False
    show ?thesis
    proof (cases s)
      case Nil
      then show ?thesis using False by (auto simp: find_sub.simps [of m "[]"])
    next
      case (Cons c t)
      then show ?thesis using False "1.IH" [OF False Cons]
        by (cases i) (auto simp: find_sub.simps [of m "c # t"] less_Suc_eq_0_disj)
    qed
  qed
qed

lemma starts_with_appendI: "starts_with m xs \<Longrightarrow> starts_with m (xs @ ys)"
  by (auto simp: starts_with_append)

lemma starts_with_prefix: "starts_with m (drop j xs) \<Longrightarrow> starts_with m (drop j (xs @ ys))"
  by (auto simp: starts_with_append)

lemma starts_with_take:
  assumes "starts_with m (drop j (xs @ ys))" and "j + length m \<le> length xs"
  shows "starts_with m (drop j xs)"
  using assms by (simp add: starts_with_def)

text \<open>An occurrence that lies within a prefix is the first one of the whole string, and conversely.\<close>

lemma find_sub_prefix: "find_sub m xs = Some i \<Longrightarrow> find_sub m (xs @ ys) = Some i"
proof -
  assume a: "find_sub m xs = Some i"
  then have s: "starts_with m (drop i xs)" "i \<le> length xs" and first: "\<And>j. j < i \<Longrightarrow> \<not> starts_with m (drop j xs)"
    and len: "i + length m \<le> length xs"
    using find_sub_first [of m xs i] find_sub_Some [OF a] by auto
  have "\<not> starts_with m (drop j (xs @ ys))" if "j < i" for j
    using starts_with_take [of m j xs ys] first [OF that] len that by auto
  then show ?thesis using s by (auto simp: find_sub_first intro: starts_with_appendI)
qed

lemma find_sub_within: "find_sub m (xs @ ys) = Some i \<Longrightarrow> i + length m \<le> length xs \<Longrightarrow> find_sub m xs = Some i"
  by (auto simp: find_sub_first dest: starts_with_prefix [of m _ xs ys] intro: starts_with_take)

lemma find_sub_None_prefix: "find_sub m (xs @ ys) = None \<Longrightarrow> find_sub m xs = None"
  using find_sub_prefix [of m xs _ ys] by (cases "find_sub m xs") auto

end
