(* ===== verification/Relay_Reader.thy ===== *)
theory Relay_Reader
  imports Bytes_Methods
begin

text \<open>
  The buffered reader and the body copiers of \<open>ratls_gateway.py\<close>. A connection is the list of
  byte strings its \<open>recv\<close> calls will return and how it ends; the point of the lemmas is that
  the results depend on the byte stream only, not on how \<open>recv\<close> cuts it up.
\<close>

section \<open>Connections\<close>

text \<open>
  The exceptions of the relay. \<open>OsError\<close> stands for \<open>OSError\<close> and its subclasses (a
  socket timeout included), \<open>SslError\<close> for the exceptions of the TLS library, which are not
  subclasses of it.
\<close>

datatype relay_exn =
    RelayProtocolError | OsError | SslError | IdleTimeout | UpstreamUnavailableError | ConnectionError | ValueError

text \<open>After the listed chunks \<open>recv\<close> returns the empty string for ever, or raises.\<close>

datatype ending = Closed | Raises relay_exn

record reader =
  pending :: "bytes list"
  ending :: ending
  buffer :: bytes

definition reader_of :: "bytes list \<Rightarrow> ending \<Rightarrow> reader" where
  "reader_of cs e = \<lparr>pending = cs, ending = e, buffer = []\<rparr>"

text \<open>What is still to be read.\<close>

definition stream :: "reader \<Rightarrow> bytes" where
  "stream r = buffer r @ concat (pending r)"

text \<open>\<open>recv\<close> returns the empty string only at the end.\<close>

definition chunks_ok :: "reader \<Rightarrow> bool" where
  "chunks_ok r \<longleftrightarrow> (\<forall>c \<in> set (pending r). c \<noteq> [])"

lemma chunks_ok_buffer [simp]: "chunks_ok (r\<lparr>buffer := x\<rparr>) = chunks_ok r"
  by (simp add: chunks_ok_def)

definition recv :: "reader \<Rightarrow> relay_exn + (bytes \<times> reader)" where
  "recv r = (case pending r of
     [] \<Rightarrow> (case ending r of Closed \<Rightarrow> Inr ([], r) | Raises e \<Rightarrow> Inl e)
   | c # cs \<Rightarrow> Inr (c, r\<lparr>pending := cs\<rparr>))"

text \<open>
  The loop shared by \<open>read_head\<close> and \<open>read_line\<close>: receive until the marker is in the buffer,
  the buffer reaches the limit, or the peer closes.
\<close>

datatype fill_result = Found | Peer_closed

function fill :: "bytes \<Rightarrow> nat \<Rightarrow> reader \<Rightarrow> relay_exn + (fill_result \<times> reader)" where
  "fill marker limit r =
     (if find_sub marker (buffer r) \<noteq> None then Inr (Found, r)
      else if length (buffer r) \<ge> limit then Inl RelayProtocolError
      else case recv r of
          Inl e \<Rightarrow> Inl e
        | Inr (chunk, r') \<Rightarrow>
            if chunk = [] then Inr (Peer_closed, r')
            else fill marker limit (r'\<lparr>buffer := buffer r' @ chunk\<rparr>))"
  by pat_completeness auto
termination
  by (relation "measure (\<lambda>(_, _, r). length (pending r))")
    (auto simp: recv_def split: list.splits ending.splits)

declare fill.simps [simp del]

definition MAX_RELAY_HEAD_BYTES :: nat where "MAX_RELAY_HEAD_BYTES = 32 * 1024"
definition RELAY_CHUNK_BYTES :: nat where "RELAY_CHUNK_BYTES = 65536"

definition CRLF :: bytes where "CRLF = [CHR 0x0D, CHR 0x0A]"
definition CRLF2 :: bytes where "CRLF2 = [CHR 0x0D, CHR 0x0A, CHR 0x0D, CHR 0x0A]"

definition take_through :: "bytes \<Rightarrow> reader \<Rightarrow> bytes \<times> reader" where
  "take_through marker r = (case find_sub marker (buffer r) of
     None \<Rightarrow> ([], r)
   | Some i \<Rightarrow> (take (i + length marker) (buffer r), r\<lparr>buffer := drop (i + length marker) (buffer r)\<rparr>))"

definition read_head :: "reader \<Rightarrow> relay_exn + (bytes option \<times> reader)" where
  "read_head r =
     bindE (fill CRLF2 MAX_RELAY_HEAD_BYTES r) (\<lambda>(res, r').
       case res of
         Peer_closed \<Rightarrow> if buffer r' = [] then Inr (None, r') else Inl RelayProtocolError
       | Found \<Rightarrow> let (head, r'') = take_through CRLF2 r' in Inr (Some head, r''))"

definition read_line :: "nat \<Rightarrow> reader \<Rightarrow> relay_exn + (bytes \<times> reader)" where
  "read_line limit r =
     bindE (fill CRLF limit r) (\<lambda>(res, r').
       case res of
         Peer_closed \<Rightarrow> Inl RelayProtocolError
       | Found \<Rightarrow> Inr (take_through CRLF r'))"

text \<open>\<open>buffer[:n]\<close> and \<open>del buffer[:n]\<close>, where a negative bound counts from the end.\<close>

definition py_take :: "int \<Rightarrow> bytes \<Rightarrow> bytes" where
  "py_take n xs = (if n \<ge> 0 then take (nat n) xs else take (length xs - nat (- n)) xs)"

definition py_drop :: "int \<Rightarrow> bytes \<Rightarrow> bytes" where
  "py_drop n xs = (if n \<ge> 0 then drop (nat n) xs else drop (length xs - nat (- n)) xs)"

definition read_available :: "int \<Rightarrow> reader \<Rightarrow> relay_exn + (bytes \<times> reader)" where
  "read_available limit r =
     bindE (if buffer r = [] then recv r else Inr (buffer r, r)) (\<lambda>(chunk, r').
       if chunk = [] then Inr ([], r')
       else let n = min limit (int (length chunk))
            in Inr (py_take n chunk, r'\<lparr>buffer := py_drop n chunk\<rparr>))"

section \<open>Copying\<close>

text \<open>A destination: what was sent, how many more \<open>sendall\<close> calls succeed, and what then raises.\<close>

record sink =
  sent :: "bytes list"
  sends_left :: "nat option"
  send_error :: relay_exn

definition sendall :: "bytes \<Rightarrow> sink \<Rightarrow> sink option" where
  "sendall data d = (case sends_left d of
     None \<Rightarrow> Some (d\<lparr>sent := sent d @ [data]\<rparr>)
   | Some 0 \<Rightarrow> None
   | Some (Suc n) \<Rightarrow> Some (d\<lparr>sent := sent d @ [data], sends_left := Some n\<rparr>))"

definition bytes_left :: "reader \<Rightarrow> nat" where
  "bytes_left r = length (stream r)"

lemma recv_stream: "recv r = Inr (c, r') \<Longrightarrow> stream r = buffer r @ c @ concat (pending r') \<and> buffer r' = buffer r \<and>
    ending r' = ending r \<and> (chunks_ok r \<longrightarrow> chunks_ok r' \<and> (c = [] \<longrightarrow> pending r = [] \<and> r' = r))"
  by (auto simp: recv_def stream_def chunks_ok_def split: list.splits ending.splits)

lemma py_take_drop: "py_take n xs @ py_drop n xs = xs"
  by (simp add: py_take_def py_drop_def)

lemma read_available_stream:
  assumes "read_available limit r = Inr (c, r')"
  shows "stream r = c @ stream r'" and "ending r' = ending r" and "chunks_ok r \<Longrightarrow> chunks_ok r'"
  using assms py_take_drop
  by (auto simp: read_available_def res_simps stream_def Let_def split: if_splits dest!: recv_stream)

text \<open>
  \<open>_drain_exact\<close>, and \<open>_copy_exact\<close> with the exception it ends with (if any), the reader,
  the destination, and the bytes its observer saw.
\<close>

function drain_exact :: "reader \<Rightarrow> int \<Rightarrow> relay_exn + (bool \<times> reader)" where
  "drain_exact r remaining =
     (if remaining = 0 then Inr (True, r)
      else case read_available (min (int RELAY_CHUNK_BYTES) remaining) r of
          Inl e \<Rightarrow> Inl e
        | Inr (chunk, r') \<Rightarrow>
            if chunk = [] then Inr (False, r')
            else drain_exact r' (remaining - int (length chunk)))"
  by pat_completeness auto
termination
  by (relation "measure (\<lambda>(r, _). bytes_left r)") (auto simp: bytes_left_def dest: read_available_stream(1))

function copy_exact :: "reader \<Rightarrow> sink \<Rightarrow> int \<Rightarrow> relay_exn option \<times> reader \<times> sink \<times> bytes" where
  "copy_exact r d remaining =
     (if remaining = 0 then (None, r, d, [])
      else case read_available (min (int RELAY_CHUNK_BYTES) remaining) r of
          Inl e \<Rightarrow> (Some e, r, d, [])
        | Inr (chunk, r') \<Rightarrow>
            if chunk = [] then (Some RelayProtocolError, r', d, [])
            else case sendall chunk d of
                None \<Rightarrow> (Some (send_error d), r', d, [])
              | Some d' \<Rightarrow>
                  let (e, r'', d'', seen) = copy_exact r' d' (remaining - int (length chunk))
                  in (e, r'', d'', chunk @ seen))"
  by pat_completeness auto
termination
  by (relation "measure (\<lambda>(r, _, _). bytes_left r)") (auto simp: bytes_left_def dest: read_available_stream(1))

declare drain_exact.simps [simp del] copy_exact.simps [simp del]

text \<open>The trailer section of a chunked body, through the final blank line.\<close>

lemma take_through_stream: "take_through m r = (l, r') \<Longrightarrow> stream r = l @ stream r' \<and> ending r' = ending r \<and>
    pending r' = pending r"
  by (auto simp: take_through_def stream_def split: option.splits)

lemma fill_stream:
  "fill m limit r = Inr (res, r') \<Longrightarrow> stream r' = stream r \<and> ending r' = ending r \<and> (chunks_ok r \<longrightarrow> chunks_ok r') \<and>
     (res = Found \<longrightarrow> find_sub m (buffer r') \<noteq> None)"
proof (induction m limit r rule: fill.induct)
  case (1 m limit r)
  show ?case
  proof (cases "find_sub m (buffer r) \<noteq> None")
    case True
    then show ?thesis using "1.prems" by (auto simp: fill.simps [of m limit r])
  next
    case False
    with "1.prems" obtain c q where lim: "\<not> length (buffer r) \<ge> limit" and q: "recv r = Inr (c, q)"
      by (auto simp: fill.simps [of m limit r] split: if_splits sum.splits)
    note R = recv_stream [OF q]
    show ?thesis
    proof (cases "c = []")
      case True
      then show ?thesis using "1.prems" False lim q R by (auto simp: fill.simps [of m limit r] stream_def)
    next
      case c: False
      then have "fill m limit (q\<lparr>buffer := buffer q @ c\<rparr>) = Inr (res, r')"
        using "1.prems" False lim q by (simp add: fill.simps [of m limit r])
      with "1.IH" [OF _ lim q refl c] False
      have IH: "stream r' = stream (q\<lparr>buffer := buffer q @ c\<rparr>) \<and> ending r' = ending q \<and>
          (chunks_ok q \<longrightarrow> chunks_ok r') \<and> (res = Found \<longrightarrow> find_sub m (buffer r') \<noteq> None)" by simp
      then show ?thesis using R by (simp add: stream_def)
    qed
  qed
qed

lemma read_line_stream:
  "read_line limit r = Inr (l, r') \<Longrightarrow> stream r = l @ stream r' \<and> l \<noteq> [] \<and> ending r' = ending r \<and> (chunks_ok r \<longrightarrow> chunks_ok r')"
proof -
  assume "read_line limit r = Inr (l, r')"
  then obtain q where f: "fill CRLF limit r = Inr (Found, q)" and t: "take_through CRLF q = (l, r')"
    by (cases "fill CRLF limit r") (auto simp: read_line_def split: fill_result.split_asm)
  note F = fill_stream [OF f] and T = take_through_stream [OF t]
  have "find_sub CRLF (buffer q) \<noteq> None" using F by blast
  then obtain i where i: "find_sub CRLF (buffer q) = Some i" by blast
  with t find_sub_Some [OF i] have "l \<noteq> []" by (auto simp: take_through_def CRLF_def)
  with F T show ?thesis by (auto simp: chunks_ok_def)
qed

function copy_trailer :: "reader \<Rightarrow> sink \<Rightarrow> relay_exn option \<times> reader \<times> sink" where
  "copy_trailer r d =
     (case read_line 1024 r of
        Inl e \<Rightarrow> (Some e, r, d)
      | Inr (line, r') \<Rightarrow>
          (case sendall line d of
             None \<Rightarrow> (Some (send_error d), r', d)
           | Some d' \<Rightarrow> if line = CRLF then (None, r', d') else copy_trailer r' d'))"
  by pat_completeness auto
termination
  by (relation "measure (\<lambda>(r, _). bytes_left r)") (auto simp: bytes_left_def dest!: read_line_stream)

declare copy_trailer.simps [simp del]

lemma copy_exact_stream:
  "copy_exact r d n = (e, r', d', seen) \<Longrightarrow> \<exists>u. stream r = u @ stream r'"
proof (induction r d n arbitrary: e r' d' seen rule: copy_exact.induct)
  case (1 r d n)
  show ?case
  proof (cases "n = 0")
    case True
    then show ?thesis using "1.prems" by (auto simp: copy_exact.simps [of r d 0])
  next
    case n: False
    show ?thesis
    proof (cases "read_available (min (int RELAY_CHUNK_BYTES) n) r")
      case (Inl x)
      then show ?thesis using "1.prems" n by (auto simp: copy_exact.simps [of r d n])
    next
      case (Inr p)
      obtain c q where p: "p = (c, q)" by fastforce
      note S = read_available_stream(1) [OF Inr [unfolded p]]
      show ?thesis
      proof (cases "c = [] \<or> sendall c d = None")
        case True
        then show ?thesis using "1.prems" n Inr S by (auto simp: copy_exact.simps [of r d n] p split: if_splits)
      next
        case False
        then obtain d1 where d1: "sendall c d = Some d1" by auto
        obtain e2 r2 d2 s2 where c2: "copy_exact q d1 (n - int (length c)) = (e2, r2, d2, s2)" by (metis prod_cases4)
        from "1.IH" [OF n Inr p [symmetric] _ d1 c2] False obtain u where "stream q = u @ stream r2" by auto
        then show ?thesis using "1.prems" n Inr S False d1 c2
          by (auto simp: copy_exact.simps [of r d n] p)
      qed
    qed
  qed
qed

lemma copy_exact_left: "(e, r', d', seen) = copy_exact r d n \<Longrightarrow> bytes_left r' \<le> bytes_left r"
  using copy_exact_stream [of r d n e r' d' seen] by (auto simp: bytes_left_def)

lemma read_line_left: "read_line limit r = Inr (l, r') \<Longrightarrow> bytes_left r' < bytes_left r"
  by (auto simp: bytes_left_def dest: read_line_stream)

text \<open>\<open>_copy_chunked\<close>.\<close>

function copy_chunked :: "reader \<Rightarrow> sink \<Rightarrow> relay_exn option \<times> reader \<times> sink \<times> bytes" where
  "copy_chunked r d =
     (case read_line 1024 r of
        Inl e \<Rightarrow> (Some e, r, d, [])
      | Inr (size_line, r1) \<Rightarrow>
          (case sendall size_line d of
             None \<Rightarrow> (Some (send_error d), r1, d, [])
           | Some d1 \<Rightarrow>
               (case int16 (takeWhile (\<lambda>c. c \<noteq> CHR '';'') (strip size_line)) of
                  None \<Rightarrow> (Some RelayProtocolError, r1, d1, [])
                | Some chunk_size \<Rightarrow>
                    if chunk_size \<noteq> 0 then
                      (case copy_exact r1 d1 chunk_size of
                         (Some e, r2, d2, seen) \<Rightarrow> (Some e, r2, d2, seen)
                       | (None, r2, d2, seen) \<Rightarrow>
                           (case copy_exact r2 d2 2 of
                              (Some e, r3, d3, _) \<Rightarrow> (Some e, r3, d3, seen)
                            | (None, r3, d3, _) \<Rightarrow>
                                let (e, r4, d4, seen') = copy_chunked r3 d3 in (e, r4, d4, seen @ seen')))
                    else
                      let (e, r2, d2) = copy_trailer r1 d1 in (e, r2, d2, []))))"
  by pat_completeness auto
termination
  by (relation "measure (\<lambda>(r, _). bytes_left r)")
    (auto dest!: read_line_left copy_exact_left)

declare copy_chunked.simps [simp del]

section \<open>Independence of the cutting\<close>

lemma fill_complete:
  "chunks_ok r \<Longrightarrow> find_sub m (stream r) = Some i \<Longrightarrow> i + length m \<le> limit \<Longrightarrow>
   \<exists>r'. fill m limit r = Inr (Found, r')"
proof (induction m limit r rule: fill.induct)
  case (1 m limit r)
  show ?case
  proof (cases "find_sub m (buffer r) \<noteq> None")
    case True
    then show ?thesis by (simp add: fill.simps [of m limit r])
  next
    case none: False
    have short: "length (buffer r) < i + length m"
      using find_sub_within [of m "buffer r" "concat (pending r)" i] none "1.prems"(2) by (force simp: stream_def)
    then have lim: "\<not> length (buffer r) \<ge> limit" using "1.prems"(3) by simp
    have "pending r \<noteq> []"
      using none "1.prems"(2) by (auto simp: stream_def)
    then obtain c cs where p: "pending r = c # cs" by (cases "pending r") auto
    have q: "recv r = Inr (c, r\<lparr>pending := cs\<rparr>)" and c: "c \<noteq> []"
      using p "1.prems"(1) by (auto simp: recv_def chunks_ok_def)
    have "chunks_ok (r\<lparr>pending := cs, buffer := buffer r @ c\<rparr>)" "stream (r\<lparr>pending := cs, buffer := buffer r @ c\<rparr>) = stream r"
      using "1.prems"(1) p by (auto simp: chunks_ok_def stream_def)
    with "1.IH" [OF _ lim q refl c] none "1.prems"(2,3) show ?thesis
      using lim q c by (simp add: fill.simps [of m limit r])
  qed
qed

text \<open>The marker the loop stops at is the first one of the stream.\<close>

lemma found_first:
  assumes "find_sub m (buffer r) \<noteq> None" and "take_through m r = (l, r')"
  shows "\<exists>i. find_sub m (stream r) = Some i \<and> l = take (i + length m) (stream r) \<and> stream r' = drop (i + length m) (stream r)"
proof -
  from assms(1) obtain i where i: "find_sub m (buffer r) = Some i" by blast
  have "i + length m \<le> length (buffer r)" using find_sub_Some [OF i] by blast
  then show ?thesis using i assms(2) find_sub_prefix [OF i, of "concat (pending r)"]
    by (auto simp: take_through_def stream_def)
qed

lemma read_head_first:
  assumes "read_head r = Inr (Some head, r')"
  shows "\<exists>i. find_sub CRLF2 (stream r) = Some i \<and> head = take (i + 4) (stream r) \<and> stream r' = drop (i + 4) (stream r)"
proof -
  from assms obtain q where f: "fill CRLF2 MAX_RELAY_HEAD_BYTES r = Inr (Found, q)" and t: "take_through CRLF2 q = (head, r')"
    by (cases "fill CRLF2 MAX_RELAY_HEAD_BYTES r")
      (auto simp: read_head_def Let_def split: fill_result.split_asm if_splits prod.splits)
  have "length CRLF2 = 4" by (simp add: CRLF2_def)
  then show ?thesis using fill_stream [OF f] found_first [of CRLF2 q, OF _ t] by auto
qed

text \<open>
  Reading a head does not depend on how the bytes arrive: if the first blank line of the
  stream ends within the head limit, \<open>read_head\<close> returns exactly the bytes through it and
  leaves exactly the rest, for every way of cutting the stream into received pieces; and whenever
  it returns a head at all, it is that one.
\<close>

theorem read_head_stream:
  assumes "chunks_ok r" and "find_sub CRLF2 (stream r) = Some i" and "i + 4 \<le> MAX_RELAY_HEAD_BYTES"
  shows "\<exists>r'. read_head r = Inr (Some (take (i + 4) (stream r)), r') \<and> stream r' = drop (i + 4) (stream r)"
proof -
  have len: "length CRLF2 = 4" by (simp add: CRLF2_def)
  with assms obtain q where f: "fill CRLF2 MAX_RELAY_HEAD_BYTES r = Inr (Found, q)"
    using fill_complete by metis
  obtain head r' where t: "take_through CRLF2 q = (head, r')" by fastforce
  have "read_head r = Inr (Some head, r')" by (simp add: read_head_def f t)
  with read_head_first [OF this] assms(2) show ?thesis by auto
qed

lemma read_line_first:
  assumes "read_line limit r = Inr (l, r')"
  shows "\<exists>i. find_sub CRLF (stream r) = Some i \<and> l = take (i + 2) (stream r) \<and> stream r' = drop (i + 2) (stream r)"
proof -
  from assms obtain q where f: "fill CRLF limit r = Inr (Found, q)" and t: "take_through CRLF q = (l, r')"
    by (cases "fill CRLF limit r") (auto simp: read_line_def split: fill_result.split_asm)
  have "length CRLF = 2" by (simp add: CRLF_def)
  then show ?thesis using fill_stream [OF f] found_first [of CRLF q, OF _ t] by auto
qed

lemma read_line_complete:
  assumes "chunks_ok r" and "find_sub CRLF (stream r) = Some i" and "i + 2 \<le> limit"
  shows "\<exists>r'. read_line limit r = Inr (take (i + 2) (stream r), r') \<and> stream r' = drop (i + 2) (stream r) \<and> chunks_ok r'"
proof -
  have len: "length CRLF = 2" by (simp add: CRLF_def)
  with assms obtain q where f: "fill CRLF limit r = Inr (Found, q)" using fill_complete by metis
  obtain l r' where t: "take_through CRLF q = (l, r')" by fastforce
  have l: "read_line limit r = Inr (l, r')" by (simp add: read_line_def f t)
  with read_line_first [OF this] read_line_stream [OF l] assms(1,2) show ?thesis by auto
qed

text \<open>A positive request is answered by a non-empty piece of at most that size, until the end.\<close>

lemma read_available_progress:
  assumes "chunks_ok r" and "stream r \<noteq> []" and "0 < n"
  shows "\<exists>c r'. read_available n r = Inr (c, r') \<and> c \<noteq> [] \<and> int (length c) \<le> n \<and> stream r = c @ stream r' \<and> chunks_ok r'"
proof -
  obtain b q where b: "(if buffer r = [] then recv r else Inr (buffer r, r)) = Inr (b, q)" "b \<noteq> []"
    using assms(1,2) by (cases "buffer r = []"; cases "pending r") (auto simp: recv_def stream_def chunks_ok_def)
  define k where "k = min n (int (length b))"
  have k: "0 < k" "k \<le> n" using assms(3) b(2) by (auto simp: k_def)
  have "read_available n r = Inr (py_take k b, q\<lparr>buffer := py_drop k b\<rparr>)"
    using b by (simp add: read_available_def k_def Let_def)
  moreover have "py_take k b \<noteq> []" "int (length (py_take k b)) \<le> n" using k b(2) by (auto simp: py_take_def)
  ultimately show ?thesis using read_available_stream assms(1) by blast
qed

lemma sendall_unlimited [simp]: "sends_left d = None \<Longrightarrow> sendall x d = Some (d\<lparr>sent := sent d @ [x]\<rparr>)"
  by (simp add: sendall_def)

text \<open>
  \<open>_copy_exact\<close> forwards exactly the requested number of bytes, unchanged and in order,
  shows the same bytes to its observer, and leaves the rest of the stream unread, however the
  stream is cut; it asks for a body of zero bytes without reading.
\<close>

theorem copy_exact_correct:
  assumes "chunks_ok r" and "n \<le> length (stream r)" and "sends_left d = None"
  shows "\<exists>r' d'. copy_exact r d (int n) = (None, r', d', take n (stream r)) \<and> stream r' = drop n (stream r) \<and>
    concat (sent d') = concat (sent d) @ take n (stream r) \<and> chunks_ok r' \<and> sends_left d' = None"
  using assms
proof (induction n arbitrary: r d rule: less_induct)
  case (less n)
  show ?case
  proof (cases "n = 0")
    case True
    then show ?thesis using less.prems by (simp add: copy_exact.simps [of r d 0])
  next
    case False
    then have ne: "stream r \<noteq> []" and pos: "0 < min (int RELAY_CHUNK_BYTES) (int n)"
      using less.prems(2) by (auto simp: RELAY_CHUNK_BYTES_def)
    obtain c q where ra: "read_available (min (int RELAY_CHUNK_BYTES) (int n)) r = Inr (c, q)" and c: "c \<noteq> []"
      and len: "int (length c) \<le> min (int RELAY_CHUNK_BYTES) (int n)" and st: "stream r = c @ stream q" and ok: "chunks_ok q"
      using read_available_progress [OF less.prems(1) ne pos] by blast
    define d1 where "d1 = d\<lparr>sent := sent d @ [c]\<rparr>"
    have le: "length c \<le> n" using len by simp
    have "n - length c < n" "n - length c \<le> length (stream q)" "sends_left d1 = None"
      using less.prems c False st by (auto simp: d1_def)
    from less.IH [OF this(1) ok this(2,3)] obtain r' d' where
      IH: "copy_exact q d1 (int (n - length c)) = (None, r', d', take (n - length c) (stream q))"
        "stream r' = drop (n - length c) (stream q)"
        "concat (sent d') = concat (sent d1) @ take (n - length c) (stream q)" "chunks_ok r'" "sends_left d' = None"
      by blast
    have "copy_exact r d (int n) = (None, r', d', c @ take (n - length c) (stream q))"
      using False ra c less.prems(3) IH(1) le by (simp add: copy_exact.simps [of r d "int n"] d1_def of_nat_diff)
    then show ?thesis using IH st le by (auto simp: d1_def)
  qed
qed

theorem copy_exact_correct_witness:
  "\<exists>r' d'. copy_exact (reader_of [''ab'', ''cde''] Closed) \<lparr>sent = [], sends_left = None, send_error = OsError\<rparr> (int 3) =
     (None, r', d', ''abc'') \<and> stream r' = ''de''"
  using copy_exact_correct [of "reader_of [''ab'', ''cde''] Closed" 3 "\<lparr>sent = [], sends_left = None, send_error = OsError\<rparr>"]
  by (auto simp: chunks_ok_def reader_of_def stream_def)

theorem read_head_stream_witness:
  "\<exists>r'. read_head (reader_of [[CHR ''G'', CHR 0x0D], [CHR 0x0A, CHR 0x0D], [CHR 0x0A, CHR ''x'']] Closed) =
     Inr (Some [CHR ''G'', CHR 0x0D, CHR 0x0A, CHR 0x0D, CHR 0x0A], r') \<and> stream r' = ''x''"
  using read_head_stream [of "reader_of [[CHR ''G'', CHR 0x0D], [CHR 0x0A, CHR 0x0D], [CHR 0x0A, CHR ''x'']] Closed" 1]
  by (auto simp: chunks_ok_def reader_of_def stream_def CRLF2_def find_sub.simps starts_with_def MAX_RELAY_HEAD_BYTES_def)

section \<open>Chunked bodies\<close>

text \<open>A line of a chunked body: CRLF at its end and not before, within the line limit.\<close>

definition body_line :: "bytes \<Rightarrow> bool" where
  "body_line l \<longleftrightarrow> 2 \<le> length l \<and> length l \<le> 1024 \<and> find_sub CRLF l = Some (length l - 2)"

definition size_of :: "bytes \<Rightarrow> int option" where
  "size_of l = int16 (takeWhile (\<lambda>c. c \<noteq> CHR '';'') (strip l))"

text \<open>A chunk: its size line, its data, and the two bytes that end it.\<close>

definition body_chunk :: "bytes \<times> bytes \<times> bytes \<Rightarrow> bool" where
  "body_chunk c = (case c of (l, b, x) \<Rightarrow> body_line l \<and> size_of l = Some (int (length b)) \<and> b \<noteq> [] \<and> length x = 2)"

definition chunk_text :: "bytes \<times> bytes \<times> bytes \<Rightarrow> bytes" where
  "chunk_text c = (case c of (l, b, x) \<Rightarrow> l @ b @ x)"

lemma chunk_text_eq [simp]: "chunk_text (l, b, x) = l @ b @ x"
  by (simp add: chunk_text_def)

lemma read_body_line:
  assumes "chunks_ok r" and "body_line l" and "stream r = l @ rest"
  shows "\<exists>r'. read_line 1024 r = Inr (l, r') \<and> stream r' = rest \<and> chunks_ok r'"
proof -
  have "find_sub CRLF (stream r) = Some (length l - 2)" "length l - 2 + 2 = length l"
    using assms find_sub_prefix by (auto simp: body_line_def)
  with read_line_complete [OF assms(1), of "length l - 2" 1024] assms show ?thesis by (auto simp: body_line_def)
qed

lemma copy_trailer_correct:
  assumes "chunks_ok r" and "\<forall>t \<in> set ts. body_line t \<and> t \<noteq> CRLF" and "stream r = concat ts @ CRLF @ rest"
    and "sends_left d = None"
  shows "\<exists>r' d'. copy_trailer r d = (None, r', d') \<and> stream r' = rest \<and> concat (sent d') = concat (sent d) @ concat ts @ CRLF"
  using assms
proof (induction ts arbitrary: r d)
  case Nil
  have "body_line CRLF" by (simp add: body_line_def CRLF_def find_sub.simps starts_with_def)
  then obtain r' where "read_line 1024 r = Inr (CRLF, r')" "stream r' = rest"
    using read_body_line [of r CRLF rest] Nil.prems by auto
  then show ?case using Nil.prems(4) by (auto simp: copy_trailer.simps [of r d])
next
  case (Cons t ts)
  then obtain q where q: "read_line 1024 r = Inr (t, q)" "stream q = concat ts @ CRLF @ rest" "chunks_ok q"
    using read_body_line [of r t "concat ts @ CRLF @ rest"] by auto
  from Cons.IH [OF q(3) _ q(2), of "d\<lparr>sent := sent d @ [t]\<rparr>"] Cons.prems(2,4) show ?case
    using q(1) by (auto simp: copy_trailer.simps [of r d])
qed

text \<open>
  C37. A chunked body passes through verbatim: the size lines (with their extensions), the data,
  the two bytes after each chunk and the trailer section are forwarded unchanged up to and
  including the final blank line, the observer sees exactly the data, and the stream is left right
  after the body, however it is cut.
\<close>

theorem copy_chunked_correct:
  assumes "chunks_ok r" and "\<forall>c \<in> set cs. body_chunk c" and "body_line final" and "size_of final = Some 0"
    and "\<forall>t \<in> set ts. body_line t \<and> t \<noteq> CRLF" and "sends_left d = None"
    and "stream r = concat (map chunk_text cs) @ final @ concat ts @ CRLF @ rest"
  shows "\<exists>r' d'. copy_chunked r d = (None, r', d', concat (map (\<lambda>(l, b, x). b) cs)) \<and> stream r' = rest \<and>
    concat (sent d') = concat (sent d) @ concat (map chunk_text cs) @ final @ concat ts @ CRLF"
  using assms
proof (induction cs arbitrary: r d)
  case Nil
  then obtain q where q: "read_line 1024 r = Inr (final, q)" "stream q = concat ts @ CRLF @ rest" "chunks_ok q"
    using read_body_line [of r final "concat ts @ CRLF @ rest"] by auto
  with copy_trailer_correct [OF q(3) Nil.prems(5) q(2), of "d\<lparr>sent := sent d @ [final]\<rparr>"] Nil.prems(4,6)
  show ?case by (auto simp: copy_chunked.simps [of r d] size_of_def [symmetric])
next
  case (Cons c cs)
  obtain l b x where c: "c = (l, b, x)" by (metis prod_cases3)
  let ?rest = "concat (map chunk_text cs) @ final @ concat ts @ CRLF @ rest"
  have ok: "body_line l" "size_of l = Some (int (length b))" "b \<noteq> []" "length x = 2"
    using Cons.prems(2) by (auto simp: body_chunk_def c)
  obtain r1 where r1: "read_line 1024 r = Inr (l, r1)" "stream r1 = b @ x @ ?rest" "chunks_ok r1"
    using read_body_line [of r l "b @ x @ ?rest"] Cons.prems(1,7) ok(1) by (auto simp: c)
  define d1 where "d1 = d\<lparr>sent := sent d @ [l]\<rparr>"
  obtain r2 d2 where r2: "copy_exact r1 d1 (int (length b)) = (None, r2, d2, b)" "stream r2 = x @ ?rest" "chunks_ok r2"
    "concat (sent d2) = concat (sent d1) @ b" "sends_left d2 = None"
    using copy_exact_correct [OF r1(3), of "length b" d1] r1(2) Cons.prems(6) by (auto simp: d1_def)
  obtain r3 d3 where r3: "copy_exact r2 d2 (int 2) = (None, r3, d3, x)" "stream r3 = ?rest" "chunks_ok r3"
    "concat (sent d3) = concat (sent d2) @ x" "sends_left d3 = None"
    using copy_exact_correct [OF r2(3), of 2 d2] r2(2,5) ok(4) by (auto simp: take_Cons' numeral_eq_Suc)
  have "\<forall>c \<in> set cs. body_chunk c" using Cons.prems(2) by simp
  from Cons.IH [OF r3(3) this Cons.prems(3-5) r3(5) r3(2)] show ?case
    using r1(1) r2 r3 ok(2,3) Cons.prems(6)
    by (auto simp: copy_chunked.simps [of r d] size_of_def [symmetric] d1_def c)
qed

theorem copy_chunked_correct_witness:
  "\<exists>r' d'. copy_chunked (reader_of [''2'', CRLF @ ''ab'', CRLF @ ''0'' @ CRLF, CRLF @ ''HTTP''] Closed)
       \<lparr>sent = [], sends_left = None, send_error = SslError\<rparr> = (None, r', d', ''ab'') \<and> stream r' = ''HTTP'' \<and>
     concat (sent d') = ''2'' @ CRLF @ ''ab'' @ CRLF @ ''0'' @ CRLF @ CRLF"
proof -
  let ?r = "reader_of [''2'', CRLF @ ''ab'', CRLF @ ''0'' @ CRLF, CRLF @ ''HTTP''] Closed"
  have ok: "chunks_ok ?r" "stream ?r = concat (map chunk_text [(''2'' @ CRLF, ''ab'', CRLF)]) @ (''0'' @ CRLF) @ concat [] @ CRLF @ ''HTTP''"
    by (simp_all add: chunks_ok_def reader_of_def stream_def CRLF_def)
  have "body_chunk (''2'' @ CRLF, ''ab'', CRLF)" "body_line (''0'' @ CRLF)" "size_of (''0'' @ CRLF) = Some 0"
    by (simp_all add: body_chunk_def body_line_def size_of_def CRLF_def find_sub.simps starts_with_def int16_def strip_def
        is_space_def hex_char_val_def Let_def)
  with copy_chunked_correct [OF ok(1) _ _ _ _ _ ok(2), of "\<lparr>sent = [], sends_left = None, send_error = SslError\<rparr>"]
  show ?thesis by simp
qed

end
