(* ===== verification/Sha256.thy ===== *)
theory Sha256
  imports Prelude
begin

text \<open>
  SHA-256 as \<open>hashlib.sha256\<close> computes it (FIPS 180-4) on 32-bit words, and the HMAC of
  RFC 2104 over it. Both are executable; the proofs of the components use only the length of a
  digest.
\<close>

definition rotr32 :: "nat \<Rightarrow> 32 word \<Rightarrow> 32 word" where
  "rotr32 n w = drop_bit n w OR push_bit (32 - n) w"

text \<open>The round constants and the initial state of the standard, in decimal.\<close>

definition sha_k :: "32 word list" where
  "sha_k = [
    1116352408, 1899447441, 3049323471, 3921009573, 961987163, 1508970993, 2453635748, 2870763221,
    3624381080, 310598401, 607225278, 1426881987, 1925078388, 2162078206, 2614888103, 3248222580,
    3835390401, 4022224774, 264347078, 604807628, 770255983, 1249150122, 1555081692, 1996064986,
    2554220882, 2821834349, 2952996808, 3210313671, 3336571891, 3584528711, 113926993, 338241895,
    666307205, 773529912, 1294757372, 1396182291, 1695183700, 1986661051, 2177026350, 2456956037,
    2730485921, 2820302411, 3259730800, 3345764771, 3516065817, 3600352804, 4094571909, 275423344,
    430227734, 506948616, 659060556, 883997877, 958139571, 1322822218, 1537002063, 1747873779,
    1955562222, 2024104815, 2227730452, 2361852424, 2428436474, 2756734187, 3204031479, 3329325298]"

definition sha_h0 :: "32 word list" where
  "sha_h0 = [1779033703, 3144134277, 1013904242, 2773480762, 1359893119, 2600822924, 528734635, 1541459225]"

definition sha_pad :: "bytes \<Rightarrow> bytes" where
  "sha_pad m = m @ [CHR 0x80] @ replicate ((119 - length m mod 64) mod 64) (CHR 0x00) @ to_be 8 (8 * length m)"

fun sha_words :: "bytes \<Rightarrow> 32 word list" where
  "sha_words (a # b # c # d # r) =
     (push_bit 24 (of_char a) OR push_bit 16 (of_char b) OR push_bit 8 (of_char c) OR of_char d) # sha_words r"
| "sha_words _ = []"

text \<open>The message schedule, kept newest first.\<close>

definition sha_next :: "32 word list \<Rightarrow> 32 word" where
  "sha_next w = (let a = w ! 1; b = w ! 14
     in (rotr32 17 a XOR rotr32 19 a XOR drop_bit 10 a) + w ! 6
        + (rotr32 7 b XOR rotr32 18 b XOR drop_bit 3 b) + w ! 15)"

primrec sha_extend :: "nat \<Rightarrow> 32 word list \<Rightarrow> 32 word list" where
  "sha_extend 0 w = w"
| "sha_extend (Suc n) w = sha_extend n (sha_next w # w)"

fun sha_round :: "32 word list \<Rightarrow> 32 word \<times> 32 word \<Rightarrow> 32 word list" where
  "sha_round [a, b, c, d, e, f, g, h] (k, w) =
     (let t1 = h + (rotr32 6 e XOR rotr32 11 e XOR rotr32 25 e) + ((e AND f) XOR (NOT e AND g)) + k + w;
          t2 = (rotr32 2 a XOR rotr32 13 a XOR rotr32 22 a) + ((a AND b) XOR (a AND c) XOR (b AND c))
      in [t1 + t2, a, b, c, d + t1, e, f, g])"
| "sha_round s _ = s"

definition sha_compress :: "32 word list \<Rightarrow> bytes \<Rightarrow> 32 word list" where
  "sha_compress h blk =
     map2 (+) h (foldl sha_round h (zip sha_k (rev (sha_extend 48 (rev (sha_words blk))))))"

function sha_blocks :: "32 word list \<Rightarrow> bytes \<Rightarrow> 32 word list" where
  "sha_blocks h m = (if length m < 64 then h else sha_blocks (sha_compress h (take 64 m)) (drop 64 m))"
  by pat_completeness auto
termination by (relation "measure (\<lambda>(_, m). length m)") auto

declare sha_blocks.simps [simp del]

definition sha_bytes :: "32 word \<Rightarrow> bytes" where
  "sha_bytes w = map (\<lambda>n. byte_of (unat (drop_bit n w AND 0xff))) [24, 16, 8, 0]"

definition sha256 :: "bytes \<Rightarrow> bytes" where
  "sha256 m = concat (map sha_bytes (sha_blocks sha_h0 (sha_pad m)))"

text \<open>\<open>hmac.new(key, message, hashlib.sha256).digest()\<close>, block size 64.\<close>

definition hmac_sha256 :: "bytes \<Rightarrow> bytes \<Rightarrow> bytes" where
  "hmac_sha256 key message =
     (let k0 = if length key > 64 then sha256 key else key;
          k = k0 @ replicate (64 - length k0) (CHR 0x00);
          pad = (\<lambda>v. map (\<lambda>b. byte_of (byte_val b XOR v)) k)
      in sha256 (pad 0x5c @ sha256 (pad 0x36 @ message)))"

text \<open>\<open>bytes.hex()\<close>.\<close>

definition hex_digit :: "nat \<Rightarrow> char" where
  "hex_digit n = ''0123456789abcdef'' ! n"

definition to_hex :: "bytes \<Rightarrow> string" where
  "to_hex bs = concat (map (\<lambda>b. [hex_digit (byte_val b div 16), hex_digit (byte_val b mod 16)]) bs)"

lemma length_sha_round [simp]: "length h = 8 \<Longrightarrow> length (sha_round h x) = 8"
  by (cases "(h, x)" rule: sha_round.cases) (simp_all add: Let_def)

lemma length_foldl_sha_round [simp]: "length h = 8 \<Longrightarrow> length (foldl sha_round h xs) = 8"
  by (induction xs arbitrary: h) simp_all

lemma length_sha_blocks: "length h = 8 \<Longrightarrow> length (sha_blocks h m) = 8"
proof (induction h m rule: sha_blocks.induct)
  case (1 h m)
  then show ?case by (subst sha_blocks.simps) (simp add: sha_compress_def)
qed

lemma length_sha256 [simp, byte_simps]: "length (sha256 m) = 32"
  by (simp add: sha256_def sha_bytes_def length_concat length_sha_blocks sha_h0_def o_def sum_list_triv)

lemma length_hmac_sha256 [simp, byte_simps]: "length (hmac_sha256 k m) = 32"
  by (simp add: hmac_sha256_def Let_def)

lemma length_to_hex [simp, byte_simps]: "length (to_hex bs) = 2 * length bs"
  by (induction bs) (simp_all add: to_hex_def)

end
