(* ===== verification/Allowance.thy ===== *)
theory Allowance
  imports Complex_Main Sha256
begin

text \<open>
  The daily allowance of \<open>allowance.py\<close>. A lease holds a reference to a \<open>_State\<close> that
  the table \<open>_states\<close> also refers to, and the day change mutates some of these objects and
  drops others, so the model keeps the objects in a heap and the references explicit. Clock
  readings are arguments (rational numbers of seconds; float rounding is not modelled); every
  public method runs under one lock and is one step of the machine.
\<close>

section \<open>Data\<close>

record Policy =
  daily :: int
  cooldown_ms :: int
  audio_per_second :: int
  max_inflight :: int

record Authorization =
  journal :: string
  policy :: "Policy option"

record State =
  st_day :: int
  st_used :: int
  st_active :: int
  st_completed_at :: "rat option"

record Lease =
  l_key :: bytes
  l_state :: nat
  l_delay :: rat
  l_policy :: Policy
  l_finished :: bool

text \<open>
  \<open>_states\<close> is an insertion-ordered dict from keys to references; \<open>a_leases\<close> holds the
  lease objects that the callers of \<open>begin\<close> keep, in order of creation.
\<close>

record Allowance =
  a_day :: int
  a_key :: bytes
  a_states :: "(bytes \<times> nat) list"
  a_heap :: "State list"
  a_leases :: "Lease list"

datatype occupancy = OccupancyExceeded

section \<open>Operations\<close>

definition day_of :: "rat \<Rightarrow> int" where
  "day_of now = \<lfloor>now / 86400\<rfloor>"

definition new_allowance :: "rat \<Rightarrow> bytes \<Rightarrow> Allowance" where
  "new_allowance now key = \<lparr>a_day = day_of now, a_key = key, a_states = [], a_heap = [], a_leases = []\<rparr>"

text \<open>The body of the loop of \<open>_expire\<close> over the dict's items.\<close>

fun expire_item :: "int \<Rightarrow> State list \<times> (bytes \<times> nat) list \<Rightarrow> bytes \<times> nat \<Rightarrow> State list \<times> (bytes \<times> nat) list" where
  "expire_item day (heap, states) (key, ref) =
     (if st_active (heap ! ref) \<noteq> 0
      then (heap[ref := (heap ! ref)\<lparr>st_day := day, st_used := 0, st_completed_at := None\<rparr>], states)
      else (heap, filter (\<lambda>e. fst e \<noteq> key) states))"

definition expire_locked :: "rat \<Rightarrow> Allowance \<Rightarrow> Allowance" where
  "expire_locked now s =
     (let day = day_of now
      in if day \<le> a_day s then s
         else let (heap, states) = foldl (expire_item day) (a_heap s, a_states s) (a_states s)
              in s\<lparr>a_day := day, a_heap := heap, a_states := states\<rparr>)"

text \<open>\<open>self._states.setdefault(key, _State(self._day))\<close>.\<close>

definition setdefault :: "bytes \<Rightarrow> Allowance \<Rightarrow> Allowance \<times> nat" where
  "setdefault key s =
     (case map_of (a_states s) key of
        Some ref \<Rightarrow> (s, ref)
      | None \<Rightarrow>
          (s\<lparr>a_states := a_states s @ [(key, length (a_heap s))],
             a_heap := a_heap s @ [\<lparr>st_day = a_day s, st_used = 0, st_active = 0, st_completed_at = None\<rparr>]\<rparr>,
           length (a_heap s)))"

definition begin_delay :: "Policy \<Rightarrow> bool \<Rightarrow> rat option \<Rightarrow> rat \<Rightarrow> rat" where
  "begin_delay p slower completed_at mnow =
     (case completed_at of
        Some t \<Rightarrow> if slower then max 0 (t + of_int (cooldown_ms p) / 1000 - mnow) else 0
      | None \<Rightarrow> 0)"

text \<open>\<open>begin\<close> returns \<open>None\<close>, a lease (its number) or raises.\<close>

definition begin_lease :: "Allowance \<Rightarrow> Authorization \<Rightarrow> rat \<Rightarrow> rat \<Rightarrow> Allowance \<times> (occupancy + nat option)" where
  "begin_lease s authorization now mnow =
     (case policy authorization of
        None \<Rightarrow> (s, Inr None)
      | Some p \<Rightarrow>
          let key = hmac_sha256 (a_key s) (journal authorization);
              (s1, ref) = setdefault key (expire_locked now s);
              state = a_heap s1 ! ref;
              slower = (st_used state \<ge> daily p)
          in if st_active state \<ge> (if slower then 1 else max_inflight p)
             then (s1, Inl OccupancyExceeded)
             else
               (s1\<lparr>a_heap := (a_heap s1)[ref := state\<lparr>st_active := st_active state + 1\<rparr>],
                   a_leases := a_leases s1 @
                     [\<lparr>l_key = key, l_state = ref, l_delay = begin_delay p slower (st_completed_at state) mnow,
                       l_policy = p, l_finished = False\<rparr>]\<rparr>,
                Inr (Some (length (a_leases s1)))))"

definition finish_lease :: "Allowance \<Rightarrow> nat option \<Rightarrow> int \<Rightarrow> bool \<Rightarrow> rat \<Rightarrow> rat \<Rightarrow> Allowance" where
  "finish_lease s lease units worked now mnow =
     (case lease of
        None \<Rightarrow> s
      | Some i \<Rightarrow>
          if l_finished (a_leases s ! i) then s
          else
            let s1 = expire_locked now s;
                ref = l_state (a_leases s ! i);
                st1 = (a_heap s1 ! ref)\<lparr>st_active := st_active (a_heap s1 ! ref) - 1\<rparr>;
                st2 = (if worked
                       then st1\<lparr>st_used := min (10 ^ 15) (st_used st1 + max 0 units), st_completed_at := Some mnow\<rparr>
                       else st1)
            in s1\<lparr>a_heap := (a_heap s1)[ref := st2],
                  a_leases := (a_leases s1)[i := (a_leases s1 ! i)\<lparr>l_finished := True\<rparr>]\<rparr>)"

definition audio_units :: "int \<Rightarrow> Policy \<Rightarrow> int" where
  "audio_units milliseconds p = (milliseconds * audio_per_second p + 999) div 1000"

text \<open>
  The calls a process makes on its one \<open>Allowance\<close>. A caller finishes only a lease that
  \<open>begin\<close> gave out, so a lease number beyond the given ones is not a call.
\<close>

datatype allowance_op =
    Begin Authorization rat rat
  | Finish "nat option" int bool rat rat
  | Expire rat

fun allowance_step :: "Allowance \<Rightarrow> allowance_op \<Rightarrow> Allowance \<times> (occupancy + nat option)" where
  "allowance_step s (Begin a now mnow) = begin_lease s a now mnow"
| "allowance_step s (Finish l units worked now mnow) =
     (if (case l of None \<Rightarrow> True | Some i \<Rightarrow> i < length (a_leases s))
      then finish_lease s l units worked now mnow else s, Inr None)"
| "allowance_step s (Expire now) = (expire_locked now s, Inr None)"

section \<open>Specification without objects\<close>

text \<open>
  What the allowance promises: per key a daily total and the time of the last completion, both
  cleared for everyone when the day changes, and the leases given out. The occupancy of a key is
  not stored but counted: it is the number of its unfinished leases.
\<close>

record Ledger =
  d_day :: int
  d_key :: bytes
  d_used :: "bytes \<Rightarrow> int"
  d_done :: "bytes \<Rightarrow> rat option"
  d_leases :: "(bytes \<times> rat \<times> Policy \<times> bool) list"

definition live :: "bytes \<Rightarrow> (bytes \<times> rat \<times> Policy \<times> bool) list \<Rightarrow> nat" where
  "live key ls = length (filter (\<lambda>(k, _, _, finished). k = key \<and> \<not> finished) ls)"

definition new_ledger :: "rat \<Rightarrow> bytes \<Rightarrow> Ledger" where
  "new_ledger now key = \<lparr>d_day = day_of now, d_key = key, d_used = \<lambda>_. 0, d_done = \<lambda>_. None, d_leases = []\<rparr>"

definition spec_expire :: "rat \<Rightarrow> Ledger \<Rightarrow> Ledger" where
  "spec_expire now d =
     (if day_of now \<le> d_day d then d
      else d\<lparr>d_day := day_of now, d_used := \<lambda>_. 0, d_done := \<lambda>_. None\<rparr>)"

definition spec_begin :: "Ledger \<Rightarrow> bytes \<Rightarrow> Policy \<Rightarrow> rat \<Rightarrow> Ledger \<times> (occupancy + nat option)" where
  "spec_begin d key p mnow =
     (let slower = (d_used d key \<ge> daily p)
      in if int (live key (d_leases d)) \<ge> (if slower then 1 else max_inflight p) then (d, Inl OccupancyExceeded)
         else (d\<lparr>d_leases := d_leases d @ [(key, begin_delay p slower (d_done d key) mnow, p, False)]\<rparr>,
               Inr (Some (length (d_leases d)))))"

definition spec_finish :: "Ledger \<Rightarrow> nat \<Rightarrow> int \<Rightarrow> bool \<Rightarrow> rat \<Rightarrow> Ledger" where
  "spec_finish d i units worked mnow =
     (let (key, delay, p, _) = d_leases d ! i;
          d1 = d\<lparr>d_leases := (d_leases d)[i := (key, delay, p, True)]\<rparr>
      in if worked
         then d1\<lparr>d_used := (d_used d)(key := min (10 ^ 15) (d_used d key + max 0 units)),
                 d_done := (d_done d)(key := Some mnow)\<rparr>
         else d1)"

fun spec_step :: "Ledger \<Rightarrow> allowance_op \<Rightarrow> Ledger \<times> (occupancy + nat option)" where
  "spec_step d (Begin a now mnow) =
     (case policy a of
        None \<Rightarrow> (d, Inr None)
      | Some p \<Rightarrow> spec_begin (spec_expire now d) (hmac_sha256 (d_key d) (journal a)) p mnow)"
| "spec_step d (Finish l units worked now mnow) =
     ((case l of
         None \<Rightarrow> d
       | Some i \<Rightarrow>
           if i < length (d_leases d) \<and> \<not> snd (snd (snd (d_leases d ! i)))
           then spec_finish (spec_expire now d) i units worked mnow else d), Inr None)"
| "spec_step d (Expire now) = (spec_expire now d, Inr None)"

section \<open>Invariant and abstraction\<close>

definition live_leases :: "bytes \<Rightarrow> Lease list \<Rightarrow> nat" where
  "live_leases key ls = length (filter (\<lambda>l. l_key l = key \<and> \<not> l_finished l) ls)"

text \<open>
  The table has one object per key and no two keys share one; an unfinished lease refers to the
  object that the table has for its key (it was not dropped at midnight), and that object's
  \<open>active\<close> counts exactly the unfinished leases of the key.
\<close>

definition entry_ok :: "Allowance \<Rightarrow> bytes \<Rightarrow> nat \<Rightarrow> bool" where
  "entry_ok s k r \<longleftrightarrow> r < length (a_heap s) \<and> st_day (a_heap s ! r) = a_day s \<and>
     0 \<le> st_used (a_heap s ! r) \<and> st_used (a_heap s ! r) \<le> 10 ^ 15 \<and>
     st_active (a_heap s ! r) = int (live_leases k (a_leases s))"

definition allowance_inv :: "Allowance \<Rightarrow> bool" where
  "allowance_inv s \<longleftrightarrow> distinct (map fst (a_states s)) \<and> distinct (map snd (a_states s)) \<and>
     (\<forall>(k, r) \<in> set (a_states s). entry_ok s k r) \<and>
     (\<forall>l \<in> set (a_leases s). \<not> l_finished l \<longrightarrow> (l_key l, l_state l) \<in> set (a_states s))"

definition object :: "Allowance \<Rightarrow> bytes \<Rightarrow> State option" where
  "object s k = map_option (\<lambda>r. a_heap s ! r) (map_of (a_states s) k)"

definition ledger_of :: "Allowance \<Rightarrow> Ledger" where
  "ledger_of s = \<lparr>d_day = a_day s, d_key = a_key s,
     d_used = \<lambda>k. case object s k of None \<Rightarrow> 0 | Some st \<Rightarrow> st_used st,
     d_done = \<lambda>k. case object s k of None \<Rightarrow> None | Some st \<Rightarrow> st_completed_at st,
     d_leases = map (\<lambda>l. (l_key l, l_delay l, l_policy l, l_finished l)) (a_leases s)\<rparr>"

lemma live_ledger [simp]: "live k (d_leases (ledger_of s)) = live_leases k (a_leases s)"
  by (simp add: ledger_of_def live_def live_leases_def filter_map o_def)

lemma ledger_leases [simp]: "length (d_leases (ledger_of s)) = length (a_leases s)"
    "i < length (a_leases s) \<Longrightarrow> snd (snd (snd (d_leases (ledger_of s) ! i))) = l_finished (a_leases s ! i)"
    "d_key (ledger_of s) = a_key s" "d_day (ledger_of s) = a_day s"
  by (simp_all add: ledger_of_def)

lemma live_leases_zero: "live_leases k ls = 0 \<longleftrightarrow> (\<forall>l \<in> set ls. l_key l = k \<longrightarrow> l_finished l)"
  by (auto simp: live_leases_def filter_empty_conv)

lemma live_leases_snoc: "live_leases k (ls @ [l]) = live_leases k ls + (if l_key l = k \<and> \<not> l_finished l then 1 else 0)"
  by (simp add: live_leases_def)

lemma live_leases_finish:
  assumes "i < length ls" and "\<not> l_finished (ls ! i)"
  shows "int (live_leases k (ls[i := (ls ! i)\<lparr>l_finished := True\<rparr>])) =
    int (live_leases k ls) - (if l_key (ls ! i) = k then 1 else 0)"
proof -
  have ls: "ls = take i ls @ ls ! i # drop (Suc i) ls" using assms(1) by (rule id_take_nth_drop)
  show ?thesis
    by (subst (2) ls, subst upd_conv_take_nth_drop [OF assms(1)]) (simp add: live_leases_def assms(2))
qed

section \<open>The day change\<close>

definition reset :: "int \<Rightarrow> State \<Rightarrow> State" where
  "reset day st = st\<lparr>st_day := day, st_used := 0, st_completed_at := None\<rparr>"

lemma reset_simps [simp]: "st_active (reset d st) = st_active st" "st_used (reset d st) = 0"
    "st_completed_at (reset d st) = None" "st_day (reset d st) = d" "reset d (reset d' st) = reset d st"
  by (simp_all add: reset_def)

lemma expire_items:
  "foldl (expire_item day) (h, d) is = (h', d') \<Longrightarrow>
     length h' = length h \<and>
     (\<forall>r < length h. h' ! r = (if r \<in> snd ` set is \<and> st_active (h ! r) \<noteq> 0 then reset day (h ! r) else h ! r)) \<and>
     ((\<forall>(k, r) \<in> set is. r < length h) \<longrightarrow>
       d' = filter (\<lambda>e. \<forall>r. (fst e, r) \<in> set is \<longrightarrow> st_active (h ! r) \<noteq> 0) d)"
proof (induction "is" arbitrary: h d)
  case (Cons e "is")
  obtain k r where e: "e = (k, r)" by fastforce
  define h1 where "h1 = fst (expire_item day (h, d) (k, r))"
  define d1 where "d1 = snd (expire_item day (h, d) (k, r))"
  have "foldl (expire_item day) (h1, d1) is = (h', d')" using Cons.prems by (simp add: h1_def d1_def e)
  note IH = Cons.IH [OF this]
  have len: "length h1 = length h" by (simp add: h1_def)
  have nth: "h1 ! j = (if j = r \<and> st_active (h ! r) \<noteq> 0 then reset day (h ! j) else h ! j)" if "j < length h" for j
    using that by (auto simp: h1_def reset_def nth_list_update)
  have act: "st_active (h1 ! j) = st_active (h ! j)" if "j < length h" for j using nth [OF that] by simp
  have d1: "d1 = filter (\<lambda>e. fst e = k \<longrightarrow> st_active (h ! r) \<noteq> 0) d"
    by (auto simp: d1_def intro!: filter_cong)
  show ?case
  proof (intro conjI impI allI)
    show "length h' = length h" using IH len by simp
    show "h' ! j = (if j \<in> snd ` set (e # is) \<and> st_active (h ! j) \<noteq> 0 then reset day (h ! j) else h ! j)"
      if "j < length h" for j using IH len nth [OF that] that by (auto simp: e)
    assume all: "\<forall>(k, r)\<in>set (e # is). r < length h"
    then have "\<forall>(k, r) \<in> set is. r < length h1" using len by simp
    with IH have "d' = filter (\<lambda>e. \<forall>r. (fst e, r) \<in> set is \<longrightarrow> st_active (h1 ! r) \<noteq> 0) d1" by blast
    also have "\<dots> = filter (\<lambda>e. \<forall>r. (fst e, r) \<in> set is \<longrightarrow> st_active (h ! r) \<noteq> 0) d1"
      using all by (intro filter_cong refl) (force simp: act)
    finally show "d' = filter (\<lambda>x. \<forall>r. (fst x, r) \<in> set (e # is) \<longrightarrow> st_active (h ! r) \<noteq> 0) d"
      by (auto simp: d1 e intro!: filter_cong)
  qed
qed simp

text \<open>
  The day change on a state that satisfies the invariant: exactly the entries with an unfinished
  lease stay, and each of them is reset.
\<close>

lemma expire_locked_new_day:
  assumes inv: "allowance_inv s" and new: "a_day s < day_of now"
  obtains h where "expire_locked now s = s\<lparr>a_day := day_of now, a_heap := h,
      a_states := filter (\<lambda>(k, r). st_active (a_heap s ! r) \<noteq> 0) (a_states s)\<rparr>"
    and "length h = length (a_heap s)"
    and "\<And>k r. (k, r) \<in> set (a_states s) \<Longrightarrow> st_active (a_heap s ! r) \<noteq> 0 \<Longrightarrow> h ! r = reset (day_of now) (a_heap s ! r)"
proof -
  obtain h d where f: "foldl (expire_item (day_of now)) (a_heap s, a_states s) (a_states s) = (h, d)" by fastforce
  have rng: "\<forall>(k, r) \<in> set (a_states s). r < length (a_heap s)" and dist: "distinct (map fst (a_states s))"
    using inv by (auto simp: allowance_inv_def entry_ok_def)
  note E = expire_items [OF f]
  have "d = filter (\<lambda>(k, r). st_active (a_heap s ! r) \<noteq> 0) (a_states s)"
    using E rng by (auto intro!: filter_cong dest: eq_key_imp_eq_value [OF dist])
  with new f have "expire_locked now s = s\<lparr>a_day := day_of now, a_heap := h,
      a_states := filter (\<lambda>(k, r). st_active (a_heap s ! r) \<noteq> 0) (a_states s)\<rparr>"
    by (simp add: expire_locked_def)
  moreover have "h ! r = reset (day_of now) (a_heap s ! r)"
    if "(k, r) \<in> set (a_states s)" "st_active (a_heap s ! r) \<noteq> 0" for k r
    using E rng that by force
  ultimately show ?thesis using E that by blast
qed

lemma distinct_map_filterI: "distinct (map f xs) \<Longrightarrow> distinct (map f (filter P xs))"
  by (simp add: distinct_map inj_on_def)

lemma allowance_inv_expire:
  assumes inv: "allowance_inv s"
  shows "allowance_inv (expire_locked now s)"
proof (cases "day_of now \<le> a_day s")
  case True
  then show ?thesis using inv by (simp add: expire_locked_def)
next
  case False
  then have "a_day s < day_of now" by simp
  then obtain h where
    s': "expire_locked now s = s\<lparr>a_day := day_of now, a_heap := h,
      a_states := filter (\<lambda>(k, r). st_active (a_heap s ! r) \<noteq> 0) (a_states s)\<rparr>"
    and len: "length h = length (a_heap s)"
    and h: "\<And>k r. (k, r) \<in> set (a_states s) \<Longrightarrow> st_active (a_heap s ! r) \<noteq> 0 \<Longrightarrow> h ! r = reset (day_of now) (a_heap s ! r)"
    by (rule expire_locked_new_day [OF inv]) blast
  have "st_active (a_heap s ! l_state l) \<noteq> 0" if "l \<in> set (a_leases s)" "\<not> l_finished l" for l
  proof -
    have "entry_ok s (l_key l) (l_state l)" using inv that by (auto simp: allowance_inv_def)
    moreover have "live_leases (l_key l) (a_leases s) \<noteq> 0" using that by (auto simp: live_leases_zero)
    ultimately show ?thesis by (simp add: entry_ok_def)
  qed
  then show ?thesis using inv len h
    by (auto simp: s' allowance_inv_def entry_ok_def distinct_map_filterI)
qed

lemma object_expire:
  assumes inv: "allowance_inv s" and new: "a_day s < day_of now"
  shows "object (expire_locked now s) k =
    (case object s k of None \<Rightarrow> None | Some st \<Rightarrow> if st_active st = 0 then None else Some (reset (day_of now) st))"
proof -
  obtain h where
    s': "expire_locked now s = s\<lparr>a_day := day_of now, a_heap := h,
      a_states := filter (\<lambda>(k, r). st_active (a_heap s ! r) \<noteq> 0) (a_states s)\<rparr>"
    and h: "\<And>k r. (k, r) \<in> set (a_states s) \<Longrightarrow> st_active (a_heap s ! r) \<noteq> 0 \<Longrightarrow> h ! r = reset (day_of now) (a_heap s ! r)"
    by (rule expire_locked_new_day [OF inv new]) blast
  have dist: "distinct (map fst (a_states s))" using inv by (simp add: allowance_inv_def)
  show ?thesis
  proof (cases "map_of (a_states s) k")
    case None
    then have "map_of (filter (\<lambda>(k, r). st_active (a_heap s ! r) \<noteq> 0) (a_states s)) k = None"
      by (auto simp: map_of_eq_None_iff)
    then show ?thesis using None by (simp add: object_def s')
  next
    case (Some r)
    then have mem: "(k, r) \<in> set (a_states s)" by (rule map_of_SomeD)
    show ?thesis
    proof (cases "st_active (a_heap s ! r) = 0")
      case True
      then have "map_of (filter (\<lambda>(k, r). st_active (a_heap s ! r) \<noteq> 0) (a_states s)) k = None"
        by (auto simp: map_of_eq_None_iff dest: eq_key_imp_eq_value [OF dist mem])
      then show ?thesis using Some True by (simp add: object_def s')
    next
      case False
      then have "map_of (filter (\<lambda>(k, r). st_active (a_heap s ! r) \<noteq> 0) (a_states s)) k = Some r"
        using mem dist by (intro map_of_is_SomeI) (auto intro: distinct_map_filterI)
      then show ?thesis using Some False h [OF mem] by (simp add: object_def s')
    qed
  qed
qed

lemma expire_locked_leases [simp]: "a_leases (expire_locked now s) = a_leases s" "a_key (expire_locked now s) = a_key s"
  by (simp_all add: expire_locked_def Let_def split: prod.splits)

lemma ledger_expire:
  assumes "allowance_inv s"
  shows "ledger_of (expire_locked now s) = spec_expire now (ledger_of s)"
proof (cases "day_of now \<le> a_day s")
  case True
  then show ?thesis by (simp add: expire_locked_def spec_expire_def ledger_of_def)
next
  case False
  then have "a_day s < day_of now" by simp
  note obj = object_expire [OF assms this]
  have "a_day (expire_locked now s) = day_of now" using False by (simp add: expire_locked_def Let_def split: prod.splits)
  then show ?thesis using False
    by (intro Ledger.equality) (simp_all add: ledger_of_def spec_expire_def obj fun_eq_iff split: option.split)
qed

section \<open>Every operation keeps the invariant and implements its specification\<close>

lemma setdefault_correct:
  assumes inv: "allowance_inv s" and sd: "setdefault k s = (s1, r)"
  shows "allowance_inv s1" "(k, r) \<in> set (a_states s1)" "ledger_of s1 = ledger_of s"
    "a_leases s1 = a_leases s"
proof -
  show leases: "a_leases s1 = a_leases s" using sd by (auto simp: setdefault_def split: option.splits)
  have "allowance_inv s1 \<and> (k, r) \<in> set (a_states s1) \<and> ledger_of s1 = ledger_of s"
  proof (cases "map_of (a_states s) k")
    case None
    define new where "new = \<lparr>st_day = a_day s, st_used = 0, st_active = 0, st_completed_at = None\<rparr>"
    have s1: "s1 = s\<lparr>a_states := a_states s @ [(k, length (a_heap s))], a_heap := a_heap s @ [new]\<rparr>"
      and r: "r = length (a_heap s)" using None sd by (auto simp: setdefault_def new_def)
    have fresh: "k \<notin> fst ` set (a_states s)" using None by (simp add: map_of_eq_None_iff)
    have rng: "r' < length (a_heap s)" if "(k', r') \<in> set (a_states s)" for k' r'
      using inv that by (auto simp: allowance_inv_def entry_ok_def)
    have "live_leases k (a_leases s) = 0"
      using inv fresh by (force simp: live_leases_zero allowance_inv_def)
    then have e: "entry_ok s1 k' r'" if "(k', r') \<in> set (a_states s1)" for k' r'
      using that inv rng by (auto simp: s1 r entry_ok_def allowance_inv_def new_def nth_append)
    have "length (a_heap s) \<notin> snd ` set (a_states s)" using rng by force
    then have i: "allowance_inv s1" using inv fresh e by (auto simp: allowance_inv_def s1)
    have "object s1 k' = (if k' = k then Some new else object s k')" for k'
      using None rng by (auto simp: object_def s1 r map_add_def nth_append dest!: map_of_SomeD split: option.splits)
    moreover have "object s k = None" using None by (simp add: object_def)
    ultimately have "ledger_of s1 = ledger_of s" using leases
      by (auto simp: ledger_of_def fun_eq_iff new_def) (auto simp: s1)
    then show ?thesis using i by (simp add: s1 r)
  next
    case (Some r')
    then show ?thesis using inv sd by (auto simp: setdefault_def dest: map_of_SomeD)
  qed
  then show "allowance_inv s1" "(k, r) \<in> set (a_states s1)" "ledger_of s1 = ledger_of s" by simp_all
qed

text \<open>Reading and writing one object of the table.\<close>

lemma object_member: "allowance_inv s \<Longrightarrow> (k, r) \<in> set (a_states s) \<Longrightarrow> object s k = Some (a_heap s ! r)"
  by (simp add: allowance_inv_def object_def)

lemma ledger_member:
  assumes "allowance_inv s" and "(k, r) \<in> set (a_states s)"
  shows "d_used (ledger_of s) k = st_used (a_heap s ! r)" "d_done (ledger_of s) k = st_completed_at (a_heap s ! r)"
    "st_active (a_heap s ! r) = int (live_leases k (a_leases s))" "r < length (a_heap s)"
  using assms object_member [OF assms] by (auto simp: ledger_of_def allowance_inv_def entry_ok_def)

lemma object_update:
  assumes inv: "allowance_inv s" and mem: "(k, r) \<in> set (a_states s)"
  shows "object (s\<lparr>a_heap := (a_heap s)[r := st], a_leases := ls\<rparr>) k' = (if k' = k then Some st else object s k')"
proof -
  have r: "map_of (a_states s) k = Some r" using inv mem by (simp add: allowance_inv_def)
  have "r' \<noteq> r" if "map_of (a_states s) k' = Some r'" "k' \<noteq> k" for r'
  proof
    assume "r' = r"
    moreover have "inj_on snd (set (a_states s))" using inv by (simp add: allowance_inv_def distinct_map)
    ultimately have "(k', r) = (k, r)" using map_of_SomeD [OF that(1)] mem by (metis inj_onD snd_conv)
    with that show False by simp
  qed
  then show ?thesis using r ledger_member(4) [OF inv mem] by (cases "map_of (a_states s) k'") (auto simp: object_def)
qed

lemma allowance_inv_update:
  assumes inv: "allowance_inv s" and mem: "(k, r) \<in> set (a_states s)"
    and st: "st_day st = a_day s" "0 \<le> st_used st" "st_used st \<le> 10 ^ 15" "st_active st = int (live_leases k ls)"
    and other: "\<And>k'. k' \<noteq> k \<Longrightarrow> live_leases k' ls = live_leases k' (a_leases s)"
    and ls: "\<And>l. l \<in> set ls \<Longrightarrow> \<not> l_finished l \<Longrightarrow> (l_key l, l_state l) \<in> set (a_states s)"
  shows "allowance_inv (s\<lparr>a_heap := (a_heap s)[r := st], a_leases := ls\<rparr>)"
proof -
  let ?s = "s\<lparr>a_heap := (a_heap s)[r := st], a_leases := ls\<rparr>"
  have inj: "inj_on snd (set (a_states s))" "inj_on fst (set (a_states s))"
    using inv by (simp_all add: allowance_inv_def distinct_map)
  have "entry_ok ?s k' r'" if m: "(k', r') \<in> set (a_states s)" for k' r'
  proof (cases "r' = r")
    case True
    with inj(1) m mem have "k' = k" by (metis inj_onD snd_conv prod.inject)
    then show ?thesis using True st ledger_member(4) [OF inv mem] by (simp add: entry_ok_def)
  next
    case False
    with inj(2) m mem have "k' \<noteq> k" by (metis inj_onD fst_conv prod.inject)
    moreover have "entry_ok s k' r'" using inv m by (auto simp: allowance_inv_def)
    ultimately show ?thesis using False other by (simp add: entry_ok_def)
  qed
  then show ?thesis using inv ls by (auto simp: allowance_inv_def)
qed

text \<open>The two updates of \<open>begin\<close> and \<open>finish\<close>, on the object and on the lease list.\<close>

lemma grant_lease:
  assumes inv: "allowance_inv s" and mem: "(k, r) \<in> set (a_states s)"
    and l: "l_key l = k" "l_state l = r" "\<not> l_finished l"
    and s': "s' = s\<lparr>a_heap := (a_heap s)[r := (a_heap s ! r)\<lparr>st_active := st_active (a_heap s ! r) + 1\<rparr>],
      a_leases := a_leases s @ [l]\<rparr>"
  shows "allowance_inv s'"
    and "ledger_of s' = (ledger_of s)\<lparr>d_leases := d_leases (ledger_of s) @ [(k, l_delay l, l_policy l, False)]\<rparr>"
proof -
  have e: "entry_ok s k r" using inv mem by (auto simp: allowance_inv_def)
  show "allowance_inv s'" unfolding s'
    using e inv mem l by (intro allowance_inv_update [OF inv mem])
      (auto simp: live_leases_snoc entry_ok_def allowance_inv_def)
  have "object s' k' = (if k' = k then Some ((a_heap s ! r)\<lparr>st_active := st_active (a_heap s ! r) + 1\<rparr>)
      else object s k')" for k'
    unfolding s' by (rule object_update [OF inv mem])
  then show "ledger_of s' = (ledger_of s)\<lparr>d_leases := d_leases (ledger_of s) @ [(k, l_delay l, l_policy l, False)]\<rparr>"
    using l by (auto simp: ledger_of_def fun_eq_iff object_member [OF inv mem]) (simp_all add: s')
qed

lemma begin_correct:
  assumes inv: "allowance_inv s" and b: "begin_lease s a now mnow = (s', out)"
  shows "allowance_inv s' \<and> spec_step (ledger_of s) (Begin a now mnow) = (ledger_of s', out)"
proof (cases "policy a")
  case None
  then show ?thesis using inv b by (simp add: begin_lease_def)
next
  case (Some p)
  define k where "k = hmac_sha256 (a_key s) (journal a)"
  obtain s1 r where sd: "setdefault k (expire_locked now s) = (s1, r)" by fastforce
  note S = setdefault_correct [OF allowance_inv_expire [OF inv] sd]
  have led: "ledger_of s1 = spec_expire now (ledger_of s)" using S(3) ledger_expire [OF inv] by simp
  define st where "st = a_heap s1 ! r"
  define slower where "slower = (st_used st \<ge> daily p)"
  note M = ledger_member [OF S(1,2)]
  have spec: "spec_step (ledger_of s) (Begin a now mnow) = spec_begin (ledger_of s1) k p mnow"
    using Some by (simp add: led k_def)
  show ?thesis
  proof (cases "st_active st \<ge> (if slower then 1 else max_inflight p)")
    case True
    then have "s' = s1" "out = Inl OccupancyExceeded"
      using Some sd b by (simp_all add: begin_lease_def k_def [symmetric] st_def slower_def)
    then show ?thesis using S(1) spec True M by (simp add: spec_begin_def st_def slower_def)
  next
    case False
    define l where "l = \<lparr>l_key = k, l_state = r, l_delay = begin_delay p slower (st_completed_at st) mnow,
      l_policy = p, l_finished = False\<rparr>"
    have s': "s' = s1\<lparr>a_heap := (a_heap s1)[r := (a_heap s1 ! r)\<lparr>st_active := st_active (a_heap s1 ! r) + 1\<rparr>],
        a_leases := a_leases s1 @ [l]\<rparr>" and out: "out = Inr (Some (length (a_leases s1)))"
      using Some sd False b by (simp_all add: begin_lease_def Let_def k_def [symmetric] l_def st_def slower_def)
    show ?thesis using grant_lease [OF S(1,2) _ _ _ s'] spec False M
      by (simp add: spec_begin_def st_def slower_def out l_def)
  qed
qed

lemma finish_correct:
  assumes inv: "allowance_inv s" and i: "i < length (a_leases s)" "\<not> l_finished (a_leases s ! i)"
    and s': "s' = finish_lease s (Some i) units worked now mnow"
  shows "allowance_inv s' \<and> ledger_of s' = spec_finish (spec_expire now (ledger_of s)) i units worked mnow"
proof -
  define s1 where "s1 = expire_locked now s"
  define l where "l = a_leases s ! i"
  define k where "k = l_key l"
  define r where "r = l_state l"
  define st where "st = a_heap s1 ! r"
  define st2 where "st2 = (if worked
    then st\<lparr>st_active := st_active st - 1, st_used := min (10 ^ 15) (st_used st + max 0 units), st_completed_at := Some mnow\<rparr>
    else st\<lparr>st_active := st_active st - 1\<rparr>)"
  define ls where "ls = (a_leases s)[i := l\<lparr>l_finished := True\<rparr>]"
  have inv1: "allowance_inv s1" unfolding s1_def by (rule allowance_inv_expire [OF inv])
  have leases [simp]: "a_leases s1 = a_leases s" by (simp add: s1_def)
  have mem: "(k, r) \<in> set (a_states s1)"
    using inv1 i nth_mem [OF i(1)] by (simp add: allowance_inv_def k_def r_def l_def)
  have "finish_lease s (Some i) units worked now mnow = s1\<lparr>a_heap := (a_heap s1)[r := st2], a_leases := ls\<rparr>"
    using i by (simp add: finish_lease_def Let_def s1_def [symmetric] ls_def st2_def st_def r_def l_def)
  then have s': "s' = s1\<lparr>a_heap := (a_heap s1)[r := st2], a_leases := ls\<rparr>" using s' by simp
  have e: "entry_ok s1 k r" using inv1 mem by (auto simp: allowance_inv_def)
  have live: "int (live_leases k' ls) = int (live_leases k' (a_leases s)) - (if k' = k then 1 else 0)" for k'
    unfolding ls_def l_def k_def using live_leases_finish [OF i] by auto
  have set_ls: "l' \<in> set ls \<Longrightarrow> \<not> l_finished l' \<Longrightarrow> l' \<in> set (a_leases s)" for l'
    by (auto simp: ls_def dest!: set_update_subset_insert [THEN subsetD])
  have other: "k' \<noteq> k \<Longrightarrow> live_leases k' ls = live_leases k' (a_leases s)" for k'
    using live [of k'] by simp
  have "allowance_inv s'" unfolding s'
    using e live [of k] other inv1 set_ls by (intro allowance_inv_update [OF inv1 mem])
      (auto simp: st2_def st_def entry_ok_def allowance_inv_def)
  moreover have obj: "object s' k' = (if k' = k then Some st2 else object s1 k')" for k'
    unfolding s' by (rule object_update [OF inv1 mem])
  have nth: "map (\<lambda>l. (l_key l, l_delay l, l_policy l, l_finished l)) (a_leases s) ! i =
      (k, l_delay l, l_policy l, l_finished l)" using i by (simp add: k_def l_def)
  have rest: "a_leases s' = ls" "a_day s' = a_day s1" "a_key s' = a_key s1" by (simp_all add: s')
  have "ledger_of s' = spec_finish (ledger_of s1) i units worked mnow"
    by (rule Ledger.equality)
      (auto simp: spec_finish_def Let_def ledger_of_def rest nth obj object_member [OF inv1 mem, unfolded k_def] st2_def st_def
        ls_def map_update k_def fun_eq_iff)
  moreover have "ledger_of s1 = spec_expire now (ledger_of s)" unfolding s1_def by (rule ledger_expire [OF inv])
  ultimately show ?thesis by simp
qed

interpretation allowance: implements allowance_step allowance_inv ledger_of spec_step
proof
  fix s op
  assume inv: "allowance_inv s"
  have fin: "spec_step (ledger_of s) (Finish l units worked now mnow) =
      (ledger_of (fst (allowance_step s (Finish l units worked now mnow))), Inr None) \<and>
    allowance_inv (fst (allowance_step s (Finish l units worked now mnow)))" for l units worked now mnow
  proof (cases "\<exists>i. l = Some i \<and> i < length (a_leases s) \<and> \<not> l_finished (a_leases s ! i)")
    case True
    then obtain i where i: "l = Some i" "i < length (a_leases s)" "\<not> l_finished (a_leases s ! i)" by blast
    then show ?thesis using finish_correct [OF inv i(2,3) refl, of units worked now mnow] by simp
  next
    case False
    then show ?thesis using inv by (auto simp: finish_lease_def split: option.splits)
  qed
  show "allowance_inv (fst (allowance_step s op))"
  proof (cases op)
    case (Begin a now mnow)
    then show ?thesis using begin_correct [OF inv, of a now mnow] by (cases "begin_lease s a now mnow") simp
  qed (use fin allowance_inv_expire [OF inv] in auto)
  show "spec_step (ledger_of s) op = (ledger_of (fst (allowance_step s op)), snd (allowance_step s op))"
  proof (cases op)
    case (Begin a now mnow)
    then show ?thesis using begin_correct [OF inv, of a now mnow] by (cases "begin_lease s a now mnow") simp
  qed (use fin ledger_expire [OF inv] in auto)
qed

lemma allowance_inv_new: "allowance_inv (new_allowance now key)"
  by (simp add: allowance_inv_def new_allowance_def)

lemma ledger_new: "ledger_of (new_allowance now key) = new_ledger now key"
  by (simp add: ledger_of_def new_allowance_def new_ledger_def object_def)

text \<open>
  C22. The allowance implements its object-free specification: for every sequence of calls of
  \<open>begin\<close>, \<open>finish\<close> and \<open>expire\<close>, each call answers as the specification does (no
  lease, lease number, or \<open>OccupancyExceeded\<close>) and the table reads as the specification's
  ledger: usage per journal cleared at the day change, occupancy equal to the unfinished leases.
\<close>

theorem allowance_implements_ledger:
  "run spec_step (new_ledger now key) ops =
     (ledger_of (fst (run allowance_step (new_allowance now key) ops)),
      snd (run allowance_step (new_allowance now key) ops))"
  using allowance.run_commutes [OF allowance_inv_new, of now key ops] by (simp add: ledger_new)

section \<open>Occupancy and cooldown\<close>

text \<open>
  The policies that calls present, and the monotonic readings they take, in order.
\<close>

fun op_policies :: "allowance_op \<Rightarrow> Policy list" where
  "op_policies (Begin a _ _) = (case policy a of None \<Rightarrow> [] | Some p \<Rightarrow> [p])"
| "op_policies _ = []"

fun op_reads :: "allowance_op \<Rightarrow> rat list" where
  "op_reads (Begin _ _ mnow) = [mnow]"
| "op_reads (Finish _ _ _ _ mnow) = [mnow]"
| "op_reads (Expire _) = []"

lemma spec_expire_leases [simp]: "d_leases (spec_expire now d) = d_leases d" "d_key (spec_expire now d) = d_key d"
  by (simp_all add: spec_expire_def)

lemma live_finish_le: "live k (ls[i := (k', x, y, True)]) \<le> live k ls"
proof (cases "i < length ls")
  case True
  then have ls: "ls = take i ls @ ls ! i # drop (Suc i) ls" by (rule id_take_nth_drop)
  show ?thesis
    by (subst (2) ls, subst upd_conv_take_nth_drop [OF True]) (simp add: live_def)
qed (simp add: list_update_beyond)

lemma spec_begin_live:
  assumes "spec_begin d k p mnow = (d', out)" and "live k' (d_leases d) \<le> m" and "max_inflight p \<le> int m" and "0 < m"
  shows "live k' (d_leases d') \<le> m"
  using assms by (cases "k' = k") (auto simp: spec_begin_def Let_def live_def split: if_splits)

lemma spec_live_step:
  assumes "\<forall>p \<in> set (op_policies op). max_inflight p \<le> int m" and "0 < m" and "live k (d_leases d) \<le> m"
  shows "live k (d_leases (fst (spec_step d op))) \<le> m"
proof (cases op)
  case (Begin a now mnow)
  then show ?thesis using assms spec_begin_live [of "spec_expire now d", OF surjective_pairing]
    by (auto split: option.splits)
next
  case (Finish l units worked now mnow)
  have "live k (d_leases (spec_finish d' i units worked mnow)) \<le> live k (d_leases d')" for d' i
    by (auto simp: spec_finish_def Let_def live_finish_le split: prod.splits)
  from order_trans [OF this, of _ m] assms(3) Finish show ?thesis by (auto split: option.splits)
qed (use assms in simp)

lemma spec_live_run:
  assumes "\<forall>op \<in> set ops. \<forall>p \<in> set (op_policies op). max_inflight p \<le> int m" and "0 < m" and "live k (d_leases d) \<le> m"
  shows "live k (d_leases (fst (run spec_step d ops))) \<le> m"
  using assms
proof (induction ops arbitrary: d)
  case (Cons op ops)
  then have "live k (d_leases (fst (spec_step d op))) \<le> m" by (intro spec_live_step) simp_all
  with Cons show ?case by (simp del: run.simps(2))
qed simp

text \<open>
  C35. Bounded occupancy: if no presented policy allows more than \<open>m\<close> simultaneous requests,
  then after any sequence of calls every journal key has at most \<open>m\<close> unfinished leases, and
  the \<open>active\<close> counter of its object says exactly how many.
\<close>

theorem occupancy_bounded:
  assumes "\<forall>op \<in> set ops. \<forall>p \<in> set (op_policies op). max_inflight p \<le> int m" and "0 < m"
    and "s = fst (run allowance_step (new_allowance now key) ops)"
  shows "live_leases k (a_leases s) \<le> m \<and>
    (\<forall>st. object s k = Some st \<longrightarrow> st_active st = int (live_leases k (a_leases s)))"
proof -
  have inv: "allowance_inv s" unfolding assms(3) by (rule allowance.inv_run [OF allowance_inv_new])
  have "ledger_of s = fst (run spec_step (new_ledger now key) ops)"
    using allowance.run_commutes [OF allowance_inv_new, of now key ops] by (simp add: assms(3) ledger_new)
  then have "live k (d_leases (ledger_of s)) \<le> m"
    using spec_live_run [OF assms(1,2), of k "new_ledger now key"] by (simp add: new_ledger_def live_def)
  moreover have "st_active st = int (live_leases k (a_leases s))" if "object s k = Some st" for st
    using that ledger_member(3) [OF inv] by (auto simp: object_def dest: map_of_SomeD)
  ultimately show ?thesis by simp
qed

lemma begin_delay_bounds:
  assumes "0 \<le> cooldown_ms p" and "\<And>t. c = Some t \<Longrightarrow> t \<le> mnow"
  shows "0 \<le> begin_delay p slower c mnow \<and> begin_delay p slower c mnow \<le> of_int (cooldown_ms p) / 1000"
  using assms by (cases c) (auto simp: begin_delay_def max_def field_simps)

definition delays_ok :: "Ledger \<Rightarrow> bool" where
  "delays_ok d \<longleftrightarrow> (\<forall>(k, delay, p, fin) \<in> set (d_leases d). 0 \<le> delay \<and> delay \<le> of_int (cooldown_ms p) / 1000)"

definition done_by :: "rat \<Rightarrow> Ledger \<Rightarrow> bool" where
  "done_by t d \<longleftrightarrow> (\<forall>k c. d_done d k = Some c \<longrightarrow> c \<le> t)"

lemma spec_expire_done [simp]: "done_by t d \<Longrightarrow> done_by t (spec_expire now d)"
  by (auto simp: done_by_def spec_expire_def)

lemma spec_expire_delays [simp]: "delays_ok (spec_expire now d) = delays_ok d"
  by (simp add: delays_ok_def)

lemma spec_begin_delays:
  assumes "delays_ok d" and "done_by mnow d" and "0 \<le> cooldown_ms p"
  shows "delays_ok (fst (spec_begin d k p mnow)) \<and> done_by mnow (fst (spec_begin d k p mnow))"
  using assms begin_delay_bounds [of p "d_done d k" mnow]
  by (auto simp: spec_begin_def Let_def delays_ok_def done_by_def)

lemma spec_finish_delays:
  assumes "delays_ok d" and "done_by mnow d" and "i < length (d_leases d)"
  shows "delays_ok (spec_finish d i units worked mnow) \<and> done_by mnow (spec_finish d i units worked mnow)"
proof -
  obtain k delay p f where l: "d_leases d ! i = (k, delay, p, f)" by (metis prod_cases4)
  with assms(3) have "(k, delay, p, f) \<in> set (d_leases d)" by (metis nth_mem)
  with assms l show ?thesis
    by (auto simp: spec_finish_def Let_def delays_ok_def done_by_def dest!: set_update_subset_insert [THEN subsetD])
qed

lemma done_by_mono: "done_by t d \<Longrightarrow> t \<le> t' \<Longrightarrow> done_by t' d"
  unfolding done_by_def by force

lemma spec_delays_run:
  assumes "sorted (t # concat (map op_reads ops))" and "done_by t d" and "delays_ok d"
    and "\<forall>op \<in> set ops. \<forall>p \<in> set (op_policies op). 0 \<le> cooldown_ms p"
  shows "delays_ok (fst (run spec_step d ops))"
  using assms
proof (induction ops arbitrary: d t)
  case (Cons op ops)
  obtain t' where t': "sorted (t' # concat (map op_reads ops))" "t \<le> t'" "op_reads op = [] \<and> t' = t \<or> op_reads op = [t']"
    using Cons.prems(1) by (cases op) auto
  then have "done_by t' d" using done_by_mono [OF Cons.prems(2)] by blast
  then have "delays_ok (fst (spec_step d op)) \<and> done_by t' (fst (spec_step d op))"
    using t'(3) Cons.prems spec_begin_delays [of "spec_expire _ d" t'] spec_finish_delays [of "spec_expire _ d" t']
    by (cases op) (auto split: option.splits)
  with Cons.IH [OF t'(1)] Cons.prems(4) show ?case by (simp del: run.simps(2))
qed simp

theorem occupancy_bounded_witness:
  "live_leases (hmac_sha256 ''k'' ''j'') (a_leases (fst (run allowance_step (new_allowance 5 ''k'')
     [Begin \<lparr>journal = ''j'', policy = Some \<lparr>daily = 10, cooldown_ms = 5, audio_per_second = 1, max_inflight = 2\<rparr>\<rparr> 6 7,
      Expire 9]))) \<le> 2"
  using occupancy_bounded [of "[Begin \<lparr>journal = ''j'', policy = Some \<lparr>daily = 10, cooldown_ms = 5,
      audio_per_second = 1, max_inflight = 2\<rparr>\<rparr> 6 7, Expire 9]" 2 _ 5 "''k''" "hmac_sha256 ''k'' ''j''", OF _ _ refl]
  by simp

text \<open>
  Bounded cooldown: with a monotonic clock and policies of non-negative cooldown, the delay of
  every lease ever given out is at least zero and at most the cooldown of its policy.
\<close>

theorem cooldown_bounded:
  assumes "sorted (concat (map op_reads ops))"
    and "\<forall>op \<in> set ops. \<forall>p \<in> set (op_policies op). 0 \<le> cooldown_ms p"
  shows "\<forall>l \<in> set (a_leases (fst (run allowance_step (new_allowance now key) ops))).
    0 \<le> l_delay l \<and> l_delay l \<le> of_int (cooldown_ms (l_policy l)) / 1000"
proof -
  let ?s = "fst (run allowance_step (new_allowance now key) ops)"
  obtain t where "sorted (t # concat (map op_reads ops))"
    using assms(1) by (cases "concat (map op_reads ops)") auto
  then have "delays_ok (fst (run spec_step (new_ledger now key) ops))"
    by (rule spec_delays_run) (use assms(2) in \<open>simp_all add: done_by_def delays_ok_def new_ledger_def\<close>)
  then have "delays_ok (ledger_of ?s)"
    using allowance.run_commutes [OF allowance_inv_new, of now key ops] by (simp add: ledger_new)
  then show ?thesis by (auto simp: delays_ok_def ledger_of_def)
qed

theorem cooldown_bounded_witness:
  "list_all (\<lambda>l. 0 \<le> l_delay l \<and> l_delay l \<le> of_int (cooldown_ms (l_policy l)) / 1000)
     (a_leases (fst (run allowance_step (new_allowance 5 ''k'')
       [Begin \<lparr>journal = ''j'', policy = Some \<lparr>daily = 10, cooldown_ms = 5, audio_per_second = 1, max_inflight = 2\<rparr>\<rparr> 6 7,
        Finish (Some 0) 20 True 8 9])))"
  unfolding list_all_iff by (rule cooldown_bounded) simp_all

text \<open>
  A lease is finished once: after \<open>finish\<close>, any further \<open>finish\<close> of the same lease
  leaves the whole allowance unchanged, whatever it reports and whenever it comes; so a request
  is charged at most once and frees its slot at most once.
\<close>

theorem finish_once:
  assumes "i < length (a_leases s)"
  shows "finish_lease (finish_lease s (Some i) units worked now mnow) (Some i) units' worked' now' mnow' =
    finish_lease s (Some i) units worked now mnow"
  using assms by (auto simp: finish_lease_def Let_def)

definition one_lease :: Allowance where
  "one_lease = \<lparr>a_day = 0, a_key = ''k'', a_states = [(''a'', 0)],
      a_heap = [\<lparr>st_day = 0, st_used = 0, st_active = 1, st_completed_at = None\<rparr>],
      a_leases = [\<lparr>l_key = ''a'', l_state = 0, l_delay = 0,
        l_policy = \<lparr>daily = 10, cooldown_ms = 5, audio_per_second = 1, max_inflight = 2\<rparr>, l_finished = False\<rparr>]\<rparr>"

theorem finish_once_witness:
  "finish_lease (finish_lease one_lease (Some 0) 3 True 8 9) (Some 0) 4 False 10 11 =
   finish_lease one_lease (Some 0) 3 True 8 9"
  by (rule finish_once) (simp add: one_lease_def)

end
