(* ===== verification/Gateway_Http.thy ===== *)
theory Gateway_Http
  imports Relay_Reader Allowance Json
begin

text \<open>
  The pure parts of \<open>ratls_gateway.py\<close> and the portal header parser of \<open>allowance.py\<close>:
  binding values, the exporter-proof request, header parsing and body framing, the canonical
  request head, the responses the relay itself sends, and the classification of the portal's answer.
\<close>

section \<open>Binding values\<close>

definition CERTIFICATE_BINDING_DOMAIN :: bytes where
  "CERTIFICATE_BINDING_DOMAIN = ''sol-spp-ratls-certificate-bind-v1''"
definition EXPORTER_BINDING_DOMAIN :: bytes where
  "EXPORTER_BINDING_DOMAIN = ''sol-spp-ratls-exporter-bind-v1''"
definition EXPORTER_CONTEXT_DOMAIN :: bytes where
  "EXPORTER_CONTEXT_DOMAIN = ''sol-spp-ratls-exporter-context-v1''"

definition certificate_binding :: "bytes \<Rightarrow> bytes \<Rightarrow> bytes \<Rightarrow> bytes" where
  "certificate_binding owner_nonce spki_der gpu_envelope =
     sha256 (CERTIFICATE_BINDING_DOMAIN @ owner_nonce @ sha256 spki_der @ sha256 gpu_envelope)"

definition exporter_context :: "bytes \<Rightarrow> bytes \<Rightarrow> bytes" where
  "exporter_context owner_nonce spki_der = sha256 (EXPORTER_CONTEXT_DOMAIN @ owner_nonce @ sha256 spki_der)"

definition exporter_binding :: "bytes \<Rightarrow> bytes \<Rightarrow> bytes \<Rightarrow> bytes \<Rightarrow> bytes" where
  "exporter_binding owner_nonce spki_der tls_exporter gpu_envelope =
     sha256 (EXPORTER_BINDING_DOMAIN @ owner_nonce @ sha256 spki_der @ tls_exporter @ sha256 gpu_envelope)"

section \<open>Headers\<close>

text \<open>A header name: one or more token characters.\<close>

definition header_name_char :: "char \<Rightarrow> bool" where
  "header_name_char c \<longleftrightarrow> c \<in> set ''!#$%&'' \<or> byte_val c = 39 \<or> c \<in> set ''*+.^_`|~-'' \<or>
     digit_char c \<or> 65 \<le> byte_val c \<and> byte_val c \<le> 90 \<or> 97 \<le> byte_val c \<and> byte_val c \<le> 122"

definition header_name :: "bytes \<Rightarrow> bool" where
  "header_name n \<longleftrightarrow> n \<noteq> [] \<and> list_all header_name_char n"

text \<open>The dict from lower-case names to the values of the header, in order of first appearance.\<close>

type_synonym headers = "(bytes \<times> bytes list) list"

fun add_header :: "bytes \<Rightarrow> bytes \<Rightarrow> headers \<Rightarrow> headers" where
  "add_header n v [] = [(n, [v])]"
| "add_header n v ((n', vs) # hs) = (if n = n' then (n', vs @ [v]) # hs else (n', vs) # add_header n v hs)"

fun parse_relay_headers :: "bytes list \<Rightarrow> headers \<Rightarrow> relay_exn + headers" where
  "parse_relay_headers [] hs = Inr hs"
| "parse_relay_headers (line # lines) hs =
     (if line = [] then parse_relay_headers lines hs
      else let (name, separator, value) = partition_at (CHR '':'') line
           in if \<not> separator \<or> \<not> header_name name then Inl RelayProtocolError
              else parse_relay_headers lines (add_header (lower name) (strip value) hs))"

definition header_values :: "bytes \<Rightarrow> headers \<Rightarrow> bytes list" where
  "header_values n hs = (case map_of hs n of None \<Rightarrow> [] | Some vs \<Rightarrow> vs)"

definition has_header :: "bytes \<Rightarrow> headers \<Rightarrow> bool" where
  "has_header n hs \<longleftrightarrow> map_of hs n \<noteq> None"

text \<open>\<open>int()\<close> on more than 4300 digits raises \<open>ValueError\<close>.\<close>

definition single_content_length :: "headers \<Rightarrow> relay_exn + nat option" where
  "single_content_length hs =
     (case header_values ''content-length'' hs of
        [] \<Rightarrow> Inr None
      | v # vs \<Rightarrow>
          if vs \<noteq> [] \<or> \<not> isdigit v then Inl RelayProtocolError
          else if length v > INT_MAX_STR_DIGITS then Inl ValueError
          else Inr (Some (dec_val v)))"

definition request_body_length :: "headers \<Rightarrow> relay_exn + nat" where
  "request_body_length hs =
     (if has_header ''expect'' hs \<or> has_header ''upgrade'' hs then Inl RelayProtocolError
      else if has_header ''transfer-encoding'' hs then Inl RelayProtocolError
      else bindE (single_content_length hs) (\<lambda>n. Inr (case n of None \<Rightarrow> 0 | Some k \<Rightarrow> k)))"

text \<open>\<open>None\<close> stands for \<open>EntitlementRejectedError\<close>.\<close>

definition visible :: "char \<Rightarrow> bool" where
  "visible c \<longleftrightarrow> 0x21 \<le> byte_val c \<and> byte_val c \<le> 0x7e"

definition bearer_credential :: "headers \<Rightarrow> string option" where
  "bearer_credential hs =
     (case header_values ''authorization'' hs of
        [v] \<Rightarrow>
          let (scheme, separator, credential) = partition_at (CHR '' '') v
          in if \<not> separator \<or> lower scheme \<noteq> ''bearer'' \<or> credential = [] \<or> \<not> list_all visible credential then None
             else if length credential > 4096 then None
             else Some credential
      | _ \<Rightarrow> None)"

text \<open>The name of a raw header line as the forwarding filter reads it.\<close>

definition line_name :: "bytes \<Rightarrow> bytes" where
  "line_name line = lower (strip (takeWhile (\<lambda>c. c \<noteq> CHR '':'') line))"

definition stripped_names :: "bytes list" where
  "stripped_names = [''authorization'', ''x-sol-device'', ''x-sol-spp-journal'', ''x-sol-spp-allowance'']"

fun join_lines :: "bytes list \<Rightarrow> bytes" where
  "join_lines [] = []"
| "join_lines [l] = l"
| "join_lines (l # l' # ls) = l @ CRLF @ join_lines (l' # ls)"

definition head_lines :: "bytes list \<Rightarrow> string \<Rightarrow> bytes list" where
  "head_lines lines device_id =
     hd lines # filter (\<lambda>l. line_name l \<notin> set stripped_names) (tl lines) @ [''x-sol-device: '' @ device_id, [], []]"

definition canonical_request_head :: "bytes list \<Rightarrow> string \<Rightarrow> bytes" where
  "canonical_request_head lines device_id = join_lines (head_lines lines device_id)"

datatype body_mode = No_body | Chunked | Length nat | Until_close

fun join_commas :: "bytes list \<Rightarrow> bytes" where
  "join_commas [] = []"
| "join_commas [v] = v"
| "join_commas (v # w # vs) = v @ '','' @ join_commas (w # vs)"

definition response_body_mode :: "nat \<Rightarrow> bytes \<Rightarrow> headers \<Rightarrow> relay_exn + body_mode" where
  "response_body_mode status method hs =
     (if method = ''HEAD'' \<or> status = 204 \<or> status = 304 then Inr No_body
      else case header_values ''transfer-encoding'' hs of
          e # es \<Rightarrow>
            if filter (\<lambda>c. c \<noteq> CHR '' '') (lower (join_commas (e # es))) \<noteq> ''chunked'' then Inl RelayProtocolError
            else Inr Chunked
        | [] \<Rightarrow> bindE (single_content_length hs) (\<lambda>n. Inr (case n of Some k \<Rightarrow> Length k | None \<Rightarrow> Until_close)))"

definition audio_duration :: "headers \<Rightarrow> int" where
  "audio_duration hs =
     (case header_values ''x-sol-audio-milliseconds'' hs of
        [v] \<Rightarrow> if isdigit v \<and> length v \<le> 6 \<and> dec_val v \<le> 330000 then int (dec_val v) else 330000
      | _ \<Rightarrow> 330000)"

section \<open>Responses of the relay itself\<close>

definition crlf_line :: "string \<Rightarrow> bytes" where
  "crlf_line s = s @ CRLF"

definition content_length_line :: "bytes \<Rightarrow> bytes" where
  "content_length_line body = crlf_line (''Content-Length: '' @ dec_str (length body))"

definition relay_413 :: "bool \<Rightarrow> bytes" where
  "relay_413 close = (let body = ''{\"error\":\"request exceeds maximum size\"}'' in
     crlf_line ''HTTP/1.1 413 Request Entity Too Large'' @ crlf_line ''Content-Type: application/json''
     @ content_length_line body @ (if close then crlf_line ''Connection: close'' else []) @ CRLF @ body)"

definition relay_404 :: "bool \<Rightarrow> bytes" where
  "relay_404 close = (let body = ''{\"error\":\"not found\"}'' in
     crlf_line ''HTTP/1.1 404 Not Found'' @ crlf_line ''Content-Type: application/json''
     @ content_length_line body @ (if close then crlf_line ''Connection: close'' else []) @ CRLF @ body)"

definition entitlement_error :: "nat \<Rightarrow> bytes" where
  "entitlement_error status =
     (let reason = (if status = 401 then ''Unauthorized'' else ''Service Unavailable'');
          body = (if status = 401 then ''{\"error\":\"invalid entitlement credential\"}''
                  else ''{\"error\":\"entitlement service unavailable\"}'');
          authenticate = (if status = 401 then crlf_line ''WWW-Authenticate: Bearer realm=\"spp\"'' else [])
      in crlf_line (''HTTP/1.1 '' @ dec_str status @ '' '' @ reason) @ crlf_line ''Content-Type: application/json''
         @ content_length_line body @ authenticate @ crlf_line ''Cache-Control: no-store'' @ crlf_line ''Connection: close''
         @ CRLF @ body)"

definition occupancy_error :: bytes where
  "occupancy_error = (let body = ''{\"error\":\"simultaneous processing limit\"}'' in
     crlf_line ''HTTP/1.1 429 Too Many Requests'' @ crlf_line ''Content-Type: application/json''
     @ crlf_line ''Retry-After: 1'' @ crlf_line ''Connection: close'' @ content_length_line body @ CRLF @ body)"

section \<open>The exporter-proof request\<close>

datatype proof_error = Proof_ValueError | Proof_ConnectionError | Proof_recv relay_exn

definition MAX_PROOF_REQUEST_BYTES :: nat where "MAX_PROOF_REQUEST_BYTES = 16 * 1024"

definition proof_request_line :: bytes where
  "proof_request_line = ''GET /._sol/spp/exporter-proof HTTP/1.1''"

text \<open>The receive loop; each \<open>recv\<close> is bounded by the room left, so a longer chunk is cut.\<close>

function recv_proof_head :: "bytes \<Rightarrow> reader \<Rightarrow> proof_error + bytes" where
  "recv_proof_head data r =
     (if find_sub CRLF2 data \<noteq> None then Inr data
      else if length data \<ge> MAX_PROOF_REQUEST_BYTES then Inl Proof_ValueError
      else case read_available (int (min 4096 (MAX_PROOF_REQUEST_BYTES - length data))) r of
          Inl e \<Rightarrow> Inl (Proof_recv e)
        | Inr (chunk, r') \<Rightarrow> if chunk = [] then Inl Proof_ConnectionError else recv_proof_head (data @ chunk) r')"
  by pat_completeness auto
termination
  by (relation "measure (\<lambda>(_, r). bytes_left r)") (auto simp: bytes_left_def dest: read_available_stream(1))

declare recv_proof_head.simps [simp del]

definition proof_header_ok :: "bytes \<Rightarrow> bool" where
  "proof_header_ok line =
     (let (name, separator, value) = partition_at (CHR '':'') line
      in separator \<and> \<not> (lower (strip name) = ''content-length'' \<and> strip value \<noteq> ''0''))"

definition check_proof_request :: "bytes \<Rightarrow> bool" where
  "check_proof_request data =
     (case find_sub CRLF2 data of
        None \<Rightarrow> False
      | Some i \<Rightarrow>
          let lines = split_on CRLF (take i data)
          in drop (i + 4) data = [] \<and> hd lines = proof_request_line \<and> list_all proof_header_ok (tl lines))"

definition recv_proof_request :: "reader \<Rightarrow> proof_error + unit" where
  "recv_proof_request r =
     bindE (recv_proof_head [] r) (\<lambda>data. if check_proof_request data then Inr () else Inl Proof_ValueError)"

section \<open>The portal's answer\<close>

definition policy_limits :: "(string \<times> int \<times> int) list" where
  "policy_limits = [(''v'', 1, 1), (''daily'', 1, 10 ^ 12), (''cooldown_ms'', 1, 30000),
     (''audio_per_second'', 1, 10 ^ 6), (''max_inflight'', 1, 32)]"

definition journal_char :: "char \<Rightarrow> bool" where
  "journal_char c \<longleftrightarrow> digit_char c \<or> 65 \<le> byte_val c \<and> byte_val c \<le> 90 \<or> 97 \<le> byte_val c \<and> byte_val c \<le> 122 \<or>
     c = CHR ''_'' \<or> c = CHR ''-''"

definition journal_ok :: "string \<Rightarrow> bool" where
  "journal_ok j \<longleftrightarrow> length j = 43 \<and> list_all journal_char j"

text \<open>\<open>headers.get_all(name, [])\<close>, case-insensitive.\<close>

definition get_all :: "string \<Rightarrow> (string \<times> string) list \<Rightarrow> string list" where
  "get_all n hs = map snd (filter (\<lambda>(k, _). lower k = lower n) hs)"

definition unique_hooks :: "unit hooks" where
  "unique_hooks = (default_hooks ())\<lparr>on_pairs :=
     (\<lambda>ps. if distinct (map fst ps) then Inr (JObj ps) else Inl ())\<rparr>"

definition limit_ok :: "(ustr \<times> json) list \<Rightarrow> string \<times> int \<times> int \<Rightarrow> bool" where
  "limit_ok d l = (case l of (k, low, high) \<Rightarrow>
     (case map_of d (ascii k) of Some (JInt i) \<Rightarrow> low \<le> i \<and> i \<le> high | _ \<Rightarrow> False))"

definition policy_int :: "(ustr \<times> json) list \<Rightarrow> string \<Rightarrow> int" where
  "policy_int d k = (case map_of d (ascii k) of Some (JInt i) \<Rightarrow> i | _ \<Rightarrow> 0)"

text \<open>\<open>parse_authorization\<close>; \<open>None\<close> is \<open>ValueError\<close> (also from \<open>json.loads\<close>).\<close>

definition parse_policy :: "string \<Rightarrow> Policy option" where
  "parse_policy text =
     (case json_loads unique_hooks (ascii text) of
        Inr (JObj d) \<Rightarrow>
          if set (map fst d) = set (map (\<lambda>(k, _). ascii k) policy_limits) \<and> list_all (limit_ok d) policy_limits
          then Some \<lparr>daily = policy_int d ''daily'', cooldown_ms = policy_int d ''cooldown_ms'',
                audio_per_second = policy_int d ''audio_per_second'', max_inflight = policy_int d ''max_inflight''\<rparr>
          else None
      | _ \<Rightarrow> None)"

definition parse_authorization :: "(string \<times> string) list \<Rightarrow> Authorization option" where
  "parse_authorization hs =
     (case get_all ''X-Sol-SPP-Journal'' hs of
        [j] \<Rightarrow>
          if \<not> journal_ok j then None
          else (case get_all ''X-Sol-SPP-Allowance'' hs of
              [] \<Rightarrow> Some \<lparr>journal = j, policy = None\<rparr>
            | [p] \<Rightarrow>
                if length p > 512 then None
                else map_option (\<lambda>pol. \<lparr>journal = j, policy = Some pol\<rparr>) (parse_policy p)
            | _ \<Rightarrow> None)
      | _ \<Rightarrow> None)"

datatype network_error = Net_timeout | Net_dns | Net_tls | Net_other

datatype portal_answer =
    Portal_response nat "(string \<times> string) list"
  | Portal_http_error nat
  | Portal_network_error network_error

datatype authorize_result = Authorized Authorization | Rejected | Unavailable string

definition classify_portal_network_error :: "network_error \<Rightarrow> string" where
  "classify_portal_network_error e = (case e of
     Net_timeout \<Rightarrow> ''timeout'' | Net_dns \<Rightarrow> ''dns'' | Net_tls \<Rightarrow> ''tls'' | Net_other \<Rightarrow> ''connect'')"

definition authorize :: "portal_answer \<Rightarrow> authorize_result" where
  "authorize a = (case a of
     Portal_response status hs \<Rightarrow>
       if status \<noteq> 204 then Unavailable ''status''
       else (case parse_authorization hs of None \<Rightarrow> Unavailable ''status'' | Some auth \<Rightarrow> Authorized auth)
   | Portal_http_error code \<Rightarrow> if code = 401 \<or> code = 403 then Rejected else Unavailable ''status''
   | Portal_network_error e \<Rightarrow> Unavailable (classify_portal_network_error e))"

section \<open>The forwarded head\<close>

lemma find_sub_CRLF: "find_sub CRLF l = None \<Longrightarrow> find_sub CRLF (l @ CRLF @ r) = Some (length l)"
proof -
  assume none: "find_sub CRLF l = None"
  have "\<not> starts_with CRLF (drop j (l @ CRLF @ r))" if "j < length l" for j
  proof
    assume s: "starts_with CRLF (drop j (l @ CRLF @ r))"
    show False
    proof (cases "j + 2 \<le> length l")
      case True
      then have "starts_with CRLF (drop j l)" using starts_with_take [OF s] by (simp add: CRLF_def)
      then have "\<exists>i. find_sub CRLF l = Some i"
      proof -
        define i where "i = (LEAST i. starts_with CRLF (drop i l))"
        have "starts_with CRLF (drop i l)" "\<forall>k < i. \<not> starts_with CRLF (drop k l)" "i \<le> j"
          using \<open>starts_with CRLF (drop j l)\<close> unfolding i_def by (auto intro: LeastI Least_le dest: not_less_Least)
        then show ?thesis using that by (auto simp: find_sub_first)
      qed
      with none show False by simp
    next
      case False
      then have "drop j (l @ CRLF @ r) = [l ! j, CHR 0x0D, CHR 0x0A] @ r"
        using that by (simp add: CRLF_def Cons_nth_drop_Suc [symmetric])
      with s have "starts_with CRLF ([l ! j, CHR 0x0D, CHR 0x0A] @ r)" by (simp only:)
      then show False by (simp add: starts_with_def CRLF_def)
    qed
  qed
  then show ?thesis by (auto simp: find_sub_first starts_with_append)
qed

lemma find_sub_CRLF_Cons: "c \<noteq> CHR 0x0D \<Longrightarrow> find_sub CRLF (c # s) = map_option Suc (find_sub CRLF s)"
  by (subst find_sub.simps) (simp add: starts_with_def CRLF_def)

lemma split_join_lines:
  "ls \<noteq> [] \<Longrightarrow> \<forall>l \<in> set ls. find_sub CRLF l = None \<Longrightarrow> split_on CRLF (join_lines ls) = ls"
proof (induction ls rule: join_lines.induct)
  case (3 l l' ls)
  then have "split_on CRLF (join_lines (l' # ls)) = l' # ls" by simp
  moreover have "find_sub CRLF (l @ CRLF @ join_lines (l' # ls)) = Some (length l)"
    using "3.prems" by (intro find_sub_CRLF) simp
  ultimately show ?case by (subst split_on.simps) (simp add: CRLF_def)
qed (simp_all add: split_on.simps)

lemma split_on_free:
  "\<forall>l \<in> set (split_on CRLF s). find_sub CRLF l = None"
proof (induction CRLF s rule: split_on.induct)
  case (1 s)
  show ?case
  proof (cases "find_sub CRLF s")
    case None
    then show ?thesis by (simp add: split_on.simps [of CRLF s])
  next
    case (Some i)
    have "find_sub CRLF (take i s) = None"
    proof (rule ccontr)
      assume "find_sub CRLF (take i s) \<noteq> None"
      then obtain j where j: "find_sub CRLF (take i s) = Some j" by blast
      then have "find_sub CRLF s = Some j" using find_sub_prefix [OF j, of "drop i s"] by simp
      moreover have "j + length CRLF \<le> i" using find_sub_Some [OF j] by auto
      ultimately show False using Some by (simp add: CRLF_def)
    qed
    moreover have "CRLF \<noteq> []" by (simp add: CRLF_def)
    ultimately show ?thesis using 1(1) [OF Some] Some by (subst split_on.simps) simp
  qed
qed

lemma split_on_nonempty: "split_on m s \<noteq> []"
  by (subst split_on.simps) (simp split: option.splits)

text \<open>
  C38. What reaches the upstream: for any request head, splitting the forwarded head at CRLF gives
  the client's request line, its header lines without those named \<open>authorization\<close>,
  \<open>x-sol-device\<close>, \<open>x-sol-spp-journal\<close> or \<open>x-sol-spp-allowance\<close> (in any case and with
  any surrounding blanks), and one \<open>x-sol-device\<close> line with the gateway's label; so that no forwarded
  line has one of these names but the last, and the credential does not leave the gateway.
\<close>

theorem forwarded_head_lines:
  assumes "lines = split_on CRLF head" and "find_sub CRLF device_id = None"
    and "head_line = ''x-sol-device: '' @ device_id"
    and "private = {''authorization'', ''x-sol-device'', ''x-sol-spp-journal'', ''x-sol-spp-allowance''}"
  shows "split_on CRLF (canonical_request_head lines device_id) = hd lines # filter (\<lambda>l. line_name l \<notin> private) (tl lines) @ [head_line, [], []] \<and>
    filter (\<lambda>l. line_name l \<in> private) (tl (split_on CRLF (canonical_request_head lines device_id))) = [head_line]"
proof -
  have free: "\<forall>l \<in> set lines. find_sub CRLF l = None" using split_on_free by (simp add: assms(1))
  have ne: "lines \<noteq> []" using split_on_nonempty by (simp add: assms(1))
  have pr: "private = set stripped_names" by (simp add: assms(4) stripped_names_def)
  have "find_sub CRLF head_line = None"
    using assms(2) by (simp add: assms(3) find_sub_CRLF_Cons)
  moreover have "find_sub CRLF [] = None" by (simp add: find_sub.simps CRLF_def)
  ultimately have "\<forall>l \<in> set (head_lines lines device_id). find_sub CRLF l = None"
    using free ne by (auto simp: head_lines_def assms(3) dest: list.set_sel)
  then have s: "split_on CRLF (canonical_request_head lines device_id) = head_lines lines device_id"
    unfolding canonical_request_head_def by (intro split_join_lines) (simp_all add: head_lines_def)
  have "line_name head_line = ''x-sol-device''" "line_name [] = []"
    by (simp_all add: assms(3) line_name_def lower_def strip_def is_space_def lower_char_def)
  moreover have "''x-sol-device'' \<in> private" "[] \<notin> private" by (simp_all add: assms(4))
  moreover have "head_lines lines device_id = hd lines # filter (\<lambda>l. line_name l \<notin> private) (tl lines) @ [head_line, [], []]"
    by (simp only: head_lines_def assms(3) pr)
  ultimately show ?thesis unfolding s by (simp add: filter_empty_conv)
qed

theorem forwarded_head_lines_witness:
  "split_on CRLF (canonical_request_head (split_on CRLF (''P / HTTP/1.1'' @ CRLF @ ''Authorization: Bearer x'' @ CRLF @ ''a: b'')) ''d'') =
     [''P / HTTP/1.1'', ''a: b'', ''x-sol-device: d'', [], []]"
proof -
  have lines: "split_on CRLF (''P / HTTP/1.1'' @ CRLF @ ''Authorization: Bearer x'' @ CRLF @ ''a: b'') =
      [''P / HTTP/1.1'', ''Authorization: Bearer x'', ''a: b'']"
    by (simp add: split_on.simps find_sub.simps CRLF_def starts_with_def)
  have "find_sub CRLF ''d'' = None" by (simp add: find_sub.simps CRLF_def starts_with_def)
  from forwarded_head_lines [OF refl this refl refl, of "''P / HTTP/1.1'' @ CRLF @ ''Authorization: Bearer x'' @ CRLF @ ''a: b''"]
  show ?thesis unfolding lines
    by (simp add: line_name_def strip_def lower_def lower_char_def is_space_def char_of_def bit_0)
qed

lemma join_lines_append: "ls \<noteq> [] \<Longrightarrow> ms \<noteq> [] \<Longrightarrow> join_lines (ls @ ms) = join_lines ls @ CRLF @ join_lines ms"
proof (induction ls rule: join_lines.induct)
  case (2 l)
  then show ?case by (cases ms) simp_all
qed simp_all

lemma parse_headers_append: "parse_relay_headers (ls @ ms) hs = bindE (parse_relay_headers ls hs) (parse_relay_headers ms)"
  by (induction ls arbitrary: hs) (simp_all add: split_def Let_def)

lemma parse_headers_ok: "is_ok (parse_relay_headers ls hs) = is_ok (parse_relay_headers ls hs')"
  by (induction ls arbitrary: hs hs') (simp_all add: split_def Let_def)

lemma header_name_char_low: "header_name_char c \<Longrightarrow> 33 \<le> byte_val c" "\<not> header_name_char (CHR '':'')"
  by (auto simp: header_name_char_def digit_char_def)

lemma header_name_plain:
  assumes "header_name name"
  shows "CHR '':'' \<notin> set name" "strip name = name"
proof -
  have ok: "\<not> is_space c \<and> c \<noteq> CHR '':''" if "c \<in> set name" for c
  proof -
    have "header_name_char c" using assms that by (simp add: header_name_def list_all_iff)
    then show ?thesis using header_name_char_low(1) [of c] header_name_char_low(2) by (auto simp: is_space_def)
  qed
  then show "CHR '':'' \<notin> set name" by blast
  have none: "dropWhile is_space xs = xs" if "set xs = set name" for xs
    unfolding dropWhile_eq_self_iff using ok that hd_in_set [of xs] by blast
  have "dropWhile is_space name = name" "dropWhile is_space (rev name) = rev name" by (simp_all add: none)
  then show "strip name = name" by (simp add: strip_def)
qed

text \<open>
  C40. A header value may carry a line of its own: whatever other headers a request has, a line whose value has a bare line
  feed is accepted whenever the other lines are, and the text behind the line feed is forwarded as it stands, ended by CRLF and before
  the gateway's own label. An upstream that ends lines at a line feed reads it as a header, also when it is one of those
  that the gateway removes.
\<close>

theorem bare_line_feed_forwarded:
  assumes "header_name name" and "lower name \<notin> {''authorization'', ''x-sol-device'', ''x-sol-spp-journal'', ''x-sol-spp-allowance''}"
    and "line = name @ CHR '':'' # value @ [CHR 0x0A] @ injected"
  shows "is_ok (parse_relay_headers (before @ line # after) []) = is_ok (parse_relay_headers (before @ after) []) \<and>
    (\<exists>pre post. canonical_request_head (request # before @ line # after) device_id =
       pre @ [CHR 0x0A] @ injected @ CRLF @ post @ ''x-sol-device: '' @ device_id @ CRLF @ CRLF)"
proof -
  note plain = header_name_plain [OF assms(1)]
  have "takeWhile (\<lambda>c. c \<noteq> CHR '':'') line = name" "dropWhile (\<lambda>c. c \<noteq> CHR '':'') line = CHR '':'' # value @ [CHR 0x0A] @ injected"
    using plain(1) unfolding assms(3) by (subst takeWhile_append2 dropWhile_append2; auto)+
  then have part: "partition_at (CHR '':'') line = (name, True, value @ [CHR 0x0A] @ injected)" and ln: "line_name line = lower name"
    using plain(2) by (simp_all add: partition_at_def line_name_def) (simp add: assms(3))
  have "line \<noteq> []" by (simp add: assms(3))
  then have step: "parse_relay_headers (line # after) hs = parse_relay_headers after (add_header (lower name) (strip (value @ [CHR 0x0A] @ injected)) hs)" for hs
    using assms(1) by (simp add: part del: append_Cons append.simps)
  have "is_ok (parse_relay_headers (before @ line # after) []) = is_ok (parse_relay_headers (before @ after) [])"
    unfolding parse_headers_append by (cases "parse_relay_headers before []") (use parse_headers_ok [of after] in \<open>simp_all add: step del: parse_relay_headers.simps(2)\<close>)
  moreover have "\<exists>pre post. canonical_request_head (request # before @ line # after) device_id =
       pre @ [CHR 0x0A] @ injected @ CRLF @ post @ ''x-sol-device: '' @ device_id @ CRLF @ CRLF"
  proof -
    let ?f = "filter (\<lambda>l. line_name l \<notin> set stripped_names)" and ?lab = "''x-sol-device: '' @ device_id"
    have keep: "line_name line \<notin> set stripped_names" using assms(2) by (simp add: ln stripped_names_def)
    have j: "join_lines (xs @ [l] @ ys @ [[], []]) = join_lines xs @ CRLF @ l @ CRLF @ join_lines ys @ CRLF @ CRLF" if "xs \<noteq> []" "ys \<noteq> []" for xs ys l
      using that by (simp add: join_lines_append [of xs] join_lines_append [of "[l]", simplified] join_lines_append [of ys])
    have "head_lines (request # before @ line # after) device_id = (request # ?f before) @ [line] @ (?f after @ [?lab]) @ [[], []]"
      using keep by (simp add: head_lines_def)
    then have "canonical_request_head (request # before @ line # after) device_id =
        join_lines (request # ?f before) @ CRLF @ line @ CRLF @ join_lines (?f after @ [?lab]) @ CRLF @ CRLF"
      unfolding canonical_request_head_def by (simp only: j list.distinct append_is_Nil_conv simp_thms)
    moreover obtain post where "join_lines (?f after @ [?lab]) = post @ ?lab"
      by (cases "?f after = []") (auto simp: join_lines_append)
    ultimately have "canonical_request_head (request # before @ line # after) device_id =
        (join_lines (request # ?f before) @ CRLF @ name @ CHR '':'' # value) @ [CHR 0x0A] @ injected @ CRLF @ post @ ''x-sol-device: '' @ device_id @ CRLF @ CRLF"
      by (simp only: assms(3) append_assoc append_Cons append_Nil)
    then show ?thesis by blast
  qed
  ultimately show ?thesis by blast
qed

theorem bare_line_feed_forwarded_witness:
  "is_ok (parse_relay_headers [''h: x'', ''a: b'' @ [CHR 0x0A] @ ''x-sol-device: mallory''] []) \<and>
    (\<exists>pre post. canonical_request_head [''POST / HTTP/1.1'', ''h: x'', ''a: b'' @ [CHR 0x0A] @ ''x-sol-device: mallory''] ''label'' =
       pre @ [CHR 0x0A] @ ''x-sol-device: mallory'' @ CRLF @ post @ ''x-sol-device: '' @ ''label'' @ CRLF @ CRLF)"
proof -
  have n: "header_name ''a''" "lower ''a'' \<notin> {''authorization'', ''x-sol-device'', ''x-sol-spp-journal'', ''x-sol-spp-allowance''}"
    by (simp_all add: header_name_def header_name_char_def lower_def lower_char_def)
  have l: "''a: b'' @ [CHR 0x0A] @ ''x-sol-device: mallory'' = ''a'' @ CHR '':'' # '' b'' @ [CHR 0x0A] @ ''x-sol-device: mallory''" by simp
  have "is_ok (parse_relay_headers ([''h: x''] @ []) [])"
    by (simp add: partition_at_def header_name_def header_name_char_def)
  with bare_line_feed_forwarded [OF n l, of "[''h: x'']" "[]" "''POST / HTTP/1.1''" "''label''"] show ?thesis by simp
qed

section \<open>Authorization\<close>

lemma parse_policy_limits:
  assumes "parse_policy text = Some p"
  shows "1 \<le> daily p \<and> daily p \<le> 10 ^ 12 \<and> 1 \<le> cooldown_ms p \<and> cooldown_ms p \<le> 30000 \<and>
    1 \<le> audio_per_second p \<and> audio_per_second p \<le> 10 ^ 6 \<and> 1 \<le> max_inflight p \<and> max_inflight p \<le> 32"
proof -
  from assms obtain d where ok: "list_all (limit_ok d) policy_limits"
    and p: "p = \<lparr>daily = policy_int d ''daily'', cooldown_ms = policy_int d ''cooldown_ms'',
        audio_per_second = policy_int d ''audio_per_second'', max_inflight = policy_int d ''max_inflight''\<rparr>"
    by (auto simp: parse_policy_def split: sum.splits json.splits if_splits)
  have "low \<le> policy_int d k \<and> policy_int d k \<le> high" if "(k, low, high) \<in> set policy_limits" for k low high
    using ok that by (fastforce simp: list_all_iff limit_ok_def policy_int_def split: option.splits json.splits)
  then show ?thesis by (simp add: p policy_limits_def)
qed

text \<open>
  C10. Only an authoritative yes authorizes: the result is \<open>Authorized\<close> only for a 204 answer
  whose headers name exactly one journal of 43 URL-safe characters and at most one policy, and
  every limit of that policy lies in its declared range.
\<close>

theorem authorize_sound:
  assumes "authorize answer = Authorized auth"
  shows "\<exists>hs. answer = Portal_response 204 hs \<and> get_all ''X-Sol-SPP-Journal'' hs = [journal auth] \<and>
    journal_ok (journal auth) \<and> length (get_all ''X-Sol-SPP-Allowance'' hs) \<le> 1 \<and>
    (policy auth = None \<longleftrightarrow> get_all ''X-Sol-SPP-Allowance'' hs = []) \<and>
    (\<forall>p. policy auth = Some p \<longrightarrow> 1 \<le> daily p \<and> daily p \<le> 10 ^ 12 \<and> 1 \<le> cooldown_ms p \<and> cooldown_ms p \<le> 30000 \<and>
      1 \<le> audio_per_second p \<and> audio_per_second p \<le> 10 ^ 6 \<and> 1 \<le> max_inflight p \<and> max_inflight p \<le> 32)"
proof -
  from assms obtain hs where a: "answer = Portal_response 204 hs" and p: "parse_authorization hs = Some auth"
    by (auto simp: authorize_def split: portal_answer.splits option.splits if_splits)
  show ?thesis
    using p parse_policy_limits
    by (auto simp: a parse_authorization_def split: list.splits if_splits option.splits)
qed

theorem authorize_sound_witness:
  "authorize (Portal_response 204 [(''x-sol-spp-journal'', replicate 43 (CHR ''a''))]) = Authorized \<lparr>journal = replicate 43 (CHR ''a''), policy = None\<rparr> \<and>
   get_all ''X-Sol-SPP-Journal'' [(''x-sol-spp-journal'', replicate 43 (CHR ''a''))] = [replicate 43 (CHR ''a'')] \<and> journal_ok (replicate 43 (CHR ''a''))"
proof -
  have "get_all ''X-Sol-SPP-Journal'' [(''x-sol-spp-journal'', replicate 43 (CHR ''a''))] = [replicate 43 (CHR ''a'')]"
    "get_all ''X-Sol-SPP-Allowance'' [(''x-sol-spp-journal'', replicate 43 (CHR ''a''))] = []"
    by (simp_all add: get_all_def lower_def lower_char_def char_of_def bit_0)
  moreover have "journal_ok (replicate 43 (CHR ''a''))" by (simp add: journal_ok_def journal_char_def list_all_iff)
  ultimately have a: "authorize (Portal_response 204 [(''x-sol-spp-journal'', replicate 43 (CHR ''a''))]) =
      Authorized \<lparr>journal = replicate 43 (CHR ''a''), policy = None\<rparr>"
    by (simp add: authorize_def parse_authorization_def)
  from authorize_sound [OF a] a show ?thesis by auto
qed

section \<open>Bindings\<close>

text \<open>
  What the gateway hashes for a channel: the binding of its certificate, the context of its TLS exporter, and the binding of the
  exporter, each over the nonce of the owner; and the value of the code for it.
\<close>

datatype bound = For_certificate (nonce_of: bytes) bytes bytes | For_context (nonce_of: bytes) bytes | For_exporter (nonce_of: bytes) bytes bytes bytes

fun bound_value :: "bound \<Rightarrow> bytes" where
  "bound_value (For_certificate n spki gpu) = certificate_binding n spki gpu"
| "bound_value (For_context n spki) = exporter_context n spki"
| "bound_value (For_exporter n spki tls gpu) = exporter_binding n spki tls gpu"

text \<open>The strings that SHA-256 is applied to.\<close>

fun preimage :: "bound \<Rightarrow> bytes" where
  "preimage (For_certificate n spki gpu) = ''sol-spp-ratls-certificate-bind-v1'' @ n @ sha256 spki @ sha256 gpu"
| "preimage (For_context n spki) = ''sol-spp-ratls-exporter-context-v1'' @ n @ sha256 spki"
| "preimage (For_exporter n spki tls gpu) = ''sol-spp-ratls-exporter-bind-v1'' @ n @ sha256 spki @ tls @ sha256 gpu"

fun components :: "bound \<Rightarrow> bytes set" where
  "components (For_certificate n spki gpu) = {spki, gpu}"
| "components (For_context n spki) = {spki}"
| "components (For_exporter n spki tls gpu) = {spki, gpu}"

definition collides :: "bytes \<Rightarrow> bytes \<Rightarrow> bool" where
  "collides x y \<longleftrightarrow> x \<noteq> y \<and> sha256 x = sha256 y"

lemma bound_value_preimage: "bound_value x = sha256 (preimage x)"
  by (cases x) (simp_all add: certificate_binding_def exporter_context_def exporter_binding_def
      CERTIFICATE_BINDING_DOMAIN_def EXPORTER_CONTEXT_DOMAIN_def EXPORTER_BINDING_DOMAIN_def)

lemma preimage_inj:
  assumes "preimage x = preimage y" "length (nonce_of x) = length (nonce_of y)" "x \<noteq> y"
  shows "\<exists>u \<in> components x. \<exists>v \<in> components y. collides u v"
  using assms by (cases x; cases y) (auto simp: collides_def)

text \<open>
  C11. The certificate binding, the exporter context and the exporter binding commit to what they are made of and are separated from each other: for two
  different inputs, of the same or of different kinds, whose nonces have the same length (the preface fixes it to 32 bytes), the values
  of the code differ, or two different strings that the code hashes for them have the same SHA-256 digest, and the theorem
  says which: the two concatenations, or a key or GPU envelope of each.
\<close>

theorem binding_commits:
  assumes "x \<noteq> y" and "length (nonce_of x) = length (nonce_of y)"
  shows "bound_value x \<noteq> bound_value y \<or> collides (preimage x) (preimage y) \<or> (\<exists>u \<in> components x. \<exists>v \<in> components y. collides u v)"
proof (cases "preimage x = preimage y")
  case True
  then show ?thesis using preimage_inj assms by blast
next
  case False
  then show ?thesis by (simp add: bound_value_preimage collides_def)
qed

theorem binding_commits_witness:
  "(bound_value (For_exporter ''n'' ''k'' ''t'' ''k'') = bound_value (For_exporter ''n'' ''k'' ''u'' ''k'')) =
   collides (preimage (For_exporter ''n'' ''k'' ''t'' ''k'')) (preimage (For_exporter ''n'' ''k'' ''u'' ''k''))"
proof -
  let ?x = "For_exporter ''n'' ''k'' ''t'' ''k''" and ?y = "For_exporter ''n'' ''k'' ''u'' ''k''"
  have "?x \<noteq> ?y" "length (nonce_of ?x) = length (nonce_of ?y)" by simp_all
  from binding_commits [OF this] have "bound_value ?x \<noteq> bound_value ?y \<or> collides (preimage ?x) (preimage ?y) \<or> collides ''k'' ''k''"
    by (simp only: components.simps) blast
  moreover have "bound_value ?x = bound_value ?y" if "collides (preimage ?x) (preimage ?y)"
    using that by (simp only: bound_value_preimage collides_def)
  ultimately show ?thesis by (simp only: collides_def) blast
qed

end
