(* ===== verification/Fleet_Usage.thy ===== *)
theory Fleet_Usage
  imports Complex_Main Sha256
begin

text \<open>
  The fleet counters and the suppressed monthly histogram of \<open>fleet_usage.py\<close>. Clock readings
  (seconds since the epoch, non-negative) and the bytes drawn from \<open>os.urandom\<close> are arguments;
  calendar dates are obtained by stepping the Gregorian calendar day by day from 1970-01-01.
\<close>

section \<open>Calendar\<close>

type_synonym date = "nat \<times> nat \<times> nat"

definition leap :: "nat \<Rightarrow> bool" where
  "leap y \<longleftrightarrow> y mod 4 = 0 \<and> (y mod 100 \<noteq> 0 \<or> y mod 400 = 0)"

definition month_days :: "nat \<Rightarrow> nat \<Rightarrow> nat" where
  "month_days y m =
     (if m = 2 then if leap y then 29 else 28
      else if m = 4 \<or> m = 6 \<or> m = 9 \<or> m = 11 then 30 else 31)"

fun next_date :: "date \<Rightarrow> date" where
  "next_date (y, m, d) =
     (if d < month_days y m then (y, m, d + 1)
      else if m < 12 then (y, m + 1, 1)
      else (y + 1, 1, 1))"

primrec date_of :: "nat \<Rightarrow> date" where
  "date_of 0 = (1970, 1, 1)"
| "date_of (Suc n) = next_date (date_of n)"

definition month_of :: "nat \<Rightarrow> nat" where
  "month_of day = (case date_of day of (y, m, d) \<Rightarrow> y * 100 + m)"

text \<open>The day before the first of the month: the month before it.\<close>

definition previous_month :: "nat \<Rightarrow> nat" where
  "previous_month day = (case date_of day of (y, m, d) \<Rightarrow>
     if m = 1 then (y - 1) * 100 + 12 else y * 100 + (m - 1))"

definition as_of :: "nat \<Rightarrow> nat" where
  "as_of day = (case date_of day of (y, m, d) \<Rightarrow> y * 10000 + m * 100 + d)"

section \<open>State\<close>

record Released =
  r_month :: nat
  r_released :: bool
  r_bands :: "int list"
  r_counted_days :: int

record Counters =
  prompt_tokens_total :: int
  prompt_tokens_cached :: int
  prompt_tokens_cache_measured :: int
  cache_unavailable_responses :: int
  as_of_day :: nat

record FleetUsage =
  f_day :: nat
  whole_day :: bool
  clock_invalid :: bool
  salt :: bytes
  daily_totals :: "(bytes \<times> int) list"
  bands :: "int list"
  counted_days :: int
  released :: Released
  f_prompt :: int
  f_cached :: int
  measured_prompt :: int
  unavailable :: int
  accounting_boot :: string
  frozen_counters :: Counters

definition BAND_EDGES :: "int list" where "BAND_EDGES = [2000000, 6000000]"

definition no_release :: Released where
  "no_release = \<lparr>r_month = 0, r_released = False, r_bands = [0, 0, 0], r_counted_days = 0\<rparr>"

definition fleet_day :: "rat \<Rightarrow> nat" where
  "fleet_day now = nat \<lfloor>now / 86400\<rfloor>"

definition new_fleet :: "rat \<Rightarrow> bytes \<Rightarrow> bytes \<Rightarrow> FleetUsage" where
  "new_fleet now random boot =
     \<lparr>f_day = fleet_day now, whole_day = False, clock_invalid = False, salt = random, daily_totals = [],
      bands = [0, 0, 0], counted_days = 0, released = no_release, f_prompt = 0, f_cached = 0,
      measured_prompt = 0, unavailable = 0, accounting_boot = to_hex boot,
      frozen_counters = \<lparr>prompt_tokens_total = 0, prompt_tokens_cached = 0,
        prompt_tokens_cache_measured = 0, cache_unavailable_responses = 0, as_of_day = 0\<rparr>\<rparr>"

section \<open>The day change\<close>

definition band_of :: "int \<Rightarrow> nat" where
  "band_of value = length (filter (\<lambda>edge. value \<ge> edge) BAND_EDGES)"

definition band_counts :: "(bytes \<times> int) list \<Rightarrow> int list" where
  "band_counts daily = foldl (\<lambda>c (_, v). c[band_of v := c ! band_of v + 1]) [0, 0, 0] daily"

definition add_bands :: "int list \<Rightarrow> int list \<Rightarrow> int list" where
  "add_bands bs counts = map2 (\<lambda>b c. if c \<ge> 5 then b + c else b) bs counts"

text \<open>The histogram part for an adjacent, fully observed day with at least ten journals.\<close>

definition count_day :: "FleetUsage \<Rightarrow> FleetUsage" where
  "count_day s = s\<lparr>bands := add_bands (bands s) (band_counts (daily_totals s)), counted_days := counted_days s + 1\<rparr>"

text \<open>The release of a closed month.\<close>

definition close_month :: "nat \<Rightarrow> FleetUsage \<Rightarrow> FleetUsage" where
  "close_month day s =
     (let previous = previous_month day;
          covered = (month_of (f_day s) = previous);
          counted = (if covered then counted_days s else 0)
      in s\<lparr>released := \<lparr>r_month = previous, r_released = counted > 0,
             r_bands = (if covered then bands s else [0, 0, 0]), r_counted_days = counted\<rparr>,
           bands := [0, 0, 0], counted_days := 0\<rparr>)"

definition roll :: "rat \<Rightarrow> bytes \<Rightarrow> FleetUsage \<Rightarrow> FleetUsage" where
  "roll now random s =
     (let day = fleet_day now
      in if clock_invalid s \<or> day = f_day s then s
         else if day < f_day s then
           s\<lparr>clock_invalid := True, daily_totals := [], salt := random, bands := [0, 0, 0], counted_days := 0,
             released := no_release\<rparr>
         else
           let s1 = s\<lparr>frozen_counters := \<lparr>prompt_tokens_total = f_prompt s, prompt_tokens_cached = f_cached s,
                       prompt_tokens_cache_measured = measured_prompt s,
                       cache_unavailable_responses = unavailable s, as_of_day = as_of day\<rparr>\<rparr>;
               adjacent = (day = f_day s + 1);
               s2 = (if adjacent \<and> whole_day s \<and> length (daily_totals s) \<ge> 10 then count_day s1 else s1);
               s3 = (if month_of day \<noteq> month_of (f_day s) then close_month day s2 else s2)
           in s3\<lparr>daily_totals := [], salt := random, whole_day := adjacent, f_day := day\<rparr>)"

section \<open>Operations\<close>

fun bump :: "bytes \<Rightarrow> int \<Rightarrow> (bytes \<times> int) list \<Rightarrow> (bytes \<times> int) list" where
  "bump k n [] = [(k, n)]"
| "bump k n ((k', m) # d) = (if k = k' then (k', m + n) # d else (k', m) # bump k n d)"

definition record_usage :: "rat \<Rightarrow> bytes \<Rightarrow> string \<Rightarrow> int \<Rightarrow> int \<Rightarrow> int option \<Rightarrow> FleetUsage \<Rightarrow> FleetUsage" where
  "record_usage now random label prompt completion cached s =
     (let s1 = roll now random s;
          s2 = s1\<lparr>f_prompt := f_prompt s1 + prompt\<rparr>;
          s3 = (case cached of
                  Some c \<Rightarrow>
                    if 0 \<le> c \<and> c \<le> prompt
                    then s2\<lparr>f_cached := f_cached s2 + c, measured_prompt := measured_prompt s2 + prompt\<rparr>
                    else s2\<lparr>unavailable := unavailable s2 + 1\<rparr>
                | None \<Rightarrow> s2\<lparr>unavailable := unavailable s2 + 1\<rparr>);
          total = prompt + completion
      in if total > 0 \<and> \<not> clock_invalid s3
         then s3\<lparr>daily_totals := bump (hmac_sha256 (salt s3) label) total (daily_totals s3)\<rparr>
         else s3)"

record Snapshot =
  sn_boot :: string
  sn_counters :: Counters
  sn_histogram :: Released

definition snapshot :: "rat \<Rightarrow> bytes \<Rightarrow> FleetUsage \<Rightarrow> FleetUsage \<times> Snapshot" where
  "snapshot now random s =
     (let s1 = roll now random s
      in (s1, \<lparr>sn_boot = accounting_boot s1, sn_counters = frozen_counters s1, sn_histogram = released s1\<rparr>))"

datatype fleet_op =
    Record rat bytes string int int "int option"
  | Snapshot rat bytes

fun fleet_step :: "FleetUsage \<Rightarrow> fleet_op \<Rightarrow> FleetUsage \<times> Snapshot option" where
  "fleet_step s (Record now random label prompt completion cached) =
     (record_usage now random label prompt completion cached s, None)"
| "fleet_step s (Snapshot now random) = (let (s', out) = snapshot now random s in (s', Some out))"

section \<open>What is published\<close>

text \<open>A histogram fit to be published: no band between one and four, and nothing without a counted day.\<close>

definition histogram_ok :: "int list \<Rightarrow> int \<Rightarrow> bool" where
  "histogram_ok bs n \<longleftrightarrow> length bs = 3 \<and> 0 \<le> n \<and> (\<forall>b \<in> set bs. b = 0 \<or> 5 \<le> b) \<and> (n = 0 \<longrightarrow> bs = [0, 0, 0])"

definition fleet_inv :: "FleetUsage \<Rightarrow> bool" where
  "fleet_inv s \<longleftrightarrow> histogram_ok (bands s) (counted_days s) \<and>
     histogram_ok (r_bands (released s)) (r_counted_days (released s)) \<and>
     (r_released (released s) \<longleftrightarrow> 0 < r_counted_days (released s)) \<and>
     r_month (released s) < month_of (f_day s)"

lemma month_days_pos: "0 < month_days y m"
  by (simp add: month_days_def)

lemma date_ok: "case date_of n of (y, m, d) \<Rightarrow> 1970 \<le> y \<and> 1 \<le> m \<and> m \<le> 12 \<and> 1 \<le> d \<and> d \<le> month_days y m"
proof (induction n)
  case (Suc n)
  obtain y m d where "date_of n = (y, m, d)" by (cases "date_of n")
  with Suc show ?case using month_days_pos by (auto simp: Suc_le_eq)
qed (simp add: month_days_def)

lemma month_of_Suc: "month_of n \<le> month_of (Suc n)"
proof -
  obtain y m d where "date_of n = (y, m, d)" by (cases "date_of n")
  then show ?thesis using date_ok [of n] by (auto simp: month_of_def)
qed

lemma month_of_mono: "m \<le> n \<Longrightarrow> month_of m \<le> month_of n"
  by (rule lift_Suc_mono_le [of month_of, OF month_of_Suc])

lemma previous_month_less: "previous_month n < month_of n" "0 < month_of n"
  using date_ok [of n] by (cases "date_of n"; auto simp: previous_month_def month_of_def)+

lemma length_band_counts [simp]: "length (band_counts daily) = 3"
proof -
  have "length (foldl (\<lambda>c (_, v). c[band_of v := c ! band_of v + 1]) cs daily) = length cs" for cs :: "int list"
    by (induction daily arbitrary: cs) auto
  then show ?thesis by (simp add: band_counts_def)
qed

lemma histogram_ok_add:
  assumes "histogram_ok bs n" and "length cs = 3"
  shows "histogram_ok (add_bands bs cs) (n + 1)"
proof -
  have bs: "bs ! i = 0 \<or> 5 \<le> bs ! i" if "i < 3" for i
    using assms(1) nth_mem [of i bs] that by (simp add: histogram_ok_def)
  have "b = 0 \<or> 5 \<le> b" if "b \<in> set (add_bands bs cs)" for b
  proof -
    have len: "length bs = 3" using assms(1) by (simp add: histogram_ok_def)
    with that assms(2) obtain i where i: "i < 3" and b: "b = (if cs ! i \<ge> 5 then bs ! i + cs ! i else bs ! i)"
      by (auto simp: add_bands_def in_set_conv_nth)
    show ?thesis using bs [OF i] by (auto simp: b)
  qed
  then show ?thesis using assms by (auto simp: histogram_ok_def add_bands_def)
qed

lemma fleet_inv_roll:
  assumes "fleet_inv s"
  shows "fleet_inv (roll now random s)"
proof -
  define day where "day = fleet_day now"
  consider "clock_invalid s \<or> day = f_day s" | "\<not> clock_invalid s" "day < f_day s" | "\<not> clock_invalid s" "f_day s < day"
    by linarith
  then show ?thesis
  proof cases
    case 1
    then show ?thesis using assms by (simp add: roll_def day_def Let_def)
  next
    case 2
    then show ?thesis using previous_month_less(2)
      by (simp add: roll_def day_def [symmetric] fleet_inv_def histogram_ok_def no_release_def)
  next
    case 3
    define s1 where "s1 = s\<lparr>frozen_counters := \<lparr>prompt_tokens_total = f_prompt s, prompt_tokens_cached = f_cached s,
                       prompt_tokens_cache_measured = measured_prompt s,
                       cache_unavailable_responses = unavailable s, as_of_day = as_of day\<rparr>\<rparr>"
    define s2 where "s2 = (if day = f_day s + 1 \<and> whole_day s \<and> length (daily_totals s) \<ge> 10 then count_day s1 else s1)"
    define s3 where "s3 = (if month_of day \<noteq> month_of (f_day s) then close_month day s2 else s2)"
    have r: "roll now random s = s3\<lparr>daily_totals := [], salt := random, whole_day := day = f_day s + 1, f_day := day\<rparr>"
      using 3 by (simp add: roll_def day_def [symmetric] Let_def s1_def s2_def s3_def)
    have day: "f_day s2 = f_day s" by (simp add: s2_def s1_def count_day_def)
    have "fleet_inv s1" using assms by (simp add: fleet_inv_def s1_def)
    then have s2: "fleet_inv s2"
      using histogram_ok_add [of "bands s1" "counted_days s1"] by (auto simp: s2_def fleet_inv_def count_day_def)
    then have "histogram_ok (bands s3) (counted_days s3) \<and>
       histogram_ok (r_bands (released s3)) (r_counted_days (released s3)) \<and>
       (r_released (released s3) \<longleftrightarrow> 0 < r_counted_days (released s3)) \<and> r_month (released s3) < month_of day"
      using previous_month_less(1) [of day]
      by (auto simp: s3_def close_month_def Let_def fleet_inv_def histogram_ok_def day)
    then show ?thesis by (simp add: fleet_inv_def r)
  qed
qed

interpretation fleet: machine fleet_step fleet_inv
proof
  fix s op
  assume inv: "fleet_inv s"
  show "fleet_inv (fst (fleet_step s op))"
  proof (cases op)
    case (Record now random label prompt completion cached)
    then show ?thesis using fleet_inv_roll [OF inv, of now random]
      by (auto simp: record_usage_def Let_def fleet_inv_def split: option.splits)
  qed (simp add: snapshot_def Let_def fleet_inv_roll [OF inv])
qed

lemma fleet_inv_new: "fleet_inv (new_fleet now random boot)"
  using previous_month_less(2) by (simp add: fleet_inv_def new_fleet_def histogram_ok_def no_release_def)

lemma released_month_closed_roll: "fleet_inv s \<Longrightarrow> \<not> clock_invalid (roll now random s) \<Longrightarrow>
    f_day (roll now random s) = fleet_day now"
  by (auto simp: roll_def Let_def split: if_splits)

text \<open>
  C36. Suppression: whatever sequence of recordings and reports a process makes, a published
  histogram has no band with a count between one and four, is marked released exactly when at
  least one day was counted, and carries no count at all when none was.
\<close>

theorem histogram_suppressed:
  assumes "s = fst (run fleet_step (new_fleet now0 random0 boot) ops)"
    and "snapshot now random s = (s', out)"
  shows "histogram_ok (r_bands (sn_histogram out)) (r_counted_days (sn_histogram out)) \<and>
    (r_released (sn_histogram out) \<longleftrightarrow> 0 < r_counted_days (sn_histogram out))"
proof -
  have "fleet_inv s" unfolding assms(1) by (rule fleet.inv_run [OF fleet_inv_new])
  from fleet_inv_roll [OF this, of now random] assms(2) show ?thesis
    by (auto simp: snapshot_def Let_def fleet_inv_def)
qed

theorem histogram_suppressed_witness:
  "histogram_ok (r_bands (sn_histogram (snd (snapshot 90000 ''s'' (fst (run fleet_step (new_fleet 0 ''r'' ''b'')
     [Record 1 ''q'' ''a'' 5 6 None]))))))
   (r_counted_days (sn_histogram (snd (snapshot 90000 ''s'' (fst (run fleet_step (new_fleet 0 ''r'' ''b'')
     [Record 1 ''q'' ''a'' 5 6 None]))))))"
  by (rule histogram_suppressed [OF refl surjective_pairing, THEN conjunct1])

text \<open>
  Only closed months: while the clock has not gone backwards, a published histogram is for a
  month before the month of the report (or is the empty one of month 0).
\<close>

theorem histogram_month_closed:
  assumes "s = fst (run fleet_step (new_fleet now0 random0 boot) ops)"
    and "snapshot now random s = (s', out)" and "\<not> clock_invalid s'"
  shows "r_month (sn_histogram out) < month_of (fleet_day now)"
proof -
  have inv: "fleet_inv s" unfolding assms(1) by (rule fleet.inv_run [OF fleet_inv_new])
  from fleet_inv_roll [OF inv, of now random] released_month_closed_roll [OF inv, of now random] assms(2,3)
  show ?thesis by (auto simp: snapshot_def Let_def fleet_inv_def)
qed

theorem histogram_month_closed_witness:
  "r_month (sn_histogram (snd (snapshot 90000 ''s'' (fst (run fleet_step (new_fleet 0 ''r'' ''b'')
     [Record 1 ''q'' ''a'' 5 6 None]))))) < month_of (fleet_day 90000)"
proof (rule histogram_month_closed [OF refl surjective_pairing])
  show "\<not> clock_invalid (fst (snapshot 90000 ''s'' (fst (run fleet_step (new_fleet 0 ''r'' ''b'')
     [Record 1 ''q'' ''a'' 5 6 None]))))"
    by (simp add: snapshot_def record_usage_def roll_def new_fleet_def fleet_day_def Let_def count_day_def
        close_month_def del: date_of.simps)
qed

end
