(* ===== verification/Usage_Tally.thy ===== *)
theory Usage_Tally
  imports Fleet_Usage Json
begin

text \<open>
  The streaming usage reader and the token accounting of \<open>usage_tally.py\<close>:
  \<open>UsageWalker\<close> as a machine that takes one byte at a time, \<open>ChatTally\<close> with its labels
  and counters, and its text rendering.
\<close>

section \<open>UsageWalker\<close>

definition TOKEN_MAX :: int where "TOKEN_MAX = 2 ^ 31 - 1"
definition USAGE_OBJECT_MAX_BYTES :: nat where "USAGE_OBJECT_MAX_BYTES = 4096"
definition KEY_MAX_BYTES :: nat where "KEY_MAX_BYTES = 4096"
definition PARSER_DEPTH_MAX :: nat where "PARSER_DEPTH_MAX = 64"

definition device_label :: "bytes \<Rightarrow> string \<Rightarrow> string" where
  "device_label key material = to_hex (hmac_sha256 key material)"

datatype kind = Obj | Arr

text \<open>
  The key of the current member is kept as the bytes between its quotes: the source decodes them
  with replacement characters and only compares the result with \<open>"usage"\<close>, which holds of
  exactly these five bytes. The stack has its top first.
\<close>

record UsageWalker =
  w_last :: "(int \<times> int) option"
  last_cached :: "int option"
  bad :: bool
  disabled :: bool
  depth :: nat
  in_string :: bool
  escaped :: bool
  stack :: "kind list"
  expecting_key :: bool
  capturing_key :: bool
  key_buffer :: bytes
  current_key :: "bytes option"
  expecting_value :: bool
  capturing_usage :: bool
  usage_start_depth :: nat
  usage_buffer :: bytes

definition new_walker :: UsageWalker where
  "new_walker = \<lparr>w_last = None, last_cached = None, bad = False, disabled = False, depth = 0,
     in_string = False, escaped = False, stack = [], expecting_key = False, capturing_key = False,
     key_buffer = [], current_key = None, expecting_value = False, capturing_usage = False,
     usage_start_depth = 0, usage_buffer = []\<rparr>"

definition disable_accounting :: "UsageWalker \<Rightarrow> UsageWalker" where
  "disable_accounting w = w\<lparr>disabled := True, bad := True, depth := 0, in_string := False, escaped := False,
     stack := [], expecting_key := False, capturing_key := False, key_buffer := [], current_key := None,
     expecting_value := False, capturing_usage := False, usage_buffer := []\<rparr>"

definition append_key :: "char \<Rightarrow> UsageWalker \<Rightarrow> UsageWalker" where
  "append_key b w =
     (if length (key_buffer w) \<ge> KEY_MAX_BYTES then disable_accounting w
      else w\<lparr>key_buffer := key_buffer w @ [b]\<rparr>)"

text \<open>\<open>_push\<close>; the caller goes on only when it did not disable the walker.\<close>

definition push :: "kind \<Rightarrow> UsageWalker \<Rightarrow> UsageWalker" where
  "push k w =
     (if depth w \<ge> PARSER_DEPTH_MAX \<or> length (stack w) \<ge> PARSER_DEPTH_MAX then disable_accounting w
      else w\<lparr>stack := k # stack w, depth := depth w + 1\<rparr>)"

definition top_is :: "kind \<Rightarrow> UsageWalker \<Rightarrow> bool" where
  "top_is k w \<longleftrightarrow> stack w \<noteq> [] \<and> hd (stack w) = k"

text \<open>\<open>dict.get\<close> on a parsed object.\<close>

definition dict_get :: "ustr \<Rightarrow> (ustr \<times> json) list \<Rightarrow> json option" where
  "dict_get k d = map_of d k"

definition cached_tokens :: "int \<Rightarrow> (ustr \<times> json) list \<Rightarrow> int option" where
  "cached_tokens pt d = (case dict_get (ascii ''prompt_tokens_details'') d of
     Some (JObj details) \<Rightarrow>
       (case dict_get (ascii ''cached_tokens'') details of
          Some (JInt c) \<Rightarrow> if 0 \<le> c \<and> c \<le> pt then Some c else None
        | _ \<Rightarrow> None)
   | _ \<Rightarrow> None)"

text \<open>
  The usage object a finished buffer carries: \<^term>\<open>None\<close> stands for every way to
  \<open>self.bad = True\<close>.
\<close>

definition parse_usage :: "bytes \<Rightarrow> ((int \<times> int) \<times> int option) option" where
  "parse_usage buf = (case utf8_decode buf of
     Inl _ \<Rightarrow> None
   | Inr text \<Rightarrow>
       (case json_loads (default_hooks ()) text of
          Inr (JObj d) \<Rightarrow>
            (case (dict_get (ascii ''prompt_tokens'') d, dict_get (ascii ''completion_tokens'') d) of
               (Some (JInt pt), Some (JInt ct)) \<Rightarrow>
                 if 0 \<le> pt \<and> pt \<le> TOKEN_MAX \<and> 0 \<le> ct \<and> ct \<le> TOKEN_MAX
                 then Some ((pt, ct), cached_tokens pt d) else None
             | _ \<Rightarrow> None)
        | _ \<Rightarrow> None))"

definition process_usage_buffer :: "UsageWalker \<Rightarrow> UsageWalker" where
  "process_usage_buffer w =
     (case parse_usage (usage_buffer w) of
        Some (tokens, cached) \<Rightarrow> w\<lparr>w_last := Some tokens, last_cached := cached, usage_buffer := []\<rparr>
      | None \<Rightarrow> w\<lparr>bad := True, usage_buffer := []\<rparr>)"

text \<open>A byte inside a string literal.\<close>

definition feed_in_string :: "char \<Rightarrow> UsageWalker \<Rightarrow> UsageWalker" where
  "feed_in_string b w =
     (let keep = (\<lambda>w. if capturing_key w then append_key b w else w)
      in if escaped w then keep (w\<lparr>escaped := False\<rparr>)
         else if b = CHR 0x5C then keep (w\<lparr>escaped := True\<rparr>)
         else if b = CHR 0x22 then
           (let w1 = w\<lparr>in_string := False\<rparr>
            in if capturing_key w1
               then w1\<lparr>capturing_key := False, current_key := Some (key_buffer w1), key_buffer := []\<rparr>
               else w1)
         else keep w)"

text \<open>A quote that opens a string literal.\<close>

definition open_string :: "UsageWalker \<Rightarrow> UsageWalker" where
  "open_string w =
     (let w1 = w\<lparr>in_string := True, escaped := False\<rparr>
      in if expecting_key w1 \<and> top_is Obj w1
         then w1\<lparr>capturing_key := True, expecting_key := False, key_buffer := []\<rparr>
         else if expecting_value w1 then
           (let w2 = (if current_key w1 = Some ''usage'' \<and> depth w1 = 1 then w1\<lparr>bad := True\<rparr> else w1)
            in w2\<lparr>expecting_value := False, current_key := None\<rparr>)
         else w1)"

text \<open>The first byte of a value that is not a string.\<close>

definition start_value :: "char \<Rightarrow> UsageWalker \<Rightarrow> UsageWalker" where
  "start_value b w =
     (if expecting_value w \<and> b \<notin> {CHR '' '', CHR 0x09, CHR 0x0D, CHR 0x0A} then
        (let w1 = (if current_key w = Some ''usage'' \<and> depth w = 1 then
                     (if b = CHR ''{''
                      then w\<lparr>capturing_usage := True, usage_start_depth := depth w + 1, usage_buffer := [b]\<rparr>
                      else if b = CHR ''n'' then w
                      else w\<lparr>bad := True\<rparr>)
                   else w)
         in w1\<lparr>expecting_value := False, current_key := None\<rparr>)
      else w)"

text \<open>A closing bracket: the stack is popped only if its top matches, the depth goes down anyway.\<close>

definition pop :: "kind \<Rightarrow> UsageWalker \<Rightarrow> UsageWalker" where
  "pop k w = (let w1 = (if top_is k w then w\<lparr>stack := tl (stack w)\<rparr> else w) in w1\<lparr>depth := depth w1 - 1\<rparr>)"

definition close_object :: "UsageWalker \<Rightarrow> UsageWalker" where
  "close_object w =
     (let w2 = pop Obj w
      in if capturing_usage w2 \<and> int (depth w2) = int (usage_start_depth w2) - 1
         then process_usage_buffer (w2\<lparr>capturing_usage := False\<rparr>)
         else w2)"

text \<open>Brackets, commas and colons outside strings.\<close>

definition feed_structure :: "char \<Rightarrow> UsageWalker \<Rightarrow> UsageWalker" where
  "feed_structure b w =
     (if b = CHR ''{'' then
        (let w1 = (if depth w = 0 \<or> top_is Obj w then w\<lparr>expecting_key := True\<rparr> else w);
             w2 = push Obj w1
         in if disabled w2 then w2 else w2\<lparr>expecting_value := False\<rparr>)
      else if b = CHR ''['' then
        (let w2 = push Arr w in if disabled w2 then w2 else w2\<lparr>expecting_value := False\<rparr>)
      else if b = CHR ''}'' then
        (let w1 = (if depth w > 0 then close_object w else w)
         in w1\<lparr>expecting_key := False, expecting_value := False\<rparr>)
      else if b = CHR '']'' then
        (let w1 = (if depth w > 0 then pop Arr w else w)
         in w1\<lparr>expecting_key := False, expecting_value := False\<rparr>)
      else if b = CHR '','' then
        (let w1 = (if top_is Obj w then w\<lparr>expecting_key := True\<rparr> else w)
         in w1\<lparr>expecting_value := False\<rparr>)
      else if b = CHR '':'' then
        (if top_is Obj w then w\<lparr>expecting_value := True\<rparr> else w)
      else w)"

text \<open>The body of the loop of \<open>_feed\<close>; a disabled walker takes no byte.\<close>

definition feed_byte :: "UsageWalker \<Rightarrow> char \<Rightarrow> UsageWalker" where
  "feed_byte w b =
     (if disabled w then w
      else if capturing_usage w \<and> length (usage_buffer w) \<ge> USAGE_OBJECT_MAX_BYTES then disable_accounting w
      else
        let w1 = (if capturing_usage w then w\<lparr>usage_buffer := usage_buffer w @ [b]\<rparr> else w)
        in if in_string w1 then feed_in_string b w1
           else if b = CHR 0x22 then open_string w1
           else feed_structure b (start_value b w1))"

definition feed :: "UsageWalker \<Rightarrow> bytes \<Rightarrow> UsageWalker" where
  "feed w data = foldl feed_byte w data"

section \<open>ChatTally\<close>

record ChatTally =
  t_key :: bytes
  prompt_tokens :: "(string \<times> int) list"
  completion_tokens :: "(string \<times> int) list"
  incomplete :: nat
  fleet :: FleetUsage

text \<open>\<open>__init__\<close>, with the key and the fleet's random bytes drawn from outside.\<close>

definition new_tally :: "bytes \<Rightarrow> rat \<Rightarrow> bytes \<Rightarrow> bytes \<Rightarrow> ChatTally" where
  "new_tally key now random1 random2 = \<lparr>t_key = key, prompt_tokens = [], completion_tokens = [], incomplete = 0,
     fleet = new_fleet now random1 random2\<rparr>"

definition label_for :: "ChatTally \<Rightarrow> string \<Rightarrow> string" where
  "label_for t credential = device_label (t_key t) credential"

text \<open>Adding one sample to the counters and the fleet histogram.\<close>

definition add_sample :: "rat \<Rightarrow> bytes \<Rightarrow> string \<Rightarrow> int \<times> int \<Rightarrow> int option \<Rightarrow> ChatTally \<Rightarrow> ChatTally" where
  "add_sample now random label tokens cached t =
     (case tokens of (pt, ct) \<Rightarrow>
        t\<lparr>prompt_tokens := bump label pt (prompt_tokens t),
          completion_tokens := bump label ct (completion_tokens t),
          fleet := record_usage now random label pt ct cached (fleet t)\<rparr>)"

definition commit_response :: "rat \<Rightarrow> bytes \<Rightarrow> string \<Rightarrow> UsageWalker \<Rightarrow> bool \<Rightarrow> ChatTally \<Rightarrow> ChatTally" where
  "commit_response now random label w truncated t =
     (if disabled w then t\<lparr>incomplete := incomplete t + 1\<rparr>
      else if truncated then
        (let t1 = (case w_last w of Some tokens \<Rightarrow> add_sample now random label tokens (last_cached w) t | None \<Rightarrow> t)
         in t1\<lparr>incomplete := incomplete t1 + 1\<rparr>)
      else case (bad w, w_last w) of
          (False, Some tokens) \<Rightarrow> add_sample now random label tokens (last_cached w) t
        | _ \<Rightarrow> t\<lparr>incomplete := incomplete t + 1\<rparr>)"

section \<open>Bounded memory\<close>

lemmas walker_constants [simp] = USAGE_OBJECT_MAX_BYTES_def KEY_MAX_BYTES_def PARSER_DEPTH_MAX_def

definition walker_inv :: "UsageWalker \<Rightarrow> bool" where
  "walker_inv w \<longleftrightarrow> length (key_buffer w) \<le> KEY_MAX_BYTES \<and> length (usage_buffer w) \<le> USAGE_OBJECT_MAX_BYTES \<and>
     length (stack w) \<le> PARSER_DEPTH_MAX \<and> depth w \<le> length (stack w) \<and>
     (case current_key w of None \<Rightarrow> True | Some k \<Rightarrow> length k \<le> KEY_MAX_BYTES) \<and>
     (disabled w \<longrightarrow> bad w) \<and>
     (case w_last w of None \<Rightarrow> True | Some (pt, ct) \<Rightarrow> 0 \<le> pt \<and> pt \<le> TOKEN_MAX \<and> 0 \<le> ct \<and> ct \<le> TOKEN_MAX)"

lemma walker_inv_disable [simp]: "walker_inv w \<Longrightarrow> walker_inv (disable_accounting w)"
  by (simp add: walker_inv_def disable_accounting_def)

lemma walker_inv_process [simp]: "walker_inv w \<Longrightarrow> walker_inv (process_usage_buffer w)"
  by (auto simp: walker_inv_def process_usage_buffer_def parse_usage_def
      split: option.splits sum.splits json.splits if_splits)

lemma walker_inv_append_key [simp]: "walker_inv w \<Longrightarrow> walker_inv (append_key b w)"
  by (simp add: append_key_def) (simp add: walker_inv_def)

lemma walker_inv_push [simp]: "walker_inv w \<Longrightarrow> walker_inv (push k w)"
  by (simp add: push_def) (simp add: walker_inv_def)

text \<open>Updates of the flags alone.\<close>

lemma walker_inv_flags [simp]:
  "walker_inv (w\<lparr>in_string := x\<rparr>) = walker_inv w" "walker_inv (w\<lparr>escaped := x\<rparr>) = walker_inv w"
  "walker_inv (w\<lparr>expecting_key := x\<rparr>) = walker_inv w" "walker_inv (w\<lparr>expecting_value := x\<rparr>) = walker_inv w"
  "walker_inv (w\<lparr>capturing_key := x\<rparr>) = walker_inv w" "walker_inv (w\<lparr>capturing_usage := x\<rparr>) = walker_inv w"
  "walker_inv (w\<lparr>usage_start_depth := n\<rparr>) = walker_inv w"
  by (simp_all add: walker_inv_def)

lemma walker_inv_clears [simp]:
  "walker_inv w \<Longrightarrow> walker_inv (w\<lparr>key_buffer := []\<rparr>)" "walker_inv w \<Longrightarrow> walker_inv (w\<lparr>current_key := None\<rparr>)"
  "walker_inv w \<Longrightarrow> walker_inv (w\<lparr>bad := True\<rparr>)" "walker_inv w \<Longrightarrow> walker_inv (w\<lparr>usage_buffer := [b]\<rparr>)"
  "walker_inv w \<Longrightarrow> length (key_buffer w) = n \<Longrightarrow> walker_inv (w\<lparr>current_key := Some (key_buffer w)\<rparr>)"
  by (simp_all add: walker_inv_def)

lemma walker_inv_pop [simp]: "walker_inv w \<Longrightarrow> 0 < depth w \<Longrightarrow> walker_inv (pop k w)"
  by (auto simp: walker_inv_def pop_def Let_def)

lemma walker_inv_close [simp]: "walker_inv w \<Longrightarrow> 0 < depth w \<Longrightarrow> walker_inv (close_object w)"
  by (simp add: close_object_def Let_def)

lemma walker_inv_in_string: "walker_inv w \<Longrightarrow> walker_inv (feed_in_string b w)"
  by (auto simp: feed_in_string_def Let_def) (auto simp: walker_inv_def)

lemma walker_inv_open: "walker_inv w \<Longrightarrow> walker_inv (open_string w)"
  by (auto simp: open_string_def Let_def)

lemma walker_inv_start: "walker_inv w \<Longrightarrow> walker_inv (start_value b w)"
  by (auto simp: start_value_def Let_def)

lemma walker_inv_structure: "walker_inv w \<Longrightarrow> walker_inv (feed_structure b w)"
  by (simp add: feed_structure_def Let_def)

lemma walker_inv_byte: "walker_inv w \<Longrightarrow> walker_inv (feed_byte w b)"
proof -
  assume inv: "walker_inv w"
  then have "walker_inv (w\<lparr>usage_buffer := usage_buffer w @ [b]\<rparr>)" if "length (usage_buffer w) < USAGE_OBJECT_MAX_BYTES"
    using that by (simp add: walker_inv_def)
  with inv show ?thesis
    by (auto simp: feed_byte_def Let_def not_le intro: walker_inv_in_string walker_inv_open walker_inv_start walker_inv_structure)
qed

text \<open>
  Bounded memory and sane samples: whatever bytes a response carries, in whatever pieces they
  arrive, the reader keeps at most 4096 bytes of key and of usage object and 64 levels, and the
  sample it holds is a pair of token counts between 0 and 2^31 - 1.
\<close>

theorem walker_bounded: "walker_inv (foldl feed new_walker chunks)"
proof -
  have step: "walker_inv w \<Longrightarrow> walker_inv (feed w d)" for w d
    unfolding feed_def by (induction d arbitrary: w) (simp_all add: walker_inv_byte)
  have "walker_inv w \<Longrightarrow> walker_inv (foldl feed w chunks)" for w
    by (induction chunks arbitrary: w) (simp_all add: step)
  moreover have "walker_inv new_walker" by (simp add: walker_inv_def new_walker_def)
  ultimately show ?thesis by blast
qed

text \<open>Any way of cutting a response into chunks leaves the reader in the same state.\<close>

lemma walker_chunking: "foldl feed w chunks = feed w (concat chunks)"
  by (induction chunks arbitrary: w) (simp_all add: feed_def)

section \<open>Accounting\<close>

text \<open>A walker that overflowed stays disabled and takes nothing more in.\<close>

lemma feed_disabled: "disabled w \<Longrightarrow> feed w data = w"
  unfolding feed_def by (induction data) (simp_all add: feed_byte_def)

definition token_count :: "(string \<times> int) list \<Rightarrow> string \<Rightarrow> int" where
  "token_count d label = (case map_of d label of None \<Rightarrow> 0 | Some n \<Rightarrow> n)"

lemma token_count_bump: "token_count (bump l n d) l' = token_count d l' + (if l' = l then n else 0)"
  by (induction l n d rule: bump.induct) (auto simp: token_count_def split: option.splits)

text \<open>The sample a response is charged: the last usage object seen, unless the reader overflowed, or
  the response ended normally and some usage object was malformed.\<close>

definition charged :: "UsageWalker \<Rightarrow> bool \<Rightarrow> (int \<times> int) option" where
  "charged w truncated = (if disabled w \<or> \<not> truncated \<and> bad w then None else w_last w)"

text \<open>
  A response is accounted exactly once: committing it adds its charged sample to the counters
  of its label and of no other label, and the incomplete counter grows by one exactly when the
  response was truncated or nothing was charged.
\<close>

theorem commit_exact:
  "token_count (prompt_tokens (commit_response now random label w truncated t)) l =
     token_count (prompt_tokens t) l + (if l = label then (case charged w truncated of None \<Rightarrow> 0 | Some (pt, ct) \<Rightarrow> pt) else 0) \<and>
   token_count (completion_tokens (commit_response now random label w truncated t)) l =
     token_count (completion_tokens t) l + (if l = label then (case charged w truncated of None \<Rightarrow> 0 | Some (pt, ct) \<Rightarrow> ct) else 0) \<and>
   incomplete (commit_response now random label w truncated t) =
     incomplete t + (if truncated \<or> charged w truncated = None then 1 else 0)"
  by (cases "disabled w"; cases truncated; cases "bad w"; cases "w_last w")
    (auto simp: commit_response_def charged_def add_sample_def token_count_bump Let_def split: prod.splits)

end
