(* ===== verification/Gateway_Relay.thy ===== *)
theory Gateway_Relay
  imports Gateway_Http Usage_Tally
begin

text \<open>
  The request loop \<open>_http_relay\<close> of \<open>ratls_gateway.py\<close>, every branch of it: admission of
  the first credential, routing, the relay's own refusals, the lease around the upstream exchange,
  the response copy with its usage reader, and the accounting in the two \<open>finally\<close> blocks. The
  outside world is a record of answers (clock readings, random bytes, the portal, the upstream
  connections) indexed by a counter that every use advances; the channel's own state is threaded
  through, also past exceptions.
\<close>

section \<open>World and channel\<close>

datatype target = Default_upstream | Audio_upstream

record world =
  audio_configured :: bool
  channel_lifetime :: rat
  channel_started :: rat
  monotonic :: "nat \<Rightarrow> rat"
  wall :: "nat \<Rightarrow> rat"
  urandom :: "nat \<Rightarrow> bytes"
  portal :: "nat \<Rightarrow> string \<Rightarrow> portal_answer"
  connect :: "nat \<Rightarrow> target \<Rightarrow> (reader \<times> sink) option"
  hangup :: "nat \<Rightarrow> bool"

text \<open>What the channel did that the outside can see, in order.\<close>

datatype event = Asked_portal string authorize_result | Opened target | Closed_upstream

record chan =
  ticks :: nat
  client :: reader
  client_out :: sink
  admitted_credential :: "string option"
  device_id :: string
  authorization :: "Authorization option"
  allowance :: Allowance
  tally :: ChatTally
  up_in :: reader
  up_out :: sink
  events :: "event list"
  work_started :: bool
  completed :: bool
  status :: nat
  duration_ms :: int
  walker :: "UsageWalker option"

type_synonym 'a action = "chan \<Rightarrow> (relay_exn + 'a) \<times> chan"

definition ret :: "'a \<Rightarrow> 'a action" where
  "ret x s = (Inr x, s)"

definition raise :: "relay_exn \<Rightarrow> 'a action" where
  "raise e s = (Inl e, s)"

definition andThen :: "'a action \<Rightarrow> ('a \<Rightarrow> 'b action) \<Rightarrow> 'b action" where
  "andThen m f s = (case m s of (Inl e, s') \<Rightarrow> (Inl e, s') | (Inr x, s') \<Rightarrow> f x s')"

text \<open>\<open>try: m finally: f\<close>, where \<open>f\<close> does not raise.\<close>

definition try_finally :: "'a action \<Rightarrow> (chan \<Rightarrow> chan) \<Rightarrow> 'a action" where
  "try_finally m f s = (let (r, s') = m s in (r, f s'))"

definition lift :: "relay_exn + 'a \<Rightarrow> 'a action" where
  "lift r s = (r, s)"

definition modify :: "(chan \<Rightarrow> chan) \<Rightarrow> unit action" where
  "modify f s = (Inr (), f s)"

definition tick :: "nat action" where
  "tick s = (Inr (ticks s), s\<lparr>ticks := ticks s + 1\<rparr>)"

definition from_client :: "(reader \<Rightarrow> relay_exn + ('a \<times> reader)) \<Rightarrow> 'a action" where
  "from_client f s = (case f (client s) of Inl e \<Rightarrow> (Inl e, s) | Inr (x, r) \<Rightarrow> (Inr x, s\<lparr>client := r\<rparr>))"

definition send_client :: "bytes \<Rightarrow> unit action" where
  "send_client data s = (case sendall data (client_out s) of
     None \<Rightarrow> (Inl (send_error (client_out s)), s)
   | Some d \<Rightarrow> (Inr (), s\<lparr>client_out := d\<rparr>))"

definition send_upstream :: "bytes \<Rightarrow> unit action" where
  "send_upstream data s = (case sendall data (up_out s) of
     None \<Rightarrow> (Inl (send_error (up_out s)), s)
   | Some d \<Rightarrow> (Inr (), s\<lparr>up_out := d\<rparr>))"

definition lifetime_expired :: "world \<Rightarrow> bool action" where
  "lifetime_expired w = andThen tick (\<lambda>i. ret (\<not> (monotonic w i - channel_started w < channel_lifetime w)))"

section \<open>Admission\<close>

datatype admission = Admitted | Refused nat

definition admit :: "world \<Rightarrow> headers \<Rightarrow> admission action" where
  "admit w hs s =
     (case bearer_credential hs of
        None \<Rightarrow> (Inr (Refused 401), s)
      | Some credential \<Rightarrow>
          (case admitted_credential s of
             None \<Rightarrow>
               let answer = authorize (portal w (ticks s) credential);
                   s1 = s\<lparr>ticks := ticks s + 1, events := events s @ [Asked_portal credential answer]\<rparr>
               in (case answer of
                     Authorized a \<Rightarrow>
                       (Inr Admitted, s1\<lparr>authorization := Some a, admitted_credential := Some credential,
                          device_id := label_for (tally s1) (journal a)\<rparr>)
                   | Rejected \<Rightarrow> (Inr (Refused 401), s1)
                   | Unavailable _ \<Rightarrow> (Inr (Refused 503), s1))
           | Some admitted \<Rightarrow> if credential \<noteq> admitted then (Inr (Refused 401), s) else (Inr Admitted, s)))"

section \<open>The upstream exchange\<close>

definition is_x_status :: "bytes list \<Rightarrow> bool" where
  "is_x_status parts \<longleftrightarrow> length parts \<ge> 2 \<and> starts_with ''HTTP/1.1'' (parts ! 0) \<and> length (parts ! 1) = 3 \<and> isdigit (parts ! 1)"

text \<open>The response head as it goes to the client: without the shim's duration header.\<close>

definition client_response_head :: "bytes list \<Rightarrow> bytes" where
  "client_response_head lines =
     join_lines (hd lines # filter (\<lambda>l. line_name l \<noteq> ''x-sol-audio-milliseconds'') (tl lines) @ [[], []])"

text \<open>Heads are read and forwarded until one is final; returns its lines.\<close>

function final_head :: "chan \<Rightarrow> (relay_exn + bytes list) \<times> chan" where
  "final_head s =
     (case read_head (up_in s) of
        Inl e \<Rightarrow> (Inl e, s)
      | Inr (None, r) \<Rightarrow> (Inl UpstreamUnavailableError, s\<lparr>up_in := r\<rparr>)
      | Inr (Some head, r) \<Rightarrow>
          let s1 = s\<lparr>up_in := r\<rparr>;
              lines = split_on CRLF (take (length head - 4) head);
              parts = split_on '' '' (hd lines)
          in if \<not> is_x_status parts then (Inl RelayProtocolError, s1)
             else
               let code = dec_val (parts ! 1);
                   s2 = s1\<lparr>status := code\<rparr>
               in (case sendall (client_response_head lines) (client_out s2) of
                     None \<Rightarrow> (Inl (send_error (client_out s2)), s2)
                   | Some d \<Rightarrow>
                       let s3 = s2\<lparr>client_out := d\<rparr>
                       in if 100 \<le> code \<and> code < 200 then final_head s3 else (Inr lines, s3)))"
  by pat_completeness auto

lemma read_head_left: "read_head r = Inr (Some h, r') \<Longrightarrow> bytes_left r' < bytes_left r"
proof -
  assume "read_head r = Inr (Some h, r')"
  from read_head_first [OF this] obtain i where i: "find_sub CRLF2 (stream r) = Some i" "stream r' = drop (i + 4) (stream r)"
    by blast
  from find_sub_Some [OF i(1)] have "i + 4 \<le> length (stream r)" by (auto simp: CRLF2_def)
  then show ?thesis by (simp add: bytes_left_def i(2))
qed

lemma read_head_suffix: "read_head r = Inr (Some h, r') \<Longrightarrow> stream r = h @ stream r'"
  using read_head_first [of r h r'] by auto

termination final_head
  by (relation "measure (\<lambda>s. bytes_left (up_in s))") (auto dest: read_head_left)

declare final_head.simps [simp del]

function copy_until_close :: "reader \<Rightarrow> sink \<Rightarrow> relay_exn option \<times> reader \<times> sink \<times> bytes" where
  "copy_until_close r d =
     (case read_available (int RELAY_CHUNK_BYTES) r of
        Inl e \<Rightarrow> (Some e, r, d, [])
      | Inr (chunk, r') \<Rightarrow>
          if chunk = [] then (None, r', d, [])
          else (case sendall chunk d of
              None \<Rightarrow> (Some (send_error d), r', d, [])
            | Some d' \<Rightarrow> let (e, r'', d'', seen) = copy_until_close r' d' in (e, r'', d'', chunk @ seen)))"
  by pat_completeness auto
termination
  by (relation "measure (\<lambda>(r, _). bytes_left r)") (auto simp: bytes_left_def dest: read_available_stream(1))

declare copy_until_close.simps [simp del]

text \<open>The body of a final response from the upstream to the client.\<close>

definition copy_body :: "body_mode \<Rightarrow> reader \<Rightarrow> sink \<Rightarrow> relay_exn option \<times> reader \<times> sink \<times> bytes" where
  "copy_body mode r d = (case mode of
     No_body \<Rightarrow> (None, r, d, [])
   | Length n \<Rightarrow> if n \<noteq> 0 then copy_exact r d (int n) else (None, r, d, [])
   | Chunked \<Rightarrow> copy_chunked r d
   | Until_close \<Rightarrow> copy_until_close r d)"

text \<open>\<open>except (RelayProtocolError, OSError, ConnectionError)\<close>.\<close>

definition caught :: "relay_exn \<Rightarrow> bool" where
  "caught e \<longleftrightarrow> e \<in> {RelayProtocolError, OsError, IdleTimeout, ConnectionError}"

definition commit :: "world \<Rightarrow> bool \<Rightarrow> chan \<Rightarrow> chan" where
  "commit w truncated s = (case walker s of
     None \<Rightarrow> s
   | Some u \<Rightarrow> s\<lparr>ticks := ticks s + 1,
       tally := commit_response (wall w (ticks s)) (urandom w (ticks s)) (device_id s) u truncated (tally s)\<rparr>)"

datatype turn = Continue | Stop

text \<open>
  After the final head: the chat route feeds its usage reader and commits it; a close-delimited
  body ends the channel.
\<close>

definition relay_body :: "world \<Rightarrow> bool \<Rightarrow> body_mode \<Rightarrow> turn action" where
  "relay_body w is_audio mode s =
     (let s0 = (if is_audio then s else s\<lparr>walker := Some new_walker\<rparr>);
          (err, r, d, seen) = copy_body mode (up_in s0) (client_out s0);
          s1 = s0\<lparr>up_in := r, client_out := d,
                  walker := map_option (\<lambda>u. feed u seen) (walker s0)\<rparr>
      in case err of
          Some e \<Rightarrow> (Inl e, if \<not> is_audio \<and> caught e then commit w True s1 else s1)
        | None \<Rightarrow>
            let s2 = (if \<not> is_audio \<and> mode \<noteq> No_body then commit w False s1 else s1)
            in (Inr (if mode = Until_close then Stop else Continue), s2\<lparr>completed := True\<rparr>))"

definition respond :: "world \<Rightarrow> bytes \<Rightarrow> bool \<Rightarrow> turn action" where
  "respond w method is_audio =
     andThen final_head (\<lambda>lines.
     andThen (lift (parse_relay_headers (tl lines) [])) (\<lambda>hs.
     andThen (modify (\<lambda>s. s\<lparr>duration_ms := audio_duration hs\<rparr>)) (\<lambda>_ s.
       andThen (lift (response_body_mode (status s) method hs)) (\<lambda>mode. relay_body w is_audio mode) s)))"

text \<open>The request body, from the client to the upstream.\<close>

definition copy_request_body :: "nat \<Rightarrow> unit action" where
  "copy_request_body n s =
     (if n = 0 then (Inr (), s)
      else let (err, r, d, _) = copy_exact (client s) (up_out s) (int n);
               s1 = s\<lparr>client := r, up_out := d\<rparr>
           in (case err of Some e \<Rightarrow> (Inl e, s1) | None \<Rightarrow> (Inr (), s1)))"

definition open_upstream :: "world \<Rightarrow> target \<Rightarrow> unit action" where
  "open_upstream w t s = (case connect w (ticks s) t of
     None \<Rightarrow> (Inl UpstreamUnavailableError, s\<lparr>ticks := ticks s + 1\<rparr>)
   | Some (r, d) \<Rightarrow> (Inr (), s\<lparr>ticks := ticks s + 1, up_in := r, up_out := d, events := events s @ [Opened t]\<rparr>))"

definition close_upstream :: "chan \<Rightarrow> chan" where
  "close_upstream s = s\<lparr>events := events s @ [Closed_upstream]\<rparr>"

text \<open>\<open>_wait_allowance\<close>: returns once the delay is over, or raises when the client hangs up before.\<close>

definition wait_allowance :: "world \<Rightarrow> rat \<Rightarrow> unit action" where
  "wait_allowance w delay =
     (if delay \<le> 0 then ret () else andThen tick (\<lambda>i. if hangup w i then raise ConnectionError else ret ()))"

definition exchange :: "world \<Rightarrow> target \<Rightarrow> bytes \<Rightarrow> bool \<Rightarrow> bytes \<Rightarrow> nat \<Rightarrow> nat option \<Rightarrow> turn action" where
  "exchange w t method is_audio head body_length lease s =
     andThen (case lease of None \<Rightarrow> ret () | Some i \<Rightarrow> wait_allowance w (l_delay (a_leases (allowance s) ! i))) (\<lambda>_.
     andThen (open_upstream w t) (\<lambda>_.
       try_finally
         (andThen (send_upstream head) (\<lambda>_.
          andThen (copy_request_body body_length) (\<lambda>_.
          andThen (modify (\<lambda>s. s\<lparr>work_started := True\<rparr>)) (\<lambda>_. respond w method is_audio))))
         close_upstream)) s"

section \<open>The lease around it\<close>

definition usable_sample :: "chan \<Rightarrow> (int \<times> int) option" where
  "usable_sample s = (case walker s of
     None \<Rightarrow> None
   | Some u \<Rightarrow> if completed s \<and> \<not> disabled u \<and> \<not> bad u then w_last u else None)"

definition charge :: "bool \<Rightarrow> nat option \<Rightarrow> chan \<Rightarrow> int" where
  "charge is_audio lease s = (case lease of
     None \<Rightarrow> 0
   | Some i \<Rightarrow>
       if work_started s \<and> \<not> (400 \<le> status s \<and> status s < 500 \<or> status s = 503) then
         if is_audio then audio_units (duration_ms s) (l_policy (a_leases (allowance s) ! i))
         else (case usable_sample s of Some (pt, ct) \<Rightarrow> pt + ct | None \<Rightarrow> 262144)
       else 0)"

definition settle :: "world \<Rightarrow> bool \<Rightarrow> nat option \<Rightarrow> chan \<Rightarrow> chan" where
  "settle w is_audio lease s =
     s\<lparr>ticks := ticks s + 1,
       allowance := finish_lease (allowance s) lease (charge is_audio lease s) (work_started s)
         (wall w (ticks s)) (monotonic w (ticks s))\<rparr>"

definition serve :: "world \<Rightarrow> target \<Rightarrow> bytes \<Rightarrow> bool \<Rightarrow> bytes \<Rightarrow> nat \<Rightarrow> bool \<Rightarrow> turn action" where
  "serve w t method is_audio head body_length client_wants_close s =
     (case authorization s of
        None \<Rightarrow> (Inl ValueError, s)
      | Some auth \<Rightarrow>
          let (a, lease) = begin_lease (allowance s) auth (wall w (ticks s)) (monotonic w (ticks s));
              s1 = s\<lparr>ticks := ticks s + 1, allowance := a\<rparr>
          in (case lease of
                Inl OccupancyExceeded \<Rightarrow> andThen (send_client occupancy_error) (\<lambda>_. ret Stop) s1
              | Inr l \<Rightarrow>
                  andThen
                    (try_finally (exchange w t method is_audio head body_length l) (settle w is_audio l))
                    (\<lambda>turn. ret (if client_wants_close then Stop else turn))
                    (s1\<lparr>work_started := False, completed := False, status := 0, duration_ms := 330000, walker := None\<rparr>)))"

section \<open>One request\<close>

definition MAX_AUDIO_BODY_BYTES :: nat where "MAX_AUDIO_BODY_BYTES = 11 * 1024 * 1024"
definition MAX_AUDIO_DRAIN_BYTES :: nat where "MAX_AUDIO_DRAIN_BYTES = 64 * 1024 * 1024"

datatype route = Serve target bool | Refuse "bool \<Rightarrow> bytes"

definition route_of :: "world \<Rightarrow> bytes \<Rightarrow> bytes \<Rightarrow> nat \<Rightarrow> route" where
  "route_of w method path body_length =
     (if method = ''POST'' \<and> path = ''/v1/chat/completions'' then Serve Default_upstream False
      else if method = ''POST'' \<and> path = ''/v1/audio/transcriptions'' \<and> audio_configured w then
        (if body_length > MAX_AUDIO_BODY_BYTES then Refuse relay_413 else Serve Audio_upstream True)
      else Refuse relay_404)"

text \<open>A refusal keeps the channel if the body is small enough to be drained.\<close>

definition refuse :: "(bool \<Rightarrow> bytes) \<Rightarrow> nat \<Rightarrow> bool \<Rightarrow> turn action" where
  "refuse response body_length client_wants_close =
     (if client_wants_close \<or> body_length > MAX_AUDIO_DRAIN_BYTES
      then andThen (send_client (response True)) (\<lambda>_. ret Stop)
      else andThen (send_client (response False)) (\<lambda>_.
        andThen (from_client (\<lambda>r. drain_exact r (int body_length))) (\<lambda>done. ret (if done then Continue else Stop))))"

definition handle_request :: "world \<Rightarrow> bytes list \<Rightarrow> bytes \<Rightarrow> bytes \<Rightarrow> headers \<Rightarrow> turn action" where
  "handle_request w lines method path hs s =
     (let head = canonical_request_head lines (device_id s)
      in andThen (lift (request_body_length hs)) (\<lambda>body_length.
         let client_wants_close = (''close'' \<in> set (map lower (header_values ''connection'' hs)))
         in (case route_of w method path body_length of
               Refuse response \<Rightarrow> refuse response body_length client_wants_close
             | Serve t is_audio \<Rightarrow> serve w t method is_audio head body_length client_wants_close)) s)"

definition relay_head :: "world \<Rightarrow> bytes \<Rightarrow> turn action" where
  "relay_head w head =
     (let lines = split_on CRLF (take (length head - 4) head);
          parts = split_on '' '' (hd lines)
      in if length parts \<noteq> 3 \<or> parts ! 2 \<noteq> ''HTTP/1.1'' \<or> \<not> starts_with ''/'' (parts ! 1) then raise RelayProtocolError
         else andThen (lift (parse_relay_headers (tl lines) [])) (\<lambda>hs.
              andThen (admit w hs) (\<lambda>a.
                case a of
                  Refused code \<Rightarrow> andThen (send_client (entitlement_error code)) (\<lambda>_. ret Stop)
                | Admitted \<Rightarrow> handle_request w lines (parts ! 0) (parts ! 1) hs)))"

text \<open>One turn of the \<open>while True\<close> loop.\<close>

definition relay_turn :: "world \<Rightarrow> turn action" where
  "relay_turn w =
     andThen (lifetime_expired w) (\<lambda>expired.
       if expired then ret Stop
       else andThen (from_client read_head) (\<lambda>head.
         case head of
           None \<Rightarrow> ret Stop
         | Some h \<Rightarrow> andThen (lifetime_expired w) (\<lambda>expired. if expired then ret Stop else relay_head w h)))"

section \<open>Frame conditions\<close>

text \<open>
  An action keeps a relation between the states before and after it, however it ends. For a
  reflexive and transitive relation this goes through the combinators.
\<close>

definition keeps :: "(chan \<Rightarrow> chan \<Rightarrow> bool) \<Rightarrow> 'a action \<Rightarrow> bool" where
  "keeps R m \<longleftrightarrow> (\<forall>s. R s (snd (m s)))"

lemma keepsD: "keeps R m \<Longrightarrow> m s = (r, s') \<Longrightarrow> R s s'"
  by (simp add: keeps_def) (metis snd_conv)

locale frame =
  fixes R :: "chan \<Rightarrow> chan \<Rightarrow> bool"
  assumes same: "R s s"
    and chain: "R s s' \<Longrightarrow> R s' s'' \<Longrightarrow> R s s''"
begin

lemma keeps_pure: "keeps R (ret x)" "keeps R (raise e)" "keeps R (lift r)"
  by (simp_all add: keeps_def ret_def raise_def lift_def same)

lemma keeps_andThen:
  assumes "keeps R m" and "\<And>x. keeps R (f x)"
  shows "keeps R (andThen m f)"
  unfolding keeps_def
proof
  fix s
  obtain r s' where m: "m s = (r, s')" by fastforce
  have "R s s'" using assms(1) by (simp add: keeps_def) (metis m snd_conv)
  moreover have "R s' (snd (f x s'))" for x using assms(2) by (simp add: keeps_def)
  ultimately show "R s (snd (andThen m f s))"
    by (cases r) (auto simp: andThen_def m intro: chain)
qed

lemma keeps_finally:
  assumes "keeps R m" and "\<And>s. R s (f s)"
  shows "keeps R (try_finally m f)"
  unfolding keeps_def
proof
  fix s
  obtain r s' where m: "m s = (r, s')" by fastforce
  have "R s s'" using assms(1) by (simp add: keeps_def) (metis m snd_conv)
  then show "R s (snd (try_finally m f s))" using chain [OF _ assms(2)] by (simp add: try_finally_def m)
qed

lemma keeps_modify: "(\<And>s. R s (f s)) \<Longrightarrow> keeps R (modify f)"
  by (simp add: keeps_def modify_def)

end

text \<open>What is left of the client's stream is a suffix of it.\<close>

definition client_rel :: "chan \<Rightarrow> chan \<Rightarrow> bool" where
  "client_rel s s' \<longleftrightarrow> (\<exists>u. stream (client s) = u @ stream (client s'))"

text \<open>Admission, authorization, the allowance and the visible events are untouched.\<close>

definition core :: "chan \<Rightarrow> string option \<times> Authorization option \<times> Allowance \<times> event list" where
  "core s = (admitted_credential s, authorization s, allowance s, events s)"

definition core_rel :: "chan \<Rightarrow> chan \<Rightarrow> bool" where
  "core_rel s s' \<longleftrightarrow> core s' = core s"

interpretation cl: frame client_rel
  by unfold_locales (auto simp: client_rel_def)

interpretation co: frame core_rel
  by unfold_locales (auto simp: core_rel_def)

lemma client_rel_same: "client s' = client s \<Longrightarrow> client_rel s s'"
  by (simp add: client_rel_def)

text \<open>The basic actions.\<close>

lemma keeps_core_basic: "keeps core_rel tick" "keeps core_rel (from_client f)" "keeps core_rel (send_client d)"
    "keeps core_rel (send_upstream d)" "keeps core_rel (lifetime_expired w)" "keeps core_rel (wait_allowance w x)"
proof -
  show t: "keeps core_rel tick" by (simp add: keeps_def core_rel_def core_def tick_def)
  show "keeps core_rel (from_client f)" "keeps core_rel (send_client d)" "keeps core_rel (send_upstream d)"
    by (auto simp: keeps_def core_rel_def core_def from_client_def send_client_def send_upstream_def split: sum.splits option.splits)
  show "keeps core_rel (lifetime_expired w)" unfolding lifetime_expired_def
    by (intro co.keeps_andThen t co.keeps_pure)
  show "keeps core_rel (wait_allowance w x)" unfolding wait_allowance_def
    by (auto intro!: co.keeps_andThen t co.keeps_pure split: if_splits)
qed

lemma keeps_client_basic: "keeps client_rel tick" "keeps client_rel (send_client d)"
    "keeps client_rel (send_upstream d)" "keeps client_rel (lifetime_expired w)" "keeps client_rel (wait_allowance w x)"
proof -
  show t: "keeps client_rel tick" by (simp add: keeps_def client_rel_same tick_def)
  show "keeps client_rel (send_client d)" "keeps client_rel (send_upstream d)"
    by (auto simp: keeps_def client_rel_same send_client_def send_upstream_def split: option.splits)
  show "keeps client_rel (lifetime_expired w)" unfolding lifetime_expired_def
    by (intro cl.keeps_andThen t cl.keeps_pure)
  show "keeps client_rel (wait_allowance w x)" unfolding wait_allowance_def
    by (auto intro!: cl.keeps_andThen t cl.keeps_pure split: if_splits)
qed

lemma keeps_final_head: "keeps core_rel final_head" "keeps client_rel final_head"
proof -
  have "core_rel s (snd (final_head s)) \<and> client (snd (final_head s)) = client s" for s
  proof (induction s rule: final_head.induct)
    case (1 s)
    show ?case
      by (subst (1 2) final_head.simps)
        (use 1 in \<open>auto simp: core_rel_def core_def Let_def split: sum.splits option.splits prod.splits\<close>)
  qed
  then show "keeps core_rel final_head" "keeps client_rel final_head"
    by (simp_all add: keeps_def client_rel_same)
qed

lemma commit_frame [simp]: "admitted_credential (commit w b s) = admitted_credential s"
    "authorization (commit w b s) = authorization s" "allowance (commit w b s) = allowance s"
    "events (commit w b s) = events s" "client (commit w b s) = client s"
  by (simp_all add: commit_def split: option.splits)

lemma keeps_relay_body: "keeps core_rel (relay_body w a m)" "keeps client_rel (relay_body w a m)"
proof -
  have "core (snd (relay_body w a m s)) = core s \<and> client (snd (relay_body w a m s)) = client s" for s
    by (auto simp: relay_body_def Let_def core_def split: prod.splits option.splits)
  then show "keeps core_rel (relay_body w a m)" "keeps client_rel (relay_body w a m)"
    by (simp_all add: keeps_def core_rel_def client_rel_same)
qed

lemma keeps_respond: "keeps core_rel (respond w m a)" "keeps client_rel (respond w m a)"
proof -
  have e: "(\<lambda>s. andThen (lift (response_body_mode (status s) m hs)) (\<lambda>mode. relay_body w a mode) s) =
      (\<lambda>s. andThen (lift (response_body_mode (status s) m hs)) (relay_body w a) s)" for hs by simp
  have c: "keeps core_rel (\<lambda>s. andThen (lift (response_body_mode (status s) m hs)) (\<lambda>mode. relay_body w a mode) s)"
    "keeps client_rel (\<lambda>s. andThen (lift (response_body_mode (status s) m hs)) (\<lambda>mode. relay_body w a mode) s)" for hs
    using keeps_relay_body [of w a] co.same cl.same
    by (auto simp: keeps_def andThen_def lift_def split: sum.splits)
  show "keeps core_rel (respond w m a)" "keeps client_rel (respond w m a)"
    unfolding respond_def
    by (intro co.keeps_andThen keeps_final_head co.keeps_pure co.keeps_modify c; simp add: core_rel_def core_def)
      (intro cl.keeps_andThen keeps_final_head cl.keeps_pure cl.keeps_modify c; simp add: client_rel_same)
qed

lemma keeps_copy_request: "keeps core_rel (copy_request_body n)" "keeps client_rel (copy_request_body n)"
proof -
  show "keeps core_rel (copy_request_body n)"
    by (auto simp: keeps_def copy_request_body_def core_rel_def core_def Let_def split: prod.splits option.splits)
  have "client_rel s (snd (copy_request_body n s))" for s
  proof -
    obtain e r d seen where c: "copy_exact (client s) (up_out s) (int n) = (e, r, d, seen)" by (metis prod_cases4)
    from copy_exact_stream [OF c] show ?thesis
      by (cases e) (auto simp: copy_request_body_def client_rel_def c)
  qed
  then show "keeps client_rel (copy_request_body n)" by (simp add: keeps_def)
qed

text \<open>The part of an exchange between opening and closing the upstream.\<close>

definition talk :: "world \<Rightarrow> bytes \<Rightarrow> bool \<Rightarrow> bytes \<Rightarrow> nat \<Rightarrow> turn action" where
  "talk w method is_audio head body_length =
     andThen (send_upstream head) (\<lambda>_.
     andThen (copy_request_body body_length) (\<lambda>_.
     andThen (modify (\<lambda>s. s\<lparr>work_started := True\<rparr>)) (\<lambda>_. respond w method is_audio)))"

lemma keeps_talk: "keeps core_rel (talk w m a h n)" "keeps client_rel (talk w m a h n)"
  unfolding talk_def
  by (intro co.keeps_andThen keeps_core_basic keeps_copy_request keeps_respond co.keeps_modify; simp add: core_rel_def core_def)
    (intro cl.keeps_andThen keeps_client_basic keeps_copy_request keeps_respond cl.keeps_modify; simp add: client_rel_same)

text \<open>An exchange touches the core only by one opened and closed upstream, if it gets that far.\<close>

lemma exchange_core:
  assumes "exchange w t m a h n l s = (r, s')"
  shows "client_rel s s' \<and>
    (core s' = core s \<or> core s' = (admitted_credential s, authorization s, allowance s, events s @ [Opened t, Closed_upstream]))"
proof -
  define wait where "wait = (case l of None \<Rightarrow> ret () | Some i \<Rightarrow> wait_allowance w (l_delay (a_leases (allowance s) ! i)))"
  have kw: "keeps core_rel wait" "keeps client_rel wait"
    by (auto simp: wait_def keeps_core_basic keeps_client_basic co.keeps_pure cl.keeps_pure split: option.splits)
  obtain x s1 where w1: "wait s = (x, s1)" by fastforce
  have s1: "core s1 = core s" "client_rel s s1" using keepsD [OF kw(1) w1] keepsD [OF kw(2) w1] unfolding core_rel_def by blast+
  have ex: "exchange w t m a h n l s = andThen wait (\<lambda>_. andThen (open_upstream w t) (\<lambda>_. try_finally (talk w m a h n) close_upstream)) s"
    by (simp add: exchange_def wait_def talk_def)
  show ?thesis
  proof (cases "\<exists>e. x = Inl e \<or> connect w (ticks s1) t = None")
    case True
    then show ?thesis using assms s1 unfolding ex
      by (auto simp: andThen_def w1 open_upstream_def core_def client_rel_def split: sum.splits)
  next
    case False
    then obtain u q d where xu: "x = Inr u" and c: "connect w (ticks s1) t = Some (q, d)" by (cases x) auto
    define s2 where "s2 = s1\<lparr>ticks := Suc (ticks s1), up_in := q, up_out := d, events := events s1 @ [Opened t]\<rparr>"
    obtain y s3 where t: "talk w m a h n s2 = (y, s3)" by fastforce
    have "core s3 = core s2" "client_rel s2 s3"
      using keepsD [OF keeps_talk(1) t] keepsD [OF keeps_talk(2) t] unfolding core_rel_def by blast+
    moreover have "s' = close_upstream s3" using assms unfolding ex
      by (simp add: andThen_def w1 xu open_upstream_def c s2_def [symmetric] try_finally_def t)
    ultimately show ?thesis using s1
      by (auto simp: core_def close_upstream_def s2_def client_rel_def)
  qed
qed

lemma andThen_Inr: "m s = (Inr x, s') \<Longrightarrow> andThen m f s = f x s'"
  by (simp add: andThen_def)

lemma lifetime_expired_eval:
  "lifetime_expired w s = (Inr (\<not> (monotonic w (ticks s) - channel_started w < channel_lifetime w)), s\<lparr>ticks := Suc (ticks s)\<rparr>)"
  by (simp add: lifetime_expired_def andThen_def tick_def ret_def)

section \<open>One turn of the loop\<close>

text \<open>The trace of a channel between requests, and at its end.\<close>

definition visits :: "target list \<Rightarrow> event list" where
  "visits ts = concat (map (\<lambda>t. [Opened t, Closed_upstream]) ts)"

definition between_requests :: "chan \<Rightarrow> bool" where
  "between_requests s \<longleftrightarrow>
     admitted_credential s = None \<and> authorization s = None \<and> events s = [] \<or>
     (\<exists>c a ts. admitted_credential s = Some c \<and> authorization s = Some a \<and>
        events s = Asked_portal c (Authorized a) # visits ts)"

definition trace_ok :: "event list \<Rightarrow> bool" where
  "trace_ok es \<longleftrightarrow> es = [] \<or> (\<exists>c r. es = [Asked_portal c r]) \<or>
     (\<exists>c a ts. es = Asked_portal c (Authorized a) # visits ts)"

lemma between_trace: "between_requests s \<Longrightarrow> trace_ok (events s)"
  by (auto simp: between_requests_def trace_ok_def)

lemma visits_snoc: "visits ts @ [Opened t, Closed_upstream] = visits (ts @ [t])"
  by (simp add: visits_def)

lemma between_core: "core s' = core s \<Longrightarrow> between_requests s' = between_requests s"
  by (simp add: core_def between_requests_def)

text \<open>
  The leases: what an action adds to the list is finished when it returns, and the allowance keeps
  its invariant.
\<close>

definition settled :: "Allowance \<Rightarrow> Allowance \<Rightarrow> bool" where
  "settled a a' \<longleftrightarrow> (allowance_inv a \<longrightarrow> allowance_inv a' \<and>
     (\<exists>ls. a_leases a' = a_leases a @ ls \<and> (\<forall>l \<in> set ls. l_finished l)))"

lemma settled_refl [simp]: "settled a a"
  by (simp add: settled_def)

lemma settled_trans: "settled a b \<Longrightarrow> settled b c \<Longrightarrow> settled a c"
  by (auto simp: settled_def)

lemma settled_begin_finish:
  assumes "begin_lease a auth now mnow = (a', out)"
  shows "out = Inl OccupancyExceeded \<Longrightarrow> settled a a'"
    and "out = Inr l \<Longrightarrow> settled a (finish_lease a' l units worked now' mnow')"
proof -
  have sd: "a_leases (fst (setdefault k b)) = a_leases b" for k b
    by (simp add: setdefault_def split: option.splits)
  have leases: "out = Inl OccupancyExceeded \<Longrightarrow> a_leases a' = a_leases a"
    "out = Inr None \<Longrightarrow> a' = a"
    "out = Inr (Some i) \<Longrightarrow> \<exists>l. a_leases a' = a_leases a @ [l] \<and> i = length (a_leases a) \<and> \<not> l_finished l" for i
    using assms sd [of "hmac_sha256 (a_key a) (journal auth)" "expire_locked now a"]
    by (auto simp: begin_lease_def Let_def split: option.splits prod.splits if_splits)
  note B = begin_correct [OF _ assms]
  show "out = Inl OccupancyExceeded \<Longrightarrow> settled a a'" using leases B by (simp add: settled_def)
  assume out: "out = Inr l"
  show "settled a (finish_lease a' l units worked now' mnow')"
  proof (cases l)
    case None
    then show ?thesis using leases(2) out by (simp add: finish_lease_def)
  next
    case (Some i)
    then obtain x where x: "a_leases a' = a_leases a @ [x]" "i = length (a_leases a)" "\<not> l_finished x"
      using leases(3) out by blast
    have "a_leases (finish_lease a' l units worked now' mnow') = a_leases a @ [x\<lparr>l_finished := True\<rparr>]"
      using x by (simp add: finish_lease_def Let_def Some)
    then show ?thesis using finish_correct [OF _ _ _ refl, of a' i] B x Some by (auto simp: settled_def)
  qed
qed

lemma serve_turn:
  assumes "serve w t m a h n close s = (r, s')" and "authorization s = Some auth"
  shows "client_rel s s' \<and> settled (allowance s) (allowance s') \<and>
    admitted_credential s' = admitted_credential s \<and> authorization s' = authorization s \<and>
    (events s' = events s \<or> events s' = events s @ [Opened t, Closed_upstream])"
proof -
  obtain al lease where b: "begin_lease (allowance s) auth (wall w (ticks s)) (monotonic w (ticks s)) = (al, lease)"
    by fastforce
  define s1 where "s1 = s\<lparr>ticks := Suc (ticks s), allowance := al\<rparr>"
  show ?thesis
  proof (cases lease)
    case (Inl e)
    then have "serve w t m a h n close s = andThen (send_client occupancy_error) (\<lambda>_. ret Stop) s1"
      by (cases e) (simp add: serve_def assms(2) b s1_def)
    moreover have "keeps core_rel (andThen (send_client occupancy_error) (\<lambda>_. ret Stop))"
      "keeps client_rel (andThen (send_client occupancy_error) (\<lambda>_. ret Stop))"
      by (intro co.keeps_andThen keeps_core_basic co.keeps_pure cl.keeps_andThen keeps_client_basic cl.keeps_pure)+
    ultimately have "core s' = core s1" "client_rel s1 s'"
      using assms(1) keepsD [of core_rel _ s1 r s'] keepsD [of client_rel _ s1 r s'] unfolding core_rel_def by simp_all
    then show ?thesis using settled_begin_finish(1) [OF b] Inl
      by (cases e) (auto simp: core_def s1_def client_rel_def)
  next
    case (Inr l)
    define s2 where "s2 = s1\<lparr>work_started := False, completed := False, status := 0, duration_ms := 330000, walker := None\<rparr>"
    obtain y s3 where e: "exchange w t m a h n l s2 = (y, s3)" by fastforce
    have "s' = settle w a l s3"
      using assms(1) Inr by (simp add: serve_def assms(2) b s1_def [symmetric] s2_def [symmetric] andThen_def try_finally_def e ret_def
          split: sum.splits)
    then show ?thesis
      using exchange_core [OF e] settled_begin_finish(2) [OF b Inr, of "charge a l s3" "work_started s3"]
      by (auto simp: settle_def core_def s2_def s1_def client_rel_def)
  qed
qed

lemma drain_exact_stream: "drain_exact r n = Inr (b, r') \<Longrightarrow> \<exists>u. stream r = u @ stream r'"
proof (induction r n arbitrary: b r' rule: drain_exact.induct)
  case (1 r n)
  show ?case
  proof (cases "n = 0")
    case True
    then show ?thesis using "1.prems" by (simp add: drain_exact.simps [of r 0])
  next
    case n: False
    with "1.prems" obtain c q where c: "read_available (min (int RELAY_CHUNK_BYTES) n) r = Inr (c, q)"
      by (auto simp: drain_exact.simps [of r n] split: sum.splits)
    note S = read_available_stream(1) [OF c]
    show ?thesis
    proof (cases "c = []")
      case True
      then show ?thesis using "1.prems" n c S by (auto simp: drain_exact.simps [of r n])
    next
      case False
      then have "drain_exact q (n - int (length c)) = Inr (b, r')" using "1.prems" n c by (simp add: drain_exact.simps [of r n])
      from "1.IH" [OF n c refl False this] S show ?thesis by auto
    qed
  qed
qed

lemma keeps_drain: "keeps client_rel (from_client (\<lambda>r. drain_exact r n))"
  by (auto simp: keeps_def from_client_def client_rel_def split: sum.splits dest: drain_exact_stream)

lemma keeps_refuse: "keeps core_rel (refuse f n c)" "keeps client_rel (refuse f n c)"
  unfolding refuse_def
  by (auto intro!: co.keeps_andThen keeps_core_basic co.keeps_pure split: if_splits)
    (auto intro!: cl.keeps_andThen keeps_client_basic cl.keeps_pure keeps_drain split: if_splits)

lemma handle_turn:
  assumes h: "handle_request w lines m p hs s = (r, s')" and inv: "between_requests s" and adm: "authorization s = Some auth"
  shows "client_rel s s' \<and> settled (allowance s) (allowance s') \<and> between_requests s'"
proof (cases "request_body_length hs")
  case (Inl e)
  then show ?thesis using h inv by (auto simp: handle_request_def andThen_def lift_def client_rel_def)
next
  case (Inr n)
  define close where "close = (''close'' \<in> set (map lower (header_values ''connection'' hs)))"
  show ?thesis
  proof (cases "route_of w m p n")
    case (Refuse f)
    then have "refuse f n close s = (r, s')"
      using h Inr by (simp add: handle_request_def andThen_def lift_def close_def)
    then have c: "core s' = core s" "client_rel s s'"
      using keepsD [OF keeps_refuse(1)] keepsD [OF keeps_refuse(2)] unfolding core_rel_def by blast+
    have "allowance s' = allowance s" using c(1) by (simp add: core_def)
    then show ?thesis using inv c(2) between_core [OF c(1)] by simp
  next
    case (Serve t a)
    then have "serve w t m a (canonical_request_head lines (device_id s)) n close s = (r, s')"
      using h Inr by (simp add: handle_request_def andThen_def lift_def close_def)
    note S = serve_turn [OF this adm]
    from inv adm obtain c ts where "admitted_credential s = Some c" "events s = Asked_portal c (Authorized auth) # visits ts"
      by (auto simp: between_requests_def)
    with S adm have "between_requests s'"
      by (auto simp: between_requests_def visits_snoc)
    with S show ?thesis by simp
  qed
qed

lemma admit_turn:
  assumes a: "admit w hs s = (r, s')" and inv: "between_requests s"
  shows "client s' = client s \<and> allowance s' = allowance s \<and>
    (\<exists>x. r = Inr x \<and> trace_ok (events s') \<and> (x = Admitted \<longrightarrow> between_requests s' \<and> (\<exists>auth. authorization s' = Some auth)))"
proof (cases "bearer_credential hs")
  case None
  then show ?thesis using a inv between_trace by (auto simp: admit_def)
next
  case (Some cred)
  show ?thesis
  proof (cases "admitted_credential s")
    case None
    then have "events s = []" using inv by (auto simp: between_requests_def)
    then show ?thesis using a Some None
      by (auto simp: admit_def Let_def trace_ok_def between_requests_def visits_def split: authorize_result.splits)
  next
    case (Some c)
    then have "\<exists>auth. authorization s = Some auth" using inv by (auto simp: between_requests_def)
    then show ?thesis using a \<open>bearer_credential hs = Some cred\<close> Some inv between_trace
      by (auto simp: admit_def split: if_splits)
  qed
qed

text \<open>A relation for the rest of a turn, from the admitted or refused head on.\<close>

definition turn_ok :: "chan \<Rightarrow> (relay_exn + turn) \<times> chan \<Rightarrow> bool" where
  "turn_ok s out = (case out of (r, s') \<Rightarrow>
     client_rel s s' \<and> settled (allowance s) (allowance s') \<and> trace_ok (events s') \<and>
     (r = Inr Continue \<longrightarrow> between_requests s'))"

lemma turn_ok_unchanged: "core s' = core s \<Longrightarrow> client_rel s s' \<Longrightarrow> trace_ok (events s) \<Longrightarrow> r \<noteq> Inr Continue \<Longrightarrow> turn_ok s (r, s')"
  by (auto simp: turn_ok_def core_def)

lemma relay_head_turn:
  assumes inv: "between_requests s"
  shows "turn_ok s (relay_head w h s)"
proof -
  define lines where "lines = split_on CRLF (take (length h - 4) h)"
  define parts where "parts = split_on '' '' (hd lines)"
  show ?thesis
  proof (cases "length parts \<noteq> 3 \<or> parts ! 2 \<noteq> ''HTTP/1.1'' \<or> \<not> starts_with ''/'' (parts ! 1)
      \<or> (\<exists>e. parse_relay_headers (tl lines) [] = Inl e)")
    case True
    then have "\<exists>e. relay_head w h s = (Inl e, s)"
      by (auto simp: relay_head_def Let_def lines_def [symmetric] parts_def [symmetric] raise_def andThen_def lift_def)
    then show ?thesis using between_trace [OF inv] by (auto simp: turn_ok_def client_rel_def)
  next
    case False
    then obtain hs where hs: "parse_relay_headers (tl lines) [] = Inr hs" by (cases "parse_relay_headers (tl lines) []") auto
    obtain x s1 where a: "admit w hs s = (x, s1)" by fastforce
    from admit_turn [OF a inv] obtain y where A: "client s1 = client s" "allowance s1 = allowance s" "x = Inr y" "trace_ok (events s1)"
      "y = Admitted \<Longrightarrow> between_requests s1 \<and> (\<exists>auth. authorization s1 = Some auth)" by blast
    have rh: "relay_head w h s = (case y of
        Refused code \<Rightarrow> andThen (send_client (entitlement_error code)) (\<lambda>_. ret Stop) s1
      | Admitted \<Rightarrow> handle_request w lines (parts ! 0) (parts ! 1) hs s1)"
      using False hs a A(3)
      by (simp add: relay_head_def Let_def lines_def [symmetric] parts_def [symmetric] andThen_def lift_def split: admission.splits)
    show ?thesis
    proof (cases y)
      case Admitted
      obtain r s2 where h: "handle_request w lines (parts ! 0) (parts ! 1) hs s1 = (r, s2)" by fastforce
      with A(5) Admitted have "client_rel s1 s2 \<and> settled (allowance s1) (allowance s2) \<and> between_requests s2"
        using handle_turn by blast
      then show ?thesis using rh Admitted h A(1,2) between_trace by (auto simp: turn_ok_def client_rel_def)
    next
      case (Refused code)
      then show ?thesis using rh A(1,2,4)
        by (auto simp: turn_ok_def client_rel_def andThen_def send_client_def ret_def split: option.splits)
    qed
  qed
qed

lemma turn_ok_chain: "core s1 = core s \<Longrightarrow> client_rel s s1 \<Longrightarrow> turn_ok s1 out \<Longrightarrow> turn_ok s out"
  by (auto simp: turn_ok_def core_def client_rel_def)

lemma relay_turn_ok:
  assumes inv: "between_requests s" and t: "relay_turn w s = (r, s')"
  shows "turn_ok s (r, s')" and "r = Inr Continue \<Longrightarrow> bytes_left (client s') < bytes_left (client s)"
proof -
  define s1 where "s1 = s\<lparr>ticks := Suc (ticks s)\<rparr>"
  have s1: "core s1 = core s" "client s1 = client s" by (simp_all add: s1_def core_def)
  have stay: "turn_ok s (q, s2)" if "core s2 = core s" "client_rel s s2" "q \<noteq> Inr Continue" for q s2
    using turn_ok_unchanged [OF that(1,2) between_trace [OF inv] that(3)] .
  have "turn_ok s (r, s') \<and> (r = Inr Continue \<longrightarrow> bytes_left (client s') < bytes_left (client s))"
  proof (cases "monotonic w (ticks s) - channel_started w < channel_lifetime w")
    case False
    then have "r = Inr Stop" "s' = s1"
      using t by (auto simp: relay_turn_def andThen_Inr [OF lifetime_expired_eval] ret_def s1_def)
    then show ?thesis using stay [of s1] s1 by (simp add: client_rel_def)
  next
    case alive: True
    then have t1: "(r, s') = andThen (from_client read_head) (\<lambda>head. case head of None \<Rightarrow> ret Stop
        | Some h \<Rightarrow> andThen (lifetime_expired w) (\<lambda>expired. if expired then ret Stop else relay_head w h)) s1"
      using t by (simp add: relay_turn_def andThen_Inr [OF lifetime_expired_eval] s1_def)
    show ?thesis
    proof (cases "read_head (client s1)")
      case (Inl e)
      then show ?thesis using t1 stay [of s1] s1 by (auto simp: andThen_def from_client_def client_rel_def)
    next
      case (Inr p)
      obtain ho q where p: "p = (ho, q)" by fastforce
      define s2 where "s2 = s1\<lparr>client := q\<rparr>"
      define s3 where "s3 = s2\<lparr>ticks := Suc (ticks s2)\<rparr>"
      show ?thesis
      proof (cases ho)
        case None
        then have "r = Inr Stop" "s' = s2" using t1 Inr p by (auto simp: andThen_def from_client_def ret_def s2_def)
        moreover have "\<exists>u. stream (client s1) = u @ stream q"
          using Inr p None by (cases "fill CRLF2 MAX_RELAY_HEAD_BYTES (client s1)")
            (auto simp: read_head_def dest!: fill_stream split: fill_result.splits if_splits prod.splits)
        ultimately show ?thesis using stay [of s2] s1 by (auto simp: s2_def core_def client_rel_def)
      next
        case (Some h)
        have hd: "read_head (client s) = Inr (Some h, q)" using Inr p Some s1 by simp
        have cl: "client_rel s s3" "bytes_left (client s3) < bytes_left (client s)" "core s3 = core s"
          using read_head_suffix [OF hd] read_head_left [OF hd] s1
          by (auto simp: client_rel_def s3_def s2_def core_def)
        have t2: "(r, s') = (if monotonic w (ticks s2) - channel_started w < channel_lifetime w then relay_head w h s3 else (Inr Stop, s3))"
          using t1 Inr p Some
          by (simp add: andThen_Inr [OF lifetime_expired_eval] andThen_def [of "from_client read_head"] from_client_def ret_def
              s3_def s2_def)
        show ?thesis
        proof (cases "monotonic w (ticks s2) - channel_started w < channel_lifetime w")
          case True
          have "between_requests s3" using inv between_core [OF cl(3)] by simp
          from relay_head_turn [OF this, of w h] t2 True have ok: "turn_ok s3 (r, s')" by simp
          then have "bytes_left (client s') \<le> bytes_left (client s3)" by (auto simp: turn_ok_def client_rel_def bytes_left_def)
          with turn_ok_chain [OF cl(3,1) ok] cl(2) show ?thesis by simp
        next
          case False
          then show ?thesis using t2 stay [of s3] cl by simp
        qed
      qed
    qed
  qed
  then show "turn_ok s (r, s')" "r = Inr Continue \<Longrightarrow> bytes_left (client s') < bytes_left (client s)" by simp_all
qed

section \<open>The loop\<close>

text \<open>
  A channel state is valid at the top of the loop; the loop is defined on all states and stays
  on valid ones. It ends because every continued turn has consumed a head.
\<close>

function relay_loop :: "world \<Rightarrow> chan \<Rightarrow> relay_exn option \<times> chan" where
  "relay_loop w s =
     (case relay_turn w s of
        (Inl e, s') \<Rightarrow> (Some e, s')
      | (Inr Stop, s') \<Rightarrow> (None, s')
      | (Inr Continue, s') \<Rightarrow> relay_loop w s')"
  by pat_completeness auto

lemma keeps_admit: "keeps client_rel (admit w hs)"
  by (auto simp: keeps_def client_rel_same admit_def Let_def split: option.splits authorize_result.splits)

lemma keeps_serve: "keeps client_rel (serve w t m a h n c)"
proof -
  have "client_rel s (snd (serve w t m a h n c s))" for s
  proof (cases "authorization s")
    case None
    then show ?thesis by (simp add: serve_def client_rel_same)
  next
    case (Some auth)
    then show ?thesis using serve_turn [of w t m a h n c s] by (metis prod.collapse)
  qed
  then show ?thesis by (simp add: keeps_def)
qed

lemma keeps_relay_head: "keeps client_rel (relay_head w h)"
proof -
  have hr: "keeps client_rel (handle_request w lines m p hs)" for lines m p hs
  proof -
    have "keeps client_rel (case route_of w m p n of Refuse f \<Rightarrow> refuse f n c | Serve t a \<Rightarrow> serve w t m a head n c)" for head n c
      by (auto simp: keeps_refuse keeps_serve split: route.splits)
    then have "keeps client_rel (andThen (lift (request_body_length hs)) (\<lambda>n.
        let c = (''close'' \<in> set (map lower (header_values ''connection'' hs)))
        in (case route_of w m p n of Refuse f \<Rightarrow> refuse f n c | Serve t a \<Rightarrow> serve w t m a head n c)))" for head
      unfolding Let_def by (intro cl.keeps_andThen cl.keeps_pure)
    then show ?thesis by (simp add: handle_request_def keeps_def Let_def)
  qed
  have adm: "keeps client_rel (case a of Refused code \<Rightarrow> andThen (send_client (entitlement_error code)) (\<lambda>_. ret Stop)
      | Admitted \<Rightarrow> handle_request w lines m p hs)" for a lines m p hs
    by (auto simp: hr intro!: cl.keeps_andThen keeps_client_basic cl.keeps_pure split: admission.splits)
  show ?thesis unfolding relay_head_def Let_def
    by (simp add: cl.keeps_pure) (intro impI cl.keeps_andThen cl.keeps_pure keeps_admit adm)
qed

lemma relay_turn_progress: "relay_turn w s = (Inr Continue, s') \<Longrightarrow> bytes_left (client s') < bytes_left (client s)"
proof -
  assume t: "relay_turn w s = (Inr Continue, s')"
  then obtain h q where hd: "read_head (client s) = Inr (Some h, q)"
    and rh: "relay_head w h (s\<lparr>client := q, ticks := Suc (Suc (ticks s))\<rparr>) = (Inr Continue, s')"
    by (auto simp: relay_turn_def andThen_Inr [OF lifetime_expired_eval] andThen_def [of "from_client read_head"] from_client_def
        ret_def split: if_splits sum.splits option.splits prod.splits)
  from keepsD [OF keeps_relay_head rh] have "bytes_left (client s') \<le> bytes_left q"
    by (auto simp: client_rel_def bytes_left_def)
  then show ?thesis using read_head_left [OF hd] by simp
qed

termination relay_loop
  by (relation "measure (\<lambda>(w, s). bytes_left (client s))") (auto dest: relay_turn_progress [OF sym])

declare relay_loop.simps [simp del]

definition idle_reader :: reader where
  "idle_reader = reader_of [] Closed"

definition idle_sink :: sink where
  "idle_sink = \<lparr>sent = [], sends_left = None, send_error = OsError\<rparr>"

text \<open>\<open>_http_relay\<close> on a freshly admitted channel.\<close>

definition http_relay :: "world \<Rightarrow> reader \<Rightarrow> sink \<Rightarrow> ChatTally \<Rightarrow> Allowance \<Rightarrow> relay_exn option \<times> chan" where
  "http_relay w client_in out t a = relay_loop w
     \<lparr>ticks = 0, client = client_in, client_out = out, admitted_credential = None, device_id = [], authorization = None,
      allowance = a, tally = t, up_in = idle_reader, up_out = idle_sink, events = [], work_started = False,
      completed = False, status = 0, duration_ms = 330000, walker = None\<rparr>"

lemma relay_loop_ok:
  "between_requests s \<Longrightarrow> relay_loop w s = (e, s') \<Longrightarrow> trace_ok (events s') \<and> settled (allowance s) (allowance s')"
proof (induction w s arbitrary: e s' rule: relay_loop.induct)
  case (1 w s)
  obtain r s1 where t: "relay_turn w s = (r, s1)" by fastforce
  note T = relay_turn_ok(1) [OF "1.prems"(1) t]
  show ?case
  proof (cases "r = Inr Continue")
    case True
    then have "relay_loop w s1 = (e, s')" using "1.prems"(2) t by (simp add: relay_loop.simps [of w s])
    moreover have "between_requests s1" "settled (allowance s) (allowance s1)" using T True by (auto simp: turn_ok_def)
    ultimately show ?thesis using "1.IH" [OF t [symmetric] True refl] settled_trans by blast
  next
    case False
    then have "s' = s1" using "1.prems"(2) t
      by (cases r) (auto simp: relay_loop.simps [of w s] split: turn.splits)
    then show ?thesis using T by (auto simp: turn_ok_def)
  qed
qed

text \<open>
  C4. No upstream byte before an entitlement: whatever the client sends, however the portal and the
  upstreams behave, and however the channel ends, the portal is asked at most once, and an
  upstream is opened only after it answered with an authorization; each upstream that is opened is
  closed again before anything else is opened.
\<close>

theorem relay_authorizes_first: "trace_ok (events (snd (http_relay w client_in out t a)))"
proof -
  obtain e s' where r: "http_relay w client_in out t a = (e, s')" by fastforce
  show ?thesis using relay_loop_ok [OF _ r [unfolded http_relay_def]] by (simp add: r between_requests_def)
qed

text \<open>
  C23. No slot leaks: on every way out of the channel (end of stream, refusal, protocol error, lost
  client, failed or broken upstream) every lease the channel took is finished, the leases of other
  channels are as they were, and the allowance keeps its invariant.
\<close>

theorem relay_finishes_leases:
  assumes "allowance_inv a"
  shows "allowance_inv (allowance (snd (http_relay w client_in out t a))) \<and>
    (\<exists>ls. a_leases (allowance (snd (http_relay w client_in out t a))) = a_leases a @ ls \<and> (\<forall>l \<in> set ls. l_finished l))"
proof -
  obtain e s' where r: "http_relay w client_in out t a = (e, s')" by fastforce
  show ?thesis using relay_loop_ok [OF _ r [unfolded http_relay_def]] assms by (simp add: r between_requests_def settled_def)
qed

text \<open>A world in which nothing answers, a fresh tally, and a client that sends one request and leaves.\<close>

definition quiet_world :: world where
  "quiet_world = \<lparr>audio_configured = False, channel_lifetime = 1800, channel_started = 0, monotonic = (\<lambda>i. of_nat i),
     wall = (\<lambda>i. of_nat i), urandom = (\<lambda>_. []), portal = (\<lambda>_ _. Portal_http_error 401), connect = (\<lambda>_ _. None),
     hangup = (\<lambda>_. False)\<rparr>"

definition one_request :: reader where
  "one_request = reader_of [''GET / HTTP/1.1'' @ CRLF2] Closed"

theorem relay_finishes_leases_witness:
  "allowance_inv (new_allowance 0 []) \<and>
   allowance_inv (allowance (snd (http_relay quiet_world one_request idle_sink (new_tally [] 0 [] []) (new_allowance 0 [])))) \<and>
   (\<exists>ls. a_leases (allowance (snd (http_relay quiet_world one_request idle_sink (new_tally [] 0 [] []) (new_allowance 0 [])))) = ls
      \<and> (\<forall>l \<in> set ls. l_finished l))"
  using relay_finishes_leases [OF allowance_inv_new, of quiet_world one_request idle_sink "new_tally [] 0 [] []" 0 "[]"] allowance_inv_new
  by (auto simp: new_allowance_def)

text \<open>
  A client lost in mid-response is not accounted for: the TLS library reports it with an exception
  that the relay's accounting branch does not catch, so the tally has neither a charge nor an
  incomplete response for it.
\<close>

theorem client_loss_uncounted:
  assumes "copy_body mode (up_in s) (client_out s) = (Some SslError, r, d, seen)"
  shows "relay_body w False mode s = (Inl SslError, s\<lparr>walker := Some (feed new_walker seen), up_in := r, client_out := d\<rparr>) \<and>
    tally (snd (relay_body w False mode s)) = tally s"
  using assms by (simp add: relay_body_def caught_def)

definition lost_client :: chan where
  "lost_client = \<lparr>ticks = 0, client = idle_reader, client_out = \<lparr>sent = [], sends_left = Some 0, send_error = SslError\<rparr>,
     admitted_credential = None, device_id = [], authorization = None, allowance = new_allowance 0 [], tally = new_tally [] 0 [] [],
     up_in = reader_of [''{}''] Closed, up_out = idle_sink, events = [], work_started = True, completed = False, status = 200,
     duration_ms = 330000, walker = None\<rparr>"

theorem client_loss_uncounted_witness:
  "copy_body (Length 2) (up_in lost_client) (client_out lost_client) = (Some SslError, idle_reader, client_out lost_client, []) \<and>
   tally (snd (relay_body quiet_world False (Length 2) lost_client)) = new_tally [] 0 [] []"
proof -
  have "copy_body (Length 2) (up_in lost_client) (client_out lost_client) = (Some SslError, idle_reader, client_out lost_client, [])"
    by (simp add: copy_body_def lost_client_def copy_exact.simps read_available_def reader_of_def recv_def py_take_def py_drop_def
        RELAY_CHUNK_BYTES_def sendall_def idle_reader_def)
  with client_loss_uncounted [OF this, of quiet_world] show ?thesis by (simp add: lost_client_def)
qed

end
