(* ===== verification/Struct_Pack.thy ===== *)
theory Struct_Pack
  imports Prelude
begin

text \<open>
  Fixed binary layouts in the manner of Python's \<open>struct\<close> module (big-endian codes): a layout is
  the list of its field widths, \<open>unpack\<close> cuts a byte string accordingly, and packing is
  concatenation of the encoded fields. Also the checked integer and byte-string arguments of the
  wire codec, and integer enumerations.
\<close>

named_theorems wire_simps

section \<open>Layouts\<close>

fun unpack :: "nat list \<Rightarrow> bytes \<Rightarrow> bytes list" where
  "unpack [] xs = []"
| "unpack (w # ws) xs = take w xs # unpack ws (drop w xs)"

lemma unpack_append [wire_simps]: "length a = w \<Longrightarrow> unpack (w # ws) (a @ xs) = a # unpack ws xs"
  by simp

lemma unpack_last [wire_simps]: "length a = w \<Longrightarrow> unpack [w] a = [a]"
  by simp

lemma unpack_concat: "map length fs = ws \<Longrightarrow> unpack ws (concat fs) = fs"
  by (induction fs arbitrary: ws) auto

lemma concat_unpack: "length xs = sum_list ws \<Longrightarrow> concat (unpack ws xs) = xs"
  by (induction ws arbitrary: xs) simp_all

lemma length_unpack [simp]: "length (unpack ws xs) = length ws"
  by (induction ws arbitrary: xs) simp_all

lemma unpack_widths: "sum_list ws \<le> length xs \<Longrightarrow> map length (unpack ws xs) = ws"
  by (induction ws arbitrary: xs) simp_all

text \<open>A byte string of the length of a layout is the concatenation of fields of its widths.\<close>

lemma layout_fields: "length (xs :: bytes) = sum_list ws \<Longrightarrow> \<exists>fs. map length fs = ws \<and> xs = concat fs"
  using unpack_widths [of ws xs] concat_unpack [of xs ws] by (intro exI [of _ "unpack ws xs"]) simp

section \<open>Integer fields\<close>

abbreviation zeros :: "nat \<Rightarrow> bytes" where
  "zeros n \<equiv> replicate n (CHR 0x00)"

abbreviation be_int :: "bytes \<Rightarrow> int" where
  "be_int bs \<equiv> int (be_nat bs)"

lemma to_be_be_int [wire_simps]: "length bs = k \<Longrightarrow> to_be k (nat (be_int bs)) = bs"
  by simp

lemma to_be_eqI [wire_simps]: "length bs = k \<Longrightarrow> be_nat bs = v \<Longrightarrow> to_be k v = bs"
  by auto

lemma be_int_range: "0 \<le> be_int bs \<and> be_int bs < 2 ^ (8 * length bs)"
proof -
  have "be_nat bs < 2 ^ (8 * length bs)"
    using be_nat_less [of bs] by (simp add: power_mult)
  then show ?thesis by simp
qed

section \<open>Checked arguments\<close>

type_synonym 'a checked = "string + 'a"

definition uint :: "int \<Rightarrow> nat \<Rightarrow> string \<Rightarrow> nat checked" where
  "uint v bits label = (if 0 \<le> v \<and> v < 2 ^ bits then Inr (nat v) else Inl (label @ '' is invalid''))"

definition exact_bytes :: "bytes \<Rightarrow> nat \<Rightarrow> string \<Rightarrow> bytes checked" where
  "exact_bytes v n label = (if length v \<noteq> n then Inl (label @ '' is invalid'') else Inr v)"

definition nonzero_bytes :: "bytes \<Rightarrow> nat \<Rightarrow> string \<Rightarrow> bytes checked" where
  "nonzero_bytes v n label = bindE (exact_bytes v n label) (\<lambda>r.
     if r = replicate n (CHR 0x00) then Inl (label @ '' must be nonzero'') else Inr r)"

lemma uint_Inr [wire_simps]: "uint v bits label = Inr n \<longleftrightarrow> 0 \<le> v \<and> v < 2 ^ bits \<and> n = nat v"
  by (auto simp: uint_def)

lemma exact_bytes_Inr [wire_simps]: "exact_bytes v n label = Inr r \<longleftrightarrow> length v = n \<and> r = v"
  by (auto simp: exact_bytes_def)

lemma nonzero_bytes_Inr [wire_simps]:
  "nonzero_bytes v n label = Inr r \<longleftrightarrow> length v = n \<and> v \<noteq> replicate n (CHR 0x00) \<and> r = v"
  by (auto simp: nonzero_bytes_def exact_bytes_def)

lemma be_int_to_be_8 [wire_simps]: "0 \<le> v \<Longrightarrow> v < 2 ^ 64 \<Longrightarrow> be_int (to_be 8 (nat v)) = v"
  and be_int_to_be_4 [wire_simps]: "0 \<le> v \<Longrightarrow> v < 2 ^ 32 \<Longrightarrow> be_int (to_be 4 (nat v)) = v"
  and be_int_to_be_2 [wire_simps]: "0 \<le> v \<Longrightarrow> v < 2 ^ 16 \<Longrightarrow> be_int (to_be 2 (nat v)) = v"
  by (simp_all add: nat_less_iff)

definition decode_with :: "('p \<Rightarrow> bytes checked) \<Rightarrow> 'p \<Rightarrow> 'p checked" where
  "decode_with encoder payload = bindE (encoder payload) (\<lambda>_. Inr payload)"

lemma decode_with_Inr: "decode_with encoder p = Inr q \<longleftrightarrow> q = p \<and> (\<exists>w. encoder p = Inr w)"
  by (cases "encoder p") (auto simp: decode_with_def)

lemma decode_with_ok: "encoder p = Inr w \<Longrightarrow> decode_with encoder p = Inr p"
  by (simp add: decode_with_def)

text \<open>What a successful encoder or decoder establishes, field by field.\<close>

lemma Inr_bindE: "Inr y = bindE r f \<longleftrightarrow> (\<exists>x. r = Inr x \<and> f x = Inr y)"
  by (cases r) auto

lemmas decoding = Let_def res_simps Inr_bindE decode_with_Inr map_eq_Cons_conv

text \<open>A decoder of a fixed layout is strict when it inverts the encoder on field lists.\<close>

lemma layout_codecI:
  assumes "\<And>p w. enc p = Inr w \<Longrightarrow> dec w = Inr p"
    and "\<And>w p. dec w = Inr p \<Longrightarrow> length w = sum_list ws"
    and "\<And>fs p. map length fs = ws \<Longrightarrow> dec (concat fs) = Inr p \<Longrightarrow> enc p = Inr (concat fs)"
  shows "codec enc dec (\<lambda>_. True)"
proof
  show "enc p = Inr w" if "dec w = Inr p" for w p
    using layout_fields [OF assms(2) [OF that]] assms(3) that by blast
qed (rule assms(1))

declare unpack.simps [simp del]

section \<open>Integer enumerations\<close>

text \<open>
  \<open>_enum(enum_type, value, label)\<close>: an \<open>IntEnum\<close> is the value of each member and the list of
  members.
\<close>

definition enum :: "('e \<Rightarrow> nat) \<Rightarrow> 'e list \<Rightarrow> int \<Rightarrow> string \<Rightarrow> 'e checked" where
  "enum val members v label = bindE (uint v 16 label) (\<lambda>n.
     case find (\<lambda>e. val e = n) members of
       Some e \<Rightarrow> Inr e
     | None \<Rightarrow> Inl (label @ '' is invalid''))"

locale int_enum =
  fixes val :: "'e \<Rightarrow> nat"
    and members :: "'e list"
  assumes all_members: "e \<in> set members"
    and values_distinct: "val e = val e' \<Longrightarrow> e = e'"
    and values_byte: "val e < 256"
begin

lemma find_value: "find (\<lambda>e'. val e' = val e) members = Some e"
proof (cases "find (\<lambda>e'. val e' = val e) members")
  case None
  then show ?thesis using all_members [of e] by (auto simp: find_None_iff)
next
  case (Some e')
  then have "val e' = val e" by (auto simp: find_Some_iff)
  with Some values_distinct show ?thesis by blast
qed

lemma enum_iff: "enum val members v label = Inr e \<longleftrightarrow> v = int (val e)"
proof
  assume "enum val members v label = Inr e"
  then show "v = int (val e)"
    by (auto simp: enum_def uint_Inr bindE_InrE find_Some_iff split: option.splits)
next
  assume "v = int (val e)"
  then show "enum val members v label = Inr e"
    using values_byte [of e] find_value [of e] by (simp add: enum_def uint_def)
qed

lemma be_value1: "be_nat (to_be (Suc 0) (val e)) = val e"
  using values_byte [of e] by simp

lemma be_value2: "be_nat (to_be 2 (val e)) = val e"
  using values_byte [of e] by simp

lemma value_injective: "val e = val e' \<longleftrightarrow> e = e'"
  using values_distinct by blast

lemmas enum_laws = enum_iff be_value1 be_value2 value_injective

end

end
