(* ===== verification/Wire_Enums.thy ===== *)
theory Wire_Enums
  imports Struct_Pack
begin

text \<open>
  The message types of \<open>conf_proc_spp_boot_v3_tables.py\<close> and the integer enumerations of
  \<open>conf_proc_spp_boot_v3_wire.py\<close>: a datatype, the wire value of each member and the list of
  members per \<open>IntEnum\<close> class, each an instance of \<open>int_enum\<close>.
\<close>

datatype ServingWireMessageTypeV3 =
    SESSION_FD | COLLECTOR_REQUEST | COLLECTOR_RESPONSE | COLLECTOR_ACK_VALID | COLLECTOR_ACK_INVALID
  | COLLECTOR_CANCEL | REQUEST_ACQUIRE | REQUEST_ADMIT | REQUEST_REJECT | WORK_BEGIN | WORK_BEGUN
  | WORK_FINISH | WORK_FINISHED | REQUEST_RELEASE | REQUEST_RELEASED | SESSION_RELEASE
  | SESSION_RELEASED | PRE_REQUEST_REJECTED | GLOBAL_FAULT | CHUNK_ACK | SESSION_FD_ACK
  | GATEWAY_READINESS_PROBE | GATEWAY_READINESS_RESULT

fun message_type_value :: "ServingWireMessageTypeV3 \<Rightarrow> nat" where
  "message_type_value SESSION_FD = 1"
| "message_type_value COLLECTOR_REQUEST = 2"
| "message_type_value COLLECTOR_RESPONSE = 3"
| "message_type_value COLLECTOR_ACK_VALID = 4"
| "message_type_value COLLECTOR_ACK_INVALID = 5"
| "message_type_value COLLECTOR_CANCEL = 6"
| "message_type_value REQUEST_ACQUIRE = 7"
| "message_type_value REQUEST_ADMIT = 8"
| "message_type_value REQUEST_REJECT = 9"
| "message_type_value WORK_BEGIN = 10"
| "message_type_value WORK_BEGUN = 11"
| "message_type_value WORK_FINISH = 12"
| "message_type_value WORK_FINISHED = 13"
| "message_type_value REQUEST_RELEASE = 14"
| "message_type_value REQUEST_RELEASED = 15"
| "message_type_value SESSION_RELEASE = 16"
| "message_type_value SESSION_RELEASED = 17"
| "message_type_value PRE_REQUEST_REJECTED = 18"
| "message_type_value GLOBAL_FAULT = 19"
| "message_type_value CHUNK_ACK = 20"
| "message_type_value SESSION_FD_ACK = 21"
| "message_type_value GATEWAY_READINESS_PROBE = 22"
| "message_type_value GATEWAY_READINESS_RESULT = 23"

definition message_type_members :: "ServingWireMessageTypeV3 list" where
  "message_type_members = [SESSION_FD, COLLECTOR_REQUEST, COLLECTOR_RESPONSE, COLLECTOR_ACK_VALID, COLLECTOR_ACK_INVALID,
     COLLECTOR_CANCEL, REQUEST_ACQUIRE, REQUEST_ADMIT, REQUEST_REJECT, WORK_BEGIN, WORK_BEGUN,
     WORK_FINISH, WORK_FINISHED, REQUEST_RELEASE, REQUEST_RELEASED, SESSION_RELEASE, SESSION_RELEASED,
     PRE_REQUEST_REJECTED, GLOBAL_FAULT, CHUNK_ACK, SESSION_FD_ACK, GATEWAY_READINESS_PROBE,
     GATEWAY_READINESS_RESULT]"

interpretation message_type: int_enum message_type_value message_type_members
proof
  show "e \<in> set message_type_members" for e by (cases e) (simp_all add: message_type_members_def)
  show "message_type_value e = message_type_value e' \<Longrightarrow> e = e'" for e e' by (cases e; cases e'; simp)
  show "message_type_value e < 256" for e by (cases e) simp_all
qed

datatype RouteV3 =
    Route_INFERENCE | Route_ASR

fun route_value :: "RouteV3 \<Rightarrow> nat" where
  "route_value Route_INFERENCE = 1"
| "route_value Route_ASR = 2"

definition route_members :: "RouteV3 list" where
  "route_members = [Route_INFERENCE, Route_ASR]"

interpretation route: int_enum route_value route_members
proof
  show "e \<in> set route_members" for e by (cases e) (simp_all add: route_members_def)
  show "route_value e = route_value e' \<Longrightarrow> e = e'" for e e' by (cases e; cases e'; simp)
  show "route_value e < 256" for e by (cases e) simp_all
qed

datatype CollectorGenerationV3 =
    Gen_CERTIFICATE | Gen_EXPORTER

fun generation_value :: "CollectorGenerationV3 \<Rightarrow> nat" where
  "generation_value Gen_CERTIFICATE = 1"
| "generation_value Gen_EXPORTER = 2"

definition generation_members :: "CollectorGenerationV3 list" where
  "generation_members = [Gen_CERTIFICATE, Gen_EXPORTER]"

interpretation generation: int_enum generation_value generation_members
proof
  show "e \<in> set generation_members" for e by (cases e) (simp_all add: generation_members_def)
  show "generation_value e = generation_value e' \<Longrightarrow> e = e'" for e e' by (cases e; cases e'; simp)
  show "generation_value e < 256" for e by (cases e) simp_all
qed

datatype CollectorResultV3 =
    Result_SUCCESS | Result_ACQUIRE_REJECTED | Result_ABORTED

fun collector_result_value :: "CollectorResultV3 \<Rightarrow> nat" where
  "collector_result_value Result_SUCCESS = 1"
| "collector_result_value Result_ACQUIRE_REJECTED = 2"
| "collector_result_value Result_ABORTED = 3"

definition collector_result_members :: "CollectorResultV3 list" where
  "collector_result_members = [Result_SUCCESS, Result_ACQUIRE_REJECTED, Result_ABORTED]"

interpretation collector_result: int_enum collector_result_value collector_result_members
proof
  show "e \<in> set collector_result_members" for e by (cases e) (simp_all add: collector_result_members_def)
  show "collector_result_value e = collector_result_value e' \<Longrightarrow> e = e'" for e e' by (cases e; cases e'; simp)
  show "collector_result_value e < 256" for e by (cases e) simp_all
qed

datatype CollectorAbortReasonV3 =
    Abort_NONZERO_EXIT | Abort_TIMEOUT | Abort_STDOUT_OVERFLOW | Abort_STDERR_OVERFLOW | Abort_MALFORMED
  | Abort_IDENTITY | Abort_CLIENT_CLOSE | Abort_CANCELLED

fun abort_reason_value :: "CollectorAbortReasonV3 \<Rightarrow> nat" where
  "abort_reason_value Abort_NONZERO_EXIT = 1"
| "abort_reason_value Abort_TIMEOUT = 2"
| "abort_reason_value Abort_STDOUT_OVERFLOW = 3"
| "abort_reason_value Abort_STDERR_OVERFLOW = 4"
| "abort_reason_value Abort_MALFORMED = 5"
| "abort_reason_value Abort_IDENTITY = 6"
| "abort_reason_value Abort_CLIENT_CLOSE = 7"
| "abort_reason_value Abort_CANCELLED = 8"

definition abort_reason_members :: "CollectorAbortReasonV3 list" where
  "abort_reason_members = [Abort_NONZERO_EXIT, Abort_TIMEOUT, Abort_STDOUT_OVERFLOW, Abort_STDERR_OVERFLOW, Abort_MALFORMED,
     Abort_IDENTITY, Abort_CLIENT_CLOSE, Abort_CANCELLED]"

interpretation abort_reason: int_enum abort_reason_value abort_reason_members
proof
  show "e \<in> set abort_reason_members" for e by (cases e) (simp_all add: abort_reason_members_def)
  show "abort_reason_value e = abort_reason_value e' \<Longrightarrow> e = e'" for e e' by (cases e; cases e'; simp)
  show "abort_reason_value e < 256" for e by (cases e) simp_all
qed

datatype CollectorAckInvalidReasonV3 =
    Ack_SHAPE | Ack_BINDING | Ack_ENCODING | Ack_IDENTITY

fun ack_invalid_reason_value :: "CollectorAckInvalidReasonV3 \<Rightarrow> nat" where
  "ack_invalid_reason_value Ack_SHAPE = 1"
| "ack_invalid_reason_value Ack_BINDING = 2"
| "ack_invalid_reason_value Ack_ENCODING = 3"
| "ack_invalid_reason_value Ack_IDENTITY = 4"

definition ack_invalid_reason_members :: "CollectorAckInvalidReasonV3 list" where
  "ack_invalid_reason_members = [Ack_SHAPE, Ack_BINDING, Ack_ENCODING, Ack_IDENTITY]"

interpretation ack_invalid_reason: int_enum ack_invalid_reason_value ack_invalid_reason_members
proof
  show "e \<in> set ack_invalid_reason_members" for e by (cases e) (simp_all add: ack_invalid_reason_members_def)
  show "ack_invalid_reason_value e = ack_invalid_reason_value e' \<Longrightarrow> e = e'" for e e' by (cases e; cases e'; simp)
  show "ack_invalid_reason_value e < 256" for e by (cases e) simp_all
qed

datatype CollectorCancelReasonV3 =
    Cancel_TIMEOUT | Cancel_CLIENT_CLOSE | Cancel_SHUTDOWN

fun cancel_reason_value :: "CollectorCancelReasonV3 \<Rightarrow> nat" where
  "cancel_reason_value Cancel_TIMEOUT = 1"
| "cancel_reason_value Cancel_CLIENT_CLOSE = 2"
| "cancel_reason_value Cancel_SHUTDOWN = 3"

definition cancel_reason_members :: "CollectorCancelReasonV3 list" where
  "cancel_reason_members = [Cancel_TIMEOUT, Cancel_CLIENT_CLOSE, Cancel_SHUTDOWN]"

interpretation cancel_reason: int_enum cancel_reason_value cancel_reason_members
proof
  show "e \<in> set cancel_reason_members" for e by (cases e) (simp_all add: cancel_reason_members_def)
  show "cancel_reason_value e = cancel_reason_value e' \<Longrightarrow> e = e'" for e e' by (cases e; cases e'; simp)
  show "cancel_reason_value e < 256" for e by (cases e) simp_all
qed

datatype RequestRejectReasonV3 =
    Reject_ROUTE_SLOT_SATURATED | Reject_DUPLICATE_REQUEST

fun reject_reason_value :: "RequestRejectReasonV3 \<Rightarrow> nat" where
  "reject_reason_value Reject_ROUTE_SLOT_SATURATED = 1"
| "reject_reason_value Reject_DUPLICATE_REQUEST = 2"

definition reject_reason_members :: "RequestRejectReasonV3 list" where
  "reject_reason_members = [Reject_ROUTE_SLOT_SATURATED, Reject_DUPLICATE_REQUEST]"

interpretation reject_reason: int_enum reject_reason_value reject_reason_members
proof
  show "e \<in> set reject_reason_members" for e by (cases e) (simp_all add: reject_reason_members_def)
  show "reject_reason_value e = reject_reason_value e' \<Longrightarrow> e = e'" for e e' by (cases e; cases e'; simp)
  show "reject_reason_value e < 256" for e by (cases e) simp_all
qed

datatype WorkFinishOutcomeV3 =
    Outcome_ORDINARY | Outcome_UPSTREAM_RETURN | Outcome_UPSTREAM_THROW | Outcome_UPSTREAM_TIMEOUT
  | Outcome_CLIENT_CLOSE

fun finish_outcome_value :: "WorkFinishOutcomeV3 \<Rightarrow> nat" where
  "finish_outcome_value Outcome_ORDINARY = 1"
| "finish_outcome_value Outcome_UPSTREAM_RETURN = 2"
| "finish_outcome_value Outcome_UPSTREAM_THROW = 3"
| "finish_outcome_value Outcome_UPSTREAM_TIMEOUT = 4"
| "finish_outcome_value Outcome_CLIENT_CLOSE = 5"

definition finish_outcome_members :: "WorkFinishOutcomeV3 list" where
  "finish_outcome_members = [Outcome_ORDINARY, Outcome_UPSTREAM_RETURN, Outcome_UPSTREAM_THROW, Outcome_UPSTREAM_TIMEOUT,
     Outcome_CLIENT_CLOSE]"

interpretation finish_outcome: int_enum finish_outcome_value finish_outcome_members
proof
  show "e \<in> set finish_outcome_members" for e by (cases e) (simp_all add: finish_outcome_members_def)
  show "finish_outcome_value e = finish_outcome_value e' \<Longrightarrow> e = e'" for e e' by (cases e; cases e'; simp)
  show "finish_outcome_value e < 256" for e by (cases e) simp_all
qed

datatype RequestReleaseStateV3 =
    Release_WORK_FINISHED | Release_AUDIO_413

fun release_state_value :: "RequestReleaseStateV3 \<Rightarrow> nat" where
  "release_state_value Release_WORK_FINISHED = 1"
| "release_state_value Release_AUDIO_413 = 2"

definition release_state_members :: "RequestReleaseStateV3 list" where
  "release_state_members = [Release_WORK_FINISHED, Release_AUDIO_413]"

interpretation release_state: int_enum release_state_value release_state_members
proof
  show "e \<in> set release_state_members" for e by (cases e) (simp_all add: release_state_members_def)
  show "release_state_value e = release_state_value e' \<Longrightarrow> e = e'" for e e' by (cases e; cases e'; simp)
  show "release_state_value e < 256" for e by (cases e) simp_all
qed

datatype SessionReleaseReasonV3 =
    Close_NORMAL_CLIENT_CLOSE | Close_PREFACE_FAILED | Close_CERTIFICATE_FAILED | Close_TLS_FAILED
  | Close_EXPORTER_REQUEST_FAILED | Close_EXPORTER_COLLECTOR_FAILED | Close_PROOF_WRITE_FAILED
  | Close_PARSER_REJECTED | Close_SATURATION | Close_CREDENTIAL_FAILED | Close_DNS_FAILED
  | Close_ENTITLEMENT_TLS_FAILED | Close_AUTHORIZATION_DENIED | Close_UPSTREAM_FAILED
  | Close_HARD_AUDIO

fun release_reason_value :: "SessionReleaseReasonV3 \<Rightarrow> nat" where
  "release_reason_value Close_NORMAL_CLIENT_CLOSE = 1"
| "release_reason_value Close_PREFACE_FAILED = 2"
| "release_reason_value Close_CERTIFICATE_FAILED = 3"
| "release_reason_value Close_TLS_FAILED = 4"
| "release_reason_value Close_EXPORTER_REQUEST_FAILED = 5"
| "release_reason_value Close_EXPORTER_COLLECTOR_FAILED = 6"
| "release_reason_value Close_PROOF_WRITE_FAILED = 7"
| "release_reason_value Close_PARSER_REJECTED = 8"
| "release_reason_value Close_SATURATION = 9"
| "release_reason_value Close_CREDENTIAL_FAILED = 10"
| "release_reason_value Close_DNS_FAILED = 11"
| "release_reason_value Close_ENTITLEMENT_TLS_FAILED = 12"
| "release_reason_value Close_AUTHORIZATION_DENIED = 13"
| "release_reason_value Close_UPSTREAM_FAILED = 14"
| "release_reason_value Close_HARD_AUDIO = 15"

definition release_reason_members :: "SessionReleaseReasonV3 list" where
  "release_reason_members = [Close_NORMAL_CLIENT_CLOSE, Close_PREFACE_FAILED, Close_CERTIFICATE_FAILED, Close_TLS_FAILED,
     Close_EXPORTER_REQUEST_FAILED, Close_EXPORTER_COLLECTOR_FAILED, Close_PROOF_WRITE_FAILED,
     Close_PARSER_REJECTED, Close_SATURATION, Close_CREDENTIAL_FAILED, Close_DNS_FAILED,
     Close_ENTITLEMENT_TLS_FAILED, Close_AUTHORIZATION_DENIED, Close_UPSTREAM_FAILED, Close_HARD_AUDIO]"

interpretation release_reason: int_enum release_reason_value release_reason_members
proof
  show "e \<in> set release_reason_members" for e by (cases e) (simp_all add: release_reason_members_def)
  show "release_reason_value e = release_reason_value e' \<Longrightarrow> e = e'" for e e' by (cases e; cases e'; simp)
  show "release_reason_value e < 256" for e by (cases e) simp_all
qed

datatype PreRequestRejectedReasonV3 =
    Pre_MALFORMED | Pre_HEAD_OVERSIZE | Pre_CHUNKED | Pre_FIRST_BYTE_IDLE | Pre_HEAD_DEADLINE
  | Pre_CLIENT_CLOSE | Pre_RETURN | Pre_THROW

fun pre_reason_value :: "PreRequestRejectedReasonV3 \<Rightarrow> nat" where
  "pre_reason_value Pre_MALFORMED = 1"
| "pre_reason_value Pre_HEAD_OVERSIZE = 2"
| "pre_reason_value Pre_CHUNKED = 3"
| "pre_reason_value Pre_FIRST_BYTE_IDLE = 4"
| "pre_reason_value Pre_HEAD_DEADLINE = 5"
| "pre_reason_value Pre_CLIENT_CLOSE = 6"
| "pre_reason_value Pre_RETURN = 7"
| "pre_reason_value Pre_THROW = 8"

definition pre_reason_members :: "PreRequestRejectedReasonV3 list" where
  "pre_reason_members = [Pre_MALFORMED, Pre_HEAD_OVERSIZE, Pre_CHUNKED, Pre_FIRST_BYTE_IDLE, Pre_HEAD_DEADLINE,
     Pre_CLIENT_CLOSE, Pre_RETURN, Pre_THROW]"

interpretation pre_reason: int_enum pre_reason_value pre_reason_members
proof
  show "e \<in> set pre_reason_members" for e by (cases e) (simp_all add: pre_reason_members_def)
  show "pre_reason_value e = pre_reason_value e' \<Longrightarrow> e = e'" for e e' by (cases e; cases e'; simp)
  show "pre_reason_value e < 256" for e by (cases e) simp_all
qed

datatype GlobalFaultReasonV3 =
    Fault_REDUCER_IDENTITY | Fault_PROCESS_IDENTITY | Fault_SOCKET_IDENTITY | Fault_READINESS
  | Fault_POLICY_READBACK | Fault_CONTROL_PROTOCOL

fun fault_reason_value :: "GlobalFaultReasonV3 \<Rightarrow> nat" where
  "fault_reason_value Fault_REDUCER_IDENTITY = 1"
| "fault_reason_value Fault_PROCESS_IDENTITY = 2"
| "fault_reason_value Fault_SOCKET_IDENTITY = 3"
| "fault_reason_value Fault_READINESS = 4"
| "fault_reason_value Fault_POLICY_READBACK = 5"
| "fault_reason_value Fault_CONTROL_PROTOCOL = 6"

definition fault_reason_members :: "GlobalFaultReasonV3 list" where
  "fault_reason_members = [Fault_REDUCER_IDENTITY, Fault_PROCESS_IDENTITY, Fault_SOCKET_IDENTITY, Fault_READINESS,
     Fault_POLICY_READBACK, Fault_CONTROL_PROTOCOL]"

interpretation fault_reason: int_enum fault_reason_value fault_reason_members
proof
  show "e \<in> set fault_reason_members" for e by (cases e) (simp_all add: fault_reason_members_def)
  show "fault_reason_value e = fault_reason_value e' \<Longrightarrow> e = e'" for e e' by (cases e; cases e'; simp)
  show "fault_reason_value e < 256" for e by (cases e) simp_all
qed

lemmas enum_laws [wire_simps] =
  message_type.enum_laws
  route.enum_laws
  generation.enum_laws
  collector_result.enum_laws
  abort_reason.enum_laws
  ack_invalid_reason.enum_laws
  cancel_reason.enum_laws
  reject_reason.enum_laws
  finish_outcome.enum_laws
  release_state.enum_laws
  release_reason.enum_laws
  pre_reason.enum_laws
  fault_reason.enum_laws

text \<open>\<open>COLLECTOR_ACK_INVALID_TO_ABORT_REASON_V3\<close>.\<close>

fun ack_invalid_to_abort :: "CollectorAckInvalidReasonV3 \<Rightarrow> CollectorAbortReasonV3" where
  "ack_invalid_to_abort Ack_SHAPE = Abort_MALFORMED"
| "ack_invalid_to_abort Ack_BINDING = Abort_IDENTITY"
| "ack_invalid_to_abort Ack_ENCODING = Abort_MALFORMED"
| "ack_invalid_to_abort Ack_IDENTITY = Abort_IDENTITY"

end
