(* ===== verification/Wire_Payloads.thy ===== *)
theory Wire_Payloads
  imports Wire_Enums Conf_Json
begin

text \<open>
  The typed payloads of \<open>conf_proc_spp_boot_v3_wire.py\<close>, in the order of the file: one datatype
  per dataclass (its arguments are the fields in order), one encoder and one decoder, with the
  checks in the order the code makes them and the code's messages as errors. Every pair is an
  instance of \<open>codec\<close>: what the encoder accepts decodes to itself, and the decoder accepts
  nothing else.
\<close>

section \<open>Standalone readiness\<close>

datatype StandaloneReadinessProbeV3 = StandaloneReadinessProbeV3 int int int

definition STANDALONE_READINESS_PROBE_MAGIC_V3 :: bytes where
  "STANDALONE_READINESS_PROBE_MAGIC_V3 = ''SPPRDQ3'' @ [CHR 0x00]"

lemma length_probe_magic [simp]: "length STANDALONE_READINESS_PROBE_MAGIC_V3 = 8"
  by (simp add: STANDALONE_READINESS_PROBE_MAGIC_V3_def)

fun encode_standalone_readiness_probe_v3 :: "StandaloneReadinessProbeV3 \<Rightarrow> bytes checked" where
  "encode_standalone_readiness_probe_v3 (StandaloneReadinessProbeV3 role_id census_generation deadline) =
     (if \<not> (1 \<le> role_id \<and> role_id \<le> 3) then Inl ''standalone readiness role is invalid'' else
      bindE (uint census_generation 64 ''standalone readiness generation'') (\<lambda>generation.
      if generation \<noteq> 1 then Inl ''standalone readiness generation is invalid'' else
      if \<not> (0 < deadline \<and> deadline < 2 ^ 64) then Inl ''standalone readiness deadline is invalid'' else
        Inr (STANDALONE_READINESS_PROBE_MAGIC_V3 @ to_be 2 3 @ to_be 2 (nat role_id) @ to_be 4 0 @ to_be 8 generation @
          to_be 8 (nat deadline))))"

definition decode_standalone_readiness_probe_v3 :: "bytes \<Rightarrow> StandaloneReadinessProbeV3 checked" where
  "decode_standalone_readiness_probe_v3 data =
     (if length data \<noteq> 32 then Inl ''standalone readiness probe length is invalid''
      else let f = unpack [8, 2, 2, 4, 8, 8] data in
        if f ! 0 \<noteq> STANDALONE_READINESS_PROBE_MAGIC_V3 \<or> be_int (f ! 1) \<noteq> 3 \<or> be_int (f ! 3) \<noteq> 0
        then Inl ''standalone readiness probe framing is invalid'' else
        let probe = StandaloneReadinessProbeV3 (be_int (f ! 2)) (be_int (f ! 4)) (be_int (f ! 5)) in
        bindE (encode_standalone_readiness_probe_v3 probe) (\<lambda>w.
          if w \<noteq> data then Inl ''standalone readiness probe is not canonical'' else Inr probe))"

interpretation standalone_probe: codec encode_standalone_readiness_probe_v3 decode_standalone_readiness_probe_v3 "\<lambda>_. True"
  by (rule layout_codecI [where ws = "[8, 2, 2, 4, 8, 8]"])
    (auto simp: decode_standalone_readiness_probe_v3_def decoding wire_simps
      elim!: encode_standalone_readiness_probe_v3.elims split: if_splits)

datatype StandaloneReadinessResultV3 = StandaloneReadinessResultV3 int int int int int int int bytes

definition STANDALONE_READINESS_RESULT_MAGIC_V3 :: bytes where
  "STANDALONE_READINESS_RESULT_MAGIC_V3 = ''SPPRDR3'' @ [CHR 0x00]"

lemma length_result_magic [simp]: "length STANDALONE_READINESS_RESULT_MAGIC_V3 = 8"
  by (simp add: STANDALONE_READINESS_RESULT_MAGIC_V3_def)

fun encode_standalone_readiness_result_v3 :: "StandaloneReadinessResultV3 \<Rightarrow> bytes checked" where
  "encode_standalone_readiness_result_v3 (StandaloneReadinessResultV3 role_id flags census_generation deadline child_pid uid gid digest) =
     (if \<not> (1 \<le> role_id \<and> role_id \<le> 3) then Inl ''standalone readiness role is invalid'' else
      bindE (uint flags 32 ''standalone readiness flags'') (\<lambda>n_flags.
      if n_flags \<noteq> 1 then Inl ''standalone readiness flags are invalid'' else
      bindE (uint census_generation 64 ''standalone readiness generation'') (\<lambda>generation.
      if generation \<noteq> 1 then Inl ''standalone readiness generation is invalid'' else
      if \<not> (0 < deadline \<and> deadline < 2 ^ 64) then Inl ''standalone readiness deadline is invalid'' else
      bindE (uint child_pid 32 ''supervised child PID'') (\<lambda>pid.
      bindE (uint uid 32 ''readiness role UID'') (\<lambda>u.
      bindE (uint gid 32 ''readiness role GID'') (\<lambda>g.
      bindE (exact_bytes digest 32 ''readiness executable digest'') (\<lambda>d.
        Inr (STANDALONE_READINESS_RESULT_MAGIC_V3 @ to_be 2 3 @ to_be 2 (nat role_id) @ to_be 4 n_flags @ to_be 8 generation @
          to_be 8 (nat deadline) @ to_be 4 pid @ to_be 4 u @ to_be 4 g @ to_be 4 0 @ d))))))))"

definition decode_standalone_readiness_result_v3 :: "bytes \<Rightarrow> StandaloneReadinessResultV3 checked" where
  "decode_standalone_readiness_result_v3 data =
     (if length data \<noteq> 80 then Inl ''standalone readiness result length is invalid''
      else let f = unpack [8, 2, 2, 4, 8, 8, 4, 4, 4, 4, 32] data in
        if f ! 0 \<noteq> STANDALONE_READINESS_RESULT_MAGIC_V3 \<or> be_int (f ! 1) \<noteq> 3 \<or> be_int (f ! 9) \<noteq> 0
        then Inl ''standalone readiness result framing is invalid'' else
        let result = StandaloneReadinessResultV3 (be_int (f ! 2)) (be_int (f ! 3)) (be_int (f ! 4)) (be_int (f ! 5))
              (be_int (f ! 6)) (be_int (f ! 7)) (be_int (f ! 8)) (f ! 10) in
        bindE (encode_standalone_readiness_result_v3 result) (\<lambda>w.
          if w \<noteq> data then Inl ''standalone readiness result is not canonical'' else Inr result))"

interpretation standalone_result: codec encode_standalone_readiness_result_v3 decode_standalone_readiness_result_v3 "\<lambda>_. True"
  by (rule layout_codecI [where ws = "[8, 2, 2, 4, 8, 8, 4, 4, 4, 4, 32]"])
    (auto simp: decode_standalone_readiness_result_v3_def decoding wire_simps
      elim!: encode_standalone_readiness_result_v3.elims split: if_splits)

section \<open>Sessions and the collector\<close>

datatype SessionFdPayloadV3 = SessionFdPayloadV3 int int bytes int bytes int int

fun encode_session_fd_payload_v3 :: "SessionFdPayloadV3 \<Rightarrow> bytes checked" where
  "encode_session_fd_payload_v3 (SessionFdPayloadV3 session_epoch af_family local_ipv4 local_port peer_ipv4 peer_port so_cookie) =
     (if af_family \<noteq> 2 then Inl ''session FD payload is invalid'' else
      bindE (uint session_epoch 64 ''session epoch'') (\<lambda>e.
      bindE (exact_bytes local_ipv4 4 ''local IPv4'') (\<lambda>l.
      bindE (uint local_port 16 ''local port'') (\<lambda>lp.
      bindE (exact_bytes peer_ipv4 4 ''peer IPv4'') (\<lambda>p.
      bindE (uint peer_port 16 ''peer port'') (\<lambda>pp.
      bindE (uint so_cookie 64 ''socket cookie'') (\<lambda>c.
        Inr (to_be 8 e @ to_be 2 (nat af_family) @ l @ to_be 2 lp @ p @ to_be 2 pp @ to_be 8 c))))))))"

definition decode_session_fd_payload_v3 :: "bytes \<Rightarrow> SessionFdPayloadV3 checked" where
  "decode_session_fd_payload_v3 data =
     (if length data \<noteq> 30 then Inl ''session FD payload length is invalid''
      else let f = unpack [8, 2, 4, 2, 4, 2, 8] data in
        decode_with encode_session_fd_payload_v3
          (SessionFdPayloadV3 (be_int (f ! 0)) (be_int (f ! 1)) (f ! 2) (be_int (f ! 3)) (f ! 4) (be_int (f ! 5)) (be_int (f ! 6))))"

interpretation session_fd: codec encode_session_fd_payload_v3 decode_session_fd_payload_v3 "\<lambda>_. True"
  by (rule layout_codecI [where ws = "[8, 2, 4, 2, 4, 2, 8]"])
    (auto simp: decode_session_fd_payload_v3_def decoding wire_simps elim!: encode_session_fd_payload_v3.elims split: if_splits)

text \<open>\<open>_canonical_json\<close>: the payload must be the canonical encoding of what it parses to.\<close>

definition canonical_json :: "bytes \<Rightarrow> nat \<Rightarrow> bool \<Rightarrow> bytes checked" where
  "canonical_json v maximum_length required =
     (if length v > maximum_length \<or> required \<and> v = [] then Inl ''canonical JSON payload is invalid''
      else case canonical_loads v of
          Inl _ \<Rightarrow> Inl ''canonical JSON payload is invalid''
        | Inr parsed \<Rightarrow> if canonical_dumps parsed \<noteq> Inr v then Inl ''canonical JSON payload is invalid'' else Inr v)"

definition canonical_text :: "bytes \<Rightarrow> bool" where
  "canonical_text v \<longleftrightarrow> is_ok (canonical_loads v)"

lemma canonical_json_Inr [wire_simps]:
  "canonical_json v n required = Inr r \<longleftrightarrow> length v \<le> n \<and> (required \<longrightarrow> v \<noteq> []) \<and> canonical_text v \<and> r = v"
  by (auto simp: canonical_json_def canonical_text_def canonical.encode_decode split: sum.splits)

datatype CollectorRequestPayloadV3 = CollectorRequestPayloadV3 CollectorGenerationV3 bytes

fun encode_collector_request_payload_v3 :: "CollectorRequestPayloadV3 \<Rightarrow> bytes checked" where
  "encode_collector_request_payload_v3 (CollectorRequestPayloadV3 generation json_bytes) =
     bindE (canonical_json json_bytes 4096 True) (\<lambda>j.
       Inr (to_be 1 (generation_value generation) @ zeros 3 @ j))"

definition decode_collector_request_payload_v3 :: "bytes \<Rightarrow> CollectorRequestPayloadV3 checked" where
  "decode_collector_request_payload_v3 data =
     (if \<not> (5 \<le> length data \<and> length data \<le> 4100) then Inl ''collector request payload length is invalid''
      else let f = unpack [1, 3] (take 4 data) in
        if f ! 1 \<noteq> zeros 3 then Inl ''collector request reserved field is invalid'' else
        bindE (enum generation_value generation_members (be_int (f ! 0)) ''collector generation'') (\<lambda>e_generation.
          decode_with encode_collector_request_payload_v3 (CollectorRequestPayloadV3 e_generation (drop 4 data))))"

interpretation collector_request: codec encode_collector_request_payload_v3 decode_collector_request_payload_v3 "\<lambda>_. True"
proof
  show "decode_collector_request_payload_v3 w = Inr p" if "encode_collector_request_payload_v3 p = Inr w" for p w
    using that by (auto simp: decode_collector_request_payload_v3_def decoding wire_simps Suc_le_eq
      elim!: encode_collector_request_payload_v3.elims)
  show "encode_collector_request_payload_v3 p = Inr w" if "decode_collector_request_payload_v3 w = Inr p" for w p
  proof -
    have "length (take 4 w) = sum_list [1, 3]" using that by (simp add: decode_collector_request_payload_v3_def split: if_splits)
    from layout_fields [OF this] obtain a b where "take 4 w = a @ b" "length a = 1" "length b = 3"
      by (auto simp: map_eq_Cons_conv)
    moreover have "w = take 4 w @ drop 4 w" by simp
    ultimately show ?thesis using that
      by (auto simp: decode_collector_request_payload_v3_def decoding wire_simps)
  qed
qed

definition COLLECTOR_RESPONSE_MAX_TAIL_BYTES_V3 :: nat where
  "COLLECTOR_RESPONSE_MAX_TAIL_BYTES_V3 = 8388608"

datatype CollectorResponsePayloadV3 = CollectorResponsePayloadV3
  CollectorGenerationV3 CollectorResultV3 int int int bytes bytes

fun encode_collector_response_payload_v3 :: "CollectorResponsePayloadV3 \<Rightarrow> bytes checked" where
  "encode_collector_response_payload_v3 (CollectorResponsePayloadV3 generation result reason child_pid wait_status stdout_sha256 json_bytes) =
     bindE (uint reason 16 ''collector response reason'') (\<lambda>n_reason.
     bindE (uint child_pid 32 ''collector child PID'') (\<lambda>pid.
     bindE (uint wait_status 32 ''collector wait status'') (\<lambda>status.
     bindE (exact_bytes stdout_sha256 32 ''collector stdout digest'') (\<lambda>digest.
     bindE (case result of
         Result_SUCCESS \<Rightarrow>
           if n_reason \<noteq> 0 \<or> pid = 0 \<or> status \<noteq> 0 \<or> digest = zeros 32 then Inl ''successful collector response is invalid''
           else canonical_json json_bytes COLLECTOR_RESPONSE_MAX_TAIL_BYTES_V3 True
       | Result_ACQUIRE_REJECTED \<Rightarrow>
           if n_reason \<noteq> 1 \<or> pid \<noteq> 0 \<or> status \<noteq> 0 \<or> digest \<noteq> zeros 32 \<or> json_bytes \<noteq> []
           then Inl ''rejected collector response is invalid'' else Inr json_bytes
       | Result_ABORTED \<Rightarrow>
           bindE (enum abort_reason_value abort_reason_members reason ''collector abort reason'') (\<lambda>_.
             if json_bytes \<noteq> [] then Inl ''aborted collector response is invalid'' else Inr json_bytes)) (\<lambda>tail.
       Inr (to_be 1 (generation_value generation) @ to_be 1 (collector_result_value result) @ to_be 2 n_reason @
         to_be 4 pid @ to_be 4 status @ digest @ tail))))))"

definition decode_collector_response_payload_v3 :: "bytes \<Rightarrow> CollectorResponsePayloadV3 checked" where
  "decode_collector_response_payload_v3 data =
     (if \<not> (44 \<le> length data \<and> length data \<le> 44 + COLLECTOR_RESPONSE_MAX_TAIL_BYTES_V3)
      then Inl ''collector response payload length is invalid''
      else let f = unpack [1, 1, 2, 4, 4, 32] (take 44 data) in
        bindE (enum generation_value generation_members (be_int (f ! 0)) ''collector generation'') (\<lambda>e_generation.
        bindE (enum collector_result_value collector_result_members (be_int (f ! 1)) ''collector result'') (\<lambda>e_result.
          decode_with encode_collector_response_payload_v3
            (CollectorResponsePayloadV3 e_generation e_result (be_int (f ! 2)) (be_int (f ! 3)) (be_int (f ! 4)) (f ! 5) (drop 44 data)))))"

text \<open>The tail is bounded whatever the result says.\<close>

lemma response_tail_bound:
  assumes "encode_collector_response_payload_v3 (CollectorResponsePayloadV3 g r reason pid status d j) = Inr w"
  shows "length j \<le> COLLECTOR_RESPONSE_MAX_TAIL_BYTES_V3"
  using assms by (cases r) (auto simp: decoding wire_simps split: if_splits)

lemma response_text:
  assumes "encode_collector_response_payload_v3 (CollectorResponsePayloadV3 g r reason pid status d j) = Inr w"
  shows "w = to_be 1 (generation_value g) @ to_be 1 (collector_result_value r) @ to_be 2 (nat reason) @
      to_be 4 (nat pid) @ to_be 4 (nat status) @ d @ j"
    and "0 \<le> reason" "reason < 2 ^ 16" "0 \<le> pid" "pid < 2 ^ 32" "0 \<le> status" "status < 2 ^ 32" "length d = 32"
  using assms by (cases r; auto simp: decoding wire_simps split: if_splits)+

interpretation collector_response: codec encode_collector_response_payload_v3 decode_collector_response_payload_v3 "\<lambda>_. True"
proof
  show "decode_collector_response_payload_v3 w = Inr p" if e: "encode_collector_response_payload_v3 p = Inr w" for p w
  proof (cases p)
    case (CollectorResponsePayloadV3 g r reason pid status d j)
    note t = response_text [OF e [unfolded CollectorResponsePayloadV3]]
    have "unpack [1, 1, 2, 4, 4, 32] (take 44 w) = [to_be 1 (generation_value g), to_be 1 (collector_result_value r),
        to_be 2 (nat reason), to_be 4 (nat pid), to_be 4 (nat status), d]"
      using t(8) by (simp add: t(1) wire_simps)
    moreover have "drop 44 w = j" using t(8) by (simp add: t(1))
    moreover have "length w = 44 + length j" using t(8) by (simp add: t(1))
    moreover have "nat reason < 65536" "nat pid < 4294967296" "nat status < 4294967296" using t(2-7) by auto
    ultimately show ?thesis using e response_tail_bound [OF e [unfolded CollectorResponsePayloadV3]] t(2-7)
      by (simp add: decode_collector_response_payload_v3_def CollectorResponsePayloadV3 decoding wire_simps
          del: encode_collector_response_payload_v3.simps)
  qed
  show "encode_collector_response_payload_v3 p = Inr w" if dec: "decode_collector_response_payload_v3 w = Inr p" for w p
  proof -
    have "length (take 44 w) = sum_list [1, 1, 2, 4, 4, 32]"
      using dec by (simp add: decode_collector_response_payload_v3_def split: if_splits)
    from layout_fields [OF this] obtain a b c d e f where F: "take 44 w = a @ b @ c @ d @ e @ f" "length a = 1" "length b = 1"
      "length c = 2" "length d = 4" "length e = 4" "length f = 32"
      by (auto simp: map_eq_Cons_conv)
    have w: "w = a @ b @ c @ d @ e @ f @ drop 44 w" using append_take_drop_id [of 44 w] by (simp only: F(1) append_assoc)
    from dec F obtain g r v where p: "p = CollectorResponsePayloadV3 g r (be_int c) (be_int d) (be_int e) f (drop 44 w)"
      and g: "be_nat a = generation_value g" "be_nat b = collector_result_value r"
      and v: "encode_collector_response_payload_v3 p = Inr v"
      by (auto simp: decode_collector_response_payload_v3_def decoding wire_simps split: if_splits
          simp del: encode_collector_response_payload_v3.simps)
    have "v = w" unfolding response_text(1) [OF v [unfolded p]] using F(2-7) g by (subst (2) w) (simp add: wire_simps)
    with v show ?thesis by simp
  qed
qed

datatype CollectorAckValidPayloadV3 = CollectorAckValidPayloadV3 CollectorGenerationV3 int int bytes

fun encode_collector_ack_valid_payload_v3 :: "CollectorAckValidPayloadV3 \<Rightarrow> bytes checked" where
  "encode_collector_ack_valid_payload_v3 (CollectorAckValidPayloadV3 generation child_pid wait_status stdout_sha256) =
     (bindE (uint child_pid 32 ''collector child PID'') (\<lambda>n_child_pid.
      bindE (uint wait_status 32 ''collector wait status'') (\<lambda>n_wait_status.
      bindE (exact_bytes stdout_sha256 32 ''collector stdout digest'') (\<lambda>b_stdout_sha256.
        Inr (to_be 1 (generation_value generation) @ zeros 3 @ to_be 4 n_child_pid @ to_be 4 n_wait_status @
          b_stdout_sha256)))))"

definition decode_collector_ack_valid_payload_v3 :: "bytes \<Rightarrow> CollectorAckValidPayloadV3 checked" where
  "decode_collector_ack_valid_payload_v3 data =
     (if length data \<noteq> 44 then Inl ''collector valid acknowledgement length is invalid''
      else let f = unpack [1, 3, 4, 4, 32] data in
        if f ! 1 \<noteq> zeros 3 then Inl ''collector valid acknowledgement reserved field is invalid'' else
        bindE (enum generation_value generation_members (be_int (f ! 0)) ''collector generation'') (\<lambda>e_generation.
          decode_with encode_collector_ack_valid_payload_v3 (CollectorAckValidPayloadV3 e_generation (be_int (f ! 2)) (be_int (f ! 3)) (f ! 4))))"

interpretation collector_ack_valid: codec encode_collector_ack_valid_payload_v3 decode_collector_ack_valid_payload_v3 "\<lambda>_. True"
  by (rule layout_codecI [where ws = "[1, 3, 4, 4, 32]"])
    (auto simp: decode_collector_ack_valid_payload_v3_def decoding wire_simps elim!: encode_collector_ack_valid_payload_v3.elims split: if_splits)

datatype CollectorAckInvalidPayloadV3 = CollectorAckInvalidPayloadV3 CollectorGenerationV3 int int bytes CollectorAckInvalidReasonV3

fun encode_collector_ack_invalid_payload_v3 :: "CollectorAckInvalidPayloadV3 \<Rightarrow> bytes checked" where
  "encode_collector_ack_invalid_payload_v3 (CollectorAckInvalidPayloadV3 generation child_pid wait_status stdout_sha256 reason) =
     (bindE (uint child_pid 32 ''collector child PID'') (\<lambda>n_child_pid.
      bindE (uint wait_status 32 ''collector wait status'') (\<lambda>n_wait_status.
      bindE (exact_bytes stdout_sha256 32 ''collector stdout digest'') (\<lambda>b_stdout_sha256.
        Inr (to_be 1 (generation_value generation) @ zeros 3 @ to_be 4 n_child_pid @ to_be 4 n_wait_status @
          b_stdout_sha256 @ to_be 2 (ack_invalid_reason_value reason))))))"

definition decode_collector_ack_invalid_payload_v3 :: "bytes \<Rightarrow> CollectorAckInvalidPayloadV3 checked" where
  "decode_collector_ack_invalid_payload_v3 data =
     (if length data \<noteq> 46 then Inl ''collector invalid acknowledgement length is invalid''
      else let f = unpack [1, 3, 4, 4, 32, 2] data in
        if f ! 1 \<noteq> zeros 3 then Inl ''collector invalid acknowledgement reserved field is invalid'' else
        bindE (enum generation_value generation_members (be_int (f ! 0)) ''collector generation'') (\<lambda>e_generation.
        bindE (enum ack_invalid_reason_value ack_invalid_reason_members (be_int (f ! 5)) ''collector invalid reason'') (\<lambda>e_reason.
          decode_with encode_collector_ack_invalid_payload_v3 (CollectorAckInvalidPayloadV3 e_generation (be_int (f ! 2)) (be_int (f ! 3)) (f ! 4) e_reason))))"

interpretation collector_ack_invalid: codec encode_collector_ack_invalid_payload_v3 decode_collector_ack_invalid_payload_v3 "\<lambda>_. True"
  by (rule layout_codecI [where ws = "[1, 3, 4, 4, 32, 2]"])
    (auto simp: decode_collector_ack_invalid_payload_v3_def decoding wire_simps elim!: encode_collector_ack_invalid_payload_v3.elims split: if_splits)

datatype CollectorCancelPayloadV3 = CollectorCancelPayloadV3 CollectorGenerationV3 CollectorCancelReasonV3

fun encode_collector_cancel_payload_v3 :: "CollectorCancelPayloadV3 \<Rightarrow> bytes checked" where
  "encode_collector_cancel_payload_v3 (CollectorCancelPayloadV3 generation reason) =
     (
        Inr (to_be 1 (generation_value generation) @ to_be 1 (cancel_reason_value reason) @ zeros 2))"

definition decode_collector_cancel_payload_v3 :: "bytes \<Rightarrow> CollectorCancelPayloadV3 checked" where
  "decode_collector_cancel_payload_v3 data =
     (if length data \<noteq> 4 then Inl ''collector cancellation length is invalid''
      else let f = unpack [1, 1, 2] data in
        if f ! 2 \<noteq> zeros 2 then Inl ''collector cancellation reserved field is invalid'' else
        bindE (enum generation_value generation_members (be_int (f ! 0)) ''collector generation'') (\<lambda>e_generation.
        bindE (enum cancel_reason_value cancel_reason_members (be_int (f ! 1)) ''collector cancel reason'') (\<lambda>e_reason.
          decode_with encode_collector_cancel_payload_v3 (CollectorCancelPayloadV3 e_generation e_reason))))"

interpretation collector_cancel: codec encode_collector_cancel_payload_v3 decode_collector_cancel_payload_v3 "\<lambda>_. True"
  by (rule layout_codecI [where ws = "[1, 1, 2]"])
    (auto simp: decode_collector_cancel_payload_v3_def decoding wire_simps elim!: encode_collector_cancel_payload_v3.elims split: if_splits)

section \<open>Requests\<close>

datatype RequestAcquirePayloadV3 = RequestAcquirePayloadV3 int RouteV3 bytes

fun encode_request_acquire_payload_v3 :: "RequestAcquirePayloadV3 \<Rightarrow> bytes checked" where
  "encode_request_acquire_payload_v3 (RequestAcquirePayloadV3 request_cycle route gateway_reducer_instance_token) =
     (bindE (uint request_cycle 64 ''request cycle'') (\<lambda>n_request_cycle.
      bindE (exact_bytes gateway_reducer_instance_token 32 ''gateway reducer token'') (\<lambda>b_gateway_reducer_instance_token.
        Inr (to_be 8 n_request_cycle @ to_be 1 (route_value route) @ zeros 7 @
          b_gateway_reducer_instance_token))))"

definition decode_request_acquire_payload_v3 :: "bytes \<Rightarrow> RequestAcquirePayloadV3 checked" where
  "decode_request_acquire_payload_v3 data =
     (if length data \<noteq> 48 then Inl ''request acquire payload length is invalid''
      else let f = unpack [8, 1, 7, 32] data in
        if f ! 2 \<noteq> zeros 7 then Inl ''request acquire reserved field is invalid'' else
        bindE (enum route_value route_members (be_int (f ! 1)) ''route'') (\<lambda>e_route.
          decode_with encode_request_acquire_payload_v3 (RequestAcquirePayloadV3 (be_int (f ! 0)) e_route (f ! 3))))"

interpretation request_acquire: codec encode_request_acquire_payload_v3 decode_request_acquire_payload_v3 "\<lambda>_. True"
  by (rule layout_codecI [where ws = "[8, 1, 7, 32]"])
    (auto simp: decode_request_acquire_payload_v3_def decoding wire_simps elim!: encode_request_acquire_payload_v3.elims split: if_splits)

definition STREAM_BUFFER_BYTES_V3 :: int where
  "STREAM_BUFFER_BYTES_V3 = 2097152"

datatype RequestAdmitPayloadV3 = RequestAdmitPayloadV3 int RouteV3 int bytes bytes bytes

fun encode_request_admit_payload_v3 :: "RequestAdmitPayloadV3 \<Rightarrow> bytes checked" where
  "encode_request_admit_payload_v3 (RequestAdmitPayloadV3 cycle route buffer_capacity request route_work buf) =
     (if buffer_capacity \<noteq> STREAM_BUFFER_BYTES_V3 then Inl ''request admit buffer capacity is invalid'' else
      bindE (uint cycle 64 ''request cycle'') (\<lambda>c.
      bindE (nonzero_bytes request 32 ''request permit token'') (\<lambda>r.
      bindE (nonzero_bytes route_work 32 ''route work permit token'') (\<lambda>w.
      bindE (nonzero_bytes buf 32 ''buffer permit token'') (\<lambda>b.
        Inr (to_be 8 c @ to_be 1 (route_value route) @ zeros 3 @ to_be 4 (nat buffer_capacity) @ r @ w @ b))))))"

definition decode_request_admit_payload_v3 :: "bytes \<Rightarrow> RequestAdmitPayloadV3 checked" where
  "decode_request_admit_payload_v3 data =
     (if length data \<noteq> 112 then Inl ''request admit payload length is invalid''
      else let f = unpack [8, 1, 3, 4, 32, 32, 32] data in
        if f ! 2 \<noteq> zeros 3 then Inl ''request admit reserved field is invalid'' else
        bindE (enum route_value route_members (be_int (f ! 1)) ''route'') (\<lambda>e_route.
          decode_with encode_request_admit_payload_v3
            (RequestAdmitPayloadV3 (be_int (f ! 0)) e_route (be_int (f ! 3)) (f ! 4) (f ! 5) (f ! 6))))"

interpretation request_admit: codec encode_request_admit_payload_v3 decode_request_admit_payload_v3 "\<lambda>_. True"
  by (rule layout_codecI [where ws = "[8, 1, 3, 4, 32, 32, 32]"])
    (auto simp: decode_request_admit_payload_v3_def STREAM_BUFFER_BYTES_V3_def decoding wire_simps
      elim!: encode_request_admit_payload_v3.elims split: if_splits)

datatype RequestRejectPayloadV3 = RequestRejectPayloadV3 int RouteV3 RequestRejectReasonV3

fun encode_request_reject_payload_v3 :: "RequestRejectPayloadV3 \<Rightarrow> bytes checked" where
  "encode_request_reject_payload_v3 (RequestRejectPayloadV3 cycle route reason) =
     (bindE (uint cycle 64 ''request cycle'') (\<lambda>n_cycle.
        Inr (to_be 8 n_cycle @ to_be 1 (route_value route) @ to_be 1 (reject_reason_value reason) @ zeros 6)))"

definition decode_request_reject_payload_v3 :: "bytes \<Rightarrow> RequestRejectPayloadV3 checked" where
  "decode_request_reject_payload_v3 data =
     (if length data \<noteq> 16 then Inl ''request reject payload length is invalid''
      else let f = unpack [8, 1, 1, 6] data in
        if f ! 3 \<noteq> zeros 6 then Inl ''request reject reserved field is invalid'' else
        bindE (enum route_value route_members (be_int (f ! 1)) ''route'') (\<lambda>e_route.
        bindE (enum reject_reason_value reject_reason_members (be_int (f ! 2)) ''request reject reason'') (\<lambda>e_reason.
          decode_with encode_request_reject_payload_v3 (RequestRejectPayloadV3 (be_int (f ! 0)) e_route e_reason))))"

interpretation request_reject: codec encode_request_reject_payload_v3 decode_request_reject_payload_v3 "\<lambda>_. True"
  by (rule layout_codecI [where ws = "[8, 1, 1, 6]"])
    (auto simp: decode_request_reject_payload_v3_def decoding wire_simps elim!: encode_request_reject_payload_v3.elims split: if_splits)

datatype WorkBeginPayloadV3 = WorkBeginPayloadV3 int RouteV3 bytes bytes

fun encode_work_begin_payload_v3 :: "WorkBeginPayloadV3 \<Rightarrow> bytes checked" where
  "encode_work_begin_payload_v3 (WorkBeginPayloadV3 cycle route request_permit_token route_work_permit_token) =
     (bindE (uint cycle 64 ''request cycle'') (\<lambda>n_cycle.
      bindE (nonzero_bytes request_permit_token 32 ''request permit token'') (\<lambda>b_request_permit_token.
      bindE (nonzero_bytes route_work_permit_token 32 ''route work permit token'') (\<lambda>b_route_work_permit_token.
        Inr (to_be 8 n_cycle @ to_be 1 (route_value route) @ zeros 7 @ b_request_permit_token @
          b_route_work_permit_token)))))"

definition decode_work_begin_payload_v3 :: "bytes \<Rightarrow> WorkBeginPayloadV3 checked" where
  "decode_work_begin_payload_v3 data =
     (if length data \<noteq> 80 then Inl ''work begin payload length is invalid''
      else let f = unpack [8, 1, 7, 32, 32] data in
        if f ! 2 \<noteq> zeros 7 then Inl ''work begin reserved field is invalid'' else
        bindE (enum route_value route_members (be_int (f ! 1)) ''route'') (\<lambda>e_route.
          decode_with encode_work_begin_payload_v3 (WorkBeginPayloadV3 (be_int (f ! 0)) e_route (f ! 3) (f ! 4))))"

interpretation work_begin: codec encode_work_begin_payload_v3 decode_work_begin_payload_v3 "\<lambda>_. True"
  by (rule layout_codecI [where ws = "[8, 1, 7, 32, 32]"])
    (auto simp: decode_work_begin_payload_v3_def decoding wire_simps elim!: encode_work_begin_payload_v3.elims split: if_splits)

datatype WorkFinishPayloadV3 = WorkFinishPayloadV3 int RouteV3 WorkFinishOutcomeV3 bytes bytes

fun encode_work_finish_payload_v3 :: "WorkFinishPayloadV3 \<Rightarrow> bytes checked" where
  "encode_work_finish_payload_v3 (WorkFinishPayloadV3 cycle route outcome request_permit_token route_work_permit_token) =
     (bindE (uint cycle 64 ''request cycle'') (\<lambda>n_cycle.
      bindE (nonzero_bytes request_permit_token 32 ''request permit token'') (\<lambda>b_request_permit_token.
      bindE (nonzero_bytes route_work_permit_token 32 ''route work permit token'') (\<lambda>b_route_work_permit_token.
        Inr (to_be 8 n_cycle @ to_be 1 (route_value route) @ to_be 1 (finish_outcome_value outcome) @
          zeros 6 @ b_request_permit_token @ b_route_work_permit_token)))))"

definition decode_work_finish_payload_v3 :: "bytes \<Rightarrow> WorkFinishPayloadV3 checked" where
  "decode_work_finish_payload_v3 data =
     (if length data \<noteq> 80 then Inl ''work finish payload length is invalid''
      else let f = unpack [8, 1, 1, 6, 32, 32] data in
        if f ! 3 \<noteq> zeros 6 then Inl ''work finish reserved field is invalid'' else
        bindE (enum route_value route_members (be_int (f ! 1)) ''route'') (\<lambda>e_route.
        bindE (enum finish_outcome_value finish_outcome_members (be_int (f ! 2)) ''work finish outcome'') (\<lambda>e_outcome.
          decode_with encode_work_finish_payload_v3 (WorkFinishPayloadV3 (be_int (f ! 0)) e_route e_outcome (f ! 4) (f ! 5)))))"

interpretation work_finish: codec encode_work_finish_payload_v3 decode_work_finish_payload_v3 "\<lambda>_. True"
  by (rule layout_codecI [where ws = "[8, 1, 1, 6, 32, 32]"])
    (auto simp: decode_work_finish_payload_v3_def decoding wire_simps elim!: encode_work_finish_payload_v3.elims split: if_splits)

datatype RequestReleasePayloadV3 = RequestReleasePayloadV3 int RouteV3 RequestReleaseStateV3 bytes bytes bytes

fun encode_request_release_payload_v3 :: "RequestReleasePayloadV3 \<Rightarrow> bytes checked" where
  "encode_request_release_payload_v3 (RequestReleasePayloadV3 cycle route state request_permit_token route_work_permit_token buffer_permit_token) =
     (bindE (uint cycle 64 ''request cycle'') (\<lambda>n_cycle.
      bindE (nonzero_bytes request_permit_token 32 ''request permit token'') (\<lambda>b_request_permit_token.
      bindE (nonzero_bytes route_work_permit_token 32 ''route work permit token'') (\<lambda>b_route_work_permit_token.
      bindE (nonzero_bytes buffer_permit_token 32 ''buffer permit token'') (\<lambda>b_buffer_permit_token.
        Inr (to_be 8 n_cycle @ to_be 1 (route_value route) @ to_be 1 (release_state_value state) @ zeros 6 @
          b_request_permit_token @ b_route_work_permit_token @ b_buffer_permit_token))))))"

definition decode_request_release_payload_v3 :: "bytes \<Rightarrow> RequestReleasePayloadV3 checked" where
  "decode_request_release_payload_v3 data =
     (if length data \<noteq> 112 then Inl ''request release payload length is invalid''
      else let f = unpack [8, 1, 1, 6, 32, 32, 32] data in
        if f ! 3 \<noteq> zeros 6 then Inl ''request release reserved field is invalid'' else
        bindE (enum route_value route_members (be_int (f ! 1)) ''route'') (\<lambda>e_route.
        bindE (enum release_state_value release_state_members (be_int (f ! 2)) ''request release state'') (\<lambda>e_state.
          decode_with encode_request_release_payload_v3 (RequestReleasePayloadV3 (be_int (f ! 0)) e_route e_state (f ! 4) (f ! 5) (f ! 6)))))"

interpretation request_release: codec encode_request_release_payload_v3 decode_request_release_payload_v3 "\<lambda>_. True"
  by (rule layout_codecI [where ws = "[8, 1, 1, 6, 32, 32, 32]"])
    (auto simp: decode_request_release_payload_v3_def decoding wire_simps elim!: encode_request_release_payload_v3.elims split: if_splits)

datatype RequestReleasedPayloadV3 = RequestReleasedPayloadV3 int RouteV3 bytes

fun encode_request_released_payload_v3 :: "RequestReleasedPayloadV3 \<Rightarrow> bytes checked" where
  "encode_request_released_payload_v3 (RequestReleasedPayloadV3 cycle route request_permit_token) =
     (bindE (uint cycle 64 ''request cycle'') (\<lambda>n_cycle.
      bindE (exact_bytes request_permit_token 32 ''request permit token'') (\<lambda>b_request_permit_token.
        Inr (to_be 8 n_cycle @ to_be 1 (route_value route) @ zeros 7 @ b_request_permit_token))))"

definition decode_request_released_payload_v3 :: "bytes \<Rightarrow> RequestReleasedPayloadV3 checked" where
  "decode_request_released_payload_v3 data =
     (if length data \<noteq> 48 then Inl ''request released payload length is invalid''
      else let f = unpack [8, 1, 7, 32] data in
        if f ! 2 \<noteq> zeros 7 then Inl ''request released reserved field is invalid'' else
        bindE (enum route_value route_members (be_int (f ! 1)) ''route'') (\<lambda>e_route.
          decode_with encode_request_released_payload_v3 (RequestReleasedPayloadV3 (be_int (f ! 0)) e_route (f ! 3))))"

interpretation request_released: codec encode_request_released_payload_v3 decode_request_released_payload_v3 "\<lambda>_. True"
  by (rule layout_codecI [where ws = "[8, 1, 7, 32]"])
    (auto simp: decode_request_released_payload_v3_def decoding wire_simps elim!: encode_request_released_payload_v3.elims split: if_splits)

section \<open>Session release\<close>

text \<open>
  \<open>bitmap & ~0b111\<close> is nonzero when a bit from 3 on is set; \<open>held_slots_ok\<close> is the comparison of
  the slots with the three low bits.
\<close>

definition held_slots_ok :: "nat \<Rightarrow> bytes list \<Rightarrow> bool" where
  "held_slots_ok bitmap slots \<longleftrightarrow> list_all (\<lambda>(i, slot). bit bitmap i \<longleftrightarrow> slot \<noteq> zeros 32) (zip [0..<length slots] slots)"

datatype SessionReleasePayloadV3 = SessionReleasePayloadV3 int int SessionReleaseReasonV3 bytes bytes bytes

fun encode_session_release_payload_v3 :: "SessionReleasePayloadV3 \<Rightarrow> bytes checked" where
  "encode_session_release_payload_v3 (SessionReleasePayloadV3 cycle held_permit_bitmap closed_reason request_slot work_slot buffer_slot) =
     bindE (uint held_permit_bitmap 16 ''held permit bitmap'') (\<lambda>bitmap.
     if drop_bit 3 bitmap \<noteq> 0 then Inl ''held permit bitmap is invalid'' else
     bindE (exact_bytes request_slot 32 ''request permit slot'') (\<lambda>r.
     bindE (exact_bytes work_slot 32 ''route work permit slot'') (\<lambda>w.
     bindE (exact_bytes buffer_slot 32 ''buffer permit slot'') (\<lambda>b.
     if \<not> held_slots_ok bitmap [r, w, b] then Inl ''held permit slots disagree with bitmap'' else
     bindE (uint cycle 64 ''request cycle'') (\<lambda>c.
       Inr (to_be 8 c @ to_be 2 bitmap @ to_be 2 (release_reason_value closed_reason) @ zeros 4 @ r @ w @ b))))))"

definition decode_session_release_payload_v3 :: "bytes \<Rightarrow> SessionReleasePayloadV3 checked" where
  "decode_session_release_payload_v3 data =
     (if length data \<noteq> 112 then Inl ''session release payload length is invalid''
      else let f = unpack [8, 2, 2, 4, 32, 32, 32] data in
        if f ! 3 \<noteq> zeros 4 then Inl ''session release reserved field is invalid'' else
        bindE (enum release_reason_value release_reason_members (be_int (f ! 2)) ''session release reason'') (\<lambda>e_reason.
          decode_with encode_session_release_payload_v3
            (SessionReleasePayloadV3 (be_int (f ! 0)) (be_int (f ! 1)) e_reason (f ! 4) (f ! 5) (f ! 6))))"

interpretation session_release: codec encode_session_release_payload_v3 decode_session_release_payload_v3 "\<lambda>_. True"
  by (rule layout_codecI [where ws = "[8, 2, 2, 4, 32, 32, 32]"])
    (auto simp: decode_session_release_payload_v3_def decoding wire_simps elim!: encode_session_release_payload_v3.elims split: if_splits)

datatype SessionReleasedPayloadV3 = SessionReleasedPayloadV3 int int SessionReleaseReasonV3

fun encode_session_released_payload_v3 :: "SessionReleasedPayloadV3 \<Rightarrow> bytes checked" where
  "encode_session_released_payload_v3 (SessionReleasedPayloadV3 cycle prior_held_bitmap prior_reason) =
     bindE (uint prior_held_bitmap 16 ''prior held bitmap'') (\<lambda>bitmap.
     if drop_bit 3 bitmap \<noteq> 0 then Inl ''prior held bitmap is invalid'' else
     bindE (uint cycle 64 ''request cycle'') (\<lambda>c.
       Inr (to_be 8 c @ to_be 2 bitmap @ to_be 2 (release_reason_value prior_reason) @ zeros 4)))"

definition decode_session_released_payload_v3 :: "bytes \<Rightarrow> SessionReleasedPayloadV3 checked" where
  "decode_session_released_payload_v3 data =
     (if length data \<noteq> 16 then Inl ''session released payload length is invalid''
      else let f = unpack [8, 2, 2, 4] data in
        if f ! 3 \<noteq> zeros 4 then Inl ''session released reserved field is invalid'' else
        bindE (enum release_reason_value release_reason_members (be_int (f ! 2)) ''session release reason'') (\<lambda>e_reason.
          decode_with encode_session_released_payload_v3 (SessionReleasedPayloadV3 (be_int (f ! 0)) (be_int (f ! 1)) e_reason)))"

interpretation session_released: codec encode_session_released_payload_v3 decode_session_released_payload_v3 "\<lambda>_. True"
  by (rule layout_codecI [where ws = "[8, 2, 2, 4]"])
    (auto simp: decode_session_released_payload_v3_def decoding wire_simps elim!: encode_session_released_payload_v3.elims split: if_splits)

section \<open>Notices and acknowledgements\<close>

datatype PreRequestRejectedPayloadV3 = PreRequestRejectedPayloadV3 int PreRequestRejectedReasonV3

fun encode_pre_request_rejected_payload_v3 :: "PreRequestRejectedPayloadV3 \<Rightarrow> bytes checked" where
  "encode_pre_request_rejected_payload_v3 (PreRequestRejectedPayloadV3 next_cycle reason) =
     (bindE (uint next_cycle 64 ''next cycle'') (\<lambda>n_next_cycle.
        Inr (to_be 8 n_next_cycle @ to_be 2 (pre_reason_value reason) @ zeros 6)))"

definition decode_pre_request_rejected_payload_v3 :: "bytes \<Rightarrow> PreRequestRejectedPayloadV3 checked" where
  "decode_pre_request_rejected_payload_v3 data =
     (if length data \<noteq> 16 then Inl ''pre-request rejection payload length is invalid''
      else let f = unpack [8, 2, 6] data in
        if f ! 2 \<noteq> zeros 6 then Inl ''pre-request rejection reserved field is invalid'' else
        bindE (enum pre_reason_value pre_reason_members (be_int (f ! 1)) ''pre-request rejection reason'') (\<lambda>e_reason.
          decode_with encode_pre_request_rejected_payload_v3 (PreRequestRejectedPayloadV3 (be_int (f ! 0)) e_reason)))"

interpretation pre_request_rejected: codec encode_pre_request_rejected_payload_v3 decode_pre_request_rejected_payload_v3 "\<lambda>_. True"
  by (rule layout_codecI [where ws = "[8, 2, 6]"])
    (auto simp: decode_pre_request_rejected_payload_v3_def decoding wire_simps elim!: encode_pre_request_rejected_payload_v3.elims split: if_splits)

datatype GlobalFaultPayloadV3 = GlobalFaultPayloadV3 int GlobalFaultReasonV3 bytes

fun encode_global_fault_payload_v3 :: "GlobalFaultPayloadV3 \<Rightarrow> bytes checked" where
  "encode_global_fault_payload_v3 (GlobalFaultPayloadV3 cycle reason gateway_reducer_instance_token) =
     (bindE (uint cycle 64 ''global fault cycle'') (\<lambda>n_cycle.
      bindE (exact_bytes gateway_reducer_instance_token 32 ''gateway reducer token'') (\<lambda>b_gateway_reducer_instance_token.
        Inr (to_be 8 n_cycle @ to_be 2 (fault_reason_value reason) @ zeros 6 @
          b_gateway_reducer_instance_token))))"

definition decode_global_fault_payload_v3 :: "bytes \<Rightarrow> GlobalFaultPayloadV3 checked" where
  "decode_global_fault_payload_v3 data =
     (if length data \<noteq> 48 then Inl ''global fault payload length is invalid''
      else let f = unpack [8, 2, 6, 32] data in
        if f ! 2 \<noteq> zeros 6 then Inl ''global fault reserved field is invalid'' else
        bindE (enum fault_reason_value fault_reason_members (be_int (f ! 1)) ''global fault reason'') (\<lambda>e_reason.
          decode_with encode_global_fault_payload_v3 (GlobalFaultPayloadV3 (be_int (f ! 0)) e_reason (f ! 3))))"

interpretation global_fault: codec encode_global_fault_payload_v3 decode_global_fault_payload_v3 "\<lambda>_. True"
  by (rule layout_codecI [where ws = "[8, 2, 6, 32]"])
    (auto simp: decode_global_fault_payload_v3_def decoding wire_simps elim!: encode_global_fault_payload_v3.elims split: if_splits)

datatype ChunkAckPayloadV3 = ChunkAckPayloadV3 int int int bytes

fun encode_chunk_ack_payload_v3 :: "ChunkAckPayloadV3 \<Rightarrow> bytes checked" where
  "encode_chunk_ack_payload_v3 (ChunkAckPayloadV3 acknowledged_message_sequence chunk_index cumulative_payload_bytes rolling_sha256) =
     (bindE (uint acknowledged_message_sequence 32 ''acknowledged sequence'') (\<lambda>n_acknowledged_message_sequence.
      bindE (uint chunk_index 32 ''acknowledged chunk index'') (\<lambda>n_chunk_index.
      bindE (uint cumulative_payload_bytes 64 ''cumulative payload bytes'') (\<lambda>n_cumulative_payload_bytes.
      bindE (exact_bytes rolling_sha256 32 ''rolling digest'') (\<lambda>b_rolling_sha256.
        Inr (to_be 4 n_acknowledged_message_sequence @ to_be 4 n_chunk_index @
          to_be 8 n_cumulative_payload_bytes @ b_rolling_sha256))))))"

definition decode_chunk_ack_payload_v3 :: "bytes \<Rightarrow> ChunkAckPayloadV3 checked" where
  "decode_chunk_ack_payload_v3 data =
     (if length data \<noteq> 48 then Inl ''chunk acknowledgement payload length is invalid''
      else let f = unpack [4, 4, 8, 32] data in
          decode_with encode_chunk_ack_payload_v3 (ChunkAckPayloadV3 (be_int (f ! 0)) (be_int (f ! 1)) (be_int (f ! 2)) (f ! 3)))"

interpretation chunk_ack: codec encode_chunk_ack_payload_v3 decode_chunk_ack_payload_v3 "\<lambda>_. True"
  by (rule layout_codecI [where ws = "[4, 4, 8, 32]"])
    (auto simp: decode_chunk_ack_payload_v3_def decoding wire_simps elim!: encode_chunk_ack_payload_v3.elims split: if_splits)

datatype SessionFdAckPayloadV3 = SessionFdAckPayloadV3 int int bytes

fun encode_session_fd_ack_payload_v3 :: "SessionFdAckPayloadV3 \<Rightarrow> bytes checked" where
  "encode_session_fd_ack_payload_v3 (SessionFdAckPayloadV3 session_epoch so_cookie gateway_reducer_instance_token) =
     (bindE (uint session_epoch 64 ''session epoch'') (\<lambda>n_session_epoch.
      bindE (uint so_cookie 64 ''socket cookie'') (\<lambda>n_so_cookie.
      bindE (exact_bytes gateway_reducer_instance_token 32 ''gateway reducer token'') (\<lambda>b_gateway_reducer_instance_token.
        Inr (to_be 8 n_session_epoch @ to_be 8 n_so_cookie @ b_gateway_reducer_instance_token)))))"

definition decode_session_fd_ack_payload_v3 :: "bytes \<Rightarrow> SessionFdAckPayloadV3 checked" where
  "decode_session_fd_ack_payload_v3 data =
     (if length data \<noteq> 48 then Inl ''session FD acknowledgement length is invalid''
      else let f = unpack [8, 8, 32] data in
          decode_with encode_session_fd_ack_payload_v3 (SessionFdAckPayloadV3 (be_int (f ! 0)) (be_int (f ! 1)) (f ! 2)))"

interpretation session_fd_ack: codec encode_session_fd_ack_payload_v3 decode_session_fd_ack_payload_v3 "\<lambda>_. True"
  by (rule layout_codecI [where ws = "[8, 8, 32]"])
    (auto simp: decode_session_fd_ack_payload_v3_def decoding wire_simps elim!: encode_session_fd_ack_payload_v3.elims split: if_splits)

section \<open>Gateway readiness\<close>

datatype GatewayReadinessProbePayloadV3 = GatewayReadinessProbePayloadV3 int int

fun encode_gateway_readiness_probe_payload_v3 :: "GatewayReadinessProbePayloadV3 \<Rightarrow> bytes checked" where
  "encode_gateway_readiness_probe_payload_v3 (GatewayReadinessProbePayloadV3 census_generation deadline) =
     bindE (uint census_generation 64 ''census generation'') (\<lambda>generation.
     if generation \<noteq> 1 then Inl ''gateway readiness generation is invalid'' else
     if \<not> (0 < deadline \<and> deadline < 2 ^ 64) then Inl ''gateway readiness deadline is invalid'' else
     bindE (uint deadline 64 ''readiness deadline'') (\<lambda>d.
       Inr (to_be 8 generation @ to_be 8 d)))"

definition decode_gateway_readiness_probe_payload_v3 :: "bytes \<Rightarrow> GatewayReadinessProbePayloadV3 checked" where
  "decode_gateway_readiness_probe_payload_v3 data =
     (if length data \<noteq> 16 then Inl ''gateway readiness probe payload length is invalid''
      else let f = unpack [8, 8] data in
        decode_with encode_gateway_readiness_probe_payload_v3 (GatewayReadinessProbePayloadV3 (be_int (f ! 0)) (be_int (f ! 1))))"

interpretation readiness_probe: codec encode_gateway_readiness_probe_payload_v3 decode_gateway_readiness_probe_payload_v3 "\<lambda>_. True"
  by (rule layout_codecI [where ws = "[8, 8]"])
    (auto simp: decode_gateway_readiness_probe_payload_v3_def decoding wire_simps elim!: encode_gateway_readiness_probe_payload_v3.elims split: if_splits)

datatype GatewayReadinessResultPayloadV3 = GatewayReadinessResultPayloadV3 int int int int bytes int

fun encode_gateway_readiness_result_payload_v3 :: "GatewayReadinessResultPayloadV3 \<Rightarrow> bytes checked" where
  "encode_gateway_readiness_result_payload_v3
     (GatewayReadinessResultPayloadV3 census_generation gateway_pid session_worker_count flags executable_sha256 cookie) =
     bindE (uint census_generation 64 ''census generation'') (\<lambda>generation.
     if generation \<noteq> 1 then Inl ''gateway readiness generation is invalid'' else
     if \<not> (0 < gateway_pid \<and> gateway_pid < 2 ^ 32) then Inl ''gateway readiness PID is invalid'' else
     if \<not> (0 \<le> session_worker_count \<and> session_worker_count \<le> 4) then Inl ''gateway readiness worker count is invalid'' else
     bindE (uint flags 16 ''gateway readiness flags'') (\<lambda>n_flags.
     if n_flags \<noteq> 1 then Inl ''gateway readiness flags are invalid'' else
     if \<not> (0 < cookie \<and> cookie < 2 ^ 64) then Inl ''gateway readiness control endpoint cookie is invalid'' else
     bindE (uint gateway_pid 32 ''gateway PID'') (\<lambda>pid.
     bindE (uint session_worker_count 16 ''session worker count'') (\<lambda>count.
     bindE (exact_bytes executable_sha256 32 ''gateway executable digest'') (\<lambda>digest.
     bindE (uint cookie 64 ''control endpoint socket cookie'') (\<lambda>c.
       Inr (to_be 8 generation @ to_be 4 pid @ to_be 2 count @ to_be 2 n_flags @ digest @ to_be 8 c)))))))"

definition decode_gateway_readiness_result_payload_v3 :: "bytes \<Rightarrow> GatewayReadinessResultPayloadV3 checked" where
  "decode_gateway_readiness_result_payload_v3 data =
     (if length data \<noteq> 56 then Inl ''gateway readiness result payload length is invalid''
      else let f = unpack [8, 4, 2, 2, 32, 8] data in
        decode_with encode_gateway_readiness_result_payload_v3
          (GatewayReadinessResultPayloadV3 (be_int (f ! 0)) (be_int (f ! 1)) (be_int (f ! 2)) (be_int (f ! 3)) (f ! 4) (be_int (f ! 5))))"

interpretation readiness_result: codec encode_gateway_readiness_result_payload_v3 decode_gateway_readiness_result_payload_v3 "\<lambda>_. True"
  by (rule layout_codecI [where ws = "[8, 4, 2, 2, 32, 8]"])
    (auto simp: decode_gateway_readiness_result_payload_v3_def decoding wire_simps elim!: encode_gateway_readiness_result_payload_v3.elims split: if_splits)

end
