(* ===== verification/Boot_Wire.thy ===== *)
theory Boot_Wire
  imports Wire_Payloads
begin

text \<open>
  The frames of \<open>conf_proc_spp_boot_v3_wire.py\<close>: the table of payload decoders, the fixed header,
  frames with their token and descriptor rules, and the reassembly of a chunked collector response.
  The codecs of the payloads give one codec for the table, and that one the frame theorems.
\<close>

unbundle bit_operations_syntax

section \<open>The payload table\<close>

text \<open>The payload of a frame: a decoded dataclass, or the bytes of one chunk of a train.\<close>

datatype wire_payload =
    P_session_fd SessionFdPayloadV3
  | P_collector_request CollectorRequestPayloadV3
  | P_collector_response CollectorResponsePayloadV3
  | P_collector_ack_valid CollectorAckValidPayloadV3
  | P_collector_ack_invalid CollectorAckInvalidPayloadV3
  | P_collector_cancel CollectorCancelPayloadV3
  | P_request_acquire RequestAcquirePayloadV3
  | P_request_admit RequestAdmitPayloadV3
  | P_request_reject RequestRejectPayloadV3
  | P_work_begin WorkBeginPayloadV3
  | P_work_finish WorkFinishPayloadV3
  | P_request_release RequestReleasePayloadV3
  | P_request_released RequestReleasedPayloadV3
  | P_session_release SessionReleasePayloadV3
  | P_session_released SessionReleasedPayloadV3
  | P_pre_request_rejected PreRequestRejectedPayloadV3
  | P_global_fault GlobalFaultPayloadV3
  | P_chunk_ack ChunkAckPayloadV3
  | P_session_fd_ack SessionFdAckPayloadV3
  | P_gateway_readiness_probe GatewayReadinessProbePayloadV3
  | P_gateway_readiness_result GatewayReadinessResultPayloadV3
  | P_chunk bytes

fun decode_wire_payload :: "ServingWireMessageTypeV3 \<Rightarrow> bytes \<Rightarrow> wire_payload checked" where
  "decode_wire_payload SESSION_FD data = map_sum id P_session_fd (decode_session_fd_payload_v3 data)"
| "decode_wire_payload COLLECTOR_REQUEST data = map_sum id P_collector_request (decode_collector_request_payload_v3 data)"
| "decode_wire_payload COLLECTOR_RESPONSE data = map_sum id P_collector_response (decode_collector_response_payload_v3 data)"
| "decode_wire_payload COLLECTOR_ACK_VALID data = map_sum id P_collector_ack_valid (decode_collector_ack_valid_payload_v3 data)"
| "decode_wire_payload COLLECTOR_ACK_INVALID data = map_sum id P_collector_ack_invalid (decode_collector_ack_invalid_payload_v3 data)"
| "decode_wire_payload COLLECTOR_CANCEL data = map_sum id P_collector_cancel (decode_collector_cancel_payload_v3 data)"
| "decode_wire_payload REQUEST_ACQUIRE data = map_sum id P_request_acquire (decode_request_acquire_payload_v3 data)"
| "decode_wire_payload REQUEST_ADMIT data = map_sum id P_request_admit (decode_request_admit_payload_v3 data)"
| "decode_wire_payload REQUEST_REJECT data = map_sum id P_request_reject (decode_request_reject_payload_v3 data)"
| "decode_wire_payload WORK_BEGIN data = map_sum id P_work_begin (decode_work_begin_payload_v3 data)"
| "decode_wire_payload WORK_BEGUN data = map_sum id P_work_begin (decode_work_begin_payload_v3 data)"
| "decode_wire_payload WORK_FINISH data = map_sum id P_work_finish (decode_work_finish_payload_v3 data)"
| "decode_wire_payload WORK_FINISHED data = map_sum id P_work_finish (decode_work_finish_payload_v3 data)"
| "decode_wire_payload REQUEST_RELEASE data = map_sum id P_request_release (decode_request_release_payload_v3 data)"
| "decode_wire_payload REQUEST_RELEASED data = map_sum id P_request_released (decode_request_released_payload_v3 data)"
| "decode_wire_payload SESSION_RELEASE data = map_sum id P_session_release (decode_session_release_payload_v3 data)"
| "decode_wire_payload SESSION_RELEASED data = map_sum id P_session_released (decode_session_released_payload_v3 data)"
| "decode_wire_payload PRE_REQUEST_REJECTED data = map_sum id P_pre_request_rejected (decode_pre_request_rejected_payload_v3 data)"
| "decode_wire_payload GLOBAL_FAULT data = map_sum id P_global_fault (decode_global_fault_payload_v3 data)"
| "decode_wire_payload CHUNK_ACK data = map_sum id P_chunk_ack (decode_chunk_ack_payload_v3 data)"
| "decode_wire_payload SESSION_FD_ACK data = map_sum id P_session_fd_ack (decode_session_fd_ack_payload_v3 data)"
| "decode_wire_payload GATEWAY_READINESS_PROBE data = map_sum id P_gateway_readiness_probe (decode_gateway_readiness_probe_payload_v3 data)"
| "decode_wire_payload GATEWAY_READINESS_RESULT data = map_sum id P_gateway_readiness_result (decode_gateway_readiness_result_payload_v3 data)"

text \<open>The encoders as one function, and which message types carry which payload.\<close>

fun encode_wire_payload :: "wire_payload \<Rightarrow> bytes checked" where
  "encode_wire_payload (P_session_fd p) = encode_session_fd_payload_v3 p"
| "encode_wire_payload (P_collector_request p) = encode_collector_request_payload_v3 p"
| "encode_wire_payload (P_collector_response p) = encode_collector_response_payload_v3 p"
| "encode_wire_payload (P_collector_ack_valid p) = encode_collector_ack_valid_payload_v3 p"
| "encode_wire_payload (P_collector_ack_invalid p) = encode_collector_ack_invalid_payload_v3 p"
| "encode_wire_payload (P_collector_cancel p) = encode_collector_cancel_payload_v3 p"
| "encode_wire_payload (P_request_acquire p) = encode_request_acquire_payload_v3 p"
| "encode_wire_payload (P_request_admit p) = encode_request_admit_payload_v3 p"
| "encode_wire_payload (P_request_reject p) = encode_request_reject_payload_v3 p"
| "encode_wire_payload (P_work_begin p) = encode_work_begin_payload_v3 p"
| "encode_wire_payload (P_work_finish p) = encode_work_finish_payload_v3 p"
| "encode_wire_payload (P_request_release p) = encode_request_release_payload_v3 p"
| "encode_wire_payload (P_request_released p) = encode_request_released_payload_v3 p"
| "encode_wire_payload (P_session_release p) = encode_session_release_payload_v3 p"
| "encode_wire_payload (P_session_released p) = encode_session_released_payload_v3 p"
| "encode_wire_payload (P_pre_request_rejected p) = encode_pre_request_rejected_payload_v3 p"
| "encode_wire_payload (P_global_fault p) = encode_global_fault_payload_v3 p"
| "encode_wire_payload (P_chunk_ack p) = encode_chunk_ack_payload_v3 p"
| "encode_wire_payload (P_session_fd_ack p) = encode_session_fd_ack_payload_v3 p"
| "encode_wire_payload (P_gateway_readiness_probe p) = encode_gateway_readiness_probe_payload_v3 p"
| "encode_wire_payload (P_gateway_readiness_result p) = encode_gateway_readiness_result_payload_v3 p"
| "encode_wire_payload (P_chunk data) = Inl ''payload is a chunk''"

fun carries :: "ServingWireMessageTypeV3 \<Rightarrow> wire_payload \<Rightarrow> bool" where
  "carries SESSION_FD p \<longleftrightarrow> (case p of P_session_fd _ \<Rightarrow> True | _ \<Rightarrow> False)"
| "carries COLLECTOR_REQUEST p \<longleftrightarrow> (case p of P_collector_request _ \<Rightarrow> True | _ \<Rightarrow> False)"
| "carries COLLECTOR_RESPONSE p \<longleftrightarrow> (case p of P_collector_response _ \<Rightarrow> True | _ \<Rightarrow> False)"
| "carries COLLECTOR_ACK_VALID p \<longleftrightarrow> (case p of P_collector_ack_valid _ \<Rightarrow> True | _ \<Rightarrow> False)"
| "carries COLLECTOR_ACK_INVALID p \<longleftrightarrow> (case p of P_collector_ack_invalid _ \<Rightarrow> True | _ \<Rightarrow> False)"
| "carries COLLECTOR_CANCEL p \<longleftrightarrow> (case p of P_collector_cancel _ \<Rightarrow> True | _ \<Rightarrow> False)"
| "carries REQUEST_ACQUIRE p \<longleftrightarrow> (case p of P_request_acquire _ \<Rightarrow> True | _ \<Rightarrow> False)"
| "carries REQUEST_ADMIT p \<longleftrightarrow> (case p of P_request_admit _ \<Rightarrow> True | _ \<Rightarrow> False)"
| "carries REQUEST_REJECT p \<longleftrightarrow> (case p of P_request_reject _ \<Rightarrow> True | _ \<Rightarrow> False)"
| "carries WORK_BEGIN p \<longleftrightarrow> (case p of P_work_begin _ \<Rightarrow> True | _ \<Rightarrow> False)"
| "carries WORK_BEGUN p \<longleftrightarrow> (case p of P_work_begin _ \<Rightarrow> True | _ \<Rightarrow> False)"
| "carries WORK_FINISH p \<longleftrightarrow> (case p of P_work_finish _ \<Rightarrow> True | _ \<Rightarrow> False)"
| "carries WORK_FINISHED p \<longleftrightarrow> (case p of P_work_finish _ \<Rightarrow> True | _ \<Rightarrow> False)"
| "carries REQUEST_RELEASE p \<longleftrightarrow> (case p of P_request_release _ \<Rightarrow> True | _ \<Rightarrow> False)"
| "carries REQUEST_RELEASED p \<longleftrightarrow> (case p of P_request_released _ \<Rightarrow> True | _ \<Rightarrow> False)"
| "carries SESSION_RELEASE p \<longleftrightarrow> (case p of P_session_release _ \<Rightarrow> True | _ \<Rightarrow> False)"
| "carries SESSION_RELEASED p \<longleftrightarrow> (case p of P_session_released _ \<Rightarrow> True | _ \<Rightarrow> False)"
| "carries PRE_REQUEST_REJECTED p \<longleftrightarrow> (case p of P_pre_request_rejected _ \<Rightarrow> True | _ \<Rightarrow> False)"
| "carries GLOBAL_FAULT p \<longleftrightarrow> (case p of P_global_fault _ \<Rightarrow> True | _ \<Rightarrow> False)"
| "carries CHUNK_ACK p \<longleftrightarrow> (case p of P_chunk_ack _ \<Rightarrow> True | _ \<Rightarrow> False)"
| "carries SESSION_FD_ACK p \<longleftrightarrow> (case p of P_session_fd_ack _ \<Rightarrow> True | _ \<Rightarrow> False)"
| "carries GATEWAY_READINESS_PROBE p \<longleftrightarrow> (case p of P_gateway_readiness_probe _ \<Rightarrow> True | _ \<Rightarrow> False)"
| "carries GATEWAY_READINESS_RESULT p \<longleftrightarrow> (case p of P_gateway_readiness_result _ \<Rightarrow> True | _ \<Rightarrow> False)"

lemma map_sum_Inr: "map_sum id c r = Inr p \<longleftrightarrow> (\<exists>x. r = Inr x \<and> p = c x)"
  by (cases r) auto

lemmas payload_iffs =
  session_fd.decode_iff [OF TrueI]
  collector_request.decode_iff [OF TrueI]
  collector_response.decode_iff [OF TrueI]
  collector_ack_valid.decode_iff [OF TrueI]
  collector_ack_invalid.decode_iff [OF TrueI]
  collector_cancel.decode_iff [OF TrueI]
  request_acquire.decode_iff [OF TrueI]
  request_admit.decode_iff [OF TrueI]
  request_reject.decode_iff [OF TrueI]
  work_begin.decode_iff [OF TrueI]
  work_finish.decode_iff [OF TrueI]
  request_release.decode_iff [OF TrueI]
  request_released.decode_iff [OF TrueI]
  session_release.decode_iff [OF TrueI]
  session_released.decode_iff [OF TrueI]
  pre_request_rejected.decode_iff [OF TrueI]
  global_fault.decode_iff [OF TrueI]
  chunk_ack.decode_iff [OF TrueI]
  session_fd_ack.decode_iff [OF TrueI]
  readiness_probe.decode_iff [OF TrueI]
  readiness_result.decode_iff [OF TrueI]

lemma decode_wire_payload_iff: "decode_wire_payload mt b = Inr p \<longleftrightarrow> carries mt p \<and> encode_wire_payload p = Inr b"
  by (cases mt) (auto simp: map_sum_Inr payload_iffs split: wire_payload.splits)

section \<open>The header\<close>

record ServingWireHeaderV3 =
  version :: int
  message_type :: ServingWireMessageTypeV3
  flags :: int
  sequence :: int
  chunk_index :: int
  chunk_count :: int
  chunk_length :: int
  total_length :: int
  session_token :: bytes

definition HEADER_MAGIC_V3 :: bytes where "HEADER_MAGIC_V3 = ''SPPIPC3'' @ [CHR 0x00]"
definition HEADER_SIZE_V3 :: nat where "HEADER_SIZE_V3 = 72"
definition HEADER_VERSION_V3 :: int where "HEADER_VERSION_V3 = 3"
definition MAX_CHUNK_PAYLOAD_BYTES_V3 :: nat where "MAX_CHUNK_PAYLOAD_BYTES_V3 = 16384"
definition FLAG_START_V3 :: int where "FLAG_START_V3 = 1"
definition FLAG_END_V3 :: int where "FLAG_END_V3 = 2"
definition FLAG_HAS_FD_V3 :: int where "FLAG_HAS_FD_V3 = 4"

definition HEADER_FLAGS_MASK :: int where
  "HEADER_FLAGS_MASK = FLAG_START_V3 OR FLAG_END_V3 OR FLAG_HAS_FD_V3"

definition validate_header :: "ServingWireHeaderV3 \<Rightarrow> ServingWireHeaderV3 checked" where
  "validate_header h =
     (if version h \<noteq> HEADER_VERSION_V3 then Inl ''wire version is invalid'' else
      bindE (uint (flags h) 16 ''wire flags'') (\<lambda>_.
      if flags h AND NOT HEADER_FLAGS_MASK \<noteq> 0 then Inl ''wire flags are invalid'' else
      bindE (uint (sequence h) 32 ''wire sequence'') (\<lambda>_.
      bindE (uint (chunk_index h) 32 ''wire chunk index'') (\<lambda>_.
      bindE (uint (chunk_count h) 32 ''wire chunk count'') (\<lambda>_.
      bindE (uint (chunk_length h) 32 ''wire chunk length'') (\<lambda>_.
      bindE (uint (total_length h) 64 ''wire total length'') (\<lambda>_.
      bindE (exact_bytes (session_token h) 32 ''wire session token'') (\<lambda>_.
        Inr h))))))))"

definition encode_serving_wire_header_v3 :: "ServingWireHeaderV3 \<Rightarrow> bytes checked" where
  "encode_serving_wire_header_v3 header = bindE (validate_header header) (\<lambda>h.
     Inr (HEADER_MAGIC_V3 @ to_be 2 (nat (version h)) @ to_be 2 (message_type_value (message_type h)) @ to_be 2 (nat (flags h)) @
       to_be 2 0 @ to_be 4 (nat (sequence h)) @ to_be 4 (nat (chunk_index h)) @ to_be 4 (nat (chunk_count h)) @
       to_be 4 (nat (chunk_length h)) @ to_be 8 (nat (total_length h)) @ session_token h))"

text \<open>\<open>ServingWireMessageTypeV3(message_type)\<close>.\<close>

definition message_type_of :: "int \<Rightarrow> ServingWireMessageTypeV3 option" where
  "message_type_of v = find (\<lambda>e. int (message_type_value e) = v) message_type_members"

definition decode_serving_wire_header_v3 :: "bytes \<Rightarrow> ServingWireHeaderV3 checked" where
  "decode_serving_wire_header_v3 data =
     (if length data \<noteq> HEADER_SIZE_V3 then Inl ''wire header length is invalid''
      else let f = unpack [8, 2, 2, 2, 2, 4, 4, 4, 4, 8, 32] data in
        if f ! 0 \<noteq> HEADER_MAGIC_V3 then Inl ''wire header magic is invalid'' else
        if be_int (f ! 1) \<noteq> HEADER_VERSION_V3 then Inl ''wire header version is invalid'' else
        if be_int (f ! 4) \<noteq> 0 then Inl ''wire header reserved field is invalid'' else
        if be_int (f ! 3) AND NOT HEADER_FLAGS_MASK \<noteq> 0 then Inl ''wire header flags are invalid'' else
        case message_type_of (be_int (f ! 2)) of
          None \<Rightarrow> Inl ''wire header message type is invalid''
        | Some parsed_type \<Rightarrow>
            validate_header \<lparr>version = be_int (f ! 1), message_type = parsed_type, flags = be_int (f ! 3),
              sequence = be_int (f ! 5), chunk_index = be_int (f ! 6), chunk_count = be_int (f ! 7),
              chunk_length = be_int (f ! 8), total_length = be_int (f ! 9), session_token = f ! 10\<rparr>)"

lemma length_header_magic [simp]: "length HEADER_MAGIC_V3 = 8"
  by (simp add: HEADER_MAGIC_V3_def)

lemma message_type_of_Some [wire_simps]: "message_type_of v = Some mt \<longleftrightarrow> v = int (message_type_value mt)"
proof
  assume "message_type_of v = Some mt"
  then show "v = int (message_type_value mt)" by (auto simp: message_type_of_def find_Some_iff)
qed (use message_type.find_value [of mt] in \<open>simp add: message_type_of_def\<close>)

lemma message_type_of_value [wire_simps]: "message_type_of (int (message_type_value mt)) = Some mt"
  by (simp add: message_type_of_Some)

lemma validate_header_Inr [wire_simps]:
  "validate_header h = Inr r \<longleftrightarrow> r = h \<and> version h = 3 \<and> flags h AND NOT HEADER_FLAGS_MASK = 0 \<and>
     0 \<le> flags h \<and> flags h < 2 ^ 16 \<and> 0 \<le> sequence h \<and> sequence h < 2 ^ 32 \<and> 0 \<le> chunk_index h \<and> chunk_index h < 2 ^ 32 \<and>
     0 \<le> chunk_count h \<and> chunk_count h < 2 ^ 32 \<and> 0 \<le> chunk_length h \<and> chunk_length h < 2 ^ 32 \<and>
     0 \<le> total_length h \<and> total_length h < 2 ^ 64 \<and> length (session_token h) = 32"
  by (auto simp: validate_header_def HEADER_VERSION_V3_def decoding uint_Inr exact_bytes_Inr)

interpretation wire_header: codec encode_serving_wire_header_v3 decode_serving_wire_header_v3 "\<lambda>_. True"
  by (rule layout_codecI [where ws = "[8, 2, 2, 2, 2, 4, 4, 4, 4, 8, 32]"])
    (auto simp: encode_serving_wire_header_v3_def decode_serving_wire_header_v3_def HEADER_SIZE_V3_def HEADER_VERSION_V3_def
      decoding wire_simps split: if_splits option.splits)

lemma header_length: "encode_serving_wire_header_v3 h = Inr w \<Longrightarrow> length w = HEADER_SIZE_V3"
  using wire_header.decode_encode [of h w] by (auto simp: decode_serving_wire_header_v3_def split: if_splits)

section \<open>Frames\<close>

record ServingWireFrameV3 =
  header :: ServingWireHeaderV3
  payload :: wire_payload

abbreviation ZERO_TOKEN :: bytes where "ZERO_TOKEN \<equiv> zeros 32"

definition validate_session_token :: "ServingWireHeaderV3 \<Rightarrow> unit checked" where
  "validate_session_token h =
     (let mt = message_type h; token_is_zero = (session_token h = ZERO_TOKEN)
      in if (message_type_value SESSION_FD \<le> message_type_value mt \<and> message_type_value mt \<le> message_type_value PRE_REQUEST_REJECTED
            \<or> mt = SESSION_FD_ACK) \<and> token_is_zero
         then Inl ''session-scoped message has a zero session token''
         else if mt \<in> {GATEWAY_READINESS_PROBE, GATEWAY_READINESS_RESULT} \<and> \<not> token_is_zero
         then Inl ''readiness message has a nonzero session token''
         else Inr ())"

definition encode_serving_wire_frame_v3 ::
    "ServingWireMessageTypeV3 \<Rightarrow> bytes \<Rightarrow> int \<Rightarrow> int \<Rightarrow> int \<Rightarrow> int \<Rightarrow> int \<Rightarrow> int \<Rightarrow> bytes \<Rightarrow> bytes checked" where
  "encode_serving_wire_frame_v3 mt token seq index count clength tlength flgs payload_bytes =
     (if clength \<noteq> int (length payload_bytes) \<or> payload_bytes = [] \<or> clength > int MAX_CHUNK_PAYLOAD_BYTES_V3
      then Inl ''wire frame chunk length is invalid''
      else bindE (encode_serving_wire_header_v3
          \<lparr>version = HEADER_VERSION_V3, message_type = mt, flags = flgs, sequence = seq, chunk_index = index, chunk_count = count,
            chunk_length = clength, total_length = tlength, session_token = token\<rparr>) (\<lambda>h. Inr (h @ payload_bytes)))"

definition has_flag :: "int \<Rightarrow> ServingWireHeaderV3 \<Rightarrow> bool" where
  "has_flag bits h \<longleftrightarrow> flags h AND bits \<noteq> 0"

text \<open>The rule on global faults: no session token exactly for cycle zero.\<close>

definition fault_coherent :: "ServingWireHeaderV3 \<Rightarrow> wire_payload \<Rightarrow> bool" where
  "fault_coherent h p \<longleftrightarrow> (case p of
     P_global_fault (GlobalFaultPayloadV3 cycle _ _) \<Rightarrow> (session_token h = ZERO_TOKEN) = (cycle = 0)
   | _ \<Rightarrow> True)"

definition decode_serving_wire_frame_v3 :: "bytes \<Rightarrow> ServingWireFrameV3 checked" where
  "decode_serving_wire_frame_v3 data =
     (if length data < HEADER_SIZE_V3 then Inl ''wire frame length is invalid''
      else bindE (decode_serving_wire_header_v3 (take HEADER_SIZE_V3 data)) (\<lambda>h.
        let payload_bytes = drop HEADER_SIZE_V3 data in
        if payload_bytes = [] \<or> int (length payload_bytes) \<noteq> chunk_length h \<or> length payload_bytes > MAX_CHUNK_PAYLOAD_BYTES_V3
        then Inl ''wire frame payload length is invalid''
        else bindE (validate_session_token h) (\<lambda>_.
          if (message_type h = SESSION_FD) \<noteq> has_flag FLAG_HAS_FD_V3 h then Inl ''wire frame FD flag is invalid''
          else if chunk_count h > 1 then
            (if message_type h \<noteq> COLLECTOR_RESPONSE then Inl ''only collector responses may be chunked''
             else Inr \<lparr>header = h, payload = P_chunk payload_bytes\<rparr>)
          else bindE (decode_wire_payload (message_type h) payload_bytes) (\<lambda>p.
            if \<not> fault_coherent h p then Inl ''global fault token and cycle disagree''
            else Inr \<lparr>header = h, payload = p\<rparr>))))"

text \<open>
  The frames the decoder may return, and the bytes of a frame: its encoder with the payload's own
  encoding, or the bytes of its chunk.
\<close>

fun chunk_bytes :: "wire_payload \<Rightarrow> bytes option" where
  "chunk_bytes (P_chunk b) = Some b"
| "chunk_bytes _ = None"

definition frame_ok :: "ServingWireFrameV3 \<Rightarrow> bool" where
  "frame_ok fr \<longleftrightarrow> (let h = header fr in
     validate_session_token h = Inr () \<and> (message_type h = SESSION_FD) = has_flag FLAG_HAS_FD_V3 h \<and>
     version h = HEADER_VERSION_V3 \<and>
     (case chunk_bytes (payload fr) of
        Some _ \<Rightarrow> chunk_count h > 1 \<and> message_type h = COLLECTOR_RESPONSE
      | None \<Rightarrow> chunk_count h \<le> 1 \<and> carries (message_type h) (payload fr) \<and> fault_coherent h (payload fr)))"

definition frame_text :: "ServingWireFrameV3 \<Rightarrow> bytes checked" where
  "frame_text fr = (case chunk_bytes (payload fr) of Some b \<Rightarrow> Inr b | None \<Rightarrow> encode_wire_payload (payload fr))"

definition encode_frame :: "ServingWireFrameV3 \<Rightarrow> bytes checked" where
  "encode_frame fr = bindE (frame_text fr) (\<lambda>b. let h = header fr in
     encode_serving_wire_frame_v3 (message_type h) (session_token h) (sequence h) (chunk_index h) (chunk_count h)
       (chunk_length h) (total_length h) (flags h) b)"

lemma chunk_bytes_Some: "chunk_bytes p = Some b \<longleftrightarrow> p = P_chunk b"
  by (cases p) simp_all

lemma carries_no_chunk: "carries mt p \<Longrightarrow> chunk_bytes p = None"
  by (cases p; cases mt) simp_all

lemma encode_frame_iff:
  "encode_frame fr = Inr d \<longleftrightarrow>
   (\<exists>b hb. frame_text fr = Inr b \<and> chunk_length (header fr) = int (length b) \<and> b \<noteq> [] \<and> length b \<le> MAX_CHUNK_PAYLOAD_BYTES_V3 \<and>
      encode_serving_wire_header_v3 ((header fr)\<lparr>version := HEADER_VERSION_V3\<rparr>) = Inr hb \<and> d = hb @ b)"
  by (cases "header fr") (auto simp: encode_frame_def encode_serving_wire_frame_v3_def Let_def res_simps)

lemma header_version: "version h = HEADER_VERSION_V3 \<Longrightarrow> h\<lparr>version := HEADER_VERSION_V3\<rparr> = h"
  by (cases h) simp

lemma decoded_version: "decode_serving_wire_header_v3 w = Inr h \<Longrightarrow> version h = HEADER_VERSION_V3"
  by (drule wire_header.encode_decode)
    (auto simp: encode_serving_wire_header_v3_def res_simps validate_header_Inr HEADER_VERSION_V3_def)

lemma decode_frame_parts:
  "decode_serving_wire_frame_v3 d = Inr fr \<longleftrightarrow> HEADER_SIZE_V3 \<le> length d \<and>
     decode_serving_wire_header_v3 (take HEADER_SIZE_V3 d) = Inr (header fr) \<and> drop HEADER_SIZE_V3 d \<noteq> [] \<and>
     chunk_length (header fr) = int (length (drop HEADER_SIZE_V3 d)) \<and> length (drop HEADER_SIZE_V3 d) \<le> MAX_CHUNK_PAYLOAD_BYTES_V3 \<and>
     frame_ok fr \<and> frame_text fr = Inr (drop HEADER_SIZE_V3 d)"
proof -
  have body: "(if chunk_count h > 1 then
        (if message_type h \<noteq> COLLECTOR_RESPONSE then Inl ''only collector responses may be chunked''
         else Inr \<lparr>header = h, payload = P_chunk b\<rparr>)
      else bindE (decode_wire_payload (message_type h) b) (\<lambda>p.
        if \<not> fault_coherent h p then Inl ''global fault token and cycle disagree'' else Inr \<lparr>header = h, payload = p\<rparr>)) = Inr fr \<longleftrightarrow>
      header fr = h \<and> frame_text fr = Inr b \<and> (case chunk_bytes (payload fr) of
        Some _ \<Rightarrow> chunk_count h > 1 \<and> message_type h = COLLECTOR_RESPONSE
      | None \<Rightarrow> chunk_count h \<le> 1 \<and> carries (message_type h) (payload fr) \<and> fault_coherent h (payload fr))" for h b
    by (cases fr) (auto simp: res_simps decode_wire_payload_iff frame_text_def chunk_bytes_Some carries_no_chunk split: option.splits)
  show ?thesis unfolding decode_serving_wire_frame_v3_def Let_def
    by (auto simp: res_simps body frame_ok_def Let_def decoded_version simp del: length_drop)
qed

lemma frame_codec: "decode_serving_wire_frame_v3 d = Inr fr \<longleftrightarrow> frame_ok fr \<and> encode_frame fr = Inr d"
proof
  assume "decode_serving_wire_frame_v3 d = Inr fr"
  note D = this [unfolded decode_frame_parts]
  then have "encode_serving_wire_header_v3 (header fr) = Inr (take HEADER_SIZE_V3 d)"
    using wire_header.encode_decode by blast
  moreover have "version (header fr) = HEADER_VERSION_V3" using D by (simp add: frame_ok_def Let_def)
  ultimately show "frame_ok fr \<and> encode_frame fr = Inr d"
    using D by (simp add: encode_frame_iff header_version del: length_drop)
next
  assume F: "frame_ok fr \<and> encode_frame fr = Inr d"
  then have v: "version (header fr) = HEADER_VERSION_V3" by (simp add: frame_ok_def Let_def)
  from F obtain b hb where B: "frame_text fr = Inr b" "chunk_length (header fr) = int (length b)" "b \<noteq> []"
    "length b \<le> MAX_CHUNK_PAYLOAD_BYTES_V3" "encode_serving_wire_header_v3 (header fr) = Inr hb" "d = hb @ b"
    unfolding encode_frame_iff header_version [OF v] by blast
  with F wire_header.decode_encode [OF TrueI B(5)] header_length [OF B(5)]
  show "decode_serving_wire_frame_v3 d = Inr fr" by (simp add: decode_frame_parts)
qed

text \<open>
  C9. The wire is a strict codec: a byte string decodes to a frame exactly when the frame obeys the
  rules on tokens, descriptors, chunking and global faults and the string is the frame's own
  encoding; and a payload is accepted under a message type exactly when it is of the dataclass of
  that type and the bytes are what its encoder writes. So no two byte strings are the same frame,
  and every frame that may be sent is read back as it was.
\<close>

theorem wire_strict:
  "(decode_serving_wire_frame_v3 d = Inr fr \<longleftrightarrow> frame_ok fr \<and> encode_frame fr = Inr d) \<and>
   (decode_wire_payload mt b = Inr p \<longleftrightarrow> carries mt p \<and> encode_wire_payload p = Inr b)"
  by (simp add: frame_codec decode_wire_payload_iff)

interpretation wire_frame: codec "\<lambda>fr. if frame_ok fr then encode_frame fr else Inl ''frame rules''" decode_serving_wire_frame_v3 "\<lambda>_. True"
  by unfold_locales (auto simp: frame_codec split: if_splits)

section \<open>Reassembly of a chunked collector response\<close>

text \<open>
  \<open>ceil(first.total_length / MAX_CHUNK_PAYLOAD_BYTES_V3)\<close>: the float quotient by a power of two
  differs from the exact one only from 2 to the 53 on, where both exceed 513.
\<close>

definition chunk_total :: "int \<Rightarrow> int" where
  "chunk_total n = (n + int MAX_CHUNK_PAYLOAD_BYTES_V3 - 1) div int MAX_CHUNK_PAYLOAD_BYTES_V3"

definition train_frame_ok :: "ServingWireHeaderV3 \<Rightarrow> int \<Rightarrow> nat \<Rightarrow> ServingWireFrameV3 \<Rightarrow> bool" where
  "train_frame_ok first expected_count index frame \<longleftrightarrow> (let h = header frame in
     message_type h = message_type first \<and> sequence h = sequence first \<and> total_length h = total_length first \<and>
     session_token h = session_token first \<and> chunk_count h = expected_count \<and> chunk_index h = int index \<and>
     \<not> has_flag FLAG_HAS_FD_V3 h \<and> has_flag FLAG_START_V3 h = (index = 0) \<and>
     has_flag FLAG_END_V3 h = (int index = expected_count - 1) \<and>
     (case chunk_bytes (payload frame) of None \<Rightarrow> False | Some b \<Rightarrow> int (length b) = chunk_length h) \<and>
     chunk_length h \<le> int MAX_CHUNK_PAYLOAD_BYTES_V3)"

definition train_chunk :: "ServingWireFrameV3 \<Rightarrow> bytes" where
  "train_chunk frame = (case chunk_bytes (payload frame) of None \<Rightarrow> [] | Some b \<Rightarrow> b)"

definition reassemble_chunked_payload_v3 :: "ServingWireFrameV3 list \<Rightarrow> bytes checked" where
  "reassemble_chunked_payload_v3 frames =
     (if frames = [] then Inl ''chunk train is invalid''
      else let first = header (hd frames) in
        if message_type first \<noteq> COLLECTOR_RESPONSE \<or> chunk_count first < 2 \<or> total_length first \<le> int MAX_CHUNK_PAYLOAD_BYTES_V3
        then Inl ''chunk train is not a multi-frame collector response''
        else let expected_count = chunk_total (total_length first) in
          if chunk_count first \<noteq> expected_count \<or> expected_count > 513 \<or> int (length frames) \<noteq> expected_count
          then Inl ''chunk train count is invalid''
          else if \<not> list_all (\<lambda>(i, frame). train_frame_ok first expected_count i frame) (zip [0..<length frames] frames)
          then Inl ''chunk train ordering or flags are invalid''
          else let result = concat (map train_chunk frames) in
            if int (length result) \<noteq> total_length first then Inl ''chunk train total length is invalid''
            else bindE (decode_collector_response_payload_v3 result) (\<lambda>_. Inr result))"

text \<open>The pieces of a payload, as many as \<open>chunk_total\<close> says.\<close>

definition pieces :: "bytes \<Rightarrow> bytes list" where
  "pieces raw = map (\<lambda>i. pslice (i * MAX_CHUNK_PAYLOAD_BYTES_V3) ((i + 1) * MAX_CHUNK_PAYLOAD_BYTES_V3) raw)
     [0..<nat (chunk_total (int (length raw)))]"

lemma concat_pslices: "concat (map (\<lambda>i. pslice (i * k) ((i + 1) * k) xs) [0..<n]) = take (n * k) xs"
proof (induction n)
  case (Suc n)
  have "take (n * k) xs @ pslice (n * k) ((n + 1) * k) xs = take ((n + 1) * k) xs"
    by (simp add: pslice_def take_add [symmetric] add.commute)
  with Suc show ?case by simp
qed simp

lemma chunk_total_covers: "n \<le> nat (chunk_total (int n)) * MAX_CHUNK_PAYLOAD_BYTES_V3"
  by (simp add: chunk_total_def MAX_CHUNK_PAYLOAD_BYTES_V3_def)

lemma concat_pieces: "concat (pieces raw) = raw"
  unfolding pieces_def concat_pslices using chunk_total_covers [of "length raw"] by simp

end
