(* ===== verification/Wire_Endpoint.thy ===== *)
theory Wire_Endpoint
  imports Boot_Wire
begin

text \<open>
  \<open>CandidateWireEndpoint\<close> of \<open>conf_proc_spp_candidate_ipc.py\<close>: one peer on a seqpacket socket,
  one queued frame, message sequence numbers and chunk positions in each direction, and passed
  socket descriptors checked against the identity their message states. The kernel's answers to
  \<open>sendmsg\<close> and \<open>recvmsg\<close> are arguments; \<open>held\<close> counts the descriptors the endpoint owns.
\<close>

unbundle bit_operations_syntax

section \<open>Sockets and errors\<close>

datatype ipc_error = IpcValueError string | IpcRuntimeError string | WireError string | IpcOSError | IpcTimeout

text \<open>What the kernel says of a socket; \<open>peer\<close> is \<open>None\<close> when it is not connected.\<close>

record sock =
  is_socket :: bool
  family_inet :: bool
  is_stream :: bool
  listening :: bool
  local_addr :: "bytes \<times> int"
  peer_addr :: "(bytes \<times> int) option"
  cookie :: int
  inheritable :: bool

definition socket_identity :: "sock \<Rightarrow> int \<Rightarrow> ipc_error + SessionFdPayloadV3" where
  "socket_identity s epoch =
     (if \<not> family_inet s \<or> \<not> is_stream s \<or> listening s then Inl (IpcValueError ''candidate session requires connected IPv4 stream'')
      else case peer_addr s of
          None \<Rightarrow> Inl IpcOSError
        | Some peer \<Rightarrow>
            if cookie s = 0 then Inl (IpcValueError ''candidate socket has no kernel identity'')
            else Inr (SessionFdPayloadV3 epoch 2 (fst (local_addr s)) (snd (local_addr s)) (fst peer) (snd peer) (cookie s)))"

section \<open>Sequence numbers and chunk trains\<close>

type_synonym identity = "ServingWireMessageTypeV3 \<times> bytes \<times> int \<times> int"
type_synonym train = "(identity \<times> int) option"

definition MAX_FRAME :: nat where "MAX_FRAME = HEADER_SIZE_V3 + MAX_CHUNK_PAYLOAD_BYTES_V3"

definition shape_ok :: "ServingWireHeaderV3 \<Rightarrow> bool" where
  "shape_ok h \<longleftrightarrow> (let count = chunk_total (total_length h) in
     0 < total_length h \<and> total_length h \<le> 8 * 1024 * 1024 + 44 \<and>
     1 \<le> chunk_count h \<and> chunk_count h = count \<and> count \<le> 513 \<and>
     0 \<le> chunk_index h \<and> chunk_index h < count \<and>
     chunk_length h = min (int MAX_CHUNK_PAYLOAD_BYTES_V3) (total_length h - chunk_index h * int MAX_CHUNK_PAYLOAD_BYTES_V3) \<and>
     has_flag FLAG_START_V3 h = (chunk_index h = 0) \<and> has_flag FLAG_END_V3 h = (chunk_index h = count - 1))"

definition train_identity :: "ServingWireHeaderV3 \<Rightarrow> identity" where
  "train_identity h = (message_type h, session_token h, chunk_count h, total_length h)"

definition advance :: "ServingWireFrameV3 \<Rightarrow> int \<Rightarrow> train \<Rightarrow> ipc_error + (int \<times> train)" where
  "advance frame seq train =
     (let h = header frame in
      if \<not> shape_ok h then Inl (IpcValueError ''candidate IPC chunk shape or bound differs'')
      else let index = (case train of None \<Rightarrow> 0 | Some (_, i) \<Rightarrow> i) in
        if sequence h \<noteq> seq \<or> chunk_index h \<noteq> index \<or> (case train of None \<Rightarrow> False | Some (t, _) \<Rightarrow> t \<noteq> train_identity h)
        then Inl (IpcValueError ''candidate IPC replay or chunk discontinuity'')
        else if has_flag FLAG_END_V3 h then Inr (seq + 1, None)
        else Inr (seq, Some (train_identity h, index + 1)))"

section \<open>The endpoint\<close>

record endpoint =
  peer_credentials :: "int \<times> int \<times> int"
  rx_sequence :: int
  tx_sequence :: int
  rx_train :: train
  tx_train :: train
  pending_frame :: "(bytes \<times> sock option \<times> ServingWireFrameV3) option"
  closed :: bool
  held :: int

definition new_endpoint :: "bool \<Rightarrow> int \<times> int \<times> int \<Rightarrow> ipc_error + endpoint" where
  "new_endpoint seqpacket creds =
     (case creds of (pid, uid, gid) \<Rightarrow>
        if \<not> seqpacket \<or> pid < 0 \<or> uid < 0 \<or> gid < 0 \<or> pid = 0 then Inl (IpcValueError ''invalid candidate IPC authority'')
        else Inr \<lparr>peer_credentials = creds, rx_sequence = 1, tx_sequence = 1, rx_train = None, tx_train = None,
          pending_frame = None, closed = False, held = 0\<rparr>)"

definition pending_descriptor :: "endpoint \<Rightarrow> sock option" where
  "pending_descriptor e = (case pending_frame e of Some (_, d, _) \<Rightarrow> d | None \<Rightarrow> None)"

definition close_endpoint :: "endpoint \<Rightarrow> endpoint" where
  "close_endpoint e = e\<lparr>held := held e - (if pending_descriptor e = None then 0 else 1), pending_frame := None, closed := True\<rparr>"

definition wants_write :: "endpoint \<Rightarrow> bool" where
  "wants_write e \<longleftrightarrow> pending_frame e \<noteq> None"

fun session_payload :: "wire_payload \<Rightarrow> SessionFdPayloadV3 option" where
  "session_payload (P_session_fd p) = Some p"
| "session_payload _ = None"

fun session_epoch :: "SessionFdPayloadV3 \<Rightarrow> int" where
  "session_epoch (SessionFdPayloadV3 epoch _ _ _ _ _ _) = epoch"

text \<open>
  \<open>queue\<close>. The duplicate is closed again when its identity is not the one in the payload; a
  descriptor with the right flag always comes with a session payload.
\<close>

definition queue :: "bytes \<Rightarrow> sock option \<Rightarrow> endpoint \<Rightarrow> (ipc_error + unit) \<times> endpoint" where
  "queue wire descriptor e =
     (if closed e \<or> wants_write e then (Inl (IpcRuntimeError ''candidate IPC write unavailable''), e)
      else case decode_serving_wire_frame_v3 wire of
          Inl m \<Rightarrow> (Inl (WireError m), e)
        | Inr frame \<Rightarrow>
            (case advance frame (tx_sequence e) (tx_train e) of
               Inl x \<Rightarrow> (Inl x, e)
             | Inr _ \<Rightarrow>
                 if has_flag FLAG_HAS_FD_V3 (header frame) \<noteq> (descriptor \<noteq> None)
                 then (Inl (IpcValueError ''candidate IPC descriptor count differs''), e)
                 else case descriptor of
                     None \<Rightarrow> (Inr (), e\<lparr>pending_frame := Some (wire, None, frame)\<rparr>)
                   | Some d \<Rightarrow>
                       (case session_payload (payload frame) of
                          None \<Rightarrow> (Inl (IpcValueError ''candidate IPC descriptor payload differs''), e)
                        | Some p \<Rightarrow>
                            let e1 = e\<lparr>held := held e + 1\<rparr> in
                            (case socket_identity d (session_epoch p) of
                               Inl x \<Rightarrow> (Inl x, e1\<lparr>held := held e1 - 1\<rparr>)
                             | Inr q \<Rightarrow>
                                 if q \<noteq> p
                                 then (Inl (IpcValueError ''candidate outgoing socket identity differs''), e1\<lparr>held := held e1 - 1\<rparr>)
                                 else (Inr (), e1\<lparr>pending_frame := Some (wire, Some d, frame)\<rparr>)))))"

datatype send_outcome = Would_block | Send_failed ipc_error | Sent_bytes nat

definition flush :: "send_outcome \<Rightarrow> endpoint \<Rightarrow> (ipc_error + bool) \<times> endpoint" where
  "flush outcome e =
     (if closed e then (Inl (IpcRuntimeError ''candidate IPC closed''), e)
      else case pending_frame e of
          None \<Rightarrow> (Inr True, e)
        | Some (wire, descriptor, frame) \<Rightarrow>
            (case outcome of
               Would_block \<Rightarrow> (Inr False, e)
             | Send_failed x \<Rightarrow> (Inl x, close_endpoint e)
             | Sent_bytes n \<Rightarrow>
                 if n \<noteq> length wire then (Inl (IpcRuntimeError ''candidate seqpacket write incomplete''), close_endpoint e)
                 else case advance frame (tx_sequence e) (tx_train e) of
                     Inl x \<Rightarrow> (Inl x, e)
                   | Inr (seq, train) \<Rightarrow>
                       (Inr True, e\<lparr>tx_sequence := seq, tx_train := train,
                          held := held e - (if descriptor = None then 0 else 1), pending_frame := None\<rparr>)))"

text \<open>
  One answer of \<open>recvmsg\<close>: the datagram, the credentials and descriptors of its ancillary data,
  whether anything was truncated or of an unknown kind.
\<close>

record datagram =
  data :: bytes
  credentials :: "(int \<times> int \<times> int) list"
  descriptors :: "sock list"
  malformed :: bool

datatype recv_outcome = Recv_block | Recv_failed ipc_error | Received datagram

record received_frame =
  frame :: ServingWireFrameV3
  descriptor :: "sock option"

text \<open>The checks on a datagram, before anything of the endpoint changes.\<close>

definition admit_datagram :: "endpoint \<Rightarrow> datagram \<Rightarrow> ipc_error + (ServingWireFrameV3 \<times> int \<times> train)" where
  "admit_datagram e d =
     (if malformed d \<or> data d = [] \<or> length (data d) > MAX_FRAME \<or> credentials d \<noteq> [peer_credentials e]
      then Inl (IpcValueError ''candidate IPC sender or datagram differs'')
      else case decode_serving_wire_frame_v3 (data d) of
          Inl m \<Rightarrow> Inl (WireError m)
        | Inr fr \<Rightarrow>
            bindE (advance fr (rx_sequence e) (rx_train e)) (\<lambda>(seq, train).
              if length (descriptors d) \<noteq> (if has_flag FLAG_HAS_FD_V3 (header fr) then 1 else 0)
              then Inl (IpcValueError ''candidate IPC descriptor count differs'')
              else Inr (fr, seq, train)))"

definition descriptor_ok :: "sock \<Rightarrow> wire_payload \<Rightarrow> bool" where
  "descriptor_ok s p \<longleftrightarrow> \<not> inheritable s \<and> (case session_payload p of
     Some q \<Rightarrow> socket_identity s (session_epoch q) = Inr q
   | None \<Rightarrow> False)"

text \<open>
  \<open>receive\<close>. The received descriptors are the endpoint's from \<open>recvmsg\<close> on; the \<open>finally\<close>
  block closes all of them but the one handed to the caller.
\<close>

definition receive :: "recv_outcome \<Rightarrow> endpoint \<Rightarrow> (ipc_error + received_frame option) \<times> endpoint" where
  "receive outcome e =
     (if closed e then (Inl (IpcRuntimeError ''candidate IPC closed''), e)
      else case outcome of
          Recv_block \<Rightarrow> (Inr None, e)
        | Recv_failed x \<Rightarrow> (Inl x, close_endpoint e)
        | Received d \<Rightarrow>
            let n = int (length (descriptors d)); e1 = e\<lparr>held := held e + n\<rparr>
            in (case admit_datagram e1 d of
                  Inl x \<Rightarrow> (Inl x, (close_endpoint e1)\<lparr>held := held (close_endpoint e1) - n\<rparr>)
                | Inr (fr, seq, train) \<Rightarrow>
                    (case descriptors d of
                       [] \<Rightarrow> (Inr (Some \<lparr>frame = fr, descriptor = None\<rparr>), e1\<lparr>rx_sequence := seq, rx_train := train\<rparr>)
                     | s # _ \<Rightarrow>
                         if \<not> is_socket s
                         then (Inl IpcOSError, (close_endpoint e1)\<lparr>held := held (close_endpoint e1) - n\<rparr>)
                         else if \<not> descriptor_ok s (payload fr)
                         then (Inl (IpcValueError ''candidate incoming socket identity differs''),
                               (close_endpoint e1)\<lparr>held := held (close_endpoint e1) - n\<rparr>)
                         else (Inr (Some \<lparr>frame = fr, descriptor = Some s\<rparr>),
                               e1\<lparr>rx_sequence := seq, rx_train := train, held := held e1 - n\<rparr>))))"

section \<open>Invariant\<close>

text \<open>
  The descriptors held are those of the queued frame; a closed endpoint has none queued; a
  train that is under way is inside its bounds; and a queued frame is the next one to send.
\<close>

definition train_ok :: "train \<Rightarrow> bool" where
  "train_ok t \<longleftrightarrow> (case t of
     None \<Rightarrow> True
   | Some ((mt, token, count, n), i) \<Rightarrow> 0 < i \<and> i < count \<and> count = chunk_total n \<and> count \<le> 513 \<and>
       0 < n \<and> n \<le> 8 * 1024 * 1024 + 44)"

definition endpoint_inv :: "endpoint \<Rightarrow> bool" where
  "endpoint_inv e \<longleftrightarrow> held e = (if pending_descriptor e = None then 0 else 1) \<and> (closed e \<longrightarrow> pending_frame e = None) \<and>
     train_ok (rx_train e) \<and> train_ok (tx_train e) \<and>
     (case pending_frame e of
        None \<Rightarrow> True
      | Some (wire, d, fr) \<Rightarrow> decode_serving_wire_frame_v3 wire = Inr fr \<and> is_ok (advance fr (tx_sequence e) (tx_train e)))"

lemma advance_train_ok: "advance fr seq t = Inr (seq', t') \<Longrightarrow> train_ok t'"
  by (auto simp: advance_def Let_def shape_ok_def train_ok_def train_identity_def split: if_splits option.splits prod.splits)

datatype endpoint_op = Queue bytes "sock option" | Flush send_outcome | Receive recv_outcome | Close_endpoint

datatype endpoint_out = Queued "ipc_error + unit" | Flushed "ipc_error + bool" | Got "ipc_error + received_frame option" | Endpoint_closed

fun endpoint_step :: "endpoint \<Rightarrow> endpoint_op \<Rightarrow> endpoint \<times> endpoint_out" where
  "endpoint_step e (Queue wire d) = (case queue wire d e of (r, e') \<Rightarrow> (e', Queued r))"
| "endpoint_step e (Flush out) = (case flush out e of (r, e') \<Rightarrow> (e', Flushed r))"
| "endpoint_step e (Receive out) = (case receive out e of (r, e') \<Rightarrow> (e', Got r))"
| "endpoint_step e Close_endpoint = (close_endpoint e, Endpoint_closed)"

lemma inv_close: "endpoint_inv e \<Longrightarrow> endpoint_inv (close_endpoint e)"
  by (auto simp: endpoint_inv_def close_endpoint_def pending_descriptor_def)

lemma inv_queue: "endpoint_inv e \<Longrightarrow> endpoint_inv (snd (queue wire d e))"
  by (auto simp: queue_def endpoint_inv_def wants_write_def pending_descriptor_def Let_def
      split: sum.splits option.splits)

lemma inv_flush: "endpoint_inv e \<Longrightarrow> endpoint_inv (snd (flush out e))"
  using inv_close [of e]
  by (auto simp: flush_def endpoint_inv_def pending_descriptor_def dest: advance_train_ok split: sum.splits option.splits send_outcome.splits)

lemma inv_rx: "endpoint_inv e \<Longrightarrow> train_ok t \<Longrightarrow> endpoint_inv (e\<lparr>rx_sequence := seq, rx_train := t\<rparr>)"
  by (auto simp: endpoint_inv_def pending_descriptor_def split: option.splits)

lemma close_received:
  assumes "endpoint_inv e"
  shows "endpoint_inv ((close_endpoint (e\<lparr>held := held e + n\<rparr>))\<lparr>held := held (close_endpoint (e\<lparr>held := held e + n\<rparr>)) - n\<rparr>)"
proof -
  have "(close_endpoint (e\<lparr>held := held e + n\<rparr>))\<lparr>held := held (close_endpoint (e\<lparr>held := held e + n\<rparr>)) - n\<rparr> = close_endpoint e"
    by (simp add: close_endpoint_def pending_descriptor_def)
  with inv_close [OF assms] show ?thesis by simp
qed

lemma inv_receive:
  assumes inv: "endpoint_inv e"
  shows "endpoint_inv (snd (receive out e))"
proof (cases "closed e \<or> (\<forall>d. out \<noteq> Received d)")
  case True
  with inv inv_close [OF inv] show ?thesis by (cases out) (auto simp: receive_def)
next
  case False
  then obtain d where out: "\<not> closed e" "out = Received d" by blast
  define n where "n = int (length (descriptors d))"
  note c = close_received [OF inv, of n]
  show ?thesis
  proof (cases "admit_datagram (e\<lparr>held := held e + n\<rparr>) d")
    case (Inl x)
    then show ?thesis using c out by (simp add: receive_def Let_def n_def)
  next
    case (Inr a)
    obtain fr seq t where a: "a = (fr, seq, t)" by (cases a)
    have t: "train_ok t"
      using Inr by (auto simp: a admit_datagram_def res_simps dest: advance_train_ok split: if_splits sum.splits)
    show ?thesis
    proof (cases "descriptors d")
      case Nil
      then show ?thesis using Inr a out inv_rx [OF inv t] by (simp add: receive_def Let_def n_def)
    next
      case (Cons s ss)
      have "e\<lparr>held := held e + n, rx_sequence := seq, rx_train := t, held := held e + n - n\<rparr> = e\<lparr>rx_sequence := seq, rx_train := t\<rparr>"
        by simp
      then show ?thesis using Inr a out inv_rx [OF inv t] c Cons by (simp add: receive_def Let_def n_def)
    qed
  qed
qed

interpretation wire_endpoint: machine endpoint_step endpoint_inv
proof
  show "endpoint_inv (fst (endpoint_step e op))" if "endpoint_inv e" for e op
    using inv_queue [OF that] inv_flush [OF that] inv_receive [OF that] inv_close [OF that]
    by (cases op) (auto simp: case_prod_unfold)
qed

text \<open>
  C18. Descriptors are not leaked and never sent out of turn: whatever sequence of queue, flush, receive
  and close calls is made, whatever the kernel answers and whatever the peer sends, the endpoint
  owns a descriptor exactly while a frame with one is queued, owns none once closed, and a queued
  frame is always the next one of its direction.
\<close>

theorem endpoint_holds:
  assumes "new_endpoint True creds = Inr e0" and "e = fst (run endpoint_step e0 ops)"
  shows "held e = (if pending_descriptor e = None then 0 else 1) \<and> (closed e \<longrightarrow> held e = 0 \<and> \<not> wants_write e) \<and>
    (\<forall>wire d fr. pending_frame e = Some (wire, d, fr) \<longrightarrow> is_ok (advance fr (tx_sequence e) (tx_train e)))"
proof -
  have "endpoint_inv e0" using assms(1)
    by (auto simp: new_endpoint_def endpoint_inv_def pending_descriptor_def train_ok_def split: prod.splits if_splits)
  from wire_endpoint.inv_run [OF this, of ops] have "endpoint_inv e" by (simp add: assms(2))
  then show ?thesis by (auto simp: endpoint_inv_def wants_write_def pending_descriptor_def)
qed

section \<open>Accepting a train frame by frame\<close>

fun accept_all :: "int \<Rightarrow> train \<Rightarrow> ServingWireFrameV3 list \<Rightarrow> ipc_error + (int \<times> train)" where
  "accept_all seq t [] = Inr (seq, t)"
| "accept_all seq t (f # fs) = bindE (advance f seq t) (\<lambda>(seq', t'). accept_all seq' t' fs)"

definition next_index :: "train \<Rightarrow> int" where
  "next_index t = (case t of None \<Rightarrow> 0 | Some (_, i) \<Rightarrow> i)"

definition same_train :: "train \<Rightarrow> ServingWireHeaderV3 \<Rightarrow> bool" where
  "same_train t h \<longleftrightarrow> (case t of None \<Rightarrow> True | Some (ident, _) \<Rightarrow> train_identity h = ident)"

lemma advance_cases:
  assumes "advance f seq t = Inr (seq', t')"
  shows "shape_ok (header f)" "sequence (header f) = seq" "chunk_index (header f) = next_index t"
    and "same_train t (header f)"
    and "next_index t = chunk_count (header f) - 1 \<and> seq' = seq + 1 \<and> t' = None \<or>
      next_index t < chunk_count (header f) - 1 \<and> seq' = seq \<and> t' = Some (train_identity (header f), next_index t + 1)"
  using assms by (auto simp: advance_def next_index_def same_train_def Let_def shape_ok_def split: if_splits option.splits)

lemma accept_all_increases: "accept_all seq t fs = Inr (seq', None) \<Longrightarrow> seq \<le> seq' \<and> (t \<noteq> None \<or> fs \<noteq> [] \<longrightarrow> seq < seq')"
proof (induction fs arbitrary: seq t)
  case (Cons f fs)
  then obtain s1 t1 where a: "advance f seq t = Inr (s1, t1)" "accept_all s1 t1 fs = Inr (seq', None)"
    by (auto simp: res_simps)
  from advance_cases(5) [OF a(1)] have "s1 = seq + 1 \<or> s1 = seq \<and> t1 \<noteq> None" by blast
  with Cons.IH [OF a(2)] have "seq < seq'" by linarith
  then show ?case by simp
qed simp

text \<open>The frames of one message: same identity and sequence number, consecutive indices up to the last.\<close>

lemma accept_message:
  assumes "accept_all seq t fs = Inr (seq + 1, None)" and "fs \<noteq> []"
  shows "next_index t + int (length fs) = chunk_count (header (hd fs)) \<and>
    same_train t (header (hd fs)) \<and>
    (\<forall>k < length fs. shape_ok (header (fs ! k)) \<and> sequence (header (fs ! k)) = seq \<and>
      chunk_index (header (fs ! k)) = next_index t + int k \<and> train_identity (header (fs ! k)) = train_identity (header (hd fs)))"
  using assms
proof (induction fs arbitrary: t)
  case (Cons f fs)
  from Cons.prems(1) obtain s1 t1 where a: "advance f seq t = Inr (s1, t1)" "accept_all s1 t1 fs = Inr (seq + 1, None)"
    by (auto simp: res_simps)
  note A = advance_cases [OF a(1)]
  show ?case
  proof (cases "t1 = None")
    case True
    with A(5) have "s1 = seq + 1" "next_index t = chunk_count (header f) - 1" by auto
    moreover from this accept_all_increases [OF a(2)] have "fs = []" by auto
    ultimately show ?thesis using A(1-4) by (auto simp: less_Suc_eq_0_disj)
  next
    case False
    with A(5) have t1: "s1 = seq" "t1 = Some (train_identity (header f), next_index t + 1)" by auto
    have ne: "fs \<noteq> []" using a(2) t1 by auto
    have ih: "accept_all seq t1 fs = Inr (seq + 1, None)" using a(2) t1(1) by simp
    have st: "same_train t1 h \<longleftrightarrow> train_identity h = train_identity (header f)" for h by (simp add: t1(2) same_train_def)
    from Cons.IH [OF ih ne, unfolded st] have IH: "next_index t1 + int (length fs) = chunk_count (header (hd fs))"
      "train_identity (header (hd fs)) = train_identity (header f)"
      "\<And>k. k < length fs \<Longrightarrow> shape_ok (header (fs ! k)) \<and> sequence (header (fs ! k)) = seq \<and>
        chunk_index (header (fs ! k)) = next_index t1 + int k \<and> train_identity (header (fs ! k)) = train_identity (header f)"
      by simp_all
    have n: "next_index t1 = next_index t + 1" by (simp add: t1 next_index_def)
    have "chunk_count (header (hd fs)) = chunk_count (header f)" using IH(2) by (simp add: train_identity_def)
    with IH n A(1-4) show ?thesis by (auto simp: less_Suc_eq_0_disj)
  qed
qed simp

text \<open>Frames that come from the decoder carry as many bytes as their header says.\<close>

definition decoded :: "ServingWireFrameV3 \<Rightarrow> bool" where
  "decoded fr \<longleftrightarrow> (\<exists>d. decode_serving_wire_frame_v3 d = Inr fr)"

lemma decoded_chunk:
  assumes "decoded fr" and "chunk_count (header fr) > 1"
  shows "message_type (header fr) = COLLECTOR_RESPONSE" "payload fr = P_chunk (train_chunk fr)"
    "chunk_length (header fr) = int (length (train_chunk fr))" "\<not> has_flag FLAG_HAS_FD_V3 (header fr)"
proof -
  from assms(1) obtain d where "decode_serving_wire_frame_v3 d = Inr fr" by (auto simp: decoded_def)
  note D = this [unfolded decode_frame_parts]
  have ok: "frame_ok fr" using D by blast
  then obtain b where b: "chunk_bytes (payload fr) = Some b" "message_type (header fr) = COLLECTOR_RESPONSE"
    using assms(2) by (cases "chunk_bytes (payload fr)") (auto simp: frame_ok_def Let_def)
  then have "frame_text fr = Inr b" "train_chunk fr = b" by (simp_all add: frame_text_def train_chunk_def)
  with D b ok show "message_type (header fr) = COLLECTOR_RESPONSE" "payload fr = P_chunk (train_chunk fr)"
    "chunk_length (header fr) = int (length (train_chunk fr))" "\<not> has_flag FLAG_HAS_FD_V3 (header fr)"
    by (auto simp: chunk_bytes_Some frame_ok_def Let_def simp del: length_drop)
qed

text \<open>One accepted message of several decoded frames.\<close>

definition accepted_train :: "int \<Rightarrow> ServingWireFrameV3 list \<Rightarrow> bool" where
  "accepted_train seq fs \<longleftrightarrow> list_all decoded fs \<and> 2 \<le> length fs \<and> accept_all seq None fs = Inr (seq + 1, None)"

abbreviation chunk_max :: int where "chunk_max \<equiv> int MAX_CHUNK_PAYLOAD_BYTES_V3"

lemma train_frames:
  assumes "accepted_train seq fs" and "k < length fs"
  shows "shape_ok (header (fs ! k))" "sequence (header (fs ! k)) = seq" "chunk_index (header (fs ! k)) = int k"
    "train_identity (header (fs ! k)) = train_identity (header (hd fs))" "chunk_count (header (fs ! k)) = int (length fs)"
    "decoded (fs ! k)"
proof -
  have a: "accept_all seq None fs = Inr (seq + 1, None)" "fs \<noteq> []" using assms by (auto simp: accepted_train_def)
  note M = accept_message [OF a]
  show "shape_ok (header (fs ! k))" "sequence (header (fs ! k)) = seq" "chunk_index (header (fs ! k)) = int k"
    and i: "train_identity (header (fs ! k)) = train_identity (header (hd fs))"
    using M assms(2) by (auto simp: next_index_def)
  show "chunk_count (header (fs ! k)) = int (length fs)" using i M by (simp add: train_identity_def next_index_def)
  show "decoded (fs ! k)" using assms by (simp add: accepted_train_def list_all_length)
qed

lemma train_lengths:
  assumes "accepted_train seq fs" and "k < length fs"
  shows "int (length (train_chunk (fs ! k))) = min chunk_max (total_length (header (hd fs)) - int k * chunk_max)"
    "int (length fs) = chunk_total (total_length (header (hd fs)))"
proof -
  note F = train_frames [OF assms]
  have c: "chunk_count (header (fs ! k)) > 1" using F(5) assms(1) by (simp add: accepted_train_def)
  have t: "total_length (header (fs ! k)) = total_length (header (hd fs))" using F(4) by (simp add: train_identity_def)
  show "int (length (train_chunk (fs ! k))) = min chunk_max (total_length (header (hd fs)) - int k * chunk_max)"
    using F(1,3) decoded_chunk(3) [OF F(6) c] t by (simp add: shape_ok_def Let_def)
  show "int (length fs) = chunk_total (total_length (header (hd fs)))" using F(1,5) t by (simp add: shape_ok_def Let_def)
qed

lemma train_positive:
  assumes "accepted_train seq fs"
  shows "0 < length fs" "fs \<noteq> []" "fs ! 0 = hd fs" "0 < total_length (header (hd fs))"
proof -
  show n: "0 < length fs" "fs \<noteq> []" using assms by (auto simp: accepted_train_def)
  then show h: "fs ! 0 = hd fs" by (simp add: hd_conv_nth)
  show "0 < total_length (header (hd fs))" using train_frames(1) [OF assms n(1)] h by (simp add: shape_ok_def Let_def)
qed

lemma chunk_total_bounds: "0 < n \<Longrightarrow> (chunk_total n - 1) * chunk_max < n \<and> n \<le> chunk_total n * chunk_max"
  by (simp add: chunk_total_def MAX_CHUNK_PAYLOAD_BYTES_V3_def) linarith

lemma train_prefix:
  assumes "accepted_train seq fs" and "k \<le> length fs"
  shows "int (length (concat (map train_chunk (take k fs)))) = min (int k * chunk_max) (total_length (header (hd fs)))"
  using assms(2)
proof (induction k)
  case 0
  from train_positive(4) [OF assms(1)] show ?case by simp
next
  case (Suc k)
  then have k: "k < length fs" by simp
  have "int k * chunk_max < total_length (header (hd fs))"
  proof -
    from chunk_total_bounds [OF train_positive(4) [OF assms(1)]] train_lengths(2) [OF assms(1) k]
    have "(int (length fs) - 1) * chunk_max < total_length (header (hd fs))" by simp
    moreover have "int k * chunk_max \<le> (int (length fs) - 1) * chunk_max" using k by (intro mult_right_mono) auto
    ultimately show ?thesis by linarith
  qed
  then show ?case using Suc.IH k train_lengths(1) [OF assms(1) k]
    by (simp add: take_Suc_conv_app_nth algebra_simps min_def split: if_splits)
qed

lemma train_length:
  assumes "accepted_train seq fs"
  shows "int (length (concat (map train_chunk fs))) = total_length (header (hd fs))"
proof -
  note P = train_positive [OF assms]
  from chunk_total_bounds [OF P(4)] train_lengths(2) [OF assms P(1)] train_prefix [OF assms le_refl]
  show ?thesis by simp
qed

lemma train_frame_checks:
  assumes "accepted_train seq fs" and "k < length fs"
  shows "train_frame_ok (header (hd fs)) (int (length fs)) k (fs ! k)"
proof -
  note F = train_frames [OF assms]
  have c: "chunk_count (header (fs ! k)) > 1" using F(5) assms(1) by (simp add: accepted_train_def)
  note D = decoded_chunk [OF F(6) c]
  have "sequence (header (hd fs)) = seq"
    using train_frames(2) [OF assms(1) train_positive(1) [OF assms(1)]] train_positive(3) [OF assms(1)] by simp
  moreover have "chunk_length (header (fs ! k)) \<le> chunk_max" using F(1) by (simp add: shape_ok_def Let_def)
  ultimately show ?thesis using F D by (auto simp: train_frame_ok_def Let_def shape_ok_def train_identity_def)
qed

text \<open>
  C20. Incremental acceptance is as strict as reassembly: a train of decoded frames that the endpoint's
  frame-by-frame check lets through passes every check of \<open>reassemble_chunked_payload_v3\<close> on order,
  count, flags, identity and length, so reassembly fails on it only if the payload itself does not
  decode; and the train is never longer than 513 frames or 8 MiB and 44 bytes.
\<close>

theorem incremental_reassembly:
  assumes "accepted_train seq fs"
  shows "reassemble_chunked_payload_v3 fs =
      bindE (decode_collector_response_payload_v3 (concat (map train_chunk fs))) (\<lambda>_. Inr (concat (map train_chunk fs))) \<and>
    length fs \<le> 513 \<and> length (concat (map train_chunk fs)) \<le> 8 * 1024 * 1024 + 44"
proof -
  define n where "n = total_length (header (hd fs))"
  note P = train_positive [OF assms]
  note F = train_frames [OF assms P(1), unfolded P(3)] and L = train_lengths(2) [OF assms P(1), folded n_def]
  have two: "2 \<le> int (length fs)" using assms by (simp add: accepted_train_def)
  have mt: "message_type (header (hd fs)) = COLLECTOR_RESPONSE" by (rule decoded_chunk(1) [OF F(6)]) (use F(5) two in simp)
  have S: "n \<le> 8 * 1024 * 1024 + 44" "int (length fs) \<le> 513" using F(1,5) by (auto simp: shape_ok_def Let_def n_def)
  have "chunk_max \<le> (int (length fs) - 1) * chunk_max" using mult_right_mono [of 1 "int (length fs) - 1" chunk_max] two by simp
  then have big: "chunk_max < n" using chunk_total_bounds [OF P(4), folded n_def] unfolding L by linarith
  have c1: "(message_type (header (hd fs)) \<noteq> COLLECTOR_RESPONSE \<or> chunk_count (header (hd fs)) < 2 \<or> n \<le> chunk_max) = False"
    using mt big two F(5) by simp
  have c2: "(chunk_count (header (hd fs)) \<noteq> chunk_total n \<or> chunk_total n > 513 \<or> int (length fs) \<noteq> chunk_total n) = False"
    using L F(5) S(2) by simp
  have c3: "list_all (\<lambda>(i, frame). train_frame_ok (header (hd fs)) (chunk_total n) i frame) (zip [0..<length fs] fs)"
    using train_frame_checks [OF assms, unfolded L] by (auto simp: list_all_length)
  have T: "int (length (concat (map train_chunk fs))) = n" using train_length [OF assms] by (simp only: n_def)
  have "reassemble_chunked_payload_v3 fs =
      bindE (decode_collector_response_payload_v3 (concat (map train_chunk fs))) (\<lambda>_. Inr (concat (map train_chunk fs)))"
    using P(2) unfolding reassemble_chunked_payload_v3_def Let_def n_def [symmetric] c1 c2 T
    by (simp only: c3 if_False not_True_eq_False not_False_eq_True refl)
  moreover have "length (concat (map train_chunk fs)) \<le> 8 * 1024 * 1024 + 44" using S(1) T by linarith
  moreover have "length fs \<le> 513" using S(2) by linarith
  ultimately show ?thesis by blast
qed

section \<open>Concrete runs\<close>

theorem endpoint_holds_witness:
  "held (fst (run endpoint_step \<lparr>peer_credentials = (7, 0, 0), rx_sequence = 1, tx_sequence = 1, rx_train = None, tx_train = None,
      pending_frame = None, closed = False, held = 0\<rparr> [Flush Would_block, Receive Recv_block, Close_endpoint])) = 0"
proof -
  have "new_endpoint True (7, 0, 0) = Inr \<lparr>peer_credentials = (7, 0, 0), rx_sequence = 1, tx_sequence = 1, rx_train = None, tx_train = None,
      pending_frame = None, closed = False, held = 0\<rparr>" by (simp add: new_endpoint_def)
  from endpoint_holds [OF this refl, of "[Flush Would_block, Receive Recv_block, Close_endpoint]"]
  show ?thesis by (simp add: flush_def receive_def close_endpoint_def)
qed

text \<open>A train of two frames, of 16384 bytes and one byte.\<close>

definition sample_header :: "int \<Rightarrow> int \<Rightarrow> int \<Rightarrow> ServingWireHeaderV3" where
  "sample_header flgs i n = \<lparr>version = 3, message_type = COLLECTOR_RESPONSE, flags = flgs, sequence = 1, chunk_index = i, chunk_count = 2,
     chunk_length = n, total_length = 16385, session_token = replicate 32 (CHR ''t'')\<rparr>"

definition sample_train :: "ServingWireFrameV3 list" where
  "sample_train =
     [\<lparr>header = sample_header 1 0 16384, payload = P_chunk (replicate 16384 (CHR ''x''))\<rparr>,
      \<lparr>header = sample_header 2 1 1, payload = P_chunk ''y''\<rparr>]"

lemma sample_frame_decoded:
  assumes "flgs \<in> {1, 2}" and "0 \<le> i" "i < 2" and "n = int (length b)" and "b \<noteq> []" and "length b \<le> MAX_CHUNK_PAYLOAD_BYTES_V3"
  shows "decoded \<lparr>header = sample_header flgs i n, payload = P_chunk b\<rparr>"
proof -
  have ok: "frame_ok \<lparr>header = sample_header flgs i n, payload = P_chunk b\<rparr>"
    using assms(1) by (auto simp: frame_ok_def Let_def sample_header_def validate_session_token_def has_flag_def FLAG_HAS_FD_V3_def
        HEADER_VERSION_V3_def replicate_eq_replicate)
  have "\<exists>hb. encode_serving_wire_header_v3 (sample_header flgs i n) = Inr hb"
    using assms by (auto simp: encode_serving_wire_header_v3_def res_simps validate_header_Inr sample_header_def HEADER_FLAGS_MASK_def
        FLAG_START_V3_def FLAG_END_V3_def FLAG_HAS_FD_V3_def MAX_CHUNK_PAYLOAD_BYTES_V3_def)
  then obtain hb where hb: "encode_serving_wire_header_v3 (sample_header flgs i n) = Inr hb" by blast
  have "(sample_header flgs i n)\<lparr>version := HEADER_VERSION_V3\<rparr> = sample_header flgs i n"
    by (simp add: sample_header_def HEADER_VERSION_V3_def)
  with hb assms(4-6) have "encode_frame \<lparr>header = sample_header flgs i n, payload = P_chunk b\<rparr> = Inr (hb @ b)"
    unfolding encode_frame_iff by (simp add: frame_text_def) (simp add: sample_header_def)
  with ok show ?thesis unfolding decoded_def frame_codec by blast
qed

theorem incremental_reassembly_witness:
  "accepted_train 1 sample_train \<and> length sample_train \<le> 513 \<and>
   reassemble_chunked_payload_v3 sample_train =
     bindE (decode_collector_response_payload_v3 (replicate 16384 (CHR ''x'') @ ''y''))
       (\<lambda>_. Inr (replicate 16384 (CHR ''x'') @ ''y''))"
proof -
  have "list_all decoded sample_train"
    by (simp add: sample_train_def sample_frame_decoded MAX_CHUNK_PAYLOAD_BYTES_V3_def)
  moreover have "accept_all 1 None sample_train = Inr (1 + 1, None)"
    by (simp add: sample_train_def sample_header_def advance_def shape_ok_def Let_def chunk_total_def MAX_CHUNK_PAYLOAD_BYTES_V3_def
        has_flag_def FLAG_START_V3_def FLAG_END_V3_def train_identity_def)
  ultimately have a: "accepted_train 1 sample_train" by (simp add: accepted_train_def sample_train_def)
  have "concat (map train_chunk sample_train) = replicate 16384 (CHR ''x'') @ ''y''"
    by (simp add: sample_train_def train_chunk_def)
  with incremental_reassembly [OF a] a show ?thesis by simp
qed

end
