(* ===== verification/Message_Channel.thy ===== *)
theory Message_Channel
  imports Wire_Endpoint Sha256
begin

text \<open>
  \<open>CandidateMessageChannel\<close> of \<open>conf_proc_spp_candidate_messages.py\<close> on top of the wire endpoint:
  whole messages, a collector response as a train of chunks each acknowledged with the rolling
  digest, and absolute deadlines. The clock is a function of the number of readings so far, which
  the channel counts; the rolling \<open>sha256\<close> objects are the bytes hashed so far.
\<close>

unbundle bit_operations_syntax

section \<open>State\<close>

record message =
  kind :: ServingWireMessageTypeV3
  token :: bytes
  content :: wire_payload
  passed :: "sock option"

record train_out =
  o_token :: bytes
  o_raw :: bytes
  o_index :: nat
  o_hashed :: bytes

record channel =
  ep :: endpoint
  outgoing :: "train_out option"
  incoming :: "bytes option"
  ack_expected :: "(bytes \<times> ChunkAckPayloadV3) option"
  ack_queued :: bool
  ready :: "message option"
  deadline :: "int option"
  overall :: "int option"
  ch_closed :: bool
  released :: "sock list"
  reads :: nat

type_synonym clock = "nat \<Rightarrow> int"
type_synonym 'a step = "channel \<Rightarrow> (ipc_error + 'a) \<times> channel"

definition PACKET_NS :: int where "PACKET_NS = 5000000000"
definition COLLECTOR_NS :: int where "COLLECTOR_NS = 180000000000"

definition new_channel :: "endpoint \<Rightarrow> channel" where
  "new_channel e = \<lparr>ep = e, outgoing = None, incoming = None, ack_expected = None, ack_queued = False, ready = None,
     deadline = None, overall = None, ch_closed = False, released = [], reads = 0\<rparr>"

definition retC :: "'a \<Rightarrow> 'a step" where "retC x c = (Inr x, c)"

definition failC :: "ipc_error \<Rightarrow> 'a step" where "failC e c = (Inl e, c)"

definition thenC :: "'a step \<Rightarrow> ('a \<Rightarrow> 'b step) \<Rightarrow> 'b step" where
  "thenC m f c = (case m c of (Inl e, c') \<Rightarrow> (Inl e, c') | (Inr x, c') \<Rightarrow> f x c')"

definition monotonic_ns :: "clock \<Rightarrow> int step" where
  "monotonic_ns clk c = (Inr (clk (reads c)), c\<lparr>reads := reads c + 1\<rparr>)"

definition on_endpoint :: "(endpoint \<Rightarrow> (ipc_error + 'a) \<times> endpoint) \<Rightarrow> 'a step" where
  "on_endpoint f c = (case f (ep c) of (r, e) \<Rightarrow> (r, c\<lparr>ep := e\<rparr>))"

definition modifyC :: "(channel \<Rightarrow> channel) \<Rightarrow> unit step" where "modifyC f c = (Inr (), f c)"

section \<open>Operations\<close>

definition close_channel :: "channel \<Rightarrow> channel" where
  "close_channel c = c\<lparr>ep := close_endpoint (ep c), outgoing := None, incoming := None, ready := None, ack_expected := None, ch_closed := True\<rparr>"

text \<open>\<open>except BaseException: self.close(); raise\<close>.\<close>

definition closing :: "'a step \<Rightarrow> 'a step" where
  "closing m c = (case m c of (Inl e, c') \<Rightarrow> (Inl e, close_channel c') | r \<Rightarrow> r)"

definition expired :: "int option \<Rightarrow> int \<Rightarrow> bool" where
  "expired d now = (case d of None \<Rightarrow> False | Some t \<Rightarrow> now \<ge> t)"

definition tick :: "clock \<Rightarrow> unit step" where
  "tick clk c =
     (if ch_closed c then (Inl (IpcRuntimeError ''candidate message channel closed''), c)
      else thenC (monotonic_ns clk) (\<lambda>now c.
        if expired (deadline c) now \<or> expired (overall c) now then (Inl IpcTimeout, close_channel c) else (Inr (), c)) c)"

definition packet_flags :: "nat \<Rightarrow> nat \<Rightarrow> bool \<Rightarrow> int" where
  "packet_flags index count fd =
     ((if index = 0 then FLAG_START_V3 else 0) OR (if int index = int count - 1 then FLAG_END_V3 else 0)) OR
     (if fd then FLAG_HAS_FD_V3 else 0)"

definition packet :: "clock \<Rightarrow> ServingWireMessageTypeV3 \<Rightarrow> bytes \<Rightarrow> bytes \<Rightarrow> nat \<Rightarrow> nat \<Rightarrow> int \<Rightarrow> sock option \<Rightarrow> unit step" where
  "packet clk k tok raw index count tlength d c =
     (case encode_serving_wire_frame_v3 k tok (tx_sequence (ep c)) (int index) (int count) (int (length raw)) tlength
         (packet_flags index count (d \<noteq> None)) raw of
        Inl m \<Rightarrow> (Inl (WireError m), c)
      | Inr wire \<Rightarrow>
          thenC (on_endpoint (queue wire d)) (\<lambda>_.
          thenC (monotonic_ns clk) (\<lambda>now.
            modifyC (\<lambda>c. c\<lparr>deadline := Some (now + PACKET_NS)\<rparr>))) c)"

definition next_chunk :: "clock \<Rightarrow> unit step" where
  "next_chunk clk c =
     (case outgoing c of
        None \<Rightarrow> (Inl (IpcRuntimeError ''no outgoing train''), c)
      | Some t \<Rightarrow>
          let index = o_index t; raw = o_raw t; size = MAX_CHUNK_PAYLOAD_BYTES_V3;
              chunk = pslice (index * size) ((index + 1) * size) raw;
              count = (length raw + size - 1) div size;
              seq = tx_sequence (ep c);
              hashed = o_hashed t @ chunk
          in thenC (packet clk COLLECTOR_RESPONSE (o_token t) chunk index count (int (length raw)) None) (\<lambda>_.
               modifyC (\<lambda>c. c\<lparr>outgoing := Some (t\<lparr>o_hashed := hashed\<rparr>),
                 ack_expected := Some (o_token t,
                   ChunkAckPayloadV3 seq (int index) (int (min ((index + 1) * size) (length raw))) (sha256 hashed))\<rparr>)) c)"

text \<open>The digest of a successful collector response must be that of its output.\<close>

fun digest_ok :: "wire_payload \<Rightarrow> bool" where
  "digest_ok (P_collector_response (CollectorResponsePayloadV3 _ result _ _ _ digest json_bytes)) \<longleftrightarrow>
     (result = Result_SUCCESS \<longrightarrow> sha256 json_bytes = digest)"
| "digest_ok _ \<longleftrightarrow> True"

definition send :: "clock \<Rightarrow> ServingWireMessageTypeV3 \<Rightarrow> bytes \<Rightarrow> bytes \<Rightarrow> sock option \<Rightarrow> unit step" where
  "send clk k tok raw d =
     thenC (tick clk) (\<lambda>_ c.
       if outgoing c \<noteq> None \<or> incoming c \<noteq> None \<or> ready c \<noteq> None \<or> wants_write (ep c) \<or> k = CHUNK_ACK
       then (Inl (IpcRuntimeError ''candidate message channel is busy or ACK is not owned''), c)
       else case decode_wire_payload k raw of
           Inl m \<Rightarrow> (Inl (WireError m), c)
         | Inr p \<Rightarrow>
             if k = COLLECTOR_RESPONSE then
               (if d \<noteq> None then (Inl (IpcValueError ''collector response cannot carry a descriptor''), c)
                else if \<not> digest_ok p then (Inl (IpcValueError ''collector stdout digest differs''), c)
                else thenC (modifyC (\<lambda>c. c\<lparr>outgoing := Some \<lparr>o_token = tok, o_raw = raw, o_index = 0, o_hashed = []\<rparr>\<rparr>)) (\<lambda>_.
                     thenC (monotonic_ns clk) (\<lambda>now.
                     thenC (modifyC (\<lambda>c. c\<lparr>overall := Some (now + COLLECTOR_NS)\<rparr>)) (\<lambda>_.
                       next_chunk clk))) c)
             else packet clk k tok raw 0 1 (int (length raw)) d c)"

definition flush_channel :: "clock \<Rightarrow> send_outcome \<Rightarrow> bool step" where
  "flush_channel clk out =
     thenC (tick clk) (\<lambda>_. closing (
       thenC (on_endpoint (flush out)) (\<lambda>sent.
         if \<not> sent then retC False
         else thenC (tick clk) (\<lambda>_ c.
           if ack_queued c then
             (let c = c\<lparr>ack_queued := False\<rparr>
              in if ready c \<noteq> None then (Inr True, c\<lparr>incoming := None, overall := None, deadline := None\<rparr>)
                 else thenC (monotonic_ns clk) (\<lambda>now c. (Inr True, c\<lparr>deadline := Some (now + PACKET_NS)\<rparr>)) c)
           else if outgoing c \<noteq> None \<or> incoming c \<noteq> None then (Inr True, c)
           else (Inr True, c\<lparr>deadline := None\<rparr>)))))"

text \<open>The acknowledgement of the outstanding chunk: the next chunk goes out, or the train is over.\<close>

definition receive_ack :: "clock \<Rightarrow> received_frame \<Rightarrow> message option step" where
  "receive_ack clk rf c =
     (case (ack_expected c, outgoing c, payload (frame rf)) of
        (Some (tok, ack), Some t, P_chunk_ack a) \<Rightarrow>
          if wants_write (ep c) \<or> (session_token (header (frame rf)), a) \<noteq> (tok, ack)
          then (Inl (IpcValueError ''candidate chunk acknowledgement differs or is unsolicited''), c)
          else let c1 = c\<lparr>ack_expected := None, outgoing := Some (t\<lparr>o_index := o_index t + 1\<rparr>)\<rparr>
               in if (o_index t + 1) * MAX_CHUNK_PAYLOAD_BYTES_V3 \<ge> length (o_raw t)
                  then (Inr None, c1\<lparr>outgoing := None, deadline := None, overall := None\<rparr>)
                  else thenC (next_chunk clk) (\<lambda>_. retC None) c1
      | _ \<Rightarrow> (Inl (IpcValueError ''candidate chunk acknowledgement differs or is unsolicited''), c))"

text \<open>The bytes of one frame of a collector response.\<close>

definition response_bytes :: "ServingWireFrameV3 \<Rightarrow> bytes checked" where
  "response_bytes fr = (case payload fr of
     P_chunk b \<Rightarrow> Inr b
   | P_collector_response p \<Rightarrow> encode_collector_response_payload_v3 p
   | _ \<Rightarrow> Inl ''payload is not a collector response'')"

text \<open>A collector response in four stages: the buffer, the bytes, the finished message, the acknowledgement.\<close>

definition open_buffer :: "clock \<Rightarrow> unit step" where
  "open_buffer clk c =
     (if incoming c = None
      then thenC (monotonic_ns clk) (\<lambda>now. modifyC (\<lambda>c. c\<lparr>incoming := Some [], overall := Some (now + COLLECTOR_NS)\<rparr>)) c
      else (Inr (), c))"

definition finish_message :: "ServingWireHeaderV3 \<Rightarrow> bytes \<Rightarrow> unit step" where
  "finish_message h buf c =
     (if has_flag FLAG_END_V3 h then
        (case decode_collector_response_payload_v3 buf of
           Inl m \<Rightarrow> (Inl (WireError m), c)
         | Inr p \<Rightarrow>
             if \<not> digest_ok (P_collector_response p)
             then (Inl (IpcValueError ''candidate received collector stdout digest differs''), c)
             else (Inr (), c\<lparr>ready := Some \<lparr>kind = COLLECTOR_RESPONSE, token = session_token h,
                 content = P_collector_response p, passed = None\<rparr>\<rparr>))
      else (Inr (), c))"

definition queue_ack :: "clock \<Rightarrow> ServingWireHeaderV3 \<Rightarrow> bytes \<Rightarrow> message option step" where
  "queue_ack clk h buf =
     thenC (tick clk) (\<lambda>_ c.
       case encode_chunk_ack_payload_v3 (ChunkAckPayloadV3 (sequence h) (chunk_index h) (int (length buf)) (sha256 buf)) of
         Inl m \<Rightarrow> (Inl (WireError m), c)
       | Inr ack \<Rightarrow>
           thenC (packet clk CHUNK_ACK (session_token h) ack 0 1 (int (length ack)) None) (\<lambda>_ c.
             (Inr None, c\<lparr>ack_queued := True\<rparr>)) c)"

definition receive_chunk :: "clock \<Rightarrow> received_frame \<Rightarrow> message option step" where
  "receive_chunk clk rf =
     thenC (open_buffer clk) (\<lambda>_ c.
       case response_bytes (frame rf) of
         Inl m \<Rightarrow> (Inl (WireError m), c)
       | Inr raw \<Rightarrow>
           let h = header (frame rf);
               buf = (case incoming c of Some b \<Rightarrow> b | None \<Rightarrow> []) @ raw
           in thenC (finish_message h buf) (\<lambda>_. queue_ack clk h buf) (c\<lparr>incoming := Some buf\<rparr>))"

definition receive_frame :: "clock \<Rightarrow> received_frame \<Rightarrow> message option step" where
  "receive_frame clk rf c =
     (let h = header (frame rf) in
      if message_type h = CHUNK_ACK then receive_ack clk rf c
      else if outgoing c \<noteq> None \<or> ack_queued c \<or> ready c \<noteq> None
      then (Inl (IpcValueError ''candidate message interleaves an outstanding chunk''), c)
      else if message_type h \<noteq> COLLECTOR_RESPONSE then
        (if incoming c \<noteq> None then (Inl (IpcValueError ''candidate message interleaves collector response''), c)
         else (Inr (Some \<lparr>kind = message_type h, token = session_token h, content = payload (frame rf), passed = descriptor rf\<rparr>), c))
      else if wants_write (ep c) then (Inl (IpcValueError ''candidate collector response overlaps pending output''), c)
      else receive_chunk clk rf c)"

text \<open>
  The \<open>finally\<close> block: a received descriptor that is not handed to the caller is closed; the
  channel lists those it has closed.
\<close>

definition releasing :: "received_frame option \<Rightarrow> message option step \<Rightarrow> message option step" where
  "releasing received m c = (case m c of
     (Inr (Some msg), c') \<Rightarrow> (Inr (Some msg), c')
   | (r, c') \<Rightarrow> (r, case Option.bind received descriptor of
        None \<Rightarrow> c'
      | Some d \<Rightarrow> c'\<lparr>released := released c' @ [d]\<rparr>))"

lemma releasing_plain [simp]: "descriptor rf = None \<Longrightarrow> releasing (Some rf) m = m"
  by (rule ext) (auto simp: releasing_def split: sum.splits option.splits prod.splits)

lemma releasing_nothing [simp]: "releasing None m = m"
  by (rule ext) (auto simp: releasing_def split: sum.splits option.splits prod.splits)

definition receive_channel :: "clock \<Rightarrow> recv_outcome \<Rightarrow> message option step" where
  "receive_channel clk out =
     thenC (tick clk) (\<lambda>_ c.
       if ready c \<noteq> None \<and> \<not> ack_queued c then (Inr (ready c), c\<lparr>ready := None\<rparr>)
       else closing (
         thenC (on_endpoint (receive out)) (\<lambda>received.
         releasing received (thenC (tick clk) (\<lambda>_.
           case received of None \<Rightarrow> retC None | Some rf \<Rightarrow> receive_frame clk rf)))) c)"

end
