(* ===== verification/Message_Delivery.thy ===== *)
theory Message_Delivery
  imports Message_Channel
begin

text \<open>
  A collector response through two message channels: the sender cuts it into chunks, the receiver
  acknowledges each, and after as many rounds as there are chunks the receiver delivers exactly the
  payload that was sent, whatever its size, and both channels are idle again.
\<close>

unbundle bit_operations_syntax

section \<open>Channels without expired deadlines\<close>

lemmas step_simps = thenC_def retC_def failC_def modifyC_def monotonic_ns_def on_endpoint_def

text \<open>
  The clock from its reading \<open>lo\<close> to its reading \<open>hi\<close>: any five readings in a row lie within the budget of a
  packet, and all of them within the budget of a collector response. A chunk and its
  acknowledgement take four readings of each clock after the one that sets the deadline, and a transfer of
  \<open>n\<close> chunks takes at most \<open>7 * n + 2\<close> readings.
\<close>

definition in_time :: "clock \<Rightarrow> nat \<Rightarrow> nat \<Rightarrow> bool" where
  "in_time clk lo hi \<longleftrightarrow> (\<forall>i j. lo \<le> i \<and> i < j \<and> j \<le> hi \<longrightarrow> clk j < clk i + COLLECTOR_NS \<and> (j \<le> i + 4 \<longrightarrow> clk j < clk i + PACKET_NS))"

lemma expired_simps [simp]: "expired None now = False" "expired (Some t) now = (t \<le> now)"
  by (simp_all add: expired_def)

text \<open>An open channel whose packet deadline holds for the next \<open>m\<close> readings, and its overall deadline up to the reading \<open>hi\<close>.\<close>

definition open_channel :: "clock \<Rightarrow> nat \<Rightarrow> nat \<Rightarrow> channel \<Rightarrow> bool" where
  "open_channel clk hi m c \<longleftrightarrow> \<not> ch_closed c \<and> \<not> closed (ep c) \<and> (\<forall>i. reads c \<le> i \<and> i < reads c + m \<and> i \<le> hi \<longrightarrow> \<not> expired (deadline c) (clk i)) \<and>
     (\<forall>i. reads c \<le> i \<and> i \<le> hi \<longrightarrow> \<not> expired (overall c) (clk i))"

lemma open_fields [simp]:
  "open_channel clk hi m (c\<lparr>outgoing := x2\<rparr>) = open_channel clk hi m c" "open_channel clk hi m (c\<lparr>incoming := x3\<rparr>) = open_channel clk hi m c"
  "open_channel clk hi m (c\<lparr>ack_expected := x4\<rparr>) = open_channel clk hi m c" "open_channel clk hi m (c\<lparr>ack_queued := x5\<rparr>) = open_channel clk hi m c"
  "open_channel clk hi m (c\<lparr>ready := x6\<rparr>) = open_channel clk hi m c"
  by (simp_all add: open_channel_def)

lemma open_not_closed: "open_channel clk hi m c \<Longrightarrow> \<not> closed (ep c) \<and> \<not> ch_closed c"
  by (simp add: open_channel_def)

lemma open_endpoint: "open_channel clk hi m c \<Longrightarrow> \<not> closed e \<Longrightarrow> open_channel clk hi m (c\<lparr>ep := e\<rparr>)"
  by (simp add: open_channel_def)

lemma open_clear: "open_channel clk hi m c \<Longrightarrow> open_channel clk hi k (c\<lparr>deadline := None\<rparr>)" "open_channel clk hi m c \<Longrightarrow> open_channel clk hi m (c\<lparr>overall := None\<rparr>)"
  by (simp_all add: open_channel_def)

lemma open_less: "open_channel clk hi m c \<Longrightarrow> k \<le> m \<Longrightarrow> open_channel clk hi k c"
  by (auto simp: open_channel_def)

text \<open>A reading that is checked, and the two that set a deadline.\<close>

lemma open_read: "open_channel clk hi (Suc m) c \<Longrightarrow> open_channel clk hi m (c\<lparr>reads := Suc (reads c)\<rparr>)"
  by (auto simp: open_channel_def)

lemma open_deadline:
  "open_channel clk hi m c \<Longrightarrow> in_time clk lo hi \<Longrightarrow> lo \<le> reads c \<Longrightarrow> open_channel clk hi 4 (c\<lparr>reads := Suc (reads c), deadline := Some (clk (reads c) + PACKET_NS)\<rparr>)"
  by (auto simp: open_channel_def in_time_def not_le)

lemma open_overall:
  "open_channel clk hi m c \<Longrightarrow> deadline c = None \<Longrightarrow> in_time clk lo hi \<Longrightarrow> lo \<le> reads c \<Longrightarrow>
    open_channel clk hi k (c\<lparr>reads := Suc (reads c), overall := Some (clk (reads c) + COLLECTOR_NS)\<rparr>)"
  by (auto simp: open_channel_def in_time_def not_le)

lemma tick_open: "open_channel clk hi (Suc m) c \<Longrightarrow> reads c \<le> hi \<Longrightarrow> tick clk c = (Inr (), c\<lparr>reads := Suc (reads c)\<rparr>)"
  by (auto simp: tick_def step_simps open_channel_def)

section \<open>The frames of a collector response\<close>

abbreviation chunk_size :: nat where "chunk_size \<equiv> MAX_CHUNK_PAYLOAD_BYTES_V3"

definition chunks :: "bytes \<Rightarrow> nat" where
  "chunks raw = (length raw + chunk_size - 1) div chunk_size"

definition piece :: "bytes \<Rightarrow> nat \<Rightarrow> bytes" where
  "piece raw k = pslice (k * chunk_size) ((k + 1) * chunk_size) raw"

definition piece_header :: "bytes \<Rightarrow> int \<Rightarrow> bytes \<Rightarrow> nat \<Rightarrow> ServingWireHeaderV3" where
  "piece_header tok seq raw k = \<lparr>version = HEADER_VERSION_V3, message_type = COLLECTOR_RESPONSE, flags = packet_flags k (chunks raw) False,
     sequence = seq, chunk_index = int k, chunk_count = int (chunks raw), chunk_length = int (length (piece raw k)),
     total_length = int (length raw), session_token = tok\<rparr>"

definition piece_frame :: "bytes \<Rightarrow> int \<Rightarrow> bytes \<Rightarrow> CollectorResponsePayloadV3 \<Rightarrow> nat \<Rightarrow> ServingWireFrameV3" where
  "piece_frame tok seq raw p k = \<lparr>header = piece_header tok seq raw k,
     payload = (if chunks raw = 1 then P_collector_response p else P_chunk (piece raw k))\<rparr>"

definition good_token :: "bytes \<Rightarrow> bool" where
  "good_token tok \<longleftrightarrow> length tok = 32 \<and> tok \<noteq> ZERO_TOKEN"

definition good_seq :: "int \<Rightarrow> bool" where
  "good_seq s \<longleftrightarrow> 0 \<le> s \<and> s < 2 ^ 32"

lemma chunk_total_nat: "chunk_total (int (length raw)) = int (chunks raw)"
  by (simp add: chunk_total_def chunks_def MAX_CHUNK_PAYLOAD_BYTES_V3_def zdiv_int)

lemma chunks_bounds:
  assumes "k < chunks raw"
  shows "k * chunk_size < length raw" "k + 1 = chunks raw \<Longrightarrow> length raw \<le> (k + 1) * chunk_size"
    "k + 1 < chunks raw \<Longrightarrow> (k + 1) * chunk_size < length raw"
  using assms by (auto simp: chunks_def MAX_CHUNK_PAYLOAD_BYTES_V3_def)

lemma length_piece: "k < chunks raw \<Longrightarrow> length (piece raw k) = min chunk_size (length raw - k * chunk_size)"
  using chunks_bounds(1) [of k raw] by (simp add: piece_def pslice_def min_def)

lemma piece_nonempty: "k < chunks raw \<Longrightarrow> piece raw k \<noteq> []"
  using length_piece [of k raw] chunks_bounds(1) [of k raw] by (auto simp: MAX_CHUNK_PAYLOAD_BYTES_V3_def)

lemma take_piece: "take (k * chunk_size) raw @ piece raw k = take ((k + 1) * chunk_size) raw"
  by (simp add: piece_def pslice_def take_add [symmetric] add.commute)

lemma packet_flags_bits:
  assumes "flags h = packet_flags k n fd"
  shows "has_flag FLAG_START_V3 h = (k = 0)" "has_flag FLAG_END_V3 h = (int k = int n - 1)" "has_flag FLAG_HAS_FD_V3 h = fd"
    "flags h AND NOT HEADER_FLAGS_MASK = 0" "0 \<le> flags h" "flags h < 2 ^ 16"
  by (auto simp: assms has_flag_def packet_flags_def FLAG_START_V3_def FLAG_END_V3_def FLAG_HAS_FD_V3_def HEADER_FLAGS_MASK_def)

definition good_response :: "bytes \<Rightarrow> CollectorResponsePayloadV3 \<Rightarrow> bool" where
  "good_response raw p \<longleftrightarrow> decode_collector_response_payload_v3 raw = Inr p \<and> digest_ok (P_collector_response p)"

lemma good_response_length: "good_response raw p \<Longrightarrow> 44 \<le> length raw \<and> length raw \<le> 8388652"
  by (auto simp: good_response_def decode_collector_response_payload_v3_def COLLECTOR_RESPONSE_MAX_TAIL_BYTES_V3_def split: if_splits)

lemma good_response_chunks: "good_response raw p \<Longrightarrow> 1 \<le> chunks raw \<and> chunks raw \<le> 513"
  using good_response_length [of raw p] by (auto simp: chunks_def MAX_CHUNK_PAYLOAD_BYTES_V3_def)

lemma single_piece: "chunks raw = 1 \<Longrightarrow> piece raw 0 = raw"
  using chunks_bounds(2) [of 0 raw] by (simp add: piece_def pslice_def)

definition piece_wire :: "bytes \<Rightarrow> int \<Rightarrow> bytes \<Rightarrow> nat \<Rightarrow> bytes checked" where
  "piece_wire tok seq raw k = encode_serving_wire_frame_v3 COLLECTOR_RESPONSE tok seq (int k) (int (chunks raw))
     (int (length (piece raw k))) (int (length raw)) (packet_flags k (chunks raw) False) (piece raw k)"

lemma piece_frame_decodes:
  assumes r: "good_response raw p" and t: "good_token tok" and s: "good_seq seq" and k: "k < chunks raw"
  obtains w where "piece_wire tok seq raw k = Inr w" "decode_serving_wire_frame_v3 w = Inr (piece_frame tok seq raw p k)"
proof -
  let ?fr = "piece_frame tok seq raw p k" and ?h = "piece_header tok seq raw k"
  note L = good_response_length [OF r] and N = good_response_chunks [OF r]
  have flags: "flags ?h = packet_flags k (chunks raw) False" by (simp add: piece_header_def)
  note B = packet_flags_bits [OF flags]
  have txtq: "frame_text ?fr = Inr (piece raw k)"
  proof (cases "chunks raw = 1")
    case True
    have "encode_collector_response_payload_v3 p = Inr raw"
      using r by (simp add: good_response_def collector_response.encode_decode)
    then show ?thesis using True k by (simp add: frame_text_def piece_frame_def single_piece)
  qed (simp add: frame_text_def piece_frame_def)
  have ok: "frame_ok ?fr" using B(3) N t
    by (simp add: frame_ok_def Let_def piece_frame_def piece_header_def validate_session_token_def good_token_def fault_coherent_def)
  have "\<exists>hb. encode_serving_wire_header_v3 ?h = Inr hb"
    using B(4-6) s t L N k length_piece [OF k]
    by (auto simp: encode_serving_wire_header_v3_def res_simps validate_header_Inr good_seq_def good_token_def)
      (auto simp: piece_header_def HEADER_VERSION_V3_def MAX_CHUNK_PAYLOAD_BYTES_V3_def)
  then obtain hb where hb: "encode_serving_wire_header_v3 ?h = Inr hb" by blast
  have w: "piece_wire tok seq raw k = Inr (hb @ piece raw k)"
    using hb piece_nonempty [OF k] length_piece [OF k]
    by (simp add: piece_wire_def encode_serving_wire_frame_v3_def piece_header_def)
  have "encode_frame ?fr = piece_wire tok seq raw k"
    by (simp add: encode_frame_def txtq piece_wire_def) (simp add: piece_frame_def piece_header_def Let_def)
  with ok w that frame_codec show thesis by metis
qed

definition train_at :: "bytes \<Rightarrow> bytes \<Rightarrow> nat \<Rightarrow> train" where
  "train_at tok raw k = (if k = 0 \<or> k = chunks raw then None
     else Some ((COLLECTOR_RESPONSE, tok, int (chunks raw), int (length raw)), int k))"

lemma piece_advances:
  assumes r: "good_response raw p" and k: "k < chunks raw"
  shows "advance (piece_frame tok seq raw p k) seq (train_at tok raw k) =
    Inr (if k + 1 = chunks raw then seq + 1 else seq, train_at tok raw (k + 1))"
proof -
  let ?h = "piece_header tok seq raw k"
  note L = good_response_length [OF r] and N = good_response_chunks [OF r]
  have flags: "flags ?h = packet_flags k (chunks raw) False" by (simp add: piece_header_def)
  note B = packet_flags_bits [OF flags]
  have "int (length raw) - int k * int chunk_size = int (length raw - k * chunk_size)"
    using chunks_bounds(1) [OF k] by (simp add: of_nat_diff)
  then have "int (length (piece raw k)) = min (int chunk_size) (int (length raw) - int k * int chunk_size)"
    using length_piece [OF k] by (simp only: of_nat_min)
  note len = this
  have "0 < int (length raw)" "int (length raw) \<le> 8 * 1024 * 1024 + 44" "int k < int (chunks raw)" "1 \<le> int (chunks raw)"
    "int (chunks raw) \<le> 513" using L N k by linarith+
  then have "shape_ok ?h" unfolding shape_ok_def Let_def B(1,2)
    unfolding piece_header_def ServingWireHeaderV3.select_convs chunk_total_nat len by (intro conjI refl) (assumption | simp)+
  moreover have "has_flag FLAG_END_V3 ?h = (k + 1 = chunks raw)" unfolding B(2) using k by linarith
  moreover have "chunk_index ?h = int k" "sequence ?h = seq" "header (piece_frame tok seq raw p k) = ?h"
    "train_identity ?h = (COLLECTOR_RESPONSE, tok, int (chunks raw), int (length raw))"
    by (simp_all add: piece_header_def train_identity_def piece_frame_def)
  moreover have "k \<noteq> chunks raw" using k by simp
  ultimately show ?thesis by (cases "k = 0") (simp_all add: advance_def Let_def train_at_def)
qed

section \<open>Acknowledgement frames\<close>

definition ack_at :: "int \<Rightarrow> bytes \<Rightarrow> nat \<Rightarrow> ChunkAckPayloadV3" where
  "ack_at seq raw k = ChunkAckPayloadV3 seq (int k) (int (min ((k + 1) * chunk_size) (length raw)))
     (sha256 (take ((k + 1) * chunk_size) raw))"

definition ack_frame :: "bytes \<Rightarrow> int \<Rightarrow> ChunkAckPayloadV3 \<Rightarrow> ServingWireFrameV3" where
  "ack_frame tok seq a = \<lparr>header = \<lparr>version = HEADER_VERSION_V3, message_type = CHUNK_ACK, flags = packet_flags 0 1 False, sequence = seq,
      chunk_index = 0, chunk_count = 1, chunk_length = 48, total_length = 48, session_token = tok\<rparr>, payload = P_chunk_ack a\<rparr>"

lemma ack_encodes:
  assumes "good_response raw p" and "good_seq seq" and "k < chunks raw"
  obtains b where "encode_chunk_ack_payload_v3 (ack_at seq raw k) = Inr b" "length b = 48"
proof -
  have "int k < 2 ^ 32" "int (min ((k + 1) * chunk_size) (length raw)) < 2 ^ 64"
    using good_response_length [OF assms(1)] good_response_chunks [OF assms(1)] assms(3) by auto
  then have "encode_chunk_ack_payload_v3 (ack_at seq raw k) = Inr (to_be 4 (nat seq) @ to_be 4 k @
      to_be 8 (min ((k + 1) * chunk_size) (length raw)) @ sha256 (take ((k + 1) * chunk_size) raw))"
    using assms(2) by (simp add: ack_at_def good_seq_def uint_def exact_bytes_def)
  from that [OF this] show thesis by simp
qed

lemma ack_frame_decodes:
  assumes a: "encode_chunk_ack_payload_v3 a = Inr b" "length b = 48" and t: "good_token tok" and s: "good_seq seq"
  obtains w where "encode_serving_wire_frame_v3 CHUNK_ACK tok seq 0 1 (int (length b)) (int (length b)) (packet_flags 0 1 False) b = Inr w"
    "decode_serving_wire_frame_v3 w = Inr (ack_frame tok seq a)"
proof -
  let ?fr = "ack_frame tok seq a"
  have flags: "flags (header ?fr) = packet_flags 0 1 False" by (simp add: ack_frame_def)
  note B = packet_flags_bits [OF flags]
  have txtq: "frame_text ?fr = Inr b" using a(1) by (simp add: frame_text_def ack_frame_def)
  have ok: "frame_ok ?fr" using B(3) t
    by (simp add: frame_ok_def Let_def ack_frame_def validate_session_token_def good_token_def fault_coherent_def)
  have "\<exists>hb. encode_serving_wire_header_v3 (header ?fr) = Inr hb"
    using B(4-6) s t by (auto simp: encode_serving_wire_header_v3_def res_simps validate_header_Inr good_seq_def good_token_def)
      (auto simp: ack_frame_def HEADER_VERSION_V3_def)
  then obtain hb where hb: "encode_serving_wire_header_v3 (header ?fr) = Inr hb" by blast
  have "b \<noteq> []" using a(2) by auto
  then have w: "encode_serving_wire_frame_v3 CHUNK_ACK tok seq 0 1 (int (length b)) (int (length b)) (packet_flags 0 1 False) b = Inr (hb @ b)"
    using hb a(2) by (simp add: encode_serving_wire_frame_v3_def ack_frame_def MAX_CHUNK_PAYLOAD_BYTES_V3_def)
  have "encode_frame ?fr = Inr (hb @ b)" using w a(2) by (simp add: encode_frame_def txtq) (simp add: ack_frame_def Let_def)
  with ok w that frame_codec show thesis by metis
qed

lemma ack_advances: "advance (ack_frame tok seq a) seq None = Inr (seq + 1, None)"
proof -
  have flags: "flags (header (ack_frame tok seq a)) = packet_flags 0 1 False" by (simp add: ack_frame_def)
  note B = packet_flags_bits [OF flags]
  have "shape_ok (header (ack_frame tok seq a))" unfolding shape_ok_def Let_def B(1,2)
    by (simp add: ack_frame_def chunk_total_def MAX_CHUNK_PAYLOAD_BYTES_V3_def)
  then show ?thesis using B(2) by (simp add: advance_def Let_def) (simp add: ack_frame_def)
qed

section \<open>The two ends during a transfer\<close>

text \<open>The states of a transfer whose clock is read from \<open>lo\<close> to \<open>hi\<close>, with the number of readings so far.\<close>

definition sender_base :: "bytes \<Rightarrow> int \<Rightarrow> int \<Rightarrow> bytes \<Rightarrow> nat \<Rightarrow> channel \<Rightarrow> bool" where
  "sender_base tok sa sb raw k a \<longleftrightarrow> incoming a = None \<and> ready a = None \<and> \<not> ack_queued a \<and>
     outgoing a = Some \<lparr>o_token = tok, o_raw = raw, o_index = k, o_hashed = take ((k + 1) * chunk_size) raw\<rparr> \<and>
     ack_expected a = Some (tok, ack_at sa raw k) \<and> rx_sequence (ep a) = sb + int k \<and> rx_train (ep a) = None"

definition sender_at :: "clock \<Rightarrow> nat \<Rightarrow> nat \<Rightarrow> bytes \<Rightarrow> int \<Rightarrow> int \<Rightarrow> bytes \<Rightarrow> CollectorResponsePayloadV3 \<Rightarrow> nat \<Rightarrow> channel \<Rightarrow> bool" where
  "sender_at clk lo hi tok sa sb raw p k a \<longleftrightarrow> open_channel clk hi 4 a \<and> reads a = lo + 3 + 5 * k \<and> sender_base tok sa sb raw k a \<and>
     (\<exists>w. pending_frame (ep a) = Some (w, None, piece_frame tok sa raw p k) \<and> decode_serving_wire_frame_v3 w = Inr (piece_frame tok sa raw p k)) \<and>
     tx_sequence (ep a) = sa \<and> tx_train (ep a) = train_at tok raw k"

definition sender_waits :: "clock \<Rightarrow> nat \<Rightarrow> nat \<Rightarrow> bytes \<Rightarrow> int \<Rightarrow> int \<Rightarrow> bytes \<Rightarrow> nat \<Rightarrow> channel \<Rightarrow> bool" where
  "sender_waits clk lo hi tok sa sb raw k a \<longleftrightarrow> open_channel clk hi 2 a \<and> reads a = lo + 5 + 5 * k \<and> sender_base tok sa sb raw k a \<and> pending_frame (ep a) = None \<and>
     tx_sequence (ep a) = (if k + 1 = chunks raw then sa + 1 else sa) \<and> tx_train (ep a) = train_at tok raw (k + 1)"

text \<open>An idle end with its next sequence numbers.\<close>

definition idle :: "int \<Rightarrow> int \<Rightarrow> channel \<Rightarrow> bool" where
  "idle tx rx c \<longleftrightarrow> \<not> ch_closed c \<and> \<not> closed (ep c) \<and> deadline c = None \<and> overall c = None \<and>
     outgoing c = None \<and> incoming c = None \<and> ready c = None \<and> \<not> ack_queued c \<and>
     pending_frame (ep c) = None \<and> tx_sequence (ep c) = tx \<and> tx_train (ep c) = None \<and> rx_sequence (ep c) = rx \<and> rx_train (ep c) = None"

lemma idle_open: "idle tx rx c \<Longrightarrow> open_channel clk hi m c"
  by (simp add: idle_def open_channel_def)

definition receiver_at :: "clock \<Rightarrow> nat \<Rightarrow> nat \<Rightarrow> bytes \<Rightarrow> int \<Rightarrow> int \<Rightarrow> bytes \<Rightarrow> nat \<Rightarrow> channel \<Rightarrow> bool" where
  "receiver_at clk lo hi tok sa sb raw k b \<longleftrightarrow> open_channel clk hi 3 b \<and> (k = 0 \<longrightarrow> deadline b = None) \<and> reads b = (if k = 0 then lo else lo + 7 * k + 1) \<and>
     outgoing b = None \<and> ready b = None \<and> \<not> ack_queued b \<and>
     incoming b = (if k = 0 then None else Some (take (k * chunk_size) raw)) \<and> pending_frame (ep b) = None \<and>
     rx_sequence (ep b) = sa \<and> rx_train (ep b) = train_at tok raw k \<and> tx_sequence (ep b) = sb + int k \<and> tx_train (ep b) = None"

definition delivered :: "bytes \<Rightarrow> CollectorResponsePayloadV3 \<Rightarrow> message" where
  "delivered tok p = \<lparr>kind = COLLECTOR_RESPONSE, token = tok, content = P_collector_response p, passed = None\<rparr>"

definition receiver_acks :: "clock \<Rightarrow> nat \<Rightarrow> nat \<Rightarrow> bytes \<Rightarrow> int \<Rightarrow> int \<Rightarrow> bytes \<Rightarrow> CollectorResponsePayloadV3 \<Rightarrow> nat \<Rightarrow> channel \<Rightarrow> bool" where
  "receiver_acks clk lo hi tok sa sb raw p k b \<longleftrightarrow> open_channel clk hi 4 b \<and> reads b = lo + 7 * k + 5 \<and> outgoing b = None \<and> ack_queued b \<and>
     ready b = (if k + 1 = chunks raw then Some (delivered tok p) else None) \<and> incoming b = Some (take ((k + 1) * chunk_size) raw) \<and>
     (\<exists>w. pending_frame (ep b) = Some (w, None, ack_frame tok (sb + int k) (ack_at sa raw k)) \<and>
        decode_serving_wire_frame_v3 w = Inr (ack_frame tok (sb + int k) (ack_at sa raw k))) \<and>
     rx_sequence (ep b) = (if k + 1 = chunks raw then sa + 1 else sa) \<and> rx_train (ep b) = train_at tok raw (k + 1) \<and>
     tx_sequence (ep b) = sb + int k \<and> tx_train (ep b) = None"

definition receiver_done :: "bytes \<Rightarrow> int \<Rightarrow> int \<Rightarrow> CollectorResponsePayloadV3 \<Rightarrow> channel \<Rightarrow> bool" where
  "receiver_done tok tx rx p b \<longleftrightarrow> ready b = Some (delivered tok p) \<and> idle tx rx (b\<lparr>ready := None\<rparr>)"

text \<open>What is queued, and the datagram the kernel makes of it for a peer with the right credentials.\<close>

definition wire_of :: "channel \<Rightarrow> bytes" where
  "wire_of c = (case pending_frame (ep c) of Some (w, _, _) \<Rightarrow> w | None \<Rightarrow> [])"

definition carried :: "channel \<Rightarrow> bytes \<Rightarrow> recv_outcome" where
  "carried c w = Received \<lparr>data = w, credentials = [peer_credentials (ep c)], descriptors = [], malformed = False\<rparr>"

text \<open>Two checked readings with a step of the endpoint between them, as \<open>flush\<close> and \<open>receive\<close> make them.\<close>

lemma two_ticks:
  assumes "open_channel clk hi (Suc (Suc m)) c" "reads c + 1 \<le> hi" "\<not> closed e"
  shows "tick clk c = (Inr (), c\<lparr>reads := Suc (reads c)\<rparr>)"
    "tick clk (c\<lparr>reads := Suc (reads c), ep := e\<rparr>) = (Inr (), c\<lparr>reads := Suc (Suc (reads c)), ep := e\<rparr>)"
    "open_channel clk hi m (c\<lparr>reads := Suc (Suc (reads c)), ep := e\<rparr>)"
proof -
  show "tick clk c = (Inr (), c\<lparr>reads := Suc (reads c)\<rparr>)" using tick_open [OF assms(1)] assms(2) by simp
  have o: "open_channel clk hi (Suc m) (c\<lparr>reads := Suc (reads c), ep := e\<rparr>)" by (rule open_endpoint [OF open_read [OF assms(1)] assms(3)])
  show "tick clk (c\<lparr>reads := Suc (reads c), ep := e\<rparr>) = (Inr (), c\<lparr>reads := Suc (Suc (reads c)), ep := e\<rparr>)" using tick_open [OF o] assms(2) by simp
  show "open_channel clk hi m (c\<lparr>reads := Suc (Suc (reads c)), ep := e\<rparr>)" using open_read [OF o] by (simp add: open_channel_def)
qed

lemma sender_flushes:
  assumes r: "good_response raw p" and k: "k < chunks raw" and hi: "hi = lo + 7 * chunks raw + 1" and a: "sender_at clk lo hi tok sa sb raw p k a"
  shows "\<exists>a'. flush_channel clk (Sent_bytes (length (wire_of a))) a = (Inr True, a') \<and> sender_waits clk lo hi tok sa sb raw k a'"
proof -
  obtain w where w: "pending_frame (ep a) = Some (w, None, piece_frame tok sa raw p k)" using a by (auto simp: sender_at_def)
  let ?e = "(ep a)\<lparr>tx_sequence := if k + 1 = chunks raw then sa + 1 else sa, tx_train := train_at tok raw (k + 1), held := held (ep a) - 0, pending_frame := None\<rparr>"
  have A: "open_channel clk hi 4 a" "reads a = lo + 3 + 5 * k" "sender_base tok sa sb raw k a" using a by (simp_all add: sender_at_def)
  have cl: "\<not> closed (ep a)" using open_not_closed [OF A(1)] by blast
  have f: "flush (Sent_bytes (length w)) (ep a) = (Inr True, ?e)"
    using a cl piece_advances [OF r k, of tok sa] by (simp add: flush_def w sender_at_def)
  have "open_channel clk hi (Suc (Suc 2)) a" "reads a + 1 \<le> hi" "\<not> closed ?e" using A k hi cl by simp_all
  note t = two_ticks [OF this]
  have "flush_channel clk (Sent_bytes (length (wire_of a))) a = (Inr True, a\<lparr>reads := Suc (Suc (reads a)), ep := ?e\<rparr>)"
    using A(3) t(1,2) f by (simp add: flush_channel_def closing_def thenC_def on_endpoint_def wire_of_def w sender_base_def)
  then show ?thesis using t(3) A by (simp add: sender_waits_def sender_base_def)
qed

lemma decoded_size: "decode_serving_wire_frame_v3 w = Inr fr \<Longrightarrow> w \<noteq> [] \<and> length w \<le> MAX_FRAME"
  by (auto simp: decode_frame_parts MAX_FRAME_def HEADER_SIZE_V3_def)

lemma endpoint_receives:
  assumes "\<not> closed e" and w: "decode_serving_wire_frame_v3 w = Inr fr"
    and "advance fr (rx_sequence e) (rx_train e) = Inr (s, t)" and "\<not> has_flag FLAG_HAS_FD_V3 (header fr)"
  shows "receive (Received \<lparr>data = w, credentials = [peer_credentials e], descriptors = [], malformed = False\<rparr>) e =
    (Inr (Some \<lparr>frame = fr, descriptor = None\<rparr>), e\<lparr>rx_sequence := s, rx_train := t\<rparr>)"
  using assms decoded_size [OF w] by (cases e) (simp add: receive_def admit_datagram_def Let_def)

lemma packet_queues:
  assumes "encode_serving_wire_frame_v3 kd tok (tx_sequence (ep c)) (int i) (int n) (int (length raw)) tlen (packet_flags i n False) raw = Inr w"
    and "decode_serving_wire_frame_v3 w = Inr fr" and "advance fr (tx_sequence (ep c)) (tx_train (ep c)) = Inr x"
    and "\<not> has_flag FLAG_HAS_FD_V3 (header fr)" and "\<not> closed (ep c)" and "pending_frame (ep c) = None"
  shows "packet clk kd tok raw i n tlen None c = (Inr (), c\<lparr>ep := (ep c)\<lparr>pending_frame := Some (w, None, fr)\<rparr>, reads := reads c + 1,
    deadline := Some (clk (reads c) + PACKET_NS)\<rparr>)"
  using assms by (simp add: packet_def step_simps queue_def wants_write_def)

lemma piece_header_simps [simp]:
  "header (piece_frame tok seq raw p k) = piece_header tok seq raw k"
  "message_type (piece_header tok seq raw k) = COLLECTOR_RESPONSE" "session_token (piece_header tok seq raw k) = tok"
  "sequence (piece_header tok seq raw k) = seq" "chunk_index (piece_header tok seq raw k) = int k"
  "\<not> has_flag FLAG_HAS_FD_V3 (piece_header tok seq raw k)"
  using packet_flags_bits(3) [of "piece_header tok seq raw k" k "chunks raw" False]
  by (simp_all add: piece_frame_def piece_header_def)

lemma piece_last: "k < chunks raw \<Longrightarrow> has_flag FLAG_END_V3 (piece_header tok seq raw k) \<longleftrightarrow> k + 1 = chunks raw"
proof -
  assume k: "k < chunks raw"
  have "has_flag FLAG_END_V3 (piece_header tok seq raw k) = (int k = int (chunks raw) - 1)"
    using packet_flags_bits(2) [of "piece_header tok seq raw k" k "chunks raw" False] by (simp add: piece_header_def)
  then show ?thesis using k by linarith
qed

lemma ack_header_simps [simp]:
  "message_type (header (ack_frame tok seq a)) = CHUNK_ACK" "session_token (header (ack_frame tok seq a)) = tok"
  "payload (ack_frame tok seq a) = P_chunk_ack a" "\<not> has_flag FLAG_HAS_FD_V3 (header (ack_frame tok seq a))"
  using packet_flags_bits(3) [of "header (ack_frame tok seq a)" 0 1 False] by (simp_all add: ack_frame_def)

lemma piece_response_bytes:
  assumes "good_response raw p" and "k < chunks raw"
  shows "response_bytes (piece_frame tok seq raw p k) = Inr (piece raw k)"
proof (cases "chunks raw = 1")
  case True
  then have "encode_collector_response_payload_v3 p = Inr raw" "piece raw k = raw"
    using assms single_piece by (simp_all add: good_response_def collector_response.encode_decode)
  with True show ?thesis by (simp add: response_bytes_def piece_frame_def)
qed (simp add: response_bytes_def piece_frame_def)

lemma take_last: "k < chunks raw \<Longrightarrow> k + 1 = chunks raw \<Longrightarrow> take ((k + 1) * chunk_size) raw = raw"
  using chunks_bounds(2) [of k raw] by simp

lemma length_prefix: "length (take ((k + 1) * chunk_size) raw) = min ((k + 1) * chunk_size) (length raw)"
  by (simp add: min.commute)

lemma thenC_Inr: "m c = (Inr x, c') \<Longrightarrow> thenC m f c = f x c'"
  by (simp add: thenC_def)

text \<open>The three stages of taking a chunk: the buffer, the finished message, the acknowledgement.\<close>

lemma receive_chunk_step:
  assumes r: "good_response raw p" and k: "k < chunks raw" and st: "in_time clk lo hi" and hi: "hi = lo + 7 * chunks raw + 1" and t: "good_token tok"
    and sq: "good_seq sa" "good_seq sk"
    and c: "open_channel clk hi 1 c" "incoming c = (if k = 0 then None else Some (take (k * chunk_size) raw))"
      "pending_frame (ep c) = None" "tx_sequence (ep c) = sk" "tx_train (ep c) = None"
    and rd: "k = 0 \<Longrightarrow> deadline c = None" "reads c = (if k = 0 then lo else lo + 7 * k + 1) + 2"
  obtains c' w where "receive_chunk clk \<lparr>frame = piece_frame tok sa raw p k, descriptor = None\<rparr> c = (Inr None, c')"
    "decode_serving_wire_frame_v3 w = Inr (ack_frame tok sk (ack_at sa raw k))"
    "ep c' = (ep c)\<lparr>pending_frame := Some (w, None, ack_frame tok sk (ack_at sa raw k))\<rparr>"
    "ready c' = (if k + 1 = chunks raw then Some (delivered tok p) else ready c)"
    "incoming c' = Some (take ((k + 1) * chunk_size) raw)" "ack_queued c'" "outgoing c' = outgoing c" "open_channel clk hi 4 c'" "reads c' = lo + 7 * k + 5"
proof -
  define buf where "buf = take ((k + 1) * chunk_size) raw"
  define c1 where "c1 = (if k = 0 then c\<lparr>reads := Suc (reads c), overall := Some (clk (reads c) + COLLECTOR_NS), incoming := Some []\<rparr> else c)"
  have "open_channel clk hi (Suc 0) c1"
  proof (cases "k = 0")
    case True
    then show ?thesis unfolding c1_def using open_overall [OF c(1) rd(1) [OF True] st, of "Suc 0"] rd(2) by simp
  qed (use c(1) in \<open>simp add: c1_def\<close>)
  then have c1: "open_channel clk hi (Suc 0) c1" "ep c1 = ep c" "ready c1 = ready c" "outgoing c1 = outgoing c" "incoming c1 = Some (take (k * chunk_size) raw)"
    "reads c1 = lo + 7 * k + 3"
    using c(2) rd(2) by (simp_all add: c1_def)
  define c2 where "c2 = c1\<lparr>incoming := Some buf, ready := (if k + 1 = chunks raw then Some (delivered tok p) else ready c1)\<rparr>"
  define c3 where "c3 = c2\<lparr>reads := Suc (reads c2)\<rparr>"
  have c2: "open_channel clk hi (Suc 0) c2" "reads c2 = lo + 7 * k + 3" "ep c2 = ep c" using c1 by (simp_all add: c2_def)
  have c3: "open_channel clk hi 0 c3" "ep c3 = ep c" "reads c3 = lo + 7 * k + 4" using open_read [OF c2(1)] c2 by (simp_all add: c3_def)
  obtain ab where ab: "encode_chunk_ack_payload_v3 (ack_at sa raw k) = Inr ab" "length ab = 48" by (rule ack_encodes [OF r sq(1) k])
  obtain w where w: "encode_serving_wire_frame_v3 CHUNK_ACK tok sk 0 1 (int (length ab)) (int (length ab)) (packet_flags 0 1 False) ab = Inr w"
    "decode_serving_wire_frame_v3 w = Inr (ack_frame tok sk (ack_at sa raw k))" by (rule ack_frame_decodes [OF ab t sq(2)])
  let ?c4 = "c3\<lparr>ep := (ep c3)\<lparr>pending_frame := Some (w, None, ack_frame tok sk (ack_at sa raw k))\<rparr>, reads := reads c3 + 1,
    deadline := Some (clk (reads c3) + PACKET_NS)\<rparr>"
  have p4: "packet clk CHUNK_ACK tok ab 0 1 (int (length ab)) None c3 = (Inr (), ?c4)"
    by (rule packet_queues) (use w c c3 ack_advances in \<open>simp_all add: open_channel_def\<close>)
  have dec: "k + 1 = chunks raw \<Longrightarrow> decode_collector_response_payload_v3 buf = Inr p" and dig: "digest_ok (P_collector_response p)"
    using r take_last [OF k] by (simp_all add: good_response_def buf_def)
  have ack: "ChunkAckPayloadV3 sa (int k) (int (length buf)) (sha256 buf) = ack_at sa raw k"
    by (simp only: ack_at_def length_prefix buf_def)
  have s1: "open_buffer clk c = (Inr (), c1)"
    using c(2) by (cases "k = 0") (simp_all add: open_buffer_def c1_def step_simps)
  have s2: "finish_message (piece_header tok sa raw k) buf (c1\<lparr>incoming := Some buf\<rparr>) = (Inr (), c2)"
    using dec dig by (simp add: finish_message_def piece_last [OF k] c2_def delivered_def)
  have s3: "tick clk c2 = (Inr (), c3)" unfolding c3_def using c2(2) k hi by (intro tick_open [OF c2(1)]) simp
  have s4: "queue_ack clk (piece_header tok sa raw k) buf c2 = (Inr None, ?c4\<lparr>ack_queued := True\<rparr>)"
    unfolding queue_ack_def thenC_Inr [where m = "tick clk" and c = c2, OF s3]
    by (simp only: piece_header_simps ack ab(1) sum.case thenC_Inr [where m = "packet _ _ _ _ _ _ _ _", OF p4])
  have b: "take (k * chunk_size) raw @ piece raw k = buf" unfolding buf_def by (rule take_piece)
  have rc: "receive_chunk clk \<lparr>frame = piece_frame tok sa raw p k, descriptor = None\<rparr> c = (Inr None, ?c4\<lparr>ack_queued := True\<rparr>)"
    unfolding receive_chunk_def thenC_Inr [where m = "open_buffer clk" and c = c, OF s1] Let_def
    by (simp only: received_frame.select_convs piece_response_bytes [OF r k] sum.case c1(5) option.case b piece_header_simps
        thenC_Inr [where m = "finish_message _ _", OF s2] s4)
  have oc: "open_channel clk hi 4 (?c4\<lparr>ack_queued := True\<rparr>)"
    using open_deadline [OF c3(1) st] c3(2,3) open_not_closed [OF c(1)] by (simp add: open_channel_def)
  show thesis
    by (rule that [OF rc w(2) _ _ _ _ _ oc]) (use c1 c3(2,3) in \<open>simp_all add: c3_def c2_def buf_def\<close>)
qed

lemma receiver_takes:
  assumes r: "good_response raw p" and k: "k < chunks raw" and st: "in_time clk lo hi" and hi: "hi = lo + 7 * chunks raw + 1" and t: "good_token tok"
    and sq: "good_seq sa" "good_seq (sb + int k)"
    and b: "receiver_at clk lo hi tok sa sb raw k b" and w: "decode_serving_wire_frame_v3 w = Inr (piece_frame tok sa raw p k)"
  shows "\<exists>b'. receive_channel clk (carried b w) b = (Inr None, b') \<and> receiver_acks clk lo hi tok sa sb raw p k b'"
proof -
  let ?rf = "\<lparr>frame = piece_frame tok sa raw p k, descriptor = None\<rparr>"
  let ?e = "(ep b)\<lparr>rx_sequence := if k + 1 = chunks raw then sa + 1 else sa, rx_train := train_at tok raw (k + 1)\<rparr>"
  have B: "open_channel clk hi 3 b" "outgoing b = None" "ready b = None" "\<not> ack_queued b"
    "incoming b = (if k = 0 then None else Some (take (k * chunk_size) raw))" "pending_frame (ep b) = None" "rx_sequence (ep b) = sa"
    "rx_train (ep b) = train_at tok raw k" "tx_sequence (ep b) = sb + int k" "tx_train (ep b) = None"
    "k = 0 \<Longrightarrow> deadline b = None" "reads b = (if k = 0 then lo else lo + 7 * k + 1)"
    using b by (simp_all add: receiver_at_def)
  have cl: "\<not> closed (ep b)" using open_not_closed [OF B(1)] by blast
  have rx: "receive (carried b w) (ep b) = (Inr (Some ?rf), ?e)"
    unfolding carried_def using cl B(7,8) w piece_advances [OF r k, of tok sa] by (intro endpoint_receives) simp_all
  have "open_channel clk hi (Suc (Suc 1)) b" "reads b + 1 \<le> hi" "\<not> closed ?e" using B(1,12) k hi cl by (simp_all add: numeral_3_eq_3)
  note tt = two_ticks [OF this]
  define c where "c = b\<lparr>reads := Suc (Suc (reads b)), ep := ?e\<rparr>"
  have oc: "open_channel clk hi 1 c" using tt(3) by (simp add: c_def)
  have inc: "incoming c = (if k = 0 then None else Some (take (k * chunk_size) raw))" using B(5) by (simp add: c_def)
  have fields: "pending_frame (ep c) = None" "tx_sequence (ep c) = sb + int k" "tx_train (ep c) = None"
    "k = 0 \<Longrightarrow> deadline c = None" "reads c = (if k = 0 then lo else lo + 7 * k + 1) + 2" using B by (simp_all add: c_def)
  obtain c' w' where C: "receive_chunk clk ?rf c = (Inr None, c')" "decode_serving_wire_frame_v3 w' = Inr (ack_frame tok (sb + int k) (ack_at sa raw k))"
    "ep c' = (ep c)\<lparr>pending_frame := Some (w', None, ack_frame tok (sb + int k) (ack_at sa raw k))\<rparr>"
    "ready c' = (if k + 1 = chunks raw then Some (delivered tok p) else ready c)" "incoming c' = Some (take ((k + 1) * chunk_size) raw)"
    "ack_queued c'" "outgoing c' = outgoing c" "open_channel clk hi 4 c'" "reads c' = lo + 7 * k + 5"
    by (rule receive_chunk_step [OF r k st hi t sq oc inc fields])
  have "receive_frame clk ?rf c = (Inr None, c')"
    using B C(1) by (simp add: receive_frame_def c_def [symmetric] wants_write_def fields(1) Let_def) (simp add: c_def)
  then have "receive_channel clk (carried b w) b = (Inr None, c')"
    using B(3) tt(1,2) by (simp add: receive_channel_def closing_def thenC_def on_endpoint_def rx c_def)
  then show ?thesis using C B by (auto simp: receiver_acks_def c_def)
qed

lemma receiver_flushes:
  assumes st: "in_time clk lo hi" and k: "k < chunks raw" and hi: "hi = lo + 7 * chunks raw + 1" and b: "receiver_acks clk lo hi tok sa sb raw p k b"
  shows "\<exists>b'. flush_channel clk (Sent_bytes (length (wire_of b))) b = (Inr True, b') \<and>
    (if k + 1 = chunks raw then receiver_done tok (sb + int k + 1) (sa + 1) p b' else receiver_at clk lo hi tok sa sb raw (k + 1) b')"
proof -
  have B: "open_channel clk hi 4 b" "outgoing b = None" "ack_queued b" "ready b = (if k + 1 = chunks raw then Some (delivered tok p) else None)"
    "incoming b = Some (take ((k + 1) * chunk_size) raw)" "rx_sequence (ep b) = (if k + 1 = chunks raw then sa + 1 else sa)"
    "rx_train (ep b) = train_at tok raw (k + 1)" "tx_sequence (ep b) = sb + int k" "tx_train (ep b) = None" "reads b = lo + 7 * k + 5"
    using b by (simp_all add: receiver_acks_def)
  obtain w where w: "pending_frame (ep b) = Some (w, None, ack_frame tok (sb + int k) (ack_at sa raw k))" using b by (auto simp: receiver_acks_def)
  have cl: "\<not> closed (ep b)" "\<not> ch_closed b" using open_not_closed [OF B(1)] by blast+
  let ?e = "(ep b)\<lparr>tx_sequence := sb + int k + 1, tx_train := None, held := held (ep b) - 0, pending_frame := None\<rparr>"
  have f: "flush (Sent_bytes (length w)) (ep b) = (Inr True, ?e)"
    using B(8,9) cl ack_advances [of tok "sb + int k" "ack_at sa raw k"] by (simp add: flush_def w)
  have "open_channel clk hi (Suc (Suc 2)) b" "reads b + 1 \<le> hi" "\<not> closed ?e" using B(1,10) k hi cl by simp_all
  note tt = two_ticks [OF this]
  define c where "c = b\<lparr>reads := Suc (Suc (reads b)), ep := ?e, ack_queued := False\<rparr>"
  have oc: "open_channel clk hi 2 c" "reads c = lo + 7 * k + 7" using tt(3) B(10) by (simp_all add: c_def)
  show ?thesis
  proof (cases "k + 1 = chunks raw")
    case True
    let ?c = "c\<lparr>incoming := None, overall := None, deadline := None\<rparr>"
    have "flush_channel clk (Sent_bytes (length (wire_of b))) b = (Inr True, ?c)"
      using B(3,4) True tt(1,2) by (simp add: flush_channel_def closing_def thenC_def on_endpoint_def wire_of_def w f c_def Let_def)
    then show ?thesis using True B cl by (simp add: receiver_done_def idle_def c_def train_at_def)
  next
    case False
    let ?c = "c\<lparr>reads := Suc (reads c), deadline := Some (clk (reads c) + PACKET_NS)\<rparr>"
    have "flush_channel clk (Sent_bytes (length (wire_of b))) b = (Inr True, ?c)"
      using B(3,4) False tt(1,2)
      by (simp add: flush_channel_def closing_def thenC_def on_endpoint_def monotonic_ns_def wire_of_def w f c_def Let_def)
    moreover have "open_channel clk hi 3 ?c" using open_less [OF open_deadline [OF oc(1) st], of 3] oc(2) by simp
    ultimately show ?thesis using False B oc(2) by (simp add: receiver_at_def c_def)
  qed
qed

lemma next_chunk_queues:
  assumes r: "good_response raw p" and k: "k < chunks raw" and st: "in_time clk lo hi" and t: "good_token tok" and sq: "good_seq sa"
    and c: "open_channel clk hi m c" "outgoing c = Some \<lparr>o_token = tok, o_raw = raw, o_index = k, o_hashed = take (k * chunk_size) raw\<rparr>"
      "incoming c = None" "ready c = None" "\<not> ack_queued c" "pending_frame (ep c) = None" "tx_sequence (ep c) = sa"
      "tx_train (ep c) = train_at tok raw k" "rx_sequence (ep c) = sb + int k" "rx_train (ep c) = None" "reads c = lo + 2 + 5 * k"
  shows "\<exists>c'. next_chunk clk c = (Inr (), c') \<and> sender_at clk lo hi tok sa sb raw p k c'"
proof -
  obtain w where w: "piece_wire tok sa raw k = Inr w" "decode_serving_wire_frame_v3 w = Inr (piece_frame tok sa raw p k)"
    by (rule piece_frame_decodes [OF r t sq k])
  let ?c = "c\<lparr>ep := (ep c)\<lparr>pending_frame := Some (w, None, piece_frame tok sa raw p k)\<rparr>, reads := reads c + 1,
    deadline := Some (clk (reads c) + PACKET_NS)\<rparr>"
  have cl: "\<not> closed (ep c)" using open_not_closed [OF c(1)] by blast
  have pk: "packet clk COLLECTOR_RESPONSE tok (piece raw k) k (chunks raw) (int (length raw)) None c = (Inr (), ?c)"
    by (rule packet_queues [where x = "(if k + 1 = chunks raw then sa + 1 else sa, train_at tok raw (k + 1))"])
      (use w c cl piece_advances [OF r k, of tok sa] in \<open>simp_all add: piece_wire_def\<close>)
  let ?d = "?c\<lparr>outgoing := Some \<lparr>o_token = tok, o_raw = raw, o_index = k, o_hashed = take ((k + 1) * chunk_size) raw\<rparr>,
      ack_expected := Some (tok, ack_at sa raw k)\<rparr>"
  have "next_chunk clk c = thenC (packet clk COLLECTOR_RESPONSE tok (piece raw k) k (chunks raw) (int (length raw)) None) (\<lambda>_.
      modifyC (\<lambda>c. c\<lparr>outgoing := Some \<lparr>o_token = tok, o_raw = raw, o_index = k, o_hashed = take ((k + 1) * chunk_size) raw\<rparr>,
        ack_expected := Some (tok, ack_at sa raw k)\<rparr>)) c"
    using take_piece [of k raw] by (simp add: next_chunk_def c(2,7) Let_def piece_def chunks_def ack_at_def del: mult_Suc)
  then have "next_chunk clk c = (Inr (), ?d)" by (simp add: thenC_def pk modifyC_def)
  moreover have "open_channel clk hi 4 ?d" using open_deadline [OF c(1) st] c(11) cl by (simp add: open_channel_def)
  ultimately show ?thesis using c w(2) by (simp add: sender_at_def sender_base_def)
qed

lemma sender_acked:
  assumes r: "good_response raw p" and k: "k < chunks raw" and st: "in_time clk lo hi" and hi: "hi = lo + 7 * chunks raw + 1" and t: "good_token tok" and sq: "good_seq sa"
    and a: "sender_waits clk lo hi tok sa sb raw k a"
    and w: "decode_serving_wire_frame_v3 w = Inr (ack_frame tok (sb + int k) (ack_at sa raw k))"
  shows "\<exists>a'. receive_channel clk (carried a w) a = (Inr None, a') \<and>
    (if k + 1 = chunks raw then idle (sa + 1) (sb + int k + 1) a' else sender_at clk lo hi tok sa sb raw p (k + 1) a')"
proof -
  have A: "open_channel clk hi 2 a" "incoming a = None" "ready a = None" "\<not> ack_queued a"
    "outgoing a = Some \<lparr>o_token = tok, o_raw = raw, o_index = k, o_hashed = take ((k + 1) * chunk_size) raw\<rparr>"
    "ack_expected a = Some (tok, ack_at sa raw k)" "rx_sequence (ep a) = sb + int k" "rx_train (ep a) = None" "pending_frame (ep a) = None"
    "tx_sequence (ep a) = (if k + 1 = chunks raw then sa + 1 else sa)" "tx_train (ep a) = train_at tok raw (k + 1)" "reads a = lo + 5 + 5 * k"
    using a by (simp_all add: sender_waits_def sender_base_def)
  have cl: "\<not> closed (ep a)" "\<not> ch_closed a" using open_not_closed [OF A(1)] by blast+
  let ?rf = "\<lparr>frame = ack_frame tok (sb + int k) (ack_at sa raw k), descriptor = None\<rparr>"
  let ?e = "(ep a)\<lparr>rx_sequence := sb + int k + 1, rx_train := None\<rparr>"
  have rx: "receive (carried a w) (ep a) = (Inr (Some ?rf), ?e)"
    unfolding carried_def using cl A(7,8) w ack_advances by (intro endpoint_receives) simp_all
  have "open_channel clk hi (Suc (Suc 0)) a" "reads a + 1 \<le> hi" "\<not> closed ?e" using A(1,12) k hi cl by (simp_all add: numeral_2_eq_2)
  note tt = two_ticks [OF this]
  define c where "c = a\<lparr>reads := Suc (Suc (reads a)), ep := ?e\<rparr>"
  have rc: "receive_channel clk (carried a w) a = (case receive_ack clk ?rf c of (Inl e, c') \<Rightarrow> (Inl e, close_channel c') | q \<Rightarrow> q)"
    using A(3) tt(1,2) by (simp add: receive_channel_def closing_def thenC_def on_endpoint_def rx receive_frame_def c_def)
  define c1 where "c1 = c\<lparr>ack_expected := None,
    outgoing := Some \<lparr>o_token = tok, o_raw = raw, o_index = k + 1, o_hashed = take ((k + 1) * chunk_size) raw\<rparr>\<rparr>"
  have o1: "open_channel clk hi 0 c1" using tt(3) by (simp add: c1_def c_def)
  have ra: "receive_ack clk ?rf c = (if (k + 1) * chunk_size \<ge> length raw
      then (Inr None, c1\<lparr>outgoing := None, deadline := None, overall := None\<rparr>) else thenC (next_chunk clk) (\<lambda>_. retC None) c1)"
    using A(5,6,9) by (simp add: receive_ack_def wants_write_def c_def c1_def Let_def del: mult_Suc)
  show ?thesis
  proof (cases "k + 1 = chunks raw")
    case True
    let ?d = "c1\<lparr>outgoing := None, deadline := None, overall := None\<rparr>"
    have "length raw \<le> (k + 1) * chunk_size" using chunks_bounds(2) [OF k True] .
    then have "receive_channel clk (carried a w) a = (Inr None, ?d)" by (simp add: rc ra del: mult_Suc)
    then show ?thesis using True A cl by (simp add: idle_def c1_def c_def train_at_def)
  next
    case False
    then have k1: "k + 1 < chunks raw" using k by simp
    have nl: "\<not> length raw \<le> (k + 1) * chunk_size" using chunks_bounds(3) [OF k k1] by simp
    have "\<exists>c'. next_chunk clk c1 = (Inr (), c') \<and> sender_at clk lo hi tok sa sb raw p (k + 1) c'"
      by (rule next_chunk_queues [OF r k1 st t sq o1]) (use A False in \<open>simp_all add: c1_def c_def\<close>)
    then obtain c' where c': "next_chunk clk c1 = (Inr (), c')" "sender_at clk lo hi tok sa sb raw p (k + 1) c'" by blast
    then have "receive_channel clk (carried a w) a = (Inr None, c')" using nl by (simp add: rc ra thenC_def retC_def del: mult_Suc)
    then show ?thesis using False c'(2) by simp
  qed
qed

lemma send_starts:
  assumes r: "good_response raw p" and st: "in_time clk (reads a) hi" and hi: "hi = reads a + 7 * chunks raw + 1" and t: "good_token tok" and sq: "good_seq sa" and a: "idle sa sb a"
  shows "\<exists>a'. send clk COLLECTOR_RESPONSE tok raw None a = (Inr (), a') \<and> sender_at clk (reads a) hi tok sa sb raw p 0 a'"
proof -
  have A: "outgoing a = None" "incoming a = None" "ready a = None" "\<not> ack_queued a" "pending_frame (ep a) = None"
    "tx_sequence (ep a) = sa" "tx_train (ep a) = None" "rx_sequence (ep a) = sb" "rx_train (ep a) = None" "deadline a = None"
    using a by (simp_all add: idle_def)
  have R: "decode_wire_payload COLLECTOR_RESPONSE raw = Inr (P_collector_response p)" "digest_ok (P_collector_response p)"
    using r by (simp_all add: good_response_def)
  let ?a1 = "a\<lparr>reads := Suc (reads a)\<rparr>"
  have o1: "open_channel clk hi 0 ?a1" by (rule open_read [OF idle_open [OF a]])
  have tk: "tick clk a = (Inr (), ?a1)" using tick_open [OF idle_open [OF a, of clk hi]] hi by simp
  define c where "c = a\<lparr>outgoing := Some \<lparr>o_token = tok, o_raw = raw, o_index = 0, o_hashed = []\<rparr>,
    reads := Suc (Suc (reads a)), overall := Some (clk (Suc (reads a)) + COLLECTOR_NS)\<rparr>"
  have oc: "open_channel clk hi 0 c" using open_overall [OF o1 _ st, of 0] A(10) by (simp add: c_def open_channel_def)
  have s: "send clk COLLECTOR_RESPONSE tok raw None a = next_chunk clk c"
    using A R by (simp add: send_def thenC_def tk wants_write_def modifyC_def monotonic_ns_def c_def)
  have "0 < chunks raw" using good_response_chunks [OF r] by simp
  then have "\<exists>c'. next_chunk clk c = (Inr (), c') \<and> sender_at clk (reads a) hi tok sa sb raw p 0 c'"
    by (rule next_chunk_queues [OF r _ st t sq oc]) (use A in \<open>simp_all add: c_def train_at_def\<close>)
  with s show ?thesis by simp
qed

section \<open>Delivery\<close>

text \<open>
  One hop: the kernel takes the queued frame of one end in full and hands it to the other. One
  round: a chunk one way and its acknowledgement back.
\<close>

definition hop :: "clock \<Rightarrow> clock \<Rightarrow> channel \<Rightarrow> channel \<Rightarrow> channel \<times> channel" where
  "hop clk1 clk2 c d =
     (let w = wire_of c
      in (snd (flush_channel clk1 (Sent_bytes (length w)) c), snd (receive_channel clk2 (carried d w) d)))"

definition exchange_round :: "clock \<Rightarrow> clock \<Rightarrow> channel \<times> channel \<Rightarrow> channel \<times> channel" where
  "exchange_round clkA clkB s =
     (let (a1, b1) = hop clkA clkB (fst s) (snd s); (b2, a2) = hop clkB clkA b1 a1 in (a2, b2))"

lemma one_round:
  assumes r: "good_response raw p" and k: "k < chunks raw" and st: "in_time clkA la ha" "in_time clkB lb hb" and hi: "ha = la + 7 * chunks raw + 1" "hb = lb + 7 * chunks raw + 1" and t: "good_token tok"
    and sq: "good_seq sa" "good_seq (sb + int k)"
    and s: "sender_at clkA la ha tok sa sb raw p k a" "receiver_at clkB lb hb tok sa sb raw k b"
  shows "\<exists>a' b'. exchange_round clkA clkB (a, b) = (a', b') \<and>
    (if k + 1 = chunks raw then idle (sa + 1) (sb + int k + 1) a' \<and> receiver_done tok (sb + int k + 1) (sa + 1) p b'
     else sender_at clkA la ha tok sa sb raw p (k + 1) a' \<and> receiver_at clkB lb hb tok sa sb raw (k + 1) b')"
proof -
  obtain w where w: "wire_of a = w" "decode_serving_wire_frame_v3 w = Inr (piece_frame tok sa raw p k)"
    using s(1) by (auto simp: sender_at_def wire_of_def)
  obtain a1 where a1: "flush_channel clkA (Sent_bytes (length (wire_of a))) a = (Inr True, a1)" "sender_waits clkA la ha tok sa sb raw k a1"
    using sender_flushes [OF r k hi(1) s(1)] by blast
  obtain b1 where b1: "receive_channel clkB (carried b w) b = (Inr None, b1)" "receiver_acks clkB lb hb tok sa sb raw p k b1"
    using receiver_takes [OF r k st(2) hi(2) t sq s(2) w(2)] by blast
  obtain v where v: "wire_of b1 = v" "decode_serving_wire_frame_v3 v = Inr (ack_frame tok (sb + int k) (ack_at sa raw k))"
    using b1(2) by (auto simp: receiver_acks_def wire_of_def)
  from receiver_flushes [OF st(2) k hi(2) b1(2)] obtain b2 where b2: "flush_channel clkB (Sent_bytes (length (wire_of b1))) b1 = (Inr True, b2)"
    "if k + 1 = chunks raw then receiver_done tok (sb + int k + 1) (sa + 1) p b2 else receiver_at clkB lb hb tok sa sb raw (k + 1) b2" by blast
  from sender_acked [OF r k st(1) hi(1) t sq(1) a1(2) v(2)] obtain a2 where a2: "receive_channel clkA (carried a1 v) a1 = (Inr None, a2)"
    "if k + 1 = chunks raw then idle (sa + 1) (sb + int k + 1) a2 else sender_at clkA la ha tok sa sb raw p (k + 1) a2" by blast
  have "exchange_round clkA clkB (a, b) = (a2, b2)"
    using a1(1) b1(1) b2(1) a2(1) w(1) v(1) by (simp add: exchange_round_def hop_def Let_def)
  with a2(2) b2(2) show ?thesis by auto
qed

lemma many_rounds:
  assumes r: "good_response raw p" and st: "in_time clkA la ha" "in_time clkB lb hb" and hi: "ha = la + 7 * chunks raw + 1" "hb = lb + 7 * chunks raw + 1" and t: "good_token tok" and sq: "good_seq sa" "0 \<le> sb"
    "sb + int (chunks raw) \<le> 2 ^ 32"
    and s: "sender_at clkA la ha tok sa sb raw p 0 a" "receiver_at clkB lb hb tok sa sb raw 0 b"
  shows "k < chunks raw \<Longrightarrow> \<exists>a' b'. (exchange_round clkA clkB ^^ k) (a, b) = (a', b') \<and> sender_at clkA la ha tok sa sb raw p k a' \<and>
    receiver_at clkB lb hb tok sa sb raw k b'"
proof (induction k)
  case 0
  then show ?case using s by simp
next
  case (Suc k)
  then obtain a' b' where IH: "(exchange_round clkA clkB ^^ k) (a, b) = (a', b')" "sender_at clkA la ha tok sa sb raw p k a'"
    "receiver_at clkB lb hb tok sa sb raw k b'" by auto
  have "good_seq (sb + int k)" using sq(2,3) Suc.prems by (simp add: good_seq_def)
  from one_round [OF r _ st hi t sq(1) this IH(2,3)] Suc.prems IH(1) show ?case by auto
qed

text \<open>
  C21. A collector response is delivered: if both ends are idle with matching sequence numbers, the kernel carries the frames, and
  on each side any five readings of the clock in a row (those of a chunk and its acknowledgement) span less than the five seconds
  of a packet and all readings of the transfer less than the 180 seconds of the collector, then sending a valid response takes
  exactly as many rounds of chunk and acknowledgement as it has chunks, after which the receiver
  hands over exactly the payload sent, under its token, and both ends are idle again with their
  sequence numbers advanced.
\<close>

theorem collector_response_delivered:
  assumes "good_response raw p" and "good_token tok"
    and "in_time clkA (reads a) (reads a + 7 * chunks raw + 1)" and "in_time clkB (reads b) (reads b + 7 * chunks raw + 1)"
    and "idle sa sb a" and "idle sb sa b" and "good_seq sa" and "0 \<le> sb" and "sb + int (chunks raw) \<le> 2 ^ 32"
  shows "\<exists>a0 a' b' b''. send clkA COLLECTOR_RESPONSE tok raw None a = (Inr (), a0) \<and>
    (exchange_round clkA clkB ^^ chunks raw) (a0, b) = (a', b') \<and>
    receive_channel clkB Recv_block b' = (Inr (Some (delivered tok p)), b'') \<and>
    idle (sa + 1) (sb + int (chunks raw)) a' \<and> idle (sb + int (chunks raw)) (sa + 1) b''"
proof -
  let ?la = "reads a" and ?lb = "reads b" and ?ha = "reads a + 7 * chunks raw + 1" and ?hb = "reads b + 7 * chunks raw + 1"
  obtain a0 where a0: "send clkA COLLECTOR_RESPONSE tok raw None a = (Inr (), a0)" "sender_at clkA ?la ?ha tok sa sb raw p 0 a0"
    using send_starts [OF assms(1,3) refl assms(2,7,5)] by blast
  have b0: "receiver_at clkB ?lb ?hb tok sa sb raw 0 b" using assms(6) idle_open [OF assms(6)] by (simp add: idle_def receiver_at_def train_at_def)
  obtain k where k: "chunks raw = Suc k" using good_response_chunks [OF assms(1)] by (cases "chunks raw") auto
  obtain a1 b1 where K: "(exchange_round clkA clkB ^^ k) (a0, b) = (a1, b1)" "sender_at clkA ?la ?ha tok sa sb raw p k a1" "receiver_at clkB ?lb ?hb tok sa sb raw k b1"
    using many_rounds [OF assms(1,3,4) refl refl assms(2,7,8,9) a0(2) b0, of k] k by auto
  have "good_seq (sb + int k)" using assms(8,9) k by (simp add: good_seq_def)
  from one_round [OF assms(1) _ assms(3,4) refl refl assms(2,7) this K(2,3)] obtain a' b' where R: "exchange_round clkA clkB (a1, b1) = (a', b')"
    "idle (sa + 1) (sb + int k + 1) a'" "receiver_done tok (sb + int k + 1) (sa + 1) p b'" using k by auto
  define b'' where "b'' = b'\<lparr>reads := Suc (reads b'), ready := None\<rparr>"
  have D: "ready b' = Some (delivered tok p)" "idle (sb + int k + 1) (sa + 1) (b'\<lparr>ready := None\<rparr>)"
    using R(3) by (simp_all add: receiver_done_def)
  have "open_channel clkB (reads b') (Suc 0) b'" using idle_open [OF D(2), of clkB "reads b'" "Suc 0"] by simp
  then have "tick clkB b' = (Inr (), b'\<lparr>reads := Suc (reads b')\<rparr>)" by (rule tick_open) (rule order_refl)
  then have "receive_channel clkB Recv_block b' = (Inr (Some (delivered tok p)), b'')"
    using D by (simp add: receive_channel_def thenC_def b''_def idle_def)
  moreover have "idle (sb + int k + 1) (sa + 1) b''" using D(2) by (simp add: idle_def b''_def)
  moreover have "(exchange_round clkA clkB ^^ chunks raw) (a0, b) = (a', b')" using K(1) R(1) k by simp
  ultimately show ?thesis using a0(1) R(2) k by (intro exI [of _ a0] exI [of _ a'] exI [of _ b'] exI [of _ b'']) (simp add: algebra_simps)
qed

section \<open>A concrete transfer\<close>

definition rejected_response :: CollectorResponsePayloadV3 where
  "rejected_response = CollectorResponsePayloadV3 Gen_CERTIFICATE Result_ACQUIRE_REJECTED 1 0 0 (zeros 32) []"

definition rejected_bytes :: bytes where
  "rejected_bytes = to_be 1 1 @ to_be 1 2 @ to_be 2 1 @ to_be 4 0 @ to_be 4 0 @ zeros 32"

definition sample_end :: channel where
  "sample_end = new_channel \<lparr>peer_credentials = (7, 0, 0), rx_sequence = 1, tx_sequence = 1, rx_train = None, tx_train = None,
     pending_frame = None, closed = False, held = 0\<rparr>"

text \<open>Clocks that advance by a second with every reading.\<close>

definition seconds :: clock where "seconds i = int i * 1000000000"

theorem collector_response_delivered_witness:
  "\<exists>a0 a' b' b''. send seconds COLLECTOR_RESPONSE (replicate 32 (CHR ''t'')) rejected_bytes None sample_end = (Inr (), a0) \<and>
    (exchange_round seconds seconds ^^ 1) (a0, sample_end) = (a', b') \<and>
    receive_channel seconds Recv_block b' = (Inr (Some (delivered (replicate 32 (CHR ''t'')) rejected_response)), b'')"
proof -
  have e: "encode_collector_response_payload_v3 rejected_response = Inr rejected_bytes"
    by (simp add: rejected_response_def rejected_bytes_def uint_def exact_bytes_def)
  have r: "good_response rejected_bytes rejected_response"
    using collector_response.decode_encode [OF TrueI e] by (simp add: good_response_def rejected_response_def)
  have n: "chunks rejected_bytes = 1" by (simp add: chunks_def rejected_bytes_def MAX_CHUNK_PAYLOAD_BYTES_V3_def)
  have t: "good_token (replicate 32 (CHR ''t''))" by (simp add: good_token_def replicate_eq_replicate)
  have st: "in_time seconds (reads sample_end) (reads sample_end + 7 * chunks rejected_bytes + 1)"
    by (simp add: in_time_def seconds_def n sample_end_def new_channel_def PACKET_NS_def COLLECTOR_NS_def)
  have i: "idle 1 1 sample_end" by (simp add: idle_def sample_end_def new_channel_def)
  have q: "good_seq 1" "(1 :: int) + int (chunks rejected_bytes) \<le> 2 ^ 32" by (simp_all add: good_seq_def n)
  from collector_response_delivered [OF r t st st i i q(1) _ q(2)] show ?thesis unfolding n by auto
qed

end
