(* ===== verification/Boot_Resource.thy ===== *)
theory Boot_Resource
  imports Wire_Enums Struct_Pack "HOL-Library.AList"
begin

text \<open>
  \<open>ServingResourceReducerV3\<close> of \<open>conf_proc_spp_boot_v3_resource.py\<close>: the ledger of the serving
  permits. Dictionaries are association lists in insertion order. The values \<open>secrets.token_bytes\<close>
  returns during a call are an argument; a call that has used them up has not returned yet, which
  is the result \<open>Drawing\<close>.
\<close>

section \<open>State\<close>

datatype ledger_error = ApplianceErrorV3 string | Drawing

record session_record =
  collector_generation :: nat
  must_release_only :: bool
  request_permit :: "bytes option"
  route_work :: "(RouteV3 \<times> bytes \<times> bool) option"
  buffer_permit :: "bytes option"

definition new_session :: session_record where
  "new_session = \<lparr>collector_generation = 0, must_release_only = False, request_permit = None, route_work = None, buffer_permit = None\<rparr>"

record ledger =
  revoked :: bool
  sessions :: "(bytes \<times> session_record) list"
  collector_permit_holder :: "(bytes \<times> CollectorGenerationV3) option"
  collector_permit_token :: "bytes option"
  route_slot_holders :: "(RouteV3 \<times> bytes) list"

definition new_ledger :: ledger where
  "new_ledger = \<lparr>revoked = False, sessions = [], collector_permit_holder = None, collector_permit_token = None, route_slot_holders = []\<rparr>"

definition MAX_LIVE_SESSIONS_V3 :: nat where "MAX_LIVE_SESSIONS_V3 = 4"
definition STREAM_BUFFER_BYTES_V3 :: int where "STREAM_BUFFER_BYTES_V3 = 2097152"
definition AGGREGATE_BUFFER_BYTES_V3 :: int where "AGGREGATE_BUFFER_BYTES_V3 = 4194304"

type_synonym 'a ledger_step = "ledger \<Rightarrow> (ledger_error + 'a) \<times> ledger"

section \<open>Tokens\<close>

definition opaque_ok :: "bytes \<Rightarrow> bool" where
  "opaque_ok t \<longleftrightarrow> length t = 32 \<and> t \<noteq> replicate 32 (CHR 0x00)"

definition opaque_token :: "bytes \<Rightarrow> string \<Rightarrow> ledger_error + bytes" where
  "opaque_token t label = (if opaque_ok t then Inr t else Inl (ApplianceErrorV3 (label @ '' is invalid'')))"

fun mint_token :: "bytes list \<Rightarrow> (bytes \<times> bytes list) option" where
  "mint_token [] = None"
| "mint_token (t # ts) = (if list_all (\<lambda>b. b = CHR 0x00) t then mint_token ts else Some (t, ts))"

lemma mint_token_shorter [termination_simp]: "mint_token ds = Some (t, ds') \<Longrightarrow> length ds' < length ds"
  by (induction ds rule: mint_token.induct) (auto split: if_splits)

function fresh_token :: "bytes list \<Rightarrow> bytes list \<Rightarrow> bytes option" where
  "fresh_token taken ds = (case mint_token ds of
     None \<Rightarrow> None
   | Some (t, ds') \<Rightarrow> if t \<in> set taken then fresh_token taken ds' else Some t)"
  by pat_completeness auto
termination
  by (relation "measure (\<lambda>(_, ds). length ds)") (auto dest: mint_token_shorter)

declare fresh_token.simps [simp del]

lemma fresh_token_fresh: "fresh_token taken ds = Some t \<Longrightarrow> t \<notin> set taken"
proof (induction taken ds rule: fresh_token.induct)
  case (1 taken ds)
  from "1.prems" show ?case
    unfolding fresh_token.simps [of taken ds] using "1.IH" by (fastforce split: option.splits if_splits)
qed

section \<open>Operations\<close>

text \<open>\<open>_check_active\<close> and \<open>_session\<close>, in the order every operation runs them.\<close>

definition session :: "bytes \<Rightarrow> ledger \<Rightarrow> ledger_error + session_record" where
  "session t l = bindE (opaque_token t ''session token'') (\<lambda>t.
     case map_of (sessions l) t of
       None \<Rightarrow> Inl (ApplianceErrorV3 ''session token is unknown'')
     | Some r \<Rightarrow> Inr r)"

definition active_session :: "bytes \<Rightarrow> (session_record \<Rightarrow> 'a ledger_step) \<Rightarrow> 'a ledger_step" where
  "active_session t f l =
     (if revoked l then (Inl (ApplianceErrorV3 ''revoked''), l)
      else case session t l of Inl e \<Rightarrow> (Inl e, l) | Inr r \<Rightarrow> f r l)"

definition with_token :: "bytes \<Rightarrow> string \<Rightarrow> 'a ledger_step \<Rightarrow> 'a ledger_step" where
  "with_token t label f l = (case opaque_token t label of Inl e \<Rightarrow> (Inl e, l) | Inr _ \<Rightarrow> f l)"

definition reject :: "string \<Rightarrow> 'a ledger_step" where
  "reject m l = (Inl (ApplianceErrorV3 m), l)"

definition set_session :: "bytes \<Rightarrow> session_record \<Rightarrow> ledger \<Rightarrow> ledger" where
  "set_session t r l = l\<lparr>sessions := AList.update t r (sessions l)\<rparr>"

definition release_route_slot :: "bytes \<Rightarrow> (RouteV3 \<times> bytes \<times> bool) option \<Rightarrow> (RouteV3 \<times> bytes) list \<Rightarrow> (RouteV3 \<times> bytes) list" where
  "release_route_slot t work holders = (case work of
     None \<Rightarrow> holders
   | Some (route, _) \<Rightarrow> if map_of holders route = Some t then AList.delete route holders else holders)"

definition session_acquire :: "bytes list \<Rightarrow> bytes option ledger_step" where
  "session_acquire ds l =
     (if revoked l then reject ''revoked'' l
      else if length (sessions l) \<ge> MAX_LIVE_SESSIONS_V3 then (Inr None, l)
      else case fresh_token (map fst (sessions l)) ds of
          None \<Rightarrow> (Inl Drawing, l)
        | Some t \<Rightarrow> (Inr (Some t), l\<lparr>sessions := AList.update t new_session (sessions l)\<rparr>))"

definition collector_acquire :: "bytes list \<Rightarrow> bytes \<Rightarrow> CollectorGenerationV3 \<Rightarrow> bytes option ledger_step" where
  "collector_acquire ds t g = active_session t (\<lambda>r l.
     if must_release_only r then reject ''session must be released'' l
     else if generation_value g \<noteq> collector_generation r + 1 then reject ''collector generation is out of order'' l
     else if collector_permit_holder l \<noteq> None then (Inr None, set_session t (r\<lparr>must_release_only := True\<rparr>) l)
     else case mint_token ds of
         None \<Rightarrow> (Inl Drawing, l)
       | Some (p, _) \<Rightarrow> (Inr (Some p), l\<lparr>collector_permit_holder := Some (t, g), collector_permit_token := Some p\<rparr>))"

definition consume_collector_permit :: "bytes \<Rightarrow> CollectorGenerationV3 \<Rightarrow> bytes \<Rightarrow> (session_record \<Rightarrow> session_record) \<Rightarrow> unit ledger_step" where
  "consume_collector_permit t g p update = active_session t (\<lambda>r.
     with_token p ''collector permit token'' (\<lambda>l.
       if collector_permit_holder l \<noteq> Some (t, g) \<or> collector_permit_token l \<noteq> Some p
       then reject ''collector permit does not match its holder'' l
       else (Inr (), set_session t (update r) (l\<lparr>collector_permit_holder := None, collector_permit_token := None\<rparr>))))"

definition collector_finish :: "bytes \<Rightarrow> CollectorGenerationV3 \<Rightarrow> bytes \<Rightarrow> unit ledger_step" where
  "collector_finish t g p = consume_collector_permit t g p (\<lambda>r. r\<lparr>collector_generation := generation_value g\<rparr>)"

definition collector_abort :: "bytes \<Rightarrow> CollectorGenerationV3 \<Rightarrow> bytes \<Rightarrow> unit ledger_step" where
  "collector_abort t g p = consume_collector_permit t g p (\<lambda>r. r\<lparr>must_release_only := True\<rparr>)"

text \<open>The three permits of a request, drawn in this order, with the buffer size.\<close>

definition mint_permits :: "bytes list \<Rightarrow> (bytes \<times> bytes \<times> bytes) option" where
  "mint_permits ds = (case mint_token ds of None \<Rightarrow> None | Some (p, ds1) \<Rightarrow>
     (case mint_token ds1 of None \<Rightarrow> None | Some (w, ds2) \<Rightarrow>
       (case mint_token ds2 of None \<Rightarrow> None | Some (b, _) \<Rightarrow> Some (p, w, b))))"

type_synonym grant = "bytes \<times> bytes \<times> bytes \<times> int"

definition request_acquire :: "bytes list \<Rightarrow> bytes \<Rightarrow> RouteV3 \<Rightarrow> (RequestRejectReasonV3 + grant) ledger_step" where
  "request_acquire ds t route = active_session t (\<lambda>r l.
     if must_release_only r then reject ''session must be released'' l
     else if collector_generation r \<noteq> generation_value Gen_EXPORTER then reject ''collector generations are incomplete'' l
     else if request_permit r \<noteq> None then (Inr (Inl Reject_DUPLICATE_REQUEST), set_session t (r\<lparr>must_release_only := True\<rparr>) l)
     else if map_of (route_slot_holders l) route \<noteq> None
     then (Inr (Inl Reject_ROUTE_SLOT_SATURATED), set_session t (r\<lparr>must_release_only := True\<rparr>) l)
     else case mint_permits ds of
         None \<Rightarrow> (Inl Drawing, l)
       | Some (p, w, b) \<Rightarrow>
           (Inr (Inr (p, w, b, STREAM_BUFFER_BYTES_V3)),
            (set_session t (r\<lparr>request_permit := Some p, route_work := Some (route, w, False), buffer_permit := Some b\<rparr>) l)
              \<lparr>route_slot_holders := AList.update route t (route_slot_holders l)\<rparr>))"

definition work_begin :: "bytes \<Rightarrow> bytes \<Rightarrow> unit ledger_step" where
  "work_begin t w = active_session t (\<lambda>r. with_token w ''route work permit token'' (\<lambda>l.
     if must_release_only r then reject ''session must be released'' l
     else case route_work r of
         None \<Rightarrow> reject ''route work permit is unavailable'' l
       | Some (route, w', begun) \<Rightarrow>
           if w' \<noteq> w \<or> begun then reject ''route work permit is unavailable'' l
           else (Inr (), set_session t (r\<lparr>route_work := Some (route, w, True)\<rparr>) l)))"

definition work_finish :: "bytes \<Rightarrow> bytes \<Rightarrow> unit ledger_step" where
  "work_finish t w = active_session t (\<lambda>r. with_token w ''route work permit token'' (\<lambda>l.
     if must_release_only r then reject ''session must be released'' l
     else case route_work r of
         None \<Rightarrow> reject ''route work permit is unavailable'' l
       | Some (route, w', begun) \<Rightarrow>
           if w' \<noteq> w then reject ''route work permit is unavailable'' l
           else (Inr (), (set_session t (r\<lparr>route_work := None\<rparr>) l)
                  \<lparr>route_slot_holders := release_route_slot t (route_work r) (route_slot_holders l)\<rparr>)))"

definition request_release :: "bytes \<Rightarrow> bytes \<Rightarrow> unit ledger_step" where
  "request_release t p = active_session t (\<lambda>r. with_token p ''request permit token'' (\<lambda>l.
     if must_release_only r then reject ''session must be released'' l
     else if request_permit r \<noteq> Some p then reject ''request permit is unavailable'' l
     else (Inr (), (set_session t (r\<lparr>request_permit := None, route_work := None, buffer_permit := None\<rparr>) l)
            \<lparr>route_slot_holders := release_route_slot t (route_work r) (route_slot_holders l)\<rparr>)))"

type_synonym released_permits = "nat \<times> bytes option \<times> bytes option \<times> bytes option"

definition held_permits :: "session_record \<Rightarrow> released_permits" where
  "held_permits r =
     ((if request_permit r = None then 0 else 1) + (if route_work r = None then 0 else 2) + (if buffer_permit r = None then 0 else 4),
      request_permit r, map_option (\<lambda>(_, w, _). w) (route_work r), buffer_permit r)"

definition session_release :: "bytes \<Rightarrow> released_permits ledger_step" where
  "session_release t = active_session t (\<lambda>r l.
     if map_option fst (collector_permit_holder l) = Some t
     then reject ''collector permit must be consumed before session release'' l
     else (Inr (held_permits r),
           l\<lparr>route_slot_holders := release_route_slot t (route_work r) (route_slot_holders l), sessions := AList.delete t (sessions l)\<rparr>))"

definition global_revoke :: "ledger \<Rightarrow> ledger" where
  "global_revoke l = l\<lparr>revoked := True, sessions := [], collector_permit_holder := None, collector_permit_token := None, route_slot_holders := []\<rparr>"

section \<open>The invariant\<close>

declare map_of_eq_Some_iff [simp del] Some_eq_map_of_iff [simp del]

lemma length_alist_update: "length (AList.update k v al) = (if k \<in> fst ` set al then length al else Suc (length al))"
  by (induction al) auto

lemma length_alist_delete: "length (AList.delete k al) \<le> length al"
  by (simp add: AList.delete_eq)

lemma finds_key: "map_of al k = Some v \<Longrightarrow> k \<in> fst ` set al"
  by (auto dest: map_of_SomeD intro: rev_image_eqI)

definition record_ok :: "session_record \<Rightarrow> bool" where
  "record_ok r \<longleftrightarrow> collector_generation r \<le> 2 \<and> (request_permit r = None \<longleftrightarrow> buffer_permit r = None) \<and>
     (route_work r \<noteq> None \<longrightarrow> request_permit r \<noteq> None) \<and> (request_permit r \<noteq> None \<longrightarrow> collector_generation r = 2)"

definition works_on :: "session_record \<Rightarrow> RouteV3 \<Rightarrow> bool" where
  "works_on r route \<longleftrightarrow> map_option fst (route_work r) = Some route"

lemma record_ok_updates:
  assumes "record_ok r"
  shows "record_ok (r\<lparr>must_release_only := b\<rparr>)" and "route_work r \<noteq> None \<Longrightarrow> record_ok (r\<lparr>route_work := w\<rparr>)"
    and "record_ok (r\<lparr>request_permit := None, route_work := None, buffer_permit := None\<rparr>)"
  using assms by (auto simp: record_ok_def)

text \<open>
  A session for every slot holder and the slot for every session with route work; the collector
  permit belongs to a live session and is for its next generation; nothing survives revocation.
\<close>

definition ledger_inv :: "ledger \<Rightarrow> bool" where
  "ledger_inv l \<longleftrightarrow>
     distinct (map fst (sessions l)) \<and> length (sessions l) \<le> MAX_LIVE_SESSIONS_V3 \<and> distinct (map fst (route_slot_holders l)) \<and>
     (\<forall>t r. map_of (sessions l) t = Some r \<longrightarrow> record_ok r) \<and>
     (\<forall>route t. map_of (route_slot_holders l) route = Some t \<longleftrightarrow> (\<exists>r. map_of (sessions l) t = Some r \<and> works_on r route)) \<and>
     (collector_permit_holder l = None \<longleftrightarrow> collector_permit_token l = None) \<and>
     (\<forall>t g. collector_permit_holder l = Some (t, g) \<longrightarrow>
        (\<exists>r. map_of (sessions l) t = Some r \<and> generation_value g = collector_generation r + 1)) \<and>
     (revoked l \<longrightarrow> sessions l = [] \<and> collector_permit_holder l = None \<and> route_slot_holders l = [])"

lemma inv_set:
  assumes inv: "ledger_inv l" and r: "map_of (sessions l) t = Some r" and act: "\<not> revoked l" and r': "record_ok r'"
    and hs: "distinct (map fst hs)" "\<And>route u. map_of hs route = Some u \<longleftrightarrow>
      (if u = t then works_on r' route else map_of (route_slot_holders l) route = Some u)"
    and h: "h = None \<longleftrightarrow> p = None"
      "\<And>u g. h = Some (u, g) \<Longrightarrow> collector_permit_holder l = Some (u, g) \<and> (u = t \<longrightarrow> collector_generation r' = collector_generation r)"
  shows "ledger_inv (l\<lparr>collector_permit_holder := h, collector_permit_token := p, sessions := AList.update t r' (sessions l), route_slot_holders := hs\<rparr>)"
proof -
  have L: "length (AList.update t r' (sessions l)) = length (sessions l)"
    using finds_key [OF r] by (simp add: length_alist_update)
  have slots: "map_of hs route = Some u \<longleftrightarrow> (\<exists>q. ((map_of (sessions l))(t \<mapsto> r')) u = Some q \<and> works_on q route)" for route u
    using inv hs(2) [of route u] by (auto simp: ledger_inv_def)
  have holder: "\<exists>q. ((map_of (sessions l))(t \<mapsto> r')) u = Some q \<and> generation_value g = collector_generation q + 1" if "h = Some (u, g)" for u g
  proof -
    from inv h(2) [OF that] have "\<exists>q. map_of (sessions l) u = Some q \<and> generation_value g = collector_generation q + 1"
      by (simp add: ledger_inv_def)
    then obtain q where q: "map_of (sessions l) u = Some q" "generation_value g = collector_generation q + 1" by blast
    show ?thesis by (rule exI [of _ "if u = t then r' else q"]) (use q h(2) [OF that] r in auto)
  qed
  have recs: "record_ok q" if "((map_of (sessions l))(t \<mapsto> r')) u = Some q" for u q
    using that inv r' by (auto simp: ledger_inv_def split: if_splits)
  show ?thesis
    using inv act hs(1) h(1) slots holder recs
    by (simp add: ledger_inv_def L AList.update_conv' AList.distinct_update)
qed

lemma inv_record: "ledger_inv l \<Longrightarrow> map_of (sessions l) t = Some r \<Longrightarrow> record_ok r"
  by (simp add: ledger_inv_def)

lemma inv_slot: "ledger_inv l \<Longrightarrow> map_of (sessions l) t = Some r \<Longrightarrow> map_of (route_slot_holders l) route = Some t \<longleftrightarrow> works_on r route"
  by (simp add: ledger_inv_def)

lemma inv_distinct_slots: "ledger_inv l \<Longrightarrow> distinct (map fst (route_slot_holders l))"
  by (simp add: ledger_inv_def)

lemma inv_permit: "ledger_inv l \<Longrightarrow> collector_permit_holder l = None \<longleftrightarrow> collector_permit_token l = None"
  by (simp add: ledger_inv_def)

text \<open>The common case: a session record changes, its route does not.\<close>

lemma inv_set_session:
  assumes "ledger_inv l" "map_of (sessions l) t = Some r" "\<not> revoked l" "record_ok r'" "map_option fst (route_work r') = map_option fst (route_work r)"
    "collector_generation r' = collector_generation r"
  shows "ledger_inv (set_session t r' l)"
proof -
  have w: "map_of (route_slot_holders l) route = Some t \<longleftrightarrow> works_on r' route" for route
    using inv_slot [OF assms(1,2)] assms(5) by (simp add: works_on_def)
  have "ledger_inv (l\<lparr>collector_permit_holder := collector_permit_holder l, collector_permit_token := collector_permit_token l,
      sessions := AList.update t r' (sessions l), route_slot_holders := route_slot_holders l\<rparr>)"
    by (rule inv_set [OF assms(1-4) inv_distinct_slots [OF assms(1)]]) (use w inv_permit [OF assms(1)] assms(6) in auto)
  then show ?thesis by (simp add: set_session_def)
qed

text \<open>Giving a route back.\<close>

lemma released_slot:
  assumes "ledger_inv l" "map_of (sessions l) t = Some r"
  shows "map_of (release_route_slot t (route_work r) (route_slot_holders l)) route = Some u \<longleftrightarrow>
    u \<noteq> t \<and> map_of (route_slot_holders l) route = Some u"
proof (cases "route_work r")
  case None
  then show ?thesis using inv_slot [OF assms, of route] by (auto simp: release_route_slot_def works_on_def)
next
  case (Some x)
  obtain q w b where x: "x = (q, w, b)" by (cases x)
  have "map_of (route_slot_holders l) q = Some t" using inv_slot [OF assms, of q] by (simp add: works_on_def Some x)
  then show ?thesis
    using inv_slot [OF assms, of route] by (auto simp: release_route_slot_def Some x works_on_def AList.delete_conv')
qed

lemma distinct_released: "distinct (map fst hs) \<Longrightarrow> distinct (map fst (release_route_slot t w hs))"
  by (auto simp: release_route_slot_def AList.distinct_delete split: option.splits)

lemma inv_give_back:
  assumes "ledger_inv l" "map_of (sessions l) t = Some r" "\<not> revoked l" "record_ok r'" "route_work r' = None"
    "collector_generation r' = collector_generation r"
  shows "ledger_inv ((set_session t r' l)\<lparr>route_slot_holders := release_route_slot t (route_work r) (route_slot_holders l)\<rparr>)"
proof -
  let ?hs = "release_route_slot t (route_work r) (route_slot_holders l)"
  have w: "\<not> works_on r' route" for route using assms(5) by (simp add: works_on_def)
  have "ledger_inv (l\<lparr>collector_permit_holder := collector_permit_holder l, collector_permit_token := collector_permit_token l,
      sessions := AList.update t r' (sessions l), route_slot_holders := ?hs\<rparr>)"
    by (rule inv_set [OF assms(1-4) distinct_released [OF inv_distinct_slots [OF assms(1)]]])
      (use w released_slot [OF assms(1,2)] inv_permit [OF assms(1)] assms(6) in auto)
  then show ?thesis by (simp add: set_session_def)
qed

section \<open>Every operation keeps it\<close>

lemma keeps_active:
  assumes "ledger_inv l"
    and "\<And>r. map_of (sessions l) t = Some r \<Longrightarrow> \<not> revoked l \<Longrightarrow> ledger_inv (snd (f r l))"
  shows "ledger_inv (snd (active_session t f l))"
  using assms by (auto simp: active_session_def session_def opaque_token_def split: option.splits)

lemma keeps_with_token: "ledger_inv (snd (f l)) \<Longrightarrow> ledger_inv l \<Longrightarrow> ledger_inv (snd (with_token t label f l))"
  by (simp add: with_token_def opaque_token_def)

lemma keeps_session_acquire:
  assumes "ledger_inv l"
  shows "ledger_inv (snd (session_acquire ds l))"
proof (cases "revoked l \<or> length (sessions l) \<ge> MAX_LIVE_SESSIONS_V3 \<or> fresh_token (map fst (sessions l)) ds = None")
  case True
  then show ?thesis using assms by (auto simp: session_acquire_def reject_def)
next
  case False
  then obtain t where t: "fresh_token (map fst (sessions l)) ds = Some t" by auto
  from fresh_token_fresh [OF t] have fresh: "t \<notin> fst ` set (sessions l)" by simp
  then have no: "map_of (sessions l) t = None" by (simp add: map_of_eq_None_iff)
  have slots: "map_of (route_slot_holders l) route \<noteq> Some t" for route
    using assms no by (auto simp: ledger_inv_def)
  show ?thesis
    using assms False no fresh slots
    by (auto simp: session_acquire_def t ledger_inv_def AList.update_conv' AList.distinct_update length_alist_update new_session_def record_ok_def works_on_def)
qed

lemma keeps_collector_acquire: "ledger_inv l \<Longrightarrow> ledger_inv (snd (collector_acquire ds t g l))"
  unfolding collector_acquire_def
proof (rule keeps_active, assumption)
  fix r assume l: "ledger_inv l" and r: "map_of (sessions l) t = Some r" and a: "\<not> revoked l"
  let ?l = "\<lambda>p. l\<lparr>collector_permit_holder := Some (t, g), collector_permit_token := Some p\<rparr>"
  have "ledger_inv (?l p)" if "generation_value g = collector_generation r + 1" for p
    using l r a that by (simp add: ledger_inv_def)
  moreover have "ledger_inv (set_session t (r\<lparr>must_release_only := True\<rparr>) l)"
    by (rule inv_set_session [OF l r a]) (simp_all add: record_ok_updates inv_record [OF l r])
  ultimately show "ledger_inv (snd ((\<lambda>r l. if must_release_only r then reject ''session must be released'' l
     else if generation_value g \<noteq> collector_generation r + 1 then reject ''collector generation is out of order'' l
     else if collector_permit_holder l \<noteq> None then (Inr None, set_session t (r\<lparr>must_release_only := True\<rparr>) l)
     else case mint_token ds of None \<Rightarrow> (Inl Drawing, l) | Some (p, _) \<Rightarrow> (Inr (Some p), ?l p)) r l))"
    using l by (auto simp: reject_def split: option.splits)
qed

lemma inv_permit_back:
  assumes "ledger_inv l" "map_of (sessions l) t = Some r" "\<not> revoked l" "record_ok r'" "route_work r' = route_work r"
  shows "ledger_inv (set_session t r' (l\<lparr>collector_permit_holder := None, collector_permit_token := None\<rparr>))"
proof -
  have w: "map_of (route_slot_holders l) route = Some t \<longleftrightarrow> works_on r' route" for route
    using inv_slot [OF assms(1,2)] assms(5) by (simp add: works_on_def)
  have "ledger_inv (l\<lparr>collector_permit_holder := None, collector_permit_token := None, sessions := AList.update t r' (sessions l),
      route_slot_holders := route_slot_holders l\<rparr>)"
    by (rule inv_set [OF assms(1-4) inv_distinct_slots [OF assms(1)]]) (use w in auto)
  then show ?thesis by (simp add: set_session_def)
qed

lemma keeps_consume:
  assumes "ledger_inv l"
    and "\<And>r. map_of (sessions l) t = Some r \<Longrightarrow> collector_permit_holder l = Some (t, g) \<Longrightarrow> record_ok (f r) \<and> route_work (f r) = route_work r"
  shows "ledger_inv (snd (consume_collector_permit t g p f l))"
  unfolding consume_collector_permit_def
  using assms by (intro keeps_active keeps_with_token) (auto simp: reject_def intro: inv_permit_back)

lemma keeps_collector_finish: "ledger_inv l \<Longrightarrow> ledger_inv (snd (collector_finish t g p l))"
  unfolding collector_finish_def
proof (rule keeps_consume, assumption)
  fix r assume l: "ledger_inv l" and r: "map_of (sessions l) t = Some r" and h: "collector_permit_holder l = Some (t, g)"
  then have "generation_value g = collector_generation r + 1" by (simp add: ledger_inv_def)
  moreover have "generation_value g \<le> 2" by (cases g) simp_all
  ultimately show "record_ok (r\<lparr>collector_generation := generation_value g\<rparr>) \<and>
      route_work (r\<lparr>collector_generation := generation_value g\<rparr>) = route_work r"
    using inv_record [OF l r] by (auto simp: record_ok_def)
qed

lemma keeps_collector_abort: "ledger_inv l \<Longrightarrow> ledger_inv (snd (collector_abort t g p l))"
  unfolding collector_abort_def by (rule keeps_consume) (auto dest: inv_record simp: record_ok_def)

lemma keeps_request_acquire: "ledger_inv l \<Longrightarrow> ledger_inv (snd (request_acquire ds t route l))"
  unfolding request_acquire_def
proof (rule keeps_active, assumption)
  fix r assume l: "ledger_inv l" and r: "map_of (sessions l) t = Some r" and a: "\<not> revoked l"
  let ?r = "\<lambda>p w b. r\<lparr>request_permit := Some p, route_work := Some (route, w, False), buffer_permit := Some b\<rparr>"
  let ?l = "\<lambda>p w b. (set_session t (?r p w b) l)\<lparr>route_slot_holders := AList.update route t (route_slot_holders l)\<rparr>"
  have m: "ledger_inv (set_session t (r\<lparr>must_release_only := True\<rparr>) l)"
    by (rule inv_set_session [OF l r a]) (simp_all add: record_ok_updates inv_record [OF l r])
  have "ledger_inv (?l p w b)" if g: "collector_generation r = 2" and n: "request_permit r = None" and f: "map_of (route_slot_holders l) route = None" for p w b
  proof -
    have nw: "route_work r = None" using inv_record [OF l r] n unfolding record_ok_def by blast
    have "map_of (route_slot_holders l) q \<noteq> Some t" for q using inv_slot [OF l r, of q] nw by (simp add: works_on_def)
    then have "map_of (AList.update route t (route_slot_holders l)) q = Some u \<longleftrightarrow>
        (if u = t then works_on (?r p w b) q else map_of (route_slot_holders l) q = Some u)" for q u
      using f by (auto simp: AList.update_conv' works_on_def)
    then have "ledger_inv (l\<lparr>collector_permit_holder := collector_permit_holder l, collector_permit_token := collector_permit_token l,
        sessions := AList.update t (?r p w b) (sessions l), route_slot_holders := AList.update route t (route_slot_holders l)\<rparr>)"
      using l inv_permit [OF l] g inv_record [OF l r]
      by (intro inv_set [OF l r a] AList.distinct_update inv_distinct_slots) (auto simp: record_ok_def)
    then show ?thesis by (simp add: set_session_def)
  qed
  then show "ledger_inv (snd ((\<lambda>r l. if must_release_only r then reject ''session must be released'' l
     else if collector_generation r \<noteq> generation_value Gen_EXPORTER then reject ''collector generations are incomplete'' l
     else if request_permit r \<noteq> None then (Inr (Inl Reject_DUPLICATE_REQUEST), set_session t (r\<lparr>must_release_only := True\<rparr>) l)
     else if map_of (route_slot_holders l) route \<noteq> None
     then (Inr (Inl Reject_ROUTE_SLOT_SATURATED), set_session t (r\<lparr>must_release_only := True\<rparr>) l)
     else case mint_permits ds of None \<Rightarrow> (Inl Drawing, l)
       | Some (p, w, b) \<Rightarrow> (Inr (Inr (p, w, b, STREAM_BUFFER_BYTES_V3)),
            (set_session t (r\<lparr>request_permit := Some p, route_work := Some (route, w, False), buffer_permit := Some b\<rparr>) l)
              \<lparr>route_slot_holders := AList.update route t (route_slot_holders l)\<rparr>)) r l))"
    using l m by (auto simp: reject_def split: option.splits)
qed

lemma keeps_work_begin: "ledger_inv l \<Longrightarrow> ledger_inv (snd (work_begin t w l))"
  unfolding work_begin_def
  by (intro keeps_active keeps_with_token)
    (auto simp: reject_def record_ok_updates inv_record intro!: inv_set_session split: option.splits)

lemma keeps_work_finish: "ledger_inv l \<Longrightarrow> ledger_inv (snd (work_finish t w l))"
  unfolding work_finish_def
  by (intro keeps_active keeps_with_token)
    (auto simp: reject_def record_ok_updates inv_record intro!: inv_give_back split: option.splits)

lemma keeps_request_release: "ledger_inv l \<Longrightarrow> ledger_inv (snd (request_release t p l))"
  unfolding request_release_def
  by (intro keeps_active keeps_with_token)
    (auto simp: reject_def record_ok_updates inv_record intro!: inv_give_back)

lemma keeps_session_release: "ledger_inv l \<Longrightarrow> ledger_inv (snd (session_release t l))"
  unfolding session_release_def
proof (rule keeps_active, assumption)
  fix r assume l: "ledger_inv l" and r: "map_of (sessions l) t = Some r" and a: "\<not> revoked l"
  let ?hs = "release_route_slot t (route_work r) (route_slot_holders l)"
  let ?l = "l\<lparr>route_slot_holders := ?hs, sessions := AList.delete t (sessions l)\<rparr>"
  have slots: "map_of ?hs route = Some u \<longleftrightarrow> (\<exists>q. ((map_of (sessions l))(t := None)) u = Some q \<and> works_on q route)" for route u
    using released_slot [OF l r, of route u] l by (auto simp: ledger_inv_def)
  have "ledger_inv ?l" if "map_option fst (collector_permit_holder l) \<noteq> Some t"
    using l a that slots distinct_released [OF inv_distinct_slots [OF l]] order_trans [OF length_alist_delete, of "sessions l" MAX_LIVE_SESSIONS_V3 t]
    by (auto simp: ledger_inv_def AList.delete_conv' AList.distinct_delete)
  then show "ledger_inv (snd ((\<lambda>r l. if map_option fst (collector_permit_holder l) = Some t
     then reject ''collector permit must be consumed before session release'' l
     else (Inr (held_permits r),
           l\<lparr>route_slot_holders := release_route_slot t (route_work r) (route_slot_holders l), sessions := AList.delete t (sessions l)\<rparr>)) r l))"
    using l by (auto simp: reject_def)
qed

lemma keeps_global_revoke: "ledger_inv (global_revoke l)"
  by (simp add: ledger_inv_def global_revoke_def)

lemma inv_new_ledger: "ledger_inv new_ledger"
  by (simp add: ledger_inv_def new_ledger_def)

section \<open>Sequences of calls\<close>

datatype ledger_op = Session_acquire "bytes list" | Collector_acquire "bytes list" bytes CollectorGenerationV3
  | Collector_finish bytes CollectorGenerationV3 bytes | Collector_abort bytes CollectorGenerationV3 bytes
  | Request_acquire "bytes list" bytes RouteV3 | Work_begin bytes bytes | Work_finish bytes bytes
  | Request_release bytes bytes | Session_release bytes | Global_revoke

datatype ledger_out = Out_token "ledger_error + bytes option" | Out_done "ledger_error + unit"
  | Out_request "ledger_error + (RequestRejectReasonV3 + grant)" | Out_released "ledger_error + released_permits"

fun ledger_step :: "ledger \<Rightarrow> ledger_op \<Rightarrow> ledger \<times> ledger_out" where
  "ledger_step l (Session_acquire ds) = (case session_acquire ds l of (r, l') \<Rightarrow> (l', Out_token r))"
| "ledger_step l (Collector_acquire ds t g) = (case collector_acquire ds t g l of (r, l') \<Rightarrow> (l', Out_token r))"
| "ledger_step l (Collector_finish t g p) = (case collector_finish t g p l of (r, l') \<Rightarrow> (l', Out_done r))"
| "ledger_step l (Collector_abort t g p) = (case collector_abort t g p l of (r, l') \<Rightarrow> (l', Out_done r))"
| "ledger_step l (Request_acquire ds t route) = (case request_acquire ds t route l of (r, l') \<Rightarrow> (l', Out_request r))"
| "ledger_step l (Work_begin t w) = (case work_begin t w l of (r, l') \<Rightarrow> (l', Out_done r))"
| "ledger_step l (Work_finish t w) = (case work_finish t w l of (r, l') \<Rightarrow> (l', Out_done r))"
| "ledger_step l (Request_release t p) = (case request_release t p l of (r, l') \<Rightarrow> (l', Out_done r))"
| "ledger_step l (Session_release t) = (case session_release t l of (r, l') \<Rightarrow> (l', Out_released r))"
| "ledger_step l Global_revoke = (global_revoke l, Out_done (Inr ()))"

lemmas ledger_keeps = keeps_session_acquire keeps_collector_acquire keeps_collector_finish keeps_collector_abort
  keeps_request_acquire keeps_work_begin keeps_work_finish keeps_request_release keeps_session_release keeps_global_revoke

interpretation permits: machine ledger_step ledger_inv
proof
  show "ledger_inv (fst (ledger_step l op))" if "ledger_inv l" for l op
    using that by (cases op) (auto simp: case_prod_unfold ledger_keeps)
qed

text \<open>
  C13. Permits are exclusive: after any sequence of calls, at most four sessions live; the
  collector permit, if out, belongs to a live session and is for its next generation; a route
  slot is held exactly by the session whose record says it works that route, so no route has two;
  and after a revocation no session, permit or slot remains.
\<close>

theorem permits_exclusive:
  "let l = fst (run ledger_step new_ledger ops) in
     length (sessions l) \<le> 4 \<and> distinct (map fst (sessions l)) \<and>
     (\<forall>t g. collector_permit_holder l = Some (t, g) \<longrightarrow>
        (\<exists>r. map_of (sessions l) t = Some r \<and> generation_value g = collector_generation r + 1)) \<and>
     (\<forall>route t u r q. map_of (sessions l) t = Some r \<and> map_of (sessions l) u = Some q \<and> works_on r route \<and> works_on q route \<longrightarrow>
        t = u \<and> map_of (route_slot_holders l) route = Some t) \<and>
     (revoked l \<longrightarrow> sessions l = [] \<and> collector_permit_holder l = None \<and> collector_permit_token l = None \<and> route_slot_holders l = [])"
proof -
  define l where "l = fst (run ledger_step new_ledger ops)"
  have inv: "ledger_inv l" unfolding l_def by (rule permits.inv_run [OF inv_new_ledger])
  have "t = u \<and> map_of (route_slot_holders l) route = Some t"
    if "map_of (sessions l) t = Some r" "map_of (sessions l) u = Some q" "works_on r route" "works_on q route" for route t u r q
    using inv_slot [OF inv that(1), of route] inv_slot [OF inv that(2), of route] that(3,4) by simp
  with inv show ?thesis unfolding l_def [symmetric] Let_def ledger_inv_def MAX_LIVE_SESSIONS_V3_def by auto
qed

section \<open>Attestation before requests\<close>

text \<open>The collector generations finished for a session since the call that opened it.\<close>

fun note_finish :: "bytes \<Rightarrow> CollectorGenerationV3 list \<Rightarrow> ledger_op \<times> ledger_out \<Rightarrow> CollectorGenerationV3 list" where
  "note_finish t gens (Session_acquire _, Out_token (Inr (Some u))) = (if u = t then [] else gens)"
| "note_finish t gens (Collector_finish u g _, Out_done (Inr ())) = (if u = t then gens @ [g] else gens)"
| "note_finish t gens _ = gens"

definition finished :: "bytes \<Rightarrow> (ledger_op \<times> ledger_out) list \<Rightarrow> CollectorGenerationV3 list" where
  "finished t h = foldl (note_finish t) [] h"

definition in_order :: "nat \<Rightarrow> CollectorGenerationV3 list" where
  "in_order n = take n [Gen_CERTIFICATE, Gen_EXPORTER]"

definition generations_agree :: "ledger \<Rightarrow> (bytes \<Rightarrow> CollectorGenerationV3 list) \<Rightarrow> bool" where
  "generations_agree l f \<longleftrightarrow> (\<forall>t r. map_of (sessions l) t = Some r \<longrightarrow> f t = in_order (collector_generation r))"

text \<open>An operation that opens no session and finishes no generation changes no generation.\<close>

definition same_generations :: "ledger \<Rightarrow> ledger \<Rightarrow> bool" where
  "same_generations l l' \<longleftrightarrow> (\<forall>t r'. map_of (sessions l') t = Some r' \<longrightarrow>
     (\<exists>r. map_of (sessions l) t = Some r \<and> collector_generation r = collector_generation r'))"

lemma same_generations_refl [simp]: "same_generations l l"
  by (simp add: same_generations_def)

lemma same_generations_set:
  assumes "map_of (sessions l) t = Some r"
  shows "collector_generation r' = collector_generation r \<Longrightarrow> sessions l' = sessions l \<Longrightarrow> same_generations l (set_session t r' l')"
    and "sessions l' = sessions l \<Longrightarrow> same_generations l l'"
    and "same_generations l m \<Longrightarrow> same_generations l (m\<lparr>route_slot_holders := hs\<rparr>)"
    and "same_generations l (m\<lparr>sessions := AList.delete t (sessions l)\<rparr>)"
  using assms by (auto simp: same_generations_def set_session_def AList.update_conv' AList.delete_conv' split: if_splits)

lemma agree_same: "same_generations l l' \<Longrightarrow> generations_agree l f \<Longrightarrow> generations_agree l' f"
  unfolding same_generations_def generations_agree_def by metis

lemma same_active:
  assumes "\<And>r. map_of (sessions l) t = Some r \<Longrightarrow> same_generations l (snd (f r l))"
  shows "same_generations l (snd (active_session t f l))"
  using assms by (auto simp: active_session_def session_def opaque_token_def split: option.splits)

lemma same_with_token: "same_generations l (snd (f l)) \<Longrightarrow> same_generations l (snd (with_token t label f l))"
  by (simp add: with_token_def opaque_token_def)

lemma same_ops:
  "same_generations l (snd (collector_acquire ds t g l))"
  "same_generations l (snd (collector_abort t g p l))"
  "same_generations l (snd (request_acquire ds t route l))"
  "same_generations l (snd (work_begin t w l))"
  "same_generations l (snd (work_finish t w l))"
  "same_generations l (snd (request_release t p l))"
  "same_generations l (snd (session_release t l))"
  "same_generations l (global_revoke l)"
  unfolding collector_acquire_def collector_abort_def consume_collector_permit_def request_acquire_def work_begin_def work_finish_def
    request_release_def session_release_def
  by (intro same_active same_with_token; auto simp: reject_def same_generations_set split: option.splits)+
    (auto simp: same_generations_def global_revoke_def)

lemma note_other:
  "(\<And>ds. op \<noteq> Session_acquire ds) \<Longrightarrow> (\<And>t g p. op \<noteq> Collector_finish t g p) \<Longrightarrow> note_finish t gens (op, out) = gens"
  by (cases op; cases out) auto

lemma agree_session_acquire:
  assumes "generations_agree l f" and "session_acquire ds l = (r, l')"
  shows "generations_agree l' (\<lambda>t. note_finish t (f t) (Session_acquire ds, Out_token r))"
proof (cases "\<exists>t. r = Inr (Some t)")
  case True
  then obtain t where t: "r = Inr (Some t)" by blast
  with assms(2) have l': "l' = l\<lparr>sessions := AList.update t new_session (sessions l)\<rparr>"
    by (auto simp: session_acquire_def reject_def split: if_splits option.splits)
  show ?thesis
    using assms(1) unfolding t l' by (auto simp: generations_agree_def AList.update_conv' new_session_def in_order_def split: if_splits)
next
  case False
  with assms(2) have "l' = l" by (auto simp: session_acquire_def reject_def split: if_splits option.splits)
  moreover have "note_finish t gens (Session_acquire ds, Out_token r) = gens" for t gens
    using False by (cases r; cases "projr r") auto
  ultimately show ?thesis using assms(1) by simp
qed

lemma next_in_order: "generation_value g = n + 1 \<Longrightarrow> in_order n @ [g] = in_order (generation_value g)"
  by (cases g) (auto simp: in_order_def)

lemma finish_result:
  assumes "ledger_inv l" and "collector_finish t g p l = (r, l')"
  shows "(is_ok r \<and> (\<exists>q. map_of (sessions l) t = Some q \<and> generation_value g = collector_generation q + 1 \<and>
      sessions l' = AList.update t (q\<lparr>collector_generation := generation_value g\<rparr>) (sessions l))) \<or> (\<not> is_ok r \<and> l' = l)"
  using assms
  by (auto simp: collector_finish_def consume_collector_permit_def active_session_def session_def opaque_token_def with_token_def reject_def
      set_session_def ledger_inv_def split: if_splits option.splits)

lemma agree_collector_finish:
  assumes "ledger_inv l" and "generations_agree l f" and "collector_finish t g p l = (r, l')"
  shows "generations_agree l' (\<lambda>u. note_finish u (f u) (Collector_finish t g p, Out_done r))"
  using finish_result [OF assms(1,3)]
proof (elim disjE conjE exE)
  fix q assume ok: "is_ok r" and q: "map_of (sessions l) t = Some q" "generation_value g = collector_generation q + 1"
    "sessions l' = AList.update t (q\<lparr>collector_generation := generation_value g\<rparr>) (sessions l)"
  from ok have r: "r = Inr ()" by (auto simp: is_ok_iff)
  show ?thesis
    using assms(2) q next_in_order [OF q(2)] unfolding r by (auto simp: generations_agree_def AList.update_conv' split: if_splits)
next
  assume "\<not> is_ok r" and "l' = l"
  then show ?thesis using assms(2) by (cases r) simp_all
qed

lemma agree_step:
  assumes "ledger_inv l" and "generations_agree l f"
  shows "generations_agree (fst (ledger_step l op)) (\<lambda>t. note_finish t (f t) (op, snd (ledger_step l op)))"
proof (cases "(\<exists>ds. op = Session_acquire ds) \<or> (\<exists>t g p. op = Collector_finish t g p)")
  case True
  then show ?thesis
    using agree_session_acquire [OF assms(2) surjective_pairing] agree_collector_finish [OF assms surjective_pairing]
    by (auto simp: case_prod_unfold)
next
  case False
  then have "same_generations l (fst (ledger_step l op))" by (cases op) (auto simp: case_prod_unfold same_ops)
  from agree_same [OF this assms(2)] False show ?thesis by (simp add: note_other)
qed

lemma length_run: "length (snd (run f s ops)) = length ops"
  by (induction ops arbitrary: s) (simp_all del: run.simps(2))

lemma agree_run:
  "let (l, outs) = run ledger_step new_ledger ops in ledger_inv l \<and> generations_agree l (\<lambda>t. finished t (zip ops outs))"
proof (induction ops rule: rev_induct)
  case Nil
  then show ?case by (simp add: inv_new_ledger) (simp add: generations_agree_def new_ledger_def)
next
  case (snoc op ops)
  obtain l outs where R: "run ledger_step new_ledger ops = (l, outs)" by fastforce
  have n: "length outs = length ops" using length_run [of ledger_step new_ledger ops] by (simp add: R)
  have I: "ledger_inv l" "generations_agree l (\<lambda>t. finished t (zip ops outs))" using snoc by (simp_all add: R)
  then show ?case
    using agree_step [OF I] permits.inv_step [OF I(1)]
    by (simp add: run_snoc R n finished_def case_prod_unfold Let_def)
qed

lemma granted_generations:
  assumes "run ledger_step new_ledger ops = (l, outs)" and "request_acquire ds t route l = (Inr (Inr grant), l')"
  shows "finished t (zip ops outs) = [Gen_CERTIFICATE, Gen_EXPORTER]"
proof -
  obtain r where "map_of (sessions l) t = Some r" "collector_generation r = 2"
    using assms(2) by (auto simp: request_acquire_def active_session_def session_def opaque_token_def reject_def split: if_splits option.splits)
  with agree_run [of ops] show ?thesis by (auto simp: assms(1) generations_agree_def in_order_def)
qed

text \<open>
  C12. No request before attestation: whatever was called before, a request is granted only to a
  session for which, since it was opened, the certificate collection and then the exporter
  collection have been finished with their permits, each once and in this order.
\<close>

theorem granted_after_attestation:
  assumes "run ledger_step new_ledger ops = (l, outs)" and "request_acquire ds t route l = (Inr (Inr grant), l')"
  shows "finished t (zip ops outs) = [Gen_CERTIFICATE, Gen_EXPORTER]"
using assms by (rule granted_generations)

section \<open>Concrete runs\<close>

definition tok :: "char \<Rightarrow> bytes" where "tok c = replicate 32 c"

definition attested :: "char \<Rightarrow> ledger_op list" where
  "attested c = [Session_acquire [zeros 32, tok c], Collector_acquire [tok (CHR ''p'')] (tok c) Gen_CERTIFICATE,
     Collector_finish (tok c) Gen_CERTIFICATE (tok (CHR ''p'')), Collector_acquire [tok (CHR ''q'')] (tok c) Gen_EXPORTER,
     Collector_finish (tok c) Gen_EXPORTER (tok (CHR ''q''))]"

definition worked :: "char \<Rightarrow> ledger_op list" where
  "worked c = [Request_acquire [tok (CHR ''x''), tok (CHR ''y''), tok (CHR ''z'')] (tok c) Route_INFERENCE,
     Work_begin (tok c) (tok (CHR ''y'')), Work_finish (tok c) (tok (CHR ''y''))]"

definition buffers_granted :: "ledger \<Rightarrow> int" where
  "buffers_granted l = int (length (filter (\<lambda>(_, r). buffer_permit r \<noteq> None) (sessions l))) * STREAM_BUFFER_BYTES_V3"

theorem permits_exclusive_witness:
  "length (sessions (fst (run ledger_step new_ledger (attested (CHR ''a''))))) \<le> 4"
  using permits_exclusive [of "attested (CHR ''a'')"] by (simp only: Let_def)

text \<open>
  The aggregate buffer bound is not kept by the ledger: a session that has finished its route
  work gives the slot back but keeps its buffer permit until it releases the request, so three
  sessions in turn obtain stream buffers of together more than \<open>AGGREGATE_BUFFER_BYTES_V3\<close>.
\<close>

theorem buffers_exceed_aggregate:
  "buffers_granted (fst (run ledger_step new_ledger
     (attested (CHR ''a'') @ worked (CHR ''a'') @ attested (CHR ''b'') @ worked (CHR ''b'') @ attested (CHR ''c'') @ worked (CHR ''c''))))
   > AGGREGATE_BUFFER_BYTES_V3"
  by code_simp

theorem granted_after_attestation_witness:
  "\<exists>outs l'. snd (run ledger_step new_ledger (attested (CHR ''a''))) = outs \<and>
     request_acquire [tok (CHR ''x''), tok (CHR ''y''), tok (CHR ''z'')] (tok (CHR ''a'')) Route_ASR
       (fst (run ledger_step new_ledger (attested (CHR ''a'')))) = (Inr (Inr (tok (CHR ''x''), tok (CHR ''y''), tok (CHR ''z''), 2097152)), l') \<and>
     finished (tok (CHR ''a'')) (zip (attested (CHR ''a'')) outs) = [Gen_CERTIFICATE, Gen_EXPORTER]"
proof -
  let ?l = "fst (run ledger_step new_ledger (attested (CHR ''a'')))"
  let ?g = "request_acquire [tok (CHR ''x''), tok (CHR ''y''), tok (CHR ''z'')] (tok (CHR ''a'')) Route_ASR ?l"
  have "fst ?g = Inr (Inr (tok (CHR ''x''), tok (CHR ''y''), tok (CHR ''z''), 2097152))" by code_simp
  then have g: "?g = (Inr (Inr (tok (CHR ''x''), tok (CHR ''y''), tok (CHR ''z''), 2097152)), snd ?g)" by (metis prod.collapse)
  from granted_after_attestation [OF surjective_pairing g] g show ?thesis by blast
qed

end
