(* ===== verification/Session_Owner.thy ===== *)
theory Session_Owner
  imports Complex_Main Boot_Resource "HOL-Library.Multiset"
begin

text \<open>
  \<open>CandidateSessionOwner\<close> of \<open>conf_proc_spp_candidate_session.py\<close>: the controller thread that owns
  the permit ledger and the duplicated sockets of every session. What the kernel and the clock
  answer is in the context of a call; \<open>pinned_open\<close> counts the duplicates that are open.
\<close>

section \<open>State\<close>

datatype owner_error = OwnerRuntimeError string | OwnerValueError string | OwnerTimeout string | OwnerKeyError
  | OwnerOSError | OwnerLedger ledger_error

type_synonym identity = "nat \<times> nat"

text \<open>A socket of the caller, with what the kernel says of it.\<close>

record conn =
  stream :: bool
  accepting :: bool
  connected :: bool
  can_dup :: bool
  can_stat :: bool
  st_identity :: identity

record owned_session =
  deadline_ns :: int
  authorized :: bool
  sockets :: "identity list"

record owner =
  o_ledger :: ledger
  o_thread :: nat
  owned :: "(bytes \<times> owned_session) list"
  selector :: "int list"
  o_closed :: bool
  pinned_open :: int
  clock_reads :: nat

text \<open>
  The context of a call: the calling thread, the readings of the clock, and the sockets whose
  \<open>shutdown\<close> fails with an error number that is not tolerated.
\<close>

record call_context =
  caller :: nat
  readings :: "nat \<Rightarrow> int"
  shutdown_fails :: "identity \<Rightarrow> bool"

type_synonym 'a owner_step = "owner \<Rightarrow> (owner_error + 'a) \<times> owner"

definition MAX_LEASE_NS :: int where "MAX_LEASE_NS = 60000000000"
definition MAX_HANDSHAKE_NS :: int where "MAX_HANDSHAKE_NS = 120000000000"
definition MAX_SESSION_SOCKETS :: nat where "MAX_SESSION_SOCKETS = 3"

definition new_owner :: "ledger \<Rightarrow> nat \<Rightarrow> owner" where
  "new_owner l thread = \<lparr>o_ledger = l, o_thread = thread, owned = [], selector = [], o_closed = False, pinned_open = 0, clock_reads = 0\<rparr>"

definition thenO :: "'a owner_step \<Rightarrow> ('a \<Rightarrow> 'b owner_step) \<Rightarrow> 'b owner_step" where
  "thenO m f ow = (case m ow of (Inl e, ow') \<Rightarrow> (Inl e, ow') | (Inr x, ow') \<Rightarrow> f x ow')"

definition raiseO :: "owner_error \<Rightarrow> 'a owner_step" where "raiseO e ow = (Inl e, ow)"

definition monotonic_ns :: "call_context \<Rightarrow> int owner_step" where
  "monotonic_ns cx ow = (Inr (readings cx (clock_reads ow)), ow\<lparr>clock_reads := clock_reads ow + 1\<rparr>)"

text \<open>\<open>except BaseException: handler; raise\<close>: an exception of the handler replaces the first one.\<close>

definition on_error :: "unit owner_step \<Rightarrow> 'a owner_step \<Rightarrow> 'a owner_step" where
  "on_error handler m ow = (case m ow of
     (Inl e, ow') \<Rightarrow> thenO handler (\<lambda>_. raiseO e) ow'
   | r \<Rightarrow> r)"

section \<open>Operations\<close>

definition check_owner :: "call_context \<Rightarrow> unit owner_step" where
  "check_owner cx ow = (if o_thread ow \<noteq> caller cx \<or> o_closed ow
     then (Inl (OwnerRuntimeError ''candidate session owner unavailable''), ow) else (Inr (), ow))"

definition lookup_session :: "bytes \<Rightarrow> owned_session owner_step" where
  "lookup_session t ow = (case map_of (owned ow) t of None \<Rightarrow> (Inl OwnerKeyError, ow) | Some s \<Rightarrow> (Inr s, ow))"

definition revoke_all :: "call_context \<Rightarrow> unit owner_step" where
  "revoke_all cx = thenO (check_owner cx) (\<lambda>_ ow.
     let pinned = concat (map (\<lambda>(_, s). sockets s) (owned ow));
         ow' = ow\<lparr>owned := [], pinned_open := pinned_open ow - int (length pinned), o_ledger := global_revoke (o_ledger ow)\<rparr>
     in if list_ex (shutdown_fails cx) pinned then (Inl OwnerOSError, ow') else (Inr (), ow'))"

definition release :: "call_context \<Rightarrow> bytes \<Rightarrow> unit owner_step" where
  "release cx t = thenO (check_owner cx) (\<lambda>_. thenO (lookup_session t) (\<lambda>s ow.
     let ow1 = ow\<lparr>owned := AList.delete t (owned ow), pinned_open := pinned_open ow - int (length (sockets s))\<rparr>
     in case session_release t (o_ledger ow1) of
          (Inl e, l) \<Rightarrow> thenO (revoke_all cx) (\<lambda>_. raiseO (OwnerLedger e)) (ow1\<lparr>o_ledger := l\<rparr>)
        | (Inr _, l) \<Rightarrow>
            if list_ex (shutdown_fails cx) (sockets s)
            then thenO (revoke_all cx) (\<lambda>_. raiseO OwnerOSError) (ow1\<lparr>o_ledger := l\<rparr>)
            else (Inr (), ow1\<lparr>o_ledger := l\<rparr>)))"

definition set_owned :: "bytes \<Rightarrow> owned_session \<Rightarrow> owner \<Rightarrow> owner" where
  "set_owned t s ow = ow\<lparr>owned := AList.update t s (owned ow)\<rparr>"

definition already_owned :: "identity \<Rightarrow> owner \<Rightarrow> bool" where
  "already_owned i ow \<longleftrightarrow> list_ex (\<lambda>(_, s). i \<in> set (sockets s)) (owned ow)"

text \<open>A duplicate is taken, and closed again if its identity cannot be read or is owned already.\<close>

definition pin :: "bytes \<Rightarrow> owned_session \<Rightarrow> conn \<Rightarrow> unit owner_step" where
  "pin t s c ow =
     (let ow1 = ow\<lparr>pinned_open := pinned_open ow + 1\<rparr>;
          undo = ow1\<lparr>pinned_open := pinned_open ow1 - 1\<rparr>
      in if \<not> can_stat c then (Inl OwnerOSError, undo)
         else if already_owned (st_identity c) ow1 then (Inl (OwnerValueError ''socket already owned''), undo)
         else (Inr (), set_owned t (s\<lparr>sockets := sockets s @ [st_identity c]\<rparr>) ow1))"

definition attach :: "call_context \<Rightarrow> bytes \<Rightarrow> conn \<Rightarrow> unit owner_step" where
  "attach cx t c = thenO (check_owner cx) (\<lambda>_. thenO (lookup_session t) (\<lambda>s.
     thenO (monotonic_ns cx) (\<lambda>now.
       if now \<ge> deadline_ns s then thenO (release cx t) (\<lambda>_. raiseO (OwnerTimeout ''candidate lease expired''))
       else if length (sockets s) \<ge> MAX_SESSION_SOCKETS then raiseO (OwnerValueError ''candidate socket limit'')
       else if \<not> stream c \<or> accepting c then raiseO (OwnerValueError ''candidate requires a connected stream'')
       else if \<not> connected c \<or> \<not> can_dup c then raiseO OwnerOSError
       else pin t s c)))"

definition adopt_session :: "call_context \<Rightarrow> bytes \<Rightarrow> conn \<Rightarrow> int \<Rightarrow> bool \<Rightarrow> unit owner_step" where
  "adopt_session cx t c deadline auth = thenO (check_owner cx) (\<lambda>_. thenO (monotonic_ns cx) (\<lambda>now ow.
     let bound = (if auth then MAX_LEASE_NS else MAX_HANDSHAKE_NS)
     in if \<not> (now < deadline \<and> deadline \<le> now + bound) \<or> map_of (sessions (o_ledger ow)) t = None \<or> map_of (owned ow) t \<noteq> None
        then (Inl (OwnerValueError ''invalid candidate lease or session''), ow)
        else on_error (\<lambda>ow. if map_of (owned ow) t \<noteq> None then release cx t ow else (Inr (), ow)) (attach cx t c)
               (set_owned t \<lparr>deadline_ns = deadline, authorized = auth, sockets = []\<rparr> ow)))"

definition begin_handshake :: "call_context \<Rightarrow> bytes \<Rightarrow> conn \<Rightarrow> unit owner_step" where
  "begin_handshake cx t c = thenO (monotonic_ns cx) (\<lambda>now. adopt_session cx t c (now + MAX_HANDSHAKE_NS) False)"

definition adopt :: "call_context \<Rightarrow> bytes \<Rightarrow> conn \<Rightarrow> int \<Rightarrow> unit owner_step" where
  "adopt cx t c deadline = adopt_session cx t c deadline True"

definition authorize :: "call_context \<Rightarrow> bytes \<Rightarrow> int \<Rightarrow> unit owner_step" where
  "authorize cx t deadline = thenO (check_owner cx) (\<lambda>_. thenO (lookup_session t) (\<lambda>s.
     thenO (monotonic_ns cx) (\<lambda>now.
       if now \<ge> deadline_ns s then thenO (release cx t) (\<lambda>_. raiseO (OwnerTimeout ''candidate handshake expired''))
       else if authorized s \<or> \<not> (now < deadline \<and> deadline \<le> now + MAX_LEASE_NS)
       then raiseO (OwnerValueError ''candidate lease is invalid or already consumed'')
       else (\<lambda>ow. (Inr (), set_owned t (s\<lparr>deadline_ns := deadline, authorized := True\<rparr>) ow)))))"

definition owner_request_acquire :: "call_context \<Rightarrow> bytes list \<Rightarrow> bytes \<Rightarrow> RouteV3 \<Rightarrow> (RequestRejectReasonV3 + grant) owner_step" where
  "owner_request_acquire cx ds t route = thenO (check_owner cx) (\<lambda>_. thenO (lookup_session t) (\<lambda>s.
     thenO (monotonic_ns cx) (\<lambda>now.
       if now \<ge> deadline_ns s then thenO (release cx t) (\<lambda>_. raiseO (OwnerTimeout ''candidate session expired''))
       else if \<not> authorized s then raiseO (OwnerRuntimeError ''candidate channel has no appraised lease'')
       else (\<lambda>ow. case request_acquire ds t route (o_ledger ow) of
            (Inl e, l) \<Rightarrow> (Inl (OwnerLedger e), ow\<lparr>o_ledger := l\<rparr>)
          | (Inr g, l) \<Rightarrow> (Inr g, ow\<lparr>o_ledger := l\<rparr>)))))"

text \<open>\<open>detach\<close>: the duplicate is closed in the \<open>finally\<close> block, also when everything is revoked.\<close>

definition detach :: "call_context \<Rightarrow> bytes \<Rightarrow> conn \<Rightarrow> unit owner_step" where
  "detach cx t c = thenO (check_owner cx) (\<lambda>_.
     if \<not> can_stat c then raiseO OwnerOSError
     else thenO (lookup_session t) (\<lambda>s ow.
       if st_identity c \<notin> set (sockets s) then (Inl OwnerKeyError, ow)
       else let ow1 = set_owned t (s\<lparr>sockets := remove1 (st_identity c) (sockets s)\<rparr>) ow;
                (r, ow2) = (if shutdown_fails cx (st_identity c) then thenO (revoke_all cx) (\<lambda>_. raiseO OwnerOSError) ow1 else (Inr (), ow1))
            in (r, ow2\<lparr>pinned_open := pinned_open ow2 - 1\<rparr>)))"

fun expire_all :: "call_context \<Rightarrow> int \<Rightarrow> (bytes \<times> owned_session) list \<Rightarrow> unit owner_step" where
  "expire_all cx now [] ow = (Inr (), ow)"
| "expire_all cx now ((t, s) # xs) ow =
     (if now \<ge> deadline_ns s then thenO (release cx t) (\<lambda>_. expire_all cx now xs) ow else expire_all cx now xs ow)"

definition expire :: "call_context \<Rightarrow> unit owner_step" where
  "expire cx = thenO (check_owner cx) (\<lambda>_. thenO (monotonic_ns cx) (\<lambda>now ow. expire_all cx now (owned ow) ow))"

definition register :: "call_context \<Rightarrow> int \<Rightarrow> unit owner_step" where
  "register cx fd = thenO (check_owner cx) (\<lambda>_ ow.
     if fd < 0 then (Inl (OwnerValueError ''Invalid file descriptor''), ow)
     else if fd \<in> set (selector ow) then (Inl OwnerKeyError, ow) else (Inr (), ow\<lparr>selector := selector ow @ [fd]\<rparr>))"

definition unregister :: "call_context \<Rightarrow> int \<Rightarrow> unit owner_step" where
  "unregister cx fd = thenO (check_owner cx) (\<lambda>_ ow.
     if fd \<notin> set (selector ow) then (Inl OwnerKeyError, ow) else (Inr (), ow\<lparr>selector := remove1 fd (selector ow)\<rparr>))"

text \<open>The timeout handed to \<open>select\<close>: not beyond the earliest deadline.\<close>

definition select_timeout :: "call_context \<Rightarrow> rat \<Rightarrow> rat owner_step" where
  "select_timeout cx maximum ow =
     (if owned ow = [] then (Inr maximum, ow)
      else let next_ns = Min (set (map (\<lambda>(_, s). deadline_ns s) (owned ow)))
           in thenO (monotonic_ns cx) (\<lambda>now ow. (Inr (min maximum (of_int (max 0 (next_ns - now)) / 1000000000)), ow)) ow)"

definition wait :: "call_context \<Rightarrow> rat \<Rightarrow> (rat \<Rightarrow> 'ev list) \<Rightarrow> 'ev list owner_step" where
  "wait cx maximum select = thenO (check_owner cx) (\<lambda>_.
     if \<not> (0 \<le> maximum \<and> maximum \<le> 1) then raiseO (OwnerValueError ''unbounded candidate controller wait'')
     else thenO (expire cx) (\<lambda>_. thenO (select_timeout cx maximum) (\<lambda>timeout.
       let events = select timeout in thenO (expire cx) (\<lambda>_ ow. (Inr events, ow)))))"

definition close_owner :: "call_context \<Rightarrow> unit owner_step" where
  "close_owner cx = thenO (check_owner cx) (\<lambda>_ ow.
     case revoke_all cx ow of (r, ow') \<Rightarrow> (r, ow'\<lparr>selector := [], o_closed := True\<rparr>))"

section \<open>The sockets of all sessions\<close>

declare map_of_eq_Some_iff [simp del] Some_eq_map_of_iff [simp del]

definition pinned :: "(bytes \<times> owned_session) list \<Rightarrow> identity list" where
  "pinned al = concat (map (\<lambda>(_, s). sockets s) al)"

lemma pinned_simps [simp]: "pinned [] = []" "pinned ((t, s) # al) = sockets s @ pinned al"
  by (simp_all add: pinned_def)

lemma delete_absent: "k \<notin> fst ` set al \<Longrightarrow> AList.delete k al = al"
  by (induction al) auto

lemma pinned_delete:
  "distinct (map fst al) \<Longrightarrow> map_of al t = Some s \<Longrightarrow> mset (pinned al) = mset (sockets s @ pinned (AList.delete t al))"
  by (induction al) (auto simp: delete_absent)

lemma pinned_update:
  "distinct (map fst al) \<Longrightarrow> mset (pinned (AList.update t s al)) = mset (sockets s @ pinned (AList.delete t al))"
  by (induction al) (auto simp: delete_absent)

lemma mem_pinned: "i \<in> set (pinned al) \<longleftrightarrow> list_ex (\<lambda>(_, s). i \<in> set (sockets s)) al"
  by (induction al) auto

section \<open>The invariant\<close>

definition lease_bound :: "owned_session \<Rightarrow> int" where
  "lease_bound s = (if authorized s then MAX_LEASE_NS else MAX_HANDSHAKE_NS)"

definition session_ok :: "(nat \<Rightarrow> int) \<Rightarrow> nat \<Rightarrow> owned_session \<Rightarrow> bool" where
  "session_ok clk n s \<longleftrightarrow> length (sockets s) \<le> MAX_SESSION_SOCKETS \<and> (\<exists>k < n. deadline_ns s \<le> clk k + lease_bound s)"

definition reachable_ledger :: "ledger \<Rightarrow> bool" where
  "reachable_ledger l \<longleftrightarrow> (\<exists>ops. l = fst (run ledger_step new_ledger ops))"

text \<open>
  No socket is owned twice and every open duplicate belongs to a session; a session has at most
  three, and its deadline is within its bound of some reading of the clock.
\<close>

definition owner_inv :: "(nat \<Rightarrow> int) \<Rightarrow> owner \<Rightarrow> bool" where
  "owner_inv clk ow \<longleftrightarrow> distinct (map fst (owned ow)) \<and> distinct (pinned (owned ow)) \<and>
     pinned_open ow = int (length (pinned (owned ow))) \<and> (o_closed ow \<longrightarrow> owned ow = []) \<and>
     (\<forall>t s. map_of (owned ow) t = Some s \<longrightarrow> session_ok clk (clock_reads ow) s) \<and> reachable_ledger (o_ledger ow)"

lemma reachable_step: "reachable_ledger l \<Longrightarrow> reachable_ledger (fst (ledger_step l op))"
proof -
  assume "reachable_ledger l"
  then obtain ops where "l = fst (run ledger_step new_ledger ops)" by (auto simp: reachable_ledger_def)
  then have "fst (ledger_step l op) = fst (run ledger_step new_ledger (ops @ [op]))" by (simp add: run_snoc Let_def case_prod_unfold)
  then show ?thesis unfolding reachable_ledger_def by blast
qed

lemma reachable_release: "reachable_ledger l \<Longrightarrow> reachable_ledger (snd (session_release t l))"
  using reachable_step [of l "Session_release t"] by (simp add: case_prod_unfold)

lemma reachable_request: "reachable_ledger l \<Longrightarrow> reachable_ledger (snd (request_acquire ds t route l))"
  using reachable_step [of l "Request_acquire ds t route"] by (simp add: case_prod_unfold)

lemma reachable_revoke: "reachable_ledger l \<Longrightarrow> reachable_ledger (global_revoke l)"
  using reachable_step [of l Global_revoke] by simp

lemma session_ok_later: "session_ok clk n s \<Longrightarrow> session_ok clk (Suc n) s"
  unfolding session_ok_def using less_SucI by blast

lemma inv_read: "owner_inv clk ow \<Longrightarrow> owner_inv clk (ow\<lparr>clock_reads := Suc (clock_reads ow)\<rparr>)"
  by (auto simp: owner_inv_def session_ok_later)

lemma inv_ledger: "owner_inv clk ow \<Longrightarrow> reachable_ledger l \<Longrightarrow> owner_inv clk (ow\<lparr>o_ledger := l\<rparr>)"
  by (simp add: owner_inv_def)

lemma inv_selector: "owner_inv clk ow \<Longrightarrow> owner_inv clk (ow\<lparr>selector := fds\<rparr>)"
  by (simp add: owner_inv_def)

lemma inv_session: "owner_inv clk ow \<Longrightarrow> map_of (owned ow) t = Some s \<Longrightarrow> session_ok clk (clock_reads ow) s"
  by (simp add: owner_inv_def)

text \<open>A session goes, or its record changes.\<close>

lemma inv_drop:
  assumes "owner_inv clk ow" "map_of (owned ow) t = Some s"
  shows "owner_inv clk (ow\<lparr>owned := AList.delete t (owned ow), pinned_open := pinned_open ow - int (length (sockets s))\<rparr>)"
proof -
  have m: "mset (pinned (owned ow)) = mset (sockets s @ pinned (AList.delete t (owned ow)))"
    using assms by (intro pinned_delete) (auto simp: owner_inv_def)
  have d: "distinct (sockets s @ pinned (AList.delete t (owned ow)))"
    using assms(1) mset_eq_imp_distinct_iff [OF m] by (simp add: owner_inv_def)
  show ?thesis
    using assms d mset_eq_length [OF m] by (auto simp: owner_inv_def AList.distinct_delete AList.delete_conv' split: if_splits)
qed

lemma inv_change:
  assumes "owner_inv clk ow" "\<not> o_closed ow" "session_ok clk (clock_reads ow) s'"
    and "distinct (sockets s' @ pinned (AList.delete t (owned ow)))" "n = int (length (sockets s') + length (pinned (AList.delete t (owned ow))))"
  shows "owner_inv clk ((set_owned t s' ow)\<lparr>pinned_open := n\<rparr>)"
proof -
  have m: "mset (pinned (AList.update t s' (owned ow))) = mset (sockets s' @ pinned (AList.delete t (owned ow)))"
    using assms(1) by (intro pinned_update) (simp add: owner_inv_def)
  show ?thesis
    using assms mset_eq_imp_distinct_iff [OF m] mset_eq_length [OF m]
    by (auto simp: owner_inv_def set_owned_def AList.distinct_update AList.update_conv' split: if_splits)
qed

lemma inv_split:
  assumes "owner_inv clk ow" "map_of (owned ow) t = Some s"
  shows "distinct (sockets s @ pinned (AList.delete t (owned ow)))"
    and "pinned_open ow = int (length (sockets s) + length (pinned (AList.delete t (owned ow))))"
    and "set (pinned (owned ow)) = set (sockets s) \<union> set (pinned (AList.delete t (owned ow)))"
proof -
  have m: "mset (pinned (owned ow)) = mset (sockets s @ pinned (AList.delete t (owned ow)))"
    using assms by (intro pinned_delete) (auto simp: owner_inv_def)
  show "distinct (sockets s @ pinned (AList.delete t (owned ow)))"
    using assms(1) mset_eq_imp_distinct_iff [OF m] by (simp add: owner_inv_def)
  show "pinned_open ow = int (length (sockets s) + length (pinned (AList.delete t (owned ow))))"
    using assms(1) mset_eq_length [OF m] by (simp add: owner_inv_def)
  show "set (pinned (owned ow)) = set (sockets s) \<union> set (pinned (AList.delete t (owned ow)))"
    using mset_eq_setD [OF m] by simp
qed

lemma inv_same_sockets:
  assumes "owner_inv clk ow" "map_of (owned ow) t = Some s" "session_ok clk (clock_reads ow) s'" "sockets s' = sockets s"
  shows "owner_inv clk (set_owned t s' ow)"
proof -
  have c: "\<not> o_closed ow" using assms(1,2) by (auto simp: owner_inv_def)
  have "owner_inv clk ((set_owned t s' ow)\<lparr>pinned_open := pinned_open ow\<rparr>)"
    using inv_split(1,2) [OF assms(1,2)] assms(4) by (intro inv_change [OF assms(1) c assms(3)]) simp_all
  then show ?thesis by (simp add: set_owned_def)
qed

section \<open>Every operation keeps it\<close>

definition keeps :: "(nat \<Rightarrow> int) \<Rightarrow> 'a owner_step \<Rightarrow> bool" where
  "keeps clk m \<longleftrightarrow> (\<forall>ow. owner_inv clk ow \<longrightarrow> owner_inv clk (snd (m ow)))"

lemma keeps_intro: "(\<And>ow. owner_inv clk ow \<Longrightarrow> owner_inv clk (snd (m ow))) \<Longrightarrow> keeps clk m"
  by (simp add: keeps_def)

lemma keeps_elim: "keeps clk m \<Longrightarrow> owner_inv clk ow \<Longrightarrow> owner_inv clk (snd (m ow))"
  by (simp add: keeps_def)

lemma keeps_then: "keeps clk m \<Longrightarrow> (\<And>x. keeps clk (f x)) \<Longrightarrow> keeps clk (thenO m f)"
  unfolding keeps_def thenO_def by (fastforce split: sum.splits prod.splits)

lemma keeps_raise: "keeps clk (raiseO e)"
  by (simp add: keeps_def raiseO_def)

lemma keeps_check: "(\<And>ow. owner_inv clk ow \<Longrightarrow> \<not> o_closed ow \<Longrightarrow> o_thread ow = caller cx \<Longrightarrow> owner_inv clk (snd (f () ow))) \<Longrightarrow> keeps clk (thenO (check_owner cx) f)"
  by (auto simp: keeps_def thenO_def check_owner_def)

lemma keeps_lookup:
  "owner_inv clk ow \<Longrightarrow> (\<And>s. map_of (owned ow) t = Some s \<Longrightarrow> owner_inv clk (snd (f s ow))) \<Longrightarrow> owner_inv clk (snd (thenO (lookup_session t) f ow))"
  by (auto simp: thenO_def lookup_session_def split: option.splits)

lemma keeps_clock:
  assumes "owner_inv clk ow"
    and "\<And>ow'. ow' = ow\<lparr>clock_reads := Suc (clock_reads ow)\<rparr> \<Longrightarrow> owner_inv clk ow' \<Longrightarrow>
      owner_inv clk (snd (f (readings cx (clock_reads ow)) ow'))"
  shows "owner_inv clk (snd (thenO (monotonic_ns cx) f ow))"
  using assms(2) [OF refl inv_read [OF assms(1)]] by (simp add: thenO_def monotonic_ns_def)

lemma keeps_revoke_all: "keeps clk (revoke_all cx)"
  unfolding revoke_all_def
  by (rule keeps_check) (auto simp: owner_inv_def Let_def reachable_revoke pinned_def [symmetric])

lemma keeps_release: "keeps clk (release cx t)"
  unfolding release_def
proof (rule keeps_check, rule keeps_lookup, assumption)
  fix ow s assume ow: "owner_inv clk ow" and s: "map_of (owned ow) t = Some s"
  define ow1 where "ow1 = ow\<lparr>owned := AList.delete t (owned ow), pinned_open := pinned_open ow - int (length (sockets s))\<rparr>"
  have i: "owner_inv clk (ow1\<lparr>o_ledger := snd (session_release t (o_ledger ow1))\<rparr>)"
    using inv_drop [OF ow s] ow unfolding ow1_def by (intro inv_ledger) (auto simp: owner_inv_def reachable_release)
  have k: "owner_inv clk (snd (thenO (revoke_all cx) (\<lambda>_. raiseO e) (ow1\<lparr>o_ledger := snd (session_release t (o_ledger ow1))\<rparr>)))" for e
    by (rule keeps_elim [OF _ i]) (intro keeps_then keeps_revoke_all keeps_raise)
  show "owner_inv clk (snd (let ow1 = ow\<lparr>owned := AList.delete t (owned ow), pinned_open := pinned_open ow - int (length (sockets s))\<rparr>
     in case session_release t (o_ledger ow1) of
          (Inl e, l) \<Rightarrow> thenO (revoke_all cx) (\<lambda>_. raiseO (OwnerLedger e)) (ow1\<lparr>o_ledger := l\<rparr>)
        | (Inr _, l) \<Rightarrow>
            if list_ex (shutdown_fails cx) (sockets s)
            then thenO (revoke_all cx) (\<lambda>_. raiseO OwnerOSError) (ow1\<lparr>o_ledger := l\<rparr>)
            else (Inr (), ow1\<lparr>o_ledger := l\<rparr>)))"
    using i k unfolding Let_def ow1_def [symmetric] by (auto split: prod.splits sum.splits)
qed

lemma keeps_release_then: "owner_inv clk ow \<Longrightarrow> owner_inv clk (snd (thenO (release cx t) (\<lambda>_. raiseO e) ow))"
  by (rule keeps_elim) (intro keeps_then keeps_release keeps_raise)

lemma keeps_pin:
  assumes ow: "owner_inv clk ow" and s: "map_of (owned ow) t = Some s" and n: "length (sockets s) < MAX_SESSION_SOCKETS"
  shows "owner_inv clk (snd (pin t s c ow))"
proof -
  have undo: "ow\<lparr>pinned_open := pinned_open ow + 1 - 1\<rparr> = ow" by simp
  have cl: "\<not> o_closed ow" using ow s by (auto simp: owner_inv_def)
  let ?s = "s\<lparr>sockets := sockets s @ [st_identity c]\<rparr>"
  have "owner_inv clk ((set_owned t ?s ow)\<lparr>pinned_open := pinned_open ow + 1\<rparr>)" if "\<not> already_owned (st_identity c) ow"
  proof (rule inv_change [OF ow cl])
    show "session_ok clk (clock_reads ow) ?s"
      using ow s n by (auto simp: owner_inv_def session_ok_def lease_bound_def)
    have "st_identity c \<notin> set (pinned (owned ow))" using that by (simp add: already_owned_def mem_pinned)
    then show "distinct (sockets ?s @ pinned (AList.delete t (owned ow)))" using inv_split(1,3) [OF ow s] by auto
    show "pinned_open ow + 1 = int (length (sockets ?s) + length (pinned (AList.delete t (owned ow))))" using inv_split(2) [OF ow s] by simp
  qed
  moreover have "set_owned t ?s (ow\<lparr>pinned_open := pinned_open ow + 1\<rparr>) = (set_owned t ?s ow)\<lparr>pinned_open := pinned_open ow + 1\<rparr>"
    by (simp add: set_owned_def)
  ultimately show ?thesis using ow undo by (simp add: pin_def Let_def already_owned_def)
qed

lemma keeps_attach: "keeps clk (attach cx t c)"
  unfolding attach_def
  by (rule keeps_check, rule keeps_lookup, assumption, rule keeps_clock, assumption)
    (auto simp: keeps_release_then raiseO_def intro!: keeps_pin)

lemma keeps_on_error: "keeps clk h \<Longrightarrow> keeps clk m \<Longrightarrow> keeps clk (on_error h m)"
  unfolding on_error_def thenO_def raiseO_def keeps_def by (fastforce split: sum.splits prod.splits)

lemma inv_new_session:
  assumes "owner_inv clk ow" "\<not> o_closed ow" "map_of (owned ow) t = None" "session_ok clk (clock_reads ow) s" "sockets s = []"
  shows "owner_inv clk (set_owned t s ow)"
proof -
  have d: "AList.delete t (owned ow) = owned ow" using assms(3) by (simp add: delete_absent map_of_eq_None_iff)
  have "owner_inv clk ((set_owned t s ow)\<lparr>pinned_open := pinned_open ow\<rparr>)"
    using assms by (intro inv_change) (auto simp: d owner_inv_def)
  then show ?thesis by (simp add: set_owned_def)
qed

lemma keeps_adopt_session:
  assumes "readings cx = clk"
  shows "keeps clk (adopt_session cx t c deadline auth)"
  unfolding adopt_session_def
proof (rule keeps_check, rule keeps_clock, assumption)
  fix ow ow' assume cl: "\<not> o_closed ow" and ow': "ow' = ow\<lparr>clock_reads := Suc (clock_reads ow)\<rparr>" "owner_inv clk ow'"
  let ?s = "\<lparr>deadline_ns = deadline, authorized = auth, sockets = []\<rparr>"
  let ?now = "readings cx (clock_reads ow)"
  let ?h = "\<lambda>ow. if map_of (owned ow) t \<noteq> None then release cx t ow else (Inr (), ow)"
  have h: "keeps clk ?h" by (intro keeps_intro) (auto intro: keeps_elim [OF keeps_release])
  have "owner_inv clk (snd (on_error ?h (attach cx t c) (set_owned t ?s ow')))"
    if "deadline \<le> ?now + (if auth then MAX_LEASE_NS else MAX_HANDSHAKE_NS)" "map_of (owned ow') t = None"
    using that cl ow' assms
    by (intro keeps_elim [OF keeps_on_error [OF h keeps_attach]] inv_new_session) (auto simp: session_ok_def lease_bound_def)
  then show "owner_inv clk (snd (let bound = if auth then MAX_LEASE_NS else MAX_HANDSHAKE_NS
     in if \<not> (?now < deadline \<and> deadline \<le> ?now + bound) \<or> map_of (sessions (o_ledger ow')) t = None \<or> map_of (owned ow') t \<noteq> None
        then (Inl (OwnerValueError ''invalid candidate lease or session''), ow')
        else on_error ?h (attach cx t c) (set_owned t ?s ow')))"
    using ow'(2) by (auto simp: Let_def)
qed

lemma keeps_begin_handshake: "readings cx = clk \<Longrightarrow> keeps clk (begin_handshake cx t c)"
  unfolding begin_handshake_def by (intro keeps_intro keeps_clock) (auto intro: keeps_elim [OF keeps_adopt_session])

lemma session_ok_authorized:
  "owner_inv clk ow \<Longrightarrow> map_of (owned ow) t = Some s \<Longrightarrow> deadline \<le> clk n + MAX_LEASE_NS \<Longrightarrow>
   session_ok clk (Suc n) (s\<lparr>deadline_ns := deadline, authorized := True\<rparr>)"
  by (auto simp: owner_inv_def session_ok_def lease_bound_def)

lemma keeps_authorize: "readings cx = clk \<Longrightarrow> keeps clk (authorize cx t deadline)"
  unfolding authorize_def
  by (rule keeps_check, rule keeps_lookup, assumption, rule keeps_clock, assumption)
    (auto simp: keeps_release_then raiseO_def intro!: inv_same_sockets session_ok_authorized)

lemma keeps_owner_request_acquire: "keeps clk (owner_request_acquire cx ds t route)"
  unfolding owner_request_acquire_def
proof (rule keeps_check, rule keeps_lookup, assumption, rule keeps_clock, assumption)
  fix ow ow' s assume ow': "owner_inv clk ow'"
  have "owner_inv clk (ow'\<lparr>o_ledger := snd (request_acquire ds t route (o_ledger ow'))\<rparr>)"
    using ow' by (intro inv_ledger) (auto simp: owner_inv_def reachable_request)
  then show "owner_inv clk (snd ((if readings cx (clock_reads ow) \<ge> deadline_ns s
       then thenO (release cx t) (\<lambda>_. raiseO (OwnerTimeout ''candidate session expired''))
       else if \<not> authorized s then raiseO (OwnerRuntimeError ''candidate channel has no appraised lease'')
       else (\<lambda>ow. case request_acquire ds t route (o_ledger ow) of
            (Inl e, l) \<Rightarrow> (Inl (OwnerLedger e), ow\<lparr>o_ledger := l\<rparr>)
          | (Inr g, l) \<Rightarrow> (Inr g, ow\<lparr>o_ledger := l\<rparr>))) ow'))"
    using ow' by (auto simp: keeps_release_then raiseO_def split: prod.splits sum.splits)
qed

lemma keeps_detach: "keeps clk (detach cx t c)"
  unfolding detach_def
proof (rule keeps_check)
  fix ow assume ow: "owner_inv clk ow" and cl: "\<not> o_closed ow"
  let ?i = "st_identity c"
  define body where "body = (\<lambda>s ow. if ?i \<notin> set (sockets s) then (Inl OwnerKeyError, ow)
       else let ow1 = set_owned t (s\<lparr>sockets := remove1 ?i (sockets s)\<rparr>) ow;
                (r, ow2) = (if shutdown_fails cx ?i then thenO (revoke_all cx) (\<lambda>_. raiseO OwnerOSError) ow1 else (Inr (), ow1))
            in (r, ow2\<lparr>pinned_open := pinned_open ow2 - 1\<rparr>))"
  have "owner_inv clk (snd (body s ow))" if s: "map_of (owned ow) t = Some s" for s
  proof (cases "?i \<in> set (sockets s)")
    case True
    let ?s = "s\<lparr>sockets := remove1 ?i (sockets s)\<rparr>"
    let ?ow = "(set_owned t ?s ow)\<lparr>pinned_open := pinned_open ow - 1\<rparr>"
    have n: "length (sockets s) = Suc (length (remove1 ?i (sockets s)))" using True length_pos_if_in_set [OF True] by (simp add: length_remove1)
    have i: "owner_inv clk ?ow"
    proof (rule inv_change [OF ow cl])
      show "session_ok clk (clock_reads ow) ?s" using inv_session [OF ow s] n by (auto simp: session_ok_def lease_bound_def)
      show "distinct (sockets ?s @ pinned (AList.delete t (owned ow)))"
        using inv_split(1) [OF ow s] set_remove1_subset [of ?i "sockets s"] by (auto simp: distinct_remove1)
      show "pinned_open ow - 1 = int (length (sockets ?s) + length (pinned (AList.delete t (owned ow))))"
        using inv_split(2) [OF ow s] n by simp
    qed
    let ?fail = "thenO (revoke_all cx) (\<lambda>_. raiseO OwnerOSError) :: unit owner_step"
    have "snd (?fail (set_owned t ?s ow))\<lparr>pinned_open := pinned_open (snd (?fail (set_owned t ?s ow))) - 1\<rparr> = snd (?fail ?ow)"
      by (auto simp: revoke_all_def thenO_def check_owner_def raiseO_def set_owned_def Let_def)
    moreover have "owner_inv clk (snd (?fail ?ow))"
      by (rule keeps_elim [OF _ i]) (intro keeps_then keeps_revoke_all keeps_raise)
    ultimately show ?thesis using True i by (simp add: body_def Let_def case_prod_unfold set_owned_def)
  qed (use ow in \<open>simp add: body_def\<close>)
  then have "owner_inv clk (snd (thenO (lookup_session t) body ow))" by (intro keeps_lookup ow)
  then show "owner_inv clk (snd ((if \<not> can_stat c then raiseO OwnerOSError else thenO (lookup_session t) (\<lambda>s ow.
       if ?i \<notin> set (sockets s) then (Inl OwnerKeyError, ow)
       else let ow1 = set_owned t (s\<lparr>sockets := remove1 ?i (sockets s)\<rparr>) ow;
                (r, ow2) = (if shutdown_fails cx ?i then thenO (revoke_all cx) (\<lambda>_. raiseO OwnerOSError) ow1 else (Inr (), ow1))
            in (r, ow2\<lparr>pinned_open := pinned_open ow2 - 1\<rparr>))) ow))"
    using ow unfolding body_def [symmetric] by (simp add: raiseO_def)
qed

lemma keeps_expire_all: "keeps clk (expire_all cx now xs)"
proof (induction xs)
  case (Cons x xs)
  from keeps_then [OF keeps_release Cons] Cons show ?case by (cases x) (auto simp: keeps_def)
qed (simp add: keeps_def)

lemma keeps_expire: "keeps clk (expire cx)"
  unfolding expire_def by (rule keeps_check, rule keeps_clock, assumption) (rule keeps_elim [OF keeps_expire_all])

lemma keeps_select_timeout: "keeps clk (select_timeout cx maximum)"
  by (auto simp: keeps_def select_timeout_def Let_def intro!: keeps_clock)

lemma keeps_wait: "keeps clk (wait cx maximum select)"
  unfolding wait_def Let_def
  by (rule keeps_check) (auto simp: raiseO_def intro!: keeps_elim [OF keeps_then [OF keeps_expire keeps_then [OF keeps_select_timeout keeps_then [OF keeps_expire]]]] keeps_intro)

lemma keeps_close_owner: "keeps clk (close_owner cx)"
  unfolding close_owner_def
proof (rule keeps_check)
  fix ow assume ow: "owner_inv clk ow" "\<not> o_closed ow" "o_thread ow = caller cx"
  have "owned (snd (revoke_all cx ow)) = []" using ow by (simp add: revoke_all_def thenO_def check_owner_def Let_def)
  moreover note keeps_elim [OF keeps_revoke_all [of clk cx] ow(1)]
  ultimately show "owner_inv clk (snd (case revoke_all cx ow of (r, ow') \<Rightarrow> (r, ow'\<lparr>selector := [], o_closed := True\<rparr>)))"
    by (auto simp: owner_inv_def case_prod_unfold)
qed

section \<open>Sequences of calls\<close>

text \<open>
  The calls of the controller: those of the owner, each from some thread and with some sockets
  that fail to shut down, and the calls it makes to the ledger directly.
\<close>

datatype owner_op = Begin_handshake bytes conn | Adopt bytes conn int | Authorize bytes int
  | Owner_request "bytes list" bytes RouteV3 | Attach bytes conn | Detach bytes conn | Release bytes | Expire
  | Register int | Unregister int | Wait rat | Revoke_all | Close_owner | Ledger_call ledger_op

fun owner_call :: "call_context \<Rightarrow> owner_op \<Rightarrow> owner \<Rightarrow> owner" where
  "owner_call cx (Begin_handshake t c) ow = snd (begin_handshake cx t c ow)"
| "owner_call cx (Adopt t c d) ow = snd (adopt cx t c d ow)"
| "owner_call cx (Authorize t d) ow = snd (authorize cx t d ow)"
| "owner_call cx (Owner_request ds t route) ow = snd (owner_request_acquire cx ds t route ow)"
| "owner_call cx (Attach t c) ow = snd (attach cx t c ow)"
| "owner_call cx (Detach t c) ow = snd (detach cx t c ow)"
| "owner_call cx (Release t) ow = snd (release cx t ow)"
| "owner_call cx Expire ow = snd (expire cx ow)"
| "owner_call cx (Register fd) ow = snd (register cx fd ow)"
| "owner_call cx (Unregister fd) ow = snd (unregister cx fd ow)"
| "owner_call cx (Wait maximum) ow = snd (wait cx maximum (\<lambda>_. ([] :: unit list)) ow)"
| "owner_call cx Revoke_all ow = snd (revoke_all cx ow)"
| "owner_call cx Close_owner ow = snd (close_owner cx ow)"
| "owner_call cx (Ledger_call op) ow = ow\<lparr>o_ledger := fst (ledger_step (o_ledger ow) op)\<rparr>"

type_synonym owner_event = "(nat \<times> (identity \<Rightarrow> bool)) \<times> owner_op"

definition owner_event_step :: "(nat \<Rightarrow> int) \<Rightarrow> owner \<Rightarrow> owner_event \<Rightarrow> owner \<times> unit" where
  "owner_event_step clk ow ev = (case ev of ((thread, fails), op) \<Rightarrow>
     (owner_call \<lparr>caller = thread, readings = clk, shutdown_fails = fails\<rparr> op ow, ()))"

lemma keeps_selector: "keeps clk (register cx fd)" "keeps clk (unregister cx fd)"
  unfolding register_def unregister_def by (rule keeps_check; auto simp: inv_selector)+

lemma keeps_owner_call:
  assumes "owner_inv clk ow" and "readings cx = clk"
  shows "owner_inv clk (owner_call cx op ow)"
proof (cases op)
  case (Ledger_call lop)
  then show ?thesis using assms by (auto intro!: inv_ledger reachable_step simp: owner_inv_def)
qed (use assms in \<open>simp_all add: adopt_def keeps_elim keeps_begin_handshake keeps_adopt_session keeps_authorize keeps_owner_request_acquire
  keeps_attach keeps_detach keeps_release keeps_expire keeps_selector keeps_wait keeps_revoke_all keeps_close_owner\<close>)

interpretation session_owner: machine "owner_event_step clk" "owner_inv clk" for clk
  by unfold_locales (auto simp: owner_event_step_def case_prod_unfold keeps_owner_call)

lemma inv_new_owner: "owner_inv clk (new_owner new_ledger thread)"
proof -
  have "reachable_ledger new_ledger" unfolding reachable_ledger_def by (intro exI [of _ "[]"]) simp
  then show ?thesis by (simp add: owner_inv_def new_owner_def)
qed

text \<open>
  C19. Sockets are owned once and not leaked: whatever calls come from whatever threads, and whichever
  sockets fail to shut down, every open duplicate belongs to exactly one session, a session has at most three,
  and a closed owner has none.
\<close>

theorem sockets_owned_once:
  "let ow = fst (run (owner_event_step clk) (new_owner new_ledger thread) events) in
     pinned_open ow = int (length (pinned (owned ow))) \<and> distinct (pinned (owned ow)) \<and>
     list_all (\<lambda>(_, s). length (sockets s) \<le> 3) (owned ow) \<and> \<not> (o_closed ow \<and> pinned_open ow \<noteq> 0)"
proof -
  define ow where "ow = fst (run (owner_event_step clk) (new_owner new_ledger thread) events)"
  have inv: "owner_inv clk ow" unfolding ow_def by (rule session_owner.inv_run [OF inv_new_owner])
  have "length (sockets s) \<le> 3" if "(t, s) \<in> set (owned ow)" for t s
  proof -
    have "map_of (owned ow) t = Some s" using inv that by (simp add: owner_inv_def)
    from inv_session [OF inv this] show ?thesis by (simp add: session_ok_def MAX_SESSION_SOCKETS_def)
  qed
  with inv show ?thesis unfolding ow_def [symmetric] by (auto simp: Let_def owner_inv_def list_all_iff)
qed

section \<open>Leases\<close>

text \<open>
  C5. No grant without a live appraised lease: with a monotonic clock, the owner grants a request only
  to a session with an authorized lease that has not run out and ends at most sixty seconds from now, and
  for which the ledger has recorded both collector generations as finished, in order.
\<close>

theorem grant_needs_lease:
  assumes "mono clk" and "ow = fst (run (owner_event_step clk) (new_owner new_ledger thread) events)"
    and "owner_request_acquire \<lparr>caller = caller0, readings = clk, shutdown_fails = fails\<rparr> ds t route ow = (Inr (Inr grant), ow')"
  shows "\<exists>s lops louts. map_of (owned ow) t = Some s \<and> authorized s \<and> clk (clock_reads ow) < deadline_ns s \<and>
    deadline_ns s \<le> clk (clock_reads ow) + MAX_LEASE_NS \<and>
    run ledger_step new_ledger lops = (o_ledger ow, louts) \<and> finished t (zip lops louts) = [Gen_CERTIFICATE, Gen_EXPORTER]"
proof -
  have inv: "owner_inv clk ow" unfolding assms(2) by (rule session_owner.inv_run [OF inv_new_owner])
  from assms(3) obtain s l' where s: "map_of (owned ow) t = Some s" "authorized s" "clk (clock_reads ow) < deadline_ns s"
    "request_acquire ds t route (o_ledger ow) = (Inr (Inr grant), l')"
    by (auto simp: owner_request_acquire_def thenO_def check_owner_def lookup_session_def monotonic_ns_def raiseO_def
        split: if_splits option.splits sum.splits prod.splits)
  obtain k where "k < clock_reads ow" "deadline_ns s \<le> clk k + MAX_LEASE_NS"
    using inv_session [OF inv s(1)] s(2) by (auto simp: session_ok_def lease_bound_def)
  then have d: "deadline_ns s \<le> clk (clock_reads ow) + MAX_LEASE_NS"
    using monoD [OF assms(1), of k "clock_reads ow"] by simp
  obtain lops where "o_ledger ow = fst (run ledger_step new_ledger lops)" using inv by (auto simp: owner_inv_def reachable_ledger_def)
  then have r: "run ledger_step new_ledger lops = (o_ledger ow, snd (run ledger_step new_ledger lops))" by simp
  from granted_generations [OF r s(4)] s d r show ?thesis by blast
qed

section \<open>Expiry\<close>

text \<open>A release removes its session, or everything.\<close>

lemma release_outcome:
  assumes "o_thread ow = caller cx" "\<not> o_closed ow" "map_of (owned ow) t = Some s" "release cx t ow = (r, ow')"
  shows "o_thread ow' = caller cx \<and> \<not> o_closed ow' \<and> owned ow' = (if is_ok r then AList.delete t (owned ow) else [])"
  using assms
  by (auto simp: release_def thenO_def check_owner_def lookup_session_def revoke_all_def raiseO_def Let_def
      split: if_splits sum.splits prod.splits)

lemma expire_all_outcome:
  assumes "o_thread ow = caller cx" "\<not> o_closed ow" "distinct (map fst (owned ow))" "distinct (map fst xs)"
    and "set xs \<subseteq> set (owned ow)" "\<And>t s. (t, s) \<in> set (owned ow) \<Longrightarrow> now \<ge> deadline_ns s \<Longrightarrow> (t, s) \<in> set xs"
  shows "list_all (\<lambda>(_, s). now < deadline_ns s) (owned (snd (expire_all cx now xs ow)))"
  using assms
proof (induction xs arbitrary: ow)
  case Nil
  then show ?case by (fastforce simp: list_all_iff)
next
  case (Cons x xs)
  obtain t s where x: "x = (t, s)" by (cases x)
  have m: "map_of (owned ow) t = Some s" using Cons.prems by (simp add: x)
  show ?case
  proof (cases "now \<ge> deadline_ns s")
    case False
    have "list_all (\<lambda>(_, s). now < deadline_ns s) (owned (snd (expire_all cx now xs ow)))"
    proof (rule Cons.IH)
      show "(u, q) \<in> set xs" if "(u, q) \<in> set (owned ow)" "now \<ge> deadline_ns q" for u q
        using Cons.prems(6) [of u q] that False by (auto simp: x)
    qed (use Cons.prems(1-5) in auto)
    with False show ?thesis by (simp add: x)
  next
    case True
    obtain r ow' where R: "release cx t ow = (r, ow')" by fastforce
    note o = release_outcome [OF Cons.prems(1,2) m R]
    show ?thesis
    proof (cases r)
      case (Inl e)
      then show ?thesis using True R o by (simp add: x thenO_def)
    next
      case (Inr u)
      then have ow': "owned ow' = filter (\<lambda>(k, _). k \<noteq> t) (owned ow)" using o by (auto simp: AList.delete_eq intro!: filter_cong)
      have "list_all (\<lambda>(_, s). now < deadline_ns s) (owned (snd (expire_all cx now xs ow')))"
      proof (rule Cons.IH)
        show "distinct (map fst (owned ow'))" using Cons.prems(3) o Inr by (simp add: AList.distinct_delete)
        show "set xs \<subseteq> set (owned ow')" using Cons.prems(4,5) by (force simp: ow' x)
        show "(u, q) \<in> set xs" if "(u, q) \<in> set (owned ow')" "now \<ge> deadline_ns q" for u q
          using Cons.prems(6) [of u q] that by (auto simp: ow' x)
      qed (use o Cons.prems(4) in auto)
      then show ?thesis using True R Inr by (simp add: x thenO_def)
    qed
  qed
qed

text \<open>
  Nothing outlives its deadline: a sweep by the owning thread leaves no session whose deadline has been reached at the
  moment of the sweep, whatever the ledger and the sockets do, also when the sweep itself fails.
\<close>

theorem expire_leaves_none:
  assumes "ow = fst (run (owner_event_step clk) (new_owner new_ledger thread) events)" and "o_thread ow = caller cx" and "\<not> o_closed ow"
  shows "list_all (\<lambda>(_, s). readings cx (clock_reads ow) < deadline_ns s) (owned (snd (expire cx ow)))"
proof -
  have inv: "owner_inv clk ow" unfolding assms(1) by (rule session_owner.inv_run [OF inv_new_owner])
  let ?ow = "ow\<lparr>clock_reads := Suc (clock_reads ow)\<rparr>"
  have "list_all (\<lambda>(_, s). readings cx (clock_reads ow) < deadline_ns s)
      (owned (snd (expire_all cx (readings cx (clock_reads ow)) (owned ?ow) ?ow)))"
    using inv assms(2,3) by (intro expire_all_outcome) (auto simp: owner_inv_def)
  then show ?thesis using assms(2,3) by (simp add: expire_def thenO_def check_owner_def monotonic_ns_def)
qed

section \<open>A concrete session\<close>

definition client :: conn where
  "client = \<lparr>stream = True, accepting = False, connected = True, can_dup = True, can_stat = True, st_identity = (1, 7)\<rparr>"

definition from_owner :: "owner_op \<Rightarrow> owner_event" where "from_owner op = ((1, \<lambda>_. False), op)"

definition leased :: "owner_event list" where
  "leased = map (from_owner \<circ> Ledger_call) (attested (CHR ''a'')) @
     [from_owner (Begin_handshake (tok (CHR ''a'')) client), from_owner (Authorize (tok (CHR ''a'')) 50)]"

definition leased_owner :: owner where
  "leased_owner = fst (run (owner_event_step int) (new_owner new_ledger 1) leased)"

theorem grant_needs_lease_witness:
  "\<exists>s ow'. map_of (owned leased_owner) (tok (CHR ''a'')) = Some s \<and> authorized s \<and> deadline_ns s \<le> int (clock_reads leased_owner) + MAX_LEASE_NS \<and>
     owner_request_acquire \<lparr>caller = 1, readings = int, shutdown_fails = \<lambda>_. False\<rparr> [tok (CHR ''x''), tok (CHR ''y''), tok (CHR ''z'')]
       (tok (CHR ''a'')) Route_ASR leased_owner = (Inr (Inr (tok (CHR ''x''), tok (CHR ''y''), tok (CHR ''z''), 2097152)), ow')"
proof -
  let ?g = "owner_request_acquire \<lparr>caller = 1, readings = int, shutdown_fails = \<lambda>_. False\<rparr> [tok (CHR ''x''), tok (CHR ''y''), tok (CHR ''z'')]
       (tok (CHR ''a'')) Route_ASR leased_owner"
  have "fst ?g = Inr (Inr (tok (CHR ''x''), tok (CHR ''y''), tok (CHR ''z''), 2097152))" by code_simp
  then have g: "?g = (Inr (Inr (tok (CHR ''x''), tok (CHR ''y''), tok (CHR ''z''), 2097152)), snd ?g)" by (metis prod.collapse)
  have m: "mono int" by (simp add: mono_def)
  from grant_needs_lease [OF m leased_owner_def g] g show ?thesis by blast
qed

theorem expire_leaves_none_witness:
  "list_all (\<lambda>(_, s). 1000 < deadline_ns s) (owned (snd (expire \<lparr>caller = 1, readings = \<lambda>_. 1000, shutdown_fails = \<lambda>_. True\<rparr> leased_owner)))"
proof -
  have "o_thread leased_owner = 1 \<and> \<not> o_closed leased_owner" by code_simp
  then show ?thesis
    using expire_leaves_none [OF leased_owner_def, of "\<lparr>caller = 1, readings = \<lambda>_. 1000, shutdown_fails = \<lambda>_. True\<rparr>"] by simp
qed

end
