(* ===== verification/Boot_Common.thy ===== *)
theory Boot_Common
  imports Bytes_Methods
begin

text \<open>
  The value checks that the boot engines and the session reducer of \<open>conf_proc_spp_boot.py\<close>
  share. A Python string is a list of characters; Python objects that are only compared by
  identity (tokens, handles, transports) are numbers, fresh ones drawn from a counter.
\<close>

type_synonym object_id = nat

definition SHA_CHARS :: string where "SHA_CHARS = ''0123456789abcdef''"
definition DECIMAL_DIGIT_CHARS :: string where "DECIMAL_DIGIT_CHARS = ''0123456789''"

definition sha_ok :: "string \<Rightarrow> bool" where
  "sha_ok v \<longleftrightarrow> length v = 64 \<and> set v \<subseteq> set SHA_CHARS"

definition decimal_value :: "string \<Rightarrow> nat" where
  "decimal_value s = foldl (\<lambda>n c. n * 10 + (of_char c - 48)) 0 s"

definition ipv4_part_ok :: "string \<Rightarrow> bool" where
  "ipv4_part_ok part \<longleftrightarrow> 1 \<le> length part \<and> length part \<le> 3 \<and> set part \<subseteq> set DECIMAL_DIGIT_CHARS \<and>
     \<not> (length part > 1 \<and> hd part = CHR ''0'') \<and> decimal_value part \<le> 255"

definition ipv4_ok :: "string \<Rightarrow> bool" where
  "ipv4_ok v \<longleftrightarrow> (let parts = split_on ''.'' v in length parts = 4 \<and> list_all ipv4_part_ok parts)"

end
