(* ===== verification/Serving_Session.thy ===== *)
theory Serving_Session
  imports Boot_Common
begin

text \<open>
  \<open>ServingSessionReducer\<close> of \<open>conf_proc_spp_boot.py\<close>: the reducer that takes one channel from a
  request through credential, DNS, TLS and authorization to the upstream, one effect at a time.
\<close>

section \<open>States, effects and observations\<close>

datatype ServingSessionState =
    SESSION_CLAIMED | REQUEST_STARTED | CREDENTIAL_OBSERVED | ENTITLEMENT_DNS_QUERY | ENTITLEMENT_DNS_RESULT
  | ENTITLEMENT_TLS_CONNECT | ENTITLEMENT_TLS_VERIFIED | ENTITLEMENT_AUTHORIZE_REQUEST | ENTITLEMENT_AUTHORIZED
  | UPSTREAM_OPEN | UPSTREAM_OPENED | REJECT_413 | DRAIN_EXACT | REQUEST_CLOSED | SESSION_CLOSED

fun state_value :: "ServingSessionState \<Rightarrow> string" where
  "state_value SESSION_CLAIMED = ''session_claimed''"
| "state_value REQUEST_STARTED = ''request_started''"
| "state_value CREDENTIAL_OBSERVED = ''credential_observed''"
| "state_value ENTITLEMENT_DNS_QUERY = ''entitlement_dns_query''"
| "state_value ENTITLEMENT_DNS_RESULT = ''entitlement_dns_result''"
| "state_value ENTITLEMENT_TLS_CONNECT = ''entitlement_tls_connect''"
| "state_value ENTITLEMENT_TLS_VERIFIED = ''entitlement_tls_verified''"
| "state_value ENTITLEMENT_AUTHORIZE_REQUEST = ''entitlement_authorize_request''"
| "state_value ENTITLEMENT_AUTHORIZED = ''entitlement_authorized''"
| "state_value UPSTREAM_OPEN = ''upstream_open''"
| "state_value UPSTREAM_OPENED = ''upstream_opened''"
| "state_value REJECT_413 = ''reject_413''"
| "state_value DRAIN_EXACT = ''drain_exact''"
| "state_value REQUEST_CLOSED = ''request_closed''"
| "state_value SESSION_CLOSED = ''session_closed''"

lemma state_value_inject: "state_value s = state_value s' \<longleftrightarrow> s = s'"
  by (cases s; cases s') simp_all

declare state_value.simps [simp del] state_value_inject [simp]

record ServingSessionEffect =
  action :: string
  upstream_role :: "string option"
  effect_body_length :: "int option"
  effect_bearer :: "string option"
  effect_token :: "object_id option"
  effect_ipv4 :: "string option"
  effect_ttl :: "int option"

text \<open>
  The observation classes with their fields; \<open>Other_observation\<close> is any other subclass of
  \<open>BootObservation\<close> and \<open>Not_observation\<close> any other value. The first field is the contract.
\<close>

datatype session_observation =
    ServingSessionReadback string string bool bool
  | CredentialObservedV2 string object_id string
  | EntitlementDnsResultV2 string object_id string int
  | EntitlementTlsConnectedV2 string object_id string int
  | DrainExactReadbackV2 string int bool
  | Other_observation string
  | Not_observation

fun contract_of :: "session_observation \<Rightarrow> string option" where
  "contract_of (ServingSessionReadback c _ _ _) = Some c"
| "contract_of (CredentialObservedV2 c _ _) = Some c"
| "contract_of (EntitlementDnsResultV2 c _ _ _) = Some c"
| "contract_of (EntitlementTlsConnectedV2 c _ _ _) = Some c"
| "contract_of (DrainExactReadbackV2 c _ _) = Some c"
| "contract_of (Other_observation c) = Some c"
| "contract_of Not_observation = None"

datatype session_error = ApplianceError string | TypeError

section \<open>The reducer\<close>

record session_reducer =
  session_transport :: object_id
  state :: ServingSessionState
  pending :: "ServingSessionEffect option"
  path :: "string option"
  body_length :: "int option"
  opaque_handle :: "object_id option"
  bearer_sha256 :: "string option"
  dns_token :: "object_id option"
  tls_token :: "object_id option"
  dns_ipv4_address :: "string option"
  dns_ttl_seconds :: "int option"
  first_bearer_sha256 :: "string option"
  session_closed :: bool
  close_calls :: nat
  next_object :: object_id

definition OVERSIZE_AUDIO_BYTES :: int where "OVERSIZE_AUDIO_BYTES = 11534336"
definition HARD_CLOSE_AUDIO_BYTES :: int where "HARD_CLOSE_AUDIO_BYTES = 67108864"
definition SESSION_CONTRACT :: string where "SESSION_CONTRACT = ''serving-session/v2''"

type_synonym 'a session_step = "session_reducer \<Rightarrow> (session_error + 'a) \<times> session_reducer"

definition new_session_reducer :: "object_id \<Rightarrow> object_id \<Rightarrow> session_reducer" where
  "new_session_reducer t fresh = \<lparr>session_transport = t, state = SESSION_CLAIMED, pending = None, path = None, body_length = None,
     opaque_handle = None, bearer_sha256 = None, dns_token = None, tls_token = None, dns_ipv4_address = None, dns_ttl_seconds = None,
     first_bearer_sha256 = None, session_closed = False, close_calls = 0, next_object = fresh\<rparr>"

definition begin_request :: "string \<Rightarrow> int \<Rightarrow> object_id \<Rightarrow> unit session_step" where
  "begin_request p n h r =
     (if state r \<noteq> SESSION_CLAIMED \<and> state r \<noteq> REQUEST_CLOSED then (Inl (ApplianceError ''session cannot begin another request''), r)
      else if \<not> (starts_with ''/'' p \<and> n \<ge> 0) then (Inl (ApplianceError ''request shape is invalid''), r)
      else (Inr (), r\<lparr>path := Some p, body_length := Some n, opaque_handle := Some h, bearer_sha256 := None, dns_token := None,
              tls_token := None, dns_ipv4_address := None, dns_ttl_seconds := None, pending := None, state := REQUEST_STARTED\<rparr>))"

definition close_session :: "session_reducer \<Rightarrow> session_reducer" where
  "close_session r =
     (if state r = SESSION_CLOSED then r
      else let r1 = r\<lparr>state := SESSION_CLOSED, pending := None\<rparr>
           in if session_closed r1 then r1 else r1\<lparr>session_closed := True, close_calls := close_calls r1 + 1\<rparr>)"

definition audio_path :: "session_reducer \<Rightarrow> bool" where
  "audio_path r = (case path r of None \<Rightarrow> False | Some p \<Rightarrow> starts_with ''/v1/audio/'' p)"

definition length_or_0 :: "session_reducer \<Rightarrow> int" where
  "length_or_0 r = (case body_length r of None \<Rightarrow> 0 | Some n \<Rightarrow> n)"

definition is_oversize_audio :: "session_reducer \<Rightarrow> bool" where
  "is_oversize_audio r \<longleftrightarrow> audio_path r \<and> length_or_0 r > OVERSIZE_AUDIO_BYTES"

definition upstream_role_of :: "session_reducer \<Rightarrow> session_error + string" where
  "upstream_role_of r = (case path r of
     None \<Rightarrow> Inl (ApplianceError ''session request path is unavailable'')
   | Some p \<Rightarrow> Inr (if starts_with ''/v1/audio/'' p then ''asr'' else ''inference''))"

text \<open>The tokens that a new effect draws, and the effect itself.\<close>

definition draw_tokens :: "session_reducer \<Rightarrow> session_reducer" where
  "draw_tokens r =
     (if state r = ENTITLEMENT_DNS_RESULT then r\<lparr>dns_token := Some (next_object r), next_object := next_object r + 1\<rparr>
      else if state r = ENTITLEMENT_TLS_CONNECT then r\<lparr>tls_token := Some (next_object r), next_object := next_object r + 1\<rparr>
      else r)"

definition session_effect :: "session_reducer \<Rightarrow> string option \<Rightarrow> ServingSessionEffect" where
  "session_effect r role = \<lparr>action = state_value (state r), upstream_role = role,
     effect_body_length = (if state r = REJECT_413 \<or> state r = DRAIN_EXACT then body_length r else None),
     effect_bearer = (if state r = ENTITLEMENT_AUTHORIZE_REQUEST then bearer_sha256 r else None),
     effect_token = (if state r = ENTITLEMENT_DNS_RESULT then dns_token r else if state r = ENTITLEMENT_TLS_CONNECT then tls_token r else None),
     effect_ipv4 = (if state r = ENTITLEMENT_TLS_CONNECT then dns_ipv4_address r else None),
     effect_ttl = (if state r = ENTITLEMENT_TLS_CONNECT then dns_ttl_seconds r else None)\<rparr>"

definition next_effect :: "ServingSessionEffect option session_step" where
  "next_effect r =
     (case pending r of
        Some e \<Rightarrow> (Inr (Some e), r)
      | None \<Rightarrow>
          if state r = SESSION_CLAIMED \<or> state r = REQUEST_CLOSED \<or> state r = SESSION_CLOSED then (Inr None, r)
          else let r1 = draw_tokens r
               in if state r = UPSTREAM_OPEN then
                    (case upstream_role_of r1 of
                       Inl e \<Rightarrow> (Inl e, r1)
                     | Inr role \<Rightarrow> (Inr (Some (session_effect r1 (Some role))), r1\<lparr>pending := Some (session_effect r1 (Some role))\<rparr>))
                  else (Inr (Some (session_effect r1 None)), r1\<lparr>pending := Some (session_effect r1 None)\<rparr>))"

section \<open>Observations\<close>

definition invalid :: "string \<Rightarrow> unit session_step" where
  "invalid m r = (Inl (ApplianceError m), r)"

definition move :: "ServingSessionState \<Rightarrow> unit session_step" where
  "move s r = (Inr (), r\<lparr>state := s\<rparr>)"

fun check_credential :: "session_observation \<Rightarrow> unit session_step" where
  "check_credential (CredentialObservedV2 _ h b) r =
     (if \<not> (opaque_handle r = Some h \<and> sha_ok b) then invalid ''credential observation is invalid'' r
      else case first_bearer_sha256 r of
          Some b0 \<Rightarrow> if b \<noteq> b0 then invalid ''later request used a different bearer address'' r
                     else move ENTITLEMENT_DNS_QUERY (r\<lparr>bearer_sha256 := Some b\<rparr>)
        | None \<Rightarrow> move ENTITLEMENT_DNS_QUERY (r\<lparr>first_bearer_sha256 := Some b, bearer_sha256 := Some b\<rparr>))"
| "check_credential _ r = invalid ''credential observation is invalid'' r"

fun check_dns_result :: "session_observation \<Rightarrow> unit session_step" where
  "check_dns_result (EntitlementDnsResultV2 _ t ip ttl) r =
     (if \<not> (dns_token r = Some t \<and> ipv4_ok ip \<and> 1 \<le> ttl \<and> ttl \<le> 86400) then invalid ''DNS observation is invalid'' r
      else move ENTITLEMENT_TLS_CONNECT (r\<lparr>dns_ipv4_address := Some ip, dns_ttl_seconds := Some ttl\<rparr>))"
| "check_dns_result _ r = invalid ''DNS observation is invalid'' r"

definition close_or :: "bool \<Rightarrow> ServingSessionState \<Rightarrow> unit session_step" where
  "close_or requested s r = (if requested \<or> length_or_0 r > HARD_CLOSE_AUDIO_BYTES then (Inr (), close_session r) else move s r)"

fun check_drain :: "session_observation \<Rightarrow> unit session_step" where
  "check_drain (DrainExactReadbackV2 _ n requested) r =
     (if body_length r \<noteq> Some n then invalid ''oversize audio drain was not exact'' r else close_or requested REQUEST_CLOSED r)"
| "check_drain _ r = invalid ''oversize audio drain was not exact'' r"

text \<open>A comparison with a missing time to live raises \<open>TypeError\<close>, which \<open>accept\<close> does not catch.\<close>

fun check_tls_connect :: "session_observation \<Rightarrow> unit session_step" where
  "check_tls_connect (EntitlementTlsConnectedV2 _ t ip age) r =
     (if \<not> (tls_token r = Some t \<and> dns_ipv4_address r = Some ip \<and> 0 \<le> age) then invalid ''TLS connect observation is invalid'' r
      else case dns_ttl_seconds r of
          None \<Rightarrow> (Inl TypeError, r)
        | Some ttl \<Rightarrow> if age < ttl then move ENTITLEMENT_TLS_VERIFIED r else invalid ''TLS connect observation is invalid'' r)"
| "check_tls_connect _ r = invalid ''TLS connect observation is invalid'' r"

fun check_readback :: "session_observation \<Rightarrow> unit session_step" where
  "check_readback (ServingSessionReadback _ act accepted close_requested) r =
     (if act \<noteq> state_value (state r) then invalid ''session readback is invalid'' r
      else case state r of
          REQUEST_STARTED \<Rightarrow> move CREDENTIAL_OBSERVED r
        | ENTITLEMENT_DNS_QUERY \<Rightarrow> move ENTITLEMENT_DNS_RESULT r
        | ENTITLEMENT_TLS_VERIFIED \<Rightarrow>
            if accepted then move ENTITLEMENT_AUTHORIZE_REQUEST r else invalid ''entitlement TLS verification failed'' r
        | ENTITLEMENT_AUTHORIZE_REQUEST \<Rightarrow> move ENTITLEMENT_AUTHORIZED r
        | ENTITLEMENT_AUTHORIZED \<Rightarrow>
            if accepted then move (if is_oversize_audio r then REJECT_413 else UPSTREAM_OPEN) r else invalid ''entitlement was denied'' r
        | UPSTREAM_OPEN \<Rightarrow> if accepted then move UPSTREAM_OPENED r else invalid ''upstream open failed'' r
        | UPSTREAM_OPENED \<Rightarrow> move REQUEST_CLOSED r
        | REJECT_413 \<Rightarrow> close_or close_requested DRAIN_EXACT r
        | _ \<Rightarrow> invalid ''session action is unavailable'' r)"
| "check_readback _ r = invalid ''session readback is invalid'' r"

definition check_observation :: "session_observation \<Rightarrow> unit session_step" where
  "check_observation ob r =
     (if state r = CREDENTIAL_OBSERVED then check_credential ob r
      else if state r = ENTITLEMENT_DNS_RESULT then check_dns_result ob r
      else if state r = DRAIN_EXACT then check_drain ob r
      else if state r = ENTITLEMENT_TLS_CONNECT then check_tls_connect ob r
      else check_readback ob r)"

definition accept :: "session_observation \<Rightarrow> ServingSessionState session_step" where
  "accept ob r =
     (if pending r = None \<or> contract_of ob \<noteq> Some SESSION_CONTRACT
      then (Inl (ApplianceError ''session observation is stale or malformed''), close_session r)
      else case check_observation ob (r\<lparr>pending := None\<rparr>) of
          (Inl (ApplianceError m), r') \<Rightarrow> (Inl (ApplianceError m), close_session r')
        | (Inl TypeError, r') \<Rightarrow> (Inl TypeError, r')
        | (Inr _, r') \<Rightarrow> (Inr (state r'), r'))"

text \<open>\<open>execute\<close> is the transport: an observation, or \<open>None\<close> when it raises.\<close>

definition advance_session :: "object_id \<Rightarrow> (ServingSessionEffect \<Rightarrow> session_observation option) \<Rightarrow> ServingSessionState session_step" where
  "advance_session t execute r =
     (if t \<noteq> session_transport r then (Inl (ApplianceError ''session effect requires its claimed transport''), r)
      else case next_effect r of
          (Inl e, r1) \<Rightarrow> (Inl e, r1)
        | (Inr None, r1) \<Rightarrow> (Inl (ApplianceError ''session state has no effect''), r1)
        | (Inr (Some e), r1) \<Rightarrow>
            (case execute e of
               None \<Rightarrow> (Inl (ApplianceError ''session transport failed''), close_session r1)
             | Some ob \<Rightarrow> accept ob r1))"

section \<open>Runs of a channel\<close>

text \<open>
  \<open>session_run r obs bearers\<close>: the reducer can be in state \<open>r\<close> after some calls, having accepted
  the observations \<open>obs\<close> since the current request began and credentials with these bearers
  since the channel was claimed.
\<close>

fun bearer_of :: "session_observation \<Rightarrow> string list" where
  "bearer_of (CredentialObservedV2 _ _ b) = [b]"
| "bearer_of _ = []"

inductive session_run :: "session_reducer \<Rightarrow> session_observation list \<Rightarrow> string list \<Rightarrow> bool" where
  claimed: "session_run (new_session_reducer t fresh) [] []"
| begins: "session_run r obs bs \<Longrightarrow> begin_request p n h r = (Inr (), r') \<Longrightarrow> session_run r' [] bs"
| effect: "session_run r obs bs \<Longrightarrow> next_effect r = (e, r') \<Longrightarrow> session_run r' obs bs"
| accepted: "session_run r obs bs \<Longrightarrow> accept ob r = (Inr s, r') \<Longrightarrow> session_run r' (obs @ [ob]) (bs @ bearer_of ob)"
| refused: "session_run r obs bs \<Longrightarrow> accept ob r = (Inl e, r') \<Longrightarrow> session_run r' obs bs"
| closes: "session_run r obs bs \<Longrightarrow> session_run (close_session r) obs bs"

text \<open>What each phase of a request has seen: the specification of the entitlement sequence.\<close>

abbreviation readback :: "ServingSessionState \<Rightarrow> bool \<Rightarrow> bool \<Rightarrow> session_observation" where
  "readback s \<equiv> ServingSessionReadback SESSION_CONTRACT (state_value s)"

inductive phase :: "object_id \<Rightarrow> session_observation list \<Rightarrow> ServingSessionState \<Rightarrow> string option \<Rightarrow> (string \<times> int) option \<Rightarrow> bool"
  for h where
  begun: "phase h [] REQUEST_STARTED None None"
| started: "phase h obs REQUEST_STARTED b d \<Longrightarrow> phase h (obs @ [readback REQUEST_STARTED a c]) CREDENTIAL_OBSERVED b d"
| credential: "phase h obs CREDENTIAL_OBSERVED b d \<Longrightarrow> sha_ok b' \<Longrightarrow>
    phase h (obs @ [CredentialObservedV2 SESSION_CONTRACT h b']) ENTITLEMENT_DNS_QUERY (Some b') d"
| queried: "phase h obs ENTITLEMENT_DNS_QUERY b d \<Longrightarrow> phase h (obs @ [readback ENTITLEMENT_DNS_QUERY a c]) ENTITLEMENT_DNS_RESULT b d"
| resolved: "phase h obs ENTITLEMENT_DNS_RESULT b d \<Longrightarrow> ipv4_ok ip \<Longrightarrow> 1 \<le> ttl \<Longrightarrow> ttl \<le> 86400 \<Longrightarrow>
    phase h (obs @ [EntitlementDnsResultV2 SESSION_CONTRACT t ip ttl]) ENTITLEMENT_TLS_CONNECT b (Some (ip, ttl))"
| connected: "phase h obs ENTITLEMENT_TLS_CONNECT b (Some (ip, ttl)) \<Longrightarrow> 0 \<le> age \<Longrightarrow> age < ttl \<Longrightarrow>
    phase h (obs @ [EntitlementTlsConnectedV2 SESSION_CONTRACT t ip age]) ENTITLEMENT_TLS_VERIFIED b (Some (ip, ttl))"
| verified: "phase h obs ENTITLEMENT_TLS_VERIFIED b d \<Longrightarrow>
    phase h (obs @ [readback ENTITLEMENT_TLS_VERIFIED True c]) ENTITLEMENT_AUTHORIZE_REQUEST b d"
| requested: "phase h obs ENTITLEMENT_AUTHORIZE_REQUEST b d \<Longrightarrow>
    phase h (obs @ [readback ENTITLEMENT_AUTHORIZE_REQUEST a c]) ENTITLEMENT_AUTHORIZED b d"
| authorized: "phase h obs ENTITLEMENT_AUTHORIZED b d \<Longrightarrow> s = UPSTREAM_OPEN \<or> s = REJECT_413 \<Longrightarrow>
    phase h (obs @ [readback ENTITLEMENT_AUTHORIZED True c]) s b d"

inductive_simps phase_simps:
  "phase h obs REQUEST_STARTED b d" "phase h obs CREDENTIAL_OBSERVED b d" "phase h obs ENTITLEMENT_DNS_QUERY b d"
  "phase h obs ENTITLEMENT_DNS_RESULT b d" "phase h obs ENTITLEMENT_TLS_CONNECT b d" "phase h obs ENTITLEMENT_TLS_VERIFIED b d"
  "phase h obs ENTITLEMENT_AUTHORIZE_REQUEST b d" "phase h obs ENTITLEMENT_AUTHORIZED b d" "phase h obs UPSTREAM_OPEN b d"

definition entitled :: "session_observation list \<Rightarrow> object_id \<Rightarrow> string \<Rightarrow> bool" where
  "entitled obs h b \<longleftrightarrow> (\<exists>a0 c0 a1 c1 t1 ip ttl t2 age c2 a3 c3 c4. obs =
     [readback REQUEST_STARTED a0 c0, CredentialObservedV2 SESSION_CONTRACT h b, readback ENTITLEMENT_DNS_QUERY a1 c1,
      EntitlementDnsResultV2 SESSION_CONTRACT t1 ip ttl, EntitlementTlsConnectedV2 SESSION_CONTRACT t2 ip age,
      readback ENTITLEMENT_TLS_VERIFIED True c2, readback ENTITLEMENT_AUTHORIZE_REQUEST a3 c3, readback ENTITLEMENT_AUTHORIZED True c4] \<and>
     sha_ok b \<and> ipv4_ok ip \<and> 0 \<le> age \<and> age < ttl \<and> ttl \<le> 86400)"

lemma phase_entitled:
  assumes "phase h obs UPSTREAM_OPEN b d"
  shows "\<exists>b'. b = Some b' \<and> entitled obs h b'"
proof -
  from assms obtain o8 c4 where 8: "obs = o8 @ [readback ENTITLEMENT_AUTHORIZED True c4]" "phase h o8 ENTITLEMENT_AUTHORIZED b d"
    unfolding phase_simps(9) by blast
  from 8(2) obtain o7 a3 c3 where 7: "o8 = o7 @ [readback ENTITLEMENT_AUTHORIZE_REQUEST a3 c3]" "phase h o7 ENTITLEMENT_AUTHORIZE_REQUEST b d"
    unfolding phase_simps(8) by blast
  from 7(2) obtain o6 c2 where 6: "o7 = o6 @ [readback ENTITLEMENT_TLS_VERIFIED True c2]" "phase h o6 ENTITLEMENT_TLS_VERIFIED b d"
    unfolding phase_simps(7) by blast
  from 6(2) obtain o5 ip ttl age t2 where 5: "o6 = o5 @ [EntitlementTlsConnectedV2 SESSION_CONTRACT t2 ip age]"
    "phase h o5 ENTITLEMENT_TLS_CONNECT b (Some (ip, ttl))" "0 \<le> age" "age < ttl" unfolding phase_simps(6) by blast
  from 5(2) obtain o4 t1 d' where 4: "o5 = o4 @ [EntitlementDnsResultV2 SESSION_CONTRACT t1 ip ttl]" "phase h o4 ENTITLEMENT_DNS_RESULT b d'"
    "ipv4_ok ip" "ttl \<le> 86400" unfolding phase_simps(5) by blast
  from 4(2) obtain o3 a1 c1 where 3: "o4 = o3 @ [readback ENTITLEMENT_DNS_QUERY a1 c1]" "phase h o3 ENTITLEMENT_DNS_QUERY b d'"
    unfolding phase_simps(4) by blast
  from 3(2) obtain o2 b' b0 where 2: "o3 = o2 @ [CredentialObservedV2 SESSION_CONTRACT h b']" "phase h o2 CREDENTIAL_OBSERVED b0 d'"
    "b = Some b'" "sha_ok b'" unfolding phase_simps(3) by blast
  from 2(2) obtain o1 a0 c0 where 1: "o2 = o1 @ [readback REQUEST_STARTED a0 c0]" "phase h o1 REQUEST_STARTED b0 d'"
    unfolding phase_simps(2) by blast
  from 1(2) have 0: "o1 = []" unfolding phase_simps(1) by blast
  have "obs = [readback REQUEST_STARTED a0 c0, CredentialObservedV2 SESSION_CONTRACT h b', readback ENTITLEMENT_DNS_QUERY a1 c1,
      EntitlementDnsResultV2 SESSION_CONTRACT t1 ip ttl, EntitlementTlsConnectedV2 SESSION_CONTRACT t2 ip age,
      readback ENTITLEMENT_TLS_VERIFIED True c2, readback ENTITLEMENT_AUTHORIZE_REQUEST a3 c3, readback ENTITLEMENT_AUTHORIZED True c4]"
    unfolding 8(1) 7(1) 6(1) 5(1) 4(1) 3(1) 2(1) 1(1) 0 by simp
  then have "entitled obs h b'" unfolding entitled_def using 2(4) 4(3,4) 5(3,4) by blast
  with 2(3) show ?thesis by blast
qed

section \<open>The reducer follows the sequence\<close>

definition beyond :: "ServingSessionState set" where
  "beyond = {SESSION_CLAIMED, UPSTREAM_OPENED, DRAIN_EXACT, REQUEST_CLOSED, SESSION_CLOSED}"

definition dns_pair :: "session_reducer \<Rightarrow> (string \<times> int) option" where
  "dns_pair r = (case (dns_ipv4_address r, dns_ttl_seconds r) of (Some ip, Some ttl) \<Rightarrow> Some (ip, ttl) | _ \<Rightarrow> None)"

definition follows :: "session_reducer \<Rightarrow> session_observation list \<Rightarrow> bool" where
  "follows r obs \<longleftrightarrow> state r \<in> beyond \<or> (\<exists>h. opaque_handle r = Some h \<and> phase h obs (state r) (bearer_sha256 r) (dns_pair r))"

definition one_bearer :: "session_reducer \<Rightarrow> string list \<Rightarrow> bool" where
  "one_bearer r bs \<longleftrightarrow> (\<forall>b \<in> set bs. first_bearer_sha256 r = Some b) \<and> (\<forall>b. bearer_sha256 r = Some b \<longrightarrow> b \<in> set bs)"

definition pending_ok :: "session_reducer \<Rightarrow> bool" where
  "pending_ok r \<longleftrightarrow> (\<forall>e. pending r = Some e \<longrightarrow> action e = state_value (state r) \<and> state r \<noteq> SESSION_CLOSED)"

definition session_inv :: "session_reducer \<Rightarrow> session_observation list \<Rightarrow> string list \<Rightarrow> bool" where
  "session_inv r obs bs \<longleftrightarrow> follows r obs \<and> one_bearer r bs \<and> pending_ok r \<and>
     session_closed r = (state r = SESSION_CLOSED) \<and> close_calls r = (if state r = SESSION_CLOSED then 1 else 0)"

lemma inv_close_session: "session_inv r obs bs \<Longrightarrow> session_inv (close_session r) obs' bs"
  by (auto simp: session_inv_def close_session_def follows_def beyond_def one_bearer_def pending_ok_def Let_def)

lemma accept_Inr: "accept ob r = (Inr s, r') \<longleftrightarrow>
    pending r \<noteq> None \<and> contract_of ob = Some SESSION_CONTRACT \<and> check_observation ob (r\<lparr>pending := None\<rparr>) = (Inr (), r') \<and> s = state r'"
  by (auto simp: accept_def split: prod.splits sum.splits session_error.splits)

lemmas check_defs = check_observation_def move_def invalid_def close_or_def

lemma follows_phase: "opaque_handle r = Some h \<Longrightarrow> phase h obs (state r) (bearer_sha256 r) (dns_pair r) \<Longrightarrow> follows r obs"
  by (auto simp: follows_def)

lemma dns_pair_cong: "dns_ipv4_address r' = dns_ipv4_address r \<Longrightarrow> dns_ttl_seconds r' = dns_ttl_seconds r \<Longrightarrow> dns_pair r' = dns_pair r"
  by (simp add: dns_pair_def)

lemma dns_pair_state [simp]: "dns_pair (r\<lparr>state := s\<rparr>) = dns_pair r"
  by (simp add: dns_pair_def)

text \<open>The states that wait for a readback, and the four that wait for a typed observation.\<close>

lemma follows_readback:
  assumes "opaque_handle r = Some h" and "phase h obs (state r) (bearer_sha256 r) (dns_pair r)"
    and "contract_of ob = Some SESSION_CONTRACT" and "check_readback ob r = (Inr (), r')"
  shows "follows r' (obs @ [ob])"
proof -
  obtain a c where ob: "ob = readback (state r) a c" using assms(3,4) by (cases ob) (auto simp: invalid_def split: if_splits)
  show ?thesis
    using assms unfolding ob
    by (cases "state r")
      (auto simp: move_def invalid_def close_or_def beyond_def close_session_def Let_def follows_def split: if_splits intro: phase.intros)
qed

lemma follows_typed:
  assumes "opaque_handle r = Some h" and "phase h obs (state r) (bearer_sha256 r) (dns_pair r)" and "contract_of ob = Some SESSION_CONTRACT"
  shows "state r = CREDENTIAL_OBSERVED \<Longrightarrow> check_credential ob r = (Inr (), r') \<Longrightarrow> follows r' (obs @ [ob])"
    and "state r = ENTITLEMENT_DNS_RESULT \<Longrightarrow> check_dns_result ob r = (Inr (), r') \<Longrightarrow> follows r' (obs @ [ob])"
    and "state r = ENTITLEMENT_TLS_CONNECT \<Longrightarrow> check_tls_connect ob r = (Inr (), r') \<Longrightarrow> follows r' (obs @ [ob])"
  using assms
  by (cases ob; auto simp: move_def invalid_def dns_pair_def split: if_splits option.splits intro!: follows_phase [of _ h] intro: phase.intros)+

lemma follows_check:
  assumes "follows r obs" and "contract_of ob = Some SESSION_CONTRACT" and "check_observation ob r = (Inr (), r')"
  shows "follows r' (obs @ [ob])"
proof (cases "state r \<in> beyond")
  case True
  then show ?thesis using assms(3)
    by (cases ob) (auto simp: check_defs beyond_def follows_def close_session_def Let_def split: if_splits)
next
  case False
  then obtain h where h: "opaque_handle r = Some h" "phase h obs (state r) (bearer_sha256 r) (dns_pair r)" using assms(1) by (auto simp: follows_def)
  from False have "state r \<noteq> DRAIN_EXACT" by (auto simp: beyond_def)
  with assms(3) follows_typed [OF h assms(2)] follows_readback [OF h assms(2)] show ?thesis
    by (auto simp: check_observation_def split: if_splits)
qed

text \<open>The rest of the invariant through an accepted observation.\<close>

lemma check_keeps:
  assumes "check_observation ob r = (Inr (), r')" and "pending r = None" and "session_closed r = (state r = SESSION_CLOSED)"
    and "close_calls r = (if state r = SESSION_CLOSED then 1 else 0)" and "one_bearer r bs"
  shows "pending r' = None" and "session_closed r' = (state r' = SESSION_CLOSED)"
    and "close_calls r' = (if state r' = SESSION_CLOSED then 1 else 0)" and "one_bearer r' (bs @ bearer_of ob)"
proof -
  have "pending r' = None \<and> session_closed r' = (state r' = SESSION_CLOSED) \<and> close_calls r' = (if state r' = SESSION_CLOSED then 1 else 0) \<and>
      one_bearer r' (bs @ bearer_of ob)"
    using assms
    by (cases ob)
      (auto simp: check_defs close_session_def Let_def one_bearer_def split: if_splits option.splits ServingSessionState.splits)
  then show "pending r' = None" "session_closed r' = (state r' = SESSION_CLOSED)"
    "close_calls r' = (if state r' = SESSION_CLOSED then 1 else 0)" "one_bearer r' (bs @ bearer_of ob)" by simp_all
qed

lemma inv_accepted:
  assumes "session_inv r obs bs" and "accept ob r = (Inr s, r')"
  shows "session_inv r' (obs @ [ob]) (bs @ bearer_of ob)"
proof -
  let ?r = "r\<lparr>pending := None\<rparr>"
  have c: "contract_of ob = Some SESSION_CONTRACT" "check_observation ob ?r = (Inr (), r')" using assms(2) by (auto simp: accept_Inr)
  have f: "follows ?r obs" using assms(1) by (simp add: session_inv_def follows_def dns_pair_def)
  have i: "session_closed ?r = (state ?r = SESSION_CLOSED)" "close_calls ?r = (if state ?r = SESSION_CLOSED then 1 else 0)" "one_bearer ?r bs"
    using assms(1) by (auto simp: session_inv_def one_bearer_def)
  note k = check_keeps [OF c(2) _ i]
  show ?thesis using follows_check [OF f c] k by (simp add: session_inv_def pending_ok_def)
qed

text \<open>An observation that is refused closes the session, except in the unreachable case of a missing time to live.\<close>

lemma check_refused_unchanged: "check_observation ob r = (Inl e, r') \<Longrightarrow> r' = r"
  by (cases ob) (auto simp: check_defs split: if_splits option.splits ServingSessionState.splits)

lemma inv_refused:
  assumes "session_inv r obs bs" and "accept ob r = (Inl e, r')"
  shows "session_inv r' obs bs"
proof (cases "pending r = None \<or> contract_of ob \<noteq> Some SESSION_CONTRACT")
  case True
  then show ?thesis using assms inv_close_session [OF assms(1)] by (auto simp: accept_def)
next
  case False
  let ?r = "r\<lparr>pending := None\<rparr>"
  have i: "session_inv ?r obs bs" using assms(1) by (simp add: session_inv_def follows_def one_bearer_def pending_ok_def dns_pair_def)
  obtain x r1 where c: "check_observation ob ?r = (x, r1)" by fastforce
  with False assms(2) obtain m where x: "x = Inl m" by (cases x) (auto simp: accept_def)
  with c have "r1 = ?r" using check_refused_unchanged by simp
  then show ?thesis using False assms(2) c x i inv_close_session [OF i] by (cases m) (auto simp: accept_def)
qed

lemma inv_effect:
  assumes "session_inv r obs bs" and "next_effect r = (e, r')"
  shows "session_inv r' obs bs"
proof -
  have d: "session_inv (draw_tokens r) obs bs" "state (draw_tokens r) = state r" "pending (draw_tokens r) = pending r"
    using assms(1) dns_pair_cong [of "draw_tokens r" r]
    by (auto simp: draw_tokens_def session_inv_def follows_def one_bearer_def pending_ok_def split: if_splits)
  have "session_inv ((draw_tokens r)\<lparr>pending := Some (session_effect (draw_tokens r) role)\<rparr>) obs bs" if "state r \<noteq> SESSION_CLOSED" for role
    using d that by (simp add: session_inv_def follows_def one_bearer_def pending_ok_def dns_pair_def session_effect_def)
  with assms d show ?thesis by (auto simp: next_effect_def Let_def split: option.splits if_splits sum.splits)
qed

lemma inv_begins:
  assumes "session_inv r obs bs" and "begin_request p n h r = (Inr (), r')"
  shows "session_inv r' [] bs"
  using assms
  by (auto simp: begin_request_def session_inv_def follows_def one_bearer_def pending_ok_def dns_pair_def split: if_splits intro: phase.begun)

lemma run_inv: "session_run r obs bs \<Longrightarrow> session_inv r obs bs"
proof (induction rule: session_run.induct)
  case (claimed t fresh)
  then show ?case by (simp add: session_inv_def follows_def beyond_def one_bearer_def pending_ok_def new_session_reducer_def)
next
  case (begins r obs bs p n h r')
  then show ?case by (blast intro: inv_begins)
next
  case (effect r obs bs e r')
  then show ?case by (blast intro: inv_effect)
next
  case (accepted r obs bs ob s r')
  then show ?case by (blast intro: inv_accepted)
next
  case (refused r obs bs ob e r')
  then show ?case by (blast intro: inv_refused)
next
  case (closes r obs bs)
  then show ?case by (blast intro: inv_close_session)
qed

text \<open>
  C3. The upstream is opened only for an entitled request: on every run of a channel, when the reducer asks for
  the upstream, the observations accepted since the request began are exactly the entitlement sequence:
  the credential of this request's handle, an address resolved and then connected within its time to live,
  TLS verified, and the authorization granted; and every credential the channel ever used has
  this same bearer.
\<close>

theorem upstream_only_when_entitled:
  assumes "session_run r obs bearers" and "next_effect r = (Inr (Some e), r')" and "action e = state_value UPSTREAM_OPEN"
  shows "\<exists>h b. opaque_handle r = Some h \<and> entitled obs h b \<and> set bearers = {b}"
proof -
  have inv: "session_inv r obs bearers" by (rule run_inv [OF assms(1)])
  have st: "state r = UPSTREAM_OPEN"
    using assms(2,3) inv
    by (auto simp: next_effect_def draw_tokens_def session_effect_def session_inv_def pending_ok_def Let_def split: option.splits if_splits sum.splits)
  then obtain h where h: "opaque_handle r = Some h" "phase h obs UPSTREAM_OPEN (bearer_sha256 r) (dns_pair r)"
    using inv by (auto simp: session_inv_def follows_def beyond_def)
  from phase_entitled [OF h(2)] obtain b where b: "bearer_sha256 r = Some b" "entitled obs h b" by blast
  have "b \<in> set bearers" and "\<forall>c \<in> set bearers. first_bearer_sha256 r = Some c" using inv b(1) by (simp_all add: session_inv_def one_bearer_def)
  then have "c = b" if "c \<in> set bearers" for c using that by (metis option.inject)
  with \<open>b \<in> set bearers\<close> have "set bearers = {b}" by blast
  with h(1) b(2) show ?thesis by blast
qed

section \<open>A concrete channel\<close>

fun drive :: "session_reducer \<Rightarrow> session_observation list \<Rightarrow> session_reducer option" where
  "drive r [] = Some r"
| "drive r (ob # obs) = (case accept ob (snd (next_effect r)) of (Inr _, r') \<Rightarrow> drive r' obs | (Inl _, _) \<Rightarrow> None)"

lemma drive_run:
  "session_run r seen bs \<Longrightarrow> drive r obs = Some r' \<Longrightarrow> session_run r' (seen @ obs) (bs @ concat (map bearer_of obs))"
proof (induction obs arbitrary: r seen bs)
  case (Cons ob obs)
  then obtain s r1 where a: "accept ob (snd (next_effect r)) = (Inr s, r1)" "drive r1 obs = Some r'"
    by (auto split: prod.splits sum.splits)
  have "session_run (snd (next_effect r)) seen bs" by (rule session_run.effect [OF Cons.prems(1) surjective_pairing])
  from Cons.IH [OF session_run.accepted [OF this a(1)] a(2)] show ?case by simp
qed simp

definition asked :: session_reducer where
  "asked = snd (begin_request ''/v1/chat/completions'' 12 5 (new_session_reducer 1 100))"

definition bearer :: string where "bearer = replicate 64 (CHR ''a'')"

definition entitlement :: "session_observation list" where
  "entitlement = [readback REQUEST_STARTED True False, CredentialObservedV2 SESSION_CONTRACT 5 bearer, readback ENTITLEMENT_DNS_QUERY True False,
      EntitlementDnsResultV2 SESSION_CONTRACT 100 ''10.0.0.7'' 60, EntitlementTlsConnectedV2 SESSION_CONTRACT 101 ''10.0.0.7'' 3,
      readback ENTITLEMENT_TLS_VERIFIED True False, readback ENTITLEMENT_AUTHORIZE_REQUEST True False, readback ENTITLEMENT_AUTHORIZED True False]"

theorem upstream_only_when_entitled_witness:
  "\<exists>r h b. drive asked entitlement = Some r \<and> opaque_handle r = Some h \<and> entitled entitlement h b \<and> b = bearer"
proof -
  have "begin_request ''/v1/chat/completions'' 12 5 (new_session_reducer 1 100) = (Inr (), asked)"
    by (simp add: asked_def begin_request_def new_session_reducer_def starts_with_def)
  then have run0: "session_run asked [] []" by (rule session_run.begins [OF session_run.claimed])
  have "(case drive asked entitlement of None \<Rightarrow> False | Some r \<Rightarrow>
      (case next_effect r of (Inr (Some e), _) \<Rightarrow> action e = state_value UPSTREAM_OPEN | _ \<Rightarrow> False))" by code_simp
  then obtain r e r' where r: "drive asked entitlement = Some r" "next_effect r = (Inr (Some e), r')" "action e = state_value UPSTREAM_OPEN"
    by (auto split: option.splits prod.splits sum.splits)
  have "session_run r entitlement [bearer]" using drive_run [OF run0 r(1)] by (simp add: entitlement_def)
  from upstream_only_when_entitled [OF this r(2,3)] r(1) show ?thesis by auto
qed

end
