(* ===== verification/Boot_Values.thy ===== *)
theory Boot_Values
  imports Boot_Common Sha256
begin

text \<open>
  The data of the boot engines of \<open>conf_proc_spp_boot.py\<close>: bindings, effects, observations and
  the process-wide latch of the PCR 15 extension. An effect is its contract digest with its
  class and fields; an observation likewise, or a value of a foreign type. What the transports
  of a process have been asked to execute is kept in \<open>executed\<close>.
\<close>

section \<open>Inputs\<close>

record ModuleIdentity =
  module_path :: string
  module_sha256 :: string
  signer_certificate_sha256 :: string

record TmpfsDescription =
  tmpfs_path :: string
  tmpfs_size_bytes :: int
  tmpfs_mode :: int

datatype KernelControlSupport = REQUIRED | CONDITIONAL

record KernelFeatureControl =
  control_name :: string
  control_support :: KernelControlSupport

record ModulePlanEntry =
  plan_index :: int
  plan_identity :: ModuleIdentity
  predecessor_indices :: "int list"

record PartitionLocator =
  locator_ordinal :: int
  locator_type_guid :: string
  locator_partuuid :: string
  start_lba :: int
  end_lba :: int
  locator_size_bytes :: int

record VerityPair =
  verity_image_id :: string
  data_partition :: PartitionLocator
  hash_partition :: PartitionLocator
  data_sha256 :: string
  data_size_bytes :: int
  hash_sha256 :: string
  hash_size_bytes :: int
  root_hash :: string
  verity_uuid :: string
  salt :: string
  data_block_size :: int
  hash_block_size :: int

record BootRuntimeSnapshot =
  cmdline :: string
  disk_locators :: "PartitionLocator list"
  runtime_policy_verity :: VerityPair
  models_verity :: VerityPair
  runtime_policy_destination :: string
  models_destination :: string
  executable_paths :: "string list"
  tmpfs_mounts :: "TmpfsDescription list"
  module_entries :: "ModulePlanEntry list"
  mutable_control_order :: "string list"
  mutable_controls :: "KernelFeatureControl list"

record BootstrapMountV2 =
  mount_source :: string
  mount_target :: string
  fs_type :: string
  mount_flags :: "string list"
  mount_mode :: int
  mount_size_bytes :: "int option"

record NetworkPolicyV2 =
  net_phase :: string
  ingress :: "string list"
  loopback_upstreams :: "(string \<times> string) list"
  entitlement_rules :: "string list"

record MutableRootV2 =
  root_path :: string
  root_size_bytes :: int
  root_mode :: int
  root_uid :: int
  root_gid :: int
  root_flags :: "string list"
  root_class :: string

record JitWorkspaceV2 =
  workspace_path :: string
  workspace_mode :: int
  workspace_size_bytes :: int

record JitInputV2 =
  jit_kind :: string
  jit_input_id :: string
  jit_role :: string
  jit_image_id :: string
  jit_path :: string
  jit_sha256 :: string
  jit_size_bytes :: int
  jit_mode :: int

record JitPolicyV2 =
  jit_workspace :: JitWorkspaceV2
  compiler_loader_args :: "string list"
  jit_inputs :: "JitInputV2 list"

section \<open>Effects and observations\<close>

datatype reason = CP_BOOT_BINDING | CP_BOOT_OBSERVATION | CP_BOOT_PROTOCOL | CP_BOOT_CONTROL | CP_BOOT_PCR | CP_BOOT_LATCH
  | CP_BOOT_BOOTSTRAP_MOUNT | CP_BOOT_NETWORK_POLICY | CP_BOOT_JIT_POLICY | CP_BOOT_MUTABLE_ROOT_CLASS | CP_BOOT_TRANSPORT_EPOCH
  | CP_BOOT_GOLDEN_ORDER | CP_BOOT_SERVING_SESSION | CP_BOOT_FAILURE_TRANSPORT

datatype boot_error = BootError reason string | BootIndexError | BootAttributeError

datatype Pcr15EvidenceClass = DERIVED_APPRAISED_CONJUNCTION
datatype ModulesDisabledStatus = SET_TO_1
datatype ControlReadbackStatus = DISABLED | NOT_APPLICABLE_NONEXISTENT
datatype Pcr15ExtendOutcome = ACKNOWLEDGED | TIMEOUT | EXTEND_ERROR
datatype TransportClosureStatus = CLOSED
datatype ServingAction = Act_LISTENER_CREATE | Act_LISTENER_BIND | Act_SERVICE_START | Act_NETWORK_ACTIVATE | Act_UPSTREAM_OPEN
datatype ServingActionStatus = COMPLETED
datatype ServingAuthorizationStatus = AUTHORIZED
datatype FailureEffectKind = DIAGNOSTIC | CLOSE_SERVING_NETWORK | POWEROFF_KIND

record SafeDiagnostic =
  diag_code :: reason
  diag_stage :: string
  contract_prefix :: string

text \<open>
  Version 3 has one class of effects and one of observations; what a step expects is a table of
  the authority or a byte string, and an observation is compared with it by equality only.
\<close>

datatype BootTransitionStateV3 = PID1_IDENTITY_ESTABLISHED_V3 | ADAPTER_CONSTRUCTED_V3 | BOOTSTRAP_MOUNTED_V3
  | NETWORK_PREFLIGHT_STARTED_V3 | NIC_CENSUS_ESTABLISHED_V3 | EARLY_MODULES_LOADED_V3 | NIC_CENSUS_REVALIDATED_V3
  | NETWORK_DENY_INSTALLED_V3 | CMDLINE_SEALED_V3 | PCR15_ZERO_CONFIRMED_V3 | DISK_IDENTIFIED_V3 | ROOT_MODEL_VERITY_MAPPED_V3
  | ROOT_MODEL_MOUNTED_V3 | C1_CENSUS_ESTABLISHED_V3 | FINAL_RUN_CREATED_V3 | C2_CENSUS_ESTABLISHED_V3 | LATER_MODULES_LOADED_V3
  | MODULES_DISABLED_V3 | MUTABLE_CONTROLS_ENFORCED_V3 | PCR15_EXTENDED_V3 | TPM_BOOT_TRANSPORT_CLOSED_V3
  | DEVICE_MONITOR_SEALED_V3 | DEV_TREE_PRUNED_V3 | DEVICE_MONITOR_RECONCILED_V3 | SECURITYFS_UNMOUNTED_V3
  | KERNEL_INTERFACES_MOVED_V3 | C3_CENSUS_ESTABLISHED_V3 | HANDOFF_SEALED_V3 | SWITCH_ROOT_COMPLETED_V3 | STAGE2_ADMITTED_V3
  | POST_ROOT_RUNTIME_SEALED_V3 | LAUNCH_SUPERVISION_READY_V3 | SERVING_AVAILABLE_V3 | FAILED_NON_SERVING_V3

datatype authority_table = Bootstrap_mounts | Network_census | Early_modules | Control_inventory | Dev_tree | Launch_roles

datatype authority_value = Absent | Extend_outcome Pcr15ExtendOutcome | Table authority_table | Octets bytes | Other_value

datatype effect_body =
    CheckCmdlineEffect string
  | ReadPcr15Effect bytes
  | LocateExpectedDiskEffect string "PartitionLocator list"
  | MapVerityEffect VerityPair
  | VerifyVerityEffect VerityPair string
  | ReadMappingIdentityEffect VerityPair string
  | MountImageEffect string string "string list"
  | ConfineRuntimeExecutablesEffect "string list"
  | CheckMutableRootsEffect
  | CreateTmpfsEffect "TmpfsDescription list" "string list"
  | LoadModulesEffect "ModulePlanEntry list"
  | CloseModulesEffect
  | CloseMutableControlEffect string
  | ExtendPcr15Effect bytes Pcr15EvidenceClass
  | CloseTransportEffect
  | ServingReadyEffect
  | ServingActionEffect ServingAction
  | SafeDiagnosticEffect SafeDiagnostic
  | CloseServingNetworkEffect
  | PoweroffEffect
  | BootstrapMountEffectV2 BootstrapMountV2
  | ApplyNetworkPolicyEffectV2 NetworkPolicyV2
  | ReadNetworkPolicyEffectV2 NetworkPolicyV2
  | CheckMutableRootClassesEffectV2 string "BootstrapMountV2 list" "MutableRootV2 list"
  | CreateTmpfsEffectV2 MutableRootV2
  | JitPolicyEffectV2 string "JitPolicyV2 option"
  | ActivationEffectV2 string "NetworkPolicyV2 option"
  | ServingReadyEffectV2
  | AuthorityStepEffectV3 BootTransitionStateV3 string authority_value

type_synonym boot_effect = "string \<times> effect_body"

datatype observation_body =
    CmdlineObservation string "string list"
  | Pcr15Readback bytes
  | DiskLocatorsObservation string "PartitionLocator list"
  | VerityMappedObservation VerityPair string
  | VerityVerifiedObservation VerityPair string
  | MappingIdentityObservation VerityPair string
  | MountReadback string string "string list"
  | RuntimeExecutableObservation "string list"
  | MutableRootsObservation "string list"
  | TmpfsReadback "TmpfsDescription list" "string list"
  | ModuleReadback "ModuleIdentity list"
  | ModulesDisabledReadback ModulesDisabledStatus
  | ControlReadback string ControlReadbackStatus
  | Pcr15ExtendObservation Pcr15ExtendOutcome
  | TransportClosedObservation TransportClosureStatus
  | ServingReadyObservation ServingAuthorizationStatus
  | ServingActionObservation ServingAction ServingActionStatus
  | FailureEffectAcknowledgement FailureEffectKind
  | BootstrapMountReadbackV2 BootstrapMountV2
  | NetworkPolicyReadbackV2 NetworkPolicyV2
  | MutableRootClassesReadbackV2 string "BootstrapMountV2 list" "MutableRootV2 list"
  | TmpfsReadbackV2 MutableRootV2
  | JitPolicyReadbackV2 string "JitPolicyV2 option"
  | ActivationReadbackV2 string "NetworkPolicyV2 option"
  | ServingReadyReadbackV2 bool
  | AuthorityStepReadbackV3 BootTransitionStateV3 string authority_value bool
  | OtherObservation

datatype boot_observation = Observation string observation_body | Foreign_value

section \<open>The process\<close>

datatype PcrExtendLatchState = UNREQUESTED | REQUEST_ISSUED | LATCH_ACKNOWLEDGED | AMBIGUOUS | LATCH_TRANSPORT_CLOSED

record process =
  latch :: PcrExtendLatchState
  executed :: "boot_effect list"

definition claim_extend_transport :: "process \<Rightarrow> bool \<times> process" where
  "claim_extend_transport p = (if latch p \<noteq> UNREQUESTED then (False, p) else (True, p\<lparr>latch := REQUEST_ISSUED\<rparr>))"

definition record_extend_outcome :: "Pcr15ExtendOutcome \<Rightarrow> process \<Rightarrow> process" where
  "record_extend_outcome outcome p = p\<lparr>latch := if outcome = ACKNOWLEDGED then LATCH_ACKNOWLEDGED else AMBIGUOUS\<rparr>"

definition record_extend_transport_closed :: "process \<Rightarrow> (boot_error + unit) \<times> process" where
  "record_extend_transport_closed p =
     (if latch p \<noteq> LATCH_ACKNOWLEDGED \<and> latch p \<noteq> AMBIGUOUS
      then (Inl (BootError CP_BOOT_LATCH ''PCR15 transport cannot close before one extend outcome''), p)
      else (Inr (), p\<lparr>latch := LATCH_TRANSPORT_CLOSED\<rparr>))"

text \<open>A transport executes an effect: an observation, or \<open>None\<close> when it raises.\<close>

type_synonym transport_answer = "boot_effect \<Rightarrow> boot_observation option"

definition log_effect :: "boot_effect \<Rightarrow> process \<Rightarrow> process" where
  "log_effect e p = p\<lparr>executed := executed p @ [e]\<rparr>"

fun is_extend :: "effect_body \<Rightarrow> bool" where
  "is_extend (ExtendPcr15Effect _ _) = True"
| "is_extend (AuthorityStepEffectV3 s _ _) = (s = PCR15_EXTENDED_V3)"
| "is_extend _ = False"

definition extends :: "process \<Rightarrow> nat" where
  "extends p = length (filter (\<lambda>(_, e). is_extend e) (executed p))"

definition claimed :: "process \<Rightarrow> nat" where
  "claimed p = (if latch p = UNREQUESTED then 0 else 1)"

definition RUNTIME_FLAGS :: "string list" where "RUNTIME_FLAGS = [''ro'', ''nodev'', ''nosuid'']"
definition MODELS_FLAGS :: "string list" where "MODELS_FLAGS = [''ro'', ''nodev'', ''nosuid'', ''noexec'']"
definition TMPFS_FLAGS :: "string list" where "TMPFS_FLAGS = [''nosuid'', ''nodev'', ''noexec'']"
definition ZERO_PCR :: bytes where "ZERO_PCR = replicate 32 (CHR 0x00)"

definition find_support :: "string \<Rightarrow> KernelFeatureControl list \<Rightarrow> KernelControlSupport option" where
  "find_support name features = map_option control_support (find (\<lambda>f. control_name f = name) features)"

section \<open>A transport that obliges\<close>

text \<open>The observation that reports an effect as done.\<close>

fun obliging_body :: "effect_body \<Rightarrow> observation_body" where
  "obliging_body (CheckCmdlineEffect c) = CmdlineObservation c []"
| "obliging_body (ReadPcr15Effect v) = Pcr15Readback v"
| "obliging_body (LocateExpectedDiskEffect g ls) = DiskLocatorsObservation g ls"
| "obliging_body (MapVerityEffect q) = VerityMappedObservation q ''mapping''"
| "obliging_body (VerifyVerityEffect q m) = VerityVerifiedObservation q m"
| "obliging_body (ReadMappingIdentityEffect q m) = MappingIdentityObservation q m"
| "obliging_body (MountImageEffect i d fs) = MountReadback i d fs"
| "obliging_body (ConfineRuntimeExecutablesEffect ps) = RuntimeExecutableObservation ps"
| "obliging_body CheckMutableRootsEffect = MutableRootsObservation []"
| "obliging_body (CreateTmpfsEffect ms fs) = TmpfsReadback ms fs"
| "obliging_body (LoadModulesEffect ms) = ModuleReadback (map plan_identity ms)"
| "obliging_body CloseModulesEffect = ModulesDisabledReadback SET_TO_1"
| "obliging_body (CloseMutableControlEffect c) = ControlReadback c DISABLED"
| "obliging_body (ExtendPcr15Effect m k) = Pcr15ExtendObservation ACKNOWLEDGED"
| "obliging_body CloseTransportEffect = TransportClosedObservation CLOSED"
| "obliging_body ServingReadyEffect = ServingReadyObservation AUTHORIZED"
| "obliging_body (ServingActionEffect a) = ServingActionObservation a COMPLETED"
| "obliging_body (SafeDiagnosticEffect d) = FailureEffectAcknowledgement DIAGNOSTIC"
| "obliging_body CloseServingNetworkEffect = FailureEffectAcknowledgement CLOSE_SERVING_NETWORK"
| "obliging_body PoweroffEffect = FailureEffectAcknowledgement POWEROFF_KIND"
| "obliging_body (BootstrapMountEffectV2 m) = BootstrapMountReadbackV2 m"
| "obliging_body (ApplyNetworkPolicyEffectV2 n) = NetworkPolicyReadbackV2 n"
| "obliging_body (ReadNetworkPolicyEffectV2 n) = NetworkPolicyReadbackV2 n"
| "obliging_body (CheckMutableRootClassesEffectV2 ph ms rs) = MutableRootClassesReadbackV2 ph ms rs"
| "obliging_body (CreateTmpfsEffectV2 r) = TmpfsReadbackV2 r"
| "obliging_body (JitPolicyEffectV2 a j) = JitPolicyReadbackV2 a j"
| "obliging_body (ActivationEffectV2 a n) = ActivationReadbackV2 a n"
| "obliging_body ServingReadyEffectV2 = ServingReadyReadbackV2 True"
| "obliging_body (AuthorityStepEffectV3 s a v) = AuthorityStepReadbackV3 s a (if s = PCR15_EXTENDED_V3 then Extend_outcome ACKNOWLEDGED else if v = Absent then Other_value else v) True"

definition obliging :: transport_answer where "obliging ef = Some (Observation (fst ef) (obliging_body (snd ef)))"

end
