(* ===== verification/Boot_Engine.thy ===== *)
theory Boot_Engine
  imports Boot_Values
begin

text \<open>
  \<open>BootTransitionEngine\<close> of \<open>conf_proc_spp_boot.py\<close>: the reducer that issues the effects of a
  version 1 boot one at a time and accepts their observations in the golden order, or fails for
  good. Every operation threads the process (its latch and the effects executed so far).
\<close>

section \<open>State\<close>

datatype BootTransitionState = CMDLINE | PCR15_ZERO | DISK_LOCATORS | RUNTIME_MAP | RUNTIME_VERIFY | RUNTIME_MAPPING_IDENTITY
  | MODELS_MAP | MODELS_VERIFY | MODELS_MAPPING_IDENTITY | RUNTIME_MOUNT | RUNTIME_EXECUTABLE_CONFINEMENT | MODELS_MOUNT
  | MUTABLE_ROOTS | TMPFS | MODULES | MODULES_DISABLED | MUTABLE_CONTROLS | PCR15_EXTEND | PCR15_READBACK | TRANSPORT_CLOSED
  | SERVING_READY | SERVING | FAILED_NON_SERVING

fun boot_state_value :: "BootTransitionState \<Rightarrow> string" where
  "boot_state_value CMDLINE = ''cmdline''"
| "boot_state_value PCR15_ZERO = ''pcr15_zero''"
| "boot_state_value DISK_LOCATORS = ''disk_locators''"
| "boot_state_value RUNTIME_MAP = ''runtime_map''"
| "boot_state_value RUNTIME_VERIFY = ''runtime_verify''"
| "boot_state_value RUNTIME_MAPPING_IDENTITY = ''runtime_mapping_identity''"
| "boot_state_value MODELS_MAP = ''models_map''"
| "boot_state_value MODELS_VERIFY = ''models_verify''"
| "boot_state_value MODELS_MAPPING_IDENTITY = ''models_mapping_identity''"
| "boot_state_value RUNTIME_MOUNT = ''runtime_mount''"
| "boot_state_value RUNTIME_EXECUTABLE_CONFINEMENT = ''runtime_executable_confinement''"
| "boot_state_value MODELS_MOUNT = ''models_mount''"
| "boot_state_value MUTABLE_ROOTS = ''mutable_roots''"
| "boot_state_value TMPFS = ''tmpfs''"
| "boot_state_value MODULES = ''modules''"
| "boot_state_value MODULES_DISABLED = ''modules_disabled''"
| "boot_state_value MUTABLE_CONTROLS = ''mutable_controls''"
| "boot_state_value PCR15_EXTEND = ''pcr15_extend''"
| "boot_state_value PCR15_READBACK = ''pcr15_readback''"
| "boot_state_value TRANSPORT_CLOSED = ''transport_closed''"
| "boot_state_value SERVING_READY = ''serving_ready''"
| "boot_state_value SERVING = ''serving''"
| "boot_state_value FAILED_NON_SERVING = ''failed_non_serving''"

declare boot_state_value.simps [simp del]

text \<open>
  What the engine reads of its sealed binding; and its state, with the history of the
  observations it has accepted, each under the state that waited for it.
\<close>

record BootBinding =
  boot_contract_sha256 :: string
  accepted_manifest_bytes :: bytes
  gpt_disk_guid :: string
  runtime :: BootRuntimeSnapshot

record boot_engine =
  binding :: BootBinding
  bstate :: BootTransitionState
  bpending :: "boot_effect option"
  runtime_mapping :: "string option"
  models_mapping :: "string option"
  extend_transport :: "object_id option"
  extend_request_issued :: bool
  control_index :: nat
  failure_kind :: "FailureEffectKind option"
  failure_code :: reason
  failure_stage :: string
  accepted :: "(BootTransitionState \<times> observation_body) list"

type_synonym 'a engine_step = "boot_engine \<Rightarrow> (boot_error + 'a) \<times> boot_engine"
type_synonym 'a process_step = "process \<times> boot_engine \<Rightarrow> (boot_error + 'a) \<times> process \<times> boot_engine"

definition new_boot_engine :: "bool \<Rightarrow> BootBinding \<Rightarrow> boot_error + boot_engine" where
  "new_boot_engine issued b =
     (if \<not> issued then Inl (BootError CP_BOOT_BINDING ''boot engine requires a binder-issued sealed binding'')
      else Inr \<lparr>binding = b, bstate = CMDLINE, bpending = None, runtime_mapping = None, models_mapping = None, extend_transport = None,
        extend_request_issued = False, control_index = 1, failure_kind = Some DIAGNOSTIC, failure_code = CP_BOOT_PROTOCOL,
        failure_stage = boot_state_value CMDLINE, accepted = []\<rparr>)"

definition contract :: "boot_engine \<Rightarrow> string" where "contract e = boot_contract_sha256 (binding e)"

definition snapshot :: "boot_engine \<Rightarrow> BootRuntimeSnapshot" where "snapshot e = runtime (binding e)"

definition pcr15_measurement :: "BootBinding \<Rightarrow> bytes" where
  "pcr15_measurement b = sha256 (''sol-spp-appliance-manifest-v1'' @ [CHR 0x00] @ accepted_manifest_bytes b)"

definition predicted_pcr15 :: "BootBinding \<Rightarrow> bytes" where
  "predicted_pcr15 b = sha256 (ZERO_PCR @ pcr15_measurement b)"

section \<open>Failure\<close>

definition fail_engine :: "reason \<Rightarrow> boot_engine \<Rightarrow> boot_engine" where
  "fail_engine code e =
     (if bstate e = FAILED_NON_SERVING then e
      else e\<lparr>failure_stage := boot_state_value (bstate e), bstate := FAILED_NON_SERVING, extend_transport := None,
             failure_kind := Some DIAGNOSTIC, failure_code := code\<rparr>)"

definition failure_effect :: "boot_engine \<Rightarrow> boot_effect option" where
  "failure_effect e = (case failure_kind e of
     None \<Rightarrow> None
   | Some DIAGNOSTIC \<Rightarrow> Some (contract e, SafeDiagnosticEffect
       \<lparr>diag_code = failure_code e, diag_stage = failure_stage e, contract_prefix = take 16 (contract e)\<rparr>)
   | Some CLOSE_SERVING_NETWORK \<Rightarrow> Some (contract e, CloseServingNetworkEffect)
   | Some POWEROFF_KIND \<Rightarrow> Some (contract e, PoweroffEffect))"

fun next_failure_kind :: "FailureEffectKind \<Rightarrow> FailureEffectKind option" where
  "next_failure_kind DIAGNOSTIC = Some CLOSE_SERVING_NETWORK"
| "next_failure_kind CLOSE_SERVING_NETWORK = Some POWEROFF_KIND"
| "next_failure_kind POWEROFF_KIND = None"

definition accept_failure :: "boot_observation \<Rightarrow> BootTransitionState engine_step" where
  "accept_failure ob e = (case failure_kind e of
     None \<Rightarrow> (Inl (BootError CP_BOOT_PROTOCOL ''failure effects are complete''), e)
   | Some k \<Rightarrow>
       if ob \<noteq> Observation (contract e) (FailureEffectAcknowledgement k)
       then (Inl (BootError CP_BOOT_OBSERVATION ''failure effect acknowledgement is invalid''), e)
       else (Inr (bstate e), e\<lparr>failure_kind := next_failure_kind k\<rparr>))"

section \<open>Effects\<close>

definition mapping :: "string option \<Rightarrow> boot_error + string" where
  "mapping m = (case m of
     Some (c # cs) \<Rightarrow> Inr (c # cs)
   | _ \<Rightarrow> Inl (BootError CP_BOOT_PROTOCOL ''mapping identity was not established''))"

definition effect_for_state :: "effect_body engine_step" where
  "effect_for_state e =
     (let r = snapshot e; give = (\<lambda>b. (Inr b, e)) in
      case bstate e of
        CMDLINE \<Rightarrow> give (CheckCmdlineEffect (cmdline r))
      | PCR15_ZERO \<Rightarrow> give (ReadPcr15Effect ZERO_PCR)
      | DISK_LOCATORS \<Rightarrow> give (LocateExpectedDiskEffect (gpt_disk_guid (binding e)) (disk_locators r))
      | RUNTIME_MAP \<Rightarrow> give (MapVerityEffect (runtime_policy_verity r))
      | RUNTIME_VERIFY \<Rightarrow> (bindE (mapping (runtime_mapping e)) (\<lambda>m. Inr (VerifyVerityEffect (runtime_policy_verity r) m)), e)
      | RUNTIME_MAPPING_IDENTITY \<Rightarrow> (bindE (mapping (runtime_mapping e)) (\<lambda>m. Inr (ReadMappingIdentityEffect (runtime_policy_verity r) m)), e)
      | MODELS_MAP \<Rightarrow> give (MapVerityEffect (models_verity r))
      | MODELS_VERIFY \<Rightarrow> (bindE (mapping (models_mapping e)) (\<lambda>m. Inr (VerifyVerityEffect (models_verity r) m)), e)
      | MODELS_MAPPING_IDENTITY \<Rightarrow> (bindE (mapping (models_mapping e)) (\<lambda>m. Inr (ReadMappingIdentityEffect (models_verity r) m)), e)
      | RUNTIME_MOUNT \<Rightarrow> give (MountImageEffect ''runtime-policy'' (runtime_policy_destination r) RUNTIME_FLAGS)
      | RUNTIME_EXECUTABLE_CONFINEMENT \<Rightarrow> give (ConfineRuntimeExecutablesEffect (executable_paths r))
      | MODELS_MOUNT \<Rightarrow> give (MountImageEffect ''models'' (models_destination r) MODELS_FLAGS)
      | MUTABLE_ROOTS \<Rightarrow> give CheckMutableRootsEffect
      | TMPFS \<Rightarrow> give (CreateTmpfsEffect (tmpfs_mounts r) TMPFS_FLAGS)
      | MODULES \<Rightarrow> give (LoadModulesEffect (module_entries r))
      | MODULES_DISABLED \<Rightarrow> give CloseModulesEffect
      | MUTABLE_CONTROLS \<Rightarrow>
          if control_index e < length (mutable_control_order r) then give (CloseMutableControlEffect (mutable_control_order r ! control_index e))
          else (Inl BootIndexError, e)
      | PCR15_EXTEND \<Rightarrow>
          (Inl (BootError CP_BOOT_LATCH ''PCR15 extend effects are emitted only by advance with a transport''), fail_engine CP_BOOT_LATCH e)
      | PCR15_READBACK \<Rightarrow> give (ReadPcr15Effect (predicted_pcr15 (binding e)))
      | TRANSPORT_CLOSED \<Rightarrow> give CloseTransportEffect
      | SERVING_READY \<Rightarrow> give ServingReadyEffect
      | _ \<Rightarrow> (Inl (BootError CP_BOOT_PROTOCOL ''unrecognized boot transition state''), fail_engine CP_BOOT_PROTOCOL e))"

definition next_boot_effect :: "boot_effect option engine_step" where
  "next_boot_effect e =
     (case bpending e of
        Some p \<Rightarrow> (Inr (Some p), e)
      | None \<Rightarrow>
          if bstate e = SERVING then (Inr None, e)
          else if bstate e = FAILED_NON_SERVING then (Inr (failure_effect e), e)
          else case effect_for_state e of
              (Inl x, e') \<Rightarrow> (Inl x, e')
            | (Inr b, e') \<Rightarrow> (Inr (Some (contract e', b)), e'\<lparr>bpending := Some (contract e', b)\<rparr>))"

section \<open>Observations\<close>

text \<open>
  \<open>_observation_type\<close>: whether an observation has the class that belongs to an effect. Effects
  without an entry (those of the failure path) are never looked up.
\<close>

fun effect_class :: "effect_body \<Rightarrow> nat" where
  "effect_class (CheckCmdlineEffect _) = 1"
| "effect_class (ReadPcr15Effect _) = 2"
| "effect_class (LocateExpectedDiskEffect _ _) = 3"
| "effect_class (MapVerityEffect _) = 4"
| "effect_class (VerifyVerityEffect _ _) = 5"
| "effect_class (ReadMappingIdentityEffect _ _) = 6"
| "effect_class (MountImageEffect _ _ _) = 7"
| "effect_class (ConfineRuntimeExecutablesEffect _) = 8"
| "effect_class CheckMutableRootsEffect = 9"
| "effect_class (CreateTmpfsEffect _ _) = 10"
| "effect_class (LoadModulesEffect _) = 11"
| "effect_class CloseModulesEffect = 12"
| "effect_class (CloseMutableControlEffect _) = 13"
| "effect_class (ExtendPcr15Effect _ _) = 14"
| "effect_class CloseTransportEffect = 15"
| "effect_class ServingReadyEffect = 16"
| "effect_class _ = 0"

fun observation_class :: "observation_body \<Rightarrow> nat" where
  "observation_class (CmdlineObservation _ _) = 1"
| "observation_class (Pcr15Readback _) = 2"
| "observation_class (DiskLocatorsObservation _ _) = 3"
| "observation_class (VerityMappedObservation _ _) = 4"
| "observation_class (VerityVerifiedObservation _ _) = 5"
| "observation_class (MappingIdentityObservation _ _) = 6"
| "observation_class (MountReadback _ _ _) = 7"
| "observation_class (RuntimeExecutableObservation _) = 8"
| "observation_class (MutableRootsObservation _) = 9"
| "observation_class (TmpfsReadback _ _) = 10"
| "observation_class (ModuleReadback _) = 11"
| "observation_class (ModulesDisabledReadback _) = 12"
| "observation_class (ControlReadback _ _) = 13"
| "observation_class (Pcr15ExtendObservation _) = 14"
| "observation_class (TransportClosedObservation _) = 15"
| "observation_class (ServingReadyObservation _) = 16"
| "observation_class _ = 17"

text \<open>One helper per kind of check; a body of another class has no such attribute.\<close>

definition to_state :: "BootTransitionState \<Rightarrow> unit engine_step" where "to_state s e = (Inr (), e\<lparr>bstate := s\<rparr>)"

definition check_then :: "bool \<Rightarrow> reason \<Rightarrow> string \<Rightarrow> BootTransitionState \<Rightarrow> unit engine_step" where
  "check_then c code m s e = (if c then to_state s e else (Inl (BootError code m), e))"

fun map_verity :: "VerityPair \<Rightarrow> (string \<Rightarrow> boot_engine \<Rightarrow> boot_engine) \<Rightarrow> BootTransitionState \<Rightarrow> observation_body \<Rightarrow> unit engine_step" where
  "map_verity pair store s (VerityMappedObservation q m) e =
     (if q = pair \<and> m \<noteq> [] then to_state s (store m e) else (Inl (BootError CP_BOOT_OBSERVATION ''verity mapping observation is invalid''), e))"
| "map_verity pair store s _ e = (Inl BootAttributeError, e)"

fun identity_fields :: "observation_body \<Rightarrow> (VerityPair \<times> string) option" where
  "identity_fields (VerityVerifiedObservation q m) = Some (q, m)"
| "identity_fields (MappingIdentityObservation q m) = Some (q, m)"
| "identity_fields (VerityMappedObservation q m) = Some (q, m)"
| "identity_fields _ = None"

definition check_identity :: "VerityPair \<Rightarrow> string option \<Rightarrow> string \<Rightarrow> BootTransitionState \<Rightarrow> observation_body \<Rightarrow> unit engine_step" where
  "check_identity pair known msg s ob e = (case identity_fields ob of
     None \<Rightarrow> (Inl BootAttributeError, e)
   | Some (q, m) \<Rightarrow>
       if q \<noteq> pair then (Inl (BootError CP_BOOT_OBSERVATION msg), e)
       else case mapping known of
           Inl x \<Rightarrow> (Inl x, e)
         | Inr m' \<Rightarrow> check_then (m = m') CP_BOOT_OBSERVATION msg s e)"

fun accept_control :: "string \<Rightarrow> observation_body \<Rightarrow> boot_engine \<Rightarrow> boot_error + unit" where
  "accept_control control (ControlReadback c status) e =
     (if c \<noteq> control then Inl (BootError CP_BOOT_CONTROL ''mutable control readback is invalid'')
      else case find_support control (mutable_controls (snapshot e)) of
          None \<Rightarrow> Inl (BootError CP_BOOT_CONTROL ''boot binding lacks a mutable control snapshot'')
        | Some support \<Rightarrow>
            if status = DISABLED \<or> support = CONDITIONAL then Inr ()
            else Inl (BootError CP_BOOT_CONTROL ''control is neither disabled nor conditionally nonexistent''))"
| "accept_control control _ e = Inl BootAttributeError"

definition accept_modules_disabled :: "observation_body \<Rightarrow> unit engine_step" where
  "accept_modules_disabled ob e =
     (if ob \<noteq> ModulesDisabledReadback SET_TO_1 then (Inl (BootError CP_BOOT_CONTROL ''kernel.modules_disabled=1 was not read back''), e)
      else case find_support ''module_loading'' (mutable_controls (snapshot e)) of
          None \<Rightarrow> (Inl (BootError CP_BOOT_CONTROL ''boot binding lacks a mutable control snapshot''), e)
        | Some support \<Rightarrow> check_then (support = REQUIRED) CP_BOOT_CONTROL ''kernel.modules_disabled=1 was not read back'' MUTABLE_CONTROLS e)"

definition accept_mutable_control :: "observation_body \<Rightarrow> unit engine_step" where
  "accept_mutable_control ob e =
     (let order = mutable_control_order (snapshot e); i = control_index e in
      if i \<ge> length order then (Inl BootIndexError, e)
      else case accept_control (order ! i) ob e of
          Inl x \<Rightarrow> (Inl x, e)
        | Inr _ \<Rightarrow> (Inr (), e\<lparr>control_index := i + 1, bstate := if i + 1 = length order then PCR15_EXTEND else bstate e\<rparr>))"

definition accept_extend :: "observation_body \<Rightarrow> unit process_step" where
  "accept_extend ob s = (case s of (p, e) \<Rightarrow>
     if \<not> (extend_request_issued e \<and> extend_transport e \<noteq> None)
     then (Inl (BootError CP_BOOT_LATCH ''PCR15 observation has no claimed extend transport''), p, e)
     else case ob of
         Pcr15ExtendObservation outcome \<Rightarrow> (Inr (), record_extend_outcome outcome p, e\<lparr>bstate := PCR15_READBACK\<rparr>)
       | _ \<Rightarrow> (Inl BootAttributeError, p, e))"

definition accept_closed :: "observation_body \<Rightarrow> unit process_step" where
  "accept_closed ob s = (case s of (p, e) \<Rightarrow>
     if ob \<noteq> TransportClosedObservation CLOSED then (Inl (BootError CP_BOOT_OBSERVATION ''transport closure readback is invalid''), p, e)
     else case record_extend_transport_closed p of
         (Inl x, p') \<Rightarrow> (Inl x, p', e)
       | (Inr _, p') \<Rightarrow> (Inr (), p', e\<lparr>extend_transport := None, bstate := SERVING_READY\<rparr>))"

text \<open>The states whose acceptance does not touch the latch.\<close>

definition accept_local :: "observation_body \<Rightarrow> unit engine_step" where
  "accept_local ob e =
     (let r = snapshot e in
      case bstate e of
        CMDLINE \<Rightarrow> check_then (ob = CmdlineObservation (cmdline r) []) CP_BOOT_OBSERVATION ''cmdline or external companion check failed'' PCR15_ZERO e
      | PCR15_ZERO \<Rightarrow> check_then (ob = Pcr15Readback ZERO_PCR) CP_BOOT_PCR ''PCR15 readback disagrees'' DISK_LOCATORS e
      | DISK_LOCATORS \<Rightarrow>
          check_then (ob = DiskLocatorsObservation (gpt_disk_guid (binding e)) (disk_locators r) \<and> card (set (disk_locators r)) = 4)
            CP_BOOT_OBSERVATION ''expected disk locators are not unique and exact'' RUNTIME_MAP e
      | RUNTIME_MAP \<Rightarrow> map_verity (runtime_policy_verity r) (\<lambda>m e. e\<lparr>runtime_mapping := Some m\<rparr>) RUNTIME_VERIFY ob e
      | MODELS_MAP \<Rightarrow> map_verity (models_verity r) (\<lambda>m e. e\<lparr>models_mapping := Some m\<rparr>) MODELS_VERIFY ob e
      | RUNTIME_VERIFY \<Rightarrow>
          check_identity (runtime_policy_verity r) (runtime_mapping e) ''verity verification observation is invalid'' RUNTIME_MAPPING_IDENTITY ob e
      | MODELS_VERIFY \<Rightarrow>
          check_identity (models_verity r) (models_mapping e) ''verity verification observation is invalid'' MODELS_MAPPING_IDENTITY ob e
      | RUNTIME_MAPPING_IDENTITY \<Rightarrow>
          check_identity (runtime_policy_verity r) (runtime_mapping e) ''mapping identity readback disagrees'' MODELS_MAP ob e
      | MODELS_MAPPING_IDENTITY \<Rightarrow>
          check_identity (models_verity r) (models_mapping e) ''mapping identity readback disagrees'' RUNTIME_MOUNT ob e
      | RUNTIME_MOUNT \<Rightarrow>
          check_then (ob = MountReadback ''runtime-policy'' (runtime_policy_destination r) RUNTIME_FLAGS)
            CP_BOOT_OBSERVATION ''runtime-policy mount readback is invalid'' RUNTIME_EXECUTABLE_CONFINEMENT e
      | RUNTIME_EXECUTABLE_CONFINEMENT \<Rightarrow>
          check_then (ob = RuntimeExecutableObservation (executable_paths r))
            CP_BOOT_OBSERVATION ''runtime executable confinement disagrees with predecessor graph'' MODELS_MOUNT e
      | MODELS_MOUNT \<Rightarrow>
          check_then (ob = MountReadback ''models'' (models_destination r) MODELS_FLAGS)
            CP_BOOT_OBSERVATION ''models mount readback is invalid'' MUTABLE_ROOTS e
      | MUTABLE_ROOTS \<Rightarrow> check_then (ob = MutableRootsObservation []) CP_BOOT_OBSERVATION ''mutable roots are present'' TMPFS e
      | TMPFS \<Rightarrow> check_then (ob = TmpfsReadback (tmpfs_mounts r) TMPFS_FLAGS) CP_BOOT_OBSERVATION ''tmpfs readback is not exact'' MODULES e
      | MODULES \<Rightarrow>
          check_then (ob = ModuleReadback (map plan_identity (module_entries r))) CP_BOOT_OBSERVATION ''module load readback is not exact'' MODULES_DISABLED e
      | MODULES_DISABLED \<Rightarrow> accept_modules_disabled ob e
      | MUTABLE_CONTROLS \<Rightarrow> accept_mutable_control ob e
      | PCR15_READBACK \<Rightarrow> check_then (ob = Pcr15Readback (predicted_pcr15 (binding e))) CP_BOOT_PCR ''PCR15 readback disagrees'' TRANSPORT_CLOSED e
      | SERVING_READY \<Rightarrow> check_then (ob = ServingReadyObservation AUTHORIZED) CP_BOOT_OBSERVATION ''serving authorization is invalid'' SERVING e
      | _ \<Rightarrow> (Inl (BootError CP_BOOT_PROTOCOL ''state cannot accept a normal observation''), e))"

definition accept_normal :: "observation_body \<Rightarrow> unit process_step" where
  "accept_normal ob s = (case s of (p, e) \<Rightarrow>
     if bstate e = PCR15_EXTEND then accept_extend ob (p, e)
     else if bstate e = TRANSPORT_CLOSED then accept_closed ob (p, e)
     else case accept_local ob e of (x, e') \<Rightarrow> (x, p, e'))"

text \<open>\<open>except ApplianceError\<close>: other exceptions pass with the pending effect kept.\<close>

definition failing :: "unit process_step \<Rightarrow> BootTransitionState process_step" where
  "failing m s = (case m s of
     (Inr _, p, e) \<Rightarrow> (let e' = e\<lparr>bpending := None\<rparr> in (Inr (bstate e'), p, e'))
   | (Inl (BootError code msg), p, e) \<Rightarrow> (Inl (BootError code msg), p, fail_engine code (e\<lparr>bpending := None\<rparr>))
   | (Inl x, p, e) \<Rightarrow> (Inl x, p, e))"

definition check_and_accept :: "effect_body \<Rightarrow> boot_observation \<Rightarrow> unit process_step" where
  "check_and_accept b ob s = (case s of (p, e) \<Rightarrow>
     case ob of
       Foreign_value \<Rightarrow> (Inl (BootError CP_BOOT_OBSERVATION ''observation type does not match requested effect''), p, e)
     | Observation c body \<Rightarrow>
         if observation_class body \<noteq> effect_class b
         then (Inl (BootError CP_BOOT_OBSERVATION ''observation type does not match requested effect''), p, e)
         else if c \<noteq> contract e
         then (Inl (BootError CP_BOOT_OBSERVATION ''observation contract digest is stale or wrong''), p, e)
         else (case accept_normal body (p, e) of
             (Inr _, p', e') \<Rightarrow> (Inr (), p', e'\<lparr>accepted := accepted e' @ [(bstate e, body)]\<rparr>)
           | (Inl x, s') \<Rightarrow> (Inl x, s')))"

definition accept_boot :: "boot_observation \<Rightarrow> BootTransitionState process_step" where
  "accept_boot ob s = (case s of (p, e) \<Rightarrow>
     case next_boot_effect e of
       (Inl x, e') \<Rightarrow> (Inl x, p, e')
     | (Inr None, e') \<Rightarrow> (Inl (BootError CP_BOOT_PROTOCOL ''terminal boot transition cannot accept observations''), p, e')
     | (Inr (Some (_, b)), e') \<Rightarrow>
         if bstate e' = FAILED_NON_SERVING then (case accept_failure ob e' of (x, e2) \<Rightarrow> (x, p, e2))
         else failing (check_and_accept b ob) (p, e'))"

section \<open>Advancing\<close>

text \<open>The claim of the extension, before the effect of the state is taken.\<close>

definition claim_extend :: "object_id \<Rightarrow> unit process_step" where
  "claim_extend t s = (case s of (p, e) \<Rightarrow>
     if bstate e = PCR15_EXTEND \<and> bpending e = None then
       (case claim_extend_transport p of
          (False, p') \<Rightarrow> (Inl (BootError CP_BOOT_LATCH ''a PCR15 extend transport was already claimed for this boot''), p', fail_engine CP_BOOT_LATCH e)
        | (True, p') \<Rightarrow> (Inr (), p', e\<lparr>extend_transport := Some t, extend_request_issued := True,
             bpending := Some (contract e, ExtendPcr15Effect (pcr15_measurement (binding e)) DERIVED_APPRAISED_CONJUNCTION)\<rparr>))
     else (Inr (), p, e))"

definition wrong_transport :: "object_id \<Rightarrow> effect_body \<Rightarrow> boot_engine \<Rightarrow> string option" where
  "wrong_transport t b e =
     (if is_extend b then
        (if extend_transport e \<noteq> Some t then Some ''PCR15 extend requires the transport that claimed the request'' else None)
      else if bstate e = PCR15_READBACK \<or> bstate e = TRANSPORT_CLOSED then
        (if extend_transport e \<noteq> Some t then Some ''PCR15 readback and closure require the claimed extend transport'' else None)
      else None)"

definition execute_effect :: "transport_answer \<Rightarrow> boot_effect \<Rightarrow> BootTransitionState process_step" where
  "execute_effect execute ef s = (case s of (p, e) \<Rightarrow>
     let p1 = log_effect ef p in
     case execute ef of
       Some ob \<Rightarrow> accept_boot ob (p1, e)
     | None \<Rightarrow>
         if is_extend (snd ef) then accept_boot (Observation (contract e) (Pcr15ExtendObservation EXTEND_ERROR)) (p1, e)
         else (Inl (BootError CP_BOOT_PROTOCOL ''typed boot transport failed''), p1, fail_engine CP_BOOT_PROTOCOL (e\<lparr>bpending := None\<rparr>)))"

definition advance_boot :: "object_id \<Rightarrow> transport_answer \<Rightarrow> BootTransitionState process_step" where
  "advance_boot t execute s = (case claim_extend t s of
     (Inl x, s') \<Rightarrow> (Inl x, s')
   | (Inr _, p, e) \<Rightarrow>
       (case next_boot_effect e of
          (Inl x, e') \<Rightarrow> (Inl x, p, e')
        | (Inr None, e') \<Rightarrow> (Inl (BootError CP_BOOT_PROTOCOL ''boot transition has no further effect''), p, e')
        | (Inr (Some ef), e') \<Rightarrow>
            (case wrong_transport t (snd ef) e' of
               Some m \<Rightarrow> (Inl (BootError CP_BOOT_LATCH m), p, fail_engine CP_BOOT_LATCH (e'\<lparr>bpending := None\<rparr>))
             | None \<Rightarrow> execute_effect execute ef (p, e'))))"

definition invoke_serving_action :: "ServingAction \<Rightarrow> transport_answer \<Rightarrow> boot_observation process_step" where
  "invoke_serving_action act execute s = (case s of (p, e) \<Rightarrow>
     if bstate e \<noteq> SERVING
     then (Inl (BootError CP_BOOT_PROTOCOL ''serving action is unavailable before serving readiness''), p, fail_engine CP_BOOT_PROTOCOL e)
     else let ef = (contract e, ServingActionEffect act); p1 = log_effect ef p in
       case execute ef of
         None \<Rightarrow> (Inl (BootError CP_BOOT_PROTOCOL ''typed serving transport failed''), p1, fail_engine CP_BOOT_PROTOCOL e)
       | Some ob \<Rightarrow>
           if ob \<noteq> Observation (contract e) (ServingActionObservation act COMPLETED)
           then (Inl (BootError CP_BOOT_OBSERVATION ''serving action observation is invalid''), p1, fail_engine CP_BOOT_OBSERVATION e)
           else (Inr ob, p1, e))"

section \<open>The golden order\<close>

definition BOOT_TRANSITION_TABLE :: "(BootTransitionState \<times> string \<times> string) list" where
  "BOOT_TRANSITION_TABLE =
    [(CMDLINE, ''CheckCmdlineEffect'', ''exact cmdline and no companions''),
     (PCR15_ZERO, ''ReadPcr15Effect'', ''PCR15 is exactly zero''),
     (DISK_LOCATORS, ''LocateExpectedDiskEffect'', ''one expected disk and four exact locators''),
     (RUNTIME_MAP, ''MapVerityEffect'', ''runtime-policy mapped''),
     (RUNTIME_VERIFY, ''VerifyVerityEffect'', ''runtime-policy verified''),
     (RUNTIME_MAPPING_IDENTITY, ''ReadMappingIdentityEffect'', ''runtime-policy mapping identity independently read''),
     (MODELS_MAP, ''MapVerityEffect'', ''models mapped''),
     (MODELS_VERIFY, ''VerifyVerityEffect'', ''models verified''),
     (MODELS_MAPPING_IDENTITY, ''ReadMappingIdentityEffect'', ''models mapping identity independently read''),
     (RUNTIME_MOUNT, ''MountImageEffect'', ''runtime-policy RO,nodev,nosuid''),
     (RUNTIME_EXECUTABLE_CONFINEMENT, ''ConfineRuntimeExecutablesEffect'', ''executable paths equal predecessor graph''),
     (MODELS_MOUNT, ''MountImageEffect'', ''models RO,nodev,nosuid,noexec''),
     (MUTABLE_ROOTS, ''CheckMutableRootsEffect'', ''no extra writable or executable mutable roots''),
     (TMPFS, ''CreateTmpfsEffect'', ''only fixed nosuid,nodev,noexec tmpfs mounts''),
     (MODULES, ''LoadModulesEffect'', ''exact ordered module set loaded''),
     (MODULES_DISABLED, ''CloseModulesEffect'', ''kernel.modules_disabled=1 read back''),
     (MUTABLE_CONTROLS, ''CloseMutableControlEffect'', ''each remaining mutable control closed''),
     (PCR15_EXTEND, ''ExtendPcr15Effect'', ''one global extend request issued''),
     (PCR15_READBACK, ''ReadPcr15Effect'', ''predicted PCR15 read back''),
     (TRANSPORT_CLOSED, ''CloseTransportEffect'', ''transport closed''),
     (SERVING_READY, ''ServingReadyEffect'', ''serving authorization emitted only after closure'')]"

text \<open>The states to pass before a state, the mutable controls once per control.\<close>

definition expand :: "nat \<Rightarrow> BootTransitionState list \<Rightarrow> BootTransitionState list" where
  "expand n ss = concat (map (\<lambda>s. if s = MUTABLE_CONTROLS then replicate n s else [s]) ss)"

definition prior :: "BootTransitionState \<Rightarrow> BootTransitionState list" where
  "prior s = takeWhile (\<lambda>x. x \<noteq> s) (map fst BOOT_TRANSITION_TABLE)"

definition other_controls :: "BootBinding \<Rightarrow> nat" where
  "other_controls b = length (mutable_control_order (runtime b)) - 1"

definition visited :: "boot_engine \<Rightarrow> BootTransitionState list" where
  "visited e = expand (other_controls (binding e)) (prior (bstate e)) @
     (if bstate e = MUTABLE_CONTROLS then replicate (control_index e - 1) MUTABLE_CONTROLS else [])"

text \<open>
  What each state of the table demands of its observation: the very values of the sealed binding
  and the predicted register, and for the verity images one mapping identity throughout.
\<close>

definition control_closed :: "BootBinding \<Rightarrow> observation_body \<Rightarrow> bool" where
  "control_closed b ob \<longleftrightarrow> (\<exists>c status. ob = ControlReadback c status \<and> c \<in> set (mutable_control_order (runtime b)) \<and>
     (status = DISABLED \<or> find_support c (mutable_controls (runtime b)) = Some CONDITIONAL))"

definition demanded :: "BootBinding \<Rightarrow> string option \<Rightarrow> string option \<Rightarrow> BootTransitionState \<Rightarrow> observation_body \<Rightarrow> bool" where
  "demanded b rm mm s ob =
     (let r = runtime b in
      case s of
        CMDLINE \<Rightarrow> ob = CmdlineObservation (cmdline r) []
      | PCR15_ZERO \<Rightarrow> ob = Pcr15Readback ZERO_PCR
      | DISK_LOCATORS \<Rightarrow> ob = DiskLocatorsObservation (gpt_disk_guid b) (disk_locators r) \<and> card (set (disk_locators r)) = 4
      | RUNTIME_MAP \<Rightarrow> (\<exists>m. rm = Some m \<and> m \<noteq> [] \<and> ob = VerityMappedObservation (runtime_policy_verity r) m)
      | RUNTIME_VERIFY \<Rightarrow> (\<exists>m. rm = Some m \<and> ob = VerityVerifiedObservation (runtime_policy_verity r) m)
      | RUNTIME_MAPPING_IDENTITY \<Rightarrow> (\<exists>m. rm = Some m \<and> ob = MappingIdentityObservation (runtime_policy_verity r) m)
      | MODELS_MAP \<Rightarrow> (\<exists>m. mm = Some m \<and> m \<noteq> [] \<and> ob = VerityMappedObservation (models_verity r) m)
      | MODELS_VERIFY \<Rightarrow> (\<exists>m. mm = Some m \<and> ob = VerityVerifiedObservation (models_verity r) m)
      | MODELS_MAPPING_IDENTITY \<Rightarrow> (\<exists>m. mm = Some m \<and> ob = MappingIdentityObservation (models_verity r) m)
      | RUNTIME_MOUNT \<Rightarrow> ob = MountReadback ''runtime-policy'' (runtime_policy_destination r) RUNTIME_FLAGS
      | RUNTIME_EXECUTABLE_CONFINEMENT \<Rightarrow> ob = RuntimeExecutableObservation (executable_paths r)
      | MODELS_MOUNT \<Rightarrow> ob = MountReadback ''models'' (models_destination r) MODELS_FLAGS
      | MUTABLE_ROOTS \<Rightarrow> ob = MutableRootsObservation []
      | TMPFS \<Rightarrow> ob = TmpfsReadback (tmpfs_mounts r) TMPFS_FLAGS
      | MODULES \<Rightarrow> ob = ModuleReadback (map plan_identity (module_entries r))
      | MODULES_DISABLED \<Rightarrow> ob = ModulesDisabledReadback SET_TO_1 \<and> find_support ''module_loading'' (mutable_controls r) = Some REQUIRED
      | MUTABLE_CONTROLS \<Rightarrow> control_closed b ob
      | PCR15_EXTEND \<Rightarrow> (\<exists>outcome. ob = Pcr15ExtendObservation outcome)
      | PCR15_READBACK \<Rightarrow> ob = Pcr15Readback (predicted_pcr15 b)
      | TRANSPORT_CLOSED \<Rightarrow> ob = TransportClosedObservation CLOSED
      | SERVING_READY \<Rightarrow> ob = ServingReadyObservation AUTHORIZED
      | _ \<Rightarrow> False)"

text \<open>Each state waits for one class of observation.\<close>

fun state_class :: "BootTransitionState \<Rightarrow> nat" where
  "state_class CMDLINE = 1" | "state_class PCR15_ZERO = 2" | "state_class DISK_LOCATORS = 3"
| "state_class RUNTIME_MAP = 4" | "state_class RUNTIME_VERIFY = 5" | "state_class RUNTIME_MAPPING_IDENTITY = 6"
| "state_class MODELS_MAP = 4" | "state_class MODELS_VERIFY = 5" | "state_class MODELS_MAPPING_IDENTITY = 6"
| "state_class RUNTIME_MOUNT = 7" | "state_class RUNTIME_EXECUTABLE_CONFINEMENT = 8" | "state_class MODELS_MOUNT = 7"
| "state_class MUTABLE_ROOTS = 9" | "state_class TMPFS = 10" | "state_class MODULES = 11" | "state_class MODULES_DISABLED = 12"
| "state_class MUTABLE_CONTROLS = 13" | "state_class PCR15_EXTEND = 14" | "state_class PCR15_READBACK = 2"
| "state_class TRANSPORT_CLOSED = 15" | "state_class SERVING_READY = 16" | "state_class _ = 0"

definition index_ok :: "boot_engine \<Rightarrow> bool" where
  "index_ok e \<longleftrightarrow> (MUTABLE_CONTROLS \<in> set (prior (bstate e)) \<or> bstate e = FAILED_NON_SERVING \<or>
     (if bstate e = MUTABLE_CONTROLS then control_index e \<ge> 1 else control_index e = 1))"

definition pending_ok :: "boot_engine \<Rightarrow> bool" where
  "pending_ok e \<longleftrightarrow> (\<forall>c b. bpending e = Some (c, b) \<longrightarrow> bstate e = FAILED_NON_SERVING \<or> effect_class b = state_class (bstate e))"

definition boot_inv :: "BootBinding \<Rightarrow> boot_engine \<Rightarrow> bool" where
  "boot_inv b e \<longleftrightarrow> binding e = b \<and> pending_ok e \<and> index_ok e \<and>
     (bstate e \<noteq> FAILED_NON_SERVING \<longrightarrow> map fst (accepted e) = visited e \<and>
        (\<forall>(s, ob) \<in> set (accepted e). demanded b (runtime_mapping e) (models_mapping e) s ob))"

lemma boot_inv_fail: "boot_inv b e \<Longrightarrow> boot_inv b (fail_engine code (e\<lparr>bpending := x\<rparr>))"
  by (auto simp: boot_inv_def fail_engine_def pending_ok_def index_ok_def)

lemma boot_inv_fail': "boot_inv b e \<Longrightarrow> boot_inv b (fail_engine code e)"
  by (auto simp: boot_inv_def fail_engine_def pending_ok_def index_ok_def)

lemma boot_inv_new: "new_boot_engine True b = Inr e \<Longrightarrow> boot_inv b e"
  by (auto simp: new_boot_engine_def boot_inv_def pending_ok_def index_ok_def visited_def prior_def expand_def BOOT_TRANSITION_TABLE_def)

text \<open>One accepted observation moves the engine to the next state of the table.\<close>

lemma boot_inv_step:
  assumes inv: "boot_inv b e" and st: "bstate e \<noteq> FAILED_NON_SERVING" "bstate e \<noteq> MUTABLE_CONTROLS" "s' \<noteq> FAILED_NON_SERVING"
    and next_state: "prior s' = prior (bstate e) @ [bstate e]"
    and e': "binding e' = b" "bstate e' = s'" "control_index e' = control_index e"
    and dem: "demanded b (runtime_mapping e') (models_mapping e') (bstate e) ob"
    and old: "\<forall>(s, ob) \<in> set (accepted e). demanded b (runtime_mapping e') (models_mapping e') s ob"
  shows "boot_inv b (e'\<lparr>accepted := accepted e @ [(bstate e, ob)], bpending := None\<rparr>)"
proof -
  have v: "map fst (accepted e) = expand (other_controls b) (prior (bstate e))" and i: "index_ok e"
    using inv st by (simp_all add: boot_inv_def visited_def)
  have x: "expand (other_controls b) (prior s') = expand (other_controls b) (prior (bstate e)) @ [bstate e]"
    using st by (simp add: next_state expand_def)
  have "MUTABLE_CONTROLS \<notin> set (prior MUTABLE_CONTROLS)" by (auto simp: prior_def dest: set_takeWhileD)
  with next_state have "s' = MUTABLE_CONTROLS \<Longrightarrow> MUTABLE_CONTROLS \<notin> set (prior (bstate e))" by auto
  then have c: "s' = MUTABLE_CONTROLS \<Longrightarrow> control_index e = 1" using i st by (auto simp: index_ok_def)
  have "index_ok (e'\<lparr>accepted := accepted e @ [(bstate e, ob)], bpending := None\<rparr>)"
    using i st next_state e' c by (auto simp: index_ok_def)
  then show ?thesis
    using e' v x c st dem old by (auto simp: boot_inv_def visited_def pending_ok_def)
qed

lemma demanded_before_maps:
  "s \<in> set (prior RUNTIME_MAP) \<Longrightarrow> demanded b rm mm s ob = demanded b rm' mm s ob"
  "s \<in> set (prior MODELS_MAP) \<Longrightarrow> demanded b rm mm s ob = demanded b rm mm' s ob"
  by (auto simp: prior_def BOOT_TRANSITION_TABLE_def demanded_def Let_def)

lemma prior_steps:
  "prior PCR15_ZERO = prior CMDLINE @ [CMDLINE]" "prior DISK_LOCATORS = prior PCR15_ZERO @ [PCR15_ZERO]"
  "prior RUNTIME_MAP = prior DISK_LOCATORS @ [DISK_LOCATORS]" "prior RUNTIME_VERIFY = prior RUNTIME_MAP @ [RUNTIME_MAP]"
  "prior RUNTIME_MAPPING_IDENTITY = prior RUNTIME_VERIFY @ [RUNTIME_VERIFY]"
  "prior MODELS_MAP = prior RUNTIME_MAPPING_IDENTITY @ [RUNTIME_MAPPING_IDENTITY]" "prior MODELS_VERIFY = prior MODELS_MAP @ [MODELS_MAP]"
  "prior MODELS_MAPPING_IDENTITY = prior MODELS_VERIFY @ [MODELS_VERIFY]"
  "prior RUNTIME_MOUNT = prior MODELS_MAPPING_IDENTITY @ [MODELS_MAPPING_IDENTITY]"
  "prior RUNTIME_EXECUTABLE_CONFINEMENT = prior RUNTIME_MOUNT @ [RUNTIME_MOUNT]"
  "prior MODELS_MOUNT = prior RUNTIME_EXECUTABLE_CONFINEMENT @ [RUNTIME_EXECUTABLE_CONFINEMENT]"
  "prior MUTABLE_ROOTS = prior MODELS_MOUNT @ [MODELS_MOUNT]" "prior TMPFS = prior MUTABLE_ROOTS @ [MUTABLE_ROOTS]"
  "prior MODULES = prior TMPFS @ [TMPFS]" "prior MODULES_DISABLED = prior MODULES @ [MODULES]"
  "prior MUTABLE_CONTROLS = prior MODULES_DISABLED @ [MODULES_DISABLED]" "prior PCR15_EXTEND = prior MUTABLE_CONTROLS @ [MUTABLE_CONTROLS]"
  "prior PCR15_READBACK = prior PCR15_EXTEND @ [PCR15_EXTEND]" "prior TRANSPORT_CLOSED = prior PCR15_READBACK @ [PCR15_READBACK]"
  "prior SERVING_READY = prior TRANSPORT_CLOSED @ [TRANSPORT_CLOSED]" "prior SERVING = prior SERVING_READY @ [SERVING_READY]"
  by (simp_all add: prior_def BOOT_TRANSITION_TABLE_def)

text \<open>The case of a plain check: the state changes and nothing else.\<close>

lemma plain_step:
  assumes "boot_inv b e" and "check_then c code m s' e = (Inr (), e')" and "bstate e \<noteq> FAILED_NON_SERVING" "bstate e \<noteq> MUTABLE_CONTROLS"
    "s' \<noteq> FAILED_NON_SERVING" "prior s' = prior (bstate e) @ [bstate e]"
    and "c \<Longrightarrow> demanded b (runtime_mapping e) (models_mapping e) (bstate e) ob"
  shows "boot_inv b (e'\<lparr>accepted := accepted e' @ [(bstate e, ob)], bpending := None\<rparr>)"
proof -
  have e': "e' = e\<lparr>bstate := s'\<rparr>" and c using assms(2) by (auto simp: check_then_def to_state_def split: if_splits)
  from boot_inv_step [OF assms(1,3-6), of e' ob] e' assms(1,3) assms(7) [OF \<open>c\<close>] show ?thesis by (auto simp: boot_inv_def)
qed

lemma plain_step':
  assumes "boot_inv b e" and "check_then c code m s' e = (Inr (), e')" and s: "bstate e = s" and "s \<noteq> FAILED_NON_SERVING" "s \<noteq> MUTABLE_CONTROLS"
    "s' \<noteq> FAILED_NON_SERVING" "prior s' = prior s @ [s]" and "c \<Longrightarrow> demanded b (runtime_mapping e) (models_mapping e) s ob"
  shows "boot_inv b (e'\<lparr>accepted := accepted e' @ [(s, ob)], bpending := None\<rparr>)"
  using plain_step [OF assms(1,2), of ob] assms(4-) by (simp add: s)

lemma map_step:
  assumes inv: "boot_inv b e" and ac: "map_verity pair store s' ob e = (Inr (), e')"
    and st: "bstate e \<noteq> FAILED_NON_SERVING" "bstate e \<noteq> MUTABLE_CONTROLS" "s' \<noteq> FAILED_NON_SERVING" "prior s' = prior (bstate e) @ [bstate e]"
    and store: "\<And>m. store m e = e\<lparr>runtime_mapping := rm m, models_mapping := mm m\<rparr>"
    and dem: "\<And>m. m \<noteq> [] \<Longrightarrow> demanded b (rm m) (mm m) (bstate e) (VerityMappedObservation pair m)"
    and old: "\<And>m. \<forall>(s, ob) \<in> set (accepted e). demanded b (rm m) (mm m) s ob"
  shows "boot_inv b (e'\<lparr>accepted := accepted e' @ [(bstate e, ob)], bpending := None\<rparr>)"
proof -
  obtain m where m: "ob = VerityMappedObservation pair m" "m \<noteq> []" "e' = e\<lparr>runtime_mapping := rm m, models_mapping := mm m, bstate := s'\<rparr>"
    using ac store by (cases ob) (auto simp: to_state_def split: if_splits)
  from boot_inv_step [OF inv st(1-3,4), of e' ob] m dem [OF m(2)] old [of m] inv show ?thesis by (auto simp: boot_inv_def)
qed

lemma mapping_Inr: "mapping m = Inr x \<longleftrightarrow> m = Some x \<and> x \<noteq> []"
  by (auto simp: mapping_def split: option.splits list.splits)

lemma identity_step:
  assumes inv: "boot_inv b e" and ac: "check_identity pair known msg s' ob e = (Inr (), e')" and s: "bstate e = s"
    and st: "s \<noteq> FAILED_NON_SERVING" "s \<noteq> MUTABLE_CONTROLS" "s' \<noteq> FAILED_NON_SERVING" "prior s' = prior s @ [s]"
    and dem: "\<And>m. known = Some m \<Longrightarrow> identity_fields ob = Some (pair, m) \<Longrightarrow> demanded b (runtime_mapping e) (models_mapping e) s ob"
  shows "boot_inv b (e'\<lparr>accepted := accepted e' @ [(s, ob)], bpending := None\<rparr>)"
proof -
  obtain m where m: "identity_fields ob = Some (pair, m)" "known = Some m" "check_then True CP_BOOT_OBSERVATION msg s' e = (Inr (), e')"
    using ac by (auto simp: check_identity_def check_then_def mapping_Inr split: option.splits if_splits sum.splits prod.splits)
  have "boot_inv b (e'\<lparr>accepted := accepted e' @ [(bstate e, ob)], bpending := None\<rparr>)"
    by (rule plain_step [OF inv m(3)]) (use st dem [OF m(2,1)] in \<open>simp_all add: s\<close>)
  then show ?thesis by (simp add: s)
qed

lemma class_fields:
  "observation_class ob = 5 \<Longrightarrow> identity_fields ob = Some (q, m) \<Longrightarrow> ob = VerityVerifiedObservation q m"
  "observation_class ob = 6 \<Longrightarrow> identity_fields ob = Some (q, m) \<Longrightarrow> ob = MappingIdentityObservation q m"
  by (cases ob; simp)+

text \<open>The mutable controls: one more of them, or the last.\<close>

lemma control_step:
  assumes inv: "boot_inv b e" and st: "bstate e = MUTABLE_CONTROLS" and ac: "accept_mutable_control ob e = (Inr (), e')"
  shows "boot_inv b (e'\<lparr>accepted := accepted e' @ [(bstate e, ob)], bpending := None\<rparr>)"
proof -
  let ?order = "mutable_control_order (runtime b)" and ?i = "control_index e"
  have b: "binding e = b" "snapshot e = runtime b" using inv by (simp_all add: boot_inv_def snapshot_def)
  have i: "?i \<ge> 1" using inv st by (auto simp: boot_inv_def index_ok_def prior_def BOOT_TRANSITION_TABLE_def)
  have ac': "?i < length ?order" "accept_control (?order ! ?i) ob e = Inr ()"
    "e' = e\<lparr>control_index := ?i + 1, bstate := if ?i + 1 = length ?order then PCR15_EXTEND else MUTABLE_CONTROLS\<rparr>"
    using ac st b by (auto simp: accept_mutable_control_def Let_def split: if_splits sum.splits)
  have closed: "control_closed b ob"
    using ac'(1,2) b by (cases ob) (auto simp: control_closed_def split: if_splits option.splits KernelControlSupport.splits)
  have v: "map fst (accepted e) = expand (other_controls b) (prior MUTABLE_CONTROLS) @ replicate (?i - 1) MUTABLE_CONTROLS"
    using inv st b by (simp add: boot_inv_def visited_def)
  have r: "replicate (?i - 1) MUTABLE_CONTROLS @ [MUTABLE_CONTROLS] = replicate ?i MUTABLE_CONTROLS"
    using i by (cases ?i) (simp_all add: replicate_append_same)
  have "demanded b (runtime_mapping e) (models_mapping e) MUTABLE_CONTROLS ob" using closed by (simp add: demanded_def)
  moreover have "index_ok e'" "?i + 1 = length ?order \<Longrightarrow> other_controls b = ?i"
    using i st by (auto simp: ac'(3) index_ok_def prior_steps other_controls_def)
  ultimately show ?thesis
    using inv st v r b i by (auto simp: ac'(3) boot_inv_def visited_def pending_ok_def index_ok_def prior_steps expand_def)
qed

lemma local_step:
  assumes inv: "boot_inv b e" and cl: "observation_class ob = state_class (bstate e)" and ac: "accept_local ob e = (Inr (), e')"
    and st: "bstate e \<noteq> FAILED_NON_SERVING"
  shows "boot_inv b (e'\<lparr>accepted := accepted e' @ [(bstate e, ob)], bpending := None\<rparr>)"
proof (cases "bstate e = MUTABLE_CONTROLS \<or> bstate e = RUNTIME_MAP \<or> bstate e = MODELS_MAP \<or> bstate e = MODULES_DISABLED")
  case True
  have b: "binding e = b" "snapshot e = runtime b" using inv by (simp_all add: boot_inv_def snapshot_def)
  have v: "map fst (accepted e) = visited e" "\<forall>(s, ob) \<in> set (accepted e). demanded b (runtime_mapping e) (models_mapping e) s ob"
    using inv st by (auto simp: boot_inv_def)
  have seen: "s \<in> set (visited e)" if "(s, q) \<in> set (accepted e)" for s q
    using that v(1) by (metis fst_conv image_eqI list.set_map)
  from True show ?thesis
  proof (elim disjE)
    assume "bstate e = MUTABLE_CONTROLS"
    then show ?thesis using control_step [OF inv] ac by (simp add: accept_local_def Let_def)
  next
    assume s: "bstate e = RUNTIME_MAP"
    have "expand (other_controls b) (prior RUNTIME_MAP) = prior RUNTIME_MAP" by (simp add: prior_def BOOT_TRANSITION_TABLE_def expand_def)
    then have old: "\<forall>(s, q) \<in> set (accepted e). demanded b (Some m) (models_mapping e) s q" for m
      using v(2) seen demanded_before_maps(1) [of _ b "Some m" "models_mapping e" _ "runtime_mapping e"] b s by (auto simp: visited_def)
    have acc: "map_verity (runtime_policy_verity (runtime b)) (\<lambda>m e. e\<lparr>runtime_mapping := Some m\<rparr>) RUNTIME_VERIFY ob e = (Inr (), e')"
      using ac s b by (simp add: accept_local_def Let_def)
    have d: "m \<noteq> [] \<Longrightarrow> demanded b (Some m) (models_mapping e) RUNTIME_MAP (VerityMappedObservation (runtime_policy_verity (runtime b)) m)" for m
      by (simp add: demanded_def)
    show ?thesis
      by (rule map_step [OF inv acc, where rm = Some and mm = "\<lambda>_. models_mapping e"])
        (rule old | simp add: s d prior_steps(4))+
  next
    assume s: "bstate e = MODELS_MAP"
    have "expand (other_controls b) (prior MODELS_MAP) = prior MODELS_MAP" by (simp add: prior_def BOOT_TRANSITION_TABLE_def expand_def)
    then have old: "\<forall>(s, q) \<in> set (accepted e). demanded b (runtime_mapping e) (Some m) s q" for m
      using v(2) seen demanded_before_maps(2) [of _ b "runtime_mapping e" "Some m" _ "models_mapping e"] b s by (auto simp: visited_def)
    have acc: "map_verity (models_verity (runtime b)) (\<lambda>m e. e\<lparr>models_mapping := Some m\<rparr>) MODELS_VERIFY ob e = (Inr (), e')"
      using ac s b by (simp add: accept_local_def Let_def)
    have d: "m \<noteq> [] \<Longrightarrow> demanded b (runtime_mapping e) (Some m) MODELS_MAP (VerityMappedObservation (models_verity (runtime b)) m)" for m
      by (simp add: demanded_def)
    show ?thesis
      by (rule map_step [OF inv acc, where rm = "\<lambda>_. runtime_mapping e" and mm = Some])
        (rule old | simp add: s d prior_steps(7))+
  next
    assume s: "bstate e = MODULES_DISABLED"
    then obtain k where k: "ob = ModulesDisabledReadback SET_TO_1" "find_support ''module_loading'' (mutable_controls (runtime b)) = Some k"
      "check_then (k = REQUIRED) CP_BOOT_CONTROL ''kernel.modules_disabled=1 was not read back'' MUTABLE_CONTROLS e = (Inr (), e')"
      using ac b by (auto simp: accept_local_def accept_modules_disabled_def Let_def split: if_splits option.splits)
    show ?thesis by (rule plain_step [OF inv k(3)]) (use s k in \<open>auto simp: prior_steps demanded_def\<close>)
  qed
next
  case False
  have b: "binding e = b" "snapshot e = runtime b" using inv by (simp_all add: boot_inv_def snapshot_def)
  note plain = plain_step' [OF inv, of _ _ _ _ e']
  note ident = identity_step [OF inv, of _ _ _ _ ob e']
  show ?thesis
  proof (cases "bstate e \<in> {RUNTIME_VERIFY, RUNTIME_MAPPING_IDENTITY, MODELS_VERIFY, MODELS_MAPPING_IDENTITY}")
    case True
    then show ?thesis
      using ac cl by (auto simp: b accept_local_def Let_def prior_steps demanded_def intro!: ident dest: class_fields)
  next
    case F: False
    show ?thesis
      using ac False F st by (cases "bstate e") (auto simp: b accept_local_def Let_def prior_steps demanded_def intro!: plain)
  qed
qed

lemma normal_step:
  assumes inv: "boot_inv b e" and cl: "observation_class ob = state_class (bstate e)" and st: "bstate e \<noteq> FAILED_NON_SERVING"
    and ac: "accept_normal ob (p, e) = (Inr (), p', e')"
  shows "boot_inv b (e'\<lparr>accepted := accepted e' @ [(bstate e, ob)], bpending := None\<rparr>)"
proof (cases "bstate e = PCR15_EXTEND \<or> bstate e = TRANSPORT_CLOSED")
  case True
  then show ?thesis
  proof
    assume s: "bstate e = PCR15_EXTEND"
    then obtain r where r: "ob = Pcr15ExtendObservation r" "e' = e\<lparr>bstate := PCR15_READBACK\<rparr>"
      using ac cl by (cases ob) (auto simp: accept_normal_def accept_extend_def split: if_splits)
    from boot_inv_step [OF inv st, of PCR15_READBACK e' ob] r s inv show ?thesis
      by (auto simp: boot_inv_def prior_steps demanded_def)
  next
    assume s: "bstate e = TRANSPORT_CLOSED"
    then have r: "ob = TransportClosedObservation CLOSED" "e' = e\<lparr>extend_transport := None, bstate := SERVING_READY\<rparr>"
      using ac by (auto simp: accept_normal_def accept_closed_def split: if_splits sum.splits prod.splits)
    from boot_inv_step [OF inv st, of SERVING_READY e' ob] r s inv show ?thesis
      by (auto simp: boot_inv_def prior_steps demanded_def)
  qed
next
  case False
  then have "accept_local ob e = (Inr (), e')" using ac by (auto simp: accept_normal_def split: prod.splits)
  from local_step [OF inv cl this st] show ?thesis .
qed

text \<open>An observation that is not accepted leaves the engine as it was, up to the failure.\<close>

lemma local_refused: "accept_local ob e = (Inl x, e') \<Longrightarrow> e' = e"
  by (cases "bstate e"; cases ob)
    (auto simp: accept_local_def check_then_def to_state_def check_identity_def accept_modules_disabled_def accept_mutable_control_def Let_def
      split: if_splits option.splits sum.splits)

lemma normal_refused: "accept_normal ob (p, e) = (Inl x, p', e') \<Longrightarrow> e' = e"
  by (auto simp: accept_normal_def accept_extend_def accept_closed_def dest: local_refused
      split: if_splits option.splits sum.splits prod.splits observation_body.splits)

lemma effect_of_state: "effect_for_state e = (Inr q, e') \<Longrightarrow> e' = e \<and> effect_class q = state_class (bstate e)"
  by (cases "bstate e") (auto simp: effect_for_state_def Let_def res_simps split: if_splits)

lemma effect_refused: "effect_for_state e = (Inl x, e') \<Longrightarrow> e' = e \<or> (\<exists>code. e' = fail_engine code e)"
  by (cases "bstate e") (auto simp: effect_for_state_def Let_def split: if_splits)

lemma boot_inv_cong:
  assumes "boot_inv b e" and "binding e' = binding e" "bstate e' = bstate e" "control_index e' = control_index e" "accepted e' = accepted e"
    "runtime_mapping e' = runtime_mapping e" "models_mapping e' = models_mapping e" and "pending_ok e'"
  shows "boot_inv b e'"
proof -
  have "index_ok e' = index_ok e" "visited e' = visited e" using assms(2-4) by (simp_all only: index_ok_def visited_def)
  then show ?thesis using assms by (simp add: boot_inv_def)
qed

lemma boot_inv_pending:
  "boot_inv b e \<Longrightarrow> effect_class q = state_class (bstate e) \<Longrightarrow> boot_inv b (e\<lparr>bpending := Some (c, q)\<rparr>)"
  by (erule boot_inv_cong) (simp_all add: pending_ok_def)

lemma boot_inv_effect:
  assumes inv: "boot_inv b e" and ne: "next_boot_effect e = (x, e')"
  shows "boot_inv b e'" and "x = Inr (Some (c, q)) \<Longrightarrow> bstate e' \<noteq> FAILED_NON_SERVING \<Longrightarrow> effect_class q = state_class (bstate e')"
proof -
  obtain y e1 where E: "effect_for_state e = (y, e1)" by fastforce
  have *: "boot_inv b e' \<and> (x = Inr (Some (c, q)) \<longrightarrow> bstate e' \<noteq> FAILED_NON_SERVING \<longrightarrow> effect_class q = state_class (bstate e'))"
  proof (cases "bpending e \<noteq> None \<or> bstate e = SERVING \<or> bstate e = FAILED_NON_SERVING")
    case True
    then show ?thesis using inv ne by (auto simp: next_boot_effect_def boot_inv_def pending_ok_def split: option.splits if_splits)
  next
    case False
    then have "bpending e = None" by blast
    with False show ?thesis
      using inv ne E boot_inv_pending [OF inv] boot_inv_fail' [OF inv] effect_refused [of e] effect_of_state [of e]
      by (cases y) (auto simp: next_boot_effect_def)
  qed
  from * show "boot_inv b e'" by simp
  from * show "x = Inr (Some (c, q)) \<Longrightarrow> bstate e' \<noteq> FAILED_NON_SERVING \<Longrightarrow> effect_class q = state_class (bstate e')" by simp
qed

lemma boot_inv_clear: "boot_inv b e \<Longrightarrow> boot_inv b (e\<lparr>bpending := None\<rparr>)"
  by (erule boot_inv_cong) (simp_all add: pending_ok_def)

lemma boot_inv_check:
  assumes inv: "boot_inv b e" and st: "bstate e \<noteq> FAILED_NON_SERVING" and cl: "effect_class q = state_class (bstate e)"
    and ac: "failing (check_and_accept q ob) (p, e) = (x, p', e')"
  shows "boot_inv b e'"
proof (cases "\<exists>c body. ob = Observation c body \<and> observation_class body = effect_class q \<and> c = contract e")
  case False
  then have "\<exists>m. check_and_accept q ob (p, e) = (Inl (BootError CP_BOOT_OBSERVATION m), p, e)"
    by (cases ob) (auto simp: check_and_accept_def)
  then show ?thesis using ac boot_inv_fail [OF inv] by (auto simp: failing_def)
next
  case True
  then obtain body where o: "ob = Observation (contract e) body" "observation_class body = state_class (bstate e)" using cl by auto
  obtain y p1 e1 where A: "accept_normal body (p, e) = (y, p1, e1)" by (cases "accept_normal body (p, e)")
  show ?thesis
  proof (cases y)
    case (Inr u)
    from normal_step [OF inv o(2) st, of p p1 e1] A Inr have "boot_inv b (e1\<lparr>accepted := accepted e1 @ [(bstate e, body)], bpending := None\<rparr>)" by simp
    then show ?thesis using ac A Inr o True by (auto simp: failing_def check_and_accept_def Let_def)
  next
    case (Inl z)
    have "e1 = e" using normal_refused A Inl by blast
    then show ?thesis
      using ac A Inl o True boot_inv_fail [OF inv] inv by (cases z) (auto simp: failing_def check_and_accept_def)
  qed
qed

lemma boot_inv_accept:
  assumes inv: "boot_inv b e" and ac: "accept_boot ob (p, e) = (x, p', e')"
  shows "boot_inv b e'"
proof -
  obtain y e1 where N: "next_boot_effect e = (y, e1)" by fastforce
  note n = boot_inv_effect [OF inv N]
  show ?thesis
  proof (cases "\<exists>c q. y = Inr (Some (c, q))")
    case False
    then show ?thesis using ac N n(1) by (auto simp: accept_boot_def split: sum.splits option.splits)
  next
    case True
    then obtain c q where y: "y = Inr (Some (c, q))" by blast
    show ?thesis
    proof (cases "bstate e1 = FAILED_NON_SERVING")
      case True
      have "boot_inv b (e1\<lparr>failure_kind := k\<rparr>)" for k
        using n(1) by (rule boot_inv_cong) (use n(1) in \<open>simp_all add: boot_inv_def pending_ok_def\<close>)
      with True show ?thesis using ac N y n(1) by (auto simp: accept_boot_def accept_failure_def split: option.splits if_splits)
    next
      case False
      from boot_inv_check [OF n(1) False n(2) [OF y False]] ac N y False show ?thesis by (auto simp: accept_boot_def)
    qed
  qed
qed

lemma boot_inv_advance:
  assumes inv: "boot_inv b e"
  shows "boot_inv b (snd (snd (advance_boot t execute (p, e))))"
proof -
  obtain y p1 e1 where C: "claim_extend t (p, e) = (y, p1, e1)" by (cases "claim_extend t (p, e)")
  have i1: "boot_inv b e1"
  proof (cases "bstate e = PCR15_EXTEND \<and> bpending e = None")
    case True
    have "boot_inv b (e\<lparr>extend_transport := Some t, extend_request_issued := True, bpending := Some (contract e,
        ExtendPcr15Effect (pcr15_measurement (binding e)) DERIVED_APPRAISED_CONJUNCTION)\<rparr>)"
      using inv by (rule boot_inv_cong) (simp_all add: True pending_ok_def)
    then show ?thesis using C True boot_inv_fail' [OF inv] by (auto simp: claim_extend_def claim_extend_transport_def split: if_splits)
  next
    case False
    then show ?thesis using C inv by (auto simp: claim_extend_def split: if_splits)
  qed
  obtain z e2 where N: "next_boot_effect e1 = (z, e2)" by fastforce
  note n = boot_inv_effect(1) [OF i1 N]
  have acc: "boot_inv b (snd (snd (accept_boot ob (q, e2))))" for ob q by (cases "accept_boot ob (q, e2)") (simp add: boot_inv_accept [OF n])
  have "boot_inv b (snd (snd (execute_effect execute ef (p1, e2))))" for ef
    using acc boot_inv_fail [OF n] by (simp add: execute_effect_def Let_def split: option.splits)
  then show ?thesis
    using C N i1 n boot_inv_fail [OF n] by (auto simp: advance_boot_def split: sum.splits option.splits)
qed

lemma boot_inv_action: "boot_inv b e \<Longrightarrow> boot_inv b (snd (snd (invoke_serving_action act execute (p, e))))"
  by (auto simp: invoke_serving_action_def Let_def boot_inv_fail' split: option.splits)

section \<open>Sequences of calls\<close>

datatype boot_op = Next_effect | Accept boot_observation | Advance object_id transport_answer | Serving_action ServingAction transport_answer

fun boot_step :: "process \<times> boot_engine \<Rightarrow> boot_op \<Rightarrow> (process \<times> boot_engine) \<times> bool" where
  "boot_step (p, e) Next_effect = (case next_boot_effect e of (x, e') \<Rightarrow> ((p, e'), is_ok x))"
| "boot_step s (Accept ob) = (case accept_boot ob s of (x, s') \<Rightarrow> (s', is_ok x))"
| "boot_step s (Advance t execute) = (case advance_boot t execute s of (x, s') \<Rightarrow> (s', is_ok x))"
| "boot_step s (Serving_action a execute) = (case invoke_serving_action a execute s of (x, s') \<Rightarrow> (s', is_ok x))"

interpretation boot: machine boot_step "\<lambda>s. boot_inv b (snd s)" for b
proof
  show "boot_inv b (snd (fst (boot_step s op)))" if "boot_inv b (snd s)" for s op
  proof -
    obtain p e where s: "s = (p, e)" by (cases s)
    have acc: "boot_inv b (snd (snd (accept_boot ob (p, e))))" for ob
      using that by (cases "accept_boot ob (p, e)") (auto simp: s intro: boot_inv_accept)
    show ?thesis
      using that acc by (cases op) (auto simp: s case_prod_unfold boot_inv_advance boot_inv_action intro: boot_inv_effect(1) [OF _ surjective_pairing])
  qed
qed

section \<open>The extension of the register\<close>

text \<open>
  Between calls no extension is pending: the call that claims it is the call that executes it and
  takes its outcome. A call covers the extensions it executes by its claim of the latch.
\<close>

definition quiet :: "boot_engine \<Rightarrow> bool" where
  "quiet e \<longleftrightarrow> (case bpending e of Some (_, b) \<Rightarrow> \<not> is_extend b | None \<Rightarrow> True)"

definition covered :: "process \<Rightarrow> process \<Rightarrow> bool" where
  "covered p p' \<longleftrightarrow> extends p' + claimed p \<le> extends p + claimed p'"

lemma extends_log [simp]: "extends (log_effect ef p) = extends p + (if is_extend (snd ef) then 1 else 0)"
  by (cases ef) (simp add: extends_def log_effect_def)

lemma claimed_log [simp]: "claimed (log_effect ef p) = claimed p"
  by (simp add: claimed_def log_effect_def)

lemma latch_moves:
  "extends (record_extend_outcome r p) = extends p" "claimed p \<le> claimed (record_extend_outcome r p)"
  "record_extend_transport_closed p = (x, p') \<Longrightarrow> extends p' = extends p \<and> claimed p' = claimed p"
  by (auto simp: record_extend_outcome_def record_extend_transport_closed_def extends_def claimed_def split: if_splits)

lemma effect_no_extend: "effect_for_state e = (Inr q, e') \<Longrightarrow> \<not> is_extend q"
  by (cases "bstate e") (auto simp: effect_for_state_def Let_def res_simps split: if_splits)

lemma fail_pending [simp]: "bpending (fail_engine code e) = bpending e"
  by (auto simp: fail_engine_def)

lemma quiet_simps [simp]:
  "quiet (fail_engine code e) = quiet e" "quiet (e\<lparr>bpending := None\<rparr>)" "quiet (e\<lparr>failure_kind := k\<rparr>) = quiet e"
  by (simp_all add: quiet_def)

lemma failure_no_extend: "failure_effect e = Some ef \<Longrightarrow> \<not> is_extend (snd ef)"
  by (auto simp: failure_effect_def split: option.splits FailureEffectKind.splits)

lemma next_quiet:
  assumes "next_boot_effect e = (x, e')" and "quiet e"
  shows "quiet e'" and "x = Inr (Some ef) \<Longrightarrow> \<not> is_extend (snd ef)"
proof -
  obtain y e1 where E: "effect_for_state e = (y, e1)" by fastforce
  have "quiet e' \<and> (x = Inr (Some ef) \<longrightarrow> \<not> is_extend (snd ef))"
    using assms E failure_no_extend [of e] effect_refused [of e] effect_of_state [of e] effect_no_extend [of e]
    by (cases y; cases ef) (auto simp: next_boot_effect_def quiet_def split: option.splits if_splits)
  then show "quiet e'" and "x = Inr (Some ef) \<Longrightarrow> \<not> is_extend (snd ef)" by auto
qed

text \<open>Accepting never adds an extension; it takes the pending effect away unless the exception is not one of the appliance's.\<close>

lemma local_pending: "bpending (snd (accept_local ob e)) = bpending e"
  by (cases "bstate e"; cases ob)
    (auto simp: accept_local_def check_then_def to_state_def check_identity_def accept_modules_disabled_def accept_mutable_control_def Let_def
      split: if_splits option.splits sum.splits)

lemma normal_latch:
  assumes "accept_normal ob (p, e) = (x, p', e')"
  shows "extends p' = extends p \<and> claimed p \<le> claimed p' \<and> bpending e' = bpending e"
  using assms latch_moves local_pending [of ob e]
  by (auto simp: accept_normal_def accept_extend_def accept_closed_def split: if_splits sum.splits prod.splits observation_body.splits)

lemma check_latch:
  assumes "failing (check_and_accept q ob) (p, e) = (x, p', e')"
  shows "extends p' = extends p \<and> claimed p \<le> claimed p' \<and> (quiet e \<longrightarrow> quiet e')"
  using assms by (cases ob) (auto simp: failing_def check_and_accept_def Let_def quiet_def dest!: normal_latch
    split: if_splits sum.splits prod.splits boot_error.splits)

lemma accept_latch:
  assumes "accept_boot ob (p, e) = (x, p', e')" and "quiet e"
  shows "extends p' = extends p \<and> claimed p \<le> claimed p' \<and> quiet e'"
  using assms next_quiet [OF _ assms(2)]
  by (auto simp: accept_boot_def accept_failure_def dest!: check_latch split: sum.splits prod.splits option.splits if_splits)

text \<open>The call that holds the extension: its outcome is accepted, or the engine fails.\<close>

lemma accept_extension:
  assumes "bstate e = PCR15_EXTEND" and "bpending e = Some (c, ExtendPcr15Effect m k)" and "accept_boot ob (p, e) = (x, p', e')"
  shows "extends p' = extends p \<and> claimed p \<le> claimed p' \<and> quiet e'"
proof -
  have *: "failing (check_and_accept (ExtendPcr15Effect m k) ob) (p, e) = (x, p', e')"
    using assms by (simp add: accept_boot_def next_boot_effect_def)
  then have "quiet e'"
    using assms(1) by (cases ob; cases "case ob of Observation _ b \<Rightarrow> b | Foreign_value \<Rightarrow> OtherObservation")
      (auto simp: failing_def check_and_accept_def accept_normal_def accept_extend_def split: if_splits)
  then show ?thesis using check_latch [OF *] by blast
qed

lemma execute_latch:
  assumes "quiet e" and "\<not> is_extend (snd ef)" and "execute_effect execute ef (p, e) = (x, p', e')"
  shows "extends p' = extends p \<and> claimed p \<le> claimed p' \<and> quiet e'"
  using assms by (auto simp: execute_effect_def Let_def dest!: accept_latch split: option.splits)

lemma advance_latch:
  assumes "quiet e" and "advance_boot t execute (p, e) = (x, p', e')"
  shows "covered p p' \<and> quiet e'"
proof (cases "bstate e = PCR15_EXTEND \<and> bpending e = None")
  case False
  then have *: "claim_extend t (p, e) = (Inr (), p, e)" by (auto simp: claim_extend_def)
  obtain y e1 where N: "next_boot_effect e = (y, e1)" by fastforce
  note q = next_quiet [OF N assms(1)]
  show ?thesis
  proof (cases "\<exists>ef. y = Inr (Some ef) \<and> wrong_transport t (snd ef) e1 = None")
    case True
    then obtain ef where ef: "y = Inr (Some ef)" "wrong_transport t (snd ef) e1 = None" by blast
    then have "execute_effect execute ef (p, e1) = (x, p', e')" using assms(2) * N by (simp add: advance_boot_def)
    from execute_latch [OF q(1) q(2) [OF ef(1)] this] show ?thesis by (simp add: covered_def)
  next
    case False
    then show ?thesis using assms(2) * N q(1) by (auto simp: advance_boot_def covered_def split: sum.splits option.splits)
  qed
next
  case True
  show ?thesis
  proof (cases "latch p = UNREQUESTED")
    case False
    then show ?thesis using assms True
      by (auto simp: advance_boot_def claim_extend_def claim_extend_transport_def covered_def)
  next
    case free: True
    let ?m = "ExtendPcr15Effect (pcr15_measurement (binding e)) DERIVED_APPRAISED_CONJUNCTION"
    let ?e = "e\<lparr>extend_transport := Some t, extend_request_issued := True, bpending := Some (contract e, ?m)\<rparr>"
    let ?p = "log_effect (contract e, ?m) (p\<lparr>latch := REQUEST_ISSUED\<rparr>)"
    have "advance_boot t execute (p, e) = execute_effect execute (contract e, ?m) (p\<lparr>latch := REQUEST_ISSUED\<rparr>, ?e)"
      using True free by (simp add: advance_boot_def claim_extend_def claim_extend_transport_def next_boot_effect_def wrong_transport_def)
    then obtain ob where ob: "accept_boot ob (?p, ?e) = (x, p', e')"
      using assms(2) by (auto simp: execute_effect_def Let_def split: option.splits)
    have c: "claimed p = 0" "extends ?p = extends p + 1" "claimed ?p = 1" using free by (simp_all add: claimed_def extends_def log_effect_def)
    from accept_extension [OF _ _ ob] True have "extends p' = extends ?p \<and> claimed ?p \<le> claimed p' \<and> quiet e'" by simp
    then show ?thesis unfolding covered_def c by linarith
  qed
qed

lemma action_latch:
  "quiet e \<Longrightarrow> invoke_serving_action a execute (p, e) = (x, p', e') \<Longrightarrow> covered p p' \<and> quiet e'"
  by (auto simp: invoke_serving_action_def covered_def Let_def split: if_splits option.splits)

lemma boot_step_latch:
  assumes "quiet e" and "boot_step (p, e) op = ((p', e'), r)"
  shows "covered p p' \<and> quiet e'"
proof (cases op)
  case (Accept ob)
  then show ?thesis using assms by (auto simp: covered_def dest!: accept_latch split: prod.splits)
qed (use assms next_quiet(1) [OF _ assms(1)] advance_latch [OF assms(1)] action_latch [OF assms(1)] in \<open>auto simp: covered_def split: prod.splits\<close>)

lemma new_quiet: "new_boot_engine issued b = Inr e \<Longrightarrow> quiet e"
  by (auto simp: new_boot_engine_def quiet_def split: if_splits)

end
