(* ===== verification/Boot_Engine_V2.thy ===== *)
theory Boot_Engine_V2
  imports Boot_Engine Conf_Json
begin

text \<open>
  \<open>BootTransitionEngineV2\<close> of \<open>conf_proc_spp_boot.py\<close>: the version 2 boot, with its bootstrap mounts and
  network policies, separate transports for the boot, its failure and the activation, and the
  sessions admitted once it serves. The latch of the extension is the one of version 1.
\<close>

section \<open>State\<close>

datatype BootTransitionStateV2 = BOOTSTRAP_PROC_V2 | BOOTSTRAP_SYSFS_V2 | BOOTSTRAP_DEVTMPFS_V2 | BOOTSTRAP_RUN_V2
  | INITIAL_NETWORK_APPLY_V2 | INITIAL_NETWORK_READBACK_V2 | CMDLINE_V2 | PCR15_ZERO_V2 | DISK_LOCATORS_V2 | RUNTIME_MAP_V2
  | RUNTIME_VERIFY_V2 | RUNTIME_MAPPING_IDENTITY_V2 | MODELS_MAP_V2 | MODELS_VERIFY_V2 | MODELS_MAPPING_IDENTITY_V2
  | RUNTIME_MOUNT_V2 | RUNTIME_EXECUTABLE_CONFINEMENT_V2 | MODELS_MOUNT_V2 | MUTABLE_ROOTS_PRE_V2 | TMPFS_CREATE_V2
  | MUTABLE_ROOTS_POST_V2 | MODULES_V2 | MODULES_DISABLED_V2 | MUTABLE_CONTROL_V2 | PCR15_EXTEND_V2 | PCR15_READBACK_V2
  | BOOT_TRANSPORT_CLOSED_V2 | SERVING_TRANSPORT_CLAIMED_V2 | JIT_INPUTS_CHECKED_V2 | JIT_PREPARE_V2 | JIT_OUTPUTS_CHECKED_V2
  | JIT_DISABLED_V2 | SERVING_NETWORK_APPLY_V2 | SERVING_NETWORK_READBACK_V2 | LISTENER_CREATE_V2 | LISTENER_BIND_V2
  | SERVICE_START_V2 | SERVING_READY_V2 | NETWORK_ACTIVATE_V2 | SERVING_AVAILABLE_V2 | FAILED_NON_SERVING_V2 | POWEROFF_V2

fun state_value_v2 :: "BootTransitionStateV2 \<Rightarrow> string" where
  "state_value_v2 BOOTSTRAP_PROC_V2 = ''bootstrap_proc''"
| "state_value_v2 BOOTSTRAP_SYSFS_V2 = ''bootstrap_sysfs''"
| "state_value_v2 BOOTSTRAP_DEVTMPFS_V2 = ''bootstrap_devtmpfs''"
| "state_value_v2 BOOTSTRAP_RUN_V2 = ''bootstrap_run''"
| "state_value_v2 INITIAL_NETWORK_APPLY_V2 = ''initial_network_apply''"
| "state_value_v2 INITIAL_NETWORK_READBACK_V2 = ''initial_network_readback''"
| "state_value_v2 CMDLINE_V2 = ''cmdline''"
| "state_value_v2 PCR15_ZERO_V2 = ''pcr15_zero''"
| "state_value_v2 DISK_LOCATORS_V2 = ''disk_locators''"
| "state_value_v2 RUNTIME_MAP_V2 = ''runtime_map''"
| "state_value_v2 RUNTIME_VERIFY_V2 = ''runtime_verify''"
| "state_value_v2 RUNTIME_MAPPING_IDENTITY_V2 = ''runtime_mapping_identity''"
| "state_value_v2 MODELS_MAP_V2 = ''models_map''"
| "state_value_v2 MODELS_VERIFY_V2 = ''models_verify''"
| "state_value_v2 MODELS_MAPPING_IDENTITY_V2 = ''models_mapping_identity''"
| "state_value_v2 RUNTIME_MOUNT_V2 = ''runtime_mount''"
| "state_value_v2 RUNTIME_EXECUTABLE_CONFINEMENT_V2 = ''runtime_executable_confinement''"
| "state_value_v2 MODELS_MOUNT_V2 = ''models_mount''"
| "state_value_v2 MUTABLE_ROOTS_PRE_V2 = ''mutable_roots_pre''"
| "state_value_v2 TMPFS_CREATE_V2 = ''tmpfs_create''"
| "state_value_v2 MUTABLE_ROOTS_POST_V2 = ''mutable_roots_post''"
| "state_value_v2 MODULES_V2 = ''modules''"
| "state_value_v2 MODULES_DISABLED_V2 = ''modules_disabled''"
| "state_value_v2 MUTABLE_CONTROL_V2 = ''mutable_control''"
| "state_value_v2 PCR15_EXTEND_V2 = ''pcr15_extend''"
| "state_value_v2 PCR15_READBACK_V2 = ''pcr15_readback''"
| "state_value_v2 BOOT_TRANSPORT_CLOSED_V2 = ''boot_transport_closed''"
| "state_value_v2 SERVING_TRANSPORT_CLAIMED_V2 = ''serving_transport_claimed''"
| "state_value_v2 JIT_INPUTS_CHECKED_V2 = ''jit_inputs_checked''"
| "state_value_v2 JIT_PREPARE_V2 = ''jit_prepare''"
| "state_value_v2 JIT_OUTPUTS_CHECKED_V2 = ''jit_outputs_checked''"
| "state_value_v2 JIT_DISABLED_V2 = ''jit_disabled''"
| "state_value_v2 SERVING_NETWORK_APPLY_V2 = ''serving_network_apply''"
| "state_value_v2 SERVING_NETWORK_READBACK_V2 = ''serving_network_readback''"
| "state_value_v2 LISTENER_CREATE_V2 = ''listener_create''"
| "state_value_v2 LISTENER_BIND_V2 = ''listener_bind''"
| "state_value_v2 SERVICE_START_V2 = ''service_start''"
| "state_value_v2 SERVING_READY_V2 = ''serving_ready''"
| "state_value_v2 NETWORK_ACTIVATE_V2 = ''network_activate''"
| "state_value_v2 SERVING_AVAILABLE_V2 = ''serving_available''"
| "state_value_v2 FAILED_NON_SERVING_V2 = ''failed_non_serving''"
| "state_value_v2 POWEROFF_V2 = ''poweroff''"

declare state_value_v2.simps [simp del]

record BootBindingV2 =
  contract_sha256_v2 :: string
  manifest_bytes_v2 :: bytes
  boot_contract_bytes :: bytes
  module_plan_bytes :: bytes
  kernel_feature_contract_bytes :: bytes
  gpt_layout_rules_bytes :: bytes
  root_lock_bytes :: bytes
  runtime_closure_bytes :: bytes
  policy_bytes :: bytes
  disk_guid_v2 :: string
  jit_policy :: "JitPolicyV2 option"
  runtime_v2 :: BootRuntimeSnapshot

record boot_engine_v2 =
  binding_v2 :: BootBindingV2
  state_v2 :: BootTransitionStateV2
  pending_v2 :: "boot_effect option"
  boot_transport :: "object_id option"
  failure_transport :: "object_id option"
  activation_transport :: "object_id option"
  extend_transport_v2 :: "object_id option"
  extend_issued_v2 :: bool
  runtime_mapping_v2 :: "string option"
  models_mapping_v2 :: "string option"
  tmpfs_index :: nat
  control_index_v2 :: nat
  failure_kind_v2 :: "FailureEffectKind option"
  failure_code_v2 :: reason
  failure_stage_v2 :: string
  live_session_ids :: "object_id list"
  accepted_v2 :: "(BootTransitionStateV2 \<times> observation_body) list"

type_synonym 'a step_v2 = "process \<times> boot_engine_v2 \<Rightarrow> (boot_error + 'a) \<times> process \<times> boot_engine_v2"

definition new_boot_engine_v2 :: "bool \<Rightarrow> BootBindingV2 \<Rightarrow> boot_error + boot_engine_v2" where
  "new_boot_engine_v2 issued b =
     (if \<not> issued then Inl (BootError CP_BOOT_BINDING ''v2 boot engine requires a binder-issued sealed binding'')
      else Inr \<lparr>binding_v2 = b, state_v2 = BOOTSTRAP_PROC_V2, pending_v2 = None, boot_transport = None, failure_transport = None,
        activation_transport = None, extend_transport_v2 = None, extend_issued_v2 = False, runtime_mapping_v2 = None, models_mapping_v2 = None,
        tmpfs_index = 0, control_index_v2 = 0, failure_kind_v2 = None, failure_code_v2 = CP_BOOT_FAILURE_TRANSPORT,
        failure_stage_v2 = state_value_v2 BOOTSTRAP_PROC_V2, live_session_ids = [], accepted_v2 = []\<rparr>)"

definition contract_v2 :: "boot_engine_v2 \<Rightarrow> string" where "contract_v2 e = contract_sha256_v2 (binding_v2 e)"

section \<open>Constants\<close>

definition BOOTSTRAP_MOUNTS_V2 :: "BootstrapMountV2 list" where
  "BOOTSTRAP_MOUNTS_V2 =
     [\<lparr>mount_source = ''proc'', mount_target = ''/proc'', fs_type = ''proc'', mount_flags = TMPFS_FLAGS, mount_mode = 365, mount_size_bytes = None\<rparr>,
      \<lparr>mount_source = ''sysfs'', mount_target = ''/sys'', fs_type = ''sysfs'', mount_flags = TMPFS_FLAGS, mount_mode = 365, mount_size_bytes = None\<rparr>,
      \<lparr>mount_source = ''devtmpfs'', mount_target = ''/dev'', fs_type = ''devtmpfs'', mount_flags = [''nosuid'', ''noexec''], mount_mode = 493,
        mount_size_bytes = None\<rparr>,
      \<lparr>mount_source = ''tmpfs'', mount_target = ''/run'', fs_type = ''tmpfs'', mount_flags = TMPFS_FLAGS, mount_mode = 493,
        mount_size_bytes = Some 67108864\<rparr>]"

definition INITIAL_NETWORK_POLICY_V2 :: NetworkPolicyV2 where
  "INITIAL_NETWORK_POLICY_V2 = \<lparr>net_phase = ''initial-deny-all'', ingress = [], loopback_upstreams = [], entitlement_rules = []\<rparr>"

definition SERVING_NETWORK_POLICY_V2 :: NetworkPolicyV2 where
  "SERVING_NETWORK_POLICY_V2 = \<lparr>net_phase = ''serving'', ingress = [''tcp+ra-tls://0.0.0.0:9443''],
     loopback_upstreams = [(''inference'', ''127.0.0.1:8000''), (''asr'', ''127.0.0.1:8100'')],
     entitlement_rules = [''a:services.solstone.app'', ''dns:udp,tcp:168.63.129.16:53'', ''tcp:resolved-ipv4:443'',
       ''sni:services.solstone.app'', ''path:/internal/spp/authorize'', ''redirects:none'', ''proxy:none'']\<rparr>"

definition OBSERVATION_STATES_V2 :: "string list" where
  "OBSERVATION_STATES_V2 = [''bootstrap_proc'', ''bootstrap_sysfs'', ''bootstrap_devtmpfs'', ''bootstrap_run''
     , ''initial_network_apply'', ''initial_network_readback'', ''cmdline'', ''pcr15_zero'', ''disk_locators'', ''runtime_map''
     , ''runtime_verify'', ''runtime_mapping_identity'', ''models_map'', ''models_verify'', ''models_mapping_identity''
     , ''runtime_mount'', ''runtime_executable_confinement'', ''models_mount'', ''mutable_roots_pre'', ''tmpfs_create''
     , ''mutable_roots_post'', ''modules'', ''modules_disabled'', ''mutable_control'', ''pcr15_extend'', ''pcr15_readback''
     , ''boot_transport_closed'', ''serving_transport_claimed'', ''jit_inputs_checked'', ''jit_prepare'', ''jit_outputs_checked''
     , ''jit_disabled'', ''serving_network_apply'', ''serving_network_readback'', ''listener_create'', ''listener_bind''
     , ''service_start'', ''serving_ready'', ''network_activate'', ''serving_available'']"

definition OBSERVATION_SHAPE_V2_BYTES :: bytes where
  "OBSERVATION_SHAPE_V2_BYTES = projr (canonical_dumps (JObj
     [(ascii ''schema'', JStr (ascii ''conf-proc-spp-boot-observation-shape/v2'')),
      (ascii ''states'', JArr (map (JStr \<circ> ascii) OBSERVATION_STATES_V2))]))"

definition frame_v2 :: "bytes \<Rightarrow> bytes" where "frame_v2 v = to_be 8 (length v) @ v"

definition pcr15_measurement_v2 :: "BootBindingV2 \<Rightarrow> bytes" where
  "pcr15_measurement_v2 b = sha256 (''sol-spp-appliance-manifest-v2'' @ [CHR 0x00] @ frame_v2 (manifest_bytes_v2 b) @ frame_v2 (boot_contract_bytes b)
     @ frame_v2 (module_plan_bytes b) @ frame_v2 (kernel_feature_contract_bytes b) @ frame_v2 (gpt_layout_rules_bytes b) @ frame_v2 (root_lock_bytes b)
     @ frame_v2 (runtime_closure_bytes b) @ frame_v2 (policy_bytes b) @ frame_v2 OBSERVATION_SHAPE_V2_BYTES)"

definition predicted_pcr15_v2 :: "BootBindingV2 \<Rightarrow> bytes" where
  "predicted_pcr15_v2 b = sha256 (ZERO_PCR @ pcr15_measurement_v2 b)"

definition application_roots :: "BootBindingV2 \<Rightarrow> MutableRootV2 list" where
  "application_roots b = map (\<lambda>i. \<lparr>root_path = tmpfs_path i, root_size_bytes = tmpfs_size_bytes i, root_mode = tmpfs_mode i, root_uid = 0, root_gid = 0,
       root_flags = TMPFS_FLAGS, root_class = ''ordinary''\<rparr>) (tmpfs_mounts (runtime_v2 b))
     @ (case jit_policy b of None \<Rightarrow> [] | Some j \<Rightarrow>
         (let w = jit_workspace j in [\<lparr>root_path = workspace_path w, root_size_bytes = workspace_size_bytes w, root_mode = workspace_mode w,
           root_uid = 0, root_gid = 0, root_flags = [''nosuid'', ''nodev''], root_class = ''jit_workspace''\<rparr>]))"

section \<open>Claims of transports\<close>

definition claim_boot_transports :: "object_id \<Rightarrow> object_id \<Rightarrow> unit step_v2" where
  "claim_boot_transports bt ft s = (case s of (p, e) \<Rightarrow>
     if \<not> (state_v2 e = BOOTSTRAP_PROC_V2 \<and> boot_transport e = None \<and> failure_transport e = None)
     then (Inl (BootError CP_BOOT_TRANSPORT_EPOCH ''boot transports must be claimed before bootstrap''), p, e)
     else if bt = ft then (Inl (BootError CP_BOOT_TRANSPORT_EPOCH ''boot and failure transports must differ''), p, e)
     else (Inr (), p, e\<lparr>boot_transport := Some bt, failure_transport := Some ft\<rparr>))"

definition claim_activation_transport :: "object_id \<Rightarrow> unit step_v2" where
  "claim_activation_transport t s = (case s of (p, e) \<Rightarrow>
     if \<not> (state_v2 e = SERVING_TRANSPORT_CLAIMED_V2 \<and> pending_v2 e = None \<and> activation_transport e = None)
     then (Inl (BootError CP_BOOT_TRANSPORT_EPOCH ''activation transport is not claimable''), p, e)
     else if Some t = boot_transport e \<or> Some t = failure_transport e
     then (Inl (BootError CP_BOOT_TRANSPORT_EPOCH ''activation transport must be a distinct epoch''), p, e)
     else (Inr (), p, e\<lparr>activation_transport := Some t, state_v2 := JIT_INPUTS_CHECKED_V2\<rparr>))"

section \<open>Failure\<close>

definition fatal_v2 :: "reason \<Rightarrow> boot_engine_v2 \<Rightarrow> boot_engine_v2" where
  "fatal_v2 code e =
     (if state_v2 e = FAILED_NON_SERVING_V2 \<or> state_v2 e = SERVING_AVAILABLE_V2 \<or> state_v2 e = POWEROFF_V2 then e
      else e\<lparr>failure_stage_v2 := state_value_v2 (state_v2 e), failure_code_v2 := code, state_v2 := FAILED_NON_SERVING_V2, pending_v2 := None,
             failure_kind_v2 := Some DIAGNOSTIC\<rparr>)"

definition failure_effect_v2 :: "boot_engine_v2 \<Rightarrow> boot_effect option" where
  "failure_effect_v2 e = (case failure_kind_v2 e of
     None \<Rightarrow> None
   | Some DIAGNOSTIC \<Rightarrow> Some (contract_v2 e, SafeDiagnosticEffect
       \<lparr>diag_code = failure_code_v2 e, diag_stage = failure_stage_v2 e, contract_prefix = take 16 (contract_v2 e)\<rparr>)
   | Some CLOSE_SERVING_NETWORK \<Rightarrow> Some (contract_v2 e, CloseServingNetworkEffect)
   | Some POWEROFF_KIND \<Rightarrow> Some (contract_v2 e, PoweroffEffect))"

definition advance_failure_v2 :: "object_id \<Rightarrow> transport_answer \<Rightarrow> BootTransitionStateV2 step_v2" where
  "advance_failure_v2 t execute s = (case s of (p, e) \<Rightarrow>
     if \<not> (failure_transport e = Some t \<and> failure_kind_v2 e \<noteq> None)
     then (Inl (BootError CP_BOOT_FAILURE_TRANSPORT ''only the claimed failure transport may acknowledge appliance failure''), p, e)
     else case failure_effect_v2 e of
         None \<Rightarrow> (Inl (BootError CP_BOOT_FAILURE_TRANSPORT ''failure protocol is complete''), p, e)
       | Some ef \<Rightarrow>
           let p1 = log_effect ef p in
           case execute ef of
             None \<Rightarrow> (Inl (BootError CP_BOOT_FAILURE_TRANSPORT ''failure transport acknowledgement is pending''), p1, e)
           | Some ob \<Rightarrow>
               if ob \<noteq> Observation (contract_v2 e) (FailureEffectAcknowledgement (the (failure_kind_v2 e)))
               then (Inl (BootError CP_BOOT_FAILURE_TRANSPORT ''failure transport acknowledgement is invalid''), p1, e)
               else let k = next_failure_kind (the (failure_kind_v2 e));
                        e' = e\<lparr>failure_kind_v2 := k, state_v2 := if k = None then POWEROFF_V2 else state_v2 e\<rparr>
                    in (Inr (state_v2 e'), p1, e'))"

section \<open>Effects\<close>

definition mapping_v2 :: "string option \<Rightarrow> boot_error + string" where
  "mapping_v2 m = (case m of None \<Rightarrow> Inl (BootError CP_BOOT_GOLDEN_ORDER ''verity mapping identity is unavailable'') | Some x \<Rightarrow> Inr x)"

definition effect_for_state_v2 :: "boot_engine_v2 \<Rightarrow> boot_error + effect_body" where
  "effect_for_state_v2 e =
     (let b = binding_v2 e; r = runtime_v2 b in
      case state_v2 e of
        BOOTSTRAP_PROC_V2 \<Rightarrow> Inr (BootstrapMountEffectV2 (BOOTSTRAP_MOUNTS_V2 ! 0))
      | BOOTSTRAP_SYSFS_V2 \<Rightarrow> Inr (BootstrapMountEffectV2 (BOOTSTRAP_MOUNTS_V2 ! 1))
      | BOOTSTRAP_DEVTMPFS_V2 \<Rightarrow> Inr (BootstrapMountEffectV2 (BOOTSTRAP_MOUNTS_V2 ! 2))
      | BOOTSTRAP_RUN_V2 \<Rightarrow> Inr (BootstrapMountEffectV2 (BOOTSTRAP_MOUNTS_V2 ! 3))
      | INITIAL_NETWORK_APPLY_V2 \<Rightarrow> Inr (ApplyNetworkPolicyEffectV2 INITIAL_NETWORK_POLICY_V2)
      | INITIAL_NETWORK_READBACK_V2 \<Rightarrow> Inr (ReadNetworkPolicyEffectV2 INITIAL_NETWORK_POLICY_V2)
      | CMDLINE_V2 \<Rightarrow> Inr (CheckCmdlineEffect (cmdline r))
      | PCR15_ZERO_V2 \<Rightarrow> Inr (ReadPcr15Effect ZERO_PCR)
      | DISK_LOCATORS_V2 \<Rightarrow> Inr (LocateExpectedDiskEffect (disk_guid_v2 b) (disk_locators r))
      | RUNTIME_MAP_V2 \<Rightarrow> Inr (MapVerityEffect (runtime_policy_verity r))
      | RUNTIME_VERIFY_V2 \<Rightarrow> bindE (mapping_v2 (runtime_mapping_v2 e)) (\<lambda>m. Inr (VerifyVerityEffect (runtime_policy_verity r) m))
      | RUNTIME_MAPPING_IDENTITY_V2 \<Rightarrow> bindE (mapping_v2 (runtime_mapping_v2 e)) (\<lambda>m. Inr (ReadMappingIdentityEffect (runtime_policy_verity r) m))
      | MODELS_MAP_V2 \<Rightarrow> Inr (MapVerityEffect (models_verity r))
      | MODELS_VERIFY_V2 \<Rightarrow> bindE (mapping_v2 (models_mapping_v2 e)) (\<lambda>m. Inr (VerifyVerityEffect (models_verity r) m))
      | MODELS_MAPPING_IDENTITY_V2 \<Rightarrow> bindE (mapping_v2 (models_mapping_v2 e)) (\<lambda>m. Inr (ReadMappingIdentityEffect (models_verity r) m))
      | RUNTIME_MOUNT_V2 \<Rightarrow> Inr (MountImageEffect ''runtime-policy'' (runtime_policy_destination r) RUNTIME_FLAGS)
      | RUNTIME_EXECUTABLE_CONFINEMENT_V2 \<Rightarrow> Inr (ConfineRuntimeExecutablesEffect (executable_paths r))
      | MODELS_MOUNT_V2 \<Rightarrow> Inr (MountImageEffect ''models'' (models_destination r) MODELS_FLAGS)
      | MUTABLE_ROOTS_PRE_V2 \<Rightarrow> Inr (CheckMutableRootClassesEffectV2 ''pre'' BOOTSTRAP_MOUNTS_V2 [])
      | TMPFS_CREATE_V2 \<Rightarrow>
          if tmpfs_index e < length (application_roots b) then Inr (CreateTmpfsEffectV2 (application_roots b ! tmpfs_index e)) else Inl BootIndexError
      | MUTABLE_ROOTS_POST_V2 \<Rightarrow> Inr (CheckMutableRootClassesEffectV2 ''post'' BOOTSTRAP_MOUNTS_V2 (application_roots b))
      | MODULES_V2 \<Rightarrow> Inr (LoadModulesEffect (module_entries r))
      | MODULES_DISABLED_V2 \<Rightarrow> Inr CloseModulesEffect
      | MUTABLE_CONTROL_V2 \<Rightarrow>
          if control_index_v2 e < length (mutable_control_order r) then Inr (CloseMutableControlEffect (mutable_control_order r ! control_index_v2 e))
          else Inl BootIndexError
      | PCR15_READBACK_V2 \<Rightarrow> Inr (ReadPcr15Effect (predicted_pcr15_v2 b))
      | BOOT_TRANSPORT_CLOSED_V2 \<Rightarrow> Inr CloseTransportEffect
      | JIT_INPUTS_CHECKED_V2 \<Rightarrow> Inr (JitPolicyEffectV2 ''inputs_checked'' (jit_policy b))
      | JIT_PREPARE_V2 \<Rightarrow> Inr (JitPolicyEffectV2 ''prepare'' (jit_policy b))
      | JIT_OUTPUTS_CHECKED_V2 \<Rightarrow> Inr (JitPolicyEffectV2 ''outputs_checked'' (jit_policy b))
      | JIT_DISABLED_V2 \<Rightarrow> Inr (JitPolicyEffectV2 ''disabled'' None)
      | SERVING_NETWORK_APPLY_V2 \<Rightarrow> Inr (ActivationEffectV2 ''serving_network_apply'' (Some SERVING_NETWORK_POLICY_V2))
      | SERVING_NETWORK_READBACK_V2 \<Rightarrow> Inr (ReadNetworkPolicyEffectV2 SERVING_NETWORK_POLICY_V2)
      | LISTENER_CREATE_V2 \<Rightarrow> Inr (ActivationEffectV2 (state_value_v2 LISTENER_CREATE_V2) None)
      | LISTENER_BIND_V2 \<Rightarrow> Inr (ActivationEffectV2 (state_value_v2 LISTENER_BIND_V2) None)
      | SERVICE_START_V2 \<Rightarrow> Inr (ActivationEffectV2 (state_value_v2 SERVICE_START_V2) None)
      | NETWORK_ACTIVATE_V2 \<Rightarrow> Inr (ActivationEffectV2 (state_value_v2 NETWORK_ACTIVATE_V2) (Some SERVING_NETWORK_POLICY_V2))
      | SERVING_READY_V2 \<Rightarrow> Inr ServingReadyEffectV2
      | _ \<Rightarrow> Inl (BootError CP_BOOT_GOLDEN_ORDER ''v2 state has no normal effect''))"

definition next_effect_v2 :: "boot_effect option step_v2" where
  "next_effect_v2 s = (case s of (p, e) \<Rightarrow>
     case pending_v2 e of
       Some q \<Rightarrow> (Inr (Some q), p, e)
     | None \<Rightarrow>
         if state_v2 e = SERVING_AVAILABLE_V2 \<or> state_v2 e = POWEROFF_V2 then (Inr None, p, e)
         else if state_v2 e = FAILED_NON_SERVING_V2 then (Inr (failure_effect_v2 e), p, e)
         else if boot_transport e = None \<or> failure_transport e = None
         then (Inl (BootError CP_BOOT_TRANSPORT_EPOCH ''boot and failure transports must be claimed''), p, e)
         else if state_v2 e = SERVING_TRANSPORT_CLAIMED_V2
         then (Inl (BootError CP_BOOT_GOLDEN_ORDER ''activation transport must be claimed before activation''), p, e)
         else if state_v2 e = PCR15_EXTEND_V2 then
           (case claim_extend_transport p of
              (False, p') \<Rightarrow> (Inl (BootError CP_BOOT_LATCH ''a PCR15 extend transport was already claimed for this process''), p', fatal_v2 CP_BOOT_LATCH e)
            | (True, p') \<Rightarrow>
                let q = (contract_v2 e, ExtendPcr15Effect (pcr15_measurement_v2 (binding_v2 e)) DERIVED_APPRAISED_CONJUNCTION) in
                (Inr (Some q), p', e\<lparr>extend_transport_v2 := boot_transport e, extend_issued_v2 := True, pending_v2 := Some q\<rparr>))
         else case effect_for_state_v2 e of
             Inl x \<Rightarrow> (Inl x, p, e)
           | Inr b \<Rightarrow> (Inr (Some (contract_v2 e, b)), p, e\<lparr>pending_v2 := Some (contract_v2 e, b)\<rparr>))"

section \<open>Observations\<close>

definition check_v2 :: "bool \<Rightarrow> reason \<Rightarrow> string \<Rightarrow> BootTransitionStateV2 \<Rightarrow> boot_engine_v2 \<Rightarrow> (boot_error + unit) \<times> boot_engine_v2" where
  "check_v2 c code m s e = (if c then (Inr (), e\<lparr>state_v2 := s\<rparr>) else (Inl (BootError code m), e))"

fun check_map_v2 :: "VerityPair \<Rightarrow> (string \<Rightarrow> boot_engine_v2 \<Rightarrow> boot_engine_v2) \<Rightarrow> BootTransitionStateV2 \<Rightarrow> observation_body \<Rightarrow> boot_engine_v2
    \<Rightarrow> (boot_error + unit) \<times> boot_engine_v2" where
  "check_map_v2 pair store s (VerityMappedObservation q m) e =
     (if q = pair \<and> m \<noteq> [] then (Inr (), (store m e)\<lparr>state_v2 := s\<rparr>)
      else (Inl (BootError CP_BOOT_OBSERVATION ''verity map observation is invalid''), e))"
| "check_map_v2 pair store s _ e = (Inl (BootError CP_BOOT_OBSERVATION ''verity map observation is invalid''), e)"

fun identity_fields_v2 :: "observation_body \<Rightarrow> (VerityPair \<times> string) option" where
  "identity_fields_v2 (VerityVerifiedObservation q m) = Some (q, m)"
| "identity_fields_v2 (MappingIdentityObservation q m) = Some (q, m)"
| "identity_fields_v2 _ = None"

definition check_identity_v2 :: "VerityPair \<Rightarrow> string option \<Rightarrow> BootTransitionStateV2 \<Rightarrow> observation_body \<Rightarrow> boot_engine_v2
    \<Rightarrow> (boot_error + unit) \<times> boot_engine_v2" where
  "check_identity_v2 pair known s ob e = (case identity_fields_v2 ob of
     Some (q, m) \<Rightarrow>
       if q \<noteq> pair then (Inl (BootError CP_BOOT_OBSERVATION ''verity identity observation is invalid''), e)
       else (case mapping_v2 known of
           Inl x \<Rightarrow> (Inl x, e)
         | Inr m' \<Rightarrow> check_v2 (m = m') CP_BOOT_OBSERVATION ''verity identity observation is invalid'' s e)
   | None \<Rightarrow> (Inl (BootError CP_BOOT_OBSERVATION ''verity identity observation is invalid''), e))"

definition check_tmpfs_v2 :: "observation_body \<Rightarrow> boot_engine_v2 \<Rightarrow> (boot_error + unit) \<times> boot_engine_v2" where
  "check_tmpfs_v2 ob e =
     (let roots = application_roots (binding_v2 e); i = tmpfs_index e in
      if i \<ge> length roots then (Inl BootIndexError, e)
      else if ob \<noteq> TmpfsReadbackV2 (roots ! i) then (Inl (BootError CP_BOOT_MUTABLE_ROOT_CLASS ''tmpfs root readback is invalid''), e)
      else (Inr (), e\<lparr>tmpfs_index := i + 1, state_v2 := if i + 1 < length roots then TMPFS_CREATE_V2 else MUTABLE_ROOTS_POST_V2\<rparr>))"

definition check_control_v2 :: "observation_body \<Rightarrow> boot_engine_v2 \<Rightarrow> (boot_error + unit) \<times> boot_engine_v2" where
  "check_control_v2 ob e =
     (let r = runtime_v2 (binding_v2 e); order = mutable_control_order r; i = control_index_v2 e;
          done = (Inr (), e\<lparr>control_index_v2 := i + 1, state_v2 := if i + 1 < length order then MUTABLE_CONTROL_V2 else PCR15_EXTEND_V2\<rparr>) in
      if i \<ge> length order then (Inl BootIndexError, e)
      else if ob = ControlReadback (order ! i) DISABLED then done
      else if ob = ControlReadback (order ! i) NOT_APPLICABLE_NONEXISTENT then
        (case find_support (order ! i) (mutable_controls r) of
           None \<Rightarrow> (Inl (BootError CP_BOOT_CONTROL ''v2 boot binding lacks a mutable control''), e)
         | Some support \<Rightarrow> if support = CONDITIONAL then done else (Inl (BootError CP_BOOT_CONTROL ''required mutable control is missing''), e))
      else (Inl (BootError CP_BOOT_CONTROL ''mutable control readback is invalid''), e))"

definition check_local_v2 :: "observation_body \<Rightarrow> boot_engine_v2 \<Rightarrow> (boot_error + unit) \<times> boot_engine_v2" where
  "check_local_v2 ob e =
     (let b = binding_v2 e; r = runtime_v2 b;
          bootstrap = (\<lambda>k s. check_v2 (ob = BootstrapMountReadbackV2 (BOOTSTRAP_MOUNTS_V2 ! k)) CP_BOOT_BOOTSTRAP_MOUNT ''bootstrap mount readback is invalid'' s e);
          deny_all = (\<lambda>s. check_v2 (ob = NetworkPolicyReadbackV2 INITIAL_NETWORK_POLICY_V2) CP_BOOT_NETWORK_POLICY
            ''initial deny-all network readback is invalid'' s e);
          jit = (\<lambda>a p s. check_v2 (ob = JitPolicyReadbackV2 a p) CP_BOOT_JIT_POLICY ''JIT policy observation is invalid'' s e);
          activation = (\<lambda>p s. check_v2 (ob = ActivationReadbackV2 (state_value_v2 (state_v2 e)) p) CP_BOOT_NETWORK_POLICY
            ''activation observation is invalid'' s e) in
      case state_v2 e of
        BOOTSTRAP_PROC_V2 \<Rightarrow> bootstrap 0 BOOTSTRAP_SYSFS_V2
      | BOOTSTRAP_SYSFS_V2 \<Rightarrow> bootstrap 1 BOOTSTRAP_DEVTMPFS_V2
      | BOOTSTRAP_DEVTMPFS_V2 \<Rightarrow> bootstrap 2 BOOTSTRAP_RUN_V2
      | BOOTSTRAP_RUN_V2 \<Rightarrow> bootstrap 3 INITIAL_NETWORK_APPLY_V2
      | INITIAL_NETWORK_APPLY_V2 \<Rightarrow> deny_all INITIAL_NETWORK_READBACK_V2
      | INITIAL_NETWORK_READBACK_V2 \<Rightarrow> deny_all CMDLINE_V2
      | CMDLINE_V2 \<Rightarrow> check_v2 (ob = CmdlineObservation (cmdline r) []) CP_BOOT_OBSERVATION ''cmdline observation is invalid'' PCR15_ZERO_V2 e
      | PCR15_ZERO_V2 \<Rightarrow> check_v2 (ob = Pcr15Readback ZERO_PCR) CP_BOOT_PCR ''PCR15 readback disagrees'' DISK_LOCATORS_V2 e
      | PCR15_READBACK_V2 \<Rightarrow> check_v2 (ob = Pcr15Readback (predicted_pcr15_v2 b)) CP_BOOT_PCR ''PCR15 readback disagrees'' BOOT_TRANSPORT_CLOSED_V2 e
      | DISK_LOCATORS_V2 \<Rightarrow>
          check_v2 (ob = DiskLocatorsObservation (disk_guid_v2 b) (disk_locators r)) CP_BOOT_OBSERVATION ''disk locator observation is invalid'' RUNTIME_MAP_V2 e
      | RUNTIME_MAP_V2 \<Rightarrow> check_map_v2 (runtime_policy_verity r) (\<lambda>m e. e\<lparr>runtime_mapping_v2 := Some m\<rparr>) RUNTIME_VERIFY_V2 ob e
      | MODELS_MAP_V2 \<Rightarrow> check_map_v2 (models_verity r) (\<lambda>m e. e\<lparr>models_mapping_v2 := Some m\<rparr>) MODELS_VERIFY_V2 ob e
      | RUNTIME_VERIFY_V2 \<Rightarrow> check_identity_v2 (runtime_policy_verity r) (runtime_mapping_v2 e) RUNTIME_MAPPING_IDENTITY_V2 ob e
      | RUNTIME_MAPPING_IDENTITY_V2 \<Rightarrow> check_identity_v2 (runtime_policy_verity r) (runtime_mapping_v2 e) MODELS_MAP_V2 ob e
      | MODELS_VERIFY_V2 \<Rightarrow> check_identity_v2 (models_verity r) (models_mapping_v2 e) MODELS_MAPPING_IDENTITY_V2 ob e
      | MODELS_MAPPING_IDENTITY_V2 \<Rightarrow> check_identity_v2 (models_verity r) (models_mapping_v2 e) RUNTIME_MOUNT_V2 ob e
      | RUNTIME_MOUNT_V2 \<Rightarrow>
          check_v2 (ob = MountReadback ''runtime-policy'' (runtime_policy_destination r) RUNTIME_FLAGS) CP_BOOT_OBSERVATION
            ''image mount readback is invalid'' RUNTIME_EXECUTABLE_CONFINEMENT_V2 e
      | MODELS_MOUNT_V2 \<Rightarrow>
          check_v2 (ob = MountReadback ''models'' (models_destination r) MODELS_FLAGS) CP_BOOT_OBSERVATION
            ''image mount readback is invalid'' MUTABLE_ROOTS_PRE_V2 e
      | RUNTIME_EXECUTABLE_CONFINEMENT_V2 \<Rightarrow>
          check_v2 (ob = RuntimeExecutableObservation (executable_paths r)) CP_BOOT_OBSERVATION
            ''runtime executable confinement disagrees'' MODELS_MOUNT_V2 e
      | MUTABLE_ROOTS_PRE_V2 \<Rightarrow>
          check_v2 (ob = MutableRootClassesReadbackV2 ''pre'' BOOTSTRAP_MOUNTS_V2 []) CP_BOOT_MUTABLE_ROOT_CLASS
            ''mutable root class readback is invalid'' TMPFS_CREATE_V2 e
      | MUTABLE_ROOTS_POST_V2 \<Rightarrow>
          check_v2 (ob = MutableRootClassesReadbackV2 ''post'' BOOTSTRAP_MOUNTS_V2 (application_roots b)) CP_BOOT_MUTABLE_ROOT_CLASS
            ''mutable root class readback is invalid'' MODULES_V2 e
      | TMPFS_CREATE_V2 \<Rightarrow> check_tmpfs_v2 ob e
      | MODULES_V2 \<Rightarrow>
          check_v2 (ob = ModuleReadback (map plan_identity (module_entries r))) CP_BOOT_OBSERVATION ''module readback is invalid'' MODULES_DISABLED_V2 e
      | MODULES_DISABLED_V2 \<Rightarrow>
          check_v2 (ob = ModulesDisabledReadback SET_TO_1) CP_BOOT_CONTROL ''modules_disabled readback is invalid'' MUTABLE_CONTROL_V2 e
      | MUTABLE_CONTROL_V2 \<Rightarrow> check_control_v2 ob e
      | JIT_INPUTS_CHECKED_V2 \<Rightarrow> jit ''inputs_checked'' (jit_policy b) (if jit_policy b \<noteq> None then JIT_PREPARE_V2 else JIT_DISABLED_V2)
      | JIT_PREPARE_V2 \<Rightarrow> jit ''prepare'' (jit_policy b) JIT_OUTPUTS_CHECKED_V2
      | JIT_OUTPUTS_CHECKED_V2 \<Rightarrow> jit ''outputs_checked'' (jit_policy b) SERVING_NETWORK_APPLY_V2
      | JIT_DISABLED_V2 \<Rightarrow> jit ''disabled'' None SERVING_NETWORK_APPLY_V2
      | SERVING_NETWORK_READBACK_V2 \<Rightarrow>
          check_v2 (ob = NetworkPolicyReadbackV2 SERVING_NETWORK_POLICY_V2) CP_BOOT_NETWORK_POLICY ''serving network readback is invalid'' LISTENER_CREATE_V2 e
      | SERVING_NETWORK_APPLY_V2 \<Rightarrow> activation (Some SERVING_NETWORK_POLICY_V2) SERVING_NETWORK_READBACK_V2
      | LISTENER_CREATE_V2 \<Rightarrow> activation None LISTENER_BIND_V2
      | LISTENER_BIND_V2 \<Rightarrow> activation None SERVICE_START_V2
      | SERVICE_START_V2 \<Rightarrow> activation None SERVING_READY_V2
      | NETWORK_ACTIVATE_V2 \<Rightarrow> activation (Some SERVING_NETWORK_POLICY_V2) SERVING_AVAILABLE_V2
      | SERVING_READY_V2 \<Rightarrow> check_v2 (ob = ServingReadyReadbackV2 True) CP_BOOT_GOLDEN_ORDER ''serving ready observation is invalid'' NETWORK_ACTIVATE_V2 e
      | _ \<Rightarrow> (Inl (BootError CP_BOOT_GOLDEN_ORDER ''v2 state cannot accept a normal observation''), e))"

definition check_observation_v2 :: "observation_body \<Rightarrow> unit step_v2" where
  "check_observation_v2 ob s = (case s of (p, e) \<Rightarrow>
     if state_v2 e = PCR15_EXTEND_V2 then
       (case ob of
          Pcr15ExtendObservation outcome \<Rightarrow>
            if extend_issued_v2 e \<and> extend_transport_v2 e = boot_transport e
            then (Inr (), record_extend_outcome outcome p, e\<lparr>state_v2 := PCR15_READBACK_V2\<rparr>)
            else (Inl (BootError CP_BOOT_LATCH ''v2 PCR extend has no shared-latch transport''), p, e)
        | _ \<Rightarrow> (Inl (BootError CP_BOOT_LATCH ''v2 PCR extend has no shared-latch transport''), p, e))
     else if state_v2 e = BOOT_TRANSPORT_CLOSED_V2 then
       (if ob \<noteq> TransportClosedObservation CLOSED then (Inl (BootError CP_BOOT_LATCH ''v2 boot transport closure is invalid''), p, e)
        else case record_extend_transport_closed p of
            (Inl x, p') \<Rightarrow> (Inl x, p', e)
          | (Inr _, p') \<Rightarrow> (Inr (), p', e\<lparr>extend_transport_v2 := None, state_v2 := SERVING_TRANSPORT_CLAIMED_V2\<rparr>))
     else case check_local_v2 ob e of (x, e') \<Rightarrow> (x, p, e'))"

definition failed_check_code :: "boot_engine_v2 \<Rightarrow> reason" where
  "failed_check_code e = (if state_v2 e = PCR15_EXTEND_V2 \<or> state_v2 e = PCR15_READBACK_V2 then CP_BOOT_PCR else CP_BOOT_GOLDEN_ORDER)"

definition accept_normal_v2 :: "boot_observation \<Rightarrow> BootTransitionStateV2 step_v2" where
  "accept_normal_v2 ob s = (case s of (p, e) \<Rightarrow>
     let refuse = (Inl (BootError CP_BOOT_GOLDEN_ORDER ''v2 observation is stale, unordered, or from another contract''), p, fatal_v2 CP_BOOT_GOLDEN_ORDER e) in
     case ob of
       Foreign_value \<Rightarrow> refuse
     | Observation c body \<Rightarrow>
         if pending_v2 e = None \<or> c \<noteq> contract_v2 e then refuse
         else (case check_observation_v2 body (p, e\<lparr>pending_v2 := None\<rparr>) of
             (Inr _, p', e') \<Rightarrow> (Inr (state_v2 e'), p', e'\<lparr>accepted_v2 := accepted_v2 e' @ [(state_v2 e, body)]\<rparr>)
           | (Inl (BootError code m), p', e') \<Rightarrow> (Inl (BootError code m), p', fatal_v2 (failed_check_code e') e')
           | (Inl x, p', e') \<Rightarrow> (Inl x, p', e')))"

definition accept_v2 :: "boot_observation \<Rightarrow> BootTransitionStateV2 step_v2" where
  "accept_v2 ob s = (case s of (p, e) \<Rightarrow>
     if state_v2 e = FAILED_NON_SERVING_V2
     then (Inl (BootError CP_BOOT_FAILURE_TRANSPORT ''failure acknowledgements require the failure transport''), p, e)
     else accept_normal_v2 ob (p, e))"

section \<open>Advancing and sessions\<close>

definition boot_epoch :: "BootTransitionStateV2 list" where
  "boot_epoch = [BOOTSTRAP_PROC_V2, BOOTSTRAP_SYSFS_V2, BOOTSTRAP_DEVTMPFS_V2, BOOTSTRAP_RUN_V2, INITIAL_NETWORK_APPLY_V2, INITIAL_NETWORK_READBACK_V2,
     CMDLINE_V2, PCR15_ZERO_V2, DISK_LOCATORS_V2, RUNTIME_MAP_V2, RUNTIME_VERIFY_V2, RUNTIME_MAPPING_IDENTITY_V2, MODELS_MAP_V2, MODELS_VERIFY_V2,
     MODELS_MAPPING_IDENTITY_V2, RUNTIME_MOUNT_V2, RUNTIME_EXECUTABLE_CONFINEMENT_V2, MODELS_MOUNT_V2, MUTABLE_ROOTS_PRE_V2, TMPFS_CREATE_V2,
     MUTABLE_ROOTS_POST_V2, MODULES_V2, MODULES_DISABLED_V2, MUTABLE_CONTROL_V2, PCR15_EXTEND_V2, PCR15_READBACK_V2, BOOT_TRANSPORT_CLOSED_V2]"

definition expected_transport :: "boot_engine_v2 \<Rightarrow> object_id option" where
  "expected_transport e = (if List.member boot_epoch (state_v2 e) then boot_transport e else activation_transport e)"

definition advance_v2 :: "object_id \<Rightarrow> transport_answer \<Rightarrow> BootTransitionStateV2 step_v2" where
  "advance_v2 t execute s = (case s of (p, e) \<Rightarrow>
     if state_v2 e = FAILED_NON_SERVING_V2 then advance_failure_v2 t execute (p, e)
     else case next_effect_v2 (p, e) of
         (Inl x, s') \<Rightarrow> (Inl x, s')
       | (Inr None, s') \<Rightarrow> (Inl (BootError CP_BOOT_GOLDEN_ORDER ''v2 boot transition has no further normal effect''), s')
       | (Inr (Some ef), p', e') \<Rightarrow>
           if expected_transport e' \<noteq> Some t
           then (Inl (BootError CP_BOOT_TRANSPORT_EPOCH ''normal effect used a transport from another epoch''), p',
                 fatal_v2 CP_BOOT_TRANSPORT_EPOCH (e'\<lparr>pending_v2 := None\<rparr>))
           else let p1 = log_effect ef p' in
             case execute ef of
               None \<Rightarrow> (Inl (BootError CP_BOOT_FAILURE_TRANSPORT ''typed normal transport failed''), p1,
                        fatal_v2 CP_BOOT_FAILURE_TRANSPORT (e'\<lparr>pending_v2 := None\<rparr>))
             | Some ob \<Rightarrow> accept_normal_v2 ob (p1, e'))"

definition admit_serving_session :: "object_id \<Rightarrow> object_id step_v2" where
  "admit_serving_session t s = (case s of (p, e) \<Rightarrow>
     if state_v2 e \<noteq> SERVING_AVAILABLE_V2
     then (Inl (BootError CP_BOOT_SERVING_SESSION ''serving session is unavailable before activation''), p, e)
     else if Some t \<in> set [boot_transport e, failure_transport e, activation_transport e] \<or> t \<in> set (live_session_ids e)
     then (Inl (BootError CP_BOOT_TRANSPORT_EPOCH ''session transport must be fresh and epoch-disjoint''), p, e)
     else (Inr t, p, e\<lparr>live_session_ids := live_session_ids e @ [t]\<rparr>))"

definition release_session :: "object_id \<Rightarrow> unit step_v2" where
  "release_session t s = (case s of (p, e) \<Rightarrow> (Inr (), p, e\<lparr>live_session_ids := filter (\<lambda>x. x \<noteq> t) (live_session_ids e)\<rparr>))"

datatype op_v2 = Claim_boot object_id object_id | Claim_activation object_id | Next_v2 | Accept_v2 boot_observation
  | Advance_v2 object_id transport_answer | Admit object_id | Release object_id

fun step_v2 :: "process \<times> boot_engine_v2 \<Rightarrow> op_v2 \<Rightarrow> (process \<times> boot_engine_v2) \<times> bool" where
  "step_v2 s (Claim_boot bt ft) = (case claim_boot_transports bt ft s of (x, s') \<Rightarrow> (s', is_ok x))"
| "step_v2 s (Claim_activation t) = (case claim_activation_transport t s of (x, s') \<Rightarrow> (s', is_ok x))"
| "step_v2 s Next_v2 = (case next_effect_v2 s of (x, s') \<Rightarrow> (s', is_ok x))"
| "step_v2 s (Accept_v2 ob) = (case accept_v2 ob s of (x, s') \<Rightarrow> (s', is_ok x))"
| "step_v2 s (Advance_v2 t execute) = (case advance_v2 t execute s of (x, s') \<Rightarrow> (s', is_ok x))"
| "step_v2 s (Admit t) = (case admit_serving_session t s of (x, s') \<Rightarrow> (s', is_ok x))"
| "step_v2 s (Release t) = (case release_session t s of (x, s') \<Rightarrow> (s', is_ok x))"

section \<open>The golden order\<close>

definition BOOT_TRANSITION_TABLE_V2 :: "(BootTransitionStateV2 \<times> string \<times> string) list" where
  "BOOT_TRANSITION_TABLE_V2 =
    [(BOOTSTRAP_PROC_V2, ''BootstrapMountEffectV2'', ''fixed proc bootstrap mount''),
     (BOOTSTRAP_SYSFS_V2, ''BootstrapMountEffectV2'', ''fixed sysfs bootstrap mount''),
     (BOOTSTRAP_DEVTMPFS_V2, ''BootstrapMountEffectV2'', ''fixed devtmpfs bootstrap mount''),
     (BOOTSTRAP_RUN_V2, ''BootstrapMountEffectV2'', ''fixed run tmpfs bootstrap mount''),
     (INITIAL_NETWORK_APPLY_V2, ''ApplyNetworkPolicyEffectV2'', ''fixed deny-all policy''),
     (INITIAL_NETWORK_READBACK_V2, ''ReadNetworkPolicyEffectV2'', ''independent deny-all readback''),
     (CMDLINE_V2, ''CheckCmdlineEffect'', ''exact cmdline and no companions''),
     (PCR15_ZERO_V2, ''ReadPcr15Effect'', ''PCR15 is exactly zero''),
     (DISK_LOCATORS_V2, ''LocateExpectedDiskEffect'', ''four exact locators''),
     (RUNTIME_MAP_V2, ''MapVerityEffect'', ''runtime mapped''),
     (RUNTIME_VERIFY_V2, ''VerifyVerityEffect'', ''runtime verified''),
     (RUNTIME_MAPPING_IDENTITY_V2, ''ReadMappingIdentityEffect'', ''runtime mapping independently read''),
     (MODELS_MAP_V2, ''MapVerityEffect'', ''models mapped''),
     (MODELS_VERIFY_V2, ''VerifyVerityEffect'', ''models verified''),
     (MODELS_MAPPING_IDENTITY_V2, ''ReadMappingIdentityEffect'', ''models mapping independently read''),
     (RUNTIME_MOUNT_V2, ''MountImageEffect'', ''runtime mount is restrictive''),
     (RUNTIME_EXECUTABLE_CONFINEMENT_V2, ''ConfineRuntimeExecutablesEffect'', ''exact executable closure''),
     (MODELS_MOUNT_V2, ''MountImageEffect'', ''models mount is restrictive''),
     (MUTABLE_ROOTS_PRE_V2, ''CheckMutableRootClassesEffectV2'', ''mutable roots are absent before creation''),
     (TMPFS_CREATE_V2, ''CreateTmpfsEffectV2'', ''one declared root per effect''),
     (MUTABLE_ROOTS_POST_V2, ''CheckMutableRootClassesEffectV2'', ''all and only declared roots exist''),
     (MODULES_V2, ''LoadModulesEffect'', ''exact ordered modules''),
     (MODULES_DISABLED_V2, ''CloseModulesEffect'', ''module loading is closed''),
     (MUTABLE_CONTROL_V2, ''CloseMutableControlEffect'', ''each v2 mutable control is closed''),
     (PCR15_EXTEND_V2, ''ExtendPcr15Effect'', ''shared one-process PCR request''),
     (PCR15_READBACK_V2, ''ReadPcr15Effect'', ''v2 predicted PCR readback''),
     (BOOT_TRANSPORT_CLOSED_V2, ''CloseTransportEffect'', ''PCR transport is closed''),
     (JIT_INPUTS_CHECKED_V2, ''JitPolicyEffectV2'', ''sealed JIT inputs are checked''),
     (JIT_PREPARE_V2, ''JitPolicyEffectV2'', ''sealed JIT preparation''),
     (JIT_OUTPUTS_CHECKED_V2, ''JitPolicyEffectV2'', ''JIT outputs are checked''),
     (JIT_DISABLED_V2, ''JitPolicyEffectV2'', ''JIT remains disabled''),
     (SERVING_NETWORK_APPLY_V2, ''ActivationEffectV2'', ''fixed serving policy''),
     (SERVING_NETWORK_READBACK_V2, ''ReadNetworkPolicyEffectV2'', ''independent serving policy readback''),
     (LISTENER_CREATE_V2, ''ActivationEffectV2'', ''one fixed RA-TLS listener''),
     (LISTENER_BIND_V2, ''ActivationEffectV2'', ''listener bound''),
     (SERVICE_START_V2, ''ActivationEffectV2'', ''service started''),
     (SERVING_READY_V2, ''ServingReadyEffectV2'', ''serving becomes ready''),
     (NETWORK_ACTIVATE_V2, ''ActivationEffectV2'', ''only named ingress exposed'')]"

text \<open>How often a state of the table is passed, and the states passed before a state.\<close>

definition times_v2 :: "BootBindingV2 \<Rightarrow> BootTransitionStateV2 \<Rightarrow> nat" where
  "times_v2 b s = (case s of
     TMPFS_CREATE_V2 \<Rightarrow> length (application_roots b)
   | MUTABLE_CONTROL_V2 \<Rightarrow> length (mutable_control_order (runtime_v2 b))
   | JIT_PREPARE_V2 \<Rightarrow> if jit_policy b = None then 0 else 1
   | JIT_OUTPUTS_CHECKED_V2 \<Rightarrow> if jit_policy b = None then 0 else 1
   | JIT_DISABLED_V2 \<Rightarrow> if jit_policy b = None then 1 else 0
   | _ \<Rightarrow> 1)"

definition expand_v2 :: "BootBindingV2 \<Rightarrow> BootTransitionStateV2 list \<Rightarrow> BootTransitionStateV2 list" where
  "expand_v2 b ss = concat (map (\<lambda>s. replicate (times_v2 b s) s) ss)"

definition before_v2 :: "BootTransitionStateV2 \<Rightarrow> BootTransitionStateV2 list" where
  "before_v2 s = takeWhile (\<lambda>x. x \<noteq> (if s = SERVING_TRANSPORT_CLAIMED_V2 then JIT_INPUTS_CHECKED_V2 else s)) (map fst BOOT_TRANSITION_TABLE_V2)"

definition visited_v2 :: "boot_engine_v2 \<Rightarrow> BootTransitionStateV2 list" where
  "visited_v2 e = expand_v2 (binding_v2 e) (before_v2 (state_v2 e)) @
     (if state_v2 e = TMPFS_CREATE_V2 then replicate (tmpfs_index e) TMPFS_CREATE_V2
      else if state_v2 e = MUTABLE_CONTROL_V2 then replicate (control_index_v2 e) MUTABLE_CONTROL_V2 else [])"

text \<open>What each state demands of the observation it accepts.\<close>

definition control_closed_v2 :: "BootBindingV2 \<Rightarrow> observation_body \<Rightarrow> bool" where
  "control_closed_v2 b ob \<longleftrightarrow> (\<exists>c status. ob = ControlReadback c status \<and> c \<in> set (mutable_control_order (runtime_v2 b)) \<and>
     (status = DISABLED \<or> find_support c (mutable_controls (runtime_v2 b)) = Some CONDITIONAL))"

definition identified :: "VerityPair \<Rightarrow> string option \<Rightarrow> observation_body \<Rightarrow> bool" where
  "identified pair known ob \<longleftrightarrow> (\<exists>m. known = Some m \<and> (ob = VerityVerifiedObservation pair m \<or> ob = MappingIdentityObservation pair m))"

definition demanded_v2 :: "BootBindingV2 \<Rightarrow> string option \<Rightarrow> string option \<Rightarrow> BootTransitionStateV2 \<Rightarrow> observation_body \<Rightarrow> bool" where
  "demanded_v2 b rm mm s ob =
     (let r = runtime_v2 b in
      case s of
        BOOTSTRAP_PROC_V2 \<Rightarrow> ob = BootstrapMountReadbackV2 (BOOTSTRAP_MOUNTS_V2 ! 0)
      | BOOTSTRAP_SYSFS_V2 \<Rightarrow> ob = BootstrapMountReadbackV2 (BOOTSTRAP_MOUNTS_V2 ! 1)
      | BOOTSTRAP_DEVTMPFS_V2 \<Rightarrow> ob = BootstrapMountReadbackV2 (BOOTSTRAP_MOUNTS_V2 ! 2)
      | BOOTSTRAP_RUN_V2 \<Rightarrow> ob = BootstrapMountReadbackV2 (BOOTSTRAP_MOUNTS_V2 ! 3)
      | INITIAL_NETWORK_APPLY_V2 \<Rightarrow> ob = NetworkPolicyReadbackV2 INITIAL_NETWORK_POLICY_V2
      | INITIAL_NETWORK_READBACK_V2 \<Rightarrow> ob = NetworkPolicyReadbackV2 INITIAL_NETWORK_POLICY_V2
      | CMDLINE_V2 \<Rightarrow> ob = CmdlineObservation (cmdline r) []
      | PCR15_ZERO_V2 \<Rightarrow> ob = Pcr15Readback ZERO_PCR
      | DISK_LOCATORS_V2 \<Rightarrow> ob = DiskLocatorsObservation (disk_guid_v2 b) (disk_locators r)
      | RUNTIME_MAP_V2 \<Rightarrow> (\<exists>m. rm = Some m \<and> m \<noteq> [] \<and> ob = VerityMappedObservation (runtime_policy_verity r) m)
      | RUNTIME_VERIFY_V2 \<Rightarrow> identified (runtime_policy_verity r) rm ob
      | RUNTIME_MAPPING_IDENTITY_V2 \<Rightarrow> identified (runtime_policy_verity r) rm ob
      | MODELS_MAP_V2 \<Rightarrow> (\<exists>m. mm = Some m \<and> m \<noteq> [] \<and> ob = VerityMappedObservation (models_verity r) m)
      | MODELS_VERIFY_V2 \<Rightarrow> identified (models_verity r) mm ob
      | MODELS_MAPPING_IDENTITY_V2 \<Rightarrow> identified (models_verity r) mm ob
      | RUNTIME_MOUNT_V2 \<Rightarrow> ob = MountReadback ''runtime-policy'' (runtime_policy_destination r) RUNTIME_FLAGS
      | RUNTIME_EXECUTABLE_CONFINEMENT_V2 \<Rightarrow> ob = RuntimeExecutableObservation (executable_paths r)
      | MODELS_MOUNT_V2 \<Rightarrow> ob = MountReadback ''models'' (models_destination r) MODELS_FLAGS
      | MUTABLE_ROOTS_PRE_V2 \<Rightarrow> ob = MutableRootClassesReadbackV2 ''pre'' BOOTSTRAP_MOUNTS_V2 []
      | TMPFS_CREATE_V2 \<Rightarrow> (\<exists>r \<in> set (application_roots b). ob = TmpfsReadbackV2 r)
      | MUTABLE_ROOTS_POST_V2 \<Rightarrow> ob = MutableRootClassesReadbackV2 ''post'' BOOTSTRAP_MOUNTS_V2 (application_roots b)
      | MODULES_V2 \<Rightarrow> ob = ModuleReadback (map plan_identity (module_entries r))
      | MODULES_DISABLED_V2 \<Rightarrow> ob = ModulesDisabledReadback SET_TO_1
      | MUTABLE_CONTROL_V2 \<Rightarrow> control_closed_v2 b ob
      | PCR15_EXTEND_V2 \<Rightarrow> (\<exists>outcome. ob = Pcr15ExtendObservation outcome)
      | PCR15_READBACK_V2 \<Rightarrow> ob = Pcr15Readback (predicted_pcr15_v2 b)
      | BOOT_TRANSPORT_CLOSED_V2 \<Rightarrow> ob = TransportClosedObservation CLOSED
      | JIT_INPUTS_CHECKED_V2 \<Rightarrow> ob = JitPolicyReadbackV2 ''inputs_checked'' (jit_policy b)
      | JIT_PREPARE_V2 \<Rightarrow> ob = JitPolicyReadbackV2 ''prepare'' (jit_policy b)
      | JIT_OUTPUTS_CHECKED_V2 \<Rightarrow> ob = JitPolicyReadbackV2 ''outputs_checked'' (jit_policy b)
      | JIT_DISABLED_V2 \<Rightarrow> ob = JitPolicyReadbackV2 ''disabled'' None
      | SERVING_NETWORK_APPLY_V2 \<Rightarrow> ob = ActivationReadbackV2 (state_value_v2 s) (Some SERVING_NETWORK_POLICY_V2)
      | SERVING_NETWORK_READBACK_V2 \<Rightarrow> ob = NetworkPolicyReadbackV2 SERVING_NETWORK_POLICY_V2
      | LISTENER_CREATE_V2 \<Rightarrow> ob = ActivationReadbackV2 (state_value_v2 s) None
      | LISTENER_BIND_V2 \<Rightarrow> ob = ActivationReadbackV2 (state_value_v2 s) None
      | SERVICE_START_V2 \<Rightarrow> ob = ActivationReadbackV2 (state_value_v2 s) None
      | SERVING_READY_V2 \<Rightarrow> ob = ServingReadyReadbackV2 True
      | NETWORK_ACTIVATE_V2 \<Rightarrow> ob = ActivationReadbackV2 (state_value_v2 s) (Some SERVING_NETWORK_POLICY_V2)
      | _ \<Rightarrow> False)"

definition dead :: "BootTransitionStateV2 \<Rightarrow> bool" where "dead s \<longleftrightarrow> s = FAILED_NON_SERVING_V2 \<or> s = POWEROFF_V2"

definition index_ok_v2 :: "boot_engine_v2 \<Rightarrow> bool" where
  "index_ok_v2 e \<longleftrightarrow> (tmpfs_index e = 0 \<or> TMPFS_CREATE_V2 \<in> set (before_v2 (state_v2 e)) \<or> state_v2 e = TMPFS_CREATE_V2) \<and>
     (control_index_v2 e = 0 \<or> MUTABLE_CONTROL_V2 \<in> set (before_v2 (state_v2 e)) \<or> state_v2 e = MUTABLE_CONTROL_V2)"

definition inv_v2 :: "BootBindingV2 \<Rightarrow> boot_engine_v2 \<Rightarrow> bool" where
  "inv_v2 b e \<longleftrightarrow> binding_v2 e = b \<and>
     (\<not> dead (state_v2 e) \<longrightarrow> index_ok_v2 e \<and> (state_v2 e \<in> {JIT_PREPARE_V2, JIT_OUTPUTS_CHECKED_V2} \<longrightarrow> jit_policy b \<noteq> None) \<and>
        (state_v2 e = JIT_DISABLED_V2 \<longrightarrow> jit_policy b = None) \<and> map fst (accepted_v2 e) = visited_v2 e \<and>
        (\<forall>(s, ob) \<in> set (accepted_v2 e). demanded_v2 b (runtime_mapping_v2 e) (models_mapping_v2 e) s ob))"

text \<open>The states that follow each other, other than within the tmpfs roots and the controls.\<close>

definition follows_v2 :: "BootBindingV2 \<Rightarrow> BootTransitionStateV2 \<Rightarrow> BootTransitionStateV2 \<Rightarrow> bool" where
  "follows_v2 b s s' \<longleftrightarrow> expand_v2 b (before_v2 s') = expand_v2 b (before_v2 s) @ [s] \<and> \<not> dead s' \<and> \<not> dead s \<and>
     s \<noteq> TMPFS_CREATE_V2 \<and> s \<noteq> MUTABLE_CONTROL_V2 \<and> set (before_v2 s) \<subseteq> set (before_v2 s') \<and>
     (s' \<in> {JIT_PREPARE_V2, JIT_OUTPUTS_CHECKED_V2} \<longrightarrow> jit_policy b \<noteq> None) \<and> (s' = JIT_DISABLED_V2 \<longrightarrow> jit_policy b = None)"

lemma own_not_before: "TMPFS_CREATE_V2 \<notin> set (before_v2 TMPFS_CREATE_V2)" "MUTABLE_CONTROL_V2 \<notin> set (before_v2 MUTABLE_CONTROL_V2)"
  by (simp_all add: before_v2_def BOOT_TRANSITION_TABLE_V2_def)

lemmas follows_simps = follows_v2_def before_v2_def BOOT_TRANSITION_TABLE_V2_def expand_v2_def dead_def times_v2_def

lemma follows_boot:
  "follows_v2 b BOOTSTRAP_PROC_V2 BOOTSTRAP_SYSFS_V2" "follows_v2 b BOOTSTRAP_SYSFS_V2 BOOTSTRAP_DEVTMPFS_V2"
  "follows_v2 b BOOTSTRAP_DEVTMPFS_V2 BOOTSTRAP_RUN_V2" "follows_v2 b BOOTSTRAP_RUN_V2 INITIAL_NETWORK_APPLY_V2"
  "follows_v2 b INITIAL_NETWORK_APPLY_V2 INITIAL_NETWORK_READBACK_V2" "follows_v2 b INITIAL_NETWORK_READBACK_V2 CMDLINE_V2"
  "follows_v2 b CMDLINE_V2 PCR15_ZERO_V2" "follows_v2 b PCR15_ZERO_V2 DISK_LOCATORS_V2" "follows_v2 b DISK_LOCATORS_V2 RUNTIME_MAP_V2"
  "follows_v2 b RUNTIME_MAP_V2 RUNTIME_VERIFY_V2" "follows_v2 b RUNTIME_VERIFY_V2 RUNTIME_MAPPING_IDENTITY_V2"
  "follows_v2 b RUNTIME_MAPPING_IDENTITY_V2 MODELS_MAP_V2" "follows_v2 b MODELS_MAP_V2 MODELS_VERIFY_V2"
  "follows_v2 b MODELS_VERIFY_V2 MODELS_MAPPING_IDENTITY_V2" "follows_v2 b MODELS_MAPPING_IDENTITY_V2 RUNTIME_MOUNT_V2"
  "follows_v2 b RUNTIME_MOUNT_V2 RUNTIME_EXECUTABLE_CONFINEMENT_V2" "follows_v2 b RUNTIME_EXECUTABLE_CONFINEMENT_V2 MODELS_MOUNT_V2"
  "follows_v2 b MODELS_MOUNT_V2 MUTABLE_ROOTS_PRE_V2" "follows_v2 b MUTABLE_ROOTS_PRE_V2 TMPFS_CREATE_V2"
  "follows_v2 b MUTABLE_ROOTS_POST_V2 MODULES_V2" "follows_v2 b MODULES_V2 MODULES_DISABLED_V2" "follows_v2 b MODULES_DISABLED_V2 MUTABLE_CONTROL_V2"
  "follows_v2 b PCR15_EXTEND_V2 PCR15_READBACK_V2" "follows_v2 b PCR15_READBACK_V2 BOOT_TRANSPORT_CLOSED_V2"
  "follows_v2 b BOOT_TRANSPORT_CLOSED_V2 SERVING_TRANSPORT_CLAIMED_V2"
  by (simp_all add: follows_simps)

lemma follows_activation:
  "jit_policy b \<noteq> None \<Longrightarrow> follows_v2 b JIT_INPUTS_CHECKED_V2 JIT_PREPARE_V2" "jit_policy b = None \<Longrightarrow> follows_v2 b JIT_INPUTS_CHECKED_V2 JIT_DISABLED_V2"
  "jit_policy b \<noteq> None \<Longrightarrow> follows_v2 b JIT_PREPARE_V2 JIT_OUTPUTS_CHECKED_V2"
  "jit_policy b \<noteq> None \<Longrightarrow> follows_v2 b JIT_OUTPUTS_CHECKED_V2 SERVING_NETWORK_APPLY_V2"
  "jit_policy b = None \<Longrightarrow> follows_v2 b JIT_DISABLED_V2 SERVING_NETWORK_APPLY_V2"
  "follows_v2 b SERVING_NETWORK_APPLY_V2 SERVING_NETWORK_READBACK_V2" "follows_v2 b SERVING_NETWORK_READBACK_V2 LISTENER_CREATE_V2"
  "follows_v2 b LISTENER_CREATE_V2 LISTENER_BIND_V2" "follows_v2 b LISTENER_BIND_V2 SERVICE_START_V2" "follows_v2 b SERVICE_START_V2 SERVING_READY_V2"
  "follows_v2 b SERVING_READY_V2 NETWORK_ACTIVATE_V2" "follows_v2 b NETWORK_ACTIVATE_V2 SERVING_AVAILABLE_V2"
  by (simp_all add: follows_simps)

lemma inv_v2_step:
  assumes inv: "inv_v2 b e" and f: "follows_v2 b (state_v2 e) s'"
    and e': "binding_v2 e' = b" "state_v2 e' = s'" "tmpfs_index e' = tmpfs_index e" "control_index_v2 e' = control_index_v2 e" "accepted_v2 e' = accepted_v2 e"
    and dem: "demanded_v2 b (runtime_mapping_v2 e') (models_mapping_v2 e') (state_v2 e) ob"
    and old: "\<forall>(s, ob) \<in> set (accepted_v2 e). demanded_v2 b (runtime_mapping_v2 e') (models_mapping_v2 e') s ob"
  shows "inv_v2 b (e'\<lparr>accepted_v2 := accepted_v2 e' @ [(state_v2 e, ob)]\<rparr>)"
proof -
  have i: "index_ok_v2 e" "map fst (accepted_v2 e) = expand_v2 b (before_v2 (state_v2 e))"
    using inv f by (simp_all add: inv_v2_def follows_v2_def visited_v2_def)
  have z: "s' = TMPFS_CREATE_V2 \<Longrightarrow> tmpfs_index e = 0" "s' = MUTABLE_CONTROL_V2 \<Longrightarrow> control_index_v2 e = 0"
    using i(1) f own_not_before by (auto simp: index_ok_v2_def follows_v2_def)
  have "index_ok_v2 (e'\<lparr>accepted_v2 := accepted_v2 e' @ [(state_v2 e, ob)]\<rparr>)"
    using i(1) f e' by (auto simp: index_ok_v2_def follows_v2_def)
  then show ?thesis using f e' i(2) z dem old by (auto simp: inv_v2_def follows_v2_def visited_v2_def)
qed

lemma inv_v2_updates [simp]:
  "inv_v2 b (e\<lparr>pending_v2 := x\<rparr>) = inv_v2 b e" "inv_v2 b (e\<lparr>boot_transport := t\<rparr>) = inv_v2 b e" "inv_v2 b (e\<lparr>failure_transport := t\<rparr>) = inv_v2 b e"
  "inv_v2 b (e\<lparr>live_session_ids := l\<rparr>) = inv_v2 b e" "inv_v2 b (e\<lparr>extend_transport_v2 := t\<rparr>) = inv_v2 b e"
  "inv_v2 b (e\<lparr>extend_issued_v2 := y\<rparr>) = inv_v2 b e" "inv_v2 b (e\<lparr>failure_kind_v2 := k\<rparr>) = inv_v2 b e"
  by (simp_all add: inv_v2_def index_ok_v2_def visited_v2_def)

lemma inv_v2_dead: "binding_v2 e = b \<Longrightarrow> dead (state_v2 e) \<Longrightarrow> inv_v2 b e"
  by (simp add: inv_v2_def)

lemma inv_v2_fatal: "inv_v2 b e \<Longrightarrow> inv_v2 b (fatal_v2 code e)"
  by (auto simp: fatal_v2_def dead_def inv_v2_def)

lemma inv_v2_new: "new_boot_engine_v2 True b = Inr e \<Longrightarrow> inv_v2 b e"
  by (auto simp: new_boot_engine_v2_def inv_v2_def index_ok_v2_def visited_v2_def before_v2_def BOOT_TRANSITION_TABLE_V2_def expand_v2_def)

lemma check_v2_step:
  assumes inv: "inv_v2 b e" and ac: "check_v2 c code m s' e = (Inr (), e')" and s: "state_v2 e = s" and f: "follows_v2 b s s'"
    and dem: "c \<Longrightarrow> demanded_v2 b (runtime_mapping_v2 e) (models_mapping_v2 e) s ob"
  shows "inv_v2 b (e'\<lparr>accepted_v2 := accepted_v2 e' @ [(s, ob)]\<rparr>)"
proof -
  have e': "e' = e\<lparr>state_v2 := s'\<rparr>" and c using ac by (auto simp: check_v2_def split: if_splits)
  have "\<not> dead s" using f by (simp add: follows_v2_def)
  with inv_v2_step [OF inv, of s' e' ob] inv f s e' dem [OF \<open>c\<close>] show ?thesis by (auto simp: inv_v2_def)
qed

lemma identity_v2_step:
  assumes inv: "inv_v2 b e" and ac: "check_identity_v2 pair known s' ob e = (Inr (), e')" and s: "state_v2 e = s" and f: "follows_v2 b s s'"
    and dem: "identified pair known ob \<Longrightarrow> demanded_v2 b (runtime_mapping_v2 e) (models_mapping_v2 e) s ob"
  shows "inv_v2 b (e'\<lparr>accepted_v2 := accepted_v2 e' @ [(s, ob)]\<rparr>)"
proof -
  have "identified pair known ob \<and> check_v2 True CP_BOOT_OBSERVATION [] s' e = (Inr (), e')"
    using ac by (cases ob) (auto simp: check_identity_v2_def check_v2_def mapping_v2_def identified_def split: if_splits option.splits)
  with check_v2_step [OF inv _ s f] dem show ?thesis by blast
qed

lemma map_v2_step:
  assumes inv: "inv_v2 b e" and ac: "check_map_v2 pair store s' ob e = (Inr (), e')" and s: "state_v2 e = s" and f: "follows_v2 b s s'"
    and store: "\<And>m. store m e = e\<lparr>runtime_mapping_v2 := rm m, models_mapping_v2 := mm m\<rparr>"
    and dem: "\<And>m. m \<noteq> [] \<Longrightarrow> demanded_v2 b (rm m) (mm m) s (VerityMappedObservation pair m)"
    and old: "\<And>m. \<forall>(s, ob) \<in> set (accepted_v2 e). demanded_v2 b (rm m) (mm m) s ob"
  shows "inv_v2 b (e'\<lparr>accepted_v2 := accepted_v2 e' @ [(s, ob)]\<rparr>)"
proof -
  obtain m where m: "ob = VerityMappedObservation pair m" "m \<noteq> []" "e' = e\<lparr>runtime_mapping_v2 := rm m, models_mapping_v2 := mm m, state_v2 := s'\<rparr>"
    using ac store by (cases ob) (auto split: if_splits)
  from inv_v2_step [OF inv, of s' e' ob] m dem [OF m(2)] old [of m] inv f s show ?thesis by (auto simp: inv_v2_def)
qed

text \<open>Before an image is mapped nothing is demanded of its mapping.\<close>

lemma demanded_v2_before:
  "s \<in> set (expand_v2 b (before_v2 RUNTIME_MAP_V2)) \<Longrightarrow> demanded_v2 b rm mm s ob = demanded_v2 b rm' mm s ob"
  "s \<in> set (expand_v2 b (before_v2 MODELS_MAP_V2)) \<Longrightarrow> demanded_v2 b rm mm s ob = demanded_v2 b rm mm' s ob"
  by (auto simp: before_v2_def BOOT_TRANSITION_TABLE_V2_def expand_v2_def demanded_v2_def Let_def)

lemma old_demands:
  assumes inv: "inv_v2 b e"
  shows "state_v2 e = RUNTIME_MAP_V2 \<Longrightarrow> \<forall>(s, ob) \<in> set (accepted_v2 e). demanded_v2 b rm (models_mapping_v2 e) s ob"
    and "state_v2 e = MODELS_MAP_V2 \<Longrightarrow> \<forall>(s, ob) \<in> set (accepted_v2 e). demanded_v2 b (runtime_mapping_v2 e) mm s ob"
proof -
  have seen: "s \<in> set (map fst (accepted_v2 e))" if "(s, ob) \<in> set (accepted_v2 e)" for s ob using that by force
  { assume st: "state_v2 e = RUNTIME_MAP_V2"
    then show "\<forall>(s, ob) \<in> set (accepted_v2 e). demanded_v2 b rm (models_mapping_v2 e) s ob"
      using inv seen demanded_v2_before(1) [of _ b rm _ _ "runtime_mapping_v2 e"] by (fastforce simp: inv_v2_def dead_def visited_v2_def) }
  { assume st: "state_v2 e = MODELS_MAP_V2"
    then show "\<forall>(s, ob) \<in> set (accepted_v2 e). demanded_v2 b (runtime_mapping_v2 e) mm s ob"
      using inv seen demanded_v2_before(2) [of _ b _ mm _ "models_mapping_v2 e"] by (fastforce simp: inv_v2_def dead_def visited_v2_def) }
qed

text \<open>The roots and the controls: one more of them, or the last.\<close>

lemma counted_step:
  assumes "n < times_v2 b s" and "before_v2 s' = before_v2 s @ [s]"
  shows "replicate n s @ [s] = replicate (Suc n) s" and "Suc n = times_v2 b s \<Longrightarrow> expand_v2 b (before_v2 s') = expand_v2 b (before_v2 s) @ replicate (Suc n) s"
  using assms by (simp_all add: replicate_append_same expand_v2_def)

lemma before_counted:
  "before_v2 MUTABLE_ROOTS_POST_V2 = before_v2 TMPFS_CREATE_V2 @ [TMPFS_CREATE_V2]" "before_v2 PCR15_EXTEND_V2 = before_v2 MUTABLE_CONTROL_V2 @ [MUTABLE_CONTROL_V2]"
  "MUTABLE_CONTROL_V2 \<notin> set (before_v2 MUTABLE_ROOTS_POST_V2)" "TMPFS_CREATE_V2 \<in> set (before_v2 MUTABLE_CONTROL_V2)"
  "TMPFS_CREATE_V2 \<in> set (before_v2 PCR15_EXTEND_V2)"
  by (simp_all add: before_v2_def BOOT_TRANSITION_TABLE_V2_def)

lemma tmpfs_v2_step:
  assumes inv: "inv_v2 b e" and s: "state_v2 e = TMPFS_CREATE_V2" and ac: "check_tmpfs_v2 ob e = (Inr (), e')"
  shows "inv_v2 b (e'\<lparr>accepted_v2 := accepted_v2 e' @ [(TMPFS_CREATE_V2, ob)]\<rparr>)"
proof -
  let ?i = "tmpfs_index e" and ?n = "length (application_roots b)"
  have b: "binding_v2 e = b" using inv by (simp add: inv_v2_def)
  have a: "?i < ?n" "ob = TmpfsReadbackV2 (application_roots b ! ?i)"
    "e' = e\<lparr>tmpfs_index := ?i + 1, state_v2 := if ?i + 1 < ?n then TMPFS_CREATE_V2 else MUTABLE_ROOTS_POST_V2\<rparr>"
    using ac b by (auto simp: check_tmpfs_v2_def Let_def split: if_splits)
  have d: "demanded_v2 b rm mm TMPFS_CREATE_V2 ob" for rm mm using a by (auto simp: demanded_v2_def)
  have t: "times_v2 b TMPFS_CREATE_V2 = ?n" by (simp add: times_v2_def)
  note c = counted_step [of ?i b TMPFS_CREATE_V2 MUTABLE_ROOTS_POST_V2, unfolded t, OF a(1) before_counted(1)]
  have v: "map fst (accepted_v2 e) = expand_v2 b (before_v2 TMPFS_CREATE_V2) @ replicate ?i TMPFS_CREATE_V2" "control_index_v2 e = 0"
    "\<forall>(s, ob) \<in> set (accepted_v2 e). demanded_v2 b (runtime_mapping_v2 e) (models_mapping_v2 e) s ob"
    using inv s b before_counted(1,3) by (auto simp: inv_v2_def dead_def visited_v2_def index_ok_v2_def)
  have "Suc ?i < ?n \<or> Suc ?i = ?n" using a(1) by linarith
  then show ?thesis
    using v d c b s by (auto simp: a(3) inv_v2_def index_ok_v2_def visited_v2_def before_counted(1) simp del: replicate_Suc)
qed

lemma control_v2_step:
  assumes inv: "inv_v2 b e" and s: "state_v2 e = MUTABLE_CONTROL_V2" and ac: "check_control_v2 ob e = (Inr (), e')"
  shows "inv_v2 b (e'\<lparr>accepted_v2 := accepted_v2 e' @ [(MUTABLE_CONTROL_V2, ob)]\<rparr>)"
proof -
  let ?i = "control_index_v2 e" and ?n = "length (mutable_control_order (runtime_v2 b))"
  have b: "binding_v2 e = b" using inv by (simp add: inv_v2_def)
  have a: "?i < ?n" "control_closed_v2 b ob"
    "e' = e\<lparr>control_index_v2 := ?i + 1, state_v2 := if ?i + 1 < ?n then MUTABLE_CONTROL_V2 else PCR15_EXTEND_V2\<rparr>"
    using ac b by (auto simp: check_control_v2_def control_closed_v2_def Let_def split: if_splits option.splits)
  have d: "demanded_v2 b rm mm MUTABLE_CONTROL_V2 ob" for rm mm using a by (auto simp: demanded_v2_def)
  have t: "times_v2 b MUTABLE_CONTROL_V2 = ?n" by (simp add: times_v2_def)
  note c = counted_step [of ?i b MUTABLE_CONTROL_V2 PCR15_EXTEND_V2, unfolded t, OF a(1) before_counted(2)]
  have v: "map fst (accepted_v2 e) = expand_v2 b (before_v2 MUTABLE_CONTROL_V2) @ replicate ?i MUTABLE_CONTROL_V2"
    "\<forall>(s, ob) \<in> set (accepted_v2 e). demanded_v2 b (runtime_mapping_v2 e) (models_mapping_v2 e) s ob"
    using inv s b by (auto simp: inv_v2_def dead_def visited_v2_def index_ok_v2_def)
  have "Suc ?i < ?n \<or> Suc ?i = ?n" using a(1) by linarith
  then show ?thesis
    using v d c b s by (auto simp: a(3) inv_v2_def index_ok_v2_def visited_v2_def before_counted simp del: replicate_Suc)
qed

text \<open>Every check that passes keeps the invariant.\<close>

lemma local_v2_step:
  assumes inv: "inv_v2 b e" and ac: "check_local_v2 ob e = (Inr (), e')" and s: "state_v2 e = s"
  shows "inv_v2 b (e'\<lparr>accepted_v2 := accepted_v2 e' @ [(s, ob)]\<rparr>)"
proof -
  have b: "binding_v2 e = b" using inv by (simp add: inv_v2_def)
  have j: "s \<in> {JIT_PREPARE_V2, JIT_OUTPUTS_CHECKED_V2} \<Longrightarrow> jit_policy b \<noteq> None" "s = JIT_DISABLED_V2 \<Longrightarrow> jit_policy b = None"
    using inv s by (auto simp: inv_v2_def dead_def)
  consider "s \<in> {TMPFS_CREATE_V2, MUTABLE_CONTROL_V2}" | "s \<in> {RUNTIME_MAP_V2, MODELS_MAP_V2}"
    | "s \<in> {RUNTIME_VERIFY_V2, RUNTIME_MAPPING_IDENTITY_V2, MODELS_VERIFY_V2, MODELS_MAPPING_IDENTITY_V2}"
    | "s \<in> {JIT_INPUTS_CHECKED_V2, JIT_PREPARE_V2, JIT_OUTPUTS_CHECKED_V2, JIT_DISABLED_V2}"
    | "s \<notin> {TMPFS_CREATE_V2, MUTABLE_CONTROL_V2, RUNTIME_MAP_V2, MODELS_MAP_V2, RUNTIME_VERIFY_V2, RUNTIME_MAPPING_IDENTITY_V2, MODELS_VERIFY_V2,
        MODELS_MAPPING_IDENTITY_V2, JIT_INPUTS_CHECKED_V2, JIT_PREPARE_V2, JIT_OUTPUTS_CHECKED_V2, JIT_DISABLED_V2}"
    by blast
  then show ?thesis
  proof cases
    case 1
    then show ?thesis using ac s tmpfs_v2_step [OF inv] control_v2_step [OF inv] by (auto simp: check_local_v2_def Let_def)
  next
    case 2
    then show ?thesis
    proof (elim insertE emptyE)
      assume *: "s = RUNTIME_MAP_V2"
      show ?thesis
        by (rule map_v2_step [OF inv, where rm = Some and mm = "\<lambda>_. models_mapping_v2 e" and s' = RUNTIME_VERIFY_V2
              and pair = "runtime_policy_verity (runtime_v2 b)" and store = "\<lambda>m e. e\<lparr>runtime_mapping_v2 := Some m\<rparr>"])
          (use ac s * b old_demands(1) [OF inv] in \<open>simp_all add: check_local_v2_def Let_def follows_boot demanded_v2_def\<close>)
    next
      assume *: "s = MODELS_MAP_V2"
      show ?thesis
        by (rule map_v2_step [OF inv, where rm = "\<lambda>_. runtime_mapping_v2 e" and mm = Some and s' = MODELS_VERIFY_V2
              and pair = "models_verity (runtime_v2 b)" and store = "\<lambda>m e. e\<lparr>models_mapping_v2 := Some m\<rparr>"])
          (use ac s * b old_demands(2) [OF inv] in \<open>simp_all add: check_local_v2_def Let_def follows_boot demanded_v2_def\<close>)
    qed
  next
    case 3
    then show ?thesis
      using ac s by (auto simp: b check_local_v2_def Let_def follows_boot demanded_v2_def intro!: identity_v2_step [OF inv])
  next
    case 4
    then show ?thesis
      using ac s j by (auto simp: b check_local_v2_def Let_def follows_activation demanded_v2_def intro!: check_v2_step [OF inv] split: if_splits)
  next
    case 5
    then show ?thesis
      using ac s by (cases s) (auto simp: b check_local_v2_def Let_def follows_boot follows_activation demanded_v2_def intro!: check_v2_step [OF inv])
  qed
qed

lemma observation_v2_step:
  assumes inv: "inv_v2 b e" and ac: "check_observation_v2 ob (p, e) = (Inr (), p', e')"
  shows "inv_v2 b (e'\<lparr>accepted_v2 := accepted_v2 e' @ [(state_v2 e, ob)]\<rparr>)"
proof -
  consider "state_v2 e = PCR15_EXTEND_V2" | "state_v2 e = BOOT_TRANSPORT_CLOSED_V2" | "state_v2 e \<noteq> PCR15_EXTEND_V2" "state_v2 e \<noteq> BOOT_TRANSPORT_CLOSED_V2"
    by blast
  then show ?thesis
  proof cases
    case 1
    then obtain r where r: "ob = Pcr15ExtendObservation r" "e' = e\<lparr>state_v2 := PCR15_READBACK_V2\<rparr>"
      using ac by (cases ob) (auto simp: check_observation_v2_def split: if_splits)
    from inv_v2_step [OF inv, of PCR15_READBACK_V2 e' ob] r 1 inv follows_boot(23) [of b] show ?thesis
      by (auto simp: inv_v2_def dead_def demanded_v2_def)
  next
    case 2
    then have r: "ob = TransportClosedObservation CLOSED" "e' = e\<lparr>extend_transport_v2 := None, state_v2 := SERVING_TRANSPORT_CLAIMED_V2\<rparr>"
      using ac by (auto simp: check_observation_v2_def split: if_splits sum.splits prod.splits)
    from inv_v2_step [OF inv, of SERVING_TRANSPORT_CLAIMED_V2 e' ob] r 2 inv follows_boot(25) [of b] show ?thesis
      by (auto simp: inv_v2_def dead_def demanded_v2_def)
  next
    case 3
    then have "check_local_v2 ob e = (Inr (), e')" using ac by (auto simp: check_observation_v2_def split: prod.splits)
    from local_v2_step [OF inv this refl] show ?thesis .
  qed
qed

text \<open>A check that refuses changes nothing; no check touches the pending effect.\<close>

lemma checks_refused:
  "check_v2 c code m s e = (Inl x, e') \<Longrightarrow> e' = e" "check_identity_v2 pair known s ob e = (Inl x, e') \<Longrightarrow> e' = e"
  "check_tmpfs_v2 ob e = (Inl x, e') \<Longrightarrow> e' = e" "check_control_v2 ob e = (Inl x, e') \<Longrightarrow> e' = e"
  by (auto simp: check_v2_def check_identity_v2_def check_tmpfs_v2_def check_control_v2_def Let_def split: if_splits option.splits sum.splits)

lemma map_refused: "check_map_v2 pair store s ob e = (Inl x, e') \<Longrightarrow> e' = e"
  by (cases ob) (auto split: if_splits)

lemma checks_pending [simp]:
  "pending_v2 (snd (check_v2 c code m s e)) = pending_v2 e" "pending_v2 (snd (check_identity_v2 pair known s ob e)) = pending_v2 e"
  "pending_v2 (snd (check_tmpfs_v2 ob e)) = pending_v2 e" "pending_v2 (snd (check_control_v2 ob e)) = pending_v2 e"
  by (auto simp: check_v2_def check_identity_v2_def check_tmpfs_v2_def check_control_v2_def Let_def split: option.splits sum.splits)

lemma map_pending: "(\<And>m. pending_v2 (store m e) = pending_v2 e) \<Longrightarrow> pending_v2 (snd (check_map_v2 pair store s ob e)) = pending_v2 e"
  by (cases ob) auto

lemma local_v2_refused: "check_local_v2 ob e = (Inl x, e') \<Longrightarrow> e' = e"
  unfolding check_local_v2_def Let_def by (cases "state_v2 e") (auto dest: checks_refused map_refused)

lemma observation_v2_refused: "check_observation_v2 ob (p, e) = (Inl x, p', e') \<Longrightarrow> e' = e"
  by (auto simp: check_observation_v2_def dest: local_v2_refused split: if_splits option.splits sum.splits prod.splits observation_body.splits)

lemma inv_v2_accept:
  assumes inv: "inv_v2 b e" and ac: "accept_normal_v2 ob (p, e) = (x, p', e')"
  shows "inv_v2 b e'"
proof (cases "\<exists>body. ob = Observation (contract_v2 e) body \<and> pending_v2 e \<noteq> None")
  case False
  then show ?thesis using ac inv_v2_fatal [OF inv] by (cases ob; cases "pending_v2 e") (auto simp: accept_normal_v2_def Let_def)
next
  case True
  then obtain body where o: "ob = Observation (contract_v2 e) body" "pending_v2 e \<noteq> None" by blast
  let ?e = "e\<lparr>pending_v2 := None\<rparr>"
  obtain y p1 e1 where C: "check_observation_v2 body (p, ?e) = (y, p1, e1)" by (cases "check_observation_v2 body (p, ?e)")
  show ?thesis
  proof (cases y)
    case (Inr u)
    with observation_v2_step [of b ?e body p p1 e1] inv C o ac show ?thesis by (auto simp: accept_normal_v2_def Let_def)
  next
    case (Inl z)
    with observation_v2_refused C have "e1 = ?e" by blast
    with Inl C o ac inv inv_v2_fatal [of b ?e] show ?thesis by (cases z) (auto simp: accept_normal_v2_def Let_def)
  qed
qed

lemma inv_v2_next: "inv_v2 b e \<Longrightarrow> next_effect_v2 (p, e) = (x, p', e') \<Longrightarrow> inv_v2 b e'"
  by (auto simp: next_effect_v2_def Let_def claim_extend_transport_def inv_v2_fatal split: option.splits if_splits sum.splits)

lemma inv_v2_failure: "inv_v2 b e \<Longrightarrow> state_v2 e = FAILED_NON_SERVING_V2 \<Longrightarrow> advance_failure_v2 t execute (p, e) = (x, p', e') \<Longrightarrow> inv_v2 b e'"
  by (auto simp: advance_failure_v2_def Let_def inv_v2_def dead_def split: option.splits if_splits)

lemma inv_v2_advance:
  assumes inv: "inv_v2 b e" and ac: "advance_v2 t execute (p, e) = (x, p', e')"
  shows "inv_v2 b e'"
proof (cases "state_v2 e = FAILED_NON_SERVING_V2")
  case True
  then show ?thesis using ac inv_v2_failure [OF inv] by (simp add: advance_v2_def)
next
  case False
  obtain y p1 e1 where N: "next_effect_v2 (p, e) = (y, p1, e1)" by (cases "next_effect_v2 (p, e)")
  note i = inv_v2_next [OF inv N]
  from False ac N i inv_v2_accept [OF i] inv_v2_fatal [of b "e1\<lparr>pending_v2 := None\<rparr>"] show ?thesis
    by (cases y) (auto simp: advance_v2_def Let_def split: option.splits if_splits)
qed

lemma inv_v2_activation:
  assumes inv: "inv_v2 b e" and ac: "claim_activation_transport t (p, e) = (x, p', e')"
  shows "inv_v2 b e'"
proof (cases "x = Inr ()")
  case True
  then have e: "state_v2 e = SERVING_TRANSPORT_CLAIMED_V2" "e' = e\<lparr>activation_transport := Some t, state_v2 := JIT_INPUTS_CHECKED_V2\<rparr>"
    using ac by (auto simp: claim_activation_transport_def split: if_splits)
  have "before_v2 JIT_INPUTS_CHECKED_V2 = before_v2 SERVING_TRANSPORT_CLAIMED_V2" by (simp add: before_v2_def)
  with inv e show ?thesis by (simp add: inv_v2_def dead_def index_ok_v2_def visited_v2_def)
next
  case False
  then show ?thesis using ac inv by (auto simp: claim_activation_transport_def split: if_splits)
qed

interpretation boot_v2: machine step_v2 "\<lambda>s. inv_v2 b (snd s)" for b
proof
  fix s :: "process \<times> boot_engine_v2" and op
  assume "inv_v2 b (snd s)"
  moreover obtain p e where s: "s = (p, e)" by (cases s)
  ultimately have inv: "inv_v2 b e" by simp
  have acc: "inv_v2 b (snd (snd (accept_v2 ob (p, e))))" for ob
    using inv inv_v2_accept [OF inv, of ob p] by (cases "accept_normal_v2 ob (p, e)") (auto simp: accept_v2_def)
  have n: "inv_v2 b (snd (snd (next_effect_v2 (p, e))))" by (cases "next_effect_v2 (p, e)") (simp add: inv_v2_next [OF inv])
  have a: "inv_v2 b (snd (snd (advance_v2 t x (p, e))))" for t x by (cases "advance_v2 t x (p, e)") (simp add: inv_v2_advance [OF inv])
  have c: "inv_v2 b (snd (snd (claim_activation_transport t (p, e))))" for t
    by (cases "claim_activation_transport t (p, e)") (simp add: inv_v2_activation [OF inv])
  show "inv_v2 b (snd (fst (step_v2 s op)))"
    using inv acc n a c by (cases op) (simp_all add: s case_prod_unfold claim_boot_transports_def admit_serving_session_def release_session_def)
qed

section \<open>The extension of the register\<close>

text \<open>
  An engine holds the extension while its pending effect is one; it can only be pending in a state
  that still boots. What an engine executes or holds is covered by its claim of the latch.
\<close>

definition holds_v2 :: "boot_engine_v2 \<Rightarrow> nat" where
  "holds_v2 e = (case pending_v2 e of Some (_, b) \<Rightarrow> if is_extend b then 1 else 0 | None \<Rightarrow> 0)"

definition settled :: "boot_engine_v2 \<Rightarrow> bool" where
  "settled e \<longleftrightarrow> pending_v2 e = None \<or> \<not> dead (state_v2 e) \<and> state_v2 e \<noteq> SERVING_AVAILABLE_V2"

lemma fatal_settled: "settled e \<Longrightarrow> pending_v2 (fatal_v2 code e) = None"
  by (auto simp: settled_def fatal_v2_def dead_def)

lemma local_v2_pending: "pending_v2 (snd (check_local_v2 ob e)) = pending_v2 e"
  unfolding check_local_v2_def Let_def by (cases "state_v2 e") (simp_all add: map_pending)

lemma observation_v2_latch:
  assumes "check_observation_v2 ob (p, e) = (x, p', e')"
  shows "extends p' = extends p \<and> claimed p \<le> claimed p' \<and> pending_v2 e' = pending_v2 e"
  using assms latch_moves local_v2_pending [of ob e]
  by (auto simp: check_observation_v2_def split: if_splits sum.splits prod.splits observation_body.splits)

lemma accept_v2_latch:
  assumes "settled e" and "accept_normal_v2 ob (p, e) = (x, p', e')"
  shows "extends p' = extends p \<and> claimed p \<le> claimed p' \<and> pending_v2 e' = None"
proof (cases ob)
  case Foreign_value
  then show ?thesis using assms by (auto simp: accept_normal_v2_def Let_def fatal_settled)
next
  case (Observation c body)
  obtain y p1 e1 where C: "check_observation_v2 body (p, e\<lparr>pending_v2 := None\<rparr>) = (y, p1, e1)" by (cases "check_observation_v2 body (p, e\<lparr>pending_v2 := None\<rparr>)")
  from observation_v2_latch [OF C] have l: "extends p1 = extends p" "claimed p \<le> claimed p1" "pending_v2 e1 = None" by simp_all
  then have "pending_v2 (fatal_v2 code e1) = None" for code by (simp add: fatal_settled settled_def)
  with assms Observation C l show ?thesis
    by (auto simp: accept_normal_v2_def Let_def fatal_settled split: if_splits sum.splits boot_error.splits)
qed

lemma effect_v2_no_extend: "effect_for_state_v2 e = Inr q \<Longrightarrow> \<not> is_extend q"
  by (cases "state_v2 e") (auto simp: effect_for_state_v2_def Let_def res_simps split: if_splits)

lemma failure_v2_no_extend: "failure_effect_v2 e = Some ef \<Longrightarrow> \<not> is_extend (snd ef)"
  by (auto simp: failure_effect_v2_def split: option.splits FailureEffectKind.splits)

lemma next_v2_latch:
  assumes "settled e" and n: "next_effect_v2 (p, e) = (x, p', e')"
  shows "extends p' = extends p" and "holds_v2 e' + claimed p \<le> holds_v2 e + claimed p'" and "settled e'"
    and "x = Inr (Some ef) \<Longrightarrow> (if is_extend (snd ef) then 1 else 0) \<le> holds_v2 e'"
proof -
  have *: "extends p' = extends p \<and> holds_v2 e' + claimed p \<le> holds_v2 e + claimed p' \<and> settled e'
    \<and> (x = Inr (Some ef) \<longrightarrow> (if is_extend (snd ef) then 1 else 0) \<le> holds_v2 e')"
  proof (cases "pending_v2 e = None \<and> state_v2 e = PCR15_EXTEND_V2")
    case True
    then show ?thesis using assms fatal_settled [OF assms(1)]
      by (auto simp: next_effect_v2_def Let_def claim_extend_transport_def holds_v2_def claimed_def extends_def settled_def dead_def split: if_splits)
  next
    case False
    then show ?thesis using assms failure_v2_no_extend [of e] effect_v2_no_extend [of e]
      by (cases ef) (auto simp: next_effect_v2_def Let_def holds_v2_def settled_def dead_def split: option.splits if_splits sum.splits)
  qed
  from * show "extends p' = extends p" "holds_v2 e' + claimed p \<le> holds_v2 e + claimed p'" "settled e'"
    "x = Inr (Some ef) \<Longrightarrow> (if is_extend (snd ef) then 1 else 0) \<le> holds_v2 e'" by simp_all
qed

definition covered_v2 :: "process \<times> boot_engine_v2 \<Rightarrow> process \<times> boot_engine_v2 \<Rightarrow> bool" where
  "covered_v2 s s' \<longleftrightarrow> extends (fst s') + holds_v2 (snd s') + claimed (fst s) \<le> extends (fst s) + holds_v2 (snd s) + claimed (fst s')"

lemma failure_v2_latch:
  assumes "settled e" and "state_v2 e = FAILED_NON_SERVING_V2" and "advance_failure_v2 t execute (p, e) = (x, p', e')"
  shows "covered_v2 (p, e) (p', e') \<and> settled e'"
proof -
  have "pending_v2 e = None" using assms(1,2) by (simp add: settled_def dead_def)
  then show ?thesis
    using assms failure_v2_no_extend [of e]
    by (auto simp: advance_failure_v2_def Let_def covered_v2_def holds_v2_def settled_def split: if_splits option.splits)
qed

lemma advance_v2_latch:
  assumes st: "settled e" and ac: "advance_v2 t execute (p, e) = (x, p', e')"
  shows "covered_v2 (p, e) (p', e') \<and> settled e'"
proof (cases "state_v2 e = FAILED_NON_SERVING_V2")
  case True
  then show ?thesis using failure_v2_latch [OF st True] ac by (simp add: advance_v2_def)
next
  case False
  obtain y p1 e1 where N: "next_effect_v2 (p, e) = (y, p1, e1)" by (cases "next_effect_v2 (p, e)")
  note n = next_v2_latch [OF st N]
  show ?thesis
  proof (cases "\<exists>ef ob. y = Inr (Some ef) \<and> expected_transport e1 = Some t \<and> execute ef = Some ob")
    case True
    then obtain ef ob where ef: "y = Inr (Some ef)" "expected_transport e1 = Some t" "execute ef = Some ob" by blast
    then have "accept_normal_v2 ob (log_effect ef p1, e1) = (x, p', e')" using False ac N by (simp add: advance_v2_def Let_def)
    from accept_v2_latch [OF n(3) this] n(1,2) n(4) [OF ef(1)] show ?thesis by (auto simp: covered_v2_def holds_v2_def settled_def)
  next
    case T: False
    have z: "pending_v2 (fatal_v2 code (e1\<lparr>pending_v2 := None\<rparr>)) = None" for code by (simp add: fatal_settled settled_def)
    show ?thesis
      using False T ac N n(1-3) n(4) z by (cases y) (auto simp: advance_v2_def Let_def covered_v2_def holds_v2_def settled_def split: option.splits if_splits)
  qed
qed

lemma step_v2_latch:
  assumes "settled e" and "step_v2 (p, e) op = ((p', e'), r)"
  shows "covered_v2 (p, e) (p', e') \<and> settled e'"
proof (cases op)
  case (Accept_v2 ob)
  obtain y p1 e1 where A: "accept_normal_v2 ob (p, e) = (y, p1, e1)" by (cases "accept_normal_v2 ob (p, e)")
  from accept_v2_latch [OF assms(1) A] A assms Accept_v2 show ?thesis
    by (cases "state_v2 e = FAILED_NON_SERVING_V2") (auto simp: accept_v2_def covered_v2_def holds_v2_def settled_def)
next
  case Next_v2
  obtain y p1 e1 where N: "next_effect_v2 (p, e) = (y, p1, e1)" by (cases "next_effect_v2 (p, e)")
  from next_v2_latch(1-3) [OF assms(1) N] N assms(2) Next_v2 show ?thesis by (simp add: covered_v2_def)
next
  case (Advance_v2 t execute)
  obtain y p1 e1 where N: "advance_v2 t execute (p, e) = (y, p1, e1)" by (cases "advance_v2 t execute (p, e)")
  from advance_v2_latch [OF assms(1) N] N assms(2) Advance_v2 show ?thesis by simp
qed (use assms in \<open>auto simp: claim_boot_transports_def claim_activation_transport_def admit_serving_session_def release_session_def
      covered_v2_def holds_v2_def settled_def dead_def split: if_splits\<close>)

lemma new_settled: "new_boot_engine_v2 issued b = Inr e \<Longrightarrow> settled e \<and> holds_v2 e = 0"
  by (auto simp: new_boot_engine_v2_def settled_def holds_v2_def split: if_splits)

end
