(* ===== verification/Readiness_Barrier.thy ===== *)
theory Readiness_Barrier
  imports Boot_Wire Boot_Common Sha256
begin

text \<open>
  \<open>LaunchReadinessBarrierV3\<close> of \<open>conf_proc_spp_boot_v3.py\<close>: the census of the four launched roles
  under one controller epoch and one deadline. Roles are probed one after the other; each must
  answer from the process that was launched, with the wire result of its identity; a failure is
  final. Every refusal has the reason \<open>CP_BOOT_V3_LAUNCH_SUPERVISION\<close>, so a refusal is its message.
\<close>

section \<open>Data\<close>

record ReadinessProcessCredentialsV3 =
  cred_pid :: int
  cred_uid :: int
  cred_gid :: int

record ReadinessDatagramV3 =
  datagram_data :: bytes
  credentials :: "ReadinessProcessCredentialsV3 list"
  ancillary_fds :: "int list"

record ReadinessRoleIdentityV3 =
  role :: string
  role_id :: "int option"
  role_pid :: int
  role_uid :: int
  role_gid :: int
  executable_sha256 :: bytes
  gateway_worker_count :: "int option"
  gateway_cookie :: "int option"

record ReadinessProbeEmissionV3 =
  probe_role :: string
  probe_data :: bytes

record ReadinessCompletionV3 =
  completion_epoch :: int
  completion_generation :: int
  completion_deadline :: int
  all_four_identity_digest :: bytes

definition ROLE_ORDER :: "string list" where
  "ROLE_ORDER = [''attestation-broker'', ''inference'', ''asr'', ''gateway'']"

definition DEADLINE_DELTA_NS :: int where "DEADLINE_DELTA_NS = 4000000000"
definition CENSUS_GENERATION :: int where "CENSUS_GENERATION = 1"

datatype barrier_state = Collecting | Candidate | Complete | Consumed | Failed

text \<open>
  The barrier, with the history of the results it accepted: the identity that was due, the
  datagram and the time of its acceptance. The completion object is its value under the identity
  that Python gave it.
\<close>

record barrier =
  epoch :: int
  deadline :: int
  identities :: "ReadinessRoleIdentityV3 list"
  barrier_state :: barrier_state
  result_index :: nat
  probe_outstanding :: bool
  identity_material :: "bytes list"
  completion :: "(object_id \<times> ReadinessCompletionV3) option"
  census :: "(ReadinessRoleIdentityV3 \<times> ReadinessDatagramV3 \<times> int) list"

section \<open>Construction\<close>

definition identity_error :: "nat \<Rightarrow> ReadinessRoleIdentityV3 \<Rightarrow> string option" where
  "identity_error index i =
     (let expected_role_id = (if index < 3 then Some (int index + 1) else None); gateway = (role i = ''gateway'') in
      if role_id i \<noteq> expected_role_id \<or> \<not> (0 < role_pid i \<and> role_pid i < 2 ^ 32) \<or> \<not> (0 \<le> role_uid i \<and> role_uid i < 2 ^ 32)
        \<or> \<not> (0 \<le> role_gid i \<and> role_gid i < 2 ^ 32) \<or> length (executable_sha256 i) \<noteq> 32 then Some ''readiness identity is invalid''
      else if gateway \<noteq> (gateway_worker_count i \<noteq> None) then Some ''gateway readiness ledger is invalid''
      else if gateway \<noteq> (gateway_cookie i \<noteq> None) then Some ''gateway readiness cookie is invalid''
      else if gateway \<and> \<not> (0 \<le> the (gateway_worker_count i) \<and> the (gateway_worker_count i) \<le> 4 \<and>
          0 < the (gateway_cookie i) \<and> the (gateway_cookie i) < 2 ^ 64) then Some ''gateway readiness identity is invalid''
      else None)"

fun first_error :: "nat \<Rightarrow> ReadinessRoleIdentityV3 list \<Rightarrow> string option" where
  "first_error n [] = None"
| "first_error n (i # is) = (case identity_error n i of Some m \<Rightarrow> Some m | None \<Rightarrow> first_error (n + 1) is)"

definition new_barrier :: "int \<Rightarrow> int \<Rightarrow> ReadinessRoleIdentityV3 list \<Rightarrow> string + barrier" where
  "new_barrier controller_epoch census_start_ns ids =
     (if \<not> (0 < controller_epoch \<and> controller_epoch < 2 ^ 64) then Inl ''readiness controller epoch is invalid''
      else if \<not> (0 \<le> census_start_ns \<and> census_start_ns \<le> 2 ^ 64 - 1 - DEADLINE_DELTA_NS) then Inl ''readiness deadline overflows''
      else if length ids \<noteq> length ROLE_ORDER then Inl ''readiness identity census is invalid''
      else if map role ids \<noteq> ROLE_ORDER then Inl ''readiness identity roles are invalid''
      else case first_error 0 ids of
          Some m \<Rightarrow> Inl m
        | None \<Rightarrow> Inr \<lparr>epoch = controller_epoch, deadline = census_start_ns + DEADLINE_DELTA_NS, identities = ids, barrier_state = Collecting,
            result_index = 0, probe_outstanding = False, identity_material = [], completion = None, census = []\<rparr>)"

section \<open>Transitions\<close>

type_synonym 'a barrier_step = "barrier \<Rightarrow> (string + 'a) \<times> barrier"

definition fail_barrier :: "string \<Rightarrow> 'a barrier_step" where
  "fail_barrier m b = (Inl m, b\<lparr>barrier_state := Failed, probe_outstanding := False, completion := None, identity_material := []\<rparr>)"

definition exact_readiness_epoch :: "int \<Rightarrow> int \<Rightarrow> bool" where
  "exact_readiness_epoch v expected \<longleftrightarrow> 0 < v \<and> v < 2 ^ 64 \<and> v = expected"

definition guard_collecting :: "int \<Rightarrow> bool \<Rightarrow> int \<Rightarrow> barrier \<Rightarrow> string option" where
  "guard_collecting controller_epoch terminal now b =
     (if barrier_state b \<noteq> Collecting then Some ''readiness census is not collecting''
      else if terminal then Some ''controller terminal transition won readiness race''
      else if \<not> exact_readiness_epoch controller_epoch (epoch b) then Some ''readiness controller epoch changed''
      else if \<not> (0 \<le> now \<and> now < deadline b) then Some ''readiness census deadline expired''
      else None)"

text \<open>The probe of a role; \<open>encode_*\<close> may raise, which does not fail the barrier.\<close>

definition probe_of :: "barrier \<Rightarrow> ReadinessRoleIdentityV3 \<Rightarrow> bytes checked" where
  "probe_of b i = (case role_id i of
     Some r \<Rightarrow> encode_standalone_readiness_probe_v3 (StandaloneReadinessProbeV3 r CENSUS_GENERATION (deadline b))
   | None \<Rightarrow> bindE (encode_gateway_readiness_probe_payload_v3 (GatewayReadinessProbePayloadV3 CENSUS_GENERATION (deadline b))) (\<lambda>p.
       encode_serving_wire_frame_v3 GATEWAY_READINESS_PROBE ZERO_TOKEN 1 0 1 16 16 (FLAG_START_V3 OR FLAG_END_V3) p))"

definition next_probe :: "int \<Rightarrow> bool \<Rightarrow> int \<Rightarrow> ReadinessProbeEmissionV3 barrier_step" where
  "next_probe controller_epoch terminal now b = (case guard_collecting controller_epoch terminal now b of
     Some m \<Rightarrow> fail_barrier m b
   | None \<Rightarrow>
       if probe_outstanding b \<or> result_index b \<ge> length (identities b) then fail_barrier ''readiness probe order is invalid'' b
       else let i = identities b ! result_index b in
         case probe_of b i of
           Inl m \<Rightarrow> (Inl m, b)
         | Inr d \<Rightarrow> (Inr \<lparr>probe_role = role i, probe_data = d\<rparr>, b\<lparr>probe_outstanding := True\<rparr>))"

definition datagram_error :: "ReadinessRoleIdentityV3 \<Rightarrow> ReadinessDatagramV3 \<Rightarrow> string option" where
  "datagram_error i d = (case credentials d of
     [c] \<Rightarrow>
       if ancillary_fds d \<noteq> [] then Some ''readiness datagram framing is invalid''
       else if \<not> (0 < cred_pid c \<and> cred_pid c < 2 ^ 32) \<or> \<not> (0 \<le> cred_uid c \<and> cred_uid c < 2 ^ 32) \<or> \<not> (0 \<le> cred_gid c \<and> cred_gid c < 2 ^ 32)
         \<or> (cred_pid c, cred_uid c, cred_gid c) \<noteq> (role_pid i, role_uid i, role_gid i) then Some ''readiness sender credentials disagree''
       else None
   | _ \<Rightarrow> Some ''readiness datagram framing is invalid'')"

text \<open>The check of one result: the suffix of its identity material, or the message of the failure.\<close>

definition standalone_suffix :: "barrier \<Rightarrow> ReadinessRoleIdentityV3 \<Rightarrow> int \<Rightarrow> bytes \<Rightarrow> string + bytes" where
  "standalone_suffix b i r data = (case decode_standalone_readiness_result_v3 data of
     Inl _ \<Rightarrow> Inl ''readiness result framing is invalid''
   | Inr (StandaloneReadinessResultV3 result_role flgs generation dl child uid gid digest) \<Rightarrow>
       if result_role \<noteq> r \<or> flgs \<noteq> 1 \<or> generation \<noteq> CENSUS_GENERATION \<or> dl \<noteq> deadline b \<or> child \<noteq> role_pid i \<or> uid \<noteq> role_uid i
         \<or> gid \<noteq> role_gid i \<or> digest \<noteq> executable_sha256 i then Inl ''standalone readiness identity disagrees''
       else Inr [])"

definition gateway_header :: ServingWireHeaderV3 where
  "gateway_header = \<lparr>version = HEADER_VERSION_V3, message_type = GATEWAY_READINESS_RESULT, flags = FLAG_START_V3 OR FLAG_END_V3, sequence = 1,
     chunk_index = 0, chunk_count = 1, chunk_length = 56, total_length = 56, session_token = ZERO_TOKEN\<rparr>"

definition gateway_suffix :: "ReadinessRoleIdentityV3 \<Rightarrow> bytes \<Rightarrow> string + bytes" where
  "gateway_suffix i data = (case decode_serving_wire_frame_v3 data of
     Inl _ \<Rightarrow> Inl ''readiness result framing is invalid''
   | Inr fr \<Rightarrow>
       let h = header fr in
       case payload fr of
         P_gateway_readiness_result (GatewayReadinessResultPayloadV3 generation pid workers flgs digest cookie) \<Rightarrow>
           if length data \<noteq> 128 \<or> message_type h \<noteq> GATEWAY_READINESS_RESULT \<or> flags h \<noteq> (FLAG_START_V3 OR FLAG_END_V3) \<or> sequence h \<noteq> 1
             \<or> chunk_index h \<noteq> 0 \<or> chunk_count h \<noteq> 1 \<or> chunk_length h \<noteq> 56 \<or> total_length h \<noteq> 56 \<or> session_token h \<noteq> ZERO_TOKEN
             \<or> generation \<noteq> CENSUS_GENERATION \<or> pid \<noteq> role_pid i \<or> Some workers \<noteq> gateway_worker_count i \<or> flgs \<noteq> 1
             \<or> digest \<noteq> executable_sha256 i \<or> Some cookie \<noteq> gateway_cookie i then Inl ''gateway readiness identity disagrees''
           else Inr (to_be 2 (nat workers) @ to_be 8 (nat cookie))
       | _ \<Rightarrow> Inl ''gateway readiness identity disagrees'')"

definition result_suffix :: "barrier \<Rightarrow> ReadinessRoleIdentityV3 \<Rightarrow> bytes \<Rightarrow> string + bytes" where
  "result_suffix b i data = (case role_id i of Some r \<Rightarrow> standalone_suffix b i r data | None \<Rightarrow> gateway_suffix i data)"

definition role_material :: "ReadinessRoleIdentityV3 \<Rightarrow> bytes \<Rightarrow> bytes" where
  "role_material i suffix = to_be 1 (length (role i)) @ role i @ to_be 4 (nat (role_pid i)) @ to_be 4 (nat (role_uid i)) @ to_be 4 (nat (role_gid i))
     @ executable_sha256 i @ suffix"

definition accept_result :: "string \<Rightarrow> ReadinessDatagramV3 \<Rightarrow> int \<Rightarrow> bool \<Rightarrow> int \<Rightarrow> unit barrier_step" where
  "accept_result r d controller_epoch terminal now b = (case guard_collecting controller_epoch terminal now b of
     Some m \<Rightarrow> fail_barrier m b
   | None \<Rightarrow>
       if \<not> probe_outstanding b \<or> result_index b \<ge> length (identities b) then fail_barrier ''readiness result has no matching probe'' b
       else let i = identities b ! result_index b in
         if r \<noteq> role i then fail_barrier ''readiness result order is invalid'' b
         else case datagram_error i d of
             Some m \<Rightarrow> fail_barrier m b
           | None \<Rightarrow> (case result_suffix b i (datagram_data d) of
               Inl m \<Rightarrow> fail_barrier m b
             | Inr suffix \<Rightarrow>
                 let n = result_index b + 1 in
                 (Inr (), b\<lparr>identity_material := identity_material b @ [role_material i suffix], probe_outstanding := False, result_index := n,
                    barrier_state := if n = length (identities b) then Candidate else barrier_state b, census := census b @ [(i, d, now)]\<rparr>)))"

definition identity_digest :: "bytes list \<Rightarrow> bytes" where
  "identity_digest ms = sha256 (''sol-spp-launch-readiness-v3'' @ [CHR 0x00] @ concat ms)"

text \<open>\<open>complete\<close> makes a new object, whose identity is the argument \<open>fresh\<close>.\<close>

definition complete :: "object_id \<Rightarrow> int \<Rightarrow> bool \<Rightarrow> object_id barrier_step" where
  "complete fresh controller_epoch terminal b =
     (if barrier_state b \<noteq> Candidate then fail_barrier ''readiness completion compare-and-set is invalid'' b
      else if terminal \<or> \<not> exact_readiness_epoch controller_epoch (epoch b)
      then fail_barrier ''controller terminal transition won readiness completion race'' b
      else (Inr fresh, b\<lparr>completion := Some (fresh, \<lparr>completion_epoch = epoch b, completion_generation = CENSUS_GENERATION,
              completion_deadline = deadline b, all_four_identity_digest = identity_digest (identity_material b)\<rparr>), barrier_state := Complete\<rparr>))"

definition consume :: "object_id \<Rightarrow> int \<Rightarrow> bool \<Rightarrow> unit barrier_step" where
  "consume c controller_epoch terminal b =
     (if barrier_state b \<noteq> Complete \<or> map_option fst (completion b) \<noteq> Some c \<or> terminal \<or> \<not> exact_readiness_epoch controller_epoch (epoch b)
      then fail_barrier ''readiness completion consume is invalid'' b
      else (Inr (), b\<lparr>barrier_state := Consumed\<rparr>))"

definition note_terminal :: "int \<Rightarrow> string \<Rightarrow> unit barrier_step" where
  "note_terminal controller_epoch event b =
     (if event = [] \<or> \<not> exact_readiness_epoch controller_epoch (epoch b) then fail_barrier ''controller terminal event is invalid'' b
      else fail_barrier ''controller terminal transition invalidated launch readiness'' b)"

section \<open>The census\<close>

text \<open>
  A datagram attests an identity: it comes from the launched process alone, without descriptors,
  and is the one byte string that encodes the identity's result.
\<close>

definition attests :: "int \<Rightarrow> ReadinessRoleIdentityV3 \<Rightarrow> ReadinessDatagramV3 \<Rightarrow> bool" where
  "attests dl i d \<longleftrightarrow> credentials d = [\<lparr>cred_pid = role_pid i, cred_uid = role_uid i, cred_gid = role_gid i\<rparr>] \<and> ancillary_fds d = [] \<and>
     (case role_id i of
        Some r \<Rightarrow> encode_standalone_readiness_result_v3
          (StandaloneReadinessResultV3 r 1 CENSUS_GENERATION dl (role_pid i) (role_uid i) (role_gid i) (executable_sha256 i)) = Inr (datagram_data d)
      | None \<Rightarrow> (\<exists>workers cookie. gateway_worker_count i = Some workers \<and> gateway_cookie i = Some cookie \<and>
          encode_frame \<lparr>header = gateway_header, payload = P_gateway_readiness_result
            (GatewayReadinessResultPayloadV3 CENSUS_GENERATION (role_pid i) workers 1 (executable_sha256 i) cookie)\<rparr> = Inr (datagram_data d)))"

definition suffix_of :: "ReadinessRoleIdentityV3 \<Rightarrow> bytes" where
  "suffix_of i = (case role_id i of
     Some _ \<Rightarrow> []
   | None \<Rightarrow> to_be 2 (nat (the (gateway_worker_count i))) @ to_be 8 (nat (the (gateway_cookie i))))"

lemma datagram_ok: "datagram_error i d = None \<Longrightarrow> credentials d = [\<lparr>cred_pid = role_pid i, cred_uid = role_uid i, cred_gid = role_gid i\<rparr>] \<and> ancillary_fds d = []"
  by (auto simp: datagram_error_def split: list.splits if_splits intro: ReadinessProcessCredentialsV3.equality)

lemma standalone_ok:
  assumes "standalone_suffix b i r data = Inr suffix"
  shows "suffix = [] \<and> encode_standalone_readiness_result_v3
    (StandaloneReadinessResultV3 r 1 CENSUS_GENERATION (deadline b) (role_pid i) (role_uid i) (role_gid i) (executable_sha256 i)) = Inr data"
  using assms standalone_result.encode_decode [of data]
  by (auto simp: standalone_suffix_def split: sum.splits StandaloneReadinessResultV3.splits if_splits)

lemma gateway_ok:
  assumes "gateway_suffix i data = Inr suffix"
  shows "\<exists>workers cookie. gateway_worker_count i = Some workers \<and> gateway_cookie i = Some cookie \<and> suffix = to_be 2 (nat workers) @ to_be 8 (nat cookie) \<and>
    encode_frame \<lparr>header = gateway_header, payload = P_gateway_readiness_result
      (GatewayReadinessResultPayloadV3 CENSUS_GENERATION (role_pid i) workers 1 (executable_sha256 i) cookie)\<rparr> = Inr data"
proof -
  obtain fr where fr: "decode_serving_wire_frame_v3 data = Inr fr" using assms by (cases "decode_serving_wire_frame_v3 data") (auto simp: gateway_suffix_def)
  have e: "frame_ok fr" "encode_frame fr = Inr data" using wire_frame.encode_decode [OF fr] by (auto split: if_splits)
  obtain workers cookie where p: "payload fr = P_gateway_readiness_result (GatewayReadinessResultPayloadV3 CENSUS_GENERATION (role_pid i) workers 1 (executable_sha256 i) cookie)"
    "gateway_worker_count i = Some workers" "gateway_cookie i = Some cookie" "suffix = to_be 2 (nat workers) @ to_be 8 (nat cookie)"
    and h: "message_type (header fr) = GATEWAY_READINESS_RESULT" "flags (header fr) = (FLAG_START_V3 OR FLAG_END_V3)" "sequence (header fr) = 1"
      "chunk_index (header fr) = 0" "chunk_count (header fr) = 1" "chunk_length (header fr) = 56" "total_length (header fr) = 56" "session_token (header fr) = ZERO_TOKEN"
    using assms fr by (auto simp: gateway_suffix_def Let_def split: wire_payload.splits GatewayReadinessResultPayloadV3.splits if_splits)
  have "header fr = gateway_header"
    using h e(1) by (intro ServingWireHeaderV3.equality) (simp_all add: gateway_header_def frame_ok_def Let_def)
  then have "fr = \<lparr>header = gateway_header, payload = P_gateway_readiness_result
      (GatewayReadinessResultPayloadV3 CENSUS_GENERATION (role_pid i) workers 1 (executable_sha256 i) cookie)\<rparr>"
    using p(1) by (intro ServingWireFrameV3.equality) simp_all
  with e(2) p show ?thesis by blast
qed

lemma result_ok:
  assumes "result_suffix b i (datagram_data d) = Inr suffix" and "datagram_error i d = None"
  shows "attests (deadline b) i d \<and> suffix = suffix_of i"
proof (cases "role_id i")
  case (Some r)
  then show ?thesis using assms datagram_ok [OF assms(2)] standalone_ok [of b i r] by (auto simp: result_suffix_def attests_def suffix_of_def)
next
  case None
  with assms(1) have "gateway_suffix i (datagram_data d) = Inr suffix" by (simp add: result_suffix_def)
  from gateway_ok [OF this] obtain workers cookie where "gateway_worker_count i = Some workers" "gateway_cookie i = Some cookie" "suffix = to_be 2 (nat workers) @ to_be 8 (nat cookie)"
    "encode_frame \<lparr>header = gateway_header, payload = P_gateway_readiness_result
      (GatewayReadinessResultPayloadV3 CENSUS_GENERATION (role_pid i) workers 1 (executable_sha256 i) cookie)\<rparr> = Inr (datagram_data d)"
    by blast
  with None datagram_ok [OF assms(2)] show ?thesis by (simp add: attests_def suffix_of_def)
qed

text \<open>The invariant: the census is the part of the identities before the index, each of them attested in time.\<close>

definition counted :: "barrier \<Rightarrow> bool" where
  "counted b \<longleftrightarrow> map fst (census b) = take (result_index b) (identities b) \<and> result_index b \<le> length (identities b) \<and>
     (\<forall>(i, d, now) \<in> set (census b). attests (deadline b) i d \<and> 0 \<le> now \<and> now < deadline b)"

definition material_of :: "ReadinessRoleIdentityV3 list \<Rightarrow> bytes list" where
  "material_of is = map (\<lambda>i. role_material i (suffix_of i)) is"

definition completion_ok :: "barrier \<Rightarrow> bool" where
  "completion_ok b \<longleftrightarrow> (\<exists>c. completion b = Some (c, \<lparr>completion_epoch = epoch b, completion_generation = CENSUS_GENERATION,
     completion_deadline = deadline b, all_four_identity_digest = identity_digest (material_of (identities b))\<rparr>))"

definition barrier_inv :: "barrier \<Rightarrow> bool" where
  "barrier_inv b \<longleftrightarrow> counted b \<and>
     (barrier_state b \<noteq> Failed \<longrightarrow> identity_material b = material_of (take (result_index b) (identities b)) \<and>
       (barrier_state b \<noteq> Collecting \<longrightarrow> result_index b = length (identities b)) \<and>
       (barrier_state b = Complete \<or> barrier_state b = Consumed \<longrightarrow> completion_ok b))"

lemma barrier_inv_fail: "barrier_inv b \<Longrightarrow> fail_barrier m b = (x, b') \<Longrightarrow> barrier_inv b'"
  by (auto simp: fail_barrier_def barrier_inv_def counted_def)

lemma barrier_inv_new: "new_barrier e s ids = Inr b \<Longrightarrow> barrier_inv b"
  by (auto simp: new_barrier_def barrier_inv_def counted_def material_of_def split: if_splits option.splits)

lemma barrier_inv_probe: "barrier_inv b \<Longrightarrow> next_probe e t now b = (x, b') \<Longrightarrow> barrier_inv b'"
  by (auto simp: next_probe_def Let_def barrier_inv_fail split: option.splits if_splits sum.splits) (auto simp: barrier_inv_def counted_def completion_ok_def)

lemma barrier_inv_result:
  assumes inv: "barrier_inv b" and ac: "accept_result r d e t now b = (x, b')"
  shows "barrier_inv b'"
proof (cases "x = Inr ()")
  case False
  then show ?thesis
    using ac inv by (auto simp: accept_result_def Let_def fail_barrier_def split: option.splits if_splits sum.splits)
      (auto simp: barrier_inv_def counted_def)
next
  case True
  let ?k = "result_index b" and ?i = "identities b ! result_index b"
  obtain suffix where g: "guard_collecting e t now b = None" and k: "?k < length (identities b)" and de: "datagram_error ?i d = None"
    and su: "result_suffix b ?i (datagram_data d) = Inr suffix"
    and b': "b' = b\<lparr>identity_material := identity_material b @ [role_material ?i suffix], probe_outstanding := False, result_index := ?k + 1,
        barrier_state := if ?k + 1 = length (identities b) then Candidate else barrier_state b, census := census b @ [(?i, d, now)]\<rparr>"
    using ac True by (auto simp: accept_result_def Let_def fail_barrier_def split: option.splits if_splits sum.splits)
  from result_ok [OF su de] have a: "attests (deadline b) ?i d" "suffix = suffix_of ?i" by simp_all
  have c: "barrier_state b = Collecting" "0 \<le> now" "now < deadline b" using g by (auto simp: guard_collecting_def split: if_splits)
  have t: "take (?k + 1) (identities b) = take ?k (identities b) @ [?i]" using k by (simp add: take_Suc_conv_app_nth)
  have "counted b'" using inv a k c t by (auto simp: b' barrier_inv_def counted_def)
  moreover have "identity_material b' = material_of (take (result_index b') (identities b'))"
    using inv c a t by (auto simp: b' barrier_inv_def material_of_def)
  ultimately show ?thesis using c k by (auto simp: barrier_inv_def b')
qed

lemma barrier_inv_complete: "barrier_inv b \<Longrightarrow> complete c e t b = (x, b') \<Longrightarrow> barrier_inv b'"
  by (auto simp: complete_def barrier_inv_fail split: if_splits) (auto simp: barrier_inv_def counted_def completion_ok_def)

lemma barrier_inv_consume: "barrier_inv b \<Longrightarrow> consume c e t b = (x, b') \<Longrightarrow> barrier_inv b'"
  by (auto simp: consume_def barrier_inv_fail split: if_splits) (auto simp: barrier_inv_def counted_def completion_ok_def)

lemma barrier_inv_terminal: "barrier_inv b \<Longrightarrow> note_terminal e ev b = (x, b') \<Longrightarrow> barrier_inv b'"
  by (auto simp: note_terminal_def barrier_inv_fail split: if_splits)

text \<open>The constants of a barrier, and the results that a transition leaves.\<close>

definition same_census :: "barrier \<Rightarrow> barrier \<Rightarrow> bool" where
  "same_census b b' \<longleftrightarrow> epoch b' = epoch b \<and> deadline b' = deadline b \<and> identities b' = identities b"

lemma census_kept:
  "next_probe e t now b = (x, b') \<Longrightarrow> same_census b b'" "accept_result r d e t now b = (y, b') \<Longrightarrow> same_census b b'"
  "complete c e t b = (z, b') \<Longrightarrow> same_census b b'" "consume c e t b = (y, b') \<Longrightarrow> same_census b b'" "note_terminal e ev b = (y, b') \<Longrightarrow> same_census b b'"
  by (auto simp: next_probe_def accept_result_def complete_def consume_def note_terminal_def fail_barrier_def same_census_def Let_def
      split: option.splits if_splits sum.splits)

lemma failed_when_refused:
  "accept_result r d e t now b = (Inl m, b') \<Longrightarrow> barrier_state b' = Failed" "complete c e t b = (Inl m, b') \<Longrightarrow> barrier_state b' = Failed"
  "consume c e t b = (Inl m, b') \<Longrightarrow> barrier_state b' = Failed" "note_terminal e ev b = (y, b') \<Longrightarrow> barrier_state b' = Failed"
  by (auto simp: accept_result_def complete_def consume_def note_terminal_def fail_barrier_def Let_def split: option.splits if_splits sum.splits)

text \<open>A barrier that is complete has counted every identity.\<close>

lemma complete_census:
  assumes "barrier_inv b" and "barrier_state b = Complete \<or> barrier_state b = Consumed"
  shows "map fst (census b) = identities b" and "\<forall>(i, d, now) \<in> set (census b). attests (deadline b) i d \<and> 0 \<le> now \<and> now < deadline b" and "completion_ok b"
  using assms by (auto simp: barrier_inv_def counted_def)

end
