(* ===== verification/Boot_Engine_V3.thy ===== *)
theory Boot_Engine_V3
  imports Boot_Engine Readiness_Barrier
begin

text \<open>
  \<open>BootTransitionEngineV3\<close> of \<open>conf_proc_spp_boot_v3.py\<close>: the version 3 boot as a chain of authority
  steps, the census of the launched roles that it owns, and the guard of serving admission. The
  registry that issues bindings is seen through one fact: every operation first verifies the
  engine's record, and once a verification has failed none succeeds any more.
\<close>

section \<open>Steps\<close>

fun state_value_v3 :: "BootTransitionStateV3 \<Rightarrow> string" where
  "state_value_v3 PID1_IDENTITY_ESTABLISHED_V3 = ''pid1_identity_established''"
| "state_value_v3 ADAPTER_CONSTRUCTED_V3 = ''adapter_constructed''"
| "state_value_v3 BOOTSTRAP_MOUNTED_V3 = ''bootstrap_mounted''"
| "state_value_v3 NETWORK_PREFLIGHT_STARTED_V3 = ''network_preflight_started''"
| "state_value_v3 NIC_CENSUS_ESTABLISHED_V3 = ''nic_census_established''"
| "state_value_v3 EARLY_MODULES_LOADED_V3 = ''early_modules_loaded''"
| "state_value_v3 NIC_CENSUS_REVALIDATED_V3 = ''nic_census_revalidated''"
| "state_value_v3 NETWORK_DENY_INSTALLED_V3 = ''network_deny_installed''"
| "state_value_v3 CMDLINE_SEALED_V3 = ''cmdline_sealed''"
| "state_value_v3 PCR15_ZERO_CONFIRMED_V3 = ''pcr15_zero_confirmed''"
| "state_value_v3 DISK_IDENTIFIED_V3 = ''disk_identified''"
| "state_value_v3 ROOT_MODEL_VERITY_MAPPED_V3 = ''root_model_verity_mapped''"
| "state_value_v3 ROOT_MODEL_MOUNTED_V3 = ''root_model_mounted''"
| "state_value_v3 C1_CENSUS_ESTABLISHED_V3 = ''c1_census_established''"
| "state_value_v3 FINAL_RUN_CREATED_V3 = ''final_run_created''"
| "state_value_v3 C2_CENSUS_ESTABLISHED_V3 = ''c2_census_established''"
| "state_value_v3 LATER_MODULES_LOADED_V3 = ''later_modules_loaded''"
| "state_value_v3 MODULES_DISABLED_V3 = ''modules_disabled''"
| "state_value_v3 MUTABLE_CONTROLS_ENFORCED_V3 = ''mutable_controls_enforced''"
| "state_value_v3 PCR15_EXTENDED_V3 = ''pcr15_extended''"
| "state_value_v3 TPM_BOOT_TRANSPORT_CLOSED_V3 = ''tpm_boot_transport_closed''"
| "state_value_v3 DEVICE_MONITOR_SEALED_V3 = ''device_monitor_sealed''"
| "state_value_v3 DEV_TREE_PRUNED_V3 = ''dev_tree_pruned''"
| "state_value_v3 DEVICE_MONITOR_RECONCILED_V3 = ''device_monitor_reconciled''"
| "state_value_v3 SECURITYFS_UNMOUNTED_V3 = ''securityfs_unmounted''"
| "state_value_v3 KERNEL_INTERFACES_MOVED_V3 = ''kernel_interfaces_moved''"
| "state_value_v3 C3_CENSUS_ESTABLISHED_V3 = ''c3_census_established''"
| "state_value_v3 HANDOFF_SEALED_V3 = ''handoff_sealed''"
| "state_value_v3 SWITCH_ROOT_COMPLETED_V3 = ''switch_root_completed''"
| "state_value_v3 STAGE2_ADMITTED_V3 = ''stage2_admitted''"
| "state_value_v3 POST_ROOT_RUNTIME_SEALED_V3 = ''post_root_runtime_sealed''"
| "state_value_v3 LAUNCH_SUPERVISION_READY_V3 = ''launch_supervision_ready''"
| "state_value_v3 SERVING_AVAILABLE_V3 = ''serving_available''"
| "state_value_v3 FAILED_NON_SERVING_V3 = ''failed_non_serving''"

declare state_value_v3.simps [simp del]

datatype reason_v3 = CP_BOOT_V3_PID1_IDENTITY | CP_BOOT_V3_MOUNT_CENSUS | CP_BOOT_V3_NETWORK_POLICY | CP_BOOT_V3_MODULE_AUTHORITY | CP_BOOT_V3_PCR
  | CP_BOOT_V3_LATCH | CP_BOOT_V3_CONTROL | CP_BOOT_V3_DEV_TREE | CP_BOOT_V3_DEVICE_MONITOR | CP_BOOT_V3_LAUNCH_SUPERVISION
  | CP_BOOT_V3_ROOT_TRANSITION | CP_BOOT_V3_BINDING

datatype error_v3 = ErrorV3 reason_v3 string | Latch_error boot_error | No_barrier

definition NORMAL_STATES_V3 :: "BootTransitionStateV3 list" where
  "NORMAL_STATES_V3 = [PID1_IDENTITY_ESTABLISHED_V3, ADAPTER_CONSTRUCTED_V3, BOOTSTRAP_MOUNTED_V3, NETWORK_PREFLIGHT_STARTED_V3,
     NIC_CENSUS_ESTABLISHED_V3, EARLY_MODULES_LOADED_V3, NIC_CENSUS_REVALIDATED_V3, NETWORK_DENY_INSTALLED_V3, CMDLINE_SEALED_V3,
     PCR15_ZERO_CONFIRMED_V3, DISK_IDENTIFIED_V3, ROOT_MODEL_VERITY_MAPPED_V3, ROOT_MODEL_MOUNTED_V3, C1_CENSUS_ESTABLISHED_V3,
     FINAL_RUN_CREATED_V3, C2_CENSUS_ESTABLISHED_V3, LATER_MODULES_LOADED_V3, MODULES_DISABLED_V3, MUTABLE_CONTROLS_ENFORCED_V3,
     PCR15_EXTENDED_V3, TPM_BOOT_TRANSPORT_CLOSED_V3, DEVICE_MONITOR_SEALED_V3, DEV_TREE_PRUNED_V3, DEVICE_MONITOR_RECONCILED_V3,
     SECURITYFS_UNMOUNTED_V3, KERNEL_INTERFACES_MOVED_V3, C3_CENSUS_ESTABLISHED_V3, HANDOFF_SEALED_V3, SWITCH_ROOT_COMPLETED_V3,
     STAGE2_ADMITTED_V3, POST_ROOT_RUNTIME_SEALED_V3, LAUNCH_SUPERVISION_READY_V3, SERVING_AVAILABLE_V3]"

text \<open>What a step expects of its observation; \<open>Absent\<close> stands for no entry.\<close>

fun step_expected :: "BootTransitionStateV3 \<Rightarrow> authority_value" where
  "step_expected BOOTSTRAP_MOUNTED_V3 = Table Bootstrap_mounts"
| "step_expected NETWORK_PREFLIGHT_STARTED_V3 = Table Network_census"
| "step_expected NIC_CENSUS_ESTABLISHED_V3 = Table Network_census"
| "step_expected EARLY_MODULES_LOADED_V3 = Table Early_modules"
| "step_expected NIC_CENSUS_REVALIDATED_V3 = Table Network_census"
| "step_expected NETWORK_DENY_INSTALLED_V3 = Table Network_census"
| "step_expected PCR15_ZERO_CONFIRMED_V3 = Octets ZERO_PCR"
| "step_expected MUTABLE_CONTROLS_ENFORCED_V3 = Table Control_inventory"
| "step_expected DEV_TREE_PRUNED_V3 = Table Dev_tree"
| "step_expected LAUNCH_SUPERVISION_READY_V3 = Table Launch_roles"
| "step_expected SERVING_AVAILABLE_V3 = Table Launch_roles"
| "step_expected _ = Absent"

fun reason_for_state :: "BootTransitionStateV3 \<Rightarrow> reason_v3" where
  "reason_for_state PID1_IDENTITY_ESTABLISHED_V3 = CP_BOOT_V3_PID1_IDENTITY"
| "reason_for_state ADAPTER_CONSTRUCTED_V3 = CP_BOOT_V3_PID1_IDENTITY"
| "reason_for_state BOOTSTRAP_MOUNTED_V3 = CP_BOOT_V3_MOUNT_CENSUS"
| "reason_for_state NETWORK_PREFLIGHT_STARTED_V3 = CP_BOOT_V3_NETWORK_POLICY"
| "reason_for_state NIC_CENSUS_ESTABLISHED_V3 = CP_BOOT_V3_NETWORK_POLICY"
| "reason_for_state EARLY_MODULES_LOADED_V3 = CP_BOOT_V3_MODULE_AUTHORITY"
| "reason_for_state NIC_CENSUS_REVALIDATED_V3 = CP_BOOT_V3_NETWORK_POLICY"
| "reason_for_state NETWORK_DENY_INSTALLED_V3 = CP_BOOT_V3_NETWORK_POLICY"
| "reason_for_state PCR15_ZERO_CONFIRMED_V3 = CP_BOOT_V3_PCR"
| "reason_for_state C1_CENSUS_ESTABLISHED_V3 = CP_BOOT_V3_MOUNT_CENSUS"
| "reason_for_state FINAL_RUN_CREATED_V3 = CP_BOOT_V3_MOUNT_CENSUS"
| "reason_for_state C2_CENSUS_ESTABLISHED_V3 = CP_BOOT_V3_MOUNT_CENSUS"
| "reason_for_state LATER_MODULES_LOADED_V3 = CP_BOOT_V3_MODULE_AUTHORITY"
| "reason_for_state MODULES_DISABLED_V3 = CP_BOOT_V3_CONTROL"
| "reason_for_state MUTABLE_CONTROLS_ENFORCED_V3 = CP_BOOT_V3_CONTROL"
| "reason_for_state PCR15_EXTENDED_V3 = CP_BOOT_V3_PCR"
| "reason_for_state TPM_BOOT_TRANSPORT_CLOSED_V3 = CP_BOOT_V3_LATCH"
| "reason_for_state DEVICE_MONITOR_SEALED_V3 = CP_BOOT_V3_DEVICE_MONITOR"
| "reason_for_state DEV_TREE_PRUNED_V3 = CP_BOOT_V3_DEV_TREE"
| "reason_for_state DEVICE_MONITOR_RECONCILED_V3 = CP_BOOT_V3_DEVICE_MONITOR"
| "reason_for_state SECURITYFS_UNMOUNTED_V3 = CP_BOOT_V3_CONTROL"
| "reason_for_state KERNEL_INTERFACES_MOVED_V3 = CP_BOOT_V3_CONTROL"
| "reason_for_state C3_CENSUS_ESTABLISHED_V3 = CP_BOOT_V3_MOUNT_CENSUS"
| "reason_for_state POST_ROOT_RUNTIME_SEALED_V3 = CP_BOOT_V3_CONTROL"
| "reason_for_state LAUNCH_SUPERVISION_READY_V3 = CP_BOOT_V3_LAUNCH_SUPERVISION"
| "reason_for_state SERVING_AVAILABLE_V3 = CP_BOOT_V3_LAUNCH_SUPERVISION"
| "reason_for_state _ = CP_BOOT_V3_ROOT_TRANSITION"

fun diagnostic_token_for_state :: "BootTransitionStateV3 \<Rightarrow> string option" where
  "diagnostic_token_for_state PID1_IDENTITY_ESTABLISHED_V3 = Some ''pid1''"
| "diagnostic_token_for_state ADAPTER_CONSTRUCTED_V3 = Some ''adapter''"
| "diagnostic_token_for_state BOOTSTRAP_MOUNTED_V3 = Some ''runtime_authority''"
| "diagnostic_token_for_state NETWORK_PREFLIGHT_STARTED_V3 = Some ''runtime_authority''"
| "diagnostic_token_for_state NIC_CENSUS_ESTABLISHED_V3 = Some ''runtime_authority''"
| "diagnostic_token_for_state EARLY_MODULES_LOADED_V3 = Some ''runtime_authority''"
| "diagnostic_token_for_state NIC_CENSUS_REVALIDATED_V3 = Some ''runtime_authority''"
| "diagnostic_token_for_state NETWORK_DENY_INSTALLED_V3 = Some ''runtime_authority''"
| "diagnostic_token_for_state CMDLINE_SEALED_V3 = Some ''runtime_authority''"
| "diagnostic_token_for_state PCR15_ZERO_CONFIRMED_V3 = Some ''runtime_authority''"
| "diagnostic_token_for_state DISK_IDENTIFIED_V3 = Some ''runtime_authority''"
| "diagnostic_token_for_state ROOT_MODEL_VERITY_MAPPED_V3 = Some ''root_transition''"
| "diagnostic_token_for_state ROOT_MODEL_MOUNTED_V3 = Some ''root_transition''"
| "diagnostic_token_for_state C1_CENSUS_ESTABLISHED_V3 = Some ''root_transition''"
| "diagnostic_token_for_state FINAL_RUN_CREATED_V3 = Some ''root_transition''"
| "diagnostic_token_for_state C2_CENSUS_ESTABLISHED_V3 = Some ''root_transition''"
| "diagnostic_token_for_state LATER_MODULES_LOADED_V3 = Some ''root_transition''"
| "diagnostic_token_for_state MODULES_DISABLED_V3 = Some ''root_transition''"
| "diagnostic_token_for_state MUTABLE_CONTROLS_ENFORCED_V3 = Some ''root_transition''"
| "diagnostic_token_for_state PCR15_EXTENDED_V3 = Some ''root_transition''"
| "diagnostic_token_for_state TPM_BOOT_TRANSPORT_CLOSED_V3 = Some ''root_transition''"
| "diagnostic_token_for_state DEVICE_MONITOR_SEALED_V3 = Some ''root_transition''"
| "diagnostic_token_for_state DEV_TREE_PRUNED_V3 = Some ''root_transition''"
| "diagnostic_token_for_state DEVICE_MONITOR_RECONCILED_V3 = Some ''root_transition''"
| "diagnostic_token_for_state SECURITYFS_UNMOUNTED_V3 = Some ''root_transition''"
| "diagnostic_token_for_state KERNEL_INTERFACES_MOVED_V3 = Some ''root_transition''"
| "diagnostic_token_for_state C3_CENSUS_ESTABLISHED_V3 = Some ''root_transition''"
| "diagnostic_token_for_state HANDOFF_SEALED_V3 = Some ''root_transition''"
| "diagnostic_token_for_state SWITCH_ROOT_COMPLETED_V3 = Some ''root_transition''"
| "diagnostic_token_for_state STAGE2_ADMITTED_V3 = Some ''root_transition''"
| "diagnostic_token_for_state POST_ROOT_RUNTIME_SEALED_V3 = Some ''runtime_authority''"
| "diagnostic_token_for_state LAUNCH_SUPERVISION_READY_V3 = Some ''serving_integrity''"
| "diagnostic_token_for_state SERVING_AVAILABLE_V3 = Some ''serving_integrity''"
| "diagnostic_token_for_state _ = None"

definition next_state_v3 :: "BootTransitionStateV3 \<Rightarrow> BootTransitionStateV3" where
  "next_state_v3 s = (if s = SERVING_AVAILABLE_V3 then SERVING_AVAILABLE_V3 else the (map_of (zip NORMAL_STATES_V3 (tl NORMAL_STATES_V3)) s))"

section \<open>State\<close>

record LaunchRole =
  launch_role :: string
  launch_uid :: int
  launch_gid :: int
  launch_source_digest :: bytes

record OperationMaterialV3 =
  material_contract_sha256 :: string
  material_measurement :: bytes

text \<open>The measurement over the captured bytes of a binding, in the order of the code.\<close>

definition MEASURED_FIELDS_V3 :: "string list" where
  "MEASURED_FIELDS_V3 = [''root_lock_bytes'', ''runtime_closure_bytes'', ''verity_rules_bytes'', ''tcb_identity_bytes'', ''builder_source_bytes'',
     ''policy_bytes'', ''accepted_manifest_bytes'', ''kernel_feature_contract_bytes'', ''trusted_certificate_bundle_bytes'', ''boot_contract_bytes'',
     ''module_plan_bytes'', ''gpt_layout_rules_bytes'', ''literal_v3_observation_shape_bytes'']"

definition measurement_v3 :: "(string \<Rightarrow> bytes) \<Rightarrow> bytes" where
  "measurement_v3 captured = sha256 (''sol-spp-appliance-manifest-v3'' @ [CHR 0x00] @
     concat (map (\<lambda>f. to_be 8 (length (captured f)) @ captured f) MEASURED_FIELDS_V3))"

text \<open>
  \<open>lifetime\<close>: how many verifications the engine's record will still pass (\<open>None\<close> for all of them).
\<close>

record boot_engine_v3 =
  material :: OperationMaterialV3
  launch_roles :: "LaunchRole list"
  lifetime :: "nat option"
  state_v3 :: BootTransitionStateV3
  pending_v3 :: "boot_effect option"
  extend_transport_v3 :: "object_id option"
  extend_issued_v3 :: bool
  serving_effect_completed :: bool
  readiness_barrier :: "barrier option"
  completion_consumed :: bool
  consumed_completion :: "object_id option"
  serving_eligible :: bool
  diagnostic_token :: "string option"
  accepted_v3 :: "(BootTransitionStateV3 \<times> authority_value) list"

type_synonym 'a step_v3 = "process \<times> boot_engine_v3 \<Rightarrow> (error_v3 + 'a) \<times> process \<times> boot_engine_v3"

definition new_boot_engine_v3 :: "OperationMaterialV3 \<Rightarrow> LaunchRole list \<Rightarrow> nat option \<Rightarrow> boot_engine_v3" where
  "new_boot_engine_v3 m roles n = \<lparr>material = m, launch_roles = roles, lifetime = n, state_v3 = PID1_IDENTITY_ESTABLISHED_V3, pending_v3 = None,
     extend_transport_v3 = None, extend_issued_v3 = False, serving_effect_completed = False, readiness_barrier = None, completion_consumed = False,
     consumed_completion = None, serving_eligible = False, diagnostic_token = None, accepted_v3 = []\<rparr>"

definition contract_v3 :: "boot_engine_v3 \<Rightarrow> string" where "contract_v3 e = material_contract_sha256 (material e)"

text \<open>\<open>_verify_v3\<close>, before the rest of an operation.\<close>

definition verified :: "'a step_v3 \<Rightarrow> 'a step_v3" where
  "verified m s = (case s of (p, e) \<Rightarrow> (case lifetime e of
     None \<Rightarrow> m (p, e)
   | Some 0 \<Rightarrow> (Inl (ErrorV3 CP_BOOT_V3_BINDING ''binding was not issued''), p, e)
   | Some (Suc n) \<Rightarrow> m (p, e\<lparr>lifetime := Some n\<rparr>)))"

section \<open>Failure\<close>

definition enter_failure :: "boot_engine_v3 \<Rightarrow> boot_engine_v3" where
  "enter_failure e = (if state_v3 e = FAILED_NON_SERVING_V3 then e
     else e\<lparr>diagnostic_token := diagnostic_token_for_state (state_v3 e), state_v3 := FAILED_NON_SERVING_V3\<rparr>)"

definition terminate_barrier :: "boot_engine_v3 \<Rightarrow> boot_engine_v3" where
  "terminate_barrier e = (case readiness_barrier e of
     None \<Rightarrow> e
   | Some b \<Rightarrow>
       if barrier_state b = Collecting \<or> barrier_state b = Candidate \<or> barrier_state b = Complete
       then e\<lparr>readiness_barrier := Some (snd (note_terminal (epoch b) ''engine_failure'' b))\<rparr> else e)"

definition invalidate_readiness :: "boot_engine_v3 \<Rightarrow> boot_engine_v3" where
  "invalidate_readiness e = (enter_failure e)\<lparr>serving_eligible := False, consumed_completion := None, pending_v3 := None\<rparr>"

definition fail_engine_v3 :: "boot_engine_v3 \<Rightarrow> boot_engine_v3" where
  "fail_engine_v3 e = (terminate_barrier (enter_failure e))\<lparr>serving_eligible := False, consumed_completion := None, pending_v3 := None\<rparr>"

definition fail_v3 :: "reason_v3 \<Rightarrow> string \<Rightarrow> 'a step_v3" where
  "fail_v3 code m s = (case s of (p, e) \<Rightarrow> (Inl (ErrorV3 code m), p, fail_engine_v3 e))"

section \<open>Effects and observations\<close>

definition issue_effect_v3 :: "boot_effect option step_v3" where
  "issue_effect_v3 = (\<lambda>(p, e). case pending_v3 e of
     Some q \<Rightarrow> (Inr (Some q), p, e)
   | None \<Rightarrow>
       if state_v3 e = FAILED_NON_SERVING_V3 then (Inr None, p, e)
       else if state_v3 e = SERVING_AVAILABLE_V3 \<and> serving_effect_completed e then (Inr None, p, e)
       else if state_v3 e = PCR15_EXTENDED_V3 then
         (case claim_extend_transport p of
            (False, p') \<Rightarrow> fail_v3 CP_BOOT_V3_LATCH ''a PCR15 extend transport was already claimed for this process'' (p', e)
          | (True, p') \<Rightarrow>
              let q = (contract_v3 e, AuthorityStepEffectV3 PCR15_EXTENDED_V3 (state_value_v3 PCR15_EXTENDED_V3) (Octets (material_measurement (material e)))) in
              (Inr (Some q), p', e\<lparr>extend_issued_v3 := True, pending_v3 := Some q\<rparr>))
       else let q = (contract_v3 e, AuthorityStepEffectV3 (state_v3 e) (state_value_v3 (state_v3 e)) (step_expected (state_v3 e))) in
         (Inr (Some q), p, e\<lparr>pending_v3 := Some q\<rparr>))"

definition next_effect_v3 :: "boot_effect option step_v3" where
  "next_effect_v3 = verified (issue_effect_v3)"

text \<open>The check of an observation in a state, once it is known to be for it: the change of the process, or a refusal.\<close>

definition check_step_v3 :: "authority_value \<Rightarrow> unit step_v3" where
  "check_step_v3 v s = (case s of (p, e) \<Rightarrow>
     if state_v3 e = PCR15_EXTENDED_V3 then
       (case v of
          Extend_outcome r \<Rightarrow>
            if extend_issued_v3 e \<and> extend_transport_v3 e \<noteq> None then (Inr (), record_extend_outcome r p, e)
            else fail_v3 CP_BOOT_V3_LATCH ''v3 PCR extend has no shared-latch transport'' (p, e)
        | _ \<Rightarrow> fail_v3 CP_BOOT_V3_LATCH ''v3 PCR extend has no shared-latch transport'' (p, e))
     else if state_v3 e = TPM_BOOT_TRANSPORT_CLOSED_V3 then
       (if extend_transport_v3 e = None then fail_v3 CP_BOOT_V3_LATCH ''v3 PCR transport closure has no claimed transport'' (p, e)
        else if v = Absent then fail_v3 CP_BOOT_V3_LATCH ''v3 PCR transport closure readback is invalid'' (p, e)
        else case record_extend_transport_closed p of
            (Inl x, p') \<Rightarrow> (Inl (Latch_error x), p', e)
          | (Inr _, p') \<Rightarrow> (Inr (), p', e\<lparr>extend_transport_v3 := None\<rparr>))
     else if step_expected (state_v3 e) = Absent then
       (if v = Absent then fail_v3 (reason_for_state (state_v3 e)) ''v3 step observation is absent'' (p, e) else (Inr (), p, e))
     else if v \<noteq> step_expected (state_v3 e) then fail_v3 (reason_for_state (state_v3 e)) ''v3 step observation disagrees with authority'' (p, e)
     else (Inr (), p, e))"

text \<open>The observation of a step: its value, when it is the readback of the pending step.\<close>

definition readback_value :: "boot_engine_v3 \<Rightarrow> boot_observation \<Rightarrow> authority_value option" where
  "readback_value e ob = (case ob of
     Observation c (AuthorityStepReadbackV3 s a v ok) \<Rightarrow>
       if pending_v3 e \<noteq> None \<and> c = contract_v3 e \<and> s = state_v3 e \<and> a = state_value_v3 (state_v3 e) \<and> ok then Some v else None
   | _ \<Rightarrow> None)"

definition take_readback_v3 :: "boot_observation \<Rightarrow> BootTransitionStateV3 step_v3" where
  "take_readback_v3 ob = (\<lambda>(p, e).
     if state_v3 e = FAILED_NON_SERVING_V3
     then fail_v3 (reason_for_state (state_v3 e)) ''v3 observation is unavailable in this state'' (p, e)
     else case readback_value e ob of
         None \<Rightarrow> fail_v3 (reason_for_state (state_v3 e)) ''v3 observation is stale, unordered, or malformed'' (p, e)
       | Some v \<Rightarrow> (case check_step_v3 v (p, e\<lparr>pending_v3 := None\<rparr>) of
           (Inl x, s') \<Rightarrow> (Inl x, s')
         | (Inr _, p', e') \<Rightarrow>
             let e2 = e'\<lparr>state_v3 := next_state_v3 (state_v3 e), accepted_v3 := accepted_v3 e' @ [(state_v3 e, v)],
               serving_effect_completed := serving_effect_completed e' \<or> state_v3 e = SERVING_AVAILABLE_V3\<rparr>
             in (Inr (state_v3 e2), p', e2)))"

definition accept_v3 :: "boot_observation \<Rightarrow> BootTransitionStateV3 step_v3" where
  "accept_v3 ob = verified (take_readback_v3 ob)"

definition claim_transport_v3 :: "object_id \<Rightarrow> boot_engine_v3 \<Rightarrow> string + boot_engine_v3" where
  "claim_transport_v3 t e =
     (if state_v3 e = PCR15_EXTENDED_V3 then
        (if extend_transport_v3 e = None then Inr (e\<lparr>extend_transport_v3 := Some t\<rparr>)
         else if extend_transport_v3 e \<noteq> Some t then Inl ''PCR15 extend requires its claimed transport''
         else Inr e)
      else if state_v3 e = TPM_BOOT_TRANSPORT_CLOSED_V3 \<and> extend_transport_v3 e \<noteq> Some t
      then Inl ''PCR15 transport closure requires the claimed transport''
      else Inr e)"

definition execute_v3 :: "transport_answer \<Rightarrow> boot_effect \<Rightarrow> BootTransitionStateV3 step_v3" where
  "execute_v3 execute ef s = (case s of (p, e) \<Rightarrow>
     let p1 = log_effect ef p in
     case execute ef of
       Some ob \<Rightarrow> accept_v3 ob (p1, e)
     | None \<Rightarrow>
         if state_v3 e = PCR15_EXTENDED_V3 then
           verified (\<lambda>s'. accept_v3 (Observation (contract_v3 e)
             (AuthorityStepReadbackV3 (state_v3 e) (state_value_v3 (state_v3 e)) (Extend_outcome EXTEND_ERROR) True)) s') (p1, e)
         else fail_v3 (reason_for_state (state_v3 e)) ''typed v3 boot transport failed'' (p1, e\<lparr>pending_v3 := None\<rparr>))"

definition run_effect_v3 :: "object_id \<Rightarrow> transport_answer \<Rightarrow> BootTransitionStateV3 step_v3" where
  "run_effect_v3 t execute = (\<lambda>s. case next_effect_v3 s of
     (Inl x, s') \<Rightarrow> (Inl x, s')
   | (Inr None, p, e) \<Rightarrow> fail_v3 (reason_for_state (state_v3 e)) ''v3 boot transition has no further normal effect'' (p, e)
   | (Inr (Some ef), p, e) \<Rightarrow>
       (case claim_transport_v3 t e of
          Inl m \<Rightarrow> fail_v3 CP_BOOT_V3_LATCH m (p, e\<lparr>pending_v3 := None\<rparr>)
        | Inr e' \<Rightarrow> execute_v3 execute ef (p, e')))"

definition advance_v3 :: "object_id \<Rightarrow> transport_answer \<Rightarrow> BootTransitionStateV3 step_v3" where
  "advance_v3 t execute = verified (run_effect_v3 t execute)"

section \<open>The launch census\<close>

definition census_identities :: "LaunchRole list \<Rightarrow> (string \<times> int) list \<Rightarrow> int \<Rightarrow> int \<Rightarrow> ReadinessRoleIdentityV3 list" where
  "census_identities roles pids workers cookie =
     map (\<lambda>(index, r, (_, pid)). let gateway = (launch_role r = ''gateway'') in
       \<lparr>role = launch_role r, role_id = (if gateway then None else Some (int index + 1)), role_pid = pid, role_uid = launch_uid r, role_gid = launch_gid r,
        executable_sha256 = launch_source_digest r, gateway_worker_count = (if gateway then Some workers else None),
        gateway_cookie = (if gateway then Some cookie else None)\<rparr>)
     (zip [0..<4] (zip (take 4 roles) pids))"

definition start_census :: "int \<Rightarrow> int \<Rightarrow> (string \<times> int) list \<Rightarrow> int \<Rightarrow> int \<Rightarrow> unit step_v3" where
  "start_census controller_epoch start pids workers cookie = (\<lambda>(p, e).
     if state_v3 e \<noteq> SERVING_AVAILABLE_V3 \<or> \<not> serving_effect_completed e \<or> readiness_barrier e \<noteq> None \<or> completion_consumed e
     then fail_v3 CP_BOOT_V3_LAUNCH_SUPERVISION ''launch readiness census is unavailable or already used'' (p, e)
     else if map fst pids \<noteq> ROLE_ORDER \<or> \<not> list_all (\<lambda>(_, pid). 0 < pid \<and> pid < 2 ^ 32) pids
     then fail_v3 CP_BOOT_V3_LAUNCH_SUPERVISION ''launch readiness PID census is invalid'' (p, e)
     else if map launch_role (take 4 (launch_roles e)) \<noteq> ROLE_ORDER
     then fail_v3 CP_BOOT_V3_LAUNCH_SUPERVISION ''launch readiness role projection is invalid'' (p, e)
     else case new_barrier controller_epoch start (census_identities (launch_roles e) pids workers cookie) of
         Inl _ \<Rightarrow> fail_v3 CP_BOOT_V3_LAUNCH_SUPERVISION ''launch readiness census is invalid'' (p, e)
       | Inr b \<Rightarrow> (Inr (), p, e\<lparr>readiness_barrier := Some b\<rparr>))"

definition begin_census :: "int \<Rightarrow> int \<Rightarrow> (string \<times> int) list \<Rightarrow> int \<Rightarrow> int \<Rightarrow> unit step_v3" where
  "begin_census controller_epoch start pids workers cookie = verified (start_census controller_epoch start pids workers cookie)"

text \<open>An operation of the barrier: when it fails, its owner fails with it.\<close>

definition with_barrier :: "'a barrier_step \<Rightarrow> 'a step_v3" where
  "with_barrier m s = (case s of (p, e) \<Rightarrow> (case readiness_barrier e of
     None \<Rightarrow> (Inl No_barrier, p, e)
   | Some b \<Rightarrow>
       (case m b of
          (Inr x, b') \<Rightarrow> (Inr x, p, e\<lparr>readiness_barrier := Some b'\<rparr>)
        | (Inl msg, b') \<Rightarrow>
            let e' = e\<lparr>readiness_barrier := Some b'\<rparr> in
            (Inl (ErrorV3 CP_BOOT_V3_LAUNCH_SUPERVISION msg), p, if barrier_state b' = Failed then invalidate_readiness e' else e'))))"

definition consume_completion :: "object_id \<Rightarrow> int \<Rightarrow> bool \<Rightarrow> unit step_v3" where
  "consume_completion c controller_epoch terminal = verified (\<lambda>(p, e).
     if state_v3 e \<noteq> SERVING_AVAILABLE_V3 \<or> \<not> serving_effect_completed e \<or> readiness_barrier e = None \<or> completion_consumed e
     then fail_v3 CP_BOOT_V3_LAUNCH_SUPERVISION ''launch readiness completion is unavailable'' (p, e)
     else case with_barrier (consume c controller_epoch terminal) (p, e) of
         (Inl _, s') \<Rightarrow> fail_v3 CP_BOOT_V3_LAUNCH_SUPERVISION ''launch readiness completion was rejected'' s'
       | (Inr _, p', e') \<Rightarrow> (Inr (), p', e'\<lparr>completion_consumed := True, consumed_completion := Some c, serving_eligible := True\<rparr>))"

definition valid_consumed_readiness :: "boot_engine_v3 \<Rightarrow> bool" where
  "valid_consumed_readiness e \<longleftrightarrow> serving_eligible e \<and> completion_consumed e \<and> (case readiness_barrier e of
     None \<Rightarrow> False
   | Some b \<Rightarrow> barrier_state b = Consumed \<and> consumed_completion e \<noteq> None \<and> consumed_completion e = map_option fst (completion b))"

text \<open>
  \<open>report_controller_terminal_v3\<close>: \<open>wrapper\<close> tells whether a serving authority has been published; it is
  then revoked and the call returns unless the epoch was wrong.
\<close>

definition report_terminal :: "bool \<Rightarrow> int \<Rightarrow> string \<Rightarrow> unit step_v3" where
  "report_terminal wrapper controller_epoch event = verified (\<lambda>(p, e). case readiness_barrier e of
     Some b \<Rightarrow>
       if event = [] \<or> \<not> exact_readiness_epoch controller_epoch (epoch b)
       then fail_v3 CP_BOOT_V3_LAUNCH_SUPERVISION ''controller terminal transition has an invalid readiness epoch'' (p, e)
       else if wrapper then (Inr (), p, fail_engine_v3 e)
       else (case with_barrier (note_terminal controller_epoch event) (p, e) of (_, s') \<Rightarrow>
         fail_v3 CP_BOOT_V3_LAUNCH_SUPERVISION ''controller terminal transition preempted serving admission'' s')
   | None \<Rightarrow> fail_v3 CP_BOOT_V3_LAUNCH_SUPERVISION ''controller terminal transition has an invalid readiness epoch'' (p, e))"

definition wrapper_global_fault :: "unit step_v3" where
  "wrapper_global_fault = verified (\<lambda>(p, e). if state_v3 e = FAILED_NON_SERVING_V3 then (Inr (), p, e) else (Inr (), p, fail_engine_v3 e))"

text \<open>The guard of \<open>admit_serving_authority\<close>, under the lock.\<close>

definition admit_check :: "bool \<Rightarrow> unit step_v3" where
  "admit_check wrapper = (\<lambda>(p, e).
     if state_v3 e \<noteq> SERVING_AVAILABLE_V3 \<or> \<not> serving_effect_completed e \<or> \<not> valid_consumed_readiness e
     then (if wrapper then (Inl (ErrorV3 CP_BOOT_V3_BINDING ''binding was not issued''), p, e)
           else fail_v3 CP_BOOT_V3_LAUNCH_SUPERVISION ''v3 serving authority is not available before SERVING_AVAILABLE'' (p, e))
     else (Inr (), p, e))"

definition admission_guard :: "bool \<Rightarrow> unit step_v3" where
  "admission_guard wrapper = verified (admit_check wrapper)"

datatype op_v3 = Next_v3 | Accept_v3 boot_observation | Advance_v3 object_id transport_answer | Begin_census int int "(string \<times> int) list" int int
  | Probe int bool int | Result string ReadinessDatagramV3 int bool int | Complete_census object_id int bool | Consume_barrier object_id int bool
  | Note_terminal int string | Consume_completion object_id int bool | Report_terminal bool int string | Global_fault | Admission bool

definition done_v3 :: "(error_v3 + 'a) \<times> process \<times> boot_engine_v3 \<Rightarrow> (process \<times> boot_engine_v3) \<times> bool" where
  "done_v3 r = (snd r, is_ok (fst r))"

fun step_v3 :: "process \<times> boot_engine_v3 \<Rightarrow> op_v3 \<Rightarrow> (process \<times> boot_engine_v3) \<times> bool" where
  "step_v3 s Next_v3 = done_v3 (next_effect_v3 s)"
| "step_v3 s (Accept_v3 ob) = done_v3 (accept_v3 ob s)"
| "step_v3 s (Advance_v3 t x) = done_v3 (advance_v3 t x s)"
| "step_v3 s (Begin_census ep st pids w c) = done_v3 (begin_census ep st pids w c s)"
| "step_v3 s (Probe ep t now) = done_v3 (with_barrier (next_probe ep t now) s)"
| "step_v3 s (Result r d ep t now) = done_v3 (with_barrier (accept_result r d ep t now) s)"
| "step_v3 s (Complete_census c ep t) = done_v3 (with_barrier (complete c ep t) s)"
| "step_v3 s (Consume_barrier c ep t) = done_v3 (with_barrier (consume c ep t) s)"
| "step_v3 s (Note_terminal ep ev) = done_v3 (with_barrier (note_terminal ep ev) s)"
| "step_v3 s (Consume_completion c ep t) = done_v3 (consume_completion c ep t s)"
| "step_v3 s (Report_terminal w ep ev) = done_v3 (report_terminal w ep ev s)"
| "step_v3 s Global_fault = done_v3 (wrapper_global_fault s)"
| "step_v3 s (Admission w) = done_v3 (admission_guard w s)"

section \<open>The chain of steps\<close>

definition keeps_v3 :: "(process \<times> boot_engine_v3 \<Rightarrow> bool) \<Rightarrow> 'a step_v3 \<Rightarrow> bool" where
  "keeps_v3 P m \<longleftrightarrow> (\<forall>p e. P (p, e) \<longrightarrow> P (snd (m (p, e))))"

lemma keeps_v3D: "keeps_v3 P m \<Longrightarrow> P s \<Longrightarrow> P (snd (m s))"
  by (cases s) (auto simp: keeps_v3_def)

lemma verified_cases:
  obtains "lifetime e = Some 0" and "verified m (p, e) = (Inl (ErrorV3 CP_BOOT_V3_BINDING ''binding was not issued''), p, e)"
  | l where "lifetime e \<noteq> Some 0" and "verified m (p, e) = m (p, e\<lparr>lifetime := l\<rparr>)"
proof (cases "lifetime e")
  case None
  then have "m (p, e\<lparr>lifetime := None\<rparr>) = verified m (p, e)" by (cases e) (simp add: verified_def)
  with None show ?thesis using that(2) [of None] by simp
next
  case (Some n)
  then show ?thesis using that by (cases n) (auto simp: verified_def)
qed

lemma keeps_verified:
  assumes "keeps_v3 P m" and "\<And>p e l. P (p, e) \<Longrightarrow> P (p, e\<lparr>lifetime := l\<rparr>)"
  shows "keeps_v3 P (verified m)"
proof (unfold keeps_v3_def, intro allI impI)
  fix p e assume P: "P (p, e)"
  show "P (snd (verified m (p, e)))"
    by (rule verified_cases [of e m p]) (use P assms in \<open>auto simp: keeps_v3_def\<close>)
qed

text \<open>What a step demands of the value it accepts.\<close>

definition demanded_v3 :: "BootTransitionStateV3 \<Rightarrow> authority_value \<Rightarrow> bool" where
  "demanded_v3 s v \<longleftrightarrow> (if s = PCR15_EXTENDED_V3 then \<exists>r. v = Extend_outcome r
     else if step_expected s = Absent then v \<noteq> Absent else v = step_expected s)"

definition visited_v3 :: "boot_engine_v3 \<Rightarrow> BootTransitionStateV3 list" where
  "visited_v3 e = (if serving_effect_completed e then NORMAL_STATES_V3 else takeWhile (\<lambda>s. s \<noteq> state_v3 e) NORMAL_STATES_V3)"

text \<open>The identities of a census are those of the launched roles.\<close>

definition launched :: "LaunchRole list \<Rightarrow> ReadinessRoleIdentityV3 list \<Rightarrow> bool" where
  "launched roles is \<longleftrightarrow> map role is = ROLE_ORDER \<and>
     list_all2 (\<lambda>r i. role i = launch_role r \<and> role_uid i = launch_uid r \<and> role_gid i = launch_gid r \<and> executable_sha256 i = launch_source_digest r) (take 4 roles) is"

definition chain_ok :: "boot_engine_v3 \<Rightarrow> bool" where
  "chain_ok e \<longleftrightarrow> state_v3 e = FAILED_NON_SERVING_V3 \<or>
     map fst (accepted_v3 e) = visited_v3 e \<and> (\<forall>(s, v) \<in> set (accepted_v3 e). demanded_v3 s v) \<and>
     (serving_effect_completed e \<longrightarrow> state_v3 e = SERVING_AVAILABLE_V3 \<and> pending_v3 e = None)"

definition barrier_ok :: "boot_engine_v3 \<Rightarrow> bool" where
  "barrier_ok e \<longleftrightarrow> (case readiness_barrier e of None \<Rightarrow> True | Some b \<Rightarrow> barrier_inv b \<and> launched (launch_roles e) (identities b))"

definition inv_v3 :: "LaunchRole list \<Rightarrow> process \<times> boot_engine_v3 \<Rightarrow> bool" where
  "inv_v3 roles s \<longleftrightarrow> launch_roles (snd s) = roles \<and> chain_ok (snd s) \<and> barrier_ok (snd s)"

lemma terminal_ok: "barrier_inv b \<Longrightarrow> barrier_inv (snd (note_terminal ep ev b)) \<and> identities (snd (note_terminal ep ev b)) = identities b"
  using barrier_inv_terminal [of b ep ev] census_kept(5) [of ep ev b]
  by (cases "note_terminal ep ev b") (auto simp: same_census_def)

lemma fail_engine_v3_fields [simp]: "state_v3 (fail_engine_v3 e) = FAILED_NON_SERVING_V3" "launch_roles (fail_engine_v3 e) = launch_roles e"
  "pending_v3 (fail_engine_v3 e) = None" "lifetime (fail_engine_v3 e) = lifetime e"
  by (auto simp: fail_engine_v3_def enter_failure_def terminate_barrier_def split: option.splits)

lemma fail_barrier_ok: "barrier_ok e \<Longrightarrow> barrier_ok (fail_engine_v3 e)"
  using terminal_ok by (auto simp: barrier_ok_def fail_engine_v3_def terminate_barrier_def enter_failure_def split: option.splits)

lemma inv_v3_fail_engine: "inv_v3 roles (p, e) \<Longrightarrow> inv_v3 roles (p', fail_engine_v3 e)"
  by (simp add: inv_v3_def chain_ok_def fail_barrier_ok)

lemma inv_v3_fail: "inv_v3 roles s \<Longrightarrow> inv_v3 roles (snd (fail_v3 code m s))"
  by (cases s) (simp add: fail_v3_def inv_v3_fail_engine)

lemma barrier_ok_updates [simp]: "barrier_ok (e\<lparr>pending_v3 := x\<rparr>) = barrier_ok e" "barrier_ok (e\<lparr>state_v3 := s\<rparr>) = barrier_ok e"
  "barrier_ok (e\<lparr>accepted_v3 := a\<rparr>) = barrier_ok e" "barrier_ok (e\<lparr>serving_effect_completed := y\<rparr>) = barrier_ok e"
  by (cases "readiness_barrier e"; simp add: barrier_ok_def)+

lemma inv_v3_updates [simp]:
  "inv_v3 roles (p, e\<lparr>lifetime := l\<rparr>) = inv_v3 roles (p, e)" "inv_v3 roles (p, e\<lparr>extend_transport_v3 := t\<rparr>) = inv_v3 roles (p, e)"
  "inv_v3 roles (p, e\<lparr>extend_issued_v3 := y\<rparr>) = inv_v3 roles (p, e)"
  "inv_v3 roles (p, e\<lparr>completion_consumed := y\<rparr>) = inv_v3 roles (p, e)" "inv_v3 roles (p, e\<lparr>consumed_completion := c\<rparr>) = inv_v3 roles (p, e)"
  "inv_v3 roles (p, e\<lparr>serving_eligible := y\<rparr>) = inv_v3 roles (p, e)"
  by (cases "readiness_barrier e"; simp add: inv_v3_def chain_ok_def visited_v3_def barrier_ok_def)+

lemma inv_v3_pending: "inv_v3 roles (p, e) \<Longrightarrow> \<not> serving_effect_completed e \<or> x = None \<Longrightarrow> inv_v3 roles (p', e\<lparr>pending_v3 := x\<rparr>)"
  by (auto simp: inv_v3_def chain_ok_def visited_v3_def)

lemma inv_v3_process: "inv_v3 roles (p, e) = inv_v3 roles (p', e)"
  by (simp add: inv_v3_def)

lemma keeps_issue: "keeps_v3 (inv_v3 roles) issue_effect_v3"
  unfolding keeps_v3_def issue_effect_v3_def
  by (auto simp: Let_def claim_extend_transport_def inv_v3_fail intro!: inv_v3_pending inv_v3_fail split: option.splits)
    (auto simp: inv_v3_def chain_ok_def)

lemma keeps_next: "keeps_v3 (inv_v3 roles) next_effect_v3"
  unfolding next_effect_v3_def by (rule keeps_verified [OF keeps_issue]) simp

lemma keeps_fail: "keeps_v3 (inv_v3 roles) (fail_v3 code m)"
  by (auto simp: keeps_v3_def intro: inv_v3_fail)

text \<open>One step further on the chain.\<close>

lemma next_state_chain:
  "s \<noteq> FAILED_NON_SERVING_V3 \<Longrightarrow> s \<noteq> SERVING_AVAILABLE_V3 \<Longrightarrow>
    takeWhile (\<lambda>x. x \<noteq> next_state_v3 s) NORMAL_STATES_V3 = takeWhile (\<lambda>x. x \<noteq> s) NORMAL_STATES_V3 @ [s] \<and> next_state_v3 s \<noteq> FAILED_NON_SERVING_V3"
  by (cases s) (simp_all add: next_state_v3_def NORMAL_STATES_V3_def)

lemma last_state_chain: "takeWhile (\<lambda>x. x \<noteq> SERVING_AVAILABLE_V3) NORMAL_STATES_V3 @ [SERVING_AVAILABLE_V3] = NORMAL_STATES_V3"
  by (simp add: NORMAL_STATES_V3_def)

lemma check_step_demanded:
  assumes "check_step_v3 v (p, e) = (Inr (), p', e')"
  shows "demanded_v3 (state_v3 e) v \<and> (e' = e \<or> e' = e\<lparr>extend_transport_v3 := None\<rparr>)"
  using assms by (auto simp: check_step_v3_def fail_v3_def demanded_v3_def split: if_splits authority_value.splits sum.splits prod.splits)

lemma check_step_refused: "inv_v3 roles (p, e) \<Longrightarrow> check_step_v3 v (p, e) = (Inl x, s') \<Longrightarrow> inv_v3 roles s'"
  by (auto simp: check_step_v3_def fail_v3_def intro: inv_v3_fail_engine split: if_splits authority_value.splits sum.splits prod.splits)
    (simp_all add: inv_v3_def)

lemma chain_step:
  assumes inv: "inv_v3 roles (p, e)" and st: "state_v3 e \<noteq> FAILED_NON_SERVING_V3" and open': "\<not> serving_effect_completed e" and dem: "demanded_v3 (state_v3 e) v"
  shows "inv_v3 roles (p', e\<lparr>pending_v3 := None, state_v3 := next_state_v3 (state_v3 e), accepted_v3 := accepted_v3 e @ [(state_v3 e, v)],
    serving_effect_completed := serving_effect_completed e \<or> state_v3 e = SERVING_AVAILABLE_V3\<rparr>)"
proof (cases "state_v3 e = SERVING_AVAILABLE_V3")
  case True
  then show ?thesis using inv st open' dem last_state_chain by (auto simp: inv_v3_def chain_ok_def visited_v3_def next_state_v3_def)
next
  case False
  then show ?thesis using inv st open' dem next_state_chain [OF st False] by (auto simp: inv_v3_def chain_ok_def visited_v3_def)
qed

lemma accept_body:
  assumes inv: "inv_v3 roles (p, e)" and st: "state_v3 e \<noteq> FAILED_NON_SERVING_V3" and rb: "readback_value e ob = Some v"
  shows "inv_v3 roles (snd (case check_step_v3 v (p, e\<lparr>pending_v3 := None\<rparr>) of
     (Inl x, s') \<Rightarrow> (Inl x, s')
   | (Inr _, p', e') \<Rightarrow>
       let e2 = e'\<lparr>state_v3 := next_state_v3 (state_v3 e), accepted_v3 := accepted_v3 e' @ [(state_v3 e, v)],
         serving_effect_completed := serving_effect_completed e' \<or> state_v3 e = SERVING_AVAILABLE_V3\<rparr>
       in (Inr (state_v3 e2), p', e2)))"
proof -
  let ?e = "e\<lparr>pending_v3 := None\<rparr>"
  have open': "\<not> serving_effect_completed e" using inv st rb
    by (auto simp: inv_v3_def chain_ok_def readback_value_def split: boot_observation.splits observation_body.splits if_splits)
  have i: "inv_v3 roles (p, ?e)" using inv_v3_pending [OF inv] by simp
  obtain y p1 e1 where C: "check_step_v3 v (p, ?e) = (y, p1, e1)" by (cases "check_step_v3 v (p, ?e)")
  show ?thesis
  proof (cases y)
    case (Inl x)
    then show ?thesis using C check_step_refused [OF i] by simp
  next
    case (Inr u)
    from check_step_demanded [of v p ?e p1 e1] C Inr
    have d: "demanded_v3 (state_v3 e) v" "e1 = ?e \<or> e1 = ?e\<lparr>extend_transport_v3 := None\<rparr>" by auto
    note c = chain_step [OF inv st open' d(1), of p1]
    from d(2) show ?thesis
    proof
      assume "e1 = ?e"
      then show ?thesis using C Inr c by (simp add: Let_def)
    next
      assume "e1 = ?e\<lparr>extend_transport_v3 := None\<rparr>"
      then have "e1 = e\<lparr>extend_transport_v3 := None, pending_v3 := None\<rparr>" by simp
      then show ?thesis using C Inr inv st open' d(1) chain_step [of roles p "e\<lparr>extend_transport_v3 := None\<rparr>" v p1]
        by (simp add: Let_def)
    qed
  qed
qed

lemma keeps_accept: "keeps_v3 (inv_v3 roles) (accept_v3 ob)"
  unfolding accept_v3_def
  by (rule keeps_verified) (auto simp: keeps_v3_def take_readback_v3_def intro!: accept_body inv_v3_fail split: option.splits)

lemma keeps_execute: "keeps_v3 (inv_v3 roles) (execute_v3 x ef)"
proof -
  have v: "keeps_v3 (inv_v3 roles) (verified (accept_v3 ob))" for ob by (rule keeps_verified [OF keeps_accept]) simp
  have "inv_v3 roles (snd (execute_v3 x ef (p, e)))" if inv: "inv_v3 roles (p, e)" for p e
  proof -
    have l: "inv_v3 roles (log_effect ef p, e)" using inv inv_v3_process by blast
    then have "inv_v3 roles (log_effect ef p, e\<lparr>pending_v3 := None\<rparr>)" by (intro inv_v3_pending) auto
    with l show ?thesis using keeps_v3D [OF keeps_accept l] keeps_v3D [OF v l]
      by (auto simp: execute_v3_def Let_def intro!: inv_v3_fail split: option.splits)
  qed
  then show ?thesis by (simp add: keeps_v3_def)
qed

lemma inv_v3_claim: "claim_transport_v3 t e = Inr e' \<Longrightarrow> inv_v3 roles (p, e') = inv_v3 roles (p, e)"
  by (auto simp: claim_transport_v3_def split: if_splits)

lemma keeps_advance: "keeps_v3 (inv_v3 roles) (advance_v3 t x)"
  unfolding advance_v3_def
proof (rule keeps_verified)
  show "inv_v3 roles (p, e\<lparr>lifetime := l\<rparr>)" if "inv_v3 roles (p, e)" for p e l using that by simp
  have "inv_v3 roles (snd (run_effect_v3 t x (p, e)))" if "inv_v3 roles (p, e)" for p e
    using keeps_v3D [OF keeps_next that] unfolding run_effect_v3_def
    by (auto simp: inv_v3_claim intro!: inv_v3_fail inv_v3_pending keeps_v3D [OF keeps_execute] split: prod.splits sum.splits option.splits)
  then show "keeps_v3 (inv_v3 roles) (run_effect_v3 t x)" by (simp add: keeps_v3_def)
qed

section \<open>The census of the chain\<close>

lemma census_launched:
  assumes "map fst pids = ROLE_ORDER" and "map launch_role (take 4 roles) = ROLE_ORDER"
  shows "launched roles (census_identities roles pids w c)"
proof -
  have l: "length pids = 4" "length (take 4 roles) = 4"
    using assms [THEN arg_cong [of _ _ length]] by (simp_all add: ROLE_ORDER_def)
  let ?is = "census_identities roles pids w c"
  have "length ?is = 4" using l by (simp add: census_identities_def)
  moreover have "role (?is ! k) = launch_role (take 4 roles ! k) \<and> role_uid (?is ! k) = launch_uid (take 4 roles ! k) \<and>
      role_gid (?is ! k) = launch_gid (take 4 roles ! k) \<and> executable_sha256 (?is ! k) = launch_source_digest (take 4 roles ! k)" if "k < 4" for k
    using that l by (simp add: census_identities_def Let_def split: prod.splits)
  ultimately have "list_all2 (\<lambda>r i. role i = launch_role r \<and> role_uid i = launch_uid r \<and> role_gid i = launch_gid r \<and>
      executable_sha256 i = launch_source_digest r) (take 4 roles) ?is" and "map role ?is = map launch_role (take 4 roles)"
    using l by (auto simp: list_all2_conv_all_nth intro: nth_equalityI)
  with assms(2) show ?thesis by (simp add: launched_def)
qed

lemma new_barrier_identities: "new_barrier ep st ids = Inr b \<Longrightarrow> identities b = ids"
  by (auto simp: new_barrier_def split: if_splits option.splits)

lemma keeps_begin: "keeps_v3 (inv_v3 roles) (begin_census ep st pids w c)"
  unfolding begin_census_def
proof (rule keeps_verified)
  show "inv_v3 roles (p, e\<lparr>lifetime := l\<rparr>)" if "inv_v3 roles (p, e)" for p e l using that by simp
  have "inv_v3 roles (p, e\<lparr>readiness_barrier := Some b\<rparr>)"
    if "inv_v3 roles (p, e)" "new_barrier ep st (census_identities (launch_roles e) pids w c) = Inr b"
      "map fst pids = ROLE_ORDER" "map launch_role (take 4 (launch_roles e)) = ROLE_ORDER" for p e b
    using that census_launched [of pids "launch_roles e" w c]
    by (auto simp: inv_v3_def chain_ok_def visited_v3_def barrier_ok_def barrier_inv_new dest: new_barrier_identities)
  then show "keeps_v3 (inv_v3 roles) (start_census ep st pids w c)"
    unfolding keeps_v3_def start_census_def by (auto intro!: inv_v3_fail split: sum.splits)
qed

text \<open>What the operations of a barrier promise its owner.\<close>

definition lawful :: "'a barrier_step \<Rightarrow> bool" where
  "lawful m \<longleftrightarrow> (\<forall>b. barrier_inv b \<longrightarrow> barrier_inv (snd (m b)) \<and> identities (snd (m b)) = identities b)"

lemma lawful_steps: "lawful (next_probe e t now)" "lawful (accept_result r d e t now)" "lawful (complete c e t)" "lawful (consume c e t)"
  "lawful (note_terminal e ev)"
  using barrier_inv_probe barrier_inv_result barrier_inv_complete barrier_inv_consume barrier_inv_terminal census_kept
  unfolding lawful_def same_census_def by (metis prod.collapse)+

lemma inv_v3_invalidate: "inv_v3 roles (p, e) \<Longrightarrow> inv_v3 roles (p, invalidate_readiness e)"
  by (cases "readiness_barrier e"; auto simp: inv_v3_def chain_ok_def barrier_ok_def invalidate_readiness_def enter_failure_def)

lemma inv_v3_barrier:
  assumes "lawful m" and "inv_v3 roles (p, e)" and "readiness_barrier e = Some b"
  shows "inv_v3 roles (p, e\<lparr>readiness_barrier := Some (snd (m b))\<rparr>)"
  using assms by (auto simp: lawful_def inv_v3_def chain_ok_def visited_v3_def barrier_ok_def)

lemma keeps_with_barrier:
  assumes "lawful m"
  shows "keeps_v3 (inv_v3 roles) (with_barrier m)"
  unfolding keeps_v3_def
proof (intro allI impI)
  fix p e assume inv: "inv_v3 roles (p, e)"
  show "inv_v3 roles (snd (with_barrier m (p, e)))"
  proof (cases "readiness_barrier e")
    case (Some b)
    obtain y b' where m: "m b = (y, b')" by (cases "m b")
    with inv_v3_barrier [OF assms inv Some] have "inv_v3 roles (p, e\<lparr>readiness_barrier := Some b'\<rparr>)" by simp
    with m Some show ?thesis by (auto simp: with_barrier_def Let_def intro: inv_v3_invalidate split: sum.splits)
  qed (simp add: with_barrier_def inv)
qed

lemma keeps_consume_completion: "keeps_v3 (inv_v3 roles) (consume_completion c ep t)"
  unfolding consume_completion_def
  by (rule keeps_verified)
    (auto simp: keeps_v3_def intro!: inv_v3_fail dest: keeps_v3D [OF keeps_with_barrier [OF lawful_steps(4) [of c ep t]]] split: prod.splits sum.splits)

lemma keeps_terminal: "keeps_v3 (inv_v3 roles) (report_terminal w ep ev)"
  unfolding report_terminal_def
  by (rule keeps_verified)
    (auto simp: keeps_v3_def inv_v3_fail_engine intro!: inv_v3_fail dest: keeps_v3D [OF keeps_with_barrier [OF lawful_steps(5) [of ep ev]]] split: prod.splits option.splits)

lemma keeps_fault: "keeps_v3 (inv_v3 roles) wrapper_global_fault"
  unfolding wrapper_global_fault_def by (rule keeps_verified) (auto simp: keeps_v3_def inv_v3_fail_engine)

lemma keeps_admission: "keeps_v3 (inv_v3 roles) (admission_guard w)"
  unfolding admission_guard_def by (rule keeps_verified) (auto simp: keeps_v3_def admit_check_def intro: inv_v3_fail)

lemma inv_v3_step: "inv_v3 roles s \<Longrightarrow> inv_v3 roles (fst (step_v3 s op))"
  by (cases op)
    (simp_all add: done_v3_def keeps_v3D [OF keeps_next] keeps_v3D [OF keeps_accept] keeps_v3D [OF keeps_advance] keeps_v3D [OF keeps_begin]
      keeps_v3D [OF keeps_with_barrier] lawful_steps keeps_v3D [OF keeps_consume_completion] keeps_v3D [OF keeps_terminal] keeps_v3D [OF keeps_fault]
      keeps_v3D [OF keeps_admission])

lemma inv_v3_new: "inv_v3 roles (p, new_boot_engine_v3 m roles n)"
  by (simp add: inv_v3_def new_boot_engine_v3_def chain_ok_def visited_v3_def barrier_ok_def NORMAL_STATES_V3_def)

section \<open>The extension\<close>

text \<open>An engine holds an extension that it may still execute: a pending one, while its record verifies.\<close>

definition pend_v3 :: "boot_engine_v3 \<Rightarrow> nat" where
  "pend_v3 e = (case pending_v3 e of Some (_, b) \<Rightarrow> if is_extend b then 1 else 0 | None \<Rightarrow> 0)"

definition holds_v3 :: "boot_engine_v3 \<Rightarrow> nat" where
  "holds_v3 e = (if lifetime e = Some 0 then 0 else pend_v3 e)"

definition covered_v3 :: "process \<times> boot_engine_v3 \<Rightarrow> process \<times> boot_engine_v3 \<Rightarrow> bool" where
  "covered_v3 s s' \<longleftrightarrow> extends (fst s') + holds_v3 (snd s') + claimed (fst s) \<le> extends (fst s) + pend_v3 (snd s) + claimed (fst s')"

lemma pend_v3_updates [simp]: "pending_v3 e = None \<Longrightarrow> pend_v3 e = 0" "pend_v3 (e\<lparr>lifetime := l\<rparr>) = pend_v3 e"
  "pend_v3 (e\<lparr>extend_transport_v3 := t\<rparr>) = pend_v3 e" "pend_v3 (e\<lparr>readiness_barrier := b\<rparr>) = pend_v3 e"
  by (simp_all add: pend_v3_def)

lemma holds_le_pend: "holds_v3 e \<le> pend_v3 e"
  by (simp add: holds_v3_def)

lemma next_v3_latch:
  assumes "next_effect_v3 (p, e) = (x, p', e')"
  shows "extends p' = extends p" and "pend_v3 e' + claimed p \<le> pend_v3 e + claimed p'"
    and "x = Inr (Some ef) \<Longrightarrow> (if is_extend (snd ef) then 1 else 0) \<le> pend_v3 e'"
proof -
  have "extends p' = extends p \<and> pend_v3 e' + claimed p \<le> pend_v3 e + claimed p' \<and> (x = Inr (Some ef) \<longrightarrow> (if is_extend (snd ef) then 1 else 0) \<le> pend_v3 e')"
    using assms unfolding next_effect_v3_def
    by (rule_tac verified_cases [of e issue_effect_v3 p])
      (auto simp: issue_effect_v3_def fail_v3_def Let_def claim_extend_transport_def claimed_def extends_def pend_v3_def split: option.splits if_splits prod.splits)
  then show "extends p' = extends p" "pend_v3 e' + claimed p \<le> pend_v3 e + claimed p'" "x = Inr (Some ef) \<Longrightarrow> (if is_extend (snd ef) then 1 else 0) \<le> pend_v3 e'" by auto
qed

lemma check_v3_latch:
  assumes "check_step_v3 v (p, e) = (x, p', e')" and "pending_v3 e = None"
  shows "extends p' = extends p \<and> claimed p \<le> claimed p' \<and> pending_v3 e' = None"
  using assms
  by (auto simp: check_step_v3_def fail_v3_def latch_moves(1,2) dest: latch_moves(3) split: if_splits authority_value.splits sum.splits prod.splits)

text \<open>After its acceptance an extension is spent.\<close>

definition spent :: "process \<Rightarrow> process \<times> boot_engine_v3 \<Rightarrow> bool" where
  "spent p s \<longleftrightarrow> extends (fst s) = extends p \<and> claimed p \<le> claimed (fst s) \<and> holds_v3 (snd s) = 0"

lemma fail_v3_fields [simp]: "pending_v3 (snd (snd (fail_v3 code m s))) = None" "fst (snd (fail_v3 code m s)) = fst s"
  by (cases s; simp add: fail_v3_def)+

lemma fail_spent: "spent p (snd (fail_v3 code m (p, e)))"
  by (simp add: spent_def holds_v3_def)

lemma verified_spent: "(\<And>q. spent p (snd (m (p, q)))) \<Longrightarrow> spent p (snd (verified m (p, e)))"
  by (rule verified_cases [of e m p]) (auto simp: spent_def holds_v3_def)

lemma readback_spent: "spent p (snd (take_readback_v3 ob (p, e)))"
  using check_v3_latch [of _ p "e\<lparr>pending_v3 := None\<rparr>"]
  by (auto simp: take_readback_v3_def spent_def holds_v3_def Let_def split: if_splits option.splits prod.splits sum.splits)

lemma accept_spent: "spent p (snd (accept_v3 ob (p, e)))"
  unfolding accept_v3_def by (rule verified_spent) (rule readback_spent)

lemma execute_spent: "spent (log_effect ef p) (snd (execute_v3 x ef (p, e)))"
  by (auto simp: execute_v3_def Let_def intro: verified_spent accept_spent fail_spent split: option.splits)

text \<open>Every operation is covered by the claim of the process.\<close>

lemma spent_covered: "spent p s \<Longrightarrow> covered_v3 (p, e) s"
  by (auto simp: spent_def covered_v3_def)

lemma fail_covered [simp]: "covered_v3 (p, e) (snd (fail_v3 code m (p, e)))" "covered_v3 (p, e) (p, fail_engine_v3 q)" "spent p (p, fail_engine_v3 q)"
  by (simp_all add: covered_v3_def spent_def holds_v3_def)

lemma same_covered: "pend_v3 e' \<le> pend_v3 e \<Longrightarrow> covered_v3 (p, e) (p, e')"
  using holds_le_pend [of e'] by (simp add: covered_v3_def)

lemma issue_covered: "covered_v3 (p, e) (snd (issue_effect_v3 (p, e)))"
  by (auto simp: issue_effect_v3_def covered_v3_def holds_v3_def pend_v3_def Let_def claim_extend_transport_def claimed_def extends_def
      split: option.splits if_splits)

lemma run_effect_covered: "covered_v3 (p, e) (snd (run_effect_v3 t x (p, e)))"
proof -
  obtain y p1 e1 where N: "next_effect_v3 (p, e) = (y, p1, e1)" by (cases "next_effect_v3 (p, e)")
  note n = next_v3_latch [OF N]
  have held: "holds_v3 e1 + claimed p \<le> pend_v3 e + claimed p1" using n(2) holds_le_pend [of e1] by linarith
  show ?thesis
  proof (cases "\<exists>ef e2. y = Inr (Some ef) \<and> claim_transport_v3 t e1 = Inr e2")
    case True
    then obtain ef e2 where ef: "y = Inr (Some ef)" "claim_transport_v3 t e1 = Inr e2" by blast
    then have "run_effect_v3 t x (p, e) = execute_v3 x ef (p1, e2)" using N by (simp add: run_effect_v3_def)
    then show ?thesis using execute_spent [of ef p1 x e2] n(1,2) n(3) [OF ef(1)] by (auto simp: covered_v3_def spent_def)
  next
    case False
    then show ?thesis using N n(1) held n(2)
      by (cases y) (auto simp: run_effect_v3_def covered_v3_def holds_v3_def split: option.splits sum.splits)
  qed
qed

lemma with_barrier_latch: "fst (snd (with_barrier m (p, e))) = p" "pend_v3 (snd (snd (with_barrier m (p, e)))) \<le> pend_v3 e"
    "holds_v3 (snd (snd (with_barrier m (p, e)))) \<le> holds_v3 e"
  by (auto simp: with_barrier_def Let_def invalidate_readiness_def holds_v3_def split: option.splits prod.splits sum.splits)

lemma start_covered: "covered_v3 (p, e) (snd (start_census ep st pids w c (p, e)))"
  by (auto simp: start_census_def intro: same_covered spent_covered fail_spent split: sum.splits)

definition balanced :: "process \<times> boot_engine_v3 \<Rightarrow> process \<times> boot_engine_v3 \<Rightarrow> bool" where
  "balanced s s' \<longleftrightarrow> extends (fst s') + holds_v3 (snd s') + claimed (fst s) \<le> extends (fst s) + holds_v3 (snd s) + claimed (fst s')"

lemma verified_balanced:
  assumes "\<And>q. covered_v3 (p, q) (snd (m (p, q)))"
  shows "balanced (p, e) (snd (verified m (p, e)))"
proof (rule verified_cases [of e m p])
  fix l assume "lifetime e \<noteq> Some 0" and "verified m (p, e) = m (p, e\<lparr>lifetime := l\<rparr>)"
  then show ?thesis using assms [of "e\<lparr>lifetime := l\<rparr>"] by (simp add: covered_v3_def balanced_def holds_v3_def)
qed (simp add: balanced_def)

lemma consume_balanced: "balanced s (snd (consume_completion c ep t s))"
proof -
  have "covered_v3 (p, q) (snd (case with_barrier (consume c ep t) (p, q) of
         (Inl _, s') \<Rightarrow> fail_v3 CP_BOOT_V3_LAUNCH_SUPERVISION ''launch readiness completion was rejected'' s'
       | (Inr _, p', e') \<Rightarrow> (Inr (), p', e'\<lparr>completion_consumed := True, consumed_completion := Some c, serving_eligible := True\<rparr>)))" for p q
    using with_barrier_latch(1,2) [of "consume c ep t" p q]
    by (cases "with_barrier (consume c ep t) (p, q)") (auto simp: covered_v3_def holds_v3_def pend_v3_def split: sum.splits)
  then show ?thesis unfolding consume_completion_def
    by (cases s) (auto intro!: verified_balanced intro: spent_covered fail_spent)
qed

lemma terminal_balanced: "balanced s (snd (report_terminal w ep ev s))"
proof -
  have "covered_v3 (p, q) (snd (case with_barrier (note_terminal ep ev) (p, q) of (_, s') \<Rightarrow>
         fail_v3 CP_BOOT_V3_LAUNCH_SUPERVISION ''controller terminal transition preempted serving admission'' s'))" for p q
    using with_barrier_latch(1) [of "note_terminal ep ev" p q] by (auto simp: covered_v3_def holds_v3_def split: prod.splits)
  then show ?thesis unfolding report_terminal_def
    by (cases s) (auto intro!: verified_balanced split: option.splits)
qed

lemma guards_balanced: "balanced s (snd (wrapper_global_fault s))" "balanced s (snd (admission_guard w s))"
  unfolding wrapper_global_fault_def admission_guard_def
  by (cases s; auto simp: admit_check_def intro!: verified_balanced intro: same_covered)+

lemma barrier_balanced: "balanced s (snd (with_barrier m s))"
  using with_barrier_latch [of m "fst s" "snd s"] by (simp add: balanced_def)

lemma step_v3_balanced: "balanced s (fst (step_v3 s op))"
proof -
  obtain p e where s: "s = (p, e)" by (cases s)
  have "balanced s (snd (next_effect_v3 s))" "balanced s (snd (accept_v3 ob s))" "balanced s (snd (advance_v3 t x s))"
    "balanced s (snd (begin_census ep st pids w c s))" for ob t x ep st pids w c
    unfolding s next_effect_v3_def accept_v3_def advance_v3_def begin_census_def
    by (auto intro!: verified_balanced issue_covered spent_covered readback_spent run_effect_covered start_covered)
  then show ?thesis by (cases op) (simp_all add: done_v3_def barrier_balanced consume_balanced terminal_balanced guards_balanced)
qed

end
