(* ===== verification/Boot_Process.thy ===== *)
theory Boot_Process
  imports Boot_Engine_V2 Boot_Engine_V3
begin

text \<open>
  A booting process: what its engines do together, and what a cooperating transport gives.
\<close>

section \<open>Progress\<close>

text \<open>Engines between two effects of a boot that goes well, with the latch as it is there.\<close>

record course =
  c_state :: BootTransitionState
  c_runtime :: "string option"
  c_models :: "string option"
  c_transport :: "object_id option"
  c_index :: nat
  c_latch :: PcrExtendLatchState

definition going :: "BootBinding \<Rightarrow> course \<Rightarrow> process \<times> boot_engine \<Rightarrow> bool" where
  "going b c s \<longleftrightarrow> (case s of (p, e) \<Rightarrow> binding e = b \<and> bpending e = None \<and> bstate e = c_state c \<and> runtime_mapping e = c_runtime c \<and>
     models_mapping e = c_models c \<and> extend_transport e = c_transport c \<and> (c_transport c \<noteq> None \<longrightarrow> extend_request_issued e) \<and>
     control_index e = c_index c \<and> latch p = c_latch c)"

text \<open>The course of a boot: the engine after each accepted observation, from the first effect to serving.\<close>

definition start :: course where
  "start = \<lparr>c_state = CMDLINE, c_runtime = None, c_models = None, c_transport = None, c_index = 1, c_latch = UNREQUESTED\<rparr>"

definition mapped :: "BootTransitionState \<Rightarrow> course" where
  "mapped s = start\<lparr>c_state := s, c_runtime := Some ''mapping'', c_models := Some ''mapping''\<rparr>"

definition first_courses :: "course list" where
  "first_courses = map (\<lambda>s. start\<lparr>c_state := s\<rparr>) [CMDLINE, PCR15_ZERO, DISK_LOCATORS, RUNTIME_MAP]
     @ map (\<lambda>s. start\<lparr>c_state := s, c_runtime := Some ''mapping''\<rparr>) [RUNTIME_VERIFY, RUNTIME_MAPPING_IDENTITY, MODELS_MAP]
     @ map mapped [MODELS_VERIFY, MODELS_MAPPING_IDENTITY, RUNTIME_MOUNT, RUNTIME_EXECUTABLE_CONFINEMENT, MODELS_MOUNT, MUTABLE_ROOTS,
         TMPFS, MODULES, MODULES_DISABLED, MUTABLE_CONTROLS]"

definition last_courses :: "object_id \<Rightarrow> nat \<Rightarrow> course list" where
  "last_courses t n = (let c = (mapped PCR15_EXTEND)\<lparr>c_index := n\<rparr> in
     [c, c\<lparr>c_state := PCR15_READBACK, c_transport := Some t, c_latch := LATCH_ACKNOWLEDGED\<rparr>,
      c\<lparr>c_state := TRANSPORT_CLOSED, c_transport := Some t, c_latch := LATCH_ACKNOWLEDGED\<rparr>,
      c\<lparr>c_state := SERVING_READY, c_latch := LATCH_TRANSPORT_CLOSED\<rparr>, c\<lparr>c_state := SERVING, c_latch := LATCH_TRANSPORT_CLOSED\<rparr>])"

definition bootable :: "BootBinding \<Rightarrow> bool" where
  "bootable b \<longleftrightarrow> card (set (disk_locators (runtime b))) = 4 \<and>
     find_support ''module_loading'' (mutable_controls (runtime b)) = Some REQUIRED \<and>
     2 \<le> length (mutable_control_order (runtime b)) \<and>
     list_all (\<lambda>c. find_support c (mutable_controls (runtime b)) \<noteq> None) (mutable_control_order (runtime b))"

lemmas advance_defs = advance_boot_def claim_extend_def claim_extend_transport_def next_boot_effect_def effect_for_state_def snapshot_def contract_def
  wrong_transport_def execute_effect_def log_effect_def obliging_def accept_boot_def failing_def check_and_accept_def accept_normal_def
  accept_local_def check_then_def to_state_def check_identity_def mapping_def accept_modules_disabled_def accept_extend_def accept_closed_def
  record_extend_outcome_def record_extend_transport_closed_def res_simps Let_def

definition advances :: "BootBinding \<Rightarrow> object_id \<Rightarrow> course \<Rightarrow> course \<Rightarrow> bool" where
  "advances b t c c' \<longleftrightarrow> leads boot_step (Advance t obliging) 1 (going b c) (going b c')"

lemma advancesI: "(\<And>p e. going b c (p, e) \<Longrightarrow> going b c' (snd (advance_boot t obliging (p, e)))) \<Longrightarrow> advances b t c c'"
  unfolding advances_def by (rule leads_one) (auto simp: case_prod_unfold)

lemma first_advances:
  assumes "bootable b" and "i < 16"
  shows "advances b t (first_courses ! i) (first_courses ! Suc i)"
  using assms unfolding first_courses_def mapped_def start_def
  by (auto simp: less_Suc_eq numeral_eq_Suc going_def advance_defs bootable_def intro!: advancesI)

lemma last_advances:
  assumes "i < 4"
  shows "advances b t (last_courses t n ! i) (last_courses t n ! Suc i)"
  using assms unfolding last_courses_def mapped_def start_def
  by (auto simp: less_Suc_eq numeral_eq_Suc going_def advance_defs intro!: advancesI)

text \<open>Between them one control after another is closed; the last one leads to the extension.\<close>

lemma control_advances:
  assumes "bootable b" and i: "1 \<le> i" "i < n" and n: "n = length (mutable_control_order (runtime b))"
  shows "advances b t ((mapped MUTABLE_CONTROLS)\<lparr>c_index := i\<rparr>)
    ((mapped (if i + 1 = n then PCR15_EXTEND else MUTABLE_CONTROLS))\<lparr>c_index := i + 1\<rparr>)"
proof -
  obtain k where "find_support (mutable_control_order (runtime b) ! i) (mutable_controls (runtime b)) = Some k"
    using assms by (auto simp: bootable_def list_all_length)
  then show ?thesis
    using i by (intro advancesI) (auto simp: n going_def mapped_def start_def advance_defs accept_mutable_control_def)
qed

lemma leads_courses:
  assumes "\<And>i. i < n \<Longrightarrow> advances b t (cs ! i) (cs ! Suc i)"
  shows "leads boot_step (Advance t obliging) n (going b (cs ! 0)) (going b (cs ! n))"
  using leads_chain [of n boot_step "Advance t obliging" "\<lambda>i. going b (cs ! i)"] assms by (simp add: advances_def)

lemma controls_closed:
  assumes "bootable b" and n: "n = length (mutable_control_order (runtime b))"
  shows "leads boot_step (Advance t obliging) (n - 1) (going b (mapped MUTABLE_CONTROLS)) (going b ((mapped PCR15_EXTEND)\<lparr>c_index := n\<rparr>))"
proof -
  let ?P = "\<lambda>i. going b ((mapped (if i + 1 = n then PCR15_EXTEND else MUTABLE_CONTROLS))\<lparr>c_index := i + 1\<rparr>)"
  have "2 \<le> n" using assms by (simp add: bootable_def)
  moreover have "leads boot_step (Advance t obliging) (n - 1) (?P 0) (?P (n - 1))"
  proof (rule leads_chain)
    fix i assume "i < n - 1"
    then have "Suc i < n" "Suc i \<noteq> n" by linarith+
    then show "leads boot_step (Advance t obliging) 1 (?P i) (?P (Suc i))"
      using control_advances [OF assms(1) _ _ n, of "i + 1" t] by (simp add: advances_def)
  qed
  ultimately show ?thesis by (simp add: mapped_def start_def)
qed

lemma course_of_boot:
  assumes "bootable b" and "new_boot_engine True b = Inr e" and "latch p = UNREQUESTED" and n: "n = length (mutable_control_order (runtime b))"
  shows "going b (last_courses t n ! 4) (fst (run boot_step (p, e) (replicate (19 + n) (Advance t obliging))))"
proof -
  let ?op = "Advance t obliging"
  have f: "leads boot_step ?op 16 (going b start) (going b (mapped MUTABLE_CONTROLS))"
    using leads_courses [of 16 b t first_courses] first_advances [OF assms(1)] by (simp add: first_courses_def start_def mapped_def)
  have l: "leads boot_step ?op 4 (going b ((mapped PCR15_EXTEND)\<lparr>c_index := n\<rparr>)) (going b (last_courses t n ! 4))"
    using leads_courses [of 4 b t "last_courses t n"] last_advances by (simp add: last_courses_def Let_def)
  have "16 + (n - 1) + 4 = 19 + n" using assms(1) by (simp add: bootable_def n)
  with leads_trans [OF leads_trans [OF f controls_closed [OF assms(1) n]] l]
  have "leads boot_step ?op (19 + n) (going b start) (going b (last_courses t n ! 4))" by simp
  moreover have "going b start (p, e)" using assms(2,3) by (auto simp: new_boot_engine_def going_def start_def)
  ultimately show ?thesis by (simp add: leads_def)
qed

lemma last_course: "going b (last_courses t n ! 4) s \<Longrightarrow> bstate (snd s) = SERVING"
  by (simp add: going_def last_courses_def Let_def case_prod_unfold)

text \<open>
  A boot completes: on an issued binding with four distinct locators, module loading required and a known support for
  each of its mutable controls (at least one besides module loading), an engine whose transport reports every effect
  as done serves after one advance per step of the table, when no transport of the process has claimed the
  extension before.
\<close>

theorem boot_completes:
  assumes "bootable b" and "new_boot_engine True b = Inr e" and "latch p = UNREQUESTED"
  shows "bstate (snd (fst (run boot_step (p, e) (replicate (19 + length (mutable_control_order (runtime b))) (Advance t obliging))))) = SERVING"
  by (rule last_course [OF course_of_boot [OF assms refl]])

text \<open>A sealed binding, for the witnesses.\<close>

definition sample_locator :: "int \<Rightarrow> PartitionLocator" where
  "sample_locator i = \<lparr>locator_ordinal = i, locator_type_guid = ''t'', locator_partuuid = ''u'', start_lba = i, end_lba = i, locator_size_bytes = 512\<rparr>"

definition sample_verity :: "string \<Rightarrow> VerityPair" where
  "sample_verity i = \<lparr>verity_image_id = i, data_partition = sample_locator 1, hash_partition = sample_locator 2, data_sha256 = ''d'', data_size_bytes = 512,
     hash_sha256 = ''h'', hash_size_bytes = 512, root_hash = ''r'', verity_uuid = ''v'', salt = ''s'', data_block_size = 4096, hash_block_size = 4096\<rparr>"

definition sample_snapshot :: BootRuntimeSnapshot where
  "sample_snapshot = \<lparr>cmdline = ''ro'', disk_locators = map sample_locator [1, 2, 3, 4], runtime_policy_verity = sample_verity ''runtime-policy'',
     models_verity = sample_verity ''models'', runtime_policy_destination = ''/run/policy'', models_destination = ''/models'', executable_paths = [''/bin/serve''],
     tmpfs_mounts = [], module_entries = [], mutable_control_order = [''module_loading'', ''kexec_loading''],
     mutable_controls = [\<lparr>control_name = ''module_loading'', control_support = REQUIRED\<rparr>, \<lparr>control_name = ''kexec_loading'', control_support = CONDITIONAL\<rparr>]\<rparr>"

definition sample_binding :: BootBinding where
  "sample_binding = \<lparr>boot_contract_sha256 = ''contract'', accepted_manifest_bytes = ''manifest'', gpt_disk_guid = ''guid'', runtime = sample_snapshot\<rparr>"

definition fresh_process :: process where "fresh_process = \<lparr>latch = UNREQUESTED, executed = []\<rparr>"

definition sample_engine :: boot_engine where "sample_engine = projr (new_boot_engine True sample_binding)"

lemma sample_bootable: "bootable sample_binding"
proof -
  have "sample_locator i = sample_locator j \<longleftrightarrow> i = j" for i j by (auto simp: sample_locator_def)
  then show ?thesis by (simp add: bootable_def sample_binding_def sample_snapshot_def find_support_def)
qed

lemma sample_new: "new_boot_engine True sample_binding = Inr sample_engine"
  by (simp add: sample_engine_def new_boot_engine_def)

theorem boot_completes_witness:
  "bootable sample_binding \<and> bstate (snd (fst (run boot_step (fresh_process, sample_engine) (replicate 21 (Advance 7 obliging))))) = SERVING"
  using boot_completes [OF sample_bootable sample_new, of fresh_process 7] sample_bootable
  by (simp add: fresh_process_def sample_binding_def sample_snapshot_def)

section \<open>What an engine that serves has seen\<close>



section \<open>A refused serving action\<close>

text \<open>
  \<open>invoke_serving_action\<close> fails an engine that does not serve but keeps its pending effect; from then on every
  call finds that effect, and as long as its transports answer the engine never issues its diagnostic, the closing
  of the network or the power-off. Only a transport that raises would clear the pending effect.
\<close>

definition stranded :: "boot_effect \<Rightarrow> boot_effect list \<Rightarrow> process \<times> boot_engine \<Rightarrow> bool" where
  "stranded ef old s \<longleftrightarrow> bstate (snd s) = FAILED_NON_SERVING \<and> bpending (snd s) = Some ef \<and> \<not> is_extend (snd ef) \<and>
     (\<exists>n. executed (fst s) = old @ replicate n ef)"

fun answering :: "boot_op \<Rightarrow> bool" where
  "answering (Advance t execute) = (\<forall>ef. execute ef \<noteq> None)"
| "answering _ = True"

lemma stranded_step:
  assumes *: "stranded ef old s" and ans: "answering op"
  shows "stranded ef old (fst (boot_step s op))"
proof -
  obtain p e where s: "s = (p, e)" by (cases s)
  have n: "next_boot_effect e = (Inr (Some ef), e)" using * by (simp add: stranded_def s next_boot_effect_def)
  have acc: "stranded ef old (q, e) \<Longrightarrow> stranded ef old (snd (accept_boot ob (q, e)))" for ob q
    using * by (cases ef) (auto simp: s accept_boot_def accept_failure_def n stranded_def split: option.splits if_splits)
  have c: "claim_extend t (p, e) = (Inr (), p, e)" for t using * by (simp add: s stranded_def claim_extend_def)
  have w: "wrong_transport t (snd ef) e = None" for t using * by (simp add: s stranded_def wrong_transport_def)
  have l: "stranded ef old (log_effect ef p, e)"
    using * by (auto simp: s stranded_def log_effect_def replicate_append_same intro: exI [of _ "Suc _"])
  show ?thesis
  proof (cases op)
    case (Advance t x)
    then obtain ob where "x ef = Some ob" using ans by (metis answering.simps(1) not_None_eq)
    with Advance acc [OF l, of ob] show ?thesis by (simp add: s advance_boot_def execute_effect_def Let_def n c w case_prod_unfold)
  qed (use * acc [of p] in \<open>auto simp: s n invoke_serving_action_def case_prod_unfold stranded_def fail_engine_def\<close>)
qed

lemma stranded_run: "stranded ef old s \<Longrightarrow> list_all answering ops \<Longrightarrow> stranded ef old (fst (run boot_step s ops))"
proof (induction ops arbitrary: s)
  case (Cons op ops)
  then show ?case using Cons.IH [OF stranded_step [OF Cons.prems(1)]] by (simp del: run.simps(2))
qed simp

lemma quiet_run: "quiet (snd s) \<Longrightarrow> quiet (snd (fst (run boot_step s ops)))"
proof (induction ops arbitrary: s)
  case (Cons op ops)
  obtain p e p' e' r where "s = (p, e)" "boot_step (p, e) op = ((p', e'), r)" by (metis surj_pair)
  then have "quiet (snd (fst (boot_step s op)))" using boot_step_latch Cons.prems by fastforce
  then show ?case using Cons.IH by (simp del: run.simps(2))
qed simp

fun failure_body :: "effect_body \<Rightarrow> bool" where
  "failure_body (SafeDiagnosticEffect _) = True"
| "failure_body CloseServingNetworkEffect = True"
| "failure_body PoweroffEffect = True"
| "failure_body _ = False"

lemma pending_boot_effect:
  assumes "boot_inv b e" "bpending e = Some ef" "bstate e \<noteq> SERVING" "bstate e \<noteq> FAILED_NON_SERVING"
  shows "\<not> failure_body (snd ef)"
proof -
  have "effect_class (snd ef) = state_class (bstate e)" using assms by (cases ef) (simp add: boot_inv_def pending_ok_def)
  moreover have "state_class (bstate e) \<noteq> 0" using assms(3,4) by (cases "bstate e") simp_all
  moreover have "failure_body q \<Longrightarrow> effect_class q = 0" for q by (cases q) simp_all
  ultimately show ?thesis by auto
qed

text \<open>
  C39. A serving action invoked while a boot effect is pending strands the engine: whatever calls were made before, when the engine
  neither serves nor has failed and has issued an effect that is not answered yet, a serving action fails it, and from then on no sequence of
  calls on transports that answer, whatever they answer, gets the engine to execute anything but that effect again: it
  has failed, but no diagnostic is emitted, the network is not closed and the machine is not powered off.
\<close>

theorem refused_action_strands:
  assumes "new_boot_engine True b = Inr e0" and "fst (run boot_step (p0, e0) before) = (p1, e1)"
    and "bpending e1 = Some ef" and "bstate e1 \<noteq> SERVING" and "bstate e1 \<noteq> FAILED_NON_SERVING"
    and "fst (run boot_step (p1, e1) (Serving_action a x # ops)) = (p, e)" and "list_all answering ops"
  shows "bstate e = FAILED_NON_SERVING \<and> bpending e = Some ef \<and> \<not> failure_body (snd ef) \<and> (\<exists>n. executed p = executed p1 @ replicate n ef)"
proof -
  have "boot_inv b e1" using boot.inv_run [of b "(p0, e0)" before] boot_inv_new [OF assms(1)] by (simp add: assms(2))
  then have nf: "\<not> failure_body (snd ef)" using pending_boot_effect assms(3-5) by blast
  have "quiet e1" using quiet_run [of "(p0, e0)" before] new_quiet [OF assms(1)] by (simp add: assms(2))
  then have "\<not> is_extend (snd ef)" using assms(3) by (cases ef) (simp add: quiet_def)
  then have "stranded ef (executed p1) (fst (boot_step (p1, e1) (Serving_action a x)))"
    using assms(3-5) by (simp add: stranded_def invoke_serving_action_def fail_engine_def)
  from stranded_run [OF this assms(7)] assms(6) have "stranded ef (executed p1) (p, e)" by (simp del: run.simps(2) boot_step.simps)
  then show ?thesis using nf by (simp add: stranded_def)
qed

theorem refused_action_strands_witness:
  "\<exists>p e n. fst (run boot_step (fresh_process, sample_engine) [Advance 7 obliging, Next_effect, Serving_action Act_SERVICE_START obliging, Advance 7 obliging, Advance 7 obliging]) = (p, e) \<and>
     bstate e = FAILED_NON_SERVING \<and> executed p = (boot_contract_sha256 sample_binding, CheckCmdlineEffect ''ro'') # replicate n (boot_contract_sha256 sample_binding, ReadPcr15Effect ZERO_PCR)"
proof -
  let ?before = "[Advance 7 obliging, Next_effect]" and ?ops = "[Advance 7 obliging, Advance 7 obliging]"
  let ?ef = "(boot_contract_sha256 sample_binding, ReadPcr15Effect ZERO_PCR)"
  obtain p1 e1 where r: "fst (run boot_step (fresh_process, sample_engine) ?before) = (p1, e1)" by fastforce
  have e1: "bpending e1 = Some ?ef" "bstate e1 = PCR15_ZERO" "executed p1 = [(boot_contract_sha256 sample_binding, CheckCmdlineEffect ''ro'')]"
    using r by (auto simp: advance_defs sample_engine_def new_boot_engine_def fresh_process_def sample_binding_def sample_snapshot_def)
  obtain p e where q: "fst (run boot_step (p1, e1) (Serving_action Act_SERVICE_START obliging # ?ops)) = (p, e)" by fastforce
  have "list_all answering ?ops" by (simp add: obliging_def)
  note st = refused_action_strands [OF sample_new r e1(1) _ _ q this, unfolded e1(2), simplified]
  have "fst (run boot_step (fresh_process, sample_engine) (?before @ Serving_action Act_SERVICE_START obliging # ?ops)) = (p, e)"
    using r q by (simp del: run.simps(2) boot_step.simps)
  then show ?thesis using st e1(3) by auto
qed

section \<open>Version 2\<close>








definition sample_binding_v2 :: BootBindingV2 where
  "sample_binding_v2 = \<lparr>contract_sha256_v2 = ''contract'', manifest_bytes_v2 = ''manifest'', boot_contract_bytes = [], module_plan_bytes = [],
     kernel_feature_contract_bytes = [], gpt_layout_rules_bytes = [], root_lock_bytes = [], runtime_closure_bytes = [], policy_bytes = [],
     disk_guid_v2 = ''guid'', jit_policy = None,
     runtime_v2 = sample_snapshot\<lparr>mutable_control_order := [''kexec_loading''],
       tmpfs_mounts := [\<lparr>tmpfs_path = ''/tmp'', tmpfs_size_bytes = 4096, tmpfs_mode = 448\<rparr>]\<rparr>\<rparr>"

definition sample_engine_v2 :: boot_engine_v2 where "sample_engine_v2 = projr (new_boot_engine_v2 True sample_binding_v2)"



lemma sample_new_v2: "new_boot_engine_v2 True sample_binding_v2 = Inr sample_engine_v2"
  by (simp add: sample_engine_v2_def new_boot_engine_v2_def)










section \<open>The effects of version 2\<close>

fun effect_name :: "effect_body \<Rightarrow> string" where
  "effect_name (CheckCmdlineEffect _) = ''CheckCmdlineEffect''"
| "effect_name (ReadPcr15Effect _) = ''ReadPcr15Effect''"
| "effect_name (LocateExpectedDiskEffect _ _) = ''LocateExpectedDiskEffect''"
| "effect_name (MapVerityEffect _) = ''MapVerityEffect''"
| "effect_name (VerifyVerityEffect _ _) = ''VerifyVerityEffect''"
| "effect_name (ReadMappingIdentityEffect _ _) = ''ReadMappingIdentityEffect''"
| "effect_name (MountImageEffect _ _ _) = ''MountImageEffect''"
| "effect_name (ConfineRuntimeExecutablesEffect _) = ''ConfineRuntimeExecutablesEffect''"
| "effect_name CheckMutableRootsEffect = ''CheckMutableRootsEffect''"
| "effect_name (CreateTmpfsEffect _ _) = ''CreateTmpfsEffect''"
| "effect_name (LoadModulesEffect _) = ''LoadModulesEffect''"
| "effect_name CloseModulesEffect = ''CloseModulesEffect''"
| "effect_name (CloseMutableControlEffect _) = ''CloseMutableControlEffect''"
| "effect_name (ExtendPcr15Effect _ _) = ''ExtendPcr15Effect''"
| "effect_name CloseTransportEffect = ''CloseTransportEffect''"
| "effect_name ServingReadyEffect = ''ServingReadyEffect''"
| "effect_name (ServingActionEffect _) = ''ServingActionEffect''"
| "effect_name (SafeDiagnosticEffect _) = ''SafeDiagnosticEffect''"
| "effect_name CloseServingNetworkEffect = ''CloseServingNetworkEffect''"
| "effect_name PoweroffEffect = ''PoweroffEffect''"
| "effect_name (BootstrapMountEffectV2 _) = ''BootstrapMountEffectV2''"
| "effect_name (ApplyNetworkPolicyEffectV2 _) = ''ApplyNetworkPolicyEffectV2''"
| "effect_name (ReadNetworkPolicyEffectV2 _) = ''ReadNetworkPolicyEffectV2''"
| "effect_name (CheckMutableRootClassesEffectV2 _ _ _) = ''CheckMutableRootClassesEffectV2''"
| "effect_name (CreateTmpfsEffectV2 _) = ''CreateTmpfsEffectV2''"
| "effect_name (JitPolicyEffectV2 _ _) = ''JitPolicyEffectV2''"
| "effect_name (ActivationEffectV2 _ _) = ''ActivationEffectV2''"
| "effect_name ServingReadyEffectV2 = ''ServingReadyEffectV2''"
| "effect_name (AuthorityStepEffectV3 _ _ _) = ''AuthorityStepEffectV3''"

definition effect_rows :: "(BootTransitionStateV2 \<times> string) list" where
  "effect_rows = map (\<lambda>(s, n, _). (s, n)) BOOT_TRANSITION_TABLE_V2"

definition typed_v2 :: "boot_engine_v2 \<Rightarrow> bool" where
  "typed_v2 e \<longleftrightarrow> settled e \<and> (case pending_v2 e of None \<Rightarrow> True | Some (c, q) \<Rightarrow> c = contract_v2 e \<and> (state_v2 e, effect_name q) \<in> set effect_rows)"

lemma effect_typed: "effect_for_state_v2 e = Inr q \<Longrightarrow> (state_v2 e, effect_name q) \<in> set effect_rows"
  by (cases "state_v2 e") (auto simp: effect_for_state_v2_def Let_def res_simps effect_rows_def BOOT_TRANSITION_TABLE_V2_def split: if_splits)

lemma typed_none: "pending_v2 e = None \<Longrightarrow> typed_v2 e"
  by (simp add: typed_v2_def settled_def)

lemma typed_next:
  assumes "typed_v2 e" and n: "next_effect_v2 (p, e) = (x, p', e')"
  shows "typed_v2 e'"
proof (cases "pending_v2 e = None \<and> state_v2 e = PCR15_EXTEND_V2")
  case True
  have "(PCR15_EXTEND_V2, ''ExtendPcr15Effect'') \<in> set effect_rows" by (simp add: effect_rows_def BOOT_TRANSITION_TABLE_V2_def)
  then show ?thesis using True n assms(1)
    by (auto simp: next_effect_v2_def Let_def claim_extend_transport_def typed_v2_def settled_def dead_def contract_v2_def fatal_v2_def split: if_splits)
next
  case False
  then show ?thesis using assms effect_typed [of e]
    by (auto simp: next_effect_v2_def Let_def typed_v2_def settled_def dead_def contract_v2_def split: option.splits if_splits sum.splits)
qed

text \<open>Accepting and failing leave no effect pending.\<close>

lemma typed_accept: "typed_v2 e \<Longrightarrow> accept_normal_v2 ob (p, e) = (x, p', e') \<Longrightarrow> typed_v2 e'"
  by (rule typed_none) (auto simp: typed_v2_def dest!: accept_v2_latch)

lemma typed_failure:
  assumes "typed_v2 e" and "state_v2 e = FAILED_NON_SERVING_V2" and "advance_failure_v2 t x (p, e) = (y, p', e')"
  shows "typed_v2 e'"
proof -
  have "pending_v2 e = None" using assms(1,2) by (simp add: typed_v2_def settled_def dead_def)
  then show ?thesis using assms(3) by (auto simp: advance_failure_v2_def Let_def intro!: typed_none split: if_splits option.splits)
qed

lemma typed_advance:
  assumes t: "typed_v2 e" and ac: "advance_v2 t x (p, e) = (y, p', e')"
  shows "typed_v2 e'"
proof (cases "state_v2 e = FAILED_NON_SERVING_V2")
  case True
  then show ?thesis using typed_failure [OF t] ac by (simp add: advance_v2_def)
next
  case False
  obtain z p1 e1 where N: "next_effect_v2 (p, e) = (z, p1, e1)" by (cases "next_effect_v2 (p, e)")
  note n = typed_next [OF t N]
  have "pending_v2 (fatal_v2 code (e1\<lparr>pending_v2 := None\<rparr>)) = None" for code by (simp add: fatal_settled settled_def)
  with False ac N n typed_accept [OF n] show ?thesis
    by (cases z) (auto simp: advance_v2_def Let_def typed_none split: option.splits if_splits)
qed

interpretation typing: machine step_v2 "\<lambda>s. typed_v2 (snd s)"
proof
  fix s :: "process \<times> boot_engine_v2" and op
  assume "typed_v2 (snd s)"
  moreover obtain p e where s: "s = (p, e)" by (cases s)
  ultimately have t: "typed_v2 e" by simp
  have acc: "typed_v2 (snd (snd (accept_v2 ob (p, e))))" for ob
    using t typed_accept [OF t, of ob p] by (cases "accept_normal_v2 ob (p, e)") (auto simp: accept_v2_def)
  have n: "typed_v2 (snd (snd (next_effect_v2 (p, e))))" by (cases "next_effect_v2 (p, e)") (simp add: typed_next [OF t])
  have a: "typed_v2 (snd (snd (advance_v2 ch x (p, e))))" for ch x by (cases "advance_v2 ch x (p, e)") (simp add: typed_advance [OF t])
  show "typed_v2 (snd (fst (step_v2 s op)))"
    using t acc n a
    by (cases op) (auto simp: s case_prod_unfold claim_boot_transports_def claim_activation_transport_def admit_serving_session_def release_session_def
        typed_none typed_v2_def settled_def contract_v2_def split: option.splits)
qed

text \<open>
  C33. Effects have the class of their row: whatever was called on a version 2 engine, an effect it issues while it
  has not failed carries the engine's contract digest and is of the class that the transition table names for its state.
\<close>

theorem issued_effect_of_table:
  assumes "new_boot_engine_v2 True b = Inr e0" and "fst (run step_v2 (p0, e0) ops) = (p, e)"
    and "next_effect_v2 (p, e) = (Inr (Some (c, q)), p', e')" and "state_v2 e \<noteq> FAILED_NON_SERVING_V2"
  shows "c = contract_v2 e \<and> (\<exists>post. (state_v2 e, effect_name q, post) \<in> set BOOT_TRANSITION_TABLE_V2)"
proof -
  have "pending_v2 e0 = None" using assms(1) by (auto simp: new_boot_engine_v2_def)
  then have "typed_v2 e" using typing.inv_run [of "(p0, e0)" ops] by (simp add: assms(2) typed_none)
  from typed_next [OF this assms(3)] have "typed_v2 e'" .
  moreover have "pending_v2 e' = Some (c, q)" "state_v2 e' = state_v2 e" "contract_v2 e' = contract_v2 e"
    using assms(3,4)
    by (auto simp: next_effect_v2_def Let_def claim_extend_transport_def contract_v2_def split: option.splits if_splits sum.splits)
  ultimately have "c = contract_v2 e" "(state_v2 e, effect_name q) \<in> set effect_rows" by (auto simp: typed_v2_def)
  then show ?thesis by (auto simp: effect_rows_def)
qed

theorem issued_effect_of_table_witness:
  "\<exists>p e post. fst (run step_v2 (fresh_process, sample_engine_v2) [Claim_boot 1 2]) = (p, e) \<and>
     fst (next_effect_v2 (p, e)) = Inr (Some (contract_v2 e, BootstrapMountEffectV2 (BOOTSTRAP_MOUNTS_V2 ! 0))) \<and>
     (BOOTSTRAP_PROC_V2, ''BootstrapMountEffectV2'', post) \<in> set BOOT_TRANSITION_TABLE_V2"
proof -
  obtain p e where r: "fst (run step_v2 (fresh_process, sample_engine_v2) [Claim_boot 1 2]) = (p, e)" by (metis prod.collapse)
  have e: "state_v2 e = BOOTSTRAP_PROC_V2" "pending_v2 e = None" "boot_transport e = Some 1" "failure_transport e = Some 2"
    using r by (auto simp: claim_boot_transports_def sample_engine_v2_def new_boot_engine_v2_def)
  have n: "next_effect_v2 (p, e) = (Inr (Some (contract_v2 e, BootstrapMountEffectV2 (BOOTSTRAP_MOUNTS_V2 ! 0))), p,
      e\<lparr>pending_v2 := Some (contract_v2 e, BootstrapMountEffectV2 (BOOTSTRAP_MOUNTS_V2 ! 0))\<rparr>)"
    using e by (simp add: next_effect_v2_def effect_for_state_v2_def)
  from issued_effect_of_table [OF sample_new_v2 r n] e obtain post where "(BOOTSTRAP_PROC_V2, ''BootstrapMountEffectV2'', post) \<in> set BOOT_TRANSITION_TABLE_V2" by auto
  then show ?thesis using r n by (intro exI [of _ p] exI [of _ e]) auto
qed

section \<open>The failure protocol of version 2\<close>

definition failure_ready :: "object_id \<Rightarrow> boot_engine_v2 \<Rightarrow> bool" where
  "failure_ready t e \<longleftrightarrow> failure_transport e = Some t \<and> (state_v2 e = FAILED_NON_SERVING_V2 \<longrightarrow> failure_kind_v2 e \<noteq> None)"

lemma ready_fatal: "failure_ready t e \<Longrightarrow> failure_ready t (fatal_v2 code e)"
  by (auto simp: failure_ready_def fatal_v2_def)

lemma ready_pending [simp]: "failure_ready t (e\<lparr>pending_v2 := x\<rparr>) = failure_ready t e" "failure_ready t (e\<lparr>accepted_v2 := y\<rparr>) = failure_ready t e"
  by (simp_all add: failure_ready_def)

text \<open>A check keeps the failure transport and never fails the engine itself.\<close>

definition keeps_ready :: "boot_engine_v2 \<Rightarrow> boot_engine_v2 \<Rightarrow> bool" where
  "keeps_ready e e' \<longleftrightarrow> failure_transport e' = failure_transport e \<and> failure_kind_v2 e' = failure_kind_v2 e \<and>
     (state_v2 e' = FAILED_NON_SERVING_V2 \<longrightarrow> state_v2 e = FAILED_NON_SERVING_V2)"

lemma keeps_checks:
  "s \<noteq> FAILED_NON_SERVING_V2 \<Longrightarrow> keeps_ready e (snd (check_v2 c code m s e))"
  "s \<noteq> FAILED_NON_SERVING_V2 \<Longrightarrow> keeps_ready e (snd (check_identity_v2 pair known s ob e))"
  "keeps_ready e (snd (check_tmpfs_v2 ob e))" "keeps_ready e (snd (check_control_v2 ob e))"
  by (auto simp: keeps_ready_def check_v2_def check_identity_v2_def check_tmpfs_v2_def check_control_v2_def Let_def split: option.splits sum.splits)

lemma keeps_maps:
  "s \<noteq> FAILED_NON_SERVING_V2 \<Longrightarrow> keeps_ready e (snd (check_map_v2 pair (\<lambda>m e. e\<lparr>runtime_mapping_v2 := Some m\<rparr>) s ob e))"
  "s \<noteq> FAILED_NON_SERVING_V2 \<Longrightarrow> keeps_ready e (snd (check_map_v2 pair (\<lambda>m e. e\<lparr>models_mapping_v2 := Some m\<rparr>) s ob e))"
  by (cases ob; simp add: keeps_ready_def)+

lemma keeps_local: "keeps_ready e (snd (check_local_v2 ob e))"
  unfolding check_local_v2_def Let_def by (cases "state_v2 e") (simp_all add: keeps_checks keeps_maps, simp_all add: keeps_ready_def)

lemma ready_observation:
  assumes "failure_ready t e" and "check_observation_v2 ob (p, e) = (x, p', e')"
  shows "failure_ready t e'"
  using assms keeps_local [of e ob]
  by (auto simp: check_observation_v2_def failure_ready_def keeps_ready_def split: if_splits sum.splits prod.splits observation_body.splits)

lemma ready_accept:
  assumes "failure_ready t e" and "accept_normal_v2 ob (p, e) = (x, p', e')"
  shows "failure_ready t e'"
proof (cases ob)
  case Foreign_value
  then show ?thesis using assms by (auto simp: accept_normal_v2_def Let_def ready_fatal)
next
  case (Observation c body)
  obtain y p1 e1 where C: "check_observation_v2 body (p, e\<lparr>pending_v2 := None\<rparr>) = (y, p1, e1)" by (cases "check_observation_v2 body (p, e\<lparr>pending_v2 := None\<rparr>)")
  have "failure_ready t e1" using ready_observation [OF _ C] assms(1) by simp
  with assms Observation C show ?thesis
    by (auto simp: accept_normal_v2_def Let_def ready_fatal split: if_splits sum.splits boot_error.splits)
qed

lemma ready_next: "failure_ready t e \<Longrightarrow> next_effect_v2 (p, e) = (x, p', e') \<Longrightarrow> failure_ready t e'"
  by (auto simp: next_effect_v2_def Let_def claim_extend_transport_def ready_fatal split: option.splits if_splits sum.splits)
    (auto simp: failure_ready_def)

lemma ready_advance:
  assumes r: "failure_ready t e" and ac: "advance_v2 ch x (p, e) = (y, p', e')"
  shows "failure_ready t e'"
proof (cases "state_v2 e = FAILED_NON_SERVING_V2")
  case True
  then show ?thesis using r ac by (auto simp: advance_v2_def advance_failure_v2_def Let_def failure_ready_def split: if_splits option.splits)
next
  case False
  obtain z p1 e1 where N: "next_effect_v2 (p, e) = (z, p1, e1)" by (cases "next_effect_v2 (p, e)")
  note n = ready_next [OF r N]
  with False ac N ready_accept [OF n] show ?thesis
    by (cases z) (auto simp: advance_v2_def Let_def ready_fatal split: option.splits if_splits)
qed

interpretation readiness: machine step_v2 "\<lambda>s. failure_ready t (snd s)" for t
proof
  fix s :: "process \<times> boot_engine_v2" and op
  assume "failure_ready t (snd s)"
  moreover obtain p e where s: "s = (p, e)" by (cases s)
  ultimately have r: "failure_ready t e" by simp
  have acc: "failure_ready t (snd (snd (accept_v2 ob (p, e))))" for ob
    using r ready_accept [OF r, of ob p] by (cases "accept_normal_v2 ob (p, e)") (auto simp: accept_v2_def)
  have n: "failure_ready t (snd (snd (next_effect_v2 (p, e))))" by (cases "next_effect_v2 (p, e)") (simp add: ready_next [OF r])
  have a: "failure_ready t (snd (snd (advance_v2 ch x (p, e))))" for ch x by (cases "advance_v2 ch x (p, e)") (simp add: ready_advance [OF r])
  show "failure_ready t (snd (fst (step_v2 s op)))"
    using r acc n a
    by (cases op) (auto simp: s case_prod_unfold claim_boot_transports_def claim_activation_transport_def admit_serving_session_def release_session_def failure_ready_def)
qed

text \<open>One acknowledged advance of the protocol.\<close>

lemma protocol_step:
  assumes "state_v2 e = FAILED_NON_SERVING_V2" and "failure_transport e = Some t" and "failure_kind_v2 e = Some k"
  shows "fst (step_v2 (p, e) (Advance_v2 t obliging)) = (log_effect (the (failure_effect_v2 e)) p,
    e\<lparr>failure_kind_v2 := next_failure_kind k, state_v2 := if next_failure_kind k = None then POWEROFF_V2 else FAILED_NON_SERVING_V2\<rparr>)"
  using assms by (cases k) (simp_all add: advance_v2_def advance_failure_v2_def failure_effect_v2_def obliging_def contract_v2_def Let_def)

text \<open>
  C32. The failure protocol ends: a version 2 engine whose boot and failure transports were claimed first and that has failed,
  after whatever calls, is powered off by at most three advances of a failure transport that acknowledges.
\<close>

theorem failure_protocol_ends:
  assumes "new_boot_engine_v2 True b = Inr e0" and "bt \<noteq> ft" and "fst (run step_v2 (p0, e0) (Claim_boot bt ft # ops)) = (p, e)"
    and "state_v2 e = FAILED_NON_SERVING_V2"
  shows "\<exists>n \<le> 3. state_v2 (snd (fst (run step_v2 (p, e) (replicate n (Advance_v2 ft obliging))))) = POWEROFF_V2"
proof -
  have "failure_ready ft (snd (fst (step_v2 (p0, e0) (Claim_boot bt ft))))"
    using assms(1,2) by (auto simp: new_boot_engine_v2_def claim_boot_transports_def failure_ready_def)
  from readiness.inv_run [of ft _ ops, OF this] assms(3) have "failure_ready ft e" by (simp del: run.simps(2) step_v2.simps)
  then obtain k where k: "failure_transport e = Some ft" "failure_kind_v2 e = Some k" using assms(4) by (auto simp: failure_ready_def)
  show ?thesis
  proof (cases k)
    case POWEROFF_KIND
    have "state_v2 (snd (fst (run step_v2 (p, e) (replicate 1 (Advance_v2 ft obliging))))) = POWEROFF_V2"
      using protocol_step [OF assms(4) k(1,2)] POWEROFF_KIND by (simp del: run.simps(2) step_v2.simps)
    then show ?thesis by (intro exI [of _ 1]) simp
  next
    case CLOSE_SERVING_NETWORK
    have "state_v2 (snd (fst (run step_v2 (p, e) (replicate (Suc (Suc 0)) (Advance_v2 ft obliging))))) = POWEROFF_V2"
      using protocol_step [OF assms(4) k(1,2)] CLOSE_SERVING_NETWORK protocol_step [of _ ft POWEROFF_KIND] k
      by (simp del: run.simps(2) step_v2.simps)
    then show ?thesis by (intro exI [of _ "Suc (Suc 0)"]) simp
  next
    case DIAGNOSTIC
    have "state_v2 (snd (fst (run step_v2 (p, e) (replicate (Suc (Suc (Suc 0))) (Advance_v2 ft obliging))))) = POWEROFF_V2"
      using protocol_step [OF assms(4) k(1,2)] DIAGNOSTIC protocol_step [of _ ft POWEROFF_KIND] protocol_step [of _ ft CLOSE_SERVING_NETWORK] k
      by (simp del: run.simps(2) step_v2.simps)
    then show ?thesis by (intro exI [of _ "Suc (Suc (Suc 0))"]) simp
  qed
qed

theorem failure_protocol_ends_witness:
  "\<exists>n \<le> 3. state_v2 (snd (fst (run step_v2 (fst (run step_v2 (fresh_process, sample_engine_v2) [Claim_boot 1 2, Accept_v2 Foreign_value]))
     (replicate n (Advance_v2 2 obliging))))) = POWEROFF_V2"
proof -
  obtain p e where r: "fst (run step_v2 (fresh_process, sample_engine_v2) (Claim_boot 1 2 # [Accept_v2 Foreign_value])) = (p, e)" by (metis prod.collapse)
  have "state_v2 e = FAILED_NON_SERVING_V2"
    using r by (auto simp: claim_boot_transports_def sample_engine_v2_def new_boot_engine_v2_def accept_v2_def accept_normal_v2_def fatal_v2_def)
  from failure_protocol_ends [OF sample_new_v2 _ r this] show ?thesis unfolding r by simp
qed

section \<open>One extension per process\<close>

text \<open>A process makes engines of all three versions and calls them in any order.\<close>

datatype any_engine = Engine_v1 boot_engine | Engine_v2 boot_engine_v2 | Engine_v3 boot_engine_v3

datatype process_op = New_v1 bool BootBinding | New_v2 bool BootBindingV2 | New_v3 OperationMaterialV3 "LaunchRole list" "nat option"
  | On_v1 nat boot_op | On_v2 nat op_v2 | On_v3 nat op_v3

fun process_step :: "process \<times> any_engine list \<Rightarrow> process_op \<Rightarrow> (process \<times> any_engine list) \<times> bool" where
  "process_step (p, es) (New_v1 issued b) = (case new_boot_engine issued b of Inl x \<Rightarrow> ((p, es), False) | Inr e \<Rightarrow> ((p, es @ [Engine_v1 e]), True))"
| "process_step (p, es) (New_v2 issued b) = (case new_boot_engine_v2 issued b of Inl x \<Rightarrow> ((p, es), False) | Inr e \<Rightarrow> ((p, es @ [Engine_v2 e]), True))"
| "process_step (p, es) (On_v1 i op) =
     (if i < length es then (case es ! i of
          Engine_v1 e \<Rightarrow> (case boot_step (p, e) op of ((p', e'), r) \<Rightarrow> ((p', es[i := Engine_v1 e']), r))
        | _ \<Rightarrow> ((p, es), False))
      else ((p, es), False))"
| "process_step (p, es) (On_v2 i op) =
     (if i < length es then (case es ! i of
          Engine_v2 e \<Rightarrow> (case step_v2 (p, e) op of ((p', e'), r) \<Rightarrow> ((p', es[i := Engine_v2 e']), r))
        | _ \<Rightarrow> ((p, es), False))
      else ((p, es), False))"
| "process_step (p, es) (New_v3 m roles n) = ((p, es @ [Engine_v3 (new_boot_engine_v3 m roles n)]), True)"
| "process_step (p, es) (On_v3 i op) =
     (if i < length es then (case es ! i of
          Engine_v3 e \<Rightarrow> (case step_v3 (p, e) op of ((p', e'), r) \<Rightarrow> ((p', es[i := Engine_v3 e']), r))
        | _ \<Rightarrow> ((p, es), False))
      else ((p, es), False))"

fun engine_ok :: "any_engine \<Rightarrow> bool" where
  "engine_ok (Engine_v1 e) = quiet e"
| "engine_ok (Engine_v2 e) = settled e"
| "engine_ok (Engine_v3 e) = True"

fun engine_holds :: "any_engine \<Rightarrow> nat" where
  "engine_holds (Engine_v1 e) = 0"
| "engine_holds (Engine_v2 e) = holds_v2 e"
| "engine_holds (Engine_v3 e) = holds_v3 e"

definition extension_inv :: "process \<times> any_engine list \<Rightarrow> bool" where
  "extension_inv s \<longleftrightarrow> list_all engine_ok (snd s) \<and> extends (fst s) + sum_list (map engine_holds (snd s)) \<le> claimed (fst s)"

text \<open>A call on one engine that is covered by its claim keeps the invariant.\<close>

lemma extension_update:
  assumes inv: "extension_inv (p, es)" and i: "i < length es" and ok: "engine_ok e'"
    and cov: "extends p' + engine_holds e' + claimed p \<le> extends p + engine_holds (es ! i) + claimed p'"
  shows "extension_inv (p', es[i := e'])"
proof -
  let ?h = "sum_list (map engine_holds es)"
  have "engine_holds (es ! i) \<le> ?h" using i by (metis length_map nth_map elem_le_sum_list)
  then have "sum_list (map engine_holds (es[i := e'])) + engine_holds (es ! i) = ?h + engine_holds e'"
    using i by (simp add: map_update sum_list_update)
  then show ?thesis
    using inv ok cov i set_update_subset_insert [of es i e'] by (fastforce simp: extension_inv_def list_all_iff)
qed

interpretation extension: machine process_step extension_inv
proof
  fix s op assume inv: "extension_inv s"
  obtain p es where s: "s = (p, es)" by (cases s)
  have at: "engine_ok (es ! i)" if "i < length es" for i using inv that by (simp add: s extension_inv_def list_all_length)
  show "extension_inv (fst (process_step s op))"
  proof (cases op)
    case (New_v1 issued b)
    then show ?thesis using inv new_quiet [of issued b] by (auto simp: s extension_inv_def split: sum.splits)
  next
    case (New_v2 issued b)
    then show ?thesis using inv new_settled [of issued b] by (auto simp: s extension_inv_def split: sum.splits)
  next
    case (New_v3 m roles n)
    then show ?thesis using inv by (simp add: s extension_inv_def new_boot_engine_v3_def holds_v3_def)
  next
    case (On_v1 i bop)
    then show ?thesis
    proof (cases "\<exists>e. i < length es \<and> es ! i = Engine_v1 e")
      case True
      then obtain e where e: "i < length es" "es ! i = Engine_v1 e" by blast
      obtain p' e' r where st: "boot_step (p, e) bop = ((p', e'), r)" by (metis prod.collapse)
      from boot_step_latch [OF _ st] at [OF e(1)] e extension_update [of p es i "Engine_v1 e'" p'] inv On_v1 st show ?thesis
        by (simp add: s covered_def)
    qed (use inv On_v1 in \<open>auto simp: s split: any_engine.splits\<close>)
  next
    case (On_v2 i bop)
    then show ?thesis
    proof (cases "\<exists>e. i < length es \<and> es ! i = Engine_v2 e")
      case True
      then obtain e where e: "i < length es" "es ! i = Engine_v2 e" by blast
      obtain p' e' r where st: "step_v2 (p, e) bop = ((p', e'), r)" by (metis prod.collapse)
      from step_v2_latch [OF _ st] at [OF e(1)] e extension_update [of p es i "Engine_v2 e'" p'] inv On_v2 st show ?thesis
        by (simp add: s covered_v2_def)
    qed (use inv On_v2 in \<open>auto simp: s split: any_engine.splits\<close>)
  next
    case (On_v3 i bop)
    then show ?thesis
    proof (cases "\<exists>e. i < length es \<and> es ! i = Engine_v3 e")
      case True
      then obtain e where e: "i < length es" "es ! i = Engine_v3 e" by blast
      obtain p' e' r where st: "step_v3 (p, e) bop = ((p', e'), r)" by (metis prod.collapse)
      from step_v3_balanced [of "(p, e)" bop] e extension_update [of p es i "Engine_v3 e'" p'] inv On_v3 st show ?thesis
        by (simp add: s balanced_def)
    qed (use inv On_v3 in \<open>auto simp: s split: any_engine.splits\<close>)
  qed
qed

text \<open>
  C1. One extension per process: whatever engines of the three versions a process makes, in whatever order it calls them and
  whatever their transports answer, at most one extension of PCR 15 is ever executed.
\<close>

theorem extend_at_most_once: "extends (fst (fst (run process_step (fresh_process, []) ops))) \<le> 1"
proof -
  have "extension_inv (fresh_process, [])" by (simp add: extension_inv_def fresh_process_def extends_def)
  from extension.inv_run [OF this, of ops] show ?thesis
    by (auto simp: extension_inv_def claimed_def split: if_splits)
qed

end
