(* ===== verification/Boot_Admission.thy ===== *)
theory Boot_Admission
  imports Boot_Process
begin

text \<open>
  What the guard of serving admission stands for in a version 3 boot: a complete chain of steps
  and a complete census of the launched roles, no failure before it, and a healthy launch passes it.
\<close>

section \<open>Admission needs the chain and the census\<close>

interpretation chain: machine step_v3 "inv_v3 roles" for roles
  by unfold_locales (rule inv_v3_step)

lemma admitted_state:
  assumes "admission_guard w (p, e) = (Inr u, p', e')"
  obtains l b where "e' = e\<lparr>lifetime := l\<rparr>" and "state_v3 e = SERVING_AVAILABLE_V3" and "serving_effect_completed e"
    and "readiness_barrier e = Some b" and "barrier_state b = Consumed"
  using assms that unfolding admission_guard_def
  by (rule_tac verified_cases [of e "admit_check w" p]) (auto simp: admit_check_def fail_v3_def valid_consumed_readiness_def split: if_splits option.splits)

section \<open>A failure is final\<close>

definition failed_v3 :: "process \<times> boot_engine_v3 \<Rightarrow> bool" where
  "failed_v3 s \<longleftrightarrow> state_v3 (snd s) = FAILED_NON_SERVING_V3"

lemma failed_fail [simp]: "failed_v3 (snd (fail_v3 code m s))" "failed_v3 (p, fail_engine_v3 e)"
  by (cases s; simp add: failed_v3_def fail_v3_def)+

lemma keeps_verified_failed: "keeps_v3 failed_v3 m \<Longrightarrow> keeps_v3 failed_v3 (verified m)"
  by (rule keeps_verified) (auto simp: failed_v3_def)

lemma failed_with_barrier: "failed_v3 s \<Longrightarrow> failed_v3 (snd (with_barrier m s))"
  by (cases s) (auto simp: with_barrier_def failed_v3_def invalidate_readiness_def enter_failure_def Let_def split: option.splits sum.splits prod.splits)

lemma failed_next: "keeps_v3 failed_v3 next_effect_v3"
  unfolding next_effect_v3_def
  by (rule keeps_verified_failed) (auto simp: keeps_v3_def failed_v3_def issue_effect_v3_def split: option.splits)

lemma failed_accept: "keeps_v3 failed_v3 (accept_v3 ob)"
  unfolding accept_v3_def
  by (rule keeps_verified_failed) (auto simp: keeps_v3_def take_readback_v3_def, simp add: failed_v3_def)

lemma failed_execute: "failed_v3 s \<Longrightarrow> failed_v3 (snd (execute_v3 x ef s))"
proof -
  assume f: "failed_v3 s"
  obtain p e where s: "s = (p, e)" by (cases s)
  with f have f': "failed_v3 (log_effect ef p, e)" by (simp add: failed_v3_def)
  then show ?thesis using f s keeps_v3D [OF failed_accept f'] keeps_v3D [OF keeps_verified_failed [OF failed_accept] f']
    by (auto simp: execute_v3_def Let_def split: option.splits)
qed

lemma failed_advance: "keeps_v3 failed_v3 (advance_v3 t x)"
  unfolding advance_v3_def
proof (rule keeps_verified_failed)
  have "failed_v3 (snd (run_effect_v3 t x s))" if "failed_v3 s" for s
    using keeps_v3D [OF failed_next that] unfolding run_effect_v3_def
    by (auto intro!: failed_execute simp: claim_transport_v3_def split: prod.splits sum.splits option.splits) (simp add: failed_v3_def)
  then show "keeps_v3 failed_v3 (run_effect_v3 t x)" by (simp add: keeps_v3_def)
qed

interpretation failure: machine step_v3 failed_v3
proof
  fix s op assume f: "failed_v3 s"
  have "keeps_v3 failed_v3 (begin_census a1 a2 a3 a4 a5)" for a1 a2 a3 a4 a5
    unfolding begin_census_def by (rule keeps_verified_failed) (auto simp: keeps_v3_def start_census_def, simp add: failed_v3_def)
  moreover have "keeps_v3 failed_v3 (consume_completion c ep t)" for c ep t
    unfolding consume_completion_def by (rule keeps_verified_failed) (auto simp: keeps_v3_def, simp add: failed_v3_def)
  moreover have "keeps_v3 failed_v3 (report_terminal w ep ev)" for w ep ev
    unfolding report_terminal_def by (rule keeps_verified_failed) (auto simp: keeps_v3_def split: option.splits prod.splits)
  moreover have "keeps_v3 failed_v3 wrapper_global_fault"
    unfolding wrapper_global_fault_def by (rule keeps_verified_failed) (auto simp: keeps_v3_def failed_v3_def)
  moreover have "keeps_v3 failed_v3 (admission_guard w)" for w
    unfolding admission_guard_def by (rule keeps_verified_failed) (auto simp: keeps_v3_def admit_check_def)
  ultimately show "failed_v3 (fst (step_v3 s op))"
    using f failed_next failed_accept failed_advance
    by (cases op) (simp_all add: done_v3_def failed_with_barrier keeps_v3D [of failed_v3])
qed

lemma verified_expired: "lifetime (snd s) = Some 0 \<Longrightarrow> verified m s = (Inl (ErrorV3 CP_BOOT_V3_BINDING ''binding was not issued''), s)"
  by (cases s) (simp add: verified_def)

lemma with_barrier_lifetime: "lifetime (snd (snd (with_barrier m s))) = lifetime (snd s)"
  by (cases s) (auto simp: with_barrier_def invalidate_readiness_def enter_failure_def Let_def split: option.splits sum.splits prod.splits)

interpretation expired: machine step_v3 "\<lambda>s. lifetime (snd s) = Some 0"
proof
  fix s :: "process \<times> boot_engine_v3" and op assume "lifetime (snd s) = Some 0"
  then show "lifetime (snd (fst (step_v3 s op))) = Some 0"
    by (cases op) (simp_all add: done_v3_def next_effect_v3_def accept_v3_def advance_v3_def begin_census_def consume_completion_def report_terminal_def
        wrapper_global_fault_def admission_guard_def verified_expired with_barrier_lifetime)
qed

lemma failed_not_admitted: "failed_v3 s \<or> lifetime (snd s) = Some 0 \<Longrightarrow> \<not> is_ok (fst (admission_guard w s))"
  unfolding admission_guard_def
  by (cases s; rule verified_cases [of "snd s" "admit_check w" "fst s"]) (auto simp: failed_v3_def admit_check_def fail_v3_def)

lemma ended_not_admitted:
  assumes "failed_v3 s \<or> lifetime (snd s) = Some 0"
  shows "\<not> is_ok (fst (admission_guard w (fst (run step_v3 s ops))))"
  using assms failure.inv_run [of s ops] expired.inv_run [of s ops] by (intro failed_not_admitted) blast

lemma verified_ends: "(\<And>p e. failed_v3 (snd (m (p, e)))) \<Longrightarrow> failed_v3 (snd (verified m s)) \<or> lifetime (snd (snd (verified m s))) = Some 0"
  by (cases s; rule verified_cases [of "snd s" m "fst s"]) auto

lemma terminal_ends:
  "failed_v3 (fst (step_v3 s (Report_terminal w ep ev))) \<or> lifetime (snd (fst (step_v3 s (Report_terminal w ep ev)))) = Some 0"
  "failed_v3 (fst (step_v3 s Global_fault)) \<or> lifetime (snd (fst (step_v3 s Global_fault))) = Some 0"
  unfolding step_v3.simps done_v3_def fst_conv report_terminal_def wrapper_global_fault_def
  by (rule verified_ends; auto split: option.splits prod.splits; simp add: failed_v3_def)+

section \<open>A healthy launch\<close>

text \<open>What a role that is alive answers.\<close>

definition answer :: "int \<Rightarrow> ReadinessRoleIdentityV3 \<Rightarrow> ReadinessDatagramV3" where
  "answer dl i = \<lparr>datagram_data = projr (case role_id i of
       Some r \<Rightarrow> encode_standalone_readiness_result_v3
         (StandaloneReadinessResultV3 r 1 CENSUS_GENERATION dl (role_pid i) (role_uid i) (role_gid i) (executable_sha256 i))
     | None \<Rightarrow> encode_frame \<lparr>header = gateway_header, payload = P_gateway_readiness_result
         (GatewayReadinessResultPayloadV3 CENSUS_GENERATION (role_pid i) (the (gateway_worker_count i)) 1 (executable_sha256 i) (the (gateway_cookie i)))\<rparr>),
     credentials = [\<lparr>cred_pid = role_pid i, cred_uid = role_uid i, cred_gid = role_gid i\<rparr>], ancillary_fds = []\<rparr>"

text \<open>The identity that a census expects at an index.\<close>

definition sound_identity :: "nat \<Rightarrow> ReadinessRoleIdentityV3 \<Rightarrow> bool" where
  "sound_identity k i \<longleftrightarrow> k < 4 \<and> (role i = ''gateway'' \<longleftrightarrow> k = 3) \<and> identity_error k i = None"

lemma sound_identityD:
  assumes "sound_identity k i"
  shows "role_id i = (if k < 3 then Some (int k + 1) else None)" "0 < role_pid i" "role_pid i < 2 ^ 32" "0 \<le> role_uid i" "role_uid i < 2 ^ 32"
    "0 \<le> role_gid i" "role_gid i < 2 ^ 32" "length (executable_sha256 i) = 32"
    "k = 3 \<Longrightarrow> \<exists>n c. gateway_worker_count i = Some n \<and> gateway_cookie i = Some c \<and> 0 \<le> n \<and> n \<le> 4 \<and> 0 < c \<and> c < 2 ^ 64"
  using assms by (auto simp: sound_identity_def identity_error_def Let_def split: if_splits)

lemma standalone_encodes:
  assumes "sound_identity k i" and "k < 3" and "0 < dl" and "dl < 2 ^ 64"
  shows "\<exists>w. encode_standalone_readiness_result_v3
    (StandaloneReadinessResultV3 (int k + 1) 1 CENSUS_GENERATION dl (role_pid i) (role_uid i) (role_gid i) (executable_sha256 i)) = Inr w"
  using sound_identityD [OF assms(1)] assms(2-) by (simp add: CENSUS_GENERATION_def uint_def exact_bytes_def res_simps)

lemma gateway_header_encodes: "\<exists>hb. encode_serving_wire_header_v3 gateway_header = Inr hb \<and> length hb = 72"
proof -
  have "\<exists>hb. encode_serving_wire_header_v3 gateway_header = Inr hb"
    by (simp add: encode_serving_wire_header_v3_def res_simps validate_header_Inr gateway_header_def HEADER_VERSION_V3_def HEADER_FLAGS_MASK_def
        FLAG_START_V3_def FLAG_END_V3_def FLAG_HAS_FD_V3_def)
  then show ?thesis using header_length by (auto simp: HEADER_SIZE_V3_def)
qed

lemma gateway_encodes:
  assumes "sound_identity 3 i" and "gateway_worker_count i = Some n" and "gateway_cookie i = Some c"
  shows "\<exists>w. encode_frame \<lparr>header = gateway_header, payload = P_gateway_readiness_result
    (GatewayReadinessResultPayloadV3 CENSUS_GENERATION (role_pid i) n 1 (executable_sha256 i) c)\<rparr> = Inr w \<and> length w = 128"
proof -
  let ?g = "GatewayReadinessResultPayloadV3 CENSUS_GENERATION (role_pid i) n 1 (executable_sha256 i) c"
  obtain b where b: "encode_gateway_readiness_result_payload_v3 ?g = Inr b" "length b = 56"
    using sound_identityD [OF assms(1)] assms(2-) by (auto simp: CENSUS_GENERATION_def uint_def exact_bytes_def res_simps byte_simps)
  obtain hb where hb: "encode_serving_wire_header_v3 gateway_header = Inr hb" "length hb = 72" using gateway_header_encodes by blast
  have "gateway_header\<lparr>version := HEADER_VERSION_V3\<rparr> = gateway_header" "chunk_length gateway_header = 56" by (simp_all add: gateway_header_def)
  with b hb show ?thesis
    by (intro exI [of _ "hb @ b"]) (auto simp: encode_frame_iff frame_text_def MAX_CHUNK_PAYLOAD_BYTES_V3_def intro!: exI [of _ b] exI [of _ hb])
qed

lemma gateway_frame_ok: "frame_ok \<lparr>header = gateway_header, payload = P_gateway_readiness_result g\<rparr>"
  by (simp add: frame_ok_def Let_def gateway_header_def validate_session_token_def has_flag_def fault_coherent_def
      FLAG_START_V3_def FLAG_END_V3_def FLAG_HAS_FD_V3_def)

text \<open>An answer is accepted.\<close>

lemma answer_ok:
  assumes s: "sound_identity k i" and d: "0 < deadline b" "deadline b < 2 ^ 64"
  shows "datagram_error i (answer (deadline b) i) = None" and "is_ok (result_suffix b i (datagram_data (answer (deadline b) i)))"
proof -
  note i = sound_identityD [OF s]
  show "datagram_error i (answer (deadline b) i) = None" using i by (simp add: datagram_error_def answer_def)
  show "is_ok (result_suffix b i (datagram_data (answer (deadline b) i)))"
  proof (cases "k < 3")
    case True
    from standalone_encodes [OF s True d] obtain w where w: "encode_standalone_readiness_result_v3
      (StandaloneReadinessResultV3 (int k + 1) 1 CENSUS_GENERATION (deadline b) (role_pid i) (role_uid i) (role_gid i) (executable_sha256 i)) = Inr w" by blast
    from standalone_result.decode_encode [OF TrueI w] w True i(1) show ?thesis by (simp add: answer_def result_suffix_def standalone_suffix_def)
  next
    case False
    with s have k: "k = 3" by (simp add: sound_identity_def)
    from i(9) [OF k] obtain n c where g: "gateway_worker_count i = Some n" "gateway_cookie i = Some c" by blast
    let ?fr = "\<lparr>header = gateway_header, payload = P_gateway_readiness_result (GatewayReadinessResultPayloadV3 CENSUS_GENERATION (role_pid i) n 1 (executable_sha256 i) c)\<rparr>"
    from gateway_encodes [OF _ g] s k obtain w where w: "encode_frame ?fr = Inr w" "length w = 128" by blast
    have "decode_serving_wire_frame_v3 w = Inr ?fr" using wire_frame.decode_encode [of ?fr w] w gateway_frame_ok by simp
    with w g k i(1) show ?thesis by (simp add: answer_def result_suffix_def gateway_suffix_def Let_def gateway_header_def)
  qed
qed

lemma probe_ok:
  assumes s: "sound_identity k i" and d: "0 < deadline b" "deadline b < 2 ^ 64"
  shows "is_ok (probe_of b i)"
proof (cases "k < 3")
  case True
  then show ?thesis using sound_identityD(1) [OF s] d by (simp add: probe_of_def CENSUS_GENERATION_def uint_def res_simps)
next
  case False
  have "to_be 8 n \<noteq> []" for n using length_to_be [of 8 n] by force
  with False show ?thesis using sound_identityD(1) [OF s] d
    by (simp add: probe_of_def CENSUS_GENERATION_def uint_def res_simps encode_serving_wire_frame_v3_def byte_simps MAX_CHUNK_PAYLOAD_BYTES_V3_def
      encode_serving_wire_header_v3_def validate_header_def exact_bytes_def HEADER_VERSION_V3_def HEADER_FLAGS_MASK_def FLAG_START_V3_def FLAG_END_V3_def FLAG_HAS_FD_V3_def)
qed

text \<open>A barrier on its way: so many roles have answered.\<close>

definition counting :: "ReadinessRoleIdentityV3 list \<Rightarrow> int \<Rightarrow> int \<Rightarrow> nat \<Rightarrow> barrier \<Rightarrow> bool" where
  "counting ids ep dl k b \<longleftrightarrow> identities b = ids \<and> epoch b = ep \<and> deadline b = dl \<and> result_index b = k \<and> \<not> probe_outstanding b \<and>
     barrier_state b = (if k = length ids then Candidate else Collecting)"

lemma counting_step:
  assumes c: "counting ids ep dl k b" and k: "k < length ids" and s: "sound_identity k (ids ! k)"
    and n: "0 < ep" "ep < 2 ^ 64" "0 \<le> now" "now < dl" "dl < 2 ^ 64"
  shows "\<exists>x b1. next_probe ep False now b = (Inr x, b1) \<and>
    (\<exists>b2. accept_result (role (ids ! k)) (answer dl (ids ! k)) ep False now b1 = (Inr (), b2) \<and> counting ids ep dl (Suc k) b2)"
proof -
  have d: "0 < deadline b" "deadline b < 2 ^ 64" using c n by (simp_all add: counting_def)
  from probe_ok [OF s d] obtain w where w: "probe_of b (ids ! k) = Inr w" by (auto simp: is_ok_iff)
  let ?b = "b\<lparr>probe_outstanding := True\<rparr>"
  have p: "next_probe ep False now b = (Inr \<lparr>probe_role = role (ids ! k), probe_data = w\<rparr>, ?b)"
    using c k n w by (simp add: next_probe_def guard_collecting_def exact_readiness_epoch_def counting_def)
  have d': "0 < deadline ?b" "deadline ?b < 2 ^ 64" "deadline ?b = dl" using c d by (simp_all add: counting_def)
  from answer_ok [OF s d'(1,2)] obtain sx where a: "datagram_error (ids ! k) (answer dl (ids ! k)) = None"
    "result_suffix ?b (ids ! k) (datagram_data (answer dl (ids ! k))) = Inr sx" by (auto simp: d'(3) is_ok_iff)
  have "\<exists>b2. accept_result (role (ids ! k)) (answer dl (ids ! k)) ep False now ?b = (Inr (), b2) \<and> counting ids ep dl (Suc k) b2"
    using c k n a by (simp add: accept_result_def guard_collecting_def exact_readiness_epoch_def counting_def Let_def)
  with p show ?thesis by blast
qed

section \<open>From the first step to admission\<close>

definition early :: "BootTransitionStateV3 \<Rightarrow> bool" where
  "early s \<longleftrightarrow> s \<in> set (take 20 NORMAL_STATES_V3)"

definition underway :: "LaunchRole list \<Rightarrow> object_id \<Rightarrow> BootTransitionStateV3 \<Rightarrow> process \<times> boot_engine_v3 \<Rightarrow> bool" where
  "underway roles t s x \<longleftrightarrow> (case x of (p, e) \<Rightarrow> state_v3 e = s \<and> pending_v3 e = None \<and> \<not> serving_effect_completed e \<and> lifetime e = None \<and>
     readiness_barrier e = None \<and> \<not> completion_consumed e \<and> launch_roles e = roles \<and>
     (early s \<longrightarrow> latch p = UNREQUESTED \<and> extend_transport_v3 e = None) \<and>
     (s = TPM_BOOT_TRANSPORT_CLOSED_V3 \<longrightarrow> latch p = LATCH_ACKNOWLEDGED \<and> extend_transport_v3 e = Some t))"

definition available :: "LaunchRole list \<Rightarrow> process \<times> boot_engine_v3 \<Rightarrow> bool" where
  "available roles x \<longleftrightarrow> (case x of (p, e) \<Rightarrow> state_v3 e = SERVING_AVAILABLE_V3 \<and> serving_effect_completed e \<and> lifetime e = None \<and>
     \<not> completion_consumed e \<and> launch_roles e = roles)"

lemma early_next: "s \<noteq> FAILED_NON_SERVING_V3 \<Longrightarrow> s \<noteq> SERVING_AVAILABLE_V3 \<Longrightarrow>
    (early (next_state_v3 s) \<longrightarrow> early s \<and> s \<noteq> PCR15_EXTENDED_V3) \<and> (next_state_v3 s = TPM_BOOT_TRANSPORT_CLOSED_V3 \<longleftrightarrow> s = PCR15_EXTENDED_V3)"
  by (cases s) (simp_all add: early_def next_state_v3_def NORMAL_STATES_V3_def)

lemma early_PCR15: "early PCR15_EXTENDED_V3" "\<not> early TPM_BOOT_TRANSPORT_CLOSED_V3" "step_expected PCR15_EXTENDED_V3 = Absent" "step_expected TPM_BOOT_TRANSPORT_CLOSED_V3 = Absent"
  by (simp_all add: early_def NORMAL_STATES_V3_def)

lemmas advance_v3_defs = advance_v3_def verified_def run_effect_v3_def next_effect_v3_def issue_effect_v3_def claim_transport_v3_def execute_v3_def
  accept_v3_def take_readback_v3_def readback_value_def check_step_v3_def obliging_def contract_v3_def claim_extend_transport_def
  record_extend_outcome_def record_extend_transport_closed_def log_effect_def Let_def

lemma advance_underway:
  assumes u: "underway roles t s x" and s: "s \<noteq> FAILED_NON_SERVING_V3" "s \<noteq> SERVING_AVAILABLE_V3"
  shows "underway roles t (next_state_v3 s) (snd (advance_v3 t obliging x))"
proof -
  obtain p e where x: "x = (p, e)" by (cases x)
  note n = early_next [OF s]
  consider "s = PCR15_EXTENDED_V3" | "s = TPM_BOOT_TRANSPORT_CLOSED_V3" | "s \<noteq> PCR15_EXTENDED_V3" "s \<noteq> TPM_BOOT_TRANSPORT_CLOSED_V3" by blast
  then show ?thesis
    using u s n by cases (auto simp: x underway_def advance_v3_defs early_PCR15 split: if_splits)
qed

lemma advance_available: "underway roles t SERVING_AVAILABLE_V3 x \<Longrightarrow> available roles (snd (advance_v3 t obliging x)) \<and> readiness_barrier (snd (snd (advance_v3 t obliging x))) = None"
  by (cases x) (auto simp: underway_def available_def advance_v3_defs next_state_v3_def split: if_splits)

lemma chain_nth: "i < 32 \<Longrightarrow> next_state_v3 (NORMAL_STATES_V3 ! i) = NORMAL_STATES_V3 ! Suc i \<and> NORMAL_STATES_V3 ! i \<noteq> FAILED_NON_SERVING_V3 \<and>
    NORMAL_STATES_V3 ! i \<noteq> SERVING_AVAILABLE_V3"
proof -
  assume i: "i < 32"
  have "map next_state_v3 (butlast NORMAL_STATES_V3) = tl NORMAL_STATES_V3" and "length NORMAL_STATES_V3 = 33"
    and "FAILED_NON_SERVING_V3 \<notin> set (butlast NORMAL_STATES_V3) \<and> SERVING_AVAILABLE_V3 \<notin> set (butlast NORMAL_STATES_V3)"
    by (simp_all add: next_state_v3_def NORMAL_STATES_V3_def)
  moreover have "NORMAL_STATES_V3 ! i \<in> set (butlast NORMAL_STATES_V3)"
    using i calculation(2) nth_mem [of i "butlast NORMAL_STATES_V3"] by (simp add: nth_butlast)
  moreover have "map next_state_v3 (butlast NORMAL_STATES_V3) ! i = next_state_v3 (NORMAL_STATES_V3 ! i)" "tl NORMAL_STATES_V3 ! i = NORMAL_STATES_V3 ! Suc i"
    using i calculation(2) by (simp_all add: nth_butlast nth_tl)
  ultimately show ?thesis by metis
qed

lemma boot_available:
  assumes "latch p = UNREQUESTED"
  shows "available roles (fst (run step_v3 (p, new_boot_engine_v3 m roles None) (replicate 33 (Advance_v3 t obliging)))) \<and>
    readiness_barrier (snd (fst (run step_v3 (p, new_boot_engine_v3 m roles None) (replicate 33 (Advance_v3 t obliging))))) = None"
proof -
  have "leads step_v3 (Advance_v3 t obliging) 32 (underway roles t (NORMAL_STATES_V3 ! 0)) (underway roles t (NORMAL_STATES_V3 ! 32))"
  proof (rule leads_chain, rule leads_one)
    fix i x assume "i < 32" and "underway roles t (NORMAL_STATES_V3 ! i) x"
    then show "underway roles t (NORMAL_STATES_V3 ! Suc i) (fst (step_v3 x (Advance_v3 t obliging)))"
      using chain_nth [of i] advance_underway [of roles t "NORMAL_STATES_V3 ! i" x] by (simp add: done_v3_def)
  qed
  moreover have "leads step_v3 (Advance_v3 t obliging) 1 (underway roles t (NORMAL_STATES_V3 ! 32)) (\<lambda>x. available roles x \<and> readiness_barrier (snd x) = None)"
    by (rule leads_one) (use advance_available in \<open>simp add: done_v3_def NORMAL_STATES_V3_def\<close>)
  ultimately have "leads step_v3 (Advance_v3 t obliging) (32 + 1) (underway roles t (NORMAL_STATES_V3 ! 0)) (\<lambda>x. available roles x \<and> readiness_barrier (snd x) = None)"
    by (rule leads_trans)
  moreover have "underway roles t (NORMAL_STATES_V3 ! 0) (p, new_boot_engine_v3 m roles None)"
    using assms by (simp add: underway_def new_boot_engine_v3_def NORMAL_STATES_V3_def)
  ultimately show ?thesis unfolding leads_def by simp
qed

text \<open>The census at the engine.\<close>

definition census_ops :: "int \<Rightarrow> int \<Rightarrow> int \<Rightarrow> ReadinessRoleIdentityV3 list \<Rightarrow> op_v3 list" where
  "census_ops ep dl now ids = concat (map (\<lambda>i. [Probe ep False now, Result (role i) (answer dl i) ep False now]) ids)"

definition taking_census :: "LaunchRole list \<Rightarrow> ReadinessRoleIdentityV3 list \<Rightarrow> int \<Rightarrow> int \<Rightarrow> nat \<Rightarrow> process \<times> boot_engine_v3 \<Rightarrow> bool" where
  "taking_census roles ids ep dl k s \<longleftrightarrow> available roles s \<and> (\<exists>b. readiness_barrier (snd s) = Some b \<and> counting ids ep dl k b)"

lemma census_run:
  assumes sound: "\<And>k. k < length ids \<Longrightarrow> sound_identity k (ids ! k)" and n: "0 < ep" "ep < 2 ^ 64" "0 \<le> now" "now < dl" "dl < 2 ^ 64"
    and t: "taking_census roles ids ep dl k s" and k: "k \<le> length ids"
  shows "taking_census roles ids ep dl (length ids) (fst (run step_v3 s (census_ops ep dl now (drop k ids))))"
  using t k
proof (induction "length ids - k" arbitrary: k s)
  case 0
  then show ?case by (simp add: census_ops_def)
next
  case (Suc j)
  then have k: "k < length ids" by simp
  obtain p e b where s: "s = (p, e)" "readiness_barrier e = Some b" "available roles (p, e)" "counting ids ep dl k b"
    using Suc.prems by (cases s) (auto simp: taking_census_def)
  from counting_step [OF s(4) k sound [OF k] n] obtain x b1 b2 where c: "next_probe ep False now b = (Inr x, b1)"
    "accept_result (role (ids ! k)) (answer dl (ids ! k)) ep False now b1 = (Inr (), b2)" "counting ids ep dl (Suc k) b2" by blast
  let ?s = "fst (step_v3 (fst (step_v3 s (Probe ep False now))) (Result (role (ids ! k)) (answer dl (ids ! k)) ep False now))"
  have "taking_census roles ids ep dl (Suc k) ?s" using s c by (simp add: taking_census_def done_v3_def with_barrier_def available_def)
  from Suc.hyps(1) [OF _ this] Suc.hyps(2) k
  have "taking_census roles ids ep dl (length ids) (fst (run step_v3 ?s (census_ops ep dl now (drop (Suc k) ids))))" by simp
  moreover have "census_ops ep dl now (drop k ids) =
      Probe ep False now # Result (role (ids ! k)) (answer dl (ids ! k)) ep False now # census_ops ep dl now (drop (Suc k) ids)"
    using k by (simp add: census_ops_def Cons_nth_drop_Suc [symmetric])
  ultimately show ?case by (simp del: run.simps(2) step_v3.simps)
qed

lemma consumed_admitted:
  assumes t: "taking_census roles ids ep dl (length ids) s" and n: "0 < ep" "ep < 2 ^ 64" and f: "c = fresh"
  shows "is_ok (fst (admission_guard w (fst (run step_v3 s [Complete_census fresh ep False, Consume_completion c ep False]))))"
proof -
  obtain p e b where s: "s = (p, e)" "readiness_barrier e = Some b" "available roles (p, e)" "counting ids ep dl (length ids) b"
    using t by (cases s) (auto simp: taking_census_def)
  then show ?thesis using n f
    by (simp add: counting_def available_def done_v3_def with_barrier_def complete_def exact_readiness_epoch_def consume_completion_def verified_def consume_def
        admission_guard_def admit_check_def valid_consumed_readiness_def)
qed

lemma census_sound:
  assumes r: "take 4 roles = [r0, r1, r2, r3]" and names: "map launch_role (take 4 roles) = ROLE_ORDER" and pids: "map fst pids = ROLE_ORDER"
    and ok: "\<forall>r \<in> set (take 4 roles). 0 \<le> launch_uid r \<and> launch_uid r < 2 ^ 32 \<and> 0 \<le> launch_gid r \<and> launch_gid r < 2 ^ 32 \<and> length (launch_source_digest r) = 32"
    and live: "list_all (\<lambda>(_, pid). 0 < pid \<and> pid < 2 ^ 32) pids" and w: "0 \<le> w" "w \<le> 4" and c: "0 < c" "c < 2 ^ 64"
  shows "\<forall>k < 4. sound_identity k (census_identities roles pids w c ! k)" and "length (census_identities roles pids w c) = 4"
    and "first_error 0 (census_identities roles pids w c) = None"
proof -
  obtain p0 p1 p2 p3 where p: "pids = [(''attestation-broker'', p0), (''inference'', p1), (''asr'', p2), (''gateway'', p3)]"
    using pids by (auto simp: ROLE_ORDER_def map_eq_Cons_conv)
  have ids: "census_identities roles pids w c =
    [\<lparr>role = ''attestation-broker'', role_id = Some 1, role_pid = p0, role_uid = launch_uid r0, role_gid = launch_gid r0, executable_sha256 = launch_source_digest r0, gateway_worker_count = None, gateway_cookie = None\<rparr>,
     \<lparr>role = ''inference'', role_id = Some 2, role_pid = p1, role_uid = launch_uid r1, role_gid = launch_gid r1, executable_sha256 = launch_source_digest r1, gateway_worker_count = None, gateway_cookie = None\<rparr>,
     \<lparr>role = ''asr'', role_id = Some 3, role_pid = p2, role_uid = launch_uid r2, role_gid = launch_gid r2, executable_sha256 = launch_source_digest r2, gateway_worker_count = None, gateway_cookie = None\<rparr>,
     \<lparr>role = ''gateway'', role_id = None, role_pid = p3, role_uid = launch_uid r3, role_gid = launch_gid r3, executable_sha256 = launch_source_digest r3, gateway_worker_count = Some w, gateway_cookie = Some c\<rparr>]"
    using names r by (simp add: census_identities_def p ROLE_ORDER_def upt_rec Let_def)
  show "length (census_identities roles pids w c) = 4" by (simp add: ids)
  have facts: "0 < p0" "p0 < 2 ^ 32" "0 < p1" "p1 < 2 ^ 32" "0 < p2" "p2 < 2 ^ 32" "0 < p3" "p3 < 2 ^ 32" using live by (simp_all add: p)
  show "\<forall>k < 4. sound_identity k (census_identities roles pids w c ! k)"
  proof (intro allI impI)
    fix k :: nat assume "k < 4"
    then consider "k = 0" | "k = 1" | "k = 2" | "k = 3" by linarith
    then show "sound_identity k (census_identities roles pids w c ! k)"
      unfolding ids using ok facts w c r by cases (simp_all add: sound_identity_def identity_error_def Let_def)
  qed
  show "first_error 0 (census_identities roles pids w c) = None"
    unfolding ids using ok facts w c r by (simp add: identity_error_def Let_def)
qed

text \<open>The calls of a launch that goes well: the steps, the census of the four roles, its completion and its consumption.\<close>

definition healthy_launch :: "object_id \<Rightarrow> object_id \<Rightarrow> int \<Rightarrow> int \<Rightarrow> int \<Rightarrow> LaunchRole list \<Rightarrow> (string \<times> int) list \<Rightarrow> int \<Rightarrow> int \<Rightarrow> op_v3 list" where
  "healthy_launch t fresh ep start_ns now roles pids workers cookie =
     replicate 33 (Advance_v3 t obliging) @ Begin_census ep start_ns pids workers cookie #
     census_ops ep (start_ns + DEADLINE_DELTA_NS) now (census_identities roles pids workers cookie) @
     [Complete_census fresh ep False, Consume_completion fresh ep False]"

lemma launch_admitted:
  assumes latch: "latch p = UNREQUESTED" and names: "map launch_role (take 4 roles) = ROLE_ORDER" and pids: "map fst pids = ROLE_ORDER"
    and ok: "\<forall>r \<in> set (take 4 roles). 0 \<le> launch_uid r \<and> launch_uid r < 2 ^ 32 \<and> 0 \<le> launch_gid r \<and> launch_gid r < 2 ^ 32 \<and> length (launch_source_digest r) = 32"
    and live: "list_all (\<lambda>(_, pid). 0 < pid \<and> pid < 2 ^ 32) pids" and w: "0 \<le> workers" "workers \<le> 4" and c: "0 < cookie" "cookie < 2 ^ 64"
    and ep: "0 < ep" "ep < 2 ^ 64" and start_ns: "0 \<le> start_ns" "start_ns \<le> 2 ^ 64 - 1 - DEADLINE_DELTA_NS" and now: "0 \<le> now" "now < start_ns + DEADLINE_DELTA_NS"
  shows "is_ok (fst (admission_guard wrapper (fst (run step_v3 (p, new_boot_engine_v3 m roles None)
    (healthy_launch t fresh ep start_ns now roles pids workers cookie)))))"
proof -
  let ?s = "fst (run step_v3 (p, new_boot_engine_v3 m roles None) (replicate 33 (Advance_v3 t obliging)))"
  let ?ids = "census_identities roles pids workers cookie" and ?dl = "start_ns + DEADLINE_DELTA_NS"
  obtain r0 r1 r2 r3 where r: "take 4 roles = [r0, r1, r2, r3]" using names by (auto simp: ROLE_ORDER_def map_eq_Cons_conv)
  note sound = census_sound [OF r names pids ok live w c]
  note av = boot_available [OF latch, of roles m t]
  obtain q e where s: "?s = (q, e)" by (cases ?s)
  have "\<exists>b. new_barrier ep start_ns ?ids = Inr b \<and> counting ?ids ep ?dl 0 b"
    using ep start_ns sound census_launched [OF pids names, of workers cookie] by (simp add: new_barrier_def counting_def launched_def ROLE_ORDER_def)
  then obtain b where b: "new_barrier ep start_ns ?ids = Inr b" "counting ?ids ep ?dl 0 b" by blast
  have t0: "taking_census roles ?ids ep ?dl 0 (fst (step_v3 ?s (Begin_census ep start_ns pids workers cookie)))"
    using av b names pids live by (simp add: s taking_census_def available_def done_v3_def begin_census_def verified_def start_census_def)
  have dl: "?dl < 2 ^ 64" using start_ns by simp
  have "taking_census roles ?ids ep ?dl (length ?ids) (fst (run step_v3 (fst (step_v3 ?s (Begin_census ep start_ns pids workers cookie))) (census_ops ep ?dl now (drop 0 ?ids))))"
    by (rule census_run) (use sound ep now dl t0 in \<open>simp_all del: step_v3.simps\<close>)
  from consumed_admitted [OF this ep refl, of wrapper fresh] show ?thesis
    by (simp add: healthy_launch_def run_append case_prod_unfold Let_def del: step_v3.simps run.simps(2))
qed

text \<open>What a healthy launch is: an unclaimed latch, the four roles launched under lawful identities, each alive, and a clock before the deadline.\<close>

definition healthy :: "process \<Rightarrow> LaunchRole list \<Rightarrow> (string \<times> int) list \<Rightarrow> int \<Rightarrow> int \<Rightarrow> int \<Rightarrow> int \<Rightarrow> int \<Rightarrow> bool" where
  "healthy p roles pids workers cookie ep start_ns now \<longleftrightarrow> latch p = UNREQUESTED \<and> map launch_role (take 4 roles) = ROLE_ORDER \<and> map fst pids = ROLE_ORDER \<and>
     (\<forall>r \<in> set (take 4 roles). 0 \<le> launch_uid r \<and> launch_uid r < 2 ^ 32 \<and> 0 \<le> launch_gid r \<and> launch_gid r < 2 ^ 32 \<and> length (launch_source_digest r) = 32) \<and>
     list_all (\<lambda>(_, pid). 0 < pid \<and> pid < 2 ^ 32) pids \<and> 0 \<le> workers \<and> workers \<le> 4 \<and> 0 < cookie \<and> cookie < 2 ^ 64 \<and>
     0 < ep \<and> ep < 2 ^ 64 \<and> 0 \<le> start_ns \<and> start_ns \<le> 2 ^ 64 - 1 - DEADLINE_DELTA_NS \<and> 0 \<le> now \<and> now < start_ns + DEADLINE_DELTA_NS"

definition sample_roles :: "LaunchRole list" where
  "sample_roles = map (\<lambda>r. \<lparr>launch_role = r, launch_uid = 1000, launch_gid = 1000, launch_source_digest = zeros 32\<rparr>) ROLE_ORDER"

definition sample_pids :: "(string \<times> int) list" where
  "sample_pids = zip ROLE_ORDER [101, 102, 103, 104]"

lemma sample_healthy: "healthy fresh_process sample_roles sample_pids 0 7 1 0 5"
  by (simp add: healthy_def sample_roles_def sample_pids_def ROLE_ORDER_def DEADLINE_DELTA_NS_def fresh_process_def)

lemma sample_admitted: "is_ok (fst (admission_guard w (fst (run step_v3 (fresh_process, new_boot_engine_v3 m sample_roles None)
    (healthy_launch t fresh 1 0 5 sample_roles sample_pids 0 7)))))"
  using sample_healthy by (intro launch_admitted) (simp_all add: healthy_def del: take_Suc_Cons)

text \<open>
  C29. A healthy launch is admitted: with an unclaimed latch, transports that report every step as the authority states
  it, and the four launched roles answering their probes before the deadline, the guard of serving admission passes.
\<close>

theorem healthy_launch_admitted:
  assumes "healthy p roles pids workers cookie ep start_ns now"
  shows "is_ok (fst (admission_guard wrapper (fst (run step_v3 (p, new_boot_engine_v3 m roles None)
    (healthy_launch t fresh ep start_ns now roles pids workers cookie)))))"
  using assms by (intro launch_admitted) (simp_all add: healthy_def)

theorem healthy_launch_admitted_witness:
  "healthy fresh_process sample_roles sample_pids 0 7 1 0 5 \<and>
   is_ok (fst (admission_guard False (fst (run step_v3 (fresh_process, new_boot_engine_v3 \<lparr>material_contract_sha256 = ''c'', material_measurement = zeros 48\<rparr> sample_roles None)
     (healthy_launch 1 2 1 0 5 sample_roles sample_pids 0 7)))))"
  using sample_healthy healthy_launch_admitted [OF sample_healthy] by blast

text \<open>
  C2. Admission needs the whole chain and the whole census: whatever was called on a version 3 engine, when the guard of
  serving admission passes, one value was accepted for each of the states, in order, each the one its step demands, and
  the consumed barrier counted the four launched roles, each by a datagram of the launched process that encodes its
  identity and arrived before the deadline; the completion carries the digest over these identities.
\<close>

theorem admission_needs_census:
  assumes "admission_guard w (fst (run step_v3 (p, new_boot_engine_v3 m roles n) ops)) = (Inr (), p', e)"
  shows "map fst (accepted_v3 e) = NORMAL_STATES_V3 \<and> (\<forall>(s, v) \<in> set (accepted_v3 e). demanded_v3 s v) \<and>
    (\<exists>b. readiness_barrier e = Some b \<and> launched roles (identities b) \<and> map fst (census b) = identities b \<and> completion_ok b \<and>
      (\<forall>(i, d, now) \<in> set (census b). attests (deadline b) i d \<and> 0 \<le> now \<and> now < deadline b))"
proof -
  obtain q f where r: "fst (run step_v3 (p, new_boot_engine_v3 m roles n) ops) = (q, f)" by (metis prod.collapse)
  have inv: "inv_v3 roles (q, f)" using chain.inv_run [OF inv_v3_new, of roles p m n ops] by (simp add: r)
  from assms obtain l b where s: "e = f\<lparr>lifetime := l\<rparr>" "state_v3 f = SERVING_AVAILABLE_V3" "serving_effect_completed f"
    "readiness_barrier f = Some b" "barrier_state b = Consumed" by (auto simp: r elim: admitted_state)
  from inv s have "barrier_inv b" and launched: "launched roles (identities b)" by (auto simp: inv_v3_def barrier_ok_def)
  note c = complete_census [OF this(1) disjI2 [OF s(5)]]
  from inv s have "map fst (accepted_v3 e) = NORMAL_STATES_V3" "\<forall>(s, v) \<in> set (accepted_v3 e). demanded_v3 s v"
    by (auto simp: inv_v3_def chain_ok_def visited_v3_def)
  moreover have "readiness_barrier e = Some b" using s by simp
  ultimately show ?thesis using c launched by blast
qed

theorem admission_needs_census_witness:
  "\<exists>p' e b. admission_guard False (fst (run step_v3 (fresh_process, new_boot_engine_v3 \<lparr>material_contract_sha256 = ''c'', material_measurement = zeros 48\<rparr> sample_roles None)
     (healthy_launch 1 2 1 0 5 sample_roles sample_pids 0 7))) = (Inr (), p', e) \<and>
   map fst (accepted_v3 e) = NORMAL_STATES_V3 \<and> readiness_barrier e = Some b \<and> launched sample_roles (identities b) \<and> map fst (census b) = identities b"
proof -
  let ?g = "admission_guard False (fst (run step_v3 (fresh_process, new_boot_engine_v3 \<lparr>material_contract_sha256 = ''c'', material_measurement = zeros 48\<rparr> sample_roles None)
     (healthy_launch 1 2 1 0 5 sample_roles sample_pids 0 7)))"
  obtain p' and e :: boot_engine_v3 where g: "?g = (Inr (), p', e)"
    using sample_admitted [of False "\<lparr>material_contract_sha256 = ''c'', material_measurement = zeros 48\<rparr>" 1 2] by (cases ?g) (auto simp: is_ok_iff)
  from admission_needs_census [OF g] g show ?thesis by blast
qed

text \<open>
  C8. A terminal event ends serving: after the controller reports a terminal transition, with a right or a wrong epoch,
  or a wrapper reports a fault, no sequence of calls makes the guard of serving admission pass again.
\<close>

theorem terminal_preempts_admission:
  "\<not> is_ok (fst (admission_guard w (fst (run step_v3 (fst (step_v3 s (Report_terminal w' ep ev))) ops)))) \<and>
   \<not> is_ok (fst (admission_guard w (fst (run step_v3 (fst (step_v3 s Global_fault)) ops))))"
  by (intro conjI ended_not_admitted terminal_ends)

end
