(* ===== verification/Failure_Controller.thy ===== *)
theory Failure_Controller
  imports Boot_Admission
begin

text \<open>
  \<open>FailureControllerV3\<close> of \<open>conf_proc_spp_boot_v3.py\<close>: the diagnostic, three attempts to close the
  serving network, the power-off and the fail-stop cycles, and how a failed version 3 engine is
  handed to it. The actions a controller had executed are recorded in order.
\<close>

section \<open>Data\<close>

datatype FailureStageV3 = Stage_DIAGNOSTIC | Stage_CLOSE_SERVING_NETWORK | Stage_POWEROFF_REQUESTED | Stage_FAIL_STOP

datatype failure_observation = FailureControllerReadbackV3 string string bool | Other_observation

text \<open>What a transport does with an effect: \<open>PoweroffAckedV3\<close> is raised, something else is raised, or an observation returned.\<close>

datatype failure_reply = Raises_acked | Raises | Returns failure_observation

datatype failure_error = FailureProtocol string | PoweroffAckedV3

definition FAILURE_DIAGNOSTIC_TOKENS_V3 :: "string list" where
  "FAILURE_DIAGNOSTIC_TOKENS_V3 = [''authority'', ''binding'', ''pid1'', ''adapter'', ''root_transition'', ''runtime_authority'', ''serving_integrity'']"

definition FAILURE_LATE_CODES_V3 :: "string list" where
  "FAILURE_LATE_CODES_V3 = [''network_close'', ''poweroff_returned'']"

record failure_controller =
  controller_token :: string
  stage :: FailureStageV3
  diagnostic_rendered :: bool
  network_close_attempts :: nat
  network_close_confirmed :: bool
  poweroff_requested :: bool
  late_code :: "string option"
  actions :: "string list"

type_synonym 'a failure_step = "failure_controller \<Rightarrow> (failure_error + 'a) \<times> failure_controller"

definition new_failure_controller :: "string \<Rightarrow> failure_error + failure_controller" where
  "new_failure_controller token =
     (if token \<notin> set FAILURE_DIAGNOSTIC_TOKENS_V3 then Inl (FailureProtocol ''unknown diagnostic token'')
      else Inr \<lparr>controller_token = token, stage = Stage_DIAGNOSTIC, diagnostic_rendered = False, network_close_attempts = 0,
        network_close_confirmed = False, poweroff_requested = False, late_code = None, actions = []\<rparr>)"

section \<open>Operations\<close>

definition set_late_code :: "string \<Rightarrow> unit failure_step" where
  "set_late_code code c =
     (if \<not> diagnostic_rendered c then (Inl (FailureProtocol ''late code precedes diagnostic''), c)
      else if code \<notin> set FAILURE_LATE_CODES_V3 then (Inl (FailureProtocol ''unknown late failure code''), c)
      else (Inr (), c\<lparr>late_code := Some code\<rparr>))"

definition render_diagnostic :: "string failure_step" where
  "render_diagnostic c =
     (if stage c \<noteq> Stage_DIAGNOSTIC \<or> diagnostic_rendered c then (Inl (FailureProtocol ''diagnostic is unavailable''), c)
      else (Inr (''conf-proc-spp-boot-v3: '' @ controller_token c), c\<lparr>diagnostic_rendered := True, stage := Stage_CLOSE_SERVING_NETWORK\<rparr>))"

definition confirmed_readback :: "failure_observation \<Rightarrow> string \<Rightarrow> bool" where
  "confirmed_readback ob action = (case ob of
     FailureControllerReadbackV3 k a confirmed \<Rightarrow> k = ''failure-controller/v3'' \<and> a = action \<and> confirmed
   | Other_observation \<Rightarrow> False)"

definition best_effort :: "failure_reply \<Rightarrow> string \<Rightarrow> failure_controller \<Rightarrow> bool \<times> failure_controller" where
  "best_effort reply action c =
     (case reply of Returns ob \<Rightarrow> confirmed_readback ob action | _ \<Rightarrow> False, c\<lparr>actions := actions c @ [action]\<rparr>)"

definition attempt_network_close :: "failure_reply \<Rightarrow> bool failure_step" where
  "attempt_network_close reply c =
     (if stage c \<noteq> Stage_CLOSE_SERVING_NETWORK then (Inl (FailureProtocol ''network close is unavailable''), c)
      else if network_close_attempts c \<ge> 3 then (Inl (FailureProtocol ''network close attempts are exhausted''), c)
      else case best_effort reply ''close_serving_network'' (c\<lparr>network_close_attempts := network_close_attempts c + 1\<rparr>) of (confirmed, c1) \<Rightarrow>
        let c2 = c1\<lparr>network_close_confirmed := network_close_confirmed c1 \<or> confirmed\<rparr> in
        case (if confirmed then (Inr (), c2) else set_late_code ''network_close'' c2) of
          (Inl x, c3) \<Rightarrow> (Inl x, c3)
        | (Inr _, c3) \<Rightarrow> (Inr confirmed, if network_close_attempts c3 = 3 then c3\<lparr>stage := Stage_POWEROFF_REQUESTED\<rparr> else c3))"

definition dispatch_poweroff_attempt :: "failure_reply \<Rightarrow> unit failure_step" where
  "dispatch_poweroff_attempt reply c =
     (let c1 = c\<lparr>poweroff_requested := True, actions := actions c @ [''poweroff'']\<rparr> in
      if reply = Raises_acked then (Inl PoweroffAckedV3, c1)
      else case set_late_code ''poweroff_returned'' c1 of
          (Inl x, c2) \<Rightarrow> (Inl x, c2)
        | (Inr _, c2) \<Rightarrow> (Inr (), c2\<lparr>stage := Stage_FAIL_STOP\<rparr>))"

definition dispatch_poweroff :: "failure_reply \<Rightarrow> unit failure_step" where
  "dispatch_poweroff reply c =
     (if stage c \<noteq> Stage_POWEROFF_REQUESTED then (Inl (FailureProtocol ''poweroff dispatch is unavailable''), c)
      else dispatch_poweroff_attempt reply c)"

definition fail_stop_cycle :: "failure_reply \<Rightarrow> failure_reply \<Rightarrow> failure_reply \<Rightarrow> unit failure_step" where
  "fail_stop_cycle close deny poweroff c =
     (if stage c \<noteq> Stage_FAIL_STOP then (Inl (FailureProtocol ''fail-stop cycle is unavailable''), c)
      else let c1 = snd (best_effort close ''close_serving_network'' c); c2 = snd (best_effort deny ''deny_all'' c1) in
        case dispatch_poweroff_attempt poweroff c2 of
          (Inl x, c3) \<Rightarrow> (Inl x, c3)
        | (Inr _, c3) \<Rightarrow> (Inr (), c3\<lparr>stage := Stage_FAIL_STOP\<rparr>))"

datatype failure_op = Render | Attempt_close failure_reply | Dispatch failure_reply | Cycle failure_reply failure_reply failure_reply

fun failure_controller_step :: "failure_controller \<Rightarrow> failure_op \<Rightarrow> failure_controller \<times> bool" where
  "failure_controller_step c Render = (snd (render_diagnostic c), is_ok (fst (render_diagnostic c)))"
| "failure_controller_step c (Attempt_close r) = (snd (attempt_network_close r c), is_ok (fst (attempt_network_close r c)))"
| "failure_controller_step c (Dispatch r) = (snd (dispatch_poweroff r c), is_ok (fst (dispatch_poweroff r c)))"
| "failure_controller_step c (Cycle a b d) = (snd (fail_stop_cycle a b d c), is_ok (fst (fail_stop_cycle a b d c)))"

section \<open>The order of the actions\<close>

definition cycles :: "nat \<Rightarrow> string list" where
  "cycles m = concat (replicate m [''close_serving_network'', ''deny_all'', ''poweroff''])"

lemma cycles_Suc: "cycles (Suc m) = cycles m @ [''close_serving_network'', ''deny_all'', ''poweroff'']"
  by (simp add: cycles_def flip: replicate_append_same)

definition ordered_actions :: "failure_controller \<Rightarrow> bool" where
  "ordered_actions c \<longleftrightarrow> (case stage c of
     Stage_DIAGNOSTIC \<Rightarrow> \<not> diagnostic_rendered c \<and> network_close_attempts c = 0 \<and> actions c = []
   | Stage_CLOSE_SERVING_NETWORK \<Rightarrow> diagnostic_rendered c \<and> network_close_attempts c < 3 \<and>
       actions c = replicate (network_close_attempts c) ''close_serving_network''
   | Stage_POWEROFF_REQUESTED \<Rightarrow> diagnostic_rendered c \<and> network_close_attempts c = 3 \<and>
       (\<exists>n. actions c = replicate 3 ''close_serving_network'' @ replicate n ''poweroff'')
   | Stage_FAIL_STOP \<Rightarrow> diagnostic_rendered c \<and> network_close_attempts c = 3 \<and>
       (\<exists>n m. actions c = replicate 3 ''close_serving_network'' @ replicate (Suc n) ''poweroff'' @ cycles m))"

lemma ordered_poweroff:
  assumes "diagnostic_rendered c" and "network_close_attempts c = 3" and "actions c = replicate 3 ''close_serving_network'' @ replicate n ''poweroff''"
    and "stage c = Stage_POWEROFF_REQUESTED"
  shows "ordered_actions (snd (dispatch_poweroff_attempt r c))"
proof -
  have "actions c @ [''poweroff''] = replicate 3 ''close_serving_network'' @ replicate (Suc n) ''poweroff'' @ cycles 0"
    using assms(3) by (simp add: cycles_def replicate_append_same)
  moreover from this have "actions c @ [''poweroff''] = replicate 3 ''close_serving_network'' @ replicate (Suc n) ''poweroff''" by (simp add: cycles_def)
  ultimately show ?thesis using assms(1,2,4)
    by (cases "r = Raises_acked")
      (simp_all add: ordered_actions_def dispatch_poweroff_attempt_def Let_def set_late_code_def FAILURE_LATE_CODES_V3_def del: replicate_Suc, blast+)
qed

interpretation failure_controller: machine failure_controller_step ordered_actions
proof
  fix c op assume inv: "ordered_actions c"
  show "ordered_actions (fst (failure_controller_step c op))"
  proof (cases op)
    case Render
    then show ?thesis using inv by (cases "stage c") (auto simp: render_diagnostic_def ordered_actions_def)
  next
    case (Attempt_close r)
    have "actions c @ [''close_serving_network''] = replicate (Suc (network_close_attempts c)) ''close_serving_network''" if "stage c = Stage_CLOSE_SERVING_NETWORK"
      using inv that by (simp add: ordered_actions_def replicate_append_same)
    then show ?thesis using inv Attempt_close
      by (cases "stage c")
        (auto simp: attempt_network_close_def best_effort_def Let_def set_late_code_def FAILURE_LATE_CODES_V3_def ordered_actions_def numeral_3_eq_3 intro!: exI [of _ 0])
  next
    case (Dispatch r)
    then show ?thesis using inv ordered_poweroff [of c _ r] by (cases "stage c") (auto simp: dispatch_poweroff_def ordered_actions_def [of c])
  next
    case (Cycle a b d)
    show ?thesis
    proof (cases "stage c = Stage_FAIL_STOP")
      case True
      with inv obtain n m where l: "diagnostic_rendered c" "network_close_attempts c = 3"
        "actions c = replicate 3 ''close_serving_network'' @ replicate (Suc n) ''poweroff'' @ cycles m" by (auto simp: ordered_actions_def)
      then have "actions c @ [''close_serving_network'', ''deny_all'', ''poweroff''] = replicate 3 ''close_serving_network'' @ replicate (Suc n) ''poweroff'' @ cycles (Suc m)"
        by (simp add: cycles_Suc)
      with True l(1,2) Cycle show ?thesis
        by (auto simp: fail_stop_cycle_def best_effort_def dispatch_poweroff_attempt_def Let_def set_late_code_def FAILURE_LATE_CODES_V3_def ordered_actions_def)
    qed (use inv Cycle in \<open>simp add: fail_stop_cycle_def\<close>)
  qed
qed

section \<open>From a failed engine to power-off\<close>

text \<open>A failed engine carries a token of the controller.\<close>

definition token_ok :: "process \<times> boot_engine_v3 \<Rightarrow> bool" where
  "token_ok s \<longleftrightarrow> (state_v3 (snd s) = FAILED_NON_SERVING_V3 \<longrightarrow> (\<exists>t \<in> set FAILURE_DIAGNOSTIC_TOKENS_V3. diagnostic_token (snd s) = Some t))"

lemma token_of_state: "s \<noteq> FAILED_NON_SERVING_V3 \<Longrightarrow> \<exists>t \<in> set FAILURE_DIAGNOSTIC_TOKENS_V3. diagnostic_token_for_state s = Some t"
  by (cases s) (simp_all add: FAILURE_DIAGNOSTIC_TOKENS_V3_def)

lemma token_enter: "token_ok (p, e) \<Longrightarrow> token_ok (p', enter_failure e)"
  using token_of_state [of "state_v3 e"] by (auto simp: token_ok_def enter_failure_def)

lemma token_fail_engine: "token_ok (p, e) \<Longrightarrow> token_ok (p', fail_engine_v3 e)" "token_ok (p, e) \<Longrightarrow> token_ok (p', invalidate_readiness e)"
  using token_enter [of p e] by (auto simp: token_ok_def fail_engine_v3_def invalidate_readiness_def terminate_barrier_def split: option.splits)

lemma token_fail: "token_ok s \<Longrightarrow> token_ok (snd (fail_v3 code m s))"
  by (cases s) (simp add: fail_v3_def token_fail_engine)

lemma token_updates [simp]: "token_ok (p, e\<lparr>lifetime := l\<rparr>) = token_ok (p, e)" "token_ok (p, e\<lparr>pending_v3 := q\<rparr>) = token_ok (p, e)"
  "token_ok (p, e\<lparr>extend_transport_v3 := t\<rparr>) = token_ok (p, e)" "token_ok (p, e\<lparr>extend_issued_v3 := y\<rparr>) = token_ok (p, e)"
  "token_ok (p, e\<lparr>readiness_barrier := b\<rparr>) = token_ok (p, e)" "token_ok (p, e\<lparr>completion_consumed := y\<rparr>) = token_ok (p, e)"
  "token_ok (p, e\<lparr>consumed_completion := c\<rparr>) = token_ok (p, e)" "token_ok (p, e\<lparr>serving_eligible := y\<rparr>) = token_ok (p, e)"
  "token_ok (p, e\<lparr>accepted_v3 := a\<rparr>) = token_ok (p, e)" "token_ok (p, e\<lparr>serving_effect_completed := y\<rparr>) = token_ok (p, e)"
  by (simp_all add: token_ok_def)

lemma token_process: "token_ok (p, e) \<Longrightarrow> token_ok (p', e)"
  by (simp add: token_ok_def)

lemma token_with_barrier: "token_ok s \<Longrightarrow> token_ok (snd (with_barrier m s))"
  by (cases s) (auto simp: with_barrier_def Let_def intro: token_fail_engine(2) split: option.splits sum.splits prod.splits)

lemma token_next: "keeps_v3 token_ok next_effect_v3"
  unfolding next_effect_v3_def
  by (rule keeps_verified) (auto simp: keeps_v3_def issue_effect_v3_def Let_def intro: token_fail token_process split: option.splits prod.splits bool.splits)

lemma token_check: "token_ok (p, e) \<Longrightarrow> token_ok (snd (check_step_v3 v (p, e)))"
  by (auto simp: check_step_v3_def intro: token_fail token_process split: authority_value.splits prod.splits sum.splits)

lemma token_accept: "keeps_v3 token_ok (accept_v3 ob)"
  unfolding accept_v3_def
proof (rule keeps_verified)
  have "token_ok (p', e'\<lparr>state_v3 := next_state_v3 s, accepted_v3 := a, serving_effect_completed := y\<rparr>)" if "s \<noteq> FAILED_NON_SERVING_V3" for p' e' s a y
    using that next_state_chain [of s] by (cases "s = SERVING_AVAILABLE_V3") (auto simp: token_ok_def next_state_v3_def)
  note moved = this
  have "token_ok (snd (take_readback_v3 ob (p, e)))" if t: "token_ok (p, e)" for p e
  proof -
    have "token_ok (snd (check_step_v3 v (p, e\<lparr>pending_v3 := None\<rparr>)))" for v using t by (intro token_check) simp
    then show ?thesis using t moved [of "state_v3 e"]
      by (auto simp: take_readback_v3_def Let_def intro: token_fail split: option.splits prod.splits sum.splits) (metis snd_conv)+
  qed
  then show "keeps_v3 token_ok (take_readback_v3 ob)" by (simp add: keeps_v3_def)
qed simp

lemma token_execute: "token_ok (p, e) \<Longrightarrow> token_ok (snd (execute_v3 x ef (p, e)))"
proof -
  assume t: "token_ok (p, e)"
  then have l: "token_ok (log_effect ef p, e)" by (rule token_process)
  have "keeps_v3 token_ok (verified (accept_v3 ob))" for ob by (rule keeps_verified [OF token_accept]) simp
  from keeps_v3D [OF this l] keeps_v3D [OF token_accept l] l show ?thesis
    by (auto simp: execute_v3_def Let_def intro: token_fail split: option.splits)
qed

lemma token_advance: "keeps_v3 token_ok (advance_v3 t x)"
  unfolding advance_v3_def
proof (rule keeps_verified)
  have "token_ok (snd (run_effect_v3 t x s))" if "token_ok s" for s
    using keeps_v3D [OF token_next that] unfolding run_effect_v3_def
    by (auto intro!: token_fail token_execute simp: claim_transport_v3_def split: prod.splits sum.splits option.splits if_splits)
  then show "keeps_v3 token_ok (run_effect_v3 t x)" by (simp add: keeps_v3_def)
qed simp

lemma token_consumed:
  assumes "token_ok (p, e)"
  shows "token_ok (snd (case with_barrier m (p, e) of
       (Inl _, s') \<Rightarrow> fail_v3 code msg s'
     | (Inr _, p', e') \<Rightarrow> (Inr (), p', e'\<lparr>completion_consumed := True, consumed_completion := Some c, serving_eligible := True\<rparr>)))"
  using token_with_barrier [OF assms, of m] by (cases "with_barrier m (p, e)") (auto intro: token_fail split: sum.splits)

lemma token_reported: "token_ok (p, e) \<Longrightarrow> token_ok (snd (case with_barrier m (p, e) of (_, s') \<Rightarrow> fail_v3 code msg s'))"
  using token_with_barrier [of "(p, e)" m] by (cases "with_barrier m (p, e)") (auto intro: token_fail)

interpretation token: machine step_v3 token_ok
proof
  fix s op assume f: "token_ok s"
  have "keeps_v3 token_ok (begin_census a1 a2 a3 a4 a5)" for a1 a2 a3 a4 a5
    unfolding begin_census_def by (rule keeps_verified) (auto simp: keeps_v3_def start_census_def intro: token_fail split: sum.splits)
  moreover have "keeps_v3 token_ok (consume_completion c ep t)" for c ep t
    unfolding consume_completion_def by (rule keeps_verified) (auto simp: keeps_v3_def intro: token_fail token_consumed)
  moreover have "keeps_v3 token_ok (report_terminal w ep ev)" for w ep ev
    unfolding report_terminal_def
    by (rule keeps_verified) (auto simp: keeps_v3_def intro: token_fail token_fail_engine token_reported split: option.splits)
  moreover have "keeps_v3 token_ok wrapper_global_fault"
    unfolding wrapper_global_fault_def by (rule keeps_verified) (auto simp: keeps_v3_def intro: token_fail_engine)
  moreover have "keeps_v3 token_ok (admission_guard w)" for w
    unfolding admission_guard_def by (rule keeps_verified) (auto simp: keeps_v3_def admit_check_def intro: token_fail)
  ultimately show "token_ok (fst (step_v3 s op))"
    using f token_next token_accept token_advance
    by (cases op) (simp_all add: done_v3_def token_with_barrier keeps_v3D [of token_ok])
qed

text \<open>
  C31. The order of a failure: whatever is called on a failure controller and whatever its transports do, the actions it has
  executed are a prefix of three closings of the serving network, or these and then power-offs, followed by whole
  fail-stop cycles (close, deny all, power off); nothing is executed before the diagnostic was rendered.
\<close>

theorem failure_actions_ordered:
  assumes "new_failure_controller token = Inr c" and "fst (run failure_controller_step c ops) = d"
  shows "((\<exists>k \<le> 3. actions d = replicate k ''close_serving_network'') \<or>
      (\<exists>n m. actions d = replicate 3 ''close_serving_network'' @ replicate (Suc n) ''poweroff'' @ cycles m)) \<and>
    (actions d \<noteq> [] \<longrightarrow> diagnostic_rendered d)"
proof -
  have "ordered_actions c" using assms(1) by (auto simp: new_failure_controller_def ordered_actions_def split: if_splits)
  from failure_controller.inv_run [OF this, of ops] have d: "ordered_actions d" by (simp add: assms(2))
  show ?thesis
  proof (cases "stage d")
    case Stage_POWEROFF_REQUESTED
    with d obtain n where n: "diagnostic_rendered d" "actions d = replicate 3 ''close_serving_network'' @ replicate n ''poweroff''" by (auto simp: ordered_actions_def)
    show ?thesis
    proof (cases n)
      case 0
      with n show ?thesis by (intro conjI disjI1 exI [of _ 3]) simp_all
    next
      case (Suc k)
      with n show ?thesis by (intro conjI disjI2 exI [of _ k] exI [of _ 0]) (simp_all add: cycles_def)
    qed
  qed (use d in \<open>auto simp: ordered_actions_def intro: less_imp_le\<close>)
qed

theorem failure_actions_ordered_witness:
  "\<exists>c d. new_failure_controller ''adapter'' = Inr c \<and> fst (run failure_controller_step c [Render, Attempt_close Raises]) = d \<and>
     actions d = [''close_serving_network''] \<and> diagnostic_rendered d"
proof -
  obtain c where c: "new_failure_controller ''adapter'' = Inr c" by (simp add: new_failure_controller_def FAILURE_DIAGNOSTIC_TOKENS_V3_def)
  let ?d = "fst (run failure_controller_step c [Render, Attempt_close Raises])"
  have "actions ?d = [''close_serving_network'']" using c
    by (auto simp: new_failure_controller_def render_diagnostic_def attempt_network_close_def best_effort_def set_late_code_def FAILURE_LATE_CODES_V3_def split: if_splits)
  with failure_actions_ordered [OF c, of "[Render, Attempt_close Raises]" ?d] c show ?thesis by auto
qed

lemma close_step:
  assumes "stage c = Stage_CLOSE_SERVING_NETWORK" and "diagnostic_rendered c" and "network_close_attempts c < 3"
  shows "let d = snd (attempt_network_close r c) in diagnostic_rendered d \<and> network_close_attempts d = Suc (network_close_attempts c) \<and>
    actions d = actions c @ [''close_serving_network''] \<and>
    stage d = (if network_close_attempts c = 2 then Stage_POWEROFF_REQUESTED else Stage_CLOSE_SERVING_NETWORK)"
  using assms by (auto simp: attempt_network_close_def best_effort_def set_late_code_def FAILURE_LATE_CODES_V3_def Let_def)

lemma poweroff_step:
  assumes "stage c = Stage_POWEROFF_REQUESTED" and "diagnostic_rendered c"
  shows "let d = snd (dispatch_poweroff r c) in diagnostic_rendered d \<and> actions d = actions c @ [''poweroff''] \<and> (r \<noteq> Raises_acked \<longrightarrow> stage d = Stage_FAIL_STOP)"
  using assms by (auto simp: dispatch_poweroff_def dispatch_poweroff_attempt_def set_late_code_def FAILURE_LATE_CODES_V3_def Let_def)

lemma protocol_runs:
  assumes "new_failure_controller token = Inr c"
  shows "let d = fst (run failure_controller_step c [Render, Attempt_close r1, Attempt_close r2, Attempt_close r3, Dispatch r4]) in
      diagnostic_rendered d \<and> actions d = [''close_serving_network'', ''close_serving_network'', ''close_serving_network'', ''poweroff''] \<and>
      (r4 \<noteq> Raises_acked \<longrightarrow> stage d = Stage_FAIL_STOP)"
proof -
  let ?c0 = "snd (render_diagnostic c)"
  let ?c1 = "snd (attempt_network_close r1 ?c0)"
  let ?c2 = "snd (attempt_network_close r2 ?c1)"
  let ?c3 = "snd (attempt_network_close r3 ?c2)"
  have 0: "stage ?c0 = Stage_CLOSE_SERVING_NETWORK" "diagnostic_rendered ?c0" "network_close_attempts ?c0 = 0" "actions ?c0 = []"
    using assms by (auto simp: new_failure_controller_def render_diagnostic_def split: if_splits)
  have 1: "stage ?c1 = Stage_CLOSE_SERVING_NETWORK" "diagnostic_rendered ?c1" "network_close_attempts ?c1 = 1" "actions ?c1 = [''close_serving_network'']"
    using close_step [of ?c0 r1] 0 by (simp_all add: Let_def)
  have 2: "stage ?c2 = Stage_CLOSE_SERVING_NETWORK" "diagnostic_rendered ?c2" "network_close_attempts ?c2 = 2"
    "actions ?c2 = [''close_serving_network'', ''close_serving_network'']"
    using close_step [of ?c1 r2] 1 by (simp_all add: Let_def)
  have 3: "stage ?c3 = Stage_POWEROFF_REQUESTED" "diagnostic_rendered ?c3" "actions ?c3 = [''close_serving_network'', ''close_serving_network'', ''close_serving_network'']"
    using close_step [of ?c2 r3] 2 by (simp_all add: Let_def)
  show ?thesis using poweroff_step [of ?c3 r4] 3 by (simp add: Let_def)
qed

text \<open>
  C30. A failed boot powers off: whatever was called on a version 3 engine, once it has failed its diagnostic token is one that
  the failure controller takes, and whatever the transports do, the diagnostic, three attempts to close the network and
  a power-off are executed, in this order; a power-off that returns leaves the controller in its fail-stop stage.
\<close>

theorem failed_engine_powers_off:
  assumes "fst (run step_v3 (p, new_boot_engine_v3 m roles n) ops) = (q, e)" and "state_v3 e = FAILED_NON_SERVING_V3"
  shows "\<exists>token c. diagnostic_token e = Some token \<and> new_failure_controller token = Inr c \<and> (\<forall>r1 r2 r3 r4.
    let d = fst (run failure_controller_step c [Render, Attempt_close r1, Attempt_close r2, Attempt_close r3, Dispatch r4]) in
      diagnostic_rendered d \<and> actions d = [''close_serving_network'', ''close_serving_network'', ''close_serving_network'', ''poweroff''] \<and>
      (r4 \<noteq> Raises_acked \<longrightarrow> stage d = Stage_FAIL_STOP))"
proof -
  have "token_ok (p, new_boot_engine_v3 m roles n)" by (simp add: token_ok_def new_boot_engine_v3_def)
  from token.inv_run [OF this, of ops] assms obtain token where t: "token \<in> set FAILURE_DIAGNOSTIC_TOKENS_V3" "diagnostic_token e = Some token"
    by (auto simp: token_ok_def)
  then obtain c where c: "new_failure_controller token = Inr c" by (simp add: new_failure_controller_def)
  from t(2) c protocol_runs [OF c] show ?thesis by blast
qed

theorem failed_engine_powers_off_witness:
  "\<exists>q e token c. fst (run step_v3 (fresh_process, new_boot_engine_v3 \<lparr>material_contract_sha256 = ''c'', material_measurement = zeros 48\<rparr> [] None) [Global_fault]) = (q, e) \<and>
     state_v3 e = FAILED_NON_SERVING_V3 \<and> diagnostic_token e = Some token \<and> new_failure_controller token = Inr c \<and>
     actions (fst (run failure_controller_step c [Render, Attempt_close Raises, Attempt_close Raises, Attempt_close Raises, Dispatch Raises])) =
       [''close_serving_network'', ''close_serving_network'', ''close_serving_network'', ''poweroff'']"
proof -
  let ?m = "\<lparr>material_contract_sha256 = ''c'', material_measurement = zeros 48\<rparr>"
  obtain q and e :: boot_engine_v3 where r: "fst (run step_v3 (fresh_process, new_boot_engine_v3 ?m [] None) [Global_fault]) = (q, e)" by (metis prod.collapse)
  then have f: "state_v3 e = FAILED_NON_SERVING_V3" by (auto simp: done_v3_def wrapper_global_fault_def verified_def new_boot_engine_v3_def)
  from failed_engine_powers_off [OF r f] r f show ?thesis unfolding Let_def by blast
qed

end
