(* ===== verification/Diag_Export.thy ===== *)
theory Diag_Export
  imports Struct_Pack Sha256 Unicode
begin

text \<open>
  The evidence of a diagnostic run: \<open>conf_proc_spp_diag_export.py\<close> (\<open>build_export_stream\<close>,
  \<open>parse_export_stream\<close>) and the failure terminal of \<open>conf_proc_spp_diag_failure_terminal_reasons.py\<close>.
  \<open>unicodedata.normalize("NFC", _)\<close> is the parameter \<open>nfc\<close>; all that is used of it is that ASCII text
  is normalized.
\<close>

section \<open>The failure terminal\<close>

definition REASON_CODES :: "(string \<times> nat) list" where
  "REASON_CODES = [(''SPPFLR1_INPUT'', 1), (''SPPFLR1_ROOT'', 2), (''SPPFLR1_BINDING'', 3), (''SPPFLR1_POLICY'', 4), (''SPPFLR1_TRACE'', 5),
     (''SPPFLR1_CHILD'', 6), (''SPPFLR1_GPU'', 7), (''SPPFLR1_TPM'', 8), (''SPPFLR1_IMA'', 9), (''SPPFLR1_EXPORT'', 10)]"

definition by_code :: "(nat \<times> string) list" where
  "by_code = map (\<lambda>(reason, code). (code, reason)) REASON_CODES"

definition FAILURE_TERMINAL_MAGIC :: bytes where "FAILURE_TERMINAL_MAGIC = ''SPPFLR1'' @ [CHR 0x00]"
definition FAILURE_TERMINAL_SIZE :: nat where "FAILURE_TERMINAL_SIZE = 112"
definition FAILURE_DIGEST_DOMAIN :: bytes where "FAILURE_DIGEST_DOMAIN = ''sol-spp-diag-failure-v1'' @ [CHR 0x00]"

record FailureTerminal =
  ft_reason :: string
  ft_reason_code :: nat
  ft_phase :: int
  ft_challenge :: bytes
  ft_run_identity :: bytes

text \<open>The error \<open>SppDiagFailureTerminalError()\<close> has its default reason everywhere.\<close>

definition terminal_error :: "string + 'a" where "terminal_error = Inl ''SPPFLR1_EXPORT''"

definition failure_prefix :: "nat \<Rightarrow> nat \<Rightarrow> bytes \<Rightarrow> bytes \<Rightarrow> bytes" where
  "failure_prefix code phase challenge run_identity = FAILURE_TERMINAL_MAGIC @ to_be 2 1 @ to_be 2 code @ to_be 4 phase @ challenge @ run_identity"

definition encode_failure_terminal :: "string \<Rightarrow> int \<Rightarrow> bytes \<Rightarrow> bytes \<Rightarrow> string + bytes" where
  "encode_failure_terminal reason current_phase challenge run_identity = (case map_of REASON_CODES reason of
     None \<Rightarrow> terminal_error
   | Some code \<Rightarrow>
       if \<not> (0 \<le> current_phase \<and> current_phase \<le> 0xFFFFFFFF) then terminal_error
       else if length challenge \<noteq> 32 then terminal_error
       else if length run_identity \<noteq> 32 then terminal_error
       else let prefix = failure_prefix code (nat current_phase) challenge run_identity in
         Inr (prefix @ sha256 (FAILURE_DIGEST_DOMAIN @ prefix)))"

definition parse_failure_terminal :: "bytes \<Rightarrow> bytes option \<Rightarrow> bytes option \<Rightarrow> string + FailureTerminal" where
  "parse_failure_terminal rec expected_challenge expected_run_identity =
     (if length rec \<noteq> FAILURE_TERMINAL_SIZE then terminal_error
      else let f = unpack [8, 2, 2, 4, 32, 32, 32] rec in
        case map_of by_code (be_nat (f ! 2)) of
          None \<Rightarrow> terminal_error
        | Some reason \<Rightarrow>
            if f ! 0 \<noteq> FAILURE_TERMINAL_MAGIC \<or> be_nat (f ! 1) \<noteq> 1 then terminal_error
            else if f ! 6 \<noteq> sha256 (FAILURE_DIGEST_DOMAIN @ take 80 rec) then terminal_error
            else if expected_challenge \<noteq> None \<and> Some (f ! 4) \<noteq> expected_challenge then terminal_error
            else if expected_run_identity \<noteq> None \<and> Some (f ! 5) \<noteq> expected_run_identity then terminal_error
            else Inr \<lparr>ft_reason = reason, ft_reason_code = be_nat (f ! 2), ft_phase = int (be_nat (f ! 3)), ft_challenge = f ! 4, ft_run_identity = f ! 5\<rparr>)"

lemma length_failure_magic [simp]: "length FAILURE_TERMINAL_MAGIC = 8"
  by (simp add: FAILURE_TERMINAL_MAGIC_def)

lemma length_failure_prefix: "length c = 32 \<Longrightarrow> length r = 32 \<Longrightarrow> length (failure_prefix code phase c r) = 80"
  by (simp add: failure_prefix_def)

lemma reason_codes: "map_of by_code code = Some reason \<longleftrightarrow> map_of REASON_CODES reason = Some code"
  by (auto simp: by_code_def REASON_CODES_def split: if_splits)

lemma reason_code_less: "map_of REASON_CODES reason = Some code \<Longrightarrow> code < 256 ^ 2"
  by (auto simp: REASON_CODES_def split: if_splits)

lemma parse_encode_terminal:
  assumes "encode_failure_terminal reason phase c r = Inr w"
  shows "\<exists>code. map_of REASON_CODES reason = Some code \<and> parse_failure_terminal w (Some c) (Some r) =
    Inr \<lparr>ft_reason = reason, ft_reason_code = code, ft_phase = phase, ft_challenge = c, ft_run_identity = r\<rparr>"
proof -
  obtain code where code: "map_of REASON_CODES reason = Some code" and ph: "0 \<le> phase" "phase \<le> 0xFFFFFFFF" and l: "length c = 32" "length r = 32"
    and w: "w = failure_prefix code (nat phase) c r @ sha256 (FAILURE_DIGEST_DOMAIN @ failure_prefix code (nat phase) c r)"
    using assms by (auto simp: encode_failure_terminal_def terminal_error_def Let_def split: option.splits if_splits)
  have lw: "length w = 112" using l by (simp add: w length_failure_prefix)
  have t: "take 80 w = failure_prefix code (nat phase) c r" using l by (simp add: w length_failure_prefix)
  have u: "unpack [8, 2, 2, 4, 32, 32, 32] w = [FAILURE_TERMINAL_MAGIC, to_be 2 1, to_be 2 code, to_be 4 (nat phase), c, r,
      sha256 (FAILURE_DIGEST_DOMAIN @ failure_prefix code (nat phase) c r)]"
    unfolding w failure_prefix_def append_assoc using l by (simp add: unpack_append unpack_last del: append_assoc)
  have n: "nat phase < 256 ^ 4" using ph by simp
  have b: "map_of by_code code = Some reason" using code reason_codes by blast
  show ?thesis using code ph reason_code_less [OF code] n
    by (simp add: parse_failure_terminal_def lw FAILURE_TERMINAL_SIZE_def u t Let_def b)
qed

section \<open>The export stream\<close>

datatype export_error = EXPORT_MEMBER_HASH | EXPORT_MEMBER_NAME | EXPORT_MEMBER_ORDER | EXPORT_MEMBER_SIZE | EXPORT_TERMINAL | EXPORT_TRAILING_BYTES
  | EXPORT_TRUNCATED

definition EXPORT_MAGIC :: bytes where "EXPORT_MAGIC = ''SPPDBN1'' @ [CHR 0x00]"
definition TERMINAL_MAGIC :: bytes where "TERMINAL_MAGIC = ''SPPCAP1'' @ [CHR 0x00]"
definition TERMINAL_SIZE :: nat where "TERMINAL_SIZE = 108"
definition MAX_STREAM_BYTES :: nat where "MAX_STREAM_BYTES = 16777216"
definition MAX_MEMBER_BYTES :: nat where "MAX_MEMBER_BYTES = 8388608"

definition PAYLOAD_MEMBER_NAMES :: "string list" where
  "PAYLOAD_MEMBER_NAMES = [''ak-public.pem'', ''firmware-event-log.bin'', ''gpu-evidence.tlv'', ''hcla.bin'', ''ima-measurements.bin'',
     ''inner-receipt/ak-tpmt-public.bin'', ''inner-receipt/firmware-event-log.sha256'', ''inner-receipt/gpu-evidence.sha256'',
     ''inner-receipt/ima-measurements.sha256'', ''inner-receipt/manifest.json'', ''inner-receipt/synthetic-output.bin'',
     ''inner-receipt/terminal-frame.bin'', ''inner-receipt/trace.bin'', ''quote.msg'', ''quote.pcrs'', ''quote.sig'']"

definition TERMINAL_NAME :: string where "TERMINAL_NAME = ''zz-capture-terminal.bin''"

definition MEMBER_NAMES :: "string list" where "MEMBER_NAMES = PAYLOAD_MEMBER_NAMES @ [TERMINAL_NAME]"

text \<open>\<open>_encode_record\<close> for the ASCII names of the stream.\<close>

definition encode_record :: "(ustr \<Rightarrow> ustr) \<Rightarrow> string \<Rightarrow> bytes \<Rightarrow> export_error + bytes" where
  "encode_record nfc name payload =
     (if nfc (ascii name) \<noteq> ascii name \<or> name = [] \<or> length name > 255 then Inl EXPORT_MEMBER_NAME
      else if length payload > MAX_MEMBER_BYTES then Inl EXPORT_MEMBER_SIZE
      else Inr (to_be 2 (length name) @ to_be 8 (length payload) @ sha256 payload @ name @ payload))"

definition encode_terminal :: "bytes \<Rightarrow> bytes \<Rightarrow> bytes \<Rightarrow> export_error + bytes" where
  "encode_terminal challenge run_identity prefix_digest =
     (if length challenge \<noteq> 32 \<or> length run_identity \<noteq> 32 \<or> length prefix_digest \<noteq> 32 then Inl EXPORT_TERMINAL
      else Inr (TERMINAL_MAGIC @ to_be 2 1 @ to_be 2 1 @ challenge @ run_identity @ prefix_digest))"

definition terminal_record_size :: nat where
  "terminal_record_size = 42 + length TERMINAL_NAME + TERMINAL_SIZE"

fun build_members :: "(ustr \<Rightarrow> ustr) \<Rightarrow> (string \<times> bytes) list \<Rightarrow> string list \<Rightarrow> bytes \<Rightarrow> export_error + bytes" where
  "build_members nfc members [] prefix = Inr prefix"
| "build_members nfc members (name # names) prefix =
     bindE (encode_record nfc name (the (map_of members name))) (\<lambda>r.
     if int (length r) > int MAX_STREAM_BYTES - int (length prefix) - int terminal_record_size then Inl EXPORT_MEMBER_SIZE
     else build_members nfc members names (prefix @ r))"

text \<open>A dictionary is an association list with distinct keys.\<close>

definition build_export_stream :: "(ustr \<Rightarrow> ustr) \<Rightarrow> (string \<times> bytes) list \<Rightarrow> bytes \<Rightarrow> bytes \<Rightarrow> export_error + bytes" where
  "build_export_stream nfc members challenge run_identity =
     (if set (map fst members) \<noteq> set PAYLOAD_MEMBER_NAMES then Inl EXPORT_MEMBER_NAME
      else bindE (build_members nfc members PAYLOAD_MEMBER_NAMES (EXPORT_MAGIC @ to_be 4 1 @ to_be 4 (length MEMBER_NAMES))) (\<lambda>prefix.
        bindE (encode_terminal challenge run_identity (sha256 prefix)) (\<lambda>terminal.
        bindE (encode_record nfc TERMINAL_NAME terminal) (\<lambda>r.
        if length (prefix @ r) > MAX_STREAM_BYTES then Inl EXPORT_MEMBER_SIZE else Inr (prefix @ r)))))"

record ExportedMember =
  member_name :: string
  member_size :: nat
  member_sha256 :: bytes
  member_payload :: bytes

record ExportedBundle =
  bundle_members :: "ExportedMember list"
  bundle_challenge :: bytes
  bundle_run_identity :: bytes

text \<open>The inner \<open>take\<close> on the bytes that are left.\<close>

definition take_bytes :: "nat \<Rightarrow> bytes \<Rightarrow> export_error + bytes \<times> bytes" where
  "take_bytes n data = (if n > length data then Inl EXPORT_TRUNCATED else Inr (take n data, drop n data))"

definition parse_member :: "(ustr \<Rightarrow> ustr) \<Rightarrow> string \<Rightarrow> bytes \<Rightarrow> export_error + ExportedMember \<times> bytes" where
  "parse_member nfc expected_name data = bindE (take_bytes 42 data) (\<lambda>(h, r1).
     let f = unpack [2, 8, 32] h; name_size = be_nat (f ! 0); payload_size = be_nat (f ! 1); digest = f ! 2 in
     if payload_size > MAX_MEMBER_BYTES then Inl EXPORT_MEMBER_SIZE
     else bindE (take_bytes name_size r1) (\<lambda>(name_bytes, r2).
       case utf8_decode name_bytes of
         Inl _ \<Rightarrow> Inl EXPORT_MEMBER_NAME
       | Inr name \<Rightarrow>
           if nfc name \<noteq> name then Inl EXPORT_MEMBER_NAME
           else if name \<noteq> ascii expected_name then Inl EXPORT_MEMBER_ORDER
           else bindE (take_bytes payload_size r2) (\<lambda>(payload, r3).
             if sha256 payload \<noteq> digest then Inl EXPORT_MEMBER_HASH
             else Inr (\<lparr>member_name = expected_name, member_size = payload_size, member_sha256 = digest, member_payload = payload\<rparr>, r3))))"

fun parse_members :: "(ustr \<Rightarrow> ustr) \<Rightarrow> string list \<Rightarrow> bytes \<Rightarrow> export_error + ExportedMember list \<times> bytes" where
  "parse_members nfc [] data = Inr ([], data)"
| "parse_members nfc (name # names) data =
     bindE (parse_member nfc name data) (\<lambda>(m, r). bindE (parse_members nfc names r) (\<lambda>(ms, r'). Inr (m # ms, r')))"

text \<open>The end of the payload records is where the terminal record starts.\<close>

definition parse_export_stream :: "(ustr \<Rightarrow> ustr) \<Rightarrow> bytes \<Rightarrow> bytes option \<Rightarrow> bytes option \<Rightarrow> export_error + ExportedBundle" where
  "parse_export_stream nfc data expected_challenge expected_run_identity =
     (if length data > MAX_STREAM_BYTES then Inl EXPORT_MEMBER_SIZE
      else bindE (take_bytes 16 data) (\<lambda>(h, r0).
        let f = unpack [8, 4, 4] h in
        if f ! 0 \<noteq> EXPORT_MAGIC \<or> be_nat (f ! 1) \<noteq> 1 then Inl EXPORT_MEMBER_NAME
        else if be_nat (f ! 2) \<noteq> length MEMBER_NAMES then Inl EXPORT_MEMBER_ORDER
        else bindE (parse_members nfc PAYLOAD_MEMBER_NAMES r0) (\<lambda>(payload_members, r1).
          bindE (parse_member nfc TERMINAL_NAME r1) (\<lambda>(t, r2).
          let terminal = member_payload t; g = unpack [8, 2, 2, 32, 32, 32] terminal in
          if r2 \<noteq> [] then Inl EXPORT_TRAILING_BYTES
          else if length terminal \<noteq> TERMINAL_SIZE then Inl EXPORT_TERMINAL
          else if g ! 0 \<noteq> TERMINAL_MAGIC \<or> be_nat (g ! 1) \<noteq> 1 \<or> be_nat (g ! 2) \<noteq> 1 then Inl EXPORT_TERMINAL
          else if g ! 5 \<noteq> sha256 (take (length data - length r1) data) then Inl EXPORT_TERMINAL
          else if expected_challenge \<noteq> None \<and> Some (g ! 3) \<noteq> expected_challenge then Inl EXPORT_TERMINAL
          else if expected_run_identity \<noteq> None \<and> Some (g ! 4) \<noteq> expected_run_identity then Inl EXPORT_TERMINAL
          else Inr \<lparr>bundle_members = payload_members @ [t], bundle_challenge = g ! 3, bundle_run_identity = g ! 4\<rparr>))))"

section \<open>The parser accepts what the builder makes, and nothing else\<close>

definition nfc_ascii :: "(ustr \<Rightarrow> ustr) \<Rightarrow> bool" where
  "nfc_ascii nfc \<longleftrightarrow> (\<forall>s. list_all (\<lambda>c. c < 128) s \<longrightarrow> nfc s = s)"

definition plain_name :: "string \<Rightarrow> bool" where
  "plain_name s \<longleftrightarrow> list_all (\<lambda>c. byte_val c < 128) s \<and> s \<noteq> [] \<and> length s \<le> 255"

definition record_of :: "string \<Rightarrow> bytes \<Rightarrow> bytes" where
  "record_of name payload = to_be 2 (length name) @ to_be 8 (length payload) @ sha256 payload @ name @ payload"

definition member_of :: "string \<Rightarrow> bytes \<Rightarrow> ExportedMember" where
  "member_of name payload = \<lparr>member_name = name, member_size = length payload, member_sha256 = sha256 payload, member_payload = payload\<rparr>"

lemma names_plain: "list_all plain_name MEMBER_NAMES" "distinct PAYLOAD_MEMBER_NAMES"
  by (simp_all add: MEMBER_NAMES_def PAYLOAD_MEMBER_NAMES_def TERMINAL_NAME_def plain_name_def)

lemma plain_ascii: "plain_name s \<Longrightarrow> list_all (\<lambda>c. c < 128) (ascii s)"
  by (auto simp: plain_name_def ascii_def list_all_iff)

lemma ascii_utf8: "list_all (\<lambda>c. byte_val c < 128) s \<Longrightarrow> concat (map utf8_char (ascii s)) = s \<and> list_all scalar (ascii s)"
  by (induction s) (auto simp: ascii_def utf8_char_def scalar_def byte_of_eq)

lemma plain_decode: "plain_name s \<Longrightarrow> utf8_decode bs = Inr (ascii s) \<longleftrightarrow> bs = s"
  using utf8_decode_encoded [of "ascii s"] utf8_decode_strict [of bs "ascii s"] ascii_utf8 [of s]
  by (auto simp: plain_name_def utf8_encode_def)

lemma encode_record_eq:
  "nfc_ascii nfc \<Longrightarrow> plain_name name \<Longrightarrow>
    encode_record nfc name payload = (if length payload > MAX_MEMBER_BYTES then Inl EXPORT_MEMBER_SIZE else Inr (record_of name payload))"
  using plain_ascii [of name] by (simp add: encode_record_def record_of_def nfc_ascii_def plain_name_def)

lemma record_of_length [simp]: "length (record_of name payload) = 42 + length name + length payload"
  by (simp add: record_of_def)

lemma parse_member_iff:
  assumes nfc: "nfc_ascii nfc" and name: "plain_name name"
  shows "parse_member nfc name data = Inr (m, r) \<longleftrightarrow>
    (\<exists>payload. length payload \<le> MAX_MEMBER_BYTES \<and> data = record_of name payload @ r \<and> m = member_of name payload)"
proof
  assume "\<exists>payload. length payload \<le> MAX_MEMBER_BYTES \<and> data = record_of name payload @ r \<and> m = member_of name payload"
  then obtain payload where p: "length payload \<le> MAX_MEMBER_BYTES" "data = record_of name payload @ r" "m = member_of name payload" by blast
  have t: "take 42 data = to_be 2 (length name) @ to_be 8 (length payload) @ sha256 payload" "drop 42 data = name @ payload @ r"
    by (simp_all add: p(2) record_of_def)
  have n: "length name < 256 ^ 2" "length payload < 256 ^ 8" using name p(1) by (simp_all add: plain_name_def MAX_MEMBER_BYTES_def)
  have "nfc (ascii name) = ascii name" using nfc plain_ascii [OF name] by (simp add: nfc_ascii_def)
  moreover have "utf8_decode name = Inr (ascii name)" using plain_decode [OF name] by blast
  moreover have "42 \<le> length data" by (simp add: p(2))
  ultimately show "parse_member nfc name data = Inr (m, r)"
    using p(1,3) n by (simp add: parse_member_def take_bytes_def t unpack_append unpack_last Let_def member_of_def)
next
  assume "parse_member nfc name data = Inr (m, r)"
  then obtain h r1 name_bytes r2 payload f where hs: "take 42 data = h" "drop 42 data = r1" "42 \<le> length data" "f = unpack [2, 8, 32] h"
    and sz: "be_nat (f ! 1) \<le> MAX_MEMBER_BYTES" and nb: "take (be_nat (f ! 0)) r1 = name_bytes" "drop (be_nat (f ! 0)) r1 = r2" "be_nat (f ! 0) \<le> length r1"
    and dec: "utf8_decode name_bytes = Inr (ascii name)" and pl: "take (be_nat (f ! 1)) r2 = payload" "drop (be_nat (f ! 1)) r2 = r" "be_nat (f ! 1) \<le> length r2"
    and dg: "sha256 payload = f ! 2" and m: "m = \<lparr>member_name = name, member_size = be_nat (f ! 1), member_sha256 = f ! 2, member_payload = payload\<rparr>"
    by (auto simp: parse_member_def take_bytes_def Let_def res_simps split: if_splits sum.splits)
  have fl: "map length f = [2, 8, 32]" "concat f = h" using hs by (auto simp: unpack_widths concat_unpack)
  then obtain a b d where f: "f = [a, b, d]" "length a = 2" "length b = 8" "length d = 32" by (auto simp: map_eq_Cons_conv)
  have "name_bytes = name" using dec plain_decode [OF name] by blast
  moreover have "data = h @ name_bytes @ payload @ r" using hs nb pl by (metis append_take_drop_id)
  moreover have "length name_bytes = be_nat a" "length payload = be_nat b" using nb pl f by auto
  ultimately have "data = record_of name payload @ r" "m = member_of name payload" "length payload \<le> MAX_MEMBER_BYTES"
    using fl f dg m sz by (auto simp: record_of_def member_of_def)
  then show "\<exists>payload. length payload \<le> MAX_MEMBER_BYTES \<and> data = record_of name payload @ r \<and> m = member_of name payload" by blast
qed

lemma parse_members_iff:
  assumes nfc: "nfc_ascii nfc" and "list_all plain_name names"
  shows "parse_members nfc names data = Inr (ms, r) \<longleftrightarrow> (\<exists>ps. length ps = length names \<and> list_all (\<lambda>p. length p \<le> MAX_MEMBER_BYTES) ps \<and>
    data = concat (map2 record_of names ps) @ r \<and> ms = map2 member_of names ps)"
  using assms(2)
proof (induction names arbitrary: data ms)
  case (Cons n ns)
  then have n: "plain_name n" and ns: "list_all plain_name ns" by simp_all
  show ?case
  proof
    assume "parse_members nfc (n # ns) data = Inr (ms, r)"
    then obtain m d' ms' where m: "parse_member nfc n data = Inr (m, d')" "parse_members nfc ns d' = Inr (ms', r)" "ms = m # ms'"
      by (auto simp: res_simps)
    from m(1) obtain p where p: "length p \<le> MAX_MEMBER_BYTES" "data = record_of n p @ d'" "m = member_of n p" unfolding parse_member_iff [OF nfc n] by blast
    from m(2) obtain ps where ps: "length ps = length ns" "list_all (\<lambda>p. length p \<le> MAX_MEMBER_BYTES) ps" "d' = concat (map2 record_of ns ps) @ r" "ms' = map2 member_of ns ps"
      unfolding Cons.IH [OF ns] by blast
    with p m(3) show "\<exists>ps. length ps = length (n # ns) \<and> list_all (\<lambda>p. length p \<le> MAX_MEMBER_BYTES) ps \<and> data = concat (map2 record_of (n # ns) ps) @ r \<and> ms = map2 member_of (n # ns) ps"
      by (intro exI [of _ "p # ps"]) simp
  next
    assume "\<exists>ps. length ps = length (n # ns) \<and> list_all (\<lambda>p. length p \<le> MAX_MEMBER_BYTES) ps \<and> data = concat (map2 record_of (n # ns) ps) @ r \<and> ms = map2 member_of (n # ns) ps"
    then obtain p ps where ps: "length ps = length ns" "list_all (\<lambda>p. length p \<le> MAX_MEMBER_BYTES) ps" "length p \<le> MAX_MEMBER_BYTES"
      "data = record_of n p @ concat (map2 record_of ns ps) @ r" "ms = member_of n p # map2 member_of ns ps" by (auto simp: length_Suc_conv)
    then have "parse_member nfc n data = Inr (member_of n p, concat (map2 record_of ns ps) @ r)" unfolding parse_member_iff [OF nfc n] by blast
    moreover have "parse_members nfc ns (concat (map2 record_of ns ps) @ r) = Inr (map2 member_of ns ps, r)" using ps(1,2) unfolding Cons.IH [OF ns] by blast
    ultimately show "parse_members nfc (n # ns) data = Inr (ms, r)" using ps(5) by simp
  qed
qed auto

lemma build_members_iff:
  assumes nfc: "nfc_ascii nfc" and "list_all plain_name names"
  shows "build_members nfc members names prefix = Inr out \<longleftrightarrow>
    list_all (\<lambda>n. length (the (map_of members n)) \<le> MAX_MEMBER_BYTES) names \<and> out = prefix @ concat (map (\<lambda>n. record_of n (the (map_of members n))) names) \<and>
    (names = [] \<or> length out + terminal_record_size \<le> MAX_STREAM_BYTES)"
  using assms(2)
proof (induction names arbitrary: prefix)
  case (Cons n ns)
  then have n: "plain_name n" and ns: "list_all plain_name ns" by simp_all
  let ?r = "record_of n (the (map_of members n))"
  have "build_members nfc members (n # ns) prefix = Inr out \<longleftrightarrow> length (the (map_of members n)) \<le> MAX_MEMBER_BYTES \<and>
      length prefix + length ?r + terminal_record_size \<le> MAX_STREAM_BYTES \<and> build_members nfc members ns (prefix @ ?r) = Inr out"
    unfolding build_members.simps encode_record_eq [OF nfc n] by (simp add: terminal_record_size_def)
  also have "\<dots> \<longleftrightarrow> length (the (map_of members n)) \<le> MAX_MEMBER_BYTES \<and> length prefix + length ?r + terminal_record_size \<le> MAX_STREAM_BYTES \<and>
      list_all (\<lambda>n. length (the (map_of members n)) \<le> MAX_MEMBER_BYTES) ns \<and> out = (prefix @ ?r) @ concat (map (\<lambda>n. record_of n (the (map_of members n))) ns) \<and>
      (ns = [] \<or> length out + terminal_record_size \<le> MAX_STREAM_BYTES)"
    by (simp add: Cons.IH [OF ns])
  finally show ?case by auto
qed (simp add: eq_commute)

text \<open>The bytes of a stream, from its payloads.\<close>

definition stream_prefix :: "bytes list \<Rightarrow> bytes" where
  "stream_prefix ps = EXPORT_MAGIC @ to_be 4 1 @ to_be 4 (length MEMBER_NAMES) @ concat (map2 record_of PAYLOAD_MEMBER_NAMES ps)"

definition terminal_bytes :: "bytes list \<Rightarrow> bytes \<Rightarrow> bytes \<Rightarrow> bytes" where
  "terminal_bytes ps c r = TERMINAL_MAGIC @ to_be 2 1 @ to_be 2 1 @ c @ r @ sha256 (stream_prefix ps)"

definition stream_bytes :: "bytes list \<Rightarrow> bytes \<Rightarrow> bytes \<Rightarrow> bytes" where
  "stream_bytes ps c r = stream_prefix ps @ record_of TERMINAL_NAME (terminal_bytes ps c r)"

definition stream_fits :: "bytes list \<Rightarrow> bytes \<Rightarrow> bytes \<Rightarrow> bool" where
  "stream_fits ps c r \<longleftrightarrow> length ps = length PAYLOAD_MEMBER_NAMES \<and> list_all (\<lambda>p. length p \<le> MAX_MEMBER_BYTES) ps \<and> length c = 32 \<and> length r = 32 \<and>
     length (stream_bytes ps c r) \<le> MAX_STREAM_BYTES"

definition bundle_of :: "bytes list \<Rightarrow> bytes \<Rightarrow> bytes \<Rightarrow> ExportedBundle" where
  "bundle_of ps c r = \<lparr>bundle_members = map2 member_of PAYLOAD_MEMBER_NAMES ps @ [member_of TERMINAL_NAME (terminal_bytes ps c r)],
     bundle_challenge = c, bundle_run_identity = r\<rparr>"

lemma payload_names [simp]: "list_all plain_name PAYLOAD_MEMBER_NAMES" "plain_name TERMINAL_NAME" "PAYLOAD_MEMBER_NAMES \<noteq> []"
  using names_plain(1) by (simp_all add: MEMBER_NAMES_def PAYLOAD_MEMBER_NAMES_def)

lemma magic_lengths [simp]: "length EXPORT_MAGIC = 8" "length TERMINAL_MAGIC = 8" "length MEMBER_NAMES = 17"
  by (simp_all add: EXPORT_MAGIC_def TERMINAL_MAGIC_def MEMBER_NAMES_def PAYLOAD_MEMBER_NAMES_def)

lemma le_member_108: "\<not> MAX_MEMBER_BYTES < 108"
  by (simp add: MAX_MEMBER_BYTES_def)

lemma length_terminal_bytes: "length c = 32 \<Longrightarrow> length r = 32 \<Longrightarrow> length (terminal_bytes ps c r) = 108"
  by (simp add: terminal_bytes_def)

lemma map_of_zip_map: "length ps = length ns \<Longrightarrow> distinct ns \<Longrightarrow> map (\<lambda>n. f n (the (map_of (zip ns ps) n))) ns = map2 f ns ps"
  by (rule nth_equalityI) (auto simp: map_of_zip_nth)

lemma build_stream:
  assumes nfc: "nfc_ascii nfc" and ps: "length ps = length PAYLOAD_MEMBER_NAMES"
  shows "build_export_stream nfc (zip PAYLOAD_MEMBER_NAMES ps) c r = Inr data \<longleftrightarrow> stream_fits ps c r \<and> data = stream_bytes ps c r"
proof -
  let ?h = "EXPORT_MAGIC @ to_be 4 1 @ to_be 4 (length MEMBER_NAMES)" and ?ms = "zip PAYLOAD_MEMBER_NAMES ps"
  have keys: "set (map fst ?ms) = set PAYLOAD_MEMBER_NAMES" using ps by (simp add: map_fst_zip)
  have bm: "build_members nfc ?ms PAYLOAD_MEMBER_NAMES ?h = Inr out \<longleftrightarrow> list_all (\<lambda>p. length p \<le> MAX_MEMBER_BYTES) ps \<and> out = stream_prefix ps \<and>
      length out + terminal_record_size \<le> MAX_STREAM_BYTES" for out
  proof -
    have "list_all (\<lambda>n. length (the (map_of ?ms n)) \<le> MAX_MEMBER_BYTES) PAYLOAD_MEMBER_NAMES \<longleftrightarrow> list_all (\<lambda>p. length p \<le> MAX_MEMBER_BYTES) ps"
      using ps names_plain(2) by (auto simp: list_all_length map_of_zip_nth)
    then show ?thesis using ps names_plain(2) by (simp add: build_members_iff [OF nfc] map_of_zip_map [of ps PAYLOAD_MEMBER_NAMES record_of] stream_prefix_def)
  qed
  have te: "encode_terminal c r (sha256 p) = Inr t \<longleftrightarrow> length c = 32 \<and> length r = 32 \<and> t = TERMINAL_MAGIC @ to_be 2 1 @ to_be 2 1 @ c @ r @ sha256 p" for p t
    by (auto simp: encode_terminal_def)
  show ?thesis
    using ps keys length_terminal_bytes [of c r ps]
    by (auto simp: build_export_stream_def res_simps bm te encode_record_eq [OF nfc] stream_fits_def stream_bytes_def terminal_bytes_def
        terminal_record_size_def TERMINAL_SIZE_def le_member_108 simp del: One_nat_def magic_lengths(3))
qed

lemma header_bytes:
  assumes "length h = 16" and "unpack [8, 4, 4] h ! 0 = EXPORT_MAGIC" and "be_nat (unpack [8, 4, 4] h ! 1) = 1" and "be_nat (unpack [8, 4, 4] h ! 2) = n"
  shows "h = EXPORT_MAGIC @ to_be 4 1 @ to_be 4 n"
proof -
  obtain x y z where f: "h = x @ y @ z" "length x = 8" "length y = 4" "length z = 4" using layout_fields [of h "[8, 4, 4]"] assms(1) by (auto simp: map_eq_Cons_conv)
  then have "unpack [8, 4, 4] h = [x, y, z]" by (simp add: unpack_append unpack_last)
  with f assms show ?thesis by (auto simp: to_be_eqI)
qed

lemma terminal_fields:
  assumes "length t = 108"
  shows "unpack [8, 2, 2, 32, 32, 32] t ! 0 = TERMINAL_MAGIC \<Longrightarrow> be_nat (unpack [8, 2, 2, 32, 32, 32] t ! 1) = 1 \<Longrightarrow> be_nat (unpack [8, 2, 2, 32, 32, 32] t ! 2) = 1 \<Longrightarrow>
      t = TERMINAL_MAGIC @ to_be 2 1 @ to_be 2 1 @ unpack [8, 2, 2, 32, 32, 32] t ! 3 @ unpack [8, 2, 2, 32, 32, 32] t ! 4 @ unpack [8, 2, 2, 32, 32, 32] t ! 5"
    and "length (unpack [8, 2, 2, 32, 32, 32] t ! 3) = 32 \<and> length (unpack [8, 2, 2, 32, 32, 32] t ! 4) = 32"
proof -
  obtain x y z u v w where f: "t = x @ y @ z @ u @ v @ w" "length x = 8" "length y = 2" "length z = 2" "length u = 32" "length v = 32" "length w = 32"
    using layout_fields [of t "[8, 2, 2, 32, 32, 32]"] assms by (auto simp: map_eq_Cons_conv)
  then have e: "unpack [8, 2, 2, 32, 32, 32] t = [x, y, z, u, v, w]" by (simp add: unpack_append unpack_last)
  show "unpack [8, 2, 2, 32, 32, 32] t ! 0 = TERMINAL_MAGIC \<Longrightarrow> be_nat (unpack [8, 2, 2, 32, 32, 32] t ! 1) = 1 \<Longrightarrow> be_nat (unpack [8, 2, 2, 32, 32, 32] t ! 2) = 1 \<Longrightarrow>
      t = TERMINAL_MAGIC @ to_be 2 1 @ to_be 2 1 @ unpack [8, 2, 2, 32, 32, 32] t ! 3 @ unpack [8, 2, 2, 32, 32, 32] t ! 4 @ unpack [8, 2, 2, 32, 32, 32] t ! 5"
    unfolding e using f to_be_eqI [of y 2 1] to_be_eqI [of z 2 1] by simp
  show "length (unpack [8, 2, 2, 32, 32, 32] t ! 3) = 32 \<and> length (unpack [8, 2, 2, 32, 32, 32] t ! 4) = 32" using f unfolding e by simp
qed

lemma parse_stream:
  assumes nfc: "nfc_ascii nfc"
  shows "parse_export_stream nfc data (Some c) (Some r) = Inr b \<longleftrightarrow> (\<exists>ps. stream_fits ps c r \<and> data = stream_bytes ps c r \<and> b = bundle_of ps c r)"
proof
  assume "\<exists>ps. stream_fits ps c r \<and> data = stream_bytes ps c r \<and> b = bundle_of ps c r"
  then obtain ps where f: "stream_fits ps c r" and d: "data = stream_bytes ps c r" and b: "b = bundle_of ps c r" by blast
  let ?h = "EXPORT_MAGIC @ to_be 4 1 @ to_be 4 (length MEMBER_NAMES)" and ?p = "concat (map2 record_of PAYLOAD_MEMBER_NAMES ps)"
    and ?t = "record_of TERMINAL_NAME (terminal_bytes ps c r)"
  have l: "length ps = length PAYLOAD_MEMBER_NAMES" "list_all (\<lambda>p. length p \<le> MAX_MEMBER_BYTES) ps" "length c = 32" "length r = 32" "length data \<le> MAX_STREAM_BYTES"
    using f d by (simp_all add: stream_fits_def)
  have dd: "data = ?h @ ?p @ ?t" by (simp add: d stream_bytes_def stream_prefix_def)
  have 1: "take_bytes 16 data = Inr (?h, ?p @ ?t)" by (simp add: dd take_bytes_def)
  have 2: "parse_members nfc PAYLOAD_MEMBER_NAMES (?p @ ?t) = Inr (map2 member_of PAYLOAD_MEMBER_NAMES ps, ?t)"
    using l unfolding parse_members_iff [OF nfc payload_names(1)] by blast
  have 3: "parse_member nfc TERMINAL_NAME ?t = Inr (member_of TERMINAL_NAME (terminal_bytes ps c r), [])"
    unfolding parse_member_iff [OF nfc payload_names(2)] using l by (intro exI [of _ "terminal_bytes ps c r"]) (simp add: length_terminal_bytes MAX_MEMBER_BYTES_def)
  have 4: "take (length data - length ?t) data = stream_prefix ps" by (simp add: d stream_bytes_def)
  have 5: "unpack [8, 2, 2, 32, 32, 32] (terminal_bytes ps c r) = [TERMINAL_MAGIC, to_be 2 1, to_be 2 1, c, r, sha256 (stream_prefix ps)]"
    using l by (simp add: terminal_bytes_def unpack_append unpack_last)
  have 6: "unpack [8, 4, 4] ?h = [EXPORT_MAGIC, to_be 4 1, to_be 4 (length MEMBER_NAMES)]" by (simp add: unpack_append unpack_last)
  show "parse_export_stream nfc data (Some c) (Some r) = Inr b"
    using l(3-5) unfolding parse_export_stream_def 1 bindE_simps prod.case Let_def 6
    by (simp add: 2 3 4 5 member_of_def TERMINAL_SIZE_def length_terminal_bytes b bundle_of_def del: record_of_length)
next
  assume p: "parse_export_stream nfc data (Some c) (Some r) = Inr b"
  then obtain h r0 pm r1 t where st: "length data \<le> MAX_STREAM_BYTES" "take 16 data = h" "drop 16 data = r0" "16 \<le> length data"
    and hd: "unpack [8, 4, 4] h ! 0 = EXPORT_MAGIC" "be_nat (unpack [8, 4, 4] h ! 1) = 1" "be_nat (unpack [8, 4, 4] h ! 2) = length MEMBER_NAMES"
    and pm: "parse_members nfc PAYLOAD_MEMBER_NAMES r0 = Inr (pm, r1)" and pt: "parse_member nfc TERMINAL_NAME r1 = Inr (t, [])"
    and tl: "length (member_payload t) = 108"
    and g: "unpack [8, 2, 2, 32, 32, 32] (member_payload t) ! 0 = TERMINAL_MAGIC" "be_nat (unpack [8, 2, 2, 32, 32, 32] (member_payload t) ! 1) = 1"
      "be_nat (unpack [8, 2, 2, 32, 32, 32] (member_payload t) ! 2) = 1" "unpack [8, 2, 2, 32, 32, 32] (member_payload t) ! 3 = c"
      "unpack [8, 2, 2, 32, 32, 32] (member_payload t) ! 4 = r" "unpack [8, 2, 2, 32, 32, 32] (member_payload t) ! 5 = sha256 (take (length data - length r1) data)"
    and b: "b = \<lparr>bundle_members = pm @ [t], bundle_challenge = c, bundle_run_identity = r\<rparr>"
    unfolding parse_export_stream_def take_bytes_def Let_def TERMINAL_SIZE_def by (auto simp: res_simps split: if_splits)
  have h: "h = EXPORT_MAGIC @ to_be 4 1 @ to_be 4 (length MEMBER_NAMES)" using hd st by (intro header_bytes) auto
  from pm obtain ps where ps: "length ps = length PAYLOAD_MEMBER_NAMES" "list_all (\<lambda>p. length p \<le> MAX_MEMBER_BYTES) ps"
    "r0 = concat (map2 record_of PAYLOAD_MEMBER_NAMES ps) @ r1" "pm = map2 member_of PAYLOAD_MEMBER_NAMES ps"
    unfolding parse_members_iff [OF nfc payload_names(1)] by blast
  from pt obtain tp where tp: "r1 = record_of TERMINAL_NAME tp" "t = member_of TERMINAL_NAME tp" unfolding parse_member_iff [OF nfc payload_names(2)] by auto
  have d: "data = stream_prefix ps @ r1" using st ps h by (metis append_assoc append_take_drop_id stream_prefix_def)
  have "tp = terminal_bytes ps c r" using terminal_fields [of tp] g tl by (simp add: tp d terminal_bytes_def member_of_def)
  moreover have "length c = 32 \<and> length r = 32" using terminal_fields(2) [of tp] g tl by (simp add: tp member_of_def)
  ultimately show "\<exists>ps. stream_fits ps c r \<and> data = stream_bytes ps c r \<and> b = bundle_of ps c r"
    using ps st(1) tp b d by (intro exI [of _ ps]) (simp add: stream_fits_def stream_bytes_def bundle_of_def)
qed

text \<open>
  C27. The export stream is canonical: the parser accepts a byte string for a challenge and a run exactly when the builder
  makes it from sixteen payloads, and it then returns these payloads under their names with their digests.
\<close>

theorem export_stream_iff:
  assumes "nfc_ascii nfc"
  shows "parse_export_stream nfc data (Some c) (Some r) = Inr b \<longleftrightarrow>
    (\<exists>ps. length ps = length PAYLOAD_MEMBER_NAMES \<and> build_export_stream nfc (zip PAYLOAD_MEMBER_NAMES ps) c r = Inr data \<and> b = bundle_of ps c r)"
  using parse_stream [OF assms] build_stream [OF assms] by (auto simp: stream_fits_def)

theorem export_stream_iff_witness:
  "\<exists>data. build_export_stream id (zip PAYLOAD_MEMBER_NAMES (map (\<lambda>_. []) PAYLOAD_MEMBER_NAMES)) (replicate 32 CHR ''c'') (replicate 32 CHR ''r'') = Inr data \<and>
     parse_export_stream id data (Some (replicate 32 CHR ''c'')) (Some (replicate 32 CHR ''r'')) =
       Inr (bundle_of (map (\<lambda>_. []) PAYLOAD_MEMBER_NAMES) (replicate 32 CHR ''c'') (replicate 32 CHR ''r''))"
proof -
  let ?ps = "map (\<lambda>_. [] :: bytes) PAYLOAD_MEMBER_NAMES" and ?c = "replicate 32 CHR ''c''" and ?r = "replicate 32 CHR ''r''"
  have n: "nfc_ascii id" by (simp add: nfc_ascii_def)
  have l: "length ?ps = length PAYLOAD_MEMBER_NAMES" by simp
  have "stream_fits ?ps ?c ?r"
    by (simp add: stream_fits_def stream_bytes_def stream_prefix_def length_terminal_bytes PAYLOAD_MEMBER_NAMES_def TERMINAL_NAME_def MAX_STREAM_BYTES_def MAX_MEMBER_BYTES_def)
  then have "build_export_stream id (zip PAYLOAD_MEMBER_NAMES ?ps) ?c ?r = Inr (stream_bytes ?ps ?c ?r)" using build_stream [OF n l] by blast
  with export_stream_iff [OF n] l show ?thesis by blast
qed

end
