(* ===== verification/Text_Codecs.thy ===== *)
theory Text_Codecs
  imports Sha256 Bytes_Methods
begin

text \<open>
  Text forms of bytes and numbers in the standard library: splitting at one byte, hexadecimal,
  decimal and Base64, each with the law that its canonical text is the only one that reads back.
\<close>

section \<open>Splitting at a byte\<close>

fun split_char :: "char \<Rightarrow> bytes \<Rightarrow> bytes list" where
  "split_char c [] = [[]]"
| "split_char c (x # xs) = (if x = c then [] # split_char c xs else (x # hd (split_char c xs)) # tl (split_char c xs))"

fun join_char :: "char \<Rightarrow> bytes list \<Rightarrow> bytes" where
  "join_char c [] = []"
| "join_char c [f] = f"
| "join_char c (f # fs) = f @ c # join_char c fs"

lemma split_char_nonempty [simp]: "split_char c s \<noteq> []"
  by (cases s) auto

lemma join_char_Cons: "fs \<noteq> [] \<Longrightarrow> join_char c (f # fs) = f @ c # join_char c fs"
  by (cases fs) simp_all

lemma join_split [simp]: "join_char c (split_char c s) = s"
proof (induction s)
  case (Cons x xs)
  obtain f fs where s: "split_char c xs = f # fs" using split_char_nonempty by (meson neq_Nil_conv)
  with Cons show ?case by (cases fs) (auto simp: join_char_Cons)
qed simp

lemma split_char_append: "c \<notin> set a \<Longrightarrow> split_char c (a @ c # b) = a # split_char c b"
  by (induction a) auto

lemma split_char_last: "c \<notin> set a \<Longrightarrow> split_char c a = [a]"
  by (induction a) auto

lemma split_join: "fs \<noteq> [] \<Longrightarrow> \<forall>f \<in> set fs. c \<notin> set f \<Longrightarrow> split_char c (join_char c fs) = fs"
  by (induction c fs rule: join_char.induct) (simp_all add: split_char_append split_char_last)

section \<open>Hexadecimal\<close>

text \<open>\<open>bytes.fromhex\<close> of lower case digits without spaces.\<close>

fun from_hex :: "bytes \<Rightarrow> bytes" where
  "from_hex (a # b # r) = byte_of (16 * the (hex_char_val a) + the (hex_char_val b)) # from_hex r"
| "from_hex _ = []"

definition lower_hex :: "char \<Rightarrow> bool" where
  "lower_hex c \<longleftrightarrow> 48 \<le> byte_val c \<and> byte_val c \<le> 57 \<or> 97 \<le> byte_val c \<and> byte_val c \<le> 102"

lemma byte_val_inj: "byte_val c = byte_val d \<longleftrightarrow> c = d"
  by (metis char_of_char)

lemma byte_val_hex_digit: "n < 16 \<Longrightarrow> byte_val (hex_digit n) = (if n < 10 then 48 + n else 87 + n)"
  by (auto simp: hex_digit_def less_Suc_eq numeral_eq_Suc)

lemma hex_digit_val: "n < 16 \<Longrightarrow> hex_char_val (hex_digit n) = Some n \<and> lower_hex (hex_digit n)"
  using byte_val_hex_digit [of n] by (auto simp: hex_char_val_def lower_hex_def Let_def)

lemma val_hex_digit: "lower_hex c \<Longrightarrow> \<exists>n < 16. hex_char_val c = Some n \<and> hex_digit n = c"
proof -
  assume c: "lower_hex c"
  let ?n = "if byte_val c \<le> 57 then byte_val c - 48 else byte_val c - 87"
  have n: "?n < 16" using c by (auto simp: lower_hex_def)
  have "byte_val (hex_digit ?n) = byte_val c" using c byte_val_hex_digit [OF n] by (auto simp: lower_hex_def)
  then have "hex_digit ?n = c" by (simp only: byte_val_inj)
  moreover have "hex_char_val c = Some ?n" using c by (auto simp: hex_char_val_def lower_hex_def Let_def)
  ultimately show ?thesis using n by blast
qed

lemma high_nibble: "byte_val b div 16 < 16"
  using byte_val_less [of b] by linarith

lemma from_to_hex [simp]: "from_hex (to_hex bs) = bs"
proof (induction bs)
  case (Cons b bs)
  then show ?case using high_nibble [of b] hex_digit_val by (simp add: to_hex_def)
qed (simp add: to_hex_def)

lemma to_hex_lower: "list_all lower_hex (to_hex bs)"
proof (induction bs)
  case (Cons b bs)
  then show ?case using high_nibble [of b] hex_digit_val by (simp add: to_hex_def)
qed (simp add: to_hex_def)

lemma to_from_hex: "list_all lower_hex s \<Longrightarrow> even (length s) \<Longrightarrow> to_hex (from_hex s) = s"
proof (induction s rule: from_hex.induct)
  case (1 a b r)
  obtain m n where m: "m < 16" "hex_char_val a = Some m" "hex_digit m = a" and n: "n < 16" "hex_char_val b = Some n" "hex_digit n = b"
    using 1(2) val_hex_digit [of a] val_hex_digit [of b] by auto
  then have "byte_val (byte_of (16 * m + n)) = 16 * m + n" by simp
  with 1 m n show ?case by (simp add: to_hex_def)
qed (simp_all add: to_hex_def)

lemma length_from_hex: "length (from_hex s) = length s div 2"
  by (induction s rule: from_hex.induct) simp_all

section \<open>Decimals\<close>

lemma dec_val_snoc: "dec_val (s @ [c]) = dec_val s * 10 + (byte_val c - 48)"
  by (simp add: dec_val_def)

lemma dec_val_str [simp]: "dec_val (dec_str n) = n"
proof (induction n rule: dec_str.induct)
  case (1 n)
  show ?case
  proof (cases "n < 10")
    case True
    then show ?thesis by (subst dec_str.simps) (simp add: dec_val_def)
  next
    case False
    then show ?thesis using 1 by (subst dec_str.simps) (simp add: dec_val_snoc)
  qed
qed

lemma dec_str_digits: "isdigit (dec_str n)"
proof (induction n rule: dec_str.induct)
  case (1 n)
  show ?case
  proof (cases "n < 10")
    case True
    then show ?thesis by (subst dec_str.simps) (simp add: isdigit_def digit_char_def)
  next
    case False
    then show ?thesis using 1 by (subst dec_str.simps) (simp add: isdigit_def digit_char_def)
  qed
qed

lemma dec_str_head: "0 < n \<Longrightarrow> hd (dec_str n) \<noteq> CHR ''0''"
proof (induction n rule: dec_str.induct)
  case (1 n)
  show ?case
  proof (cases "n < 10")
    case True
    then have "byte_val (byte_of (48 + n)) \<noteq> byte_val CHR ''0''" using 1(2) by simp
    then have "byte_of (48 + n) \<noteq> CHR ''0''" by metis
    then show ?thesis using True by (subst dec_str.simps) simp
  next
    case False
    then have "dec_str (n div 10) \<noteq> []" using dec_str_digits by (simp add: isdigit_def)
    then show ?thesis using 1 False by (subst dec_str.simps) simp
  qed
qed

lemma dec_str_0: "dec_str 0 = ''0''"
  using char_of_char [of "CHR ''0''"] by (subst dec_str.simps) simp

lemma digit_less: "digit_char c \<Longrightarrow> byte_val c - 48 < 10 \<and> byte_of (48 + (byte_val c - 48)) = c"
  by (auto simp: digit_char_def char_of_char)

text \<open>A decimal without a leading zero is the text of its value.\<close>

lemma dec_str_val: "isdigit s \<Longrightarrow> hd s \<noteq> CHR ''0'' \<Longrightarrow> dec_str (dec_val s) = s \<and> 0 < dec_val s"
proof (induction s rule: rev_induct)
  case (snoc c s)
  show ?case
  proof (cases "s = []")
    case True
    with snoc have d: "digit_char c" "c \<noteq> CHR ''0''" by (simp_all add: isdigit_def)
    then have "byte_val c \<noteq> 48" using byte_val_inj [of c "CHR ''0''"] by simp
    with d digit_less [OF d(1)] True show ?thesis by (subst dec_str.simps) (auto simp: dec_val_def digit_char_def)
  next
    case False
    with snoc have ih: "dec_str (dec_val s) = s" "0 < dec_val s" "digit_char c" by (auto simp: isdigit_def)
    with digit_less [OF ih(3)] show ?thesis by (subst dec_str.simps) (simp add: dec_val_snoc)
  qed
qed (simp add: isdigit_def)

section \<open>Base64\<close>

definition b64_char :: "nat \<Rightarrow> char" where
  "b64_char n = byte_of (if n < 26 then n + 65 else if n < 52 then n + 71 else if n < 62 then n - 4 else if n = 62 then 43 else 47)"

definition b64_val :: "char \<Rightarrow> nat option" where
  "b64_val c = (let v = byte_val c in
     if 65 \<le> v \<and> v \<le> 90 then Some (v - 65) else if 97 \<le> v \<and> v \<le> 122 then Some (v - 71)
     else if 48 \<le> v \<and> v \<le> 57 then Some (v + 4) else if v = 43 then Some 62 else if v = 47 then Some 63 else None)"

fun b64encode :: "bytes \<Rightarrow> bytes" where
  "b64encode [] = []"
| "b64encode [x] = [b64_char (byte_val x div 4), b64_char (byte_val x mod 4 * 16), CHR ''='', CHR ''='']"
| "b64encode [x, y] =
     [b64_char (byte_val x div 4), b64_char (byte_val x mod 4 * 16 + byte_val y div 16), b64_char (byte_val y mod 16 * 4), CHR ''='']"
| "b64encode (x # y # z # r) =
     b64_char (byte_val x div 4) # b64_char (byte_val x mod 4 * 16 + byte_val y div 16) #
     b64_char (byte_val y mod 16 * 4 + byte_val z div 64) # b64_char (byte_val z mod 64) # b64encode r"

text \<open>
  \<open>b64decode(_, validate=True)\<close> on whole quads, the only texts it is called with: letters of the
  alphabet, and at most two pads at the very end.
\<close>

fun b64decode :: "bytes \<Rightarrow> bytes option" where
  "b64decode [] = Some []"
| "b64decode (a # b # c # d # r) = (case (b64_val a, b64_val b) of
     (Some v, Some w) \<Rightarrow>
       if r = [] \<and> c = CHR ''='' \<and> d = CHR ''='' then Some [byte_of (4 * v + w div 16)]
       else (case b64_val c of
         None \<Rightarrow> None
       | Some u \<Rightarrow>
           if r = [] \<and> d = CHR ''='' then Some [byte_of (4 * v + w div 16), byte_of (w mod 16 * 16 + u div 4)]
           else (case b64_val d of
             None \<Rightarrow> None
           | Some t \<Rightarrow> map_option (\<lambda>rest. byte_of (4 * v + w div 16) # byte_of (w mod 16 * 16 + u div 4) # byte_of (u mod 4 * 64 + t) # rest)
               (b64decode r)))
   | _ \<Rightarrow> None)"
| "b64decode _ = None"

lemma b64_val_char [simp]: "n < 64 \<Longrightarrow> b64_val (b64_char n) = Some n"
  by (auto simp: b64_val_def b64_char_def Let_def)

lemma b64_char_pad: "n < 64 \<Longrightarrow> b64_char n \<noteq> CHR ''=''"
proof
  assume n: "n < 64" and "b64_char n = CHR ''=''"
  then have "b64_val (CHR ''='') = Some n" using b64_val_char [OF n] by simp
  then show False by (simp add: b64_val_def)
qed

lemma byte_parts: "byte_val x div 4 < 64" "byte_val x div 16 < 16" "byte_val x div 64 < 4"
  using byte_val_less [of x] by linarith+

lemma sextets: "byte_val x mod 4 * 16 < 64" "byte_val x mod 4 * 16 + byte_val y div 16 < 64"
  "byte_val x mod 16 * 4 < 64" "byte_val x mod 16 * 4 + byte_val y div 64 < 64"
proof -
  have "byte_val x mod 4 < 4" "byte_val x mod 16 < 16" by simp_all
  then show "byte_val x mod 4 * 16 < 64" "byte_val x mod 4 * 16 + byte_val y div 16 < 64"
    "byte_val x mod 16 * 4 < 64" "byte_val x mod 16 * 4 + byte_val y div 64 < 64"
    using byte_parts [of y] by linarith+
qed

lemma octets: "byte_val x div 16 div 16 = 0" "byte_val x div 16 mod 16 = byte_val x div 16" "byte_val x div 64 mod 4 = byte_val x div 64"
  "byte_val x div 64 div 4 = 0"
  using byte_parts [of x] by simp_all

lemma b64_decode_encode [simp]: "b64decode (b64encode p) = Some p"
proof (induction p rule: b64encode.induct)
  case (2 x)
  show ?case by (simp add: byte_parts sextets)
next
  case (3 x y)
  show ?case by (simp add: byte_parts sextets octets b64_char_pad)
next
  case (4 x y z r)
  then show ?case by (simp add: byte_parts sextets octets b64_char_pad)
qed simp

lemma length_b64encode: "length (b64encode p) = 4 * ((length p + 2) div 3)"
proof (induction p rule: b64encode.induct)
  case (4 x y z r)
  then show ?case by simp presburger
qed simp_all

text \<open>The bytes the text forms use.\<close>

definition text_byte :: "char \<Rightarrow> bool" where
  "text_byte c \<longleftrightarrow> 43 \<le> byte_val c \<and> byte_val c \<le> 122"

lemma b64_char_text: "text_byte (b64_char n)"
  by (auto simp: b64_char_def text_byte_def)

lemma pad_text: "text_byte (CHR ''='')"
  by (simp add: text_byte_def)

lemma b64encode_text: "list_all text_byte (b64encode p)"
  using pad_text by (induction p rule: b64encode.induct) (simp_all add: b64_char_text)

lemma to_hex_text: "list_all text_byte (to_hex s)"
  using to_hex_lower [of s] by (auto simp: list_all_iff lower_hex_def text_byte_def)

lemma dec_str_text: "list_all text_byte (dec_str n)"
  using dec_str_digits [of n] by (auto simp: isdigit_def list_all_iff digit_char_def text_byte_def)

end
