(* ===== verification/Diag_Inputs.thy ===== *)
theory Diag_Inputs
  imports Diag_Export Text_Codecs Conf_Json
begin

text \<open>
  The inputs of the diagnostic controller, \<open>conf_proc_spp_diag_controller.py\<close>: the kernel command
  line (\<open>parse_boot_inputs\<close>), the late binding record (\<open>parse_binding_record\<close>) and the control plan
  (\<open>parse_control_plan\<close>). A \<open>ControllerFault\<close> is its reason and the last entered phase.
\<close>

type_synonym fault = "string \<times> int"

definition FLR_INPUT :: string where "FLR_INPUT = ''SPPFLR1_INPUT''"
definition FLR_BINDING :: string where "FLR_BINDING = ''SPPFLR1_BINDING''"
definition FLR_POLICY :: string where "FLR_POLICY = ''SPPFLR1_POLICY''"
definition FLR_TRACE :: string where "FLR_TRACE = ''SPPFLR1_TRACE''"
definition FLR_CHILD :: string where "FLR_CHILD = ''SPPFLR1_CHILD''"
definition FLR_GPU :: string where "FLR_GPU = ''SPPFLR1_GPU''"
definition FLR_TPM :: string where "FLR_TPM = ''SPPFLR1_TPM''"
definition FLR_IMA :: string where "FLR_IMA = ''SPPFLR1_IMA''"
definition FLR_EXPORT :: string where "FLR_EXPORT = ''SPPFLR1_EXPORT''"

lemmas flr_defs = FLR_INPUT_def FLR_BINDING_def FLR_POLICY_def FLR_TRACE_def FLR_CHILD_def FLR_GPU_def FLR_TPM_def FLR_IMA_def FLR_EXPORT_def

section \<open>Constants\<close>

definition TARGET_PROFILE :: string where "TARGET_PROFILE = ''azure:centralus:3:Standard_NCC40ads_H100_v5:ConfidentialVM:v1''"
definition CONTROLLER_PATH :: string where "CONTROLLER_PATH = ''/usr/lib/spp/spp-diag-controller''"
definition BINDING_SIZE :: nat where "BINDING_SIZE = 4096"
definition BINDING_MAGIC :: bytes where "BINDING_MAGIC = ''SPPBND1'' @ [CHR 0x00]"
definition BINDING_DOMAIN :: bytes where "BINDING_DOMAIN = ''sol-spp-diag-runtime-late-binding/v1'' @ [CHR 0x00]"
definition MAX_PLAN_BYTES :: nat where "MAX_PLAN_BYTES = 131072"
definition MAX_TRACE_BYTES :: nat where "MAX_TRACE_BYTES = 8 * 1024 * 1024"
definition DOMAIN_CONTROL_PLAN :: bytes where "DOMAIN_CONTROL_PLAN = ''sol-spp-diagbundle-control-plan-v1'' @ [CHR 0x00]"

definition PHASE_NAMES :: "string list" where
  "PHASE_NAMES = [''init'', ''cold_start'', ''synthetic_inference'', ''poison_import'', ''poison_module'', ''poison_library'', ''remote_package'',
     ''remote_model'', ''remote_plugin'', ''writable_exec'', ''attached_disk_exec'', ''remote_code'', ''jit_cache'', ''evidence_finalize'']"

definition CUDA :: string where "CUDA = ''/opt/solstone/bin/synthetic-runtime''"
definition MODEL :: string where "MODEL = ''/opt/solstone/models/synthetic-fixture-v1.bin''"
definition JIT :: string where "JIT = ''/var/cache/solstone/jit/synthetic-fixture-v1.so''"

definition POISONS :: "string list" where
  "POISONS = [''/var/lib/solstone/poison/import.py'', ''/var/lib/solstone/poison/module.so'', ''/var/lib/solstone/poison/libinject.so'']"

definition EXEC_DENIALS :: "string list" where
  "EXEC_DENIALS = [''/var/tmp/solstone-writable-exec'', ''/mnt/solstone-attached/foreign-exec'', ''/run/solstone/remote-code/foreign-exec'']"

text \<open>An endpoint: address family and socket kind as the Linux constants, host, port and operation.\<close>

record network =
  net_family :: int
  net_kind :: int
  net_host :: string
  net_port :: int
  net_operation :: string

definition NETWORKS :: "network list" where
  "NETWORKS = [\<lparr>net_family = 2, net_kind = 1, net_host = ''198.51.100.7'', net_port = 443, net_operation = ''connect''\<rparr>,
     \<lparr>net_family = 10, net_kind = 1, net_host = ''2001:db8::8'', net_port = 443, net_operation = ''connect''\<rparr>,
     \<lparr>net_family = 2, net_kind = 2, net_host = ''203.0.113.9'', net_port = 443, net_operation = ''sendmsg''\<rparr>]"

text \<open>\<open>socket.inet_pton(family, host).hex()\<close> of the three hosts.\<close>

definition host_hex :: "string \<Rightarrow> string" where
  "host_hex host = (if host = ''198.51.100.7'' then ''c6336407'' else if host = ''203.0.113.9'' then ''cb007109''
     else ''20010db8'' @ replicate 23 (CHR ''0'') @ ''8'')"

definition MODEL_FIXTURE_SHA256 :: string where
  "MODEL_FIXTURE_SHA256 = ''1ae959386fcd1dff3db63e50a9ebba53'' @ ''76d5d83f08ef98a2e584e7b0f878d6c8''"
definition JIT_FIXTURE_SHA256 :: string where
  "JIT_FIXTURE_SHA256 = ''2ac58716c034c97786a9ea8e641eb238'' @ ''98a7ad4910d3898fca1a56aea590c20a''"

section \<open>The command line\<close>

record ControllerIdentity =
  id_challenge :: bytes
  id_run :: bytes
  id_plan :: bytes
  id_binding :: string

record BootInputs =
  root_data_partuuid :: string
  root_hash_partuuid :: string
  root_hash :: string
  binding_partuuid :: string
  boot_identity :: ControllerIdentity

definition uuid_char :: "char \<Rightarrow> bool" where
  "uuid_char c \<longleftrightarrow> lower_hex c \<or> c = CHR ''-''"

text \<open>The pieces of \<open>_CMDLINE\<close>: the text before a group, its width and its characters.\<close>

definition CMDLINE_PARTS :: "(string \<times> nat \<times> (char \<Rightarrow> bool)) list" where
  "CMDLINE_PARTS =
     [(''ro rdinit=/spp-diag-handoff init=/usr/lib/spp/spp-diag-controller root=/dev/mapper/spp-diag-root '' @
         ''rootfstype=squashfs ip=off ima_policy=critical_data spp_diag.root_data=PARTUUID='', 36, uuid_char),
      ('' spp_diag.root_hash=PARTUUID='', 36, uuid_char), ('' spp_diag.roothash='', 64, lower_hex), ('' sol_spp_diag.challenge='', 64, lower_hex),
      ('' sol_spp_diag.run='', 64, lower_hex), ('' sol_spp_diag.control_plan='', 64, lower_hex),
      ('' -- sol_spp_diag.target_profile='' @ TARGET_PROFILE @ '' sol_spp_diag.binding_partuuid='', 36, uuid_char)]"

fun match_parts :: "(string \<times> nat \<times> (char \<Rightarrow> bool)) list \<Rightarrow> string \<Rightarrow> string list option" where
  "match_parts [] s = (if s = [] then Some [] else None)"
| "match_parts ((lit, n, ok) # ps) s =
     (let g = take n (drop (length lit) s) in
      if starts_with lit s \<and> length g = n \<and> list_all ok g then map_option (Cons g) (match_parts ps (drop (length lit + n) s)) else None)"

definition cmdline_text :: "string list \<Rightarrow> string" where
  "cmdline_text gs = concat (map2 (\<lambda>(lit, _) g. lit @ g) CMDLINE_PARTS gs)"

definition partuuid_ok :: "string \<Rightarrow> bool" where
  "partuuid_ok s \<longleftrightarrow> length s = 36 \<and> list_all (\<lambda>i. if i \<in> {8, 13, 18, 23} then s ! i = CHR ''-'' else lower_hex (s ! i)) [0..<36]"

definition rstrip_eol :: "bytes \<Rightarrow> bytes" where
  "rstrip_eol s = rev (dropWhile (\<lambda>c. c = CHR 0x0D \<or> c = CHR 0x0A) (rev s))"

definition parse_boot_inputs :: "string list \<Rightarrow> bytes \<Rightarrow> fault + BootInputs" where
  "parse_boot_inputs argv cmdline =
     (if length argv \<noteq> 3 \<or> argv ! 0 \<noteq> CONTROLLER_PATH \<or> argv ! 1 \<noteq> ''sol_spp_diag.target_profile='' @ TARGET_PROFILE then Inl (FLR_INPUT, 0)
      else if \<not> list_all (\<lambda>c. byte_val c < 128) cmdline then Inl (FLR_INPUT, 0)
      else let text = rstrip_eol cmdline in
        case match_parts CMDLINE_PARTS text of
          Some [data_uuid, hash_uuid, rhash, c, r, plan, binding_uuid] \<Rightarrow>
            if text \<noteq> cmdline_text [data_uuid, hash_uuid, rhash, c, r, plan, binding_uuid]
              \<or> argv ! 2 \<noteq> ''sol_spp_diag.binding_partuuid='' @ binding_uuid
              \<or> \<not> distinct [data_uuid, hash_uuid, binding_uuid] \<or> \<not> list_all partuuid_ok [data_uuid, hash_uuid, binding_uuid]
            then Inl (FLR_INPUT, 0)
            else Inr \<lparr>root_data_partuuid = data_uuid, root_hash_partuuid = hash_uuid, root_hash = rhash, binding_partuuid = binding_uuid,
              boot_identity = \<lparr>id_challenge = from_hex c, id_run = from_hex r, id_plan = from_hex plan, id_binding = []\<rparr>\<rparr>
        | _ \<Rightarrow> Inl (FLR_INPUT, 0))"

section \<open>The binding record\<close>

definition sha_text :: "json option \<Rightarrow> bool" where
  "sha_text v = (case v of Some (JStr s) \<Rightarrow> length s = 64 \<and> list_all (\<lambda>c. 48 \<le> c \<and> c \<le> 57 \<or> 97 \<le> c \<and> c \<le> 102) s | _ \<Rightarrow> False)"

definition js :: "string \<Rightarrow> json" where
  "js s = JStr (ascii s)"

definition text_of :: "json option \<Rightarrow> string" where
  "text_of v = (case v of Some (JStr s) \<Rightarrow> map byte_of s | _ \<Rightarrow> [])"

definition BINDING_KEYS :: "ustr set" where
  "BINDING_KEYS = ascii ` {''challenge'', ''control_plan_address'', ''image_binding_address'', ''input_closure_address'', ''run_identity'', ''schema'', ''target_profile_id''}"

definition parse_binding_record :: "bytes \<Rightarrow> BootInputs \<Rightarrow> fault + ControllerIdentity" where
  "parse_binding_record data boot =
     (let f = unpack [8, 2, 2, 4] (take 16 data); n = be_nat (f ! 3); end_pos = 16 + n; ident = boot_identity boot in
      if length data \<noteq> BINDING_SIZE then Inl (FLR_BINDING, 0)
      else if f ! 0 \<noteq> BINDING_MAGIC \<or> be_nat (f ! 1) \<noteq> 1 \<or> be_nat (f ! 2) \<noteq> 0 \<or> \<not> (2 \<le> n \<and> n \<le> BINDING_SIZE - 48) then Inl (FLR_BINDING, 0)
      else if pslice end_pos (end_pos + 32) data \<noteq> sha256 (BINDING_DOMAIN @ take end_pos data) \<or> list_ex (\<lambda>b. b \<noteq> CHR 0x00) (drop (end_pos + 32) data)
      then Inl (FLR_BINDING, 0)
      else case canonical_loads (pslice 16 end_pos data) of
        Inr (JObj ps) \<Rightarrow>
          if set (map fst ps) \<noteq> BINDING_KEYS \<or> map_of ps (ascii ''schema'') \<noteq> Some (js ''sol-spp-diag-runtime-late-binding/v1'')
            \<or> map_of ps (ascii ''target_profile_id'') \<noteq> Some (js TARGET_PROFILE) then Inl (FLR_BINDING, 0)
          else if map_of ps (ascii ''challenge'') \<noteq> Some (js (to_hex (id_challenge ident))) \<or> map_of ps (ascii ''run_identity'') \<noteq> Some (js (to_hex (id_run ident)))
            \<or> map_of ps (ascii ''control_plan_address'') \<noteq> Some (js (to_hex (id_plan ident))) then Inl (FLR_BINDING, 0)
          else if \<not> sha_text (map_of ps (ascii ''image_binding_address'')) \<or> \<not> sha_text (map_of ps (ascii ''input_closure_address'')) then Inl (FLR_BINDING, 0)
          else Inr (ident\<lparr>id_binding := text_of (map_of ps (ascii ''image_binding_address''))\<rparr>)
      | _ \<Rightarrow> Inl (FLR_BINDING, 0))"

section \<open>The control plan\<close>

definition PLAN_SCHEMA :: string where "PLAN_SCHEMA = ''sol-spp-diag-trace-control-plan-v1''"

definition PLAN_KEYS :: "string list" where
  "PLAN_KEYS = [''attached_disk_exec'', ''cold_start'', ''jit_cache'', ''phase_order'', ''poison_import'', ''poison_library'', ''poison_module'', ''pre_release'',
     ''remote_code'', ''remote_model'', ''remote_package'', ''remote_plugin'', ''schema'', ''synthetic_inference'', ''writable_exec'']"

text \<open>The members whose value is fixed: a dictionary of one key.\<close>

definition FIXED_MEMBERS :: "(string \<times> string \<times> string) list" where
  "FIXED_MEMBERS = [(''pre_release'', ''denied_exec_path_hex'', ''/usr/local/libexec/solstone/pre-release-denied''), (''cold_start'', ''exec_path_hex'', CUDA),
     (''poison_import'', ''path_hex'', POISONS ! 0), (''poison_module'', ''path_hex'', POISONS ! 1), (''poison_library'', ''path_hex'', POISONS ! 2),
     (''writable_exec'', ''path_hex'', EXEC_DENIALS ! 0), (''attached_disk_exec'', ''path_hex'', EXEC_DENIALS ! 1), (''remote_code'', ''exec_path_hex'', EXEC_DENIALS ! 2)]"

definition ENDPOINTS :: "(string \<times> network) list" where
  "ENDPOINTS = [(''remote_package'', NETWORKS ! 0), (''remote_model'', NETWORKS ! 1), (''remote_plugin'', NETWORKS ! 2)]"

definition member :: "(ustr \<times> json) list \<Rightarrow> string \<Rightarrow> json option" where
  "member ps key = map_of ps (ascii key)"

definition exact_keys :: "(ustr \<times> json) list \<Rightarrow> string list \<Rightarrow> bool" where
  "exact_keys ps keys \<longleftrightarrow> set (map fst ps) = ascii ` set keys"

definition synthetic_ok :: "json option \<Rightarrow> bool" where
  "synthetic_ok v = (case v of
     Some (JObj ps) \<Rightarrow> exact_keys ps [''gpu_witness_policy_address'', ''model_path_hex'', ''model_sha256'', ''output_oracle_address''] \<and>
       member ps ''model_path_hex'' = Some (js (to_hex MODEL)) \<and> member ps ''model_sha256'' = Some (js MODEL_FIXTURE_SHA256) \<and>
       sha_text (member ps ''gpu_witness_policy_address'') \<and> sha_text (member ps ''output_oracle_address'')
   | _ \<Rightarrow> False)"

definition jit_ok :: "json option \<Rightarrow> bool" where
  "jit_ok v = (case v of
     Some (JObj ps) \<Rightarrow> exact_keys ps [''object_sha256'', ''path_hex''] \<and> member ps ''path_hex'' = Some (js (to_hex JIT)) \<and>
       member ps ''object_sha256'' = Some (js JIT_FIXTURE_SHA256)
   | _ \<Rightarrow> False)"

definition endpoint_ok :: "json option \<Rightarrow> network \<Rightarrow> bool" where
  "endpoint_ok v net = (case v of
     Some (JObj ps) \<Rightarrow> exact_keys ps [''address_hex'', ''family'', ''operation'', ''port''] \<and> member ps ''family'' = Some (JInt (net_family net)) \<and>
       member ps ''operation'' = Some (js (net_operation net)) \<and> member ps ''port'' = Some (JInt (net_port net)) \<and>
       member ps ''address_hex'' = Some (js (host_hex (net_host net)))
   | _ \<Rightarrow> False)"

definition plan_ok :: "(ustr \<times> json) list \<Rightarrow> bool" where
  "plan_ok ps \<longleftrightarrow> exact_keys ps PLAN_KEYS \<and> member ps ''schema'' = Some (js PLAN_SCHEMA) \<and> member ps ''phase_order'' = Some (JArr (map js PHASE_NAMES)) \<and>
     list_all (\<lambda>(key, k, v). member ps key = Some (JObj [(ascii k, js (to_hex v))])) FIXED_MEMBERS \<and>
     synthetic_ok (member ps ''synthetic_inference'') \<and> jit_ok (member ps ''jit_cache'') \<and> list_all (\<lambda>(key, net). endpoint_ok (member ps key) net) ENDPOINTS"

definition parse_control_plan :: "bytes \<Rightarrow> bytes \<Rightarrow> fault + json" where
  "parse_control_plan data expected_address =
     (if length data > MAX_PLAN_BYTES then Inl (FLR_INPUT, 1)
      else if sha256 (DOMAIN_CONTROL_PLAN @ data) \<noteq> expected_address then Inl (FLR_BINDING, 1)
      else case canonical_loads data of
        Inr (JObj ps) \<Rightarrow> if plan_ok ps then Inr (JObj ps) else Inl (FLR_INPUT, 1)
      | _ \<Rightarrow> Inl (FLR_INPUT, 1))"

text \<open>\<open>plan["synthetic_inference"]["output_oracle_address"]\<close> of a parsed plan.\<close>

definition oracle_address :: "json \<Rightarrow> string" where
  "oracle_address plan = (case plan of
     JObj ps \<Rightarrow> (case member ps ''synthetic_inference'' of Some (JObj qs) \<Rightarrow> text_of (member qs ''output_oracle_address'') | _ \<Rightarrow> [])
   | _ \<Rightarrow> [])"

section \<open>Commands and the output oracle\<close>

datatype command = ADVANCE | SEAL

primrec command_code :: "command \<Rightarrow> nat" where
  "command_code ADVANCE = 1"
| "command_code SEAL = 2"

definition CMD_MAGIC :: bytes where "CMD_MAGIC = ''SPPCMD1'' @ [CHR 0x00]"
definition CMD_SIZE :: nat where "CMD_SIZE = 128"
definition SEAL_PHASE :: nat where "SEAL_PHASE = 15"

definition encode_command :: "command \<Rightarrow> nat \<Rightarrow> ControllerIdentity \<Rightarrow> bytes option" where
  "encode_command kind phase ident =
     (if \<not> phase \<le> 0xFFFF then None
      else if length (id_challenge ident) \<noteq> 32 \<or> length (id_run ident) \<noteq> 32 \<or> length (id_plan ident) \<noteq> 32 then None
      else Some (CMD_MAGIC @ to_be 2 1 @ to_be 2 (command_code kind) @ to_be 4 CMD_SIZE @ id_challenge ident @ id_run ident @ id_plan ident @ to_be 2 phase
        @ replicate 14 (CHR 0x00)))"

definition seed :: "bytes \<Rightarrow> bytes \<Rightarrow> bytes" where
  "seed c r = sha256 (''sol-spp-diag-input-seed-v1'' @ [CHR 0x00] @ c @ r)"

text \<open>The loop \<open>output[index % 32] ^= value\<close>.\<close>

fun xor_into :: "nat \<Rightarrow> bytes \<Rightarrow> bytes \<Rightarrow> bytes" where
  "xor_into i out [] = out"
| "xor_into i out (v # vs) = xor_into (Suc i) (out[i mod 32 := byte_of (byte_val (out ! (i mod 32)) XOR byte_val v)]) vs"

definition output_oracle :: "bytes \<Rightarrow> bytes \<Rightarrow> bytes \<Rightarrow> bytes option" where
  "output_oracle model c r =
     (if \<not> (1 \<le> length model \<and> length model \<le> MAX_TRACE_BYTES) then None
      else Some (''SPPGPUO1'' @ to_be 2 1 @ to_be 2 1 @ to_be 4 32 @ xor_into 0 (seed c r) model))"

section \<open>Receipt and quote\<close>

definition domain_address :: "bytes \<Rightarrow> json \<Rightarrow> json_error + string" where
  "domain_address domain obj = bindE (canonical_dumps obj) (\<lambda>w. Inr (to_hex (sha256 (domain @ w))))"

definition DOMAIN_INNER_RECEIPT :: bytes where "DOMAIN_INNER_RECEIPT = ''sol-spp-diagbundle-inner-receipt-v1'' @ [CHR 0x00]"
definition DOMAIN_QUOTE_QD :: bytes where "DOMAIN_QUOTE_QD = ''sol-spp-diagbundle-quote-qd-v1'' @ [CHR 0x00]"

definition receipt_row :: "string \<Rightarrow> bytes \<Rightarrow> json" where
  "receipt_row path data = JObj [(ascii ''path'', js path), (ascii ''content_kind'', js ''bytes''), (ascii ''size_bytes'', JInt (int (length data))),
     (ascii ''sha256'', js (to_hex (sha256 data)))]"

text \<open>The fields of the receipt are also those of \<open>inner_receipt_digest\<close>.\<close>

definition receipt_fields :: "ControllerIdentity \<Rightarrow> (string \<times> bytes) list \<Rightarrow> json" where
  "receipt_fields ident payloads = JObj [(ascii ''schema'', js ''sol-spp-diagbundle-inner-receipt/v1''), (ascii ''node_kind'', js ''inner_receipt''),
     (ascii ''artifact_state'', js ''diagnostic_unqualified''), (ascii ''challenge'', js (to_hex (id_challenge ident))),
     (ascii ''run_identity'', js (to_hex (id_run ident))), (ascii ''signed_image_binding_address'', js (id_binding ident)),
     (ascii ''target_profile_id'', js TARGET_PROFILE), (ascii ''control_plan_address'', js (to_hex (id_plan ident))),
     (ascii ''inventory'', JArr (map (\<lambda>(path, data). receipt_row path data) payloads))]"

definition inner_receipt_digest :: "ControllerIdentity \<Rightarrow> (string \<times> bytes) list \<Rightarrow> json_error + string" where
  "inner_receipt_digest ident payloads = domain_address DOMAIN_INNER_RECEIPT (receipt_fields ident payloads)"

definition quote_qualifying_data :: "ControllerIdentity \<Rightarrow> string \<Rightarrow> json_error + string" where
  "quote_qualifying_data ident receipt_digest = domain_address DOMAIN_QUOTE_QD (JObj [(ascii ''challenge'', js (to_hex (id_challenge ident))),
     (ascii ''control_plan_address'', js (to_hex (id_plan ident))), (ascii ''inner_receipt_digest'', js receipt_digest),
     (ascii ''run_identity'', js (to_hex (id_run ident))), (ascii ''signed_image_binding_address'', js (id_binding ident)),
     (ascii ''target_profile_id'', js TARGET_PROFILE)])"

definition PCR_SELECTION :: "nat list" where
  "PCR_SELECTION = [0, 2, 4, 7, 8, 9, 10, 11, 12, 13, 14, 15, 16, 22, 23]"

definition build_quote_invocation :: "ControllerIdentity \<Rightarrow> string \<Rightarrow> json_error + string list" where
  "build_quote_invocation ident receipt_digest = bindE (quote_qualifying_data ident receipt_digest) (\<lambda>qd.
     Inr [''/usr/bin/tpm2_quote'', ''-c'', ''0x81000003'', ''-l'', ''sha256:'' @ join_char (CHR '','') (map dec_str PCR_SELECTION), ''-q'', to_hex (from_hex qd), ''-g'',
       ''sha256'', ''--scheme'', ''rsassa'', ''-m'', ''/run/spp-diag/quote.msg'', ''-s'', ''/run/spp-diag/quote.sig'', ''-o'', ''/run/spp-diag/quote.pcrs''])"

definition GPU_NONCE_DOMAIN :: bytes where "GPU_NONCE_DOMAIN = ''sol-spp-diag-gpu-evidence-nonce-v1'' @ [CHR 0x00]"

definition gpu_nonce :: "ControllerIdentity \<Rightarrow> json \<Rightarrow> bytes \<Rightarrow> bytes" where
  "gpu_nonce ident plan output = sha256 (GPU_NONCE_DOMAIN @ id_challenge ident @ id_run ident @ id_plan ident @ from_hex (id_binding ident)
     @ from_hex (oracle_address plan) @ sha256 output)"

definition gpu_nonce_matches :: "bytes \<Rightarrow> bytes \<Rightarrow> bool" where
  "gpu_nonce_matches data expected =
     (if length data < 48 \<or> take 8 data \<noteq> ''SPPGPU1'' @ [CHR 0x00] \<or> be_nat (pslice 8 10 data) \<noteq> 7 then False
      else be_nat (pslice 10 12 data) = 1 \<and> be_nat (pslice 12 16 data) = 32 \<and> pslice 16 48 data = expected)"

end
