(* ===== verification/Uart_Record.thy ===== *)
theory Uart_Record
  imports Diag_Export Text_Codecs
begin

text \<open>
  The record codec of the diagnostic serial line, \<open>conf_proc_spp_diag_uart.py\<close>
  (\<open>encode_uart_record\<close>, \<open>inspect_uart_record\<close>, \<open>decode_uart_record\<close>), with the closed
  reasons of \<open>conf_proc_spp_diag_uart_reasons.py\<close>. The constructor \<open>UART_ASSERTION\<close> is the
  \<open>AssertionError\<close> on the overhead bound.
\<close>

section \<open>Constants and errors\<close>

datatype uart_error = UART_ASCII | UART_BASE64 | UART_DEADLINE | UART_HASH | UART_IDENTITY | UART_KIND | UART_LIMIT | UART_SEQUENCE | UART_STATE
  | UART_WRITE | UART_ASSERTION

definition MAGIC :: bytes where "MAGIC = ''SPPUART/1''"
definition MARKER :: bytes where "MARKER = MAGIC @ ''|k=''"
definition MAX_S_PAYLOAD_BYTES :: nat where "MAX_S_PAYLOAD_BYTES = 65536"
definition MAX_SNAPSHOT_BYTES :: nat where "MAX_SNAPSHOT_BYTES = 16 * 1024 * 1024"
definition MAX_FRAMES :: nat where "MAX_FRAMES = 258"
definition MAX_WIRE_BYTES :: nat where "MAX_WIRE_BYTES = 22500000"
definition MAX_DECODED_BYTES :: nat where "MAX_DECODED_BYTES = MAX_SNAPSHOT_BYTES + 1 + FAILURE_TERMINAL_SIZE"
definition MAX_NON_PAYLOAD_OVERHEAD :: nat where "MAX_NON_PAYLOAD_OVERHEAD = 232"
definition MAX_RECORD_WIRE_BYTES :: nat where "MAX_RECORD_WIRE_BYTES = MAX_NON_PAYLOAD_OVERHEAD + 4 * ((MAX_S_PAYLOAD_BYTES + 2) div 3)"

definition KIND_SUCCESS :: string where "KIND_SUCCESS = ''S''"
definition KIND_INVALIDATE :: string where "KIND_INVALIDATE = ''I''"
definition KIND_FAILURE :: string where "KIND_FAILURE = ''F''"
definition KINDS :: "string list" where "KINDS = [KIND_SUCCESS, KIND_INVALIDATE, KIND_FAILURE]"

section \<open>Field checks\<close>

definition require_identity :: "bytes \<Rightarrow> uart_error + unit" where
  "require_identity value = (if length value \<noteq> 32 then Inl UART_IDENTITY else Inr ())"

definition decimal :: "bytes \<Rightarrow> nat \<Rightarrow> uart_error + nat" where
  "decimal field maximum =
     (if field = [] \<or> field \<noteq> ''0'' \<and> (hd field = CHR ''0'' \<or> \<not> isdigit field) then Inl UART_ASCII
      else if field = ''0'' then Inr 0
      else if \<not> isdigit field \<or> length field > length (dec_str maximum) then Inl UART_LIMIT
      else if dec_val field > maximum then Inl UART_LIMIT
      else Inr (dec_val field))"

definition hex_field :: "bytes \<Rightarrow> uart_error + bytes" where
  "hex_field field = (if length field \<noteq> 64 \<or> \<not> list_all lower_hex field then Inl UART_ASCII else Inr (from_hex field))"

definition validate_kind_length :: "string \<Rightarrow> nat \<Rightarrow> uart_error + unit" where
  "validate_kind_length kind n =
     (if kind = KIND_SUCCESS then (if \<not> (1 \<le> n \<and> n \<le> MAX_S_PAYLOAD_BYTES) then Inl UART_LIMIT else Inr ())
      else if kind = KIND_INVALIDATE then (if n \<noteq> 1 then Inl UART_LIMIT else Inr ())
      else if kind = KIND_FAILURE then (if n \<noteq> FAILURE_TERMINAL_SIZE then Inl UART_LIMIT else Inr ())
      else Inl UART_KIND)"

section \<open>Records\<close>

record UartFrame =
  frame_kind :: string
  frame_challenge :: bytes
  frame_run_identity :: bytes
  frame_sequence :: nat
  frame_payload :: bytes
  frame_wire :: bytes

record UartRecordHeader =
  header_kind :: string
  header_challenge :: bytes
  header_run_identity :: bytes
  header_sequence :: nat
  header_length :: nat
  header_digest :: bytes
  header_encoded :: bytes

definition encode_uart_record :: "string \<Rightarrow> bytes \<Rightarrow> bytes \<Rightarrow> int \<Rightarrow> bytes \<Rightarrow> uart_error + bytes" where
  "encode_uart_record kind challenge run_identity sequence payload =
     bindE (require_identity challenge) (\<lambda>_. bindE (require_identity run_identity) (\<lambda>_.
     if kind \<notin> set KINDS then Inl UART_KIND
     else if \<not> (0 \<le> sequence \<and> sequence < int MAX_FRAMES) then Inl UART_SEQUENCE
     else bindE (validate_kind_length kind (length payload)) (\<lambda>_.
       if kind = KIND_INVALIDATE \<and> payload \<noteq> [CHR 0x00] then Inl UART_STATE
       else let encoded = b64encode payload;
                rec = MAGIC @ ''|k='' @ kind @ ''|c='' @ to_hex challenge @ ''|r='' @ to_hex run_identity @ ''|n='' @ dec_str (nat sequence)
                  @ ''|l='' @ dec_str (length payload) @ ''|h='' @ to_hex (sha256 payload) @ ''|b='' @ encoded @ [CHR 0x0A]
         in if length rec - length encoded > MAX_NON_PAYLOAD_OVERHEAD \<or> length rec > MAX_RECORD_WIRE_BYTES then Inl UART_ASSERTION
            else Inr rec)))"

definition inspect_uart_record :: "bytes \<Rightarrow> bytes \<Rightarrow> bytes \<Rightarrow> uart_error + UartRecordHeader" where
  "inspect_uart_record rec expected_challenge expected_run_identity =
     bindE (require_identity expected_challenge) (\<lambda>_. bindE (require_identity expected_run_identity) (\<lambda>_.
     if rec = [] \<or> last rec \<noteq> CHR 0x0A \<or> length rec > MAX_RECORD_WIRE_BYTES then Inl UART_ASCII
     else if \<not> list_all (\<lambda>b. 32 \<le> byte_val b \<and> byte_val b \<le> 126) (butlast rec) then Inl UART_ASCII
     else let fields = split_char (CHR ''|'') (butlast rec) in
       if length fields \<noteq> 8 \<or> fields ! 0 \<noteq> MAGIC then Inl UART_ASCII
       else if \<not> list_all2 (\<lambda>field prefix. starts_with prefix field) (tl fields) [''k='', ''c='', ''r='', ''n='', ''l='', ''h='', ''b='']
       then Inl UART_ASCII
       else let kind = drop 2 (fields ! 1) in
         if length kind \<noteq> 1 \<or> kind \<notin> {''S'', ''I'', ''F''} then Inl UART_KIND
         else bindE (hex_field (drop 2 (fields ! 2))) (\<lambda>challenge.
           bindE (hex_field (drop 2 (fields ! 3))) (\<lambda>run_identity.
           if challenge \<noteq> expected_challenge \<or> run_identity \<noteq> expected_run_identity then Inl UART_IDENTITY
           else bindE (decimal (drop 2 (fields ! 4)) (MAX_FRAMES - 1)) (\<lambda>sequence.
             bindE (decimal (drop 2 (fields ! 5)) MAX_S_PAYLOAD_BYTES) (\<lambda>n.
             bindE (validate_kind_length kind n) (\<lambda>_.
             bindE (hex_field (drop 2 (fields ! 6))) (\<lambda>digest.
             let encoded = drop 2 (fields ! 7) in
             if length encoded \<noteq> 4 * ((n + 2) div 3) then Inl UART_BASE64
             else Inr \<lparr>header_kind = kind, header_challenge = challenge, header_run_identity = run_identity, header_sequence = sequence,
               header_length = n, header_digest = digest, header_encoded = encoded\<rparr>)))))) ))"

definition decode_uart_record :: "bytes \<Rightarrow> bytes \<Rightarrow> bytes \<Rightarrow> uart_error + UartFrame" where
  "decode_uart_record rec expected_challenge expected_run_identity =
     bindE (inspect_uart_record rec expected_challenge expected_run_identity) (\<lambda>header.
     case b64decode (header_encoded header) of
       None \<Rightarrow> Inl UART_BASE64
     | Some payload \<Rightarrow>
         if length payload \<noteq> header_length header \<or> b64encode payload \<noteq> header_encoded header then Inl UART_BASE64
         else if sha256 payload \<noteq> header_digest header then Inl UART_HASH
         else if header_kind header = KIND_INVALIDATE \<and> payload \<noteq> [CHR 0x00] then Inl UART_STATE
         else Inr \<lparr>frame_kind = header_kind header, frame_challenge = header_challenge header, frame_run_identity = header_run_identity header,
           frame_sequence = header_sequence header, frame_payload = payload, frame_wire = rec\<rparr>)"

section \<open>The canonical record\<close>

text \<open>The fields of a record, and when a frame has one.\<close>

definition record_fields :: "string \<Rightarrow> bytes \<Rightarrow> bytes \<Rightarrow> nat \<Rightarrow> bytes \<Rightarrow> bytes list" where
  "record_fields kind c r n p = [MAGIC, ''k='' @ kind, ''c='' @ to_hex c, ''r='' @ to_hex r, ''n='' @ dec_str n, ''l='' @ dec_str (length p),
     ''h='' @ to_hex (sha256 p), ''b='' @ b64encode p]"

definition uart_wire :: "bytes \<Rightarrow> bytes \<Rightarrow> nat \<Rightarrow> string \<times> bytes \<Rightarrow> bytes" where
  "uart_wire c r n = (\<lambda>(kind, p). join_char (CHR ''|'') (record_fields kind c r n p) @ [CHR 0x0A])"

definition frame_ok :: "string \<times> bytes \<Rightarrow> bool" where
  "frame_ok = (\<lambda>(kind, p). kind = KIND_SUCCESS \<and> 1 \<le> length p \<and> length p \<le> MAX_S_PAYLOAD_BYTES \<or> kind = KIND_INVALIDATE \<and> p = [CHR 0x00] \<or>
     kind = KIND_FAILURE \<and> length p = FAILURE_TERMINAL_SIZE)"

lemmas uart_kinds = KIND_SUCCESS_def KIND_INVALIDATE_def KIND_FAILURE_def KINDS_def

lemma dec_str_length: "n < 10 ^ k \<Longrightarrow> 0 < k \<Longrightarrow> length (dec_str n) \<le> k"
proof (induction n arbitrary: k rule: dec_str.induct)
  case (1 n)
  show ?case
  proof (cases "n < 10")
    case True
    then show ?thesis using 1(3) by (subst dec_str.simps) simp
  next
    case False
    obtain j where k: "k = Suc j" using 1(3) by (cases k) simp_all
    with False 1(2) have "0 < j" by (cases j) simp_all
    note j = k this
    then have "n div 10 < 10 ^ j" using 1(2) by (simp add: less_mult_imp_div_less mult.commute)
    then have "length (dec_str (n div 10)) \<le> j" using 1(1) [OF False _ j(2)] by blast
    then show ?thesis using False j by (subst dec_str.simps) simp
  qed
qed

lemma frame_ok_length: "frame_ok (kind, p) \<Longrightarrow> 1 \<le> length p \<and> length p \<le> MAX_S_PAYLOAD_BYTES \<and> length kind = 1"
  by (auto simp: frame_ok_def uart_kinds FAILURE_TERMINAL_SIZE_def MAX_S_PAYLOAD_BYTES_def)

lemma validate_iff: "validate_kind_length kind (length p) = Inr u \<and> \<not> (kind = KIND_INVALIDATE \<and> p \<noteq> [CHR 0x00]) \<longleftrightarrow> frame_ok (kind, p)"
  by (auto simp: validate_kind_length_def frame_ok_def uart_kinds)

lemma uart_wire_eq: "uart_wire c r n (kind, p) = MAGIC @ ''|k='' @ kind @ ''|c='' @ to_hex c @ ''|r='' @ to_hex r @ ''|n='' @ dec_str n
    @ ''|l='' @ dec_str (length p) @ ''|h='' @ to_hex (sha256 p) @ ''|b='' @ b64encode p @ [CHR 0x0A]"
  by (simp add: uart_wire_def record_fields_def join_char_Cons)

lemma uart_wire_length:
  assumes "length c = 32" "length r = 32" "n < MAX_FRAMES" "frame_ok (kind, p)"
  shows "length (uart_wire c r n (kind, p)) \<le> 232 + length (b64encode p)" "length (b64encode p) \<le> 87384"
proof -
  have "length (dec_str n) \<le> 3" "length (dec_str (length p)) \<le> 5"
    using assms(3) dec_str_length [of n 3] dec_str_length [of "length p" 5] frame_ok_length [OF assms(4)]
    by (simp_all add: MAX_FRAMES_def MAX_S_PAYLOAD_BYTES_def)
  then show "length (uart_wire c r n (kind, p)) \<le> 232 + length (b64encode p)"
    using assms(1,2) frame_ok_length [OF assms(4)] by (simp add: uart_wire_eq MAGIC_def)
  have "length p \<le> 65536" using frame_ok_length [OF assms(4)] by (simp add: MAX_S_PAYLOAD_BYTES_def)
  then show "length (b64encode p) \<le> 87384" by (simp add: length_b64encode)
qed

text \<open>The encoder returns the canonical record of every frame it can carry; its size assertion never fails.\<close>

lemma encode_uart_iff: "encode_uart_record kind c r s p = Inr w \<longleftrightarrow>
    length c = 32 \<and> length r = 32 \<and> 0 \<le> s \<and> s < int MAX_FRAMES \<and> frame_ok (kind, p) \<and> w = uart_wire c r (nat s) (kind, p)"
proof -
  have "frame_ok (kind, p) \<Longrightarrow> kind \<in> set KINDS" by (auto simp: frame_ok_def uart_kinds)
  moreover have "length c = 32 \<Longrightarrow> length r = 32 \<Longrightarrow> 0 \<le> s \<Longrightarrow> s < int MAX_FRAMES \<Longrightarrow> frame_ok (kind, p) \<Longrightarrow>
      \<not> (length (uart_wire c r (nat s) (kind, p)) - length (b64encode p) > MAX_NON_PAYLOAD_OVERHEAD \<or>
         length (uart_wire c r (nat s) (kind, p)) > MAX_RECORD_WIRE_BYTES)"
    using uart_wire_length [of c r "nat s" kind p] by (simp add: nat_less_iff MAX_NON_PAYLOAD_OVERHEAD_def MAX_RECORD_WIRE_BYTES_def MAX_S_PAYLOAD_BYTES_def)
  ultimately show ?thesis
    unfolding encode_uart_record_def require_identity_def uart_wire_eq [symmetric] Let_def using validate_iff [of kind p]
    by (auto simp: res_simps)
qed

lemma dec_str_mono: "m \<le> n \<Longrightarrow> length (dec_str m) \<le> length (dec_str n)"
proof (induction n arbitrary: m rule: dec_str.induct)
  case (1 n)
  show ?case
  proof (cases "m < 10")
    case True
    then show ?thesis by (subst (1 2) dec_str.simps) simp
  next
    case False
    then have "length (dec_str (m div 10)) \<le> length (dec_str (n div 10))" using 1 by (simp add: div_le_mono)
    then show ?thesis using False 1(2) by (subst (1 2) dec_str.simps) simp
  qed
qed

lemma decimal_iff: "decimal f m = Inr v \<longleftrightarrow> f = dec_str v \<and> v \<le> m"
proof
  assume "decimal f m = Inr v"
  then show "f = dec_str v \<and> v \<le> m" using dec_str_val [of f] by (auto simp: decimal_def dec_str_0 split: if_splits)
next
  assume v: "f = dec_str v \<and> v \<le> m"
  show "decimal f m = Inr v"
  proof (cases "v = 0")
    case True
    then show ?thesis using v by (simp add: decimal_def dec_str_0)
  next
    case False
    then have "hd (dec_str v) \<noteq> CHR ''0''" by (simp add: dec_str_head)
    with v dec_str_digits [of v] dec_str_mono [of v m] show ?thesis by (auto simp: decimal_def isdigit_def)
  qed
qed

lemma hex_field_iff: "hex_field f = Inr b \<longleftrightarrow> length b = 32 \<and> f = to_hex b"
  using to_from_hex [of f] to_hex_lower [of b] by (auto simp: hex_field_def length_from_hex)

text \<open>What a record that passes inspection looks like.\<close>

definition header_fields :: "UartRecordHeader \<Rightarrow> bytes list" where
  "header_fields h = [MAGIC, ''k='' @ header_kind h, ''c='' @ to_hex (header_challenge h), ''r='' @ to_hex (header_run_identity h),
     ''n='' @ dec_str (header_sequence h), ''l='' @ dec_str (header_length h), ''h='' @ to_hex (header_digest h), ''b='' @ header_encoded h]"

definition header_ok :: "bytes \<Rightarrow> bytes \<Rightarrow> UartRecordHeader \<Rightarrow> bool" where
  "header_ok c r h \<longleftrightarrow> header_kind h \<in> set KINDS \<and> header_challenge h = c \<and> header_run_identity h = r \<and> length c = 32 \<and> length r = 32 \<and>
     header_sequence h < MAX_FRAMES \<and> header_length h \<le> MAX_S_PAYLOAD_BYTES \<and> validate_kind_length (header_kind h) (header_length h) = Inr () \<and>
     length (header_digest h) = 32 \<and> length (header_encoded h) = 4 * ((header_length h + 2) div 3)"

lemma eight_fields:
  assumes "length fs = 8" "fs ! 0 = MAGIC"
    "list_all2 (\<lambda>f p. starts_with p f) (tl fs) [''k='', ''c='', ''r='', ''n='', ''l='', ''h='', ''b='']"
  shows "fs = [MAGIC, ''k='' @ drop 2 (fs ! 1), ''c='' @ drop 2 (fs ! 2), ''r='' @ drop 2 (fs ! 3), ''n='' @ drop 2 (fs ! 4),
    ''l='' @ drop 2 (fs ! 5), ''h='' @ drop 2 (fs ! 6), ''b='' @ drop 2 (fs ! 7)]"
  using assms by (auto simp: list_all2_Cons2 starts_with_append numeral_eq_Suc length_Suc_conv)

lemma inspect_fields:
  assumes "inspect_uart_record rec c r = Inr h"
  shows "rec = join_char (CHR ''|'') (header_fields h) @ [CHR 0x0A] \<and> header_ok c r h"
proof -
  let ?fs = "split_char (CHR ''|'') (butlast rec)"
  from assms have a: "length c = 32" "length r = 32" "rec \<noteq> []" "last rec = CHR 0x0A" "length ?fs = 8" "?fs ! 0 = MAGIC"
    "list_all2 (\<lambda>f p. starts_with p f) (tl ?fs) [''k='', ''c='', ''r='', ''n='', ''l='', ''h='', ''b='']"
    by (auto simp: inspect_uart_record_def require_identity_def Let_def res_simps split: if_splits)
  from assms a have b: "header_kind h = drop 2 (?fs ! 1)" "header_kind h \<in> set KINDS" "drop 2 (?fs ! 2) = to_hex c" "drop 2 (?fs ! 3) = to_hex r"
      "header_challenge h = c" "header_run_identity h = r" "drop 2 (?fs ! 4) = dec_str (header_sequence h)" "header_sequence h \<le> MAX_FRAMES - 1"
      "drop 2 (?fs ! 5) = dec_str (header_length h)" "header_length h \<le> MAX_S_PAYLOAD_BYTES"
      "validate_kind_length (header_kind h) (header_length h) = Inr ()" "length (header_digest h) = 32" "drop 2 (?fs ! 6) = to_hex (header_digest h)"
      "header_encoded h = drop 2 (?fs ! 7)" "length (header_encoded h) = 4 * ((header_length h + 2) div 3)"
    by (auto simp: inspect_uart_record_def require_identity_def Let_def res_simps hex_field_iff decimal_iff uart_kinds split: if_splits)
  have "?fs = header_fields h" using eight_fields [OF a(5-7)] b by (simp add: header_fields_def)
  then have "butlast rec = join_char (CHR ''|'') (header_fields h)" by (metis join_split)
  then have "rec = join_char (CHR ''|'') (header_fields h) @ [CHR 0x0A]" using a(3,4) append_butlast_last_id by metis
  moreover have "header_ok c r h" using a(1,2) b by (auto simp: header_ok_def MAX_FRAMES_def)
  ultimately show ?thesis by blast
qed

lemma text_byte_free: "list_all text_byte s \<Longrightarrow> CHR ''|'' \<notin> set s \<and> CHR 0x0A \<notin> set s"
  by (auto simp: list_all_iff text_byte_def)

lemma text_printable: "list_all text_byte s \<Longrightarrow> list_all (\<lambda>b. 32 \<le> byte_val b \<and> byte_val b \<le> 126) s"
  by (auto simp: list_all_iff text_byte_def)

lemma kind_text: "kind \<in> set KINDS \<Longrightarrow> list_all text_byte kind"
  by (auto simp: uart_kinds text_byte_def)

lemmas field_texts = to_hex_text dec_str_text b64encode_text

definition wire_header :: "bytes \<Rightarrow> bytes \<Rightarrow> nat \<Rightarrow> string \<times> bytes \<Rightarrow> UartRecordHeader" where
  "wire_header c r n = (\<lambda>(kind, p). \<lparr>header_kind = kind, header_challenge = c, header_run_identity = r, header_sequence = n, header_length = length p,
     header_digest = sha256 p, header_encoded = b64encode p\<rparr>)"

definition wire_frame :: "bytes \<Rightarrow> bytes \<Rightarrow> nat \<Rightarrow> string \<times> bytes \<Rightarrow> UartFrame" where
  "wire_frame c r n = (\<lambda>(kind, p). \<lparr>frame_kind = kind, frame_challenge = c, frame_run_identity = r, frame_sequence = n, frame_payload = p,
     frame_wire = uart_wire c r n (kind, p)\<rparr>)"

lemma magic_text: "list_all text_byte MAGIC" "text_byte (CHR ''k'')" "text_byte (CHR ''c'')" "text_byte (CHR ''r'')" "text_byte (CHR ''n'')"
  "text_byte (CHR ''l'')" "text_byte (CHR ''h'')" "text_byte (CHR ''b'')" "text_byte (CHR ''='')"
  by (simp_all add: MAGIC_def text_byte_def)

lemma record_fields_text: "kind \<in> set KINDS \<Longrightarrow> list_all (list_all text_byte) (record_fields kind c r n p)"
  by (simp add: record_fields_def field_texts kind_text magic_text)

lemma printable_join: "list_all (list_all text_byte) fs \<Longrightarrow>
    list_all (\<lambda>b. 32 \<le> byte_val b \<and> byte_val b \<le> 126) (join_char (CHR ''|'') fs) \<and> CHR 0x0A \<notin> set (join_char (CHR ''|'') fs)"
  by (induction "CHR ''|''" fs rule: join_char.induct) (auto simp: text_printable text_byte_free)

lemma split_record: "kind \<in> set KINDS \<Longrightarrow> split_char (CHR ''|'') (join_char (CHR ''|'') (record_fields kind c r n p)) = record_fields kind c r n p"
  using record_fields_text [of kind c r n p] by (intro split_join) (auto simp: list_all_iff text_byte_def record_fields_def)

lemma frame_kind_ok: "frame_ok (kind, p) \<Longrightarrow> kind \<in> set KINDS \<and> length kind = 1 \<and> kind \<in> {''S'', ''I'', ''F''}"
  by (auto simp: frame_ok_def uart_kinds)

lemma inspect_wire:
  assumes "length c = 32" "length r = 32" "n < MAX_FRAMES" "frame_ok (kind, p)"
  shows "inspect_uart_record (uart_wire c r n (kind, p)) c r = Inr (wire_header c r n (kind, p))"
proof -
  let ?fs = "record_fields kind c r n p"
  have k: "kind \<in> set KINDS" "length kind = 1" "kind \<in> {''S'', ''I'', ''F''}" using frame_kind_ok [OF assms(4)] by blast+
  have le: "\<not> MAX_RECORD_WIRE_BYTES < length (uart_wire c r n (kind, p))"
    using uart_wire_length [OF assms] by (simp add: MAX_RECORD_WIRE_BYTES_def MAX_NON_PAYLOAD_OVERHEAD_def MAX_S_PAYLOAD_BYTES_def)
  have w: "butlast (uart_wire c r n (kind, p)) = join_char (CHR ''|'') ?fs" "last (uart_wire c r n (kind, p)) = CHR 0x0A" "uart_wire c r n (kind, p) \<noteq> []"
    by (simp_all add: uart_wire_def)
  have v: "validate_kind_length kind (length p) = Inr ()" using validate_iff [of kind p "()"] assms(4) by blast
  have n: "decimal (dec_str n) (MAX_FRAMES - 1) = Inr n" "decimal (dec_str (length p)) MAX_S_PAYLOAD_BYTES = Inr (length p)"
    using assms(3) frame_ok_length [OF assms(4)] by (auto simp: decimal_iff)
  have h: "hex_field (to_hex c) = Inr c" "hex_field (to_hex r) = Inr r" "hex_field (to_hex (sha256 p)) = Inr (sha256 p)"
    using assms by (simp_all add: hex_field_iff)
  have f: "list_all2 (\<lambda>f p. starts_with p f) (tl ?fs) [''k='', ''c='', ''r='', ''n='', ''l='', ''h='', ''b='']" "length ?fs = 8" "?fs ! 0 = MAGIC"
      "drop 2 (?fs ! 1) = kind" "drop 2 (?fs ! 2) = to_hex c" "drop 2 (?fs ! 3) = to_hex r" "drop 2 (?fs ! 4) = dec_str n"
      "drop 2 (?fs ! 5) = dec_str (length p)" "drop 2 (?fs ! 6) = to_hex (sha256 p)" "drop 2 (?fs ! 7) = b64encode p"
    by (simp_all add: record_fields_def starts_with_def)
  show ?thesis unfolding inspect_uart_record_def w split_record [OF k(1)] f Let_def
    using k le w(3) printable_join [OF record_fields_text [OF k(1)]] assms(1,2) f(1)
    by (simp add: require_identity_def h n v length_b64encode wire_header_def del: One_nat_def insert_iff)
qed

text \<open>The decoder accepts the canonical record of a frame, and nothing else.\<close>

lemma decode_uart_iff: "decode_uart_record rec c r = Inr f \<longleftrightarrow>
    (\<exists>n kind p. length c = 32 \<and> length r = 32 \<and> n < MAX_FRAMES \<and> frame_ok (kind, p) \<and> rec = uart_wire c r n (kind, p) \<and> f = wire_frame c r n (kind, p))"
proof
  assume "decode_uart_record rec c r = Inr f"
  then obtain h p where h: "inspect_uart_record rec c r = Inr h" and p: "length p = header_length h" "b64encode p = header_encoded h" "sha256 p = header_digest h"
      "\<not> (header_kind h = KIND_INVALIDATE \<and> p \<noteq> [CHR 0x00])"
    and f: "f = \<lparr>frame_kind = header_kind h, frame_challenge = header_challenge h, frame_run_identity = header_run_identity h,
           frame_sequence = header_sequence h, frame_payload = p, frame_wire = rec\<rparr>"
    by (auto simp: decode_uart_record_def res_simps split: option.splits if_splits)
  from inspect_fields [OF h] have rec: "rec = join_char (CHR ''|'') (header_fields h) @ [CHR 0x0A]" and ok: "header_ok c r h" by blast+
  have k: "frame_ok (header_kind h, p)" using ok p validate_iff [of "header_kind h" p "()"] by (simp add: header_ok_def)
  have "rec = uart_wire c r (header_sequence h) (header_kind h, p)"
    using ok p by (simp add: rec uart_wire_def record_fields_def header_fields_def header_ok_def)
  then show "\<exists>n kind p. length c = 32 \<and> length r = 32 \<and> n < MAX_FRAMES \<and> frame_ok (kind, p) \<and> rec = uart_wire c r n (kind, p) \<and> f = wire_frame c r n (kind, p)"
    using ok k f by (intro exI [of _ "header_sequence h"] exI [of _ "header_kind h"] exI [of _ p]) (simp add: header_ok_def wire_frame_def)
next
  assume "\<exists>n kind p. length c = 32 \<and> length r = 32 \<and> n < MAX_FRAMES \<and> frame_ok (kind, p) \<and> rec = uart_wire c r n (kind, p) \<and> f = wire_frame c r n (kind, p)"
  then obtain n kind p where a: "length c = 32" "length r = 32" "n < MAX_FRAMES" "frame_ok (kind, p)" "rec = uart_wire c r n (kind, p)" "f = wire_frame c r n (kind, p)"
    by blast
  have "\<not> (kind = KIND_INVALIDATE \<and> p \<noteq> [CHR 0x00])" using validate_iff [of kind p "()"] a(4) by blast
  then show "decode_uart_record rec c r = Inr f" unfolding decode_uart_record_def a(5) inspect_wire [OF a(1-4)]
    using a(6) by (simp add: wire_header_def wire_frame_def)
qed

text \<open>
  C26. The serial record codec is canonical: for a challenge and a run, the decoder accepts exactly the records the encoder
  makes, and returns the kind, sequence number and payload they were made from.
\<close>

theorem uart_record_iff: "decode_uart_record rec c r = Inr f \<longleftrightarrow>
    (\<exists>kind n p. encode_uart_record kind c r (int n) p = Inr rec \<and> f = \<lparr>frame_kind = kind, frame_challenge = c, frame_run_identity = r,
      frame_sequence = n, frame_payload = p, frame_wire = rec\<rparr>)"
  unfolding decode_uart_iff encode_uart_iff by (auto simp: wire_frame_def)

end
