(* ===== verification/Uart_Writer.thy ===== *)
theory Uart_Writer
  imports Uart_Record
begin

text \<open>
  The fail-closed serial writer, \<open>FramedUartWriter\<close> of \<open>conf_proc_spp_diag_uart.py\<close>. The
  callbacks of a call are a script of their results: the clock readings, the answers of
  \<open>wait_writable\<close>, \<open>write_serial\<close> and \<open>serial_queue_bytes\<close>, each a value or an exception. The
  device follows the contract of \<open>os.write\<close>: a call that returns a count has taken this many
  bytes, one that raises has taken none; \<open>sent\<close> is what it has taken. A call whose script runs out
  has not returned and is \<^term>\<open>None\<close>.
\<close>

section \<open>The device\<close>

datatype 'a io = Ret 'a | Blocked | Os_error

record serial =
  clocks :: "int list"
  waits :: "bool io list"
  writes :: "int io list"
  queues :: "int io list"
  sent :: bytes

fun monotonic :: "serial \<Rightarrow> (int \<times> serial) option" where
  "monotonic s = (case clocks s of [] \<Rightarrow> None | t # ts \<Rightarrow> Some (t, s\<lparr>clocks := ts\<rparr>))"

fun wait_writable :: "serial \<Rightarrow> (bool io \<times> serial) option" where
  "wait_writable s = (case waits s of [] \<Rightarrow> None | a # as \<Rightarrow> Some (a, s\<lparr>waits := as\<rparr>))"

fun write_serial :: "bytes \<Rightarrow> serial \<Rightarrow> (int io \<times> serial) option" where
  "write_serial data s = (case writes s of
     [] \<Rightarrow> None
   | Ret n # as \<Rightarrow> Some (Ret n, s\<lparr>writes := as, sent := sent s @ take (nat n) data\<rparr>)
   | a # as \<Rightarrow> Some (a, s\<lparr>writes := as\<rparr>))"

fun serial_queue_bytes :: "serial \<Rightarrow> (int io \<times> serial) option" where
  "serial_queue_bytes s = (case queues s of [] \<Rightarrow> None | a # as \<Rightarrow> Some (a, s\<lparr>queues := as\<rparr>))"

section \<open>The writer\<close>

record writer =
  challenge :: bytes
  run_identity :: bytes
  next_sequence :: nat
  pending_record :: "bytes option"
  pending_offset :: nat
  poisoned :: bool
  success :: "bytes option"
  success_offset :: nat
  success_complete_flag :: bool
  invalidated :: bool
  terminal :: bool

definition new_writer :: "bytes \<Rightarrow> bytes \<Rightarrow> uart_error + writer" where
  "new_writer c r = bindE (require_identity c) (\<lambda>_. bindE (require_identity r) (\<lambda>_.
     Inr \<lparr>challenge = c, run_identity = r, next_sequence = 0, pending_record = None, pending_offset = 0, poisoned = False, success = None,
       success_offset = 0, success_complete_flag = False, invalidated = False, terminal = False\<rparr>))"

definition empty_writer :: "writer \<Rightarrow> bool" where
  "empty_writer w \<longleftrightarrow> pending_record w = None"

definition success_complete :: "writer \<Rightarrow> bool" where
  "success_complete w \<longleftrightarrow> success_complete_flag w \<and> \<not> poisoned w \<and> empty_writer w"

definition can_emit_failure :: "writer \<Rightarrow> bool" where
  "can_emit_failure w \<longleftrightarrow> \<not> poisoned w \<and> empty_writer w \<and> (success w = None \<or> invalidated w) \<and> \<not> terminal w"

text \<open>A call returns or raises, with the writer and the device it leaves.\<close>

type_synonym uart_call = "((uart_error + unit) \<times> writer \<times> serial) option"

definition load_success :: "bytes \<Rightarrow> writer \<Rightarrow> (uart_error + unit) \<times> writer" where
  "load_success stream w =
     (if poisoned w \<or> success w \<noteq> None \<or> terminal w \<or> pending_record w \<noteq> None then (Inl UART_STATE, w)
      else if \<not> (1 \<le> length stream \<and> length stream \<le> MAX_SNAPSHOT_BYTES) then (Inl UART_LIMIT, w)
      else (Inr (), w\<lparr>success := Some stream\<rparr>))"

definition poison :: "uart_error \<Rightarrow> writer \<Rightarrow> serial \<Rightarrow> uart_call" where
  "poison reason w s = Some (Inl reason, w\<lparr>poisoned := True\<rparr>, s)"

definition start_record :: "string \<Rightarrow> bytes \<Rightarrow> writer \<Rightarrow> uart_error + writer" where
  "start_record kind payload w =
     (if poisoned w \<or> pending_record w \<noteq> None \<or> next_sequence w \<ge> MAX_FRAMES then Inl UART_STATE
      else bindE (encode_uart_record kind (challenge w) (run_identity w) (int (next_sequence w)) payload)
        (\<lambda>rec. Inr (w\<lparr>pending_record := Some rec, pending_offset := 0\<rparr>)))"

text \<open>
  One pass of a loop, up to what the loop does with it: a retry, a poison reason, or the count that
  \<open>write_serial\<close> returned.
\<close>

datatype pass = Again | Fail uart_error | Done int

definition write_pass :: "int \<Rightarrow> bytes \<Rightarrow> serial \<Rightarrow> (pass \<times> serial) option" where
  "write_pass deadline data s =
     (case monotonic s of
        None \<Rightarrow> None
      | Some (t, s1) \<Rightarrow>
          if t > deadline then Some (Fail UART_DEADLINE, s1)
          else (case wait_writable s1 of
            None \<Rightarrow> None
          | Some (Blocked, s2) \<Rightarrow> Some (Again, s2)
          | Some (Os_error, s2) \<Rightarrow> Some (Fail UART_WRITE, s2)
          | Some (Ret writable, s2) \<Rightarrow>
              if \<not> writable then Some (Fail UART_DEADLINE, s2)
              else (case monotonic s2 of
                None \<Rightarrow> None
              | Some (t', s3) \<Rightarrow>
                  if t' > deadline then Some (Fail UART_DEADLINE, s3)
                  else (case write_serial data s3 of
                    None \<Rightarrow> None
                  | Some (Blocked, s4) \<Rightarrow> Some (Again, s4)
                  | Some (Os_error, s4) \<Rightarrow> Some (Fail UART_WRITE, s4)
                  | Some (Ret written, s4) \<Rightarrow>
                      if written \<le> 0 \<or> written > int (length data) then Some (Fail UART_WRITE, s4) else Some (Done written, s4)))))"

definition drain_pass :: "int \<Rightarrow> serial \<Rightarrow> (pass \<times> serial) option" where
  "drain_pass deadline s =
     (case monotonic s of
        None \<Rightarrow> None
      | Some (t, s1) \<Rightarrow>
          if t > deadline then Some (Fail UART_DEADLINE, s1)
          else (case serial_queue_bytes s1 of
            None \<Rightarrow> None
          | Some (Blocked, s2) \<Rightarrow> Some (Fail UART_WRITE, s2)
          | Some (Os_error, s2) \<Rightarrow> Some (Fail UART_WRITE, s2)
          | Some (Ret queued, s2) \<Rightarrow>
              if queued < 0 then Some (Fail UART_WRITE, s2)
              else if queued = 0 then Some (Done 0, s2)
              else (case wait_writable s2 of
                None \<Rightarrow> None
              | Some (Blocked, s3) \<Rightarrow> Some (Fail UART_WRITE, s3)
              | Some (Os_error, s3) \<Rightarrow> Some (Fail UART_WRITE, s3)
              | Some (Ret writable, s3) \<Rightarrow>
                  if \<not> writable then Some (Fail UART_DEADLINE, s3)
                  else (case monotonic s3 of
                    None \<Rightarrow> None
                  | Some (t', s4) \<Rightarrow> if t' > deadline then Some (Fail UART_DEADLINE, s4) else Some (Again, s4)))))"

lemma write_pass_clocks: "write_pass d data s = Some (p, s') \<Longrightarrow> length (clocks s') < length (clocks s)"
  by (auto simp: write_pass_def split: if_splits option.splits list.splits io.splits)

lemma drain_pass_clocks: "drain_pass d s = Some (p, s') \<Longrightarrow> length (clocks s') < length (clocks s)"
  by (auto simp: drain_pass_def split: if_splits option.splits list.splits io.splits)

function write_pending :: "int \<Rightarrow> writer \<Rightarrow> serial \<Rightarrow> uart_call" where
  "write_pending deadline w s =
     (if pending_offset w < length (the (pending_record w)) then
        (case write_pass deadline (drop (pending_offset w) (the (pending_record w))) s of
           None \<Rightarrow> None
         | Some (Again, s') \<Rightarrow> write_pending deadline w s'
         | Some (Fail reason, s') \<Rightarrow> poison reason w s'
         | Some (Done written, s') \<Rightarrow> write_pending deadline (w\<lparr>pending_offset := pending_offset w + nat written\<rparr>) s')
      else Some (Inr (), w\<lparr>next_sequence := next_sequence w + 1\<rparr>, s))"
  by pat_completeness auto
termination
  by (relation "measure (\<lambda>(d, w, s). length (clocks s))") (auto dest: write_pass_clocks)

declare write_pending.simps [simp del]

function drain :: "int \<Rightarrow> writer \<Rightarrow> serial \<Rightarrow> uart_call" where
  "drain deadline w s =
     (case drain_pass deadline s of
        None \<Rightarrow> None
      | Some (Again, s') \<Rightarrow> drain deadline w s'
      | Some (Fail reason, s') \<Rightarrow> poison reason w s'
      | Some (Done _, s') \<Rightarrow> Some (Inr (), w\<lparr>pending_record := None, pending_offset := 0\<rparr>, s'))"
  by pat_completeness auto
termination
  by (relation "measure (\<lambda>(d, w, s). length (clocks s))") (auto dest: drain_pass_clocks)

declare drain.simps [simp del]

text \<open>Sequencing of calls: a raise ends the caller too.\<close>

definition then_call :: "uart_call \<Rightarrow> (writer \<Rightarrow> serial \<Rightarrow> uart_call) \<Rightarrow> uart_call" where
  "then_call m f = (case m of Some (Inr _, w, s) \<Rightarrow> f w s | _ \<Rightarrow> m)"

definition send_record :: "string \<Rightarrow> bytes \<Rightarrow> int \<Rightarrow> writer \<Rightarrow> serial \<Rightarrow> uart_call" where
  "send_record kind payload deadline w s =
     (case start_record kind payload w of
        Inl e \<Rightarrow> Some (Inl e, w, s)
      | Inr w1 \<Rightarrow> then_call (write_pending deadline w1 s) (drain deadline))"

lemma take_whole [simp]: "\<exists>k. xs = take k xs"
  by (intro exI [of _ "length xs"]) simp

text \<open>What a pass, a loop and a record leave behind.\<close>

lemma write_pass_sent: "write_pass d data s = Some (p, s') \<Longrightarrow>
    (case p of Again \<Rightarrow> sent s' = sent s | Fail e \<Rightarrow> \<exists>k. sent s' = sent s @ take k data
     | Done n \<Rightarrow> 0 < n \<and> n \<le> int (length data) \<and> sent s' = sent s @ take (nat n) data)"
  by (auto simp: write_pass_def split: if_splits option.splits list.splits io.splits intro: exI [of _ 0])

lemma drain_pass_sent: "drain_pass d s = Some (p, s') \<Longrightarrow> sent s' = sent s"
  by (auto simp: drain_pass_def split: if_splits option.splits list.splits io.splits)

lemma write_pending_result:
  assumes "write_pending d w s = Some (x, w', s')" "pending_record w = Some rec" "pending_offset w \<le> length rec"
  shows "x = Inr () \<and> w' = w\<lparr>next_sequence := next_sequence w + 1, pending_offset := length rec\<rparr> \<and> sent s' = sent s @ drop (pending_offset w) rec \<or>
    (\<exists>e off k. x = Inl e \<and> w' = w\<lparr>pending_offset := off, poisoned := True\<rparr> \<and> sent s' = sent s @ take k (drop (pending_offset w) rec))"
  using assms
proof (induction d w s arbitrary: x w' s' rule: write_pending.induct)
  case (1 d w s)
  show ?case
  proof (cases "pending_offset w < length rec")
    case False
    then show ?thesis using "1.prems" by (subst (asm) write_pending.simps) auto
  next
    case True
    have lt: "pending_offset w < length (the (pending_record w))" using True "1.prems" by simp
    obtain p s1 where pass: "write_pass d (drop (pending_offset w) (the (pending_record w))) s = Some (p, s1)"
      using "1.prems" lt by (subst (asm) write_pending.simps) (auto split: option.splits)
    note snt = write_pass_sent [OF pass]
    show ?thesis
    proof (cases p)
      case Again
      then have "write_pending d w s1 = Some (x, w', s')" using "1.prems"(1) lt pass by (subst (asm) write_pending.simps) simp
      from "1.IH"(1) [OF lt pass refl Again this "1.prems"(2,3)] show ?thesis using snt Again by simp
    next
      case (Fail e)
      then have "x = Inl e" "w' = w\<lparr>poisoned := True\<rparr>" "s' = s1" using "1.prems"(1) lt pass by (subst (asm) write_pending.simps; simp add: poison_def)+
      then show ?thesis using snt Fail "1.prems"(2) by (intro disjI2) (auto intro!: exI [of _ "pending_offset w"])
    next
      case (Done n)
      let ?w = "w\<lparr>pending_offset := pending_offset w + nat n\<rparr>"
      have wp: "write_pending d ?w s1 = Some (x, w', s')" using "1.prems"(1) lt pass Done by (subst (asm) write_pending.simps) simp
      have n: "0 < n" "n \<le> int (length rec - pending_offset w)" "sent s1 = sent s @ take (nat n) (drop (pending_offset w) rec)"
        using snt Done "1.prems"(2) by auto
      have "pending_offset ?w \<le> length rec" using n True by simp
      note ih = "1.IH"(2) [OF lt pass refl Done wp _ this]
      define data where "data = drop (pending_offset w) rec"
      have dd: "drop (pending_offset w + nat n) rec = drop (nat n) data" by (simp add: data_def add.commute)
      from ih "1.prems"(2) consider "x = Inr ()" "w' = w\<lparr>next_sequence := next_sequence w + 1, pending_offset := length rec\<rparr>" "sent s' = sent s1 @ drop (nat n) data"
        | e off k where "x = Inl e" "w' = w\<lparr>pending_offset := off, poisoned := True\<rparr>" "sent s' = sent s1 @ take k (drop (nat n) data)"
        by (auto simp: dd)
      then show ?thesis
      proof cases
        case 1
        then show ?thesis using n(3) by (simp add: data_def [symmetric])
      next
        case 2
        then have "sent s' = sent s @ take (nat n + k) data" using n(3) by (simp add: data_def [symmetric] take_add)
        with 2 show ?thesis unfolding data_def by blast
      qed
    qed
  qed
qed

lemma drain_result:
  "drain d w s = Some (x, w', s') \<Longrightarrow> sent s' = sent s \<and>
    (x = Inr () \<and> w' = w\<lparr>pending_record := None, pending_offset := 0\<rparr> \<or> (\<exists>e. x = Inl e \<and> w' = w\<lparr>poisoned := True\<rparr>))"
proof (induction d w s rule: drain.induct)
  case (1 d w s)
  obtain p s1 where pass: "drain_pass d s = Some (p, s1)" using "1.prems" by (subst (asm) drain.simps) (auto split: option.splits)
  show ?case using "1.prems" "1.IH" [OF pass refl] drain_pass_sent [OF pass] pass
    by (cases p; subst (asm) (2) drain.simps) (auto simp: poison_def)
qed

lemma start_record_iff: "start_record kind p w = Inr w' \<longleftrightarrow> \<not> poisoned w \<and> pending_record w = None \<and> next_sequence w < MAX_FRAMES \<and>
    length (challenge w) = 32 \<and> length (run_identity w) = 32 \<and> frame_ok (kind, p) \<and>
    w' = w\<lparr>pending_record := Some (uart_wire (challenge w) (run_identity w) (next_sequence w) (kind, p)), pending_offset := 0\<rparr>"
  by (auto simp: start_record_def res_simps encode_uart_iff)

text \<open>A record is refused before anything is written, written in full, or cut, which poisons the writer.\<close>

definition next_wire :: "writer \<Rightarrow> string \<times> bytes \<Rightarrow> bytes" where
  "next_wire w f = uart_wire (challenge w) (run_identity w) (next_sequence w) f"

lemma send_record_cases:
  assumes "send_record kind p d w s = Some (x, w', s')"
  obtains (refused) e where "x = Inl e" "w' = w" "s' = s"
    | (written) "x = Inr ()" "frame_ok (kind, p)" "w' = w\<lparr>next_sequence := next_sequence w + 1, pending_record := None, pending_offset := 0\<rparr>"
        "sent s' = sent s @ next_wire w (kind, p)"
    | (cut) e n q off k where "x = Inl e" "frame_ok (kind, p)" "w' = w\<lparr>next_sequence := n, pending_record := q, pending_offset := off, poisoned := True\<rparr>"
        "sent s' = sent s @ take k (next_wire w (kind, p))"
proof (cases "start_record kind p w")
  case (Inl e)
  then show ?thesis using assms by (intro refused) (auto simp: send_record_def)
next
  case (Inr w1)
  let ?rec = "next_wire w (kind, p)"
  note st = Inr [unfolded start_record_iff, folded next_wire_def]
  have w1: "w1 = w\<lparr>pending_record := Some ?rec, pending_offset := 0\<rparr>" and ok: "frame_ok (kind, p)" using st by blast+
  have call: "then_call (write_pending d w1 s) (drain d) = Some (x, w', s')" using assms Inr by (simp add: send_record_def)
  then obtain y w2 s2 where wp: "write_pending d w1 s = Some (y, w2, s2)" by (auto simp: then_call_def split: option.splits)
  have "pending_record w1 = Some ?rec" "pending_offset w1 = 0" by (simp_all add: w1)
  then consider "y = Inr ()" "w2 = w1\<lparr>next_sequence := next_sequence w + 1, pending_offset := length ?rec\<rparr>" "sent s2 = sent s @ ?rec"
    | e off k where "y = Inl e" "w2 = w1\<lparr>pending_offset := off, poisoned := True\<rparr>" "sent s2 = sent s @ take k ?rec"
    using write_pending_result [OF wp, of ?rec] by (auto simp: w1)
  then show ?thesis
  proof cases
    case 1
    then have "drain d w2 s2 = Some (x, w', s')" using call wp by (simp add: then_call_def)
    from drain_result [OF this] show ?thesis
    proof (elim conjE disjE exE)
      assume "sent s' = sent s2" "x = Inr ()" "w' = w2\<lparr>pending_record := None, pending_offset := 0\<rparr>"
      then show ?thesis using 1 ok by (intro written) (simp_all add: w1)
    next
      fix e assume "sent s' = sent s2" "x = Inl e" "w' = w2\<lparr>poisoned := True\<rparr>"
      then show ?thesis using 1 ok by (intro cut [where n = "next_sequence w + 1" and q = "Some ?rec" and off = "length ?rec" and k = "length ?rec"]) (simp_all add: w1)
    qed
  next
    case 2
    then have "x = Inl e" "w' = w2" "s' = s2" using call wp by (simp_all add: then_call_def)
    then show ?thesis using 2 ok by (intro cut [where n = "next_sequence w" and q = "Some ?rec" and off = off and k = k]) (simp_all add: w1)
  qed
qed

lemma send_record_frame: "send_record kind p d w s = Some (x, w', s') \<Longrightarrow>
    success w' = success w \<and> success_offset w' = success_offset w \<and> success_complete_flag w' = success_complete_flag w \<and>
    invalidated w' = invalidated w \<and> terminal w' = terminal w \<and> challenge w' = challenge w \<and> run_identity w' = run_identity w"
  by (erule send_record_cases) simp_all

section \<open>The operations\<close>

definition chunk_end :: "writer \<Rightarrow> bytes \<Rightarrow> nat" where
  "chunk_end w stream = min (success_offset w + MAX_S_PAYLOAD_BYTES) (length stream)"

function write_chunks :: "bytes \<Rightarrow> int \<Rightarrow> writer \<Rightarrow> serial \<Rightarrow> uart_call" where
  "write_chunks stream deadline w s =
     (if success_offset w < length stream then
        (case send_record KIND_SUCCESS (pslice (success_offset w) (chunk_end w stream) stream) deadline w s of
           Some (Inr _, w', s') \<Rightarrow> write_chunks stream deadline (w'\<lparr>success_offset := chunk_end w stream\<rparr>) s'
         | m \<Rightarrow> m)
      else Some (Inr (), w\<lparr>success_complete_flag := True\<rparr>, s))"
  by pat_completeness auto
termination
  by (relation "measure (\<lambda>(stream, d, w, s). length stream - success_offset w)") (auto simp: chunk_end_def MAX_S_PAYLOAD_BYTES_def)

declare write_chunks.simps [simp del]

definition write_success :: "int \<Rightarrow> writer \<Rightarrow> serial \<Rightarrow> uart_call" where
  "write_success deadline w s = (case success w of
     None \<Rightarrow> Some (Inl UART_STATE, w, s)
   | Some stream \<Rightarrow>
       if poisoned w \<or> success_complete_flag w \<or> invalidated w \<or> terminal w then Some (Inl UART_STATE, w, s)
       else write_chunks stream deadline w s)"

definition emit_invalidator :: "int \<Rightarrow> writer \<Rightarrow> serial \<Rightarrow> uart_call" where
  "emit_invalidator deadline w s =
     (if \<not> success_complete w \<or> invalidated w \<or> terminal w then Some (Inl UART_STATE, w, s)
      else then_call (send_record KIND_INVALIDATE [CHR 0x00] deadline w s) (\<lambda>w' s'. Some (Inr (), w'\<lparr>invalidated := True\<rparr>, s')))"

text \<open>The error of \<open>encode_failure_terminal\<close> is raised before the writer changes.\<close>

definition emit_failure :: "string \<Rightarrow> int \<Rightarrow> int \<Rightarrow> writer \<Rightarrow> serial \<Rightarrow> ((string + uart_error + unit) \<times> writer \<times> serial) option" where
  "emit_failure reason phase deadline w s =
     (if \<not> can_emit_failure w then Some (Inr (Inl UART_STATE), w, s)
      else case encode_failure_terminal reason phase (challenge w) (run_identity w) of
        Inl e \<Rightarrow> Some (Inl e, w, s)
      | Inr payload \<Rightarrow>
          map_option (\<lambda>(x, w', s'). (Inr x, w', s'))
            (then_call (send_record KIND_FAILURE payload deadline w s) (\<lambda>w' s'. Some (Inr (), w'\<lparr>terminal := True\<rparr>, s'))))"

section \<open>What the line carries\<close>

text \<open>The calls of a client in any order; the callbacks of each call are its own.\<close>

inductive uart_step :: "writer \<Rightarrow> serial \<Rightarrow> writer \<Rightarrow> serial \<Rightarrow> bool" where
  load: "load_success stream w = (x, w') \<Longrightarrow> uart_step w s w' s"
| success: "sent s1 = sent s \<Longrightarrow> write_success d w s1 = Some (x, w', s') \<Longrightarrow> uart_step w s w' s'"
| invalidate: "sent s1 = sent s \<Longrightarrow> emit_invalidator d w s1 = Some (x, w', s') \<Longrightarrow> uart_step w s w' s'"
| failure: "sent s1 = sent s \<Longrightarrow> emit_failure reason phase d w s1 = Some (y, w', s') \<Longrightarrow> uart_step w s w' s'"

inductive uart_reach :: "bytes \<Rightarrow> bytes \<Rightarrow> writer \<Rightarrow> serial \<Rightarrow> bool" for c r where
  fresh: "new_writer c r = Inr w \<Longrightarrow> sent s = [] \<Longrightarrow> uart_reach c r w s"
| step: "uart_reach c r w s \<Longrightarrow> uart_step w s w' s' \<Longrightarrow> uart_reach c r w' s'"

primrec wires :: "bytes \<Rightarrow> bytes \<Rightarrow> nat \<Rightarrow> (string \<times> bytes) list \<Rightarrow> bytes" where
  "wires c r n [] = []"
| "wires c r n (f # fs) = uart_wire c r n f @ wires c r (Suc n) fs"

lemma wires_append: "wires c r n (fs @ gs) = wires c r n fs @ wires c r (n + length fs) gs"
  by (induction fs arbitrary: n) simp_all

text \<open>
  The legal transcripts: the chunks of one success stream, its invalidator, and a failure terminal
  after the invalidator or alone.
\<close>

definition transcript :: "bytes list \<Rightarrow> bool \<Rightarrow> bytes option \<Rightarrow> (string \<times> bytes) list" where
  "transcript qs voided fail = map (Pair KIND_SUCCESS) qs @ (if voided then [(KIND_INVALIDATE, [CHR 0x00])] else []) @
     (case fail of None \<Rightarrow> [] | Some t \<Rightarrow> [(KIND_FAILURE, t)])"

definition success_part :: "writer \<Rightarrow> bytes list \<Rightarrow> bool" where
  "success_part w qs = (case success w of
     None \<Rightarrow> qs = [] \<and> \<not> success_complete_flag w \<and> success_offset w = 0
   | Some stream \<Rightarrow> 1 \<le> length stream \<and> length stream \<le> MAX_SNAPSHOT_BYTES \<and> concat qs = take (success_offset w) stream \<and>
       success_offset w = min (MAX_S_PAYLOAD_BYTES * length qs) (length stream) \<and> length qs \<le> 256 \<and> (success_complete_flag w \<longrightarrow> success_offset w = length stream))"

definition failure_part :: "writer \<Rightarrow> bytes option \<Rightarrow> bool" where
  "failure_part w fail \<longleftrightarrow> (terminal w \<longleftrightarrow> fail \<noteq> None) \<and> (\<forall>t. fail = Some t \<longrightarrow> (success w = None \<or> invalidated w) \<and>
     (\<exists>reason phase. encode_failure_terminal reason phase (challenge w) (run_identity w) = Inr t))"

definition transcript_of :: "writer \<Rightarrow> bytes list \<Rightarrow> bytes option \<Rightarrow> bool" where
  "transcript_of w qs fail \<longleftrightarrow> length (challenge w) = 32 \<and> length (run_identity w) = 32 \<and> list_all (\<lambda>q. frame_ok (KIND_SUCCESS, q)) qs \<and>
     success_part w qs \<and> (invalidated w \<longrightarrow> success_complete_flag w) \<and> failure_part w fail"

text \<open>The record a poisoned writer was cut in continues its transcript.\<close>

definition continues :: "writer \<Rightarrow> bytes list \<Rightarrow> string \<times> bytes \<Rightarrow> bool" where
  "continues w qs = (\<lambda>(kind, p). frame_ok (kind, p) \<and> \<not> terminal w \<and>
     (kind = KIND_SUCCESS \<and> \<not> success_complete_flag w \<and> (\<exists>stream. success w = Some stream \<and> (\<exists>z. stream = concat qs @ p @ z)) \<or>
      kind = KIND_INVALIDATE \<and> success_complete_flag w \<and> \<not> invalidated w \<or>
      kind = KIND_FAILURE \<and> (success w = None \<or> invalidated w)))"

definition uart_inv :: "writer \<Rightarrow> serial \<Rightarrow> bool" where
  "uart_inv w s \<longleftrightarrow> (\<exists>qs fail. transcript_of w qs fail \<and> (let fs = transcript qs (invalidated w) fail; lead = wires (challenge w) (run_identity w) 0 fs in
     if poisoned w then \<exists>f k. continues w qs f \<and> sent s = lead @ take k (uart_wire (challenge w) (run_identity w) (length fs) f)
     else pending_record w = None \<and> next_sequence w = length fs \<and> sent s = lead))"

lemmas uart_invs = uart_inv_def transcript_of_def success_part_def failure_part_def

lemma frame_ok_invalidate [simp]: "frame_ok (KIND_INVALIDATE, [CHR 0x00])"
  by (simp add: frame_ok_def)

lemma uart_inv_clean: "\<not> poisoned w \<Longrightarrow> uart_inv w s \<longleftrightarrow> pending_record w = None \<and> (\<exists>qs fail. transcript_of w qs fail \<and>
    next_sequence w = length (transcript qs (invalidated w) fail) \<and> sent s = wires (challenge w) (run_identity w) 0 (transcript qs (invalidated w) fail))"
  by (auto simp: uart_inv_def Let_def)

lemma transcript_updates [simp]:
  "transcript_of (w\<lparr>next_sequence := n\<rparr>) = transcript_of w" "transcript_of (w\<lparr>pending_record := q\<rparr>) = transcript_of w"
  "transcript_of (w\<lparr>pending_offset := n\<rparr>) = transcript_of w" "transcript_of (w\<lparr>poisoned := b\<rparr>) = transcript_of w"
  "continues (w\<lparr>next_sequence := n\<rparr>) = continues w" "continues (w\<lparr>pending_record := q\<rparr>) = continues w"
  "continues (w\<lparr>pending_offset := n\<rparr>) = continues w" "continues (w\<lparr>poisoned := b\<rparr>) = continues w"
  by (auto simp: fun_eq_iff transcript_of_def success_part_def failure_part_def continues_def split: option.splits)

lemma success_part_updates [simp]:
  "success_part (w\<lparr>next_sequence := n\<rparr>) = success_part w" "success_part (w\<lparr>pending_record := q\<rparr>) = success_part w"
  "success_part (w\<lparr>pending_offset := n\<rparr>) = success_part w" "success_part (w\<lparr>invalidated := b\<rparr>) = success_part w"
  "success_part (w\<lparr>terminal := b\<rparr>) = success_part w"
  by (auto simp: fun_eq_iff success_part_def split: option.splits)

lemma uart_inv_cleanE:
  assumes "uart_inv w s" "\<not> poisoned w"
  obtains qs fail where "pending_record w = None" "transcript_of w qs fail" "next_sequence w = length (transcript qs (invalidated w) fail)"
    "sent s = wires (challenge w) (run_identity w) 0 (transcript qs (invalidated w) fail)"
  using assms by (auto simp: uart_inv_clean)

lemma uart_inv_cleanI:
  "\<not> poisoned w \<Longrightarrow> transcript_of w qs fail \<Longrightarrow> pending_record w = None \<Longrightarrow> next_sequence w = length (transcript qs (invalidated w) fail) \<Longrightarrow>
    sent s = wires (challenge w) (run_identity w) 0 (transcript qs (invalidated w) fail) \<Longrightarrow> uart_inv w s"
  by (auto simp: uart_inv_clean)

lemma uart_inv_cutI:
  assumes "poisoned w" "transcript_of w qs fail" "continues w qs f"
    "sent s = wires (challenge w) (run_identity w) 0 (transcript qs (invalidated w) fail) @
      take k (uart_wire (challenge w) (run_identity w) (length (transcript qs (invalidated w) fail)) f)"
  shows "uart_inv w s"
  unfolding uart_inv_def Let_def using assms by (intro exI [of _ qs] exI [of _ fail] conjI, blast) (simp only: if_True, blast)

lemma cut_inv:
  assumes "uart_inv w s" "\<not> poisoned w" "\<And>qs fail. transcript_of w qs fail \<Longrightarrow> continues w qs f"
    and "w' = w\<lparr>next_sequence := n, pending_record := q, pending_offset := off, poisoned := True\<rparr>" "sent s' = sent s @ take k (next_wire w f)"
  shows "uart_inv w' s'"
proof -
  obtain qs fail where i: "transcript_of w qs fail" "next_sequence w = length (transcript qs (invalidated w) fail)"
      "sent s = wires (challenge w) (run_identity w) 0 (transcript qs (invalidated w) fail)"
    using assms(1,2) by (auto simp: uart_inv_clean)
  show ?thesis
    using i assms(3-5) by (intro uart_inv_cutI [of w' qs fail f s' k]) (simp_all add: next_wire_def)
qed

lemma load_inv:
  assumes "load_success stream w = (x, w')" "uart_inv w s"
  shows "uart_inv w' s"
proof (cases "w' = w")
  case False
  then have w: "\<not> poisoned w" "success w = None" "\<not> terminal w" "1 \<le> length stream" "length stream \<le> MAX_SNAPSHOT_BYTES" "w' = w\<lparr>success := Some stream\<rparr>"
    using assms(1) by (auto simp: load_success_def split: if_splits)
  obtain qs fail where i: "pending_record w = None" "transcript_of w qs fail" "next_sequence w = length (transcript qs (invalidated w) fail)"
    "sent s = wires (challenge w) (run_identity w) 0 (transcript qs (invalidated w) fail)"
    using assms(2) w(1) by (rule uart_inv_cleanE)
  have "transcript_of w' qs fail" using i(2) w by (auto simp: transcript_of_def success_part_def failure_part_def)
  with i w show ?thesis by (intro uart_inv_cleanI [of w' qs fail]) simp_all
qed (use assms in simp)

lemma emit_invalidator_inv:
  assumes "emit_invalidator d w s = Some (x, w', s')" "uart_inv w s"
  shows "uart_inv w' s'"
proof (cases "\<not> success_complete w \<or> invalidated w \<or> terminal w")
  case True
  then show ?thesis using assms by (simp add: emit_invalidator_def)
next
  case False
  then have w: "\<not> poisoned w" "success_complete_flag w" "\<not> invalidated w" "\<not> terminal w" by (auto simp: success_complete_def)
  obtain y w1 s1 where snd: "send_record KIND_INVALIDATE [CHR 0x00] d w s = Some (y, w1, s1)"
    and x: "(x, w', s') = (case y of Inl e \<Rightarrow> (Inl e, w1, s1) | Inr _ \<Rightarrow> (Inr (), w1\<lparr>invalidated := True\<rparr>, s1))"
    using assms(1) False by (auto simp: emit_invalidator_def then_call_def split: option.splits sum.splits)
  from snd show ?thesis
  proof (cases rule: send_record_cases)
    case refused
    then show ?thesis using x assms by simp
  next
    case written
    obtain qs fail where i: "pending_record w = None" "transcript_of w qs fail" "next_sequence w = length (transcript qs (invalidated w) fail)"
      "sent s = wires (challenge w) (run_identity w) 0 (transcript qs (invalidated w) fail)"
      using assms(2) w(1) by (rule uart_inv_cleanE)
    have f: "fail = None" using i(2) w by (cases fail) (simp_all add: transcript_of_def failure_part_def)
    have "transcript_of w' qs None" using i(2) f x w written by (auto simp: transcript_of_def failure_part_def)
    with i x w written f show ?thesis
      by (intro uart_inv_cleanI [of w' qs None]) (simp_all add: transcript_def wires_append next_wire_def)
  next
    case cut
    have "uart_inv w1 s1" by (rule cut_inv [OF assms(2) w(1) _ cut(3,4)]) (use cut(2) w in \<open>simp add: continues_def uart_kinds\<close>)
    with x cut show ?thesis by simp
  qed
qed

lemma emit_failure_inv:
  assumes "emit_failure reason phase d w s = Some (x, w', s')" "uart_inv w s"
  shows "uart_inv w' s'"
proof (cases "\<not> can_emit_failure w \<or> (\<exists>e. encode_failure_terminal reason phase (challenge w) (run_identity w) = Inl e)")
  case True
  then show ?thesis using assms by (auto simp: emit_failure_def split: if_splits)
next
  case False
  then obtain t where t: "encode_failure_terminal reason phase (challenge w) (run_identity w) = Inr t"
    by (cases "encode_failure_terminal reason phase (challenge w) (run_identity w)") auto
  have w: "\<not> poisoned w" "success w = None \<or> invalidated w" "\<not> terminal w" using False by (auto simp: can_emit_failure_def)
  obtain y w1 s1 where snd: "send_record KIND_FAILURE t d w s = Some (y, w1, s1)"
    and x: "(x, w', s') = (case y of Inl e \<Rightarrow> (Inr (Inl e), w1, s1) | Inr _ \<Rightarrow> (Inr (Inr ()), w1\<lparr>terminal := True\<rparr>, s1))"
    using assms(1) False t by (auto simp: emit_failure_def then_call_def split: option.splits sum.splits)
  from snd show ?thesis
  proof (cases rule: send_record_cases)
    case refused
    then show ?thesis using x assms by simp
  next
    case written
    obtain qs fail where i: "pending_record w = None" "transcript_of w qs fail" "next_sequence w = length (transcript qs (invalidated w) fail)"
      "sent s = wires (challenge w) (run_identity w) 0 (transcript qs (invalidated w) fail)"
      using assms(2) w(1) by (rule uart_inv_cleanE)
    have f: "fail = None" using i(2) w by (cases fail) (simp_all add: transcript_of_def failure_part_def)
    have "transcript_of w' qs (Some t)" using i(2) f x w t written by (auto simp: transcript_of_def failure_part_def)
    with i x w written f show ?thesis
      by (intro uart_inv_cleanI [of w' qs "Some t"]) (simp_all add: transcript_def wires_append next_wire_def)
  next
    case cut
    have "uart_inv w1 s1" by (rule cut_inv [OF assms(2) w(1) _ cut(3,4)]) (use cut(2) w in \<open>simp add: continues_def uart_kinds\<close>)
    with x cut show ?thesis by simp
  qed
qed

lemma chunk_step:
  assumes "success_part w qs" "success w = Some stream" "success_offset w < length stream"
  shows "frame_ok (KIND_SUCCESS, pslice (success_offset w) (chunk_end w stream) stream)"
    and "\<exists>z. stream = concat qs @ pslice (success_offset w) (chunk_end w stream) stream @ z"
    and "success_part (w\<lparr>success_offset := chunk_end w stream\<rparr>) (qs @ [pslice (success_offset w) (chunk_end w stream) stream])"
proof -
  let ?o = "success_offset w" and ?e = "chunk_end w stream"
  have a: "?o = 65536 * length qs" "concat qs = take ?o stream" "length stream \<le> 16777216"
    using assms by (auto simp: success_part_def MAX_S_PAYLOAD_BYTES_def MAX_SNAPSHOT_BYTES_def min_def split: if_splits)
  have e: "?o < ?e" "?e \<le> length stream" "?e - ?o \<le> 65536" using assms(3) by (simp_all add: chunk_end_def MAX_S_PAYLOAD_BYTES_def)
  have "1 \<le> length (pslice ?o ?e stream)" "length (pslice ?o ?e stream) \<le> 65536" using e by simp_all
  then show "frame_ok (KIND_SUCCESS, pslice ?o ?e stream)" unfolding frame_ok_def MAX_S_PAYLOAD_BYTES_def by blast
  show "\<exists>z. stream = concat qs @ pslice ?o ?e stream @ z"
    unfolding a(2) using pslice_split [of ?e stream ?o] e by (intro exI [of _ "drop ?e stream"]) simp
  have "take ?o stream @ pslice ?o ?e stream = take ?e stream" using pslice_adjacent [of 0 ?o ?e stream] e by simp
  moreover have "?e = min (65536 * (length qs + 1)) (length stream)" using a by (simp add: chunk_end_def MAX_S_PAYLOAD_BYTES_def)
  moreover have "length qs + 1 \<le> 256" using a assms(3) by linarith
  ultimately show "success_part (w\<lparr>success_offset := ?e\<rparr>) (qs @ [pslice ?o ?e stream])"
    using assms a by (auto simp: success_part_def MAX_S_PAYLOAD_BYTES_def)
qed

lemma chunk_written:
  assumes "uart_inv w s" "success w = Some stream" "\<not> poisoned w" "\<not> invalidated w" "\<not> terminal w" "success_offset w < length stream"
    and "send_record KIND_SUCCESS (pslice (success_offset w) (chunk_end w stream) stream) d w s = Some (Inr y, w1, s1)"
  shows "uart_inv (w1\<lparr>success_offset := chunk_end w stream\<rparr>) s1"
proof -
  let ?p = "pslice (success_offset w) (chunk_end w stream) stream" and ?w = "w1\<lparr>success_offset := chunk_end w stream\<rparr>"
  obtain qs fail where i: "pending_record w = None" "transcript_of w qs fail" "next_sequence w = length (transcript qs (invalidated w) fail)"
    "sent s = wires (challenge w) (run_identity w) 0 (transcript qs (invalidated w) fail)"
    using assms(1,3) by (rule uart_inv_cleanE)
  have f: "fail = None" using i(2) assms(5) by (cases fail) (simp_all add: transcript_of_def failure_part_def)
  have sp: "success_part w qs" using i(2) by (simp add: transcript_of_def)
  note ch = chunk_step [OF sp assms(2,6)]
  have w1: "w1 = w\<lparr>next_sequence := next_sequence w + 1, pending_record := None, pending_offset := 0\<rparr>" "sent s1 = sent s @ next_wire w (KIND_SUCCESS, ?p)"
    using assms(7) by (auto elim: send_record_cases)
  have "?w = w\<lparr>success_offset := chunk_end w stream, next_sequence := next_sequence w + 1, pending_record := None, pending_offset := 0\<rparr>"
    by (simp add: w1)
  then have "success_part ?w (qs @ [?p])" using ch(3) by (simp only: success_part_updates)
  then have "transcript_of ?w (qs @ [?p]) None" using i(2) f assms(2-5) ch(1) by (auto simp: transcript_of_def failure_part_def w1)
  then show ?thesis using i assms(3,4) w1 f
    by (intro uart_inv_cleanI [of ?w "qs @ [?p]" None]) (simp_all add: transcript_def wires_append next_wire_def)
qed

lemma write_chunks_inv: "write_chunks stream d w s = Some (x, w', s') \<Longrightarrow> success w = Some stream \<Longrightarrow> \<not> poisoned w \<Longrightarrow> \<not> success_complete_flag w \<Longrightarrow>
    \<not> invalidated w \<Longrightarrow> \<not> terminal w \<Longrightarrow> uart_inv w s \<Longrightarrow> uart_inv w' s'"
proof (induction stream d w s rule: write_chunks.induct)
  case (1 stream d w s)
  note w = "1.prems"(2-6)
  let ?p = "pslice (success_offset w) (chunk_end w stream) stream"
  obtain qs fail where i: "pending_record w = None" "transcript_of w qs fail" "next_sequence w = length (transcript qs (invalidated w) fail)"
    "sent s = wires (challenge w) (run_identity w) 0 (transcript qs (invalidated w) fail)"
    using "1.prems"(7) w(2) by (rule uart_inv_cleanE)
  have f: "fail = None" using i(2) w by (cases fail) (simp_all add: transcript_of_def failure_part_def)
  have sp: "success_part w qs" using i(2) by (simp add: transcript_of_def)
  show ?case
  proof (cases "success_offset w < length stream")
    case False
    then have o: "success_offset w = length stream" using sp w by (auto simp: success_part_def)
    have w': "w' = w\<lparr>success_complete_flag := True\<rparr>" "s' = s" using "1.prems"(1) False by (simp_all add: write_chunks.simps [of _ _ w])
    have "success_part w' qs" using sp o w by (simp add: success_part_def w')
    then have "transcript_of w' qs fail" using i(2) by (auto simp: transcript_of_def failure_part_def w')
    with i w show ?thesis by (intro uart_inv_cleanI [of w' qs fail]) (simp_all add: w')
  next
    case True
    note ch = chunk_step [OF sp w(1) True]
    obtain y w1 s1 where snd: "send_record KIND_SUCCESS ?p d w s = Some (y, w1, s1)"
      using "1.prems"(1) True by (auto simp: write_chunks.simps [of _ _ w] split: option.splits)
    from snd show ?thesis
    proof (cases rule: send_record_cases)
      case refused
      then show ?thesis using "1.prems" True snd by (simp add: write_chunks.simps [of _ _ w])
    next
      case cut
      have "uart_inv w1 s1"
        by (rule cut_inv [OF "1.prems"(7) w(2) _ cut(3,4)]) (use cut(2) w chunk_step(2) [OF _ w(1) True] in \<open>auto simp: continues_def transcript_of_def\<close>)
      then show ?thesis using "1.prems"(1) True snd cut by (simp add: write_chunks.simps [of _ _ w])
    next
      case written
      let ?w = "w1\<lparr>success_offset := chunk_end w stream\<rparr>"
      have rest: "write_chunks stream d ?w s1 = Some (x, w', s')" using "1.prems"(1) True snd written(1) by (simp add: write_chunks.simps [of _ _ w])
      have "uart_inv ?w s1" using chunk_written [OF "1.prems"(7) w(1,2,4,5) True snd [unfolded written(1)]] .
      then show ?thesis using "1.IH" [OF True snd refl written(1) refl rest] w written by simp
    qed
  qed
qed

lemma write_success_inv: "write_success d w s = Some (x, w', s') \<Longrightarrow> uart_inv w s \<Longrightarrow> uart_inv w' s'"
  by (auto simp: write_success_def intro: write_chunks_inv split: option.splits if_splits)

lemma new_writer_inv: "new_writer c r = Inr w \<Longrightarrow> sent s = [] \<Longrightarrow> uart_inv w s \<and> challenge w = c \<and> run_identity w = r"
proof -
  assume "new_writer c r = Inr w" and s: "sent s = []"
  then have w: "length c = 32" "length r = 32" "w = \<lparr>challenge = c, run_identity = r, next_sequence = 0, pending_record = None, pending_offset = 0, poisoned = False,
      success = None, success_offset = 0, success_complete_flag = False, invalidated = False, terminal = False\<rparr>"
    by (auto simp: new_writer_def require_identity_def res_simps split: if_splits)
  then have "uart_inv w s"
    using s by (intro uart_inv_cleanI [of w "[]" None]) (simp_all add: transcript_of_def success_part_def failure_part_def transcript_def)
  then show ?thesis by (simp add: w)
qed

lemma uart_inv_sent: "sent s1 = sent s \<Longrightarrow> uart_inv w s1 = uart_inv w s"
  by (simp add: uart_inv_def)

lemma write_chunks_identity: "write_chunks stream d w s = Some (x, w', s') \<Longrightarrow> challenge w' = challenge w \<and> run_identity w' = run_identity w"
proof (induction stream d w s rule: write_chunks.induct)
  case (1 stream d w s)
  show ?case using "1.prems" "1.IH" send_record_frame
    by (subst (asm) write_chunks.simps) (fastforce split: if_splits option.splits sum.splits)
qed

lemma step_identity: "uart_step w s w' s' \<Longrightarrow> challenge w' = challenge w \<and> run_identity w' = run_identity w"
proof (induction rule: uart_step.induct)
  case (success s1 s d w x w' s')
  then show ?case using write_chunks_identity by (fastforce simp: write_success_def split: option.splits if_splits)
qed (use send_record_frame in \<open>fastforce simp: load_success_def emit_invalidator_def emit_failure_def then_call_def split: option.splits sum.splits if_splits\<close>)+

lemma step_inv: "uart_step w s w' s' \<Longrightarrow> uart_inv w s \<Longrightarrow> uart_inv w' s'"
  by (induction rule: uart_step.induct) (metis load_inv write_success_inv emit_invalidator_inv emit_failure_inv uart_inv_sent)+

lemma reach_inv: "uart_reach c r w s \<Longrightarrow> uart_inv w s \<and> challenge w = c \<and> run_identity w = r"
  by (induction rule: uart_reach.induct) (use new_writer_inv step_inv step_identity in metis)+

text \<open>A poisoned writer writes nothing more.\<close>

lemma poisoned_silent: "uart_step w s w' s' \<Longrightarrow> poisoned w \<Longrightarrow> w' = w \<and> sent s' = sent s"
  by (induction rule: uart_step.induct)
    (auto simp: load_success_def write_success_def emit_invalidator_def success_complete_def emit_failure_def can_emit_failure_def split: option.splits)

end
