(* ===== verification/Uart_Observer.thy ===== *)
theory Uart_Observer
  imports Uart_Writer
begin

text \<open>
  The off-box observation of a finite serial capture, \<open>conf_proc_spp_diag_uart_observation.py\<close>,
  and what it reports of the line that the writer of \<open>Uart_Writer\<close> drives.
\<close>

section \<open>Observations\<close>

definition MAX_RAW_SNAPSHOT_BYTES :: nat where "MAX_RAW_SNAPSHOT_BYTES = 32 * 1024 * 1024"
definition MAX_PREAMBLE_BYTES :: nat where "MAX_PREAMBLE_BYTES = 1 * 1024 * 1024"
definition PREAMBLE_LIMIT_REASON :: string where "PREAMBLE_LIMIT_REASON = ''SPPUART/1 preamble exceeds 1048576 bytes''"
definition WIRE_LIMIT_REASON :: string where "WIRE_LIMIT_REASON = ''SPPUART/1 wire limit''"

datatype status = Complete_result | Standalone_failure | Invalidated_result | Invalid | Incomplete

record SnapshotExtent =
  ext_offset :: nat
  ext_length :: nat
  ext_sha256 :: bytes

record DecodedContent =
  dec_length :: nat
  dec_sha256 :: bytes

record UartRecordObservation =
  rec_kind :: string
  rec_sequence :: nat
  rec_wire :: SnapshotExtent
  rec_decoded :: DecodedContent

record UartObservation =
  obs_challenge :: bytes
  obs_run_identity :: bytes
  obs_status :: status
  obs_reason :: "string option"
  obs_raw :: SnapshotExtent
  obs_preamble :: SnapshotExtent
  obs_wire :: "SnapshotExtent option"
  obs_padding :: "SnapshotExtent option"
  obs_records :: "UartRecordObservation list"
  obs_decoded :: "DecodedContent option"
  obs_snapshot :: "bytes option"
  obs_exported :: "ExportedBundle option"
  obs_failure :: "FailureTerminal option"

definition extent :: "bytes \<Rightarrow> nat \<Rightarrow> nat \<Rightarrow> SnapshotExtent" where
  "extent data offset n = \<lparr>ext_offset = offset, ext_length = n, ext_sha256 = sha256 (pslice offset (offset + n) data)\<rparr>"

definition decoded_content :: "bytes \<Rightarrow> DecodedContent" where
  "decoded_content payload = \<lparr>dec_length = length payload, dec_sha256 = sha256 payload\<rparr>"

text \<open>The reason codes of the errors.\<close>

fun uart_reason :: "uart_error \<Rightarrow> string" where
  "uart_reason UART_ASCII = ''CP_SPP_DIAG_UART_ASCII''"
| "uart_reason UART_BASE64 = ''CP_SPP_DIAG_UART_BASE64''"
| "uart_reason UART_DEADLINE = ''CP_SPP_DIAG_UART_DEADLINE''"
| "uart_reason UART_HASH = ''CP_SPP_DIAG_UART_HASH''"
| "uart_reason UART_IDENTITY = ''CP_SPP_DIAG_UART_IDENTITY''"
| "uart_reason UART_KIND = ''CP_SPP_DIAG_UART_KIND''"
| "uart_reason UART_LIMIT = ''CP_SPP_DIAG_UART_LIMIT''"
| "uart_reason UART_SEQUENCE = ''CP_SPP_DIAG_UART_SEQUENCE''"
| "uart_reason UART_STATE = ''CP_SPP_DIAG_UART_STATE''"
| "uart_reason UART_WRITE = ''CP_SPP_DIAG_UART_WRITE''"
| "uart_reason UART_ASSERTION = ''SPPUART/1 overhead bound''"

fun export_reason :: "export_error \<Rightarrow> string" where
  "export_reason EXPORT_MEMBER_NAME = ''CP_SPP_DIAG_EXPORT_MEMBER_NAME''"
| "export_reason EXPORT_MEMBER_ORDER = ''CP_SPP_DIAG_EXPORT_MEMBER_ORDER''"
| "export_reason EXPORT_MEMBER_SIZE = ''CP_SPP_DIAG_EXPORT_MEMBER_SIZE''"
| "export_reason EXPORT_MEMBER_HASH = ''CP_SPP_DIAG_EXPORT_MEMBER_HASH''"
| "export_reason EXPORT_TERMINAL = ''CP_SPP_DIAG_EXPORT_TERMINAL''"
| "export_reason EXPORT_TRUNCATED = ''CP_SPP_DIAG_EXPORT_TRUNCATED''"
| "export_reason EXPORT_TRAILING_BYTES = ''CP_SPP_DIAG_EXPORT_TRAILING_BYTES''"

definition inner_success :: "(ustr \<Rightarrow> ustr) \<Rightarrow> bytes \<Rightarrow> bytes \<Rightarrow> bytes \<Rightarrow> ExportedBundle option \<times> string option \<times> status" where
  "inner_success nfc snapshot c r =
     (case parse_export_stream nfc snapshot (Some c) (Some r) of
        Inr bundle \<Rightarrow> (Some bundle, None, Complete_result)
      | Inl e \<Rightarrow> (None, Some (export_reason e), if export_reason e = ''CP_SPP_DIAG_EXPORT_TRUNCATED'' then Incomplete else Invalid))"

section \<open>The scan\<close>

datatype scan_state = Start | Success | Invalidated | Standalone

text \<open>The loop variables; \<open>decoded_hash\<close> is the hash of the payloads so far, kept as their concatenation.\<close>

record scan =
  scan_offset :: nat
  scan_wire_end :: nat
  scan_records :: "UartRecordObservation list"
  scan_payloads :: "bytes list"
  scan_decoded_size :: nat
  scan_success_size :: nat
  scan_decoded :: bytes
  scan_expected :: nat
  scan_state :: scan_state
  scan_failure :: "FailureTerminal option"

text \<open>What the scan of one capture is given, and the parameter for NFC.\<close>

record capture =
  cap_nfc :: "ustr \<Rightarrow> ustr"
  cap_data :: bytes
  cap_challenge :: bytes
  cap_run :: bytes
  cap_marker :: nat

definition observation :: "capture \<Rightarrow> nat option \<Rightarrow> status \<Rightarrow> string option \<Rightarrow> nat option \<Rightarrow> nat option \<Rightarrow> UartRecordObservation list \<Rightarrow> nat \<Rightarrow>
    bytes \<Rightarrow> bytes option \<Rightarrow> ExportedBundle option \<Rightarrow> FailureTerminal option \<Rightarrow> UartObservation" where
  "observation cp marker st reason wire_end padding_start records decoded_size decoded snapshot exported fail =
     (let data = cap_data cp in
      \<lparr>obs_challenge = cap_challenge cp, obs_run_identity = cap_run cp, obs_status = st, obs_reason = reason,
        obs_raw = extent data 0 (length data),
        obs_preamble = (case marker of Some m \<Rightarrow> extent data 0 m | None \<Rightarrow> extent data 0 (length data)),
        obs_wire = (case (marker, wire_end) of (Some m, Some e) \<Rightarrow> Some (extent data m (e - m)) | _ \<Rightarrow> None),
        obs_padding = map_option (\<lambda>p. extent data p (length data - p)) padding_start,
        obs_records = records,
        obs_decoded = (if decoded_size \<noteq> 0 then Some \<lparr>dec_length = decoded_size, dec_sha256 = sha256 decoded\<rparr> else None),
        obs_snapshot = snapshot, obs_exported = exported, obs_failure = fail\<rparr>)"

text \<open>The local function \<open>result\<close>.\<close>

definition scan_result :: "capture \<Rightarrow> scan \<Rightarrow> status \<Rightarrow> string option \<Rightarrow> nat option \<Rightarrow> bytes option \<Rightarrow> ExportedBundle option \<Rightarrow>
    FailureTerminal option \<Rightarrow> UartObservation" where
  "scan_result cp v st reason padding_start snapshot exported fail =
     observation cp (Some (cap_marker cp)) st reason (Some (scan_wire_end v)) padding_start (scan_records v) (scan_decoded_size v) (scan_decoded v)
       snapshot exported fail"

definition plain_result :: "capture \<Rightarrow> scan \<Rightarrow> status \<Rightarrow> string \<Rightarrow> UartObservation" where
  "plain_result cp v st reason = scan_result cp v st (Some reason) None None None None"

definition semantic_result :: "capture \<Rightarrow> scan \<Rightarrow> nat option \<Rightarrow> UartObservation" where
  "semantic_result cp v padding_start = (case scan_state v of
     Success \<Rightarrow>
       (let snapshot = concat (scan_payloads v); (exported, reason, st) = inner_success (cap_nfc cp) snapshot (cap_challenge cp) (cap_run cp)
        in scan_result cp v st reason padding_start (if exported \<noteq> None then Some snapshot else None) exported None)
   | Invalidated \<Rightarrow> scan_result cp v Invalidated_result None padding_start (Some (concat (scan_payloads v))) None (scan_failure v)
   | Standalone \<Rightarrow> scan_result cp v Standalone_failure None padding_start None None (scan_failure v)
   | Start \<Rightarrow> scan_result cp v Incomplete (Some ''SPPUART/1 sequence has no terminal result'') padding_start None None None)"

definition scan_padding :: "capture \<Rightarrow> scan \<Rightarrow> UartObservation" where
  "scan_padding cp v =
     (if list_all (\<lambda>b. b = CHR 0x00) (drop (scan_offset v) (cap_data cp)) then
        (let semantic = semantic_result cp v (Some (scan_offset v)) in
         if obs_status semantic \<in> {Complete_result, Standalone_failure, Invalidated_result} then semantic
         else scan_result cp v (if obs_status semantic = Invalid then Invalid else Incomplete) (obs_reason semantic) None None None None)
      else plain_result cp v Invalid ''nonzero suffix after outer record'')"

text \<open>\<open>data.find(b, offset)\<close> for one byte.\<close>

definition find_from :: "char \<Rightarrow> bytes \<Rightarrow> nat \<Rightarrow> nat option" where
  "find_from b data offset = (let r = drop offset data in if b \<in> set r then Some (offset + length (takeWhile (\<lambda>x. x \<noteq> b) r)) else None)"

text \<open>The checks between the inspection of a record and its decoding.\<close>

definition admit_header :: "capture \<Rightarrow> scan \<Rightarrow> UartRecordHeader \<Rightarrow> UartObservation option" where
  "admit_header cp v h =
     (if header_sequence h \<noteq> scan_expected v then Some (plain_result cp v Invalid (uart_reason UART_SEQUENCE))
      else if scan_decoded_size v + header_length h > MAX_DECODED_BYTES then Some (plain_result cp v Invalid ''SPPUART/1 decoded limit'')
      else if header_kind h = KIND_SUCCESS then
        (if scan_state v \<noteq> Start \<and> scan_state v \<noteq> Success then Some (plain_result cp v Invalid ''SPPUART/1 success after terminal record'')
         else if scan_success_size v + header_length h > MAX_SNAPSHOT_BYTES then Some (plain_result cp v Invalid ''SPPUART/1 success decoded limit'')
         else None)
      else if header_kind h = KIND_INVALIDATE then
        (if scan_state v \<noteq> Success then Some (plain_result cp v Invalid ''SPPUART/1 invalidator without complete success'')
         else let (exported, reason, st) = inner_success (cap_nfc cp) (concat (scan_payloads v)) (cap_challenge cp) (cap_run cp)
              in if st \<noteq> Complete_result then Some (scan_result cp v st reason None None None None) else None)
      else if header_kind h = KIND_FAILURE \<and> scan_state v \<noteq> Start \<and> scan_state v \<noteq> Invalidated
      then Some (plain_result cp v Invalid ''SPPUART/1 failure is not standalone or late'')
      else if header_kind h = KIND_FAILURE \<and> scan_failure v \<noteq> None then Some (plain_result cp v Invalid ''SPPUART/1 second failure record'')
      else None)"

text \<open>The bookkeeping after a record has been decoded, up to the terminal of a failure record.\<close>

definition note_frame :: "capture \<Rightarrow> scan \<Rightarrow> nat \<Rightarrow> UartFrame \<Rightarrow> scan" where
  "note_frame cp v line_end f = v\<lparr>scan_decoded_size := scan_decoded_size v + length (frame_payload f), scan_decoded := scan_decoded v @ frame_payload f,
     scan_records := scan_records v @ [\<lparr>rec_kind = frame_kind f, rec_sequence = frame_sequence f,
       rec_wire = extent (cap_data cp) (scan_offset v) (line_end + 1 - scan_offset v), rec_decoded = decoded_content (frame_payload f)\<rparr>],
     scan_expected := scan_expected v + 1, scan_wire_end := line_end + 1, scan_offset := line_end + 1\<rparr>"

definition accept_frame :: "capture \<Rightarrow> scan \<Rightarrow> UartFrame \<Rightarrow> UartObservation + scan" where
  "accept_frame cp v f =
     (if frame_kind f = KIND_SUCCESS then
        Inr (v\<lparr>scan_success_size := scan_success_size v + length (frame_payload f), scan_payloads := scan_payloads v @ [frame_payload f], scan_state := Success\<rparr>)
      else if frame_kind f = KIND_INVALIDATE then Inr (v\<lparr>scan_state := Invalidated\<rparr>)
      else case parse_failure_terminal (frame_payload f) (Some (cap_challenge cp)) (Some (cap_run cp)) of
        Inl e \<Rightarrow> Inl (plain_result cp v Invalid e)
      | Inr t \<Rightarrow> Inr (v\<lparr>scan_failure := Some t, scan_state := (if scan_state v = Start then Standalone else Invalidated)\<rparr>))"

text \<open>One pass of the loop: an observation is returned, or the scan goes on.\<close>

definition scan_record :: "capture \<Rightarrow> scan \<Rightarrow> UartObservation + scan" where
  "scan_record cp v = (let data = cap_data cp; offset = scan_offset v in
     if data ! offset = CHR 0x00 then Inl (scan_padding cp v)
     else if \<not> starts_with MARKER (drop offset data) then Inl (plain_result cp v Invalid ''nonzero suffix outside an outer record'')
     else case find_from (CHR 0x0A) data offset of
       None \<Rightarrow>
         if length data - offset > MAX_RECORD_WIRE_BYTES \<or> length data - cap_marker cp > MAX_WIRE_BYTES then Inl (plain_result cp v Invalid WIRE_LIMIT_REASON)
         else Inl (plain_result cp v Incomplete ''unterminated SPPUART/1 record'')
     | Some line_end \<Rightarrow>
         if line_end + 1 - offset > MAX_RECORD_WIRE_BYTES \<or> line_end + 1 - cap_marker cp > MAX_WIRE_BYTES then Inl (plain_result cp v Invalid WIRE_LIMIT_REASON)
         else if length (scan_records v) \<ge> MAX_FRAMES then Inl (plain_result cp v Invalid ''SPPUART/1 frame limit'')
         else let record_wire = pslice offset (line_end + 1) data in
           (case inspect_uart_record record_wire (cap_challenge cp) (cap_run cp) of
              Inl e \<Rightarrow> Inl (plain_result cp v Invalid (uart_reason e))
            | Inr header \<Rightarrow>
                (case admit_header cp v header of
                   Some obs \<Rightarrow> Inl obs
                 | None \<Rightarrow>
                     (case decode_uart_record record_wire (cap_challenge cp) (cap_run cp) of
                        Inl e \<Rightarrow> Inl (plain_result cp v Invalid (uart_reason e))
                      | Inr frame \<Rightarrow> accept_frame cp (note_frame cp v line_end frame) frame))))"

lemma accept_offset: "accept_frame cp v f = Inr v' \<Longrightarrow> scan_offset v' = scan_offset v"
  by (auto simp: accept_frame_def split: if_splits sum.splits)

lemma find_from_iff: "find_from b data offset = Some e \<longleftrightarrow> (\<exists>l z. drop offset data = l @ b # z \<and> b \<notin> set l \<and> e = offset + length l)"
proof -
  have tw: "takeWhile (\<lambda>x. x \<noteq> b) (l @ b # z) = l" if "b \<notin> set l" for l z
    using that by (subst takeWhile_append2) auto
  show ?thesis
  proof
    assume a: "find_from b data offset = Some e"
    then have "b \<in> set (drop offset data)" by (simp add: find_from_def Let_def split: if_splits)
    then obtain l z where "drop offset data = l @ b # z" "b \<notin> set l" by (blast dest: split_list_first)
    moreover from this have "e = offset + length l" using a tw [of l z] by (simp add: find_from_def Let_def)
    ultimately show "\<exists>l z. drop offset data = l @ b # z \<and> b \<notin> set l \<and> e = offset + length l" by blast
  qed (use tw in \<open>auto simp: find_from_def Let_def\<close>)
qed

lemma find_from_bound:
  assumes "find_from b data offset = Some e"
  shows "offset \<le> e \<and> e < length data"
proof -
  obtain l z where l: "drop offset data = l @ b # z" "e = offset + length l" using assms by (auto simp: find_from_iff)
  have "length (drop offset data) = length l + Suc (length z)" by (simp add: l(1))
  then show ?thesis using l(2) by simp
qed

lemma scan_record_progress: "scan_record cp v = Inr v' \<Longrightarrow> scan_offset v < scan_offset v' \<and> scan_offset v' \<le> length (cap_data cp)"
  by (auto simp: scan_record_def Let_def note_frame_def split: if_splits option.splits sum.splits dest!: accept_offset find_from_bound)

function scan_loop :: "capture \<Rightarrow> scan \<Rightarrow> UartObservation" where
  "scan_loop cp v =
     (if scan_offset v < length (cap_data cp) then (case scan_record cp v of Inl obs \<Rightarrow> obs | Inr v' \<Rightarrow> scan_loop cp v')
      else semantic_result cp v None)"
  by pat_completeness auto
termination
  by (relation "measure (\<lambda>(cp, v). length (cap_data cp) - scan_offset v)") (auto dest!: scan_record_progress)

declare scan_loop.simps [simp del]

definition scan_start :: "nat \<Rightarrow> scan" where
  "scan_start marker = \<lparr>scan_offset = marker, scan_wire_end = marker, scan_records = [], scan_payloads = [], scan_decoded_size = 0, scan_success_size = 0,
     scan_decoded = [], scan_expected = 0, scan_state = Start, scan_failure = None\<rparr>"

definition observe_uart_blob :: "(ustr \<Rightarrow> ustr) \<Rightarrow> bytes \<Rightarrow> bytes \<Rightarrow> bytes \<Rightarrow> uart_error + UartObservation" where
  "observe_uart_blob nfc data c r =
     (if length data > MAX_RAW_SNAPSHOT_BYTES then Inl UART_LIMIT
      else if length c \<noteq> 32 \<or> length r \<noteq> 32 then Inl UART_IDENTITY
      else case find_sub MARKER data of
        None \<Rightarrow>
          Inr (observation \<lparr>cap_nfc = nfc, cap_data = data, cap_challenge = c, cap_run = r, cap_marker = 0\<rparr> None
            (if length data > MAX_PREAMBLE_BYTES then Invalid else Incomplete)
            (Some (if length data > MAX_PREAMBLE_BYTES then PREAMBLE_LIMIT_REASON else ''SPPUART/1 marker absent'')) None None [] 0 [] None None None)
      | Some marker \<Rightarrow>
          (let cp = \<lparr>cap_nfc = nfc, cap_data = data, cap_challenge = c, cap_run = r, cap_marker = marker\<rparr> in
           if marker > MAX_PREAMBLE_BYTES
           then Inr (observation cp (Some marker) Invalid (Some PREAMBLE_LIMIT_REASON) None None [] 0 [] None None None)
           else Inr (scan_loop cp (scan_start marker))))"

section \<open>One record of the capture\<close>

lemma wire_line:
  assumes "frame_ok f"
  obtains l where "uart_wire c r n f = l @ [CHR 0x0A]" "CHR 0x0A \<notin> set l"
proof (cases f)
  case (Pair kind p)
  then have "kind \<in> set KINDS" using assms frame_kind_ok by blast
  then show ?thesis using that printable_join [OF record_fields_text] by (auto simp: Pair uart_wire_def)
qed

lemma wire_marker: "starts_with MARKER (uart_wire c r n f @ z)" "(uart_wire c r n f @ z) ! 0 \<noteq> CHR 0x00" "uart_wire c r n f \<noteq> []"
  by (cases f; simp add: uart_wire_eq starts_with_def MARKER_def MAGIC_def)+

lemma wire_length_le: "length c = 32 \<Longrightarrow> length r = 32 \<Longrightarrow> n < MAX_FRAMES \<Longrightarrow> frame_ok f \<Longrightarrow> length (uart_wire c r n f) \<le> MAX_RECORD_WIRE_BYTES"
  using uart_wire_length [of c r n "fst f" "snd f"]
  by (cases f) (simp add: MAX_RECORD_WIRE_BYTES_def MAX_NON_PAYLOAD_OVERHEAD_def MAX_S_PAYLOAD_BYTES_def)

lemma inspect_of_wire: "length c = 32 \<Longrightarrow> length r = 32 \<Longrightarrow> n < MAX_FRAMES \<Longrightarrow> frame_ok f \<Longrightarrow>
    inspect_uart_record (uart_wire c r n f) c r = Inr (wire_header c r n f) \<and> decode_uart_record (uart_wire c r n f) c r = Inr (wire_frame c r n f)"
  using inspect_wire [of c r n "fst f" "snd f"] decode_uart_iff [of "uart_wire c r n f" c r "wire_frame c r n f"] by (cases f) auto

text \<open>A capture at whose offset the canonical record of a frame stands.\<close>

definition stands :: "capture \<Rightarrow> scan \<Rightarrow> string \<times> bytes \<Rightarrow> bytes \<Rightarrow> bool" where
  "stands cp v f z \<longleftrightarrow> length (cap_challenge cp) = 32 \<and> length (cap_run cp) = 32 \<and> scan_expected v < MAX_FRAMES \<and> frame_ok f \<and>
     drop (scan_offset v) (cap_data cp) = uart_wire (cap_challenge cp) (cap_run cp) (scan_expected v) f @ z \<and>
     scan_offset v + length (uart_wire (cap_challenge cp) (cap_run cp) (scan_expected v) f) - cap_marker cp \<le> MAX_WIRE_BYTES \<and> length (scan_records v) < MAX_FRAMES"

definition taken :: "capture \<Rightarrow> scan \<Rightarrow> string \<times> bytes \<Rightarrow> UartObservation + scan" where
  "taken cp v f = (let fr = wire_frame (cap_challenge cp) (cap_run cp) (scan_expected v) f
     in accept_frame cp (note_frame cp v (scan_offset v + length (frame_wire fr) - 1) fr) fr)"

lemma frame_wire_of [simp]: "frame_wire (wire_frame c r n f) = uart_wire c r n f"
  by (cases f) (simp add: wire_frame_def)

lemma scan_record_stands:
  assumes "stands cp v f z"
  shows "scan_record cp v = (case admit_header cp v (wire_header (cap_challenge cp) (cap_run cp) (scan_expected v) f) of Some obs \<Rightarrow> Inl obs | None \<Rightarrow> taken cp v f)"
proof -
  let ?w = "uart_wire (cap_challenge cp) (cap_run cp) (scan_expected v) f" and ?d = "cap_data cp" and ?o = "scan_offset v"
  note st = assms [unfolded stands_def]
  obtain l where l: "?w = l @ [CHR 0x0A]" "CHR 0x0A \<notin> set l" using st wire_line by metis
  have dr: "drop ?o ?d = ?w @ z" using st by blast
  then have o: "?o < length ?d" using l(1) by (metis append_is_Nil_conv drop_all leI not_Cons_self2)
  then have z: "?d ! ?o \<noteq> CHR 0x00" using dr wire_marker(2) [of "cap_challenge cp" "cap_run cp" "scan_expected v" f z] nth_drop [of ?o ?d 0] by simp
  have m: "starts_with MARKER (drop ?o ?d)" using dr wire_marker(1) by simp
  have e: "find_from (CHR 0x0A) ?d ?o = Some (?o + length l)" using dr l by (auto simp: find_from_iff)
  have w: "pslice ?o (?o + length l + 1) ?d = ?w" using dr l by (simp add: pslice_def)
  have le: "\<not> (?o + length l + 1 - ?o > MAX_RECORD_WIRE_BYTES \<or> ?o + length l + 1 - cap_marker cp > MAX_WIRE_BYTES)"
    using st wire_length_le [of "cap_challenge cp" "cap_run cp" "scan_expected v" f] l by simp
  have nf: "\<not> length (scan_records v) \<ge> MAX_FRAMES" using st by simp
  have ll: "?o + length ?w - 1 = ?o + length l" by (simp add: l(1))
  have io: "inspect_uart_record ?w (cap_challenge cp) (cap_run cp) = Inr (wire_header (cap_challenge cp) (cap_run cp) (scan_expected v) f)"
    "decode_uart_record ?w (cap_challenge cp) (cap_run cp) = Inr (wire_frame (cap_challenge cp) (cap_run cp) (scan_expected v) f)"
    using st inspect_of_wire by blast+
  show ?thesis unfolding scan_record_def Let_def taken_def frame_wire_of
    using z m le nf by (simp only: e w io ll if_False not_not option.case sum.case if_True simp_thms)
qed

lemma scan_record_taken:
  assumes "scan_record cp v = Inr v'" "length (cap_challenge cp) = 32" "length (cap_run cp) = 32" "scan_offset v < length (cap_data cp)"
  obtains f z where "stands cp v f z" "admit_header cp v (wire_header (cap_challenge cp) (cap_run cp) (scan_expected v) f) = None" "taken cp v f = Inr v'"
proof -
  let ?d = "cap_data cp" and ?o = "scan_offset v"
  obtain e h fr where e: "find_from (CHR 0x0A) ?d ?o = Some e" and le: "e + 1 - ?o \<le> MAX_RECORD_WIRE_BYTES" "e + 1 - cap_marker cp \<le> MAX_WIRE_BYTES"
    and nf: "length (scan_records v) < MAX_FRAMES" and h: "inspect_uart_record (pslice ?o (e + 1) ?d) (cap_challenge cp) (cap_run cp) = Inr h"
    and ad: "admit_header cp v h = None" and fr: "decode_uart_record (pslice ?o (e + 1) ?d) (cap_challenge cp) (cap_run cp) = Inr fr"
    using assms(1) by (auto simp: scan_record_def Let_def split: if_splits option.splits sum.splits)
  obtain n k p where f: "n < MAX_FRAMES" "frame_ok (k, p)" and w: "pslice ?o (e + 1) ?d = uart_wire (cap_challenge cp) (cap_run cp) n (k, p)"
    using fr by (auto simp: decode_uart_iff)
  have hh: "h = wire_header (cap_challenge cp) (cap_run cp) n (k, p)" using h inspect_of_wire [OF assms(2,3) f] unfolding w by simp
  then have n: "n = scan_expected v" using ad by (auto simp: admit_header_def wire_header_def split: if_splits)
  have eb: "?o \<le> e" "e < length ?d" using find_from_bound [OF e] by blast+
  have lw: "length (uart_wire (cap_challenge cp) (cap_run cp) n (k, p)) = e + 1 - ?o" using w [symmetric] eb by simp
  have "drop ?o ?d = pslice ?o (e + 1) ?d @ drop (e + 1) ?d" using eb by (simp add: pslice_def) (metis append_take_drop_id drop_drop le_add_diff_inverse2 le_SucI add_Suc)
  then have st: "stands cp v (k, p) (drop (e + 1) ?d)" using w f assms(2,3) n le nf lw eb by (simp add: stands_def)
  then show ?thesis using that [OF st] scan_record_stands [OF st] ad assms(1) hh n by simp
qed

section \<open>The transcript read so far\<close>

definition state_of :: "bytes list \<Rightarrow> bool \<Rightarrow> bytes option \<Rightarrow> scan_state" where
  "state_of qs voided fail = (if voided then Invalidated else if fail \<noteq> None then Standalone else if qs = [] then Start else Success)"

definition failure_read :: "capture \<Rightarrow> bytes option \<Rightarrow> FailureTerminal option \<Rightarrow> bool" where
  "failure_read cp fail t = (case fail of None \<Rightarrow> t = None
     | Some p \<Rightarrow> \<exists>ft. parse_failure_terminal p (Some (cap_challenge cp)) (Some (cap_run cp)) = Inr ft \<and> t = Some ft)"

definition legal :: "capture \<Rightarrow> bytes list \<Rightarrow> bool \<Rightarrow> bytes option \<Rightarrow> bool" where
  "legal cp qs voided fail \<longleftrightarrow> list_all frame_ok (transcript qs voided fail) \<and>
     (voided \<longrightarrow> qs \<noteq> [] \<and> (\<exists>b. parse_export_stream (cap_nfc cp) (concat qs) (Some (cap_challenge cp)) (Some (cap_run cp)) = Inr b)) \<and>
     (fail \<noteq> None \<longrightarrow> voided \<or> qs = [])"

abbreviation lead :: "capture \<Rightarrow> (string \<times> bytes) list \<Rightarrow> bytes" where
  "lead cp fs \<equiv> wires (cap_challenge cp) (cap_run cp) 0 fs"

definition scan_at :: "capture \<Rightarrow> bytes list \<Rightarrow> bool \<Rightarrow> bytes option \<Rightarrow> scan \<Rightarrow> bool" where
  "scan_at cp qs voided fail v \<longleftrightarrow> legal cp qs voided fail \<and> (let fs = transcript qs voided fail in
     scan_offset v = cap_marker cp + length (lead cp fs) \<and> take (cap_marker cp + length (lead cp fs)) (cap_data cp) = take (cap_marker cp) (cap_data cp) @ lead cp fs \<and> scan_expected v = length fs \<and> length (scan_records v) = length fs \<and>
     scan_payloads v = qs \<and> scan_success_size v = length (concat qs) \<and> scan_decoded_size v = length (concat (map snd fs)) \<and>
     scan_state v = state_of qs voided fail \<and> failure_read cp fail (scan_failure v))"

lemma transcript_simps: "transcript (qs @ [q]) False None = transcript qs False None @ [(KIND_SUCCESS, q)]"
  "transcript qs True None = transcript qs False None @ [(KIND_INVALIDATE, [CHR 0x00])]"
  "transcript qs voided (Some t) = transcript qs voided None @ [(KIND_FAILURE, t)]" "transcript [] False None = []"
  by (simp_all add: transcript_def)

lemma kinds_distinct [simp]: "KIND_SUCCESS \<noteq> KIND_INVALIDATE" "KIND_SUCCESS \<noteq> KIND_FAILURE" "KIND_INVALIDATE \<noteq> KIND_FAILURE"
  "KIND_INVALIDATE \<noteq> KIND_SUCCESS" "KIND_FAILURE \<noteq> KIND_SUCCESS" "KIND_FAILURE \<noteq> KIND_INVALIDATE"
  by (simp_all add: uart_kinds)

lemma wire_fields [simp]: "frame_kind (wire_frame c r n (k, p)) = k" "frame_payload (wire_frame c r n (k, p)) = p" "frame_sequence (wire_frame c r n (k, p)) = n"
  "header_kind (wire_header c r n (k, p)) = k" "header_length (wire_header c r n (k, p)) = length p" "header_sequence (wire_header c r n (k, p)) = n"
  by (simp_all add: wire_frame_def wire_header_def)

lemma scan_start_at: "scan_at cp [] False None (scan_start (cap_marker cp))"
  by (simp add: scan_at_def legal_def transcript_def scan_start_def state_of_def failure_read_def)

text \<open>What taking the record of each kind does.\<close>

lemma taken_offset: "taken cp v f = Inr v' \<Longrightarrow> scan_offset v' = scan_offset v + length (uart_wire (cap_challenge cp) (cap_run cp) (scan_expected v) f)"
  using wire_marker(3) [of "cap_challenge cp" "cap_run cp" "scan_expected v" f] by (auto simp: taken_def Let_def note_frame_def dest!: accept_offset)

lemma stands_take: "stands cp v f z \<Longrightarrow> take (scan_offset v + length (uart_wire (cap_challenge cp) (cap_run cp) (scan_expected v) f)) (cap_data cp) =
    take (scan_offset v) (cap_data cp) @ uart_wire (cap_challenge cp) (cap_run cp) (scan_expected v) f"
  by (simp add: stands_def take_add)

lemma scan_at_success:
  assumes "scan_at cp qs voided fail v" "stands cp v (KIND_SUCCESS, q) z"
    and "admit_header cp v (wire_header c r (scan_expected v) (KIND_SUCCESS, q)) = None" "taken cp v (KIND_SUCCESS, q) = Inr v'"
  shows "voided = False \<and> fail = None \<and> scan_at cp (qs @ [q]) False None v'"
proof -
  have st: "scan_state v = Start \<or> scan_state v = Success" using assms(3) by (auto simp: admit_header_def split: if_splits)
  then have vf: "voided = False" "fail = None" using assms(1) by (auto simp: scan_at_def Let_def state_of_def split: if_splits)
  have ok: "frame_ok (KIND_SUCCESS, q)" using assms(2) by (simp add: stands_def)
  note off = taken_offset [OF assms(4)]
  have "take (scan_offset v') (cap_data cp) = take (cap_marker cp) (cap_data cp) @ lead cp (transcript (qs @ [q]) False None)"
    using stands_take [OF assms(2)] assms(1) by (simp add: off scan_at_def Let_def vf transcript_simps wires_append)
  then show ?thesis using assms(1,4) ok vf off
    by (auto simp: scan_at_def legal_def Let_def transcript_simps taken_def accept_frame_def note_frame_def wires_append state_of_def failure_read_def add.assoc)
qed

lemma scan_at_invalidate:
  assumes "scan_at cp qs voided fail v" "stands cp v (KIND_INVALIDATE, q) z"
    and "admit_header cp v (wire_header c r (scan_expected v) (KIND_INVALIDATE, q)) = None" "taken cp v (KIND_INVALIDATE, q) = Inr v'"
  shows "voided = False \<and> fail = None \<and> q = [CHR 0x00] \<and> scan_at cp qs True None v'"
proof -
  have st: "scan_state v = Success" using assms(3) by (auto simp: admit_header_def split: if_splits)
  then have vf: "voided = False" "fail = None" "qs \<noteq> []" using assms(1) by (auto simp: scan_at_def Let_def state_of_def split: if_splits)
  have q: "q = [CHR 0x00]" using assms(2) by (auto simp: stands_def frame_ok_def)
  have "scan_payloads v = qs" using assms(1) by (simp add: scan_at_def Let_def)
  then have ex: "\<exists>b. parse_export_stream (cap_nfc cp) (concat qs) (Some (cap_challenge cp)) (Some (cap_run cp)) = Inr b"
    using assms(3) by (auto simp: admit_header_def inner_success_def split: if_splits sum.splits prod.splits)
  note off = taken_offset [OF assms(4)]
  have "take (scan_offset v') (cap_data cp) = take (cap_marker cp) (cap_data cp) @ lead cp (transcript qs True None)"
    using stands_take [OF assms(2)] assms(1) by (simp add: off scan_at_def Let_def vf q transcript_simps wires_append)
  then show ?thesis using assms(1,4) vf off q ex
    by (auto simp: scan_at_def legal_def Let_def transcript_simps taken_def accept_frame_def note_frame_def wires_append state_of_def failure_read_def add.assoc)
qed

lemma scan_at_failure:
  assumes "scan_at cp qs voided fail v" "stands cp v (KIND_FAILURE, q) z"
    and "admit_header cp v (wire_header c r (scan_expected v) (KIND_FAILURE, q)) = None" "taken cp v (KIND_FAILURE, q) = Inr v'"
  shows "fail = None \<and> scan_at cp qs voided (Some q) v'"
proof -
  have st: "scan_state v = Start \<or> scan_state v = Invalidated" "scan_failure v = None" using assms(3) by (auto simp: admit_header_def split: if_splits)
  then have f: "fail = None" using assms(1) by (cases fail) (auto simp: scan_at_def Let_def failure_read_def)
  have vf: "voided \<or> qs = []" using st assms(1) f by (auto simp: scan_at_def Let_def state_of_def split: if_splits)
  have ok: "frame_ok (KIND_FAILURE, q)" using assms(2) by (simp add: stands_def)
  note off = taken_offset [OF assms(4)]
  have "take (scan_offset v') (cap_data cp) = take (cap_marker cp) (cap_data cp) @ lead cp (transcript qs voided (Some q))"
    using stands_take [OF assms(2)] assms(1) by (simp add: off scan_at_def Let_def f transcript_simps(3) wires_append)
  then show ?thesis using assms(1,4) vf off ok f
    by (auto simp: scan_at_def legal_def Let_def transcript_simps(3) taken_def accept_frame_def note_frame_def wires_append state_of_def failure_read_def add.assoc
        split: sum.splits)
qed

lemma scan_record_at:
  assumes "scan_at cp qs voided fail v" "scan_record cp v = Inr v'" "length (cap_challenge cp) = 32" "length (cap_run cp) = 32" "scan_offset v < length (cap_data cp)"
  shows "\<exists>qs voided fail. scan_at cp qs voided fail v'"
proof -
  obtain k p z where f: "stands cp v (k, p) z" "admit_header cp v (wire_header (cap_challenge cp) (cap_run cp) (scan_expected v) (k, p)) = None" "taken cp v (k, p) = Inr v'"
    using scan_record_taken [OF assms(2-5)] by (metis surj_pair)
  then have "k = KIND_SUCCESS \<or> k = KIND_INVALIDATE \<or> k = KIND_FAILURE" by (auto simp: stands_def frame_ok_def)
  then show ?thesis using scan_at_success scan_at_invalidate scan_at_failure assms(1) f by metis
qed

section \<open>What an observation proves\<close>

abbreviation settled :: "status set" where
  "settled \<equiv> {Complete_result, Standalone_failure, Invalidated_result}"

lemma scan_result_fields [simp]: "obs_status (scan_result cp v st reason pad snap ex fl) = st" "obs_snapshot (scan_result cp v st reason pad snap ex fl) = snap"
  "obs_exported (scan_result cp v st reason pad snap ex fl) = ex" "obs_failure (scan_result cp v st reason pad snap ex fl) = fl"
  "obs_status (plain_result cp v st text) = st"
  by (simp_all add: scan_result_def observation_def Let_def plain_result_def)

lemma admit_header_unsettled: "admit_header cp v h = Some obs \<Longrightarrow> obs_status obs \<notin> settled"
  by (auto simp: admit_header_def inner_success_def Let_def split: if_splits sum.splits prod.splits)

lemma scan_record_settled:
  assumes "scan_record cp v = Inl obs" "obs_status obs \<in> settled"
  shows "list_all (\<lambda>b. b = CHR 0x00) (drop (scan_offset v) (cap_data cp)) \<and> obs = semantic_result cp v (Some (scan_offset v))"
proof -
  have "obs = scan_padding cp v"
    using assms admit_header_unsettled [of cp v _ obs] by (auto simp: scan_record_def Let_def accept_frame_def split: if_splits option.splits sum.splits)
  then show ?thesis using assms(2) by (auto simp: scan_padding_def Let_def split: if_splits)
qed

lemma scan_loop_settled:
  assumes "scan_at cp qs voided fail v" "obs_status (scan_loop cp v) \<in> settled" "length (cap_challenge cp) = 32" "length (cap_run cp) = 32"
  shows "\<exists>qs voided fail v' pad. scan_at cp qs voided fail v' \<and> list_all (\<lambda>b. b = CHR 0x00) (drop (scan_offset v') (cap_data cp)) \<and>
    scan_loop cp v = semantic_result cp v' pad"
  using assms
proof (induction cp v arbitrary: qs voided fail rule: scan_loop.induct)
  case (1 cp v)
  show ?case
  proof (cases "scan_offset v < length (cap_data cp)")
    case False
    then show ?thesis using "1.prems"(1) by (intro exI [of _ qs] exI [of _ voided] exI [of _ fail] exI [of _ v] exI [of _ None]) (simp add: scan_loop.simps [of cp v])
  next
    case True
    show ?thesis
    proof (cases "scan_record cp v")
      case (Inl obs)
      then have "scan_loop cp v = obs" using True by (simp add: scan_loop.simps [of cp v])
      then show ?thesis using scan_record_settled [OF Inl] "1.prems"(1,2) by blast
    next
      case (Inr v')
      then have l: "scan_loop cp v = scan_loop cp v'" using True by (simp add: scan_loop.simps [of cp v])
      then show ?thesis using "1.IH" [OF True Inr] scan_record_at [OF "1.prems"(1) Inr "1.prems"(3,4) True] "1.prems"(2-4) by metis
    qed
  qed
qed

text \<open>What a settled observation reports of a transcript.\<close>

definition reports :: "(ustr \<Rightarrow> ustr) \<Rightarrow> bytes \<Rightarrow> bytes \<Rightarrow> bytes list \<Rightarrow> bool \<Rightarrow> bytes option \<Rightarrow> UartObservation \<Rightarrow> bool" where
  "reports nfc c r qs voided fail obs = (case obs_status obs of
     Complete_result \<Rightarrow> \<not> voided \<and> fail = None \<and> obs_snapshot obs = Some (concat qs) \<and> obs_failure obs = None \<and>
       (\<exists>b. obs_exported obs = Some b \<and> parse_export_stream nfc (concat qs) (Some c) (Some r) = Inr b)
   | Invalidated_result \<Rightarrow> voided \<and> obs_snapshot obs = Some (concat qs) \<and> obs_exported obs = None \<and>
       (\<exists>b. parse_export_stream nfc (concat qs) (Some c) (Some r) = Inr b) \<and>
       (case fail of None \<Rightarrow> obs_failure obs = None | Some t \<Rightarrow> \<exists>ft. obs_failure obs = Some ft \<and> parse_failure_terminal t (Some c) (Some r) = Inr ft)
   | Standalone_failure \<Rightarrow> \<not> voided \<and> qs = [] \<and> obs_snapshot obs = None \<and> obs_exported obs = None \<and>
       (\<exists>t ft. fail = Some t \<and> obs_failure obs = Some ft \<and> parse_failure_terminal t (Some c) (Some r) = Inr ft)
   | _ \<Rightarrow> False)"

lemma semantic_reports:
  assumes "scan_at cp qs voided fail v" "obs_status (semantic_result cp v pad) \<in> settled"
  shows "reports (cap_nfc cp) (cap_challenge cp) (cap_run cp) qs voided fail (semantic_result cp v pad)"
  using assms
  by (auto simp: scan_at_def Let_def legal_def semantic_result_def state_of_def inner_success_def reports_def failure_read_def split: if_splits sum.splits option.splits)

lemma zeros_iff: "list_all (\<lambda>b. b = CHR 0x00) xs \<longleftrightarrow> xs = replicate (length xs) (CHR 0x00)"
  by (induction xs) auto

text \<open>
  C14. An observation is only settled by what stands in the capture: when the observer reports a complete result, an invalidated
  result or a standalone failure, the capture is a preamble, the canonical records of a legal transcript with sequence numbers
  from 0, and zeros; a complete result carries no invalidator, and the export reported is the parse of the payloads.
\<close>

theorem observation_sound:
  assumes "observe_uart_blob nfc data c r = Inr obs" "obs_status obs \<in> {Complete_result, Standalone_failure, Invalidated_result}"
  shows "\<exists>m qs voided fail k. data = take m data @ wires c r 0 (transcript qs voided fail) @ replicate k (CHR 0x00) \<and> reports nfc c r qs voided fail obs"
proof -
  from assms obtain m where l: "length c = 32" "length r = 32"
    and obs: "obs = scan_loop \<lparr>cap_nfc = nfc, cap_data = data, cap_challenge = c, cap_run = r, cap_marker = m\<rparr> (scan_start m)"
    by (auto simp: observe_uart_blob_def Let_def observation_def split: if_splits option.splits)
  let ?cp = "\<lparr>cap_nfc = nfc, cap_data = data, cap_challenge = c, cap_run = r, cap_marker = m\<rparr>"
  have "scan_at ?cp [] False None (scan_start m)" using scan_start_at [of ?cp] by simp
  from scan_loop_settled [OF this] assms(2) l obtain qs voided fail v pad where v: "scan_at ?cp qs voided fail v"
      "list_all (\<lambda>b. b = CHR 0x00) (drop (scan_offset v) data)" "obs = semantic_result ?cp v pad"
    by (auto simp: obs)
  have "data = take (scan_offset v) data @ drop (scan_offset v) data" by simp
  also have "take (scan_offset v) data = take m data @ wires c r 0 (transcript qs voided fail)" using v(1) by (simp add: scan_at_def Let_def)
  also have "drop (scan_offset v) data = replicate (length data - scan_offset v) (CHR 0x00)" using v(2) by (simp add: zeros_iff)
  finally show ?thesis using semantic_reports [OF v(1), of pad] assms(2) v(3) by (metis append_assoc capture.select_convs(1,3,4))
qed

section \<open>Every legal transcript is observed\<close>

lemma small_wire:
  assumes "length c = 32" "length r = 32" "n < MAX_FRAMES" "frame_ok (k, p)" "k \<noteq> KIND_SUCCESS"
  shows "length (uart_wire c r n (k, p)) \<le> 384"
proof -
  have "length p \<le> 112" using assms(4,5) by (auto simp: frame_ok_def FAILURE_TERMINAL_SIZE_def)
  then have "length (b64encode p) \<le> 152" by (simp add: length_b64encode)
  then show ?thesis using uart_wire_length(1) [OF assms(1-4)] by simp
qed

lemma wires_length:
  "length c = 32 \<Longrightarrow> length r = 32 \<Longrightarrow> list_all frame_ok fs \<Longrightarrow> n + length fs \<le> MAX_FRAMES \<Longrightarrow> length (wires c r n fs) \<le> 87616 * length fs"
proof (induction fs arbitrary: n)
  case (Cons f fs)
  have "length (uart_wire c r n f) \<le> 87616"
    using Cons.prems wire_length_le [of c r n f] by (simp add: MAX_RECORD_WIRE_BYTES_def MAX_NON_PAYLOAD_OVERHEAD_def MAX_S_PAYLOAD_BYTES_def)
  moreover have "length (wires c r (Suc n) fs) \<le> 87616 * length fs" using Cons by simp
  ultimately show ?case by simp
qed simp

lemma transcript_wire_limit:
  assumes "length c = 32" "length r = 32" "length qs \<le> 256" "list_all frame_ok (transcript qs voided fail)"
  shows "length (wires c r 0 (transcript qs voided fail)) \<le> MAX_WIRE_BYTES"
proof -
  have "length (wires c r 0 (map (Pair KIND_SUCCESS) qs)) \<le> 87616 * length qs"
    using assms wires_length [of c r "map (Pair KIND_SUCCESS) qs" 0] by (simp add: transcript_def MAX_FRAMES_def)
  moreover have "length (wires c r (length qs) (if voided then [(KIND_INVALIDATE, [CHR 0x00])] else [])) \<le> 384"
    using small_wire [OF assms(1,2)] assms(3) by (simp add: MAX_FRAMES_def)
  moreover have "length (wires c r (length qs + (if voided then 1 else 0)) (case fail of None \<Rightarrow> [] | Some t \<Rightarrow> [(KIND_FAILURE, t)])) \<le> 384"
    using small_wire [OF assms(1,2), of "length qs + (if voided then 1 else 0)"] assms(3,4) by (cases fail) (auto simp: transcript_def MAX_FRAMES_def)
  ultimately show ?thesis using assms(3) by (cases voided) (simp_all add: transcript_def wires_append MAX_WIRE_BYTES_def)
qed

text \<open>A capture that carries the records of a list of frames behind its preamble.\<close>

definition carries :: "capture \<Rightarrow> (string \<times> bytes) list \<Rightarrow> bool" where
  "carries cp fs \<longleftrightarrow> length (cap_challenge cp) = 32 \<and> length (cap_run cp) = 32 \<and> cap_marker cp \<le> length (cap_data cp) \<and>
     (\<exists>z. drop (cap_marker cp) (cap_data cp) = lead cp fs @ z)"

lemma carries_prefix: "carries cp (fs @ gs) \<Longrightarrow> carries cp fs"
  by (auto simp: carries_def wires_append)

lemma carries_stands:
  assumes "carries cp (transcript qs voided fail @ [f])" "scan_at cp qs voided fail v" "length (transcript qs voided fail) < MAX_FRAMES" "frame_ok f"
    and "length (lead cp (transcript qs voided fail @ [f])) \<le> MAX_WIRE_BYTES"
  shows "\<exists>z. stands cp v f z"
proof -
  let ?fs = "transcript qs voided fail"
  obtain z where z: "drop (cap_marker cp) (cap_data cp) = lead cp (?fs @ [f]) @ z" using assms(1) by (auto simp: carries_def)
  have v: "scan_offset v = cap_marker cp + length (lead cp ?fs)" "scan_expected v = length ?fs" "length (scan_records v) = length ?fs"
    using assms(2) by (simp_all add: scan_at_def Let_def)
  have "drop (scan_offset v) (cap_data cp) = drop (length (lead cp ?fs)) (drop (cap_marker cp) (cap_data cp))" by (simp add: v(1) add.commute)
  then have "drop (scan_offset v) (cap_data cp) = uart_wire (cap_challenge cp) (cap_run cp) (scan_expected v) f @ z"
    unfolding z by (simp add: wires_append v(2))
  then show ?thesis using assms v by (auto simp: stands_def carries_def wires_append)
qed

lemma loop_step:
  assumes "stands cp v f z" "admit_header cp v (wire_header (cap_challenge cp) (cap_run cp) (scan_expected v) f) = None" "taken cp v f = Inr v'"
  shows "scan_loop cp v = scan_loop cp v'"
proof -
  have "drop (scan_offset v) (cap_data cp) \<noteq> []" using assms(1) wire_marker(3) by (simp add: stands_def)
  then have "scan_offset v < length (cap_data cp)" by simp
  then show ?thesis using scan_record_stands [OF assms(1)] assms(2,3) by (simp add: scan_loop.simps [of cp v])
qed

lemma loop_success:
  assumes "scan_at cp qs False None v" "carries cp (transcript (qs @ [q]) False None)" "length (qs @ [q]) \<le> 256"
    and "length (concat (qs @ [q])) \<le> MAX_SNAPSHOT_BYTES" "list_all frame_ok (transcript (qs @ [q]) False None)"
  shows "\<exists>v'. scan_loop cp v = scan_loop cp v' \<and> scan_at cp (qs @ [q]) False None v'"
proof -
  have "length (lead cp (transcript (qs @ [q]) False None)) \<le> MAX_WIRE_BYTES"
    using assms(2,3,5) by (intro transcript_wire_limit) (auto simp: carries_def)
  moreover have "length (transcript qs False None) < MAX_FRAMES" using assms(3) by (simp add: transcript_def MAX_FRAMES_def)
  ultimately obtain z where z: "stands cp v (KIND_SUCCESS, q) z"
    using carries_stands [of cp qs False None "(KIND_SUCCESS, q)" v] assms(1,2,5) by (auto simp: transcript_simps)
  have a: "admit_header cp v (wire_header (cap_challenge cp) (cap_run cp) (scan_expected v) (KIND_SUCCESS, q)) = None"
    using assms(1,4) by (simp add: admit_header_def scan_at_def Let_def transcript_def state_of_def MAX_DECODED_BYTES_def comp_def)
  obtain v' where t: "taken cp v (KIND_SUCCESS, q) = Inr v'" by (simp add: taken_def accept_frame_def Let_def)
  show ?thesis using loop_step [OF z a t] scan_at_success [OF assms(1) z a t] by blast
qed

lemma loop_invalidate:
  assumes "scan_at cp qs False None v" "carries cp (transcript qs True None)" "length qs \<le> 256" "length (concat qs) \<le> MAX_SNAPSHOT_BYTES" "legal cp qs True None"
  shows "\<exists>v'. scan_loop cp v = scan_loop cp v' \<and> scan_at cp qs True None v'"
proof -
  have "length (lead cp (transcript qs True None)) \<le> MAX_WIRE_BYTES"
    using assms(2,3,5) by (intro transcript_wire_limit) (auto simp: carries_def legal_def)
  moreover have "length (transcript qs False None) < MAX_FRAMES" using assms(3) by (simp add: transcript_def MAX_FRAMES_def)
  ultimately obtain z where z: "stands cp v (KIND_INVALIDATE, [CHR 0x00]) z"
    using carries_stands [of cp qs False None "(KIND_INVALIDATE, [CHR 0x00])" v] assms(1,2,5) by (auto simp: transcript_simps)
  have a: "admit_header cp v (wire_header (cap_challenge cp) (cap_run cp) (scan_expected v) (KIND_INVALIDATE, [CHR 0x00])) = None"
    using assms(1,4,5) by (auto simp: admit_header_def scan_at_def Let_def transcript_def state_of_def MAX_DECODED_BYTES_def comp_def legal_def inner_success_def)
  obtain v' where t: "taken cp v (KIND_INVALIDATE, [CHR 0x00]) = Inr v'" by (simp add: taken_def accept_frame_def Let_def)
  show ?thesis using loop_step [OF z a t] scan_at_invalidate [OF assms(1) z a t] by blast
qed

lemma loop_failure:
  assumes "scan_at cp qs voided None v" "carries cp (transcript qs voided (Some p))" "length qs \<le> 256" "length (concat qs) \<le> MAX_SNAPSHOT_BYTES"
    and "legal cp qs voided (Some p)" "parse_failure_terminal p (Some (cap_challenge cp)) (Some (cap_run cp)) = Inr ft"
  shows "\<exists>v'. scan_loop cp v = scan_loop cp v' \<and> scan_at cp qs voided (Some p) v'"
proof -
  have ok: "frame_ok (KIND_FAILURE, p)" using assms(5) by (simp add: legal_def transcript_def)
  have "length (lead cp (transcript qs voided (Some p))) \<le> MAX_WIRE_BYTES"
    using assms(2,3,5) by (intro transcript_wire_limit) (auto simp: carries_def legal_def)
  moreover have "length (transcript qs voided None) < MAX_FRAMES" using assms(3) by (simp add: transcript_def MAX_FRAMES_def)
  ultimately obtain z where z: "stands cp v (KIND_FAILURE, p) z"
    using carries_stands [of cp qs voided None "(KIND_FAILURE, p)" v] assms(1,2) ok by (auto simp: transcript_simps(3))
  have "length p = FAILURE_TERMINAL_SIZE" using ok by (simp add: frame_ok_def)
  then have a: "admit_header cp v (wire_header (cap_challenge cp) (cap_run cp) (scan_expected v) (KIND_FAILURE, p)) = None"
    using assms(1,4,5) by (auto simp: admit_header_def scan_at_def Let_def transcript_def state_of_def MAX_DECODED_BYTES_def comp_def legal_def failure_read_def)
  obtain v' where t: "taken cp v (KIND_FAILURE, p) = Inr v'" using assms(6) by (simp add: taken_def accept_frame_def Let_def)
  show ?thesis using loop_step [OF z a t] scan_at_failure [OF assms(1) z a t] by blast
qed

lemma loop_transcript:
  assumes "carries cp (transcript qs voided fail)" "legal cp qs voided fail" "length qs \<le> 256" "length (concat qs) \<le> MAX_SNAPSHOT_BYTES"
    and "\<And>t. fail = Some t \<Longrightarrow> \<exists>ft. parse_failure_terminal t (Some (cap_challenge cp)) (Some (cap_run cp)) = Inr ft"
  shows "\<exists>v. scan_loop cp (scan_start (cap_marker cp)) = scan_loop cp v \<and> scan_at cp qs voided fail v"
proof -
  have chunks: "carries cp (transcript qs False None) \<Longrightarrow> list_all frame_ok (transcript qs False None) \<Longrightarrow> length qs \<le> 256 \<Longrightarrow> length (concat qs) \<le> MAX_SNAPSHOT_BYTES \<Longrightarrow>
      \<exists>v. scan_loop cp (scan_start (cap_marker cp)) = scan_loop cp v \<and> scan_at cp qs False None v" for qs
  proof (induction qs rule: rev_induct)
    case Nil
    then show ?case using scan_start_at by blast
  next
    case (snoc q qs)
    have "carries cp (transcript qs False None)" "list_all frame_ok (transcript qs False None)"
      using snoc.prems carries_prefix [of cp "transcript qs False None" "[(KIND_SUCCESS, q)]"] by (simp_all add: transcript_simps(1))
    then obtain v where "scan_loop cp (scan_start (cap_marker cp)) = scan_loop cp v" "scan_at cp qs False None v" using snoc.IH snoc.prems by auto
    then show ?case using loop_success [of cp qs v q] snoc.prems by auto
  qed
  have c0: "carries cp (transcript qs False None)" "carries cp (transcript qs voided None)"
    using assms(1) carries_prefix [of cp "transcript qs False None"] carries_prefix [of cp "transcript qs voided None"]
    by (auto simp: transcript_def split: option.splits if_splits)
  have l0: "list_all frame_ok (transcript qs False None)" "legal cp qs voided None" using assms(2) by (simp_all add: legal_def transcript_def)
  obtain v where v: "scan_loop cp (scan_start (cap_marker cp)) = scan_loop cp v" "scan_at cp qs False None v" using chunks [OF c0(1) l0(1) assms(3,4)] by blast
  have "\<exists>v. scan_loop cp (scan_start (cap_marker cp)) = scan_loop cp v \<and> scan_at cp qs voided None v"
  proof (cases voided)
    case True
    then show ?thesis using loop_invalidate [OF v(2), OF _ assms(3,4)] c0(2) l0(2) v(1) by auto
  qed (use v in auto)
  then show ?thesis using loop_failure [OF _ _ assms(3,4)] assms(1,2,5) by (cases fail) (fastforce, metis)
qed

definition outcome :: "bool \<Rightarrow> bytes option \<Rightarrow> status" where
  "outcome voided fail = (if voided then Invalidated_result else if fail \<noteq> None then Standalone_failure else Complete_result)"

lemma outcome_settled: "outcome voided fail \<in> settled"
  by (simp add: outcome_def)

lemma semantic_outcome:
  assumes "scan_at cp qs voided fail v" "transcript qs voided fail \<noteq> []"
    and "\<not> voided \<Longrightarrow> fail = None \<Longrightarrow> \<exists>b. parse_export_stream (cap_nfc cp) (concat qs) (Some (cap_challenge cp)) (Some (cap_run cp)) = Inr b"
  shows "obs_status (semantic_result cp v pad) = outcome voided fail"
  using assms by (auto simp: scan_at_def Let_def semantic_result_def state_of_def inner_success_def outcome_def transcript_def split: if_splits sum.splits option.splits)

lemma zeros_nth: "drop n data = replicate k z \<Longrightarrow> n < length data \<Longrightarrow> data ! n = z"
  using nth_drop [of n data 0] by (cases k) (auto simp flip: length_drop)

lemma loop_end:
  assumes "scan_at cp qs voided fail v" "drop (scan_offset v) (cap_data cp) = replicate k (CHR 0x00)" "\<And>pad. obs_status (semantic_result cp v pad) \<in> settled"
  shows "\<exists>pad. scan_loop cp v = semantic_result cp v pad"
proof (cases "scan_offset v < length (cap_data cp)")
  case True
  then have "cap_data cp ! scan_offset v = CHR 0x00" using zeros_nth [OF assms(2)] by simp
  moreover have "scan_padding cp v = semantic_result cp v (Some (scan_offset v))" using assms(2,3) by (simp add: scan_padding_def Let_def list_all_iff)
  ultimately show ?thesis using True by (intro exI [of _ "Some (scan_offset v)"]) (simp add: scan_loop.simps [of cp v] scan_record_def Let_def)
qed (auto simp: scan_loop.simps [of cp v])

lemma observe_transcript:
  assumes "length c = 32" "length r = 32" "data = pre @ wires c r 0 (transcript qs voided fail) @ replicate k (CHR 0x00)"
    and "find_sub MARKER data = Some (length pre)" "length pre \<le> MAX_PREAMBLE_BYTES" "length data \<le> MAX_RAW_SNAPSHOT_BYTES"
    and "list_all frame_ok (transcript qs voided fail)" "transcript qs voided fail \<noteq> []" "length qs \<le> 256" "length (concat qs) \<le> MAX_SNAPSHOT_BYTES"
    and "qs \<noteq> [] \<Longrightarrow> \<exists>b. parse_export_stream nfc (concat qs) (Some c) (Some r) = Inr b" "voided \<Longrightarrow> qs \<noteq> []" "fail \<noteq> None \<Longrightarrow> voided \<or> qs = []"
    and "\<And>t. fail = Some t \<Longrightarrow> \<exists>ft. parse_failure_terminal t (Some c) (Some r) = Inr ft"
  shows "\<exists>obs. observe_uart_blob nfc data c r = Inr obs \<and> obs_status obs = outcome voided fail \<and> reports nfc c r qs voided fail obs"
proof -
  let ?cp = "\<lparr>cap_nfc = nfc, cap_data = data, cap_challenge = c, cap_run = r, cap_marker = length pre\<rparr>"
  have "carries ?cp (transcript qs voided fail)" using assms(1-3) by (simp add: carries_def)
  moreover have "legal ?cp qs voided fail" using assms(7,11-13) by (auto simp: legal_def)
  ultimately obtain v where v: "scan_loop ?cp (scan_start (length pre)) = scan_loop ?cp v" "scan_at ?cp qs voided fail v"
    using loop_transcript [of ?cp qs voided fail] assms(9,10,14) by auto
  have ne: "\<not> voided \<Longrightarrow> fail = None \<Longrightarrow> qs \<noteq> []" using assms(8) by (auto simp: transcript_def)
  have st: "obs_status (semantic_result ?cp v pad) = outcome voided fail" for pad
    using semantic_outcome [OF v(2) assms(8)] assms(11) ne by auto
  have "drop (scan_offset v) data = replicate k (CHR 0x00)" using v(2) assms(3) by (simp add: scan_at_def Let_def)
  then obtain pad where e: "scan_loop ?cp v = semantic_result ?cp v pad" using loop_end [OF v(2), of k] st outcome_settled by auto
  have "observe_uart_blob nfc data c r = Inr (semantic_result ?cp v pad)" using assms(1,2,4-6) v(1) e by (simp add: observe_uart_blob_def Let_def)
  moreover have "reports nfc c r qs voided fail (semantic_result ?cp v pad)" using semantic_reports [OF v(2), of pad] st outcome_settled by simp
  ultimately show ?thesis using st by blast
qed

section \<open>From the writer to the observer\<close>

lemma terminal_length: "encode_failure_terminal reason phase c r = Inr t \<Longrightarrow> length t = FAILURE_TERMINAL_SIZE"
  by (auto simp: encode_failure_terminal_def terminal_error_def Let_def length_failure_prefix FAILURE_TERMINAL_SIZE_def split: option.splits if_splits)

text \<open>The transcript of a writer that has finished a stream or written a failure.\<close>

lemma writer_transcript:
  assumes "transcript_of w qs fail" "success_complete_flag w \<or> terminal w"
  shows "list_all frame_ok (transcript qs (invalidated w) fail)" "transcript qs (invalidated w) fail \<noteq> []" "length qs \<le> 256" "length (concat qs) \<le> MAX_SNAPSHOT_BYTES"
    "invalidated w \<Longrightarrow> qs \<noteq> []" "fail \<noteq> None \<Longrightarrow> invalidated w \<or> qs = []" "qs \<noteq> [] \<Longrightarrow> success w = Some (concat qs)" "success w \<noteq> None \<Longrightarrow> qs \<noteq> []"
    "\<And>t. fail = Some t \<Longrightarrow> \<exists>ft. parse_failure_terminal t (Some (challenge w)) (Some (run_identity w)) = Inr ft"
proof -
  have t: "list_all (\<lambda>q. frame_ok (KIND_SUCCESS, q)) qs" "success_part w qs" "invalidated w \<longrightarrow> success_complete_flag w" "failure_part w fail"
    using assms(1) by (simp_all add: transcript_of_def)
  have f: "terminal w = (fail \<noteq> None)" "\<And>t. fail = Some t \<Longrightarrow> (success w = None \<or> invalidated w) \<and>
      (\<exists>reason phase. encode_failure_terminal reason phase (challenge w) (run_identity w) = Inr t)" using t(4) by (simp_all add: failure_part_def)
  have sm: "success w \<noteq> None \<Longrightarrow> success_complete_flag w" using assms(2) t(3) f by (cases fail) auto
  show q: "length qs \<le> 256" "length (concat qs) \<le> MAX_SNAPSHOT_BYTES" "qs \<noteq> [] \<Longrightarrow> success w = Some (concat qs)" "success w \<noteq> None \<Longrightarrow> qs \<noteq> []"
    using t(2) sm by (auto simp: success_part_def split: option.splits)
  show i: "invalidated w \<Longrightarrow> qs \<noteq> []" using t(2,3) q(4) by (auto simp: success_part_def split: option.splits)
  show "fail \<noteq> None \<Longrightarrow> invalidated w \<or> qs = []" using f(2) q(3) by fastforce
  show "transcript qs (invalidated w) fail \<noteq> []" using assms(2) f(1) t(2) sm q(4) by (auto simp: transcript_def success_part_def split: option.splits)
  show "list_all frame_ok (transcript qs (invalidated w) fail)"
    using t(1) f(2) terminal_length by (cases fail) (fastforce simp: transcript_def list_all_iff frame_ok_def)+
  show "\<exists>ft. parse_failure_terminal t (Some (challenge w)) (Some (run_identity w)) = Inr ft" if "fail = Some t" for t
    using f(2) [OF that] parse_encode_terminal by blast
qed

text \<open>
  C17. From the serial writer to the off-box observer: after any calls of a writer that is not poisoned and has completed its
  stream or written a failure, a capture of the line behind a preamble without the marker, filled up with zeros, is observed as
  what the writer did: a complete result with exactly the exported members, an invalidated result, or a standalone failure.
\<close>

theorem writer_observed:
  assumes "uart_reach c r w s" "\<not> poisoned w" "success_complete_flag w \<or> terminal w" "nfc_ascii nfc"
    and "success w \<noteq> None \<longrightarrow> length ps = length PAYLOAD_MEMBER_NAMES \<and> build_export_stream nfc (zip PAYLOAD_MEMBER_NAMES ps) c r = Inr (the (success w))"
    and "data = pre @ sent s @ replicate k (CHR 0x00)" "find_sub MARKER data = Some (length pre)" "length pre \<le> MAX_PREAMBLE_BYTES"
    and "length data \<le> MAX_RAW_SNAPSHOT_BYTES"
  shows "\<exists>obs. observe_uart_blob nfc data c r = Inr obs \<and>
    obs_status obs = (if invalidated w then Invalidated_result else if terminal w then Standalone_failure else Complete_result) \<and>
    obs_snapshot obs = success w \<and> (obs_failure obs \<noteq> None \<longleftrightarrow> terminal w) \<and>
    (obs_status obs = Complete_result \<longrightarrow> obs_exported obs = Some (bundle_of ps c r))"
proof -
  note reach = reach_inv [OF assms(1)]
  then have cr: "challenge w = c" "run_identity w = r" by blast+
  from reach assms(2) obtain qs fail where t: "transcript_of w qs fail" and snt: "sent s = wires c r 0 (transcript qs (invalidated w) fail)"
    by (auto simp: cr elim: uart_inv_cleanE)
  note tr = writer_transcript [OF t assms(3), unfolded cr]
  have l: "length c = 32" "length r = 32" using t cr by (simp_all add: transcript_of_def)
  have pe: "success w = Some (concat qs) \<Longrightarrow> parse_export_stream nfc (concat qs) (Some c) (Some r) = Inr (bundle_of ps c r)"
    using assms(5) parse_stream [OF assms(4)] build_stream [OF assms(4)] by auto
  then have ex: "qs \<noteq> [] \<Longrightarrow> \<exists>b. parse_export_stream nfc (concat qs) (Some c) (Some r) = Inr b" using tr(7) by blast
  obtain obs where obs: "observe_uart_blob nfc data c r = Inr obs" "obs_status obs = outcome (invalidated w) fail" "reports nfc c r qs (invalidated w) fail obs"
    using observe_transcript [OF l assms(6) [unfolded snt] assms(7-9) tr(1-4) ex tr(5,6,9)] by blast
  have f: "terminal w = (fail \<noteq> None)" using t by (simp add: transcript_of_def failure_part_def)
  have sn: "success w = (if qs = [] then None else Some (concat qs))" using tr(7,8) by (cases "success w") auto
  have ne: "\<not> invalidated w \<Longrightarrow> fail = None \<Longrightarrow> qs \<noteq> []" using tr(2) by (auto simp: transcript_def)
  show ?thesis using obs f sn ne tr(5,6) pe
    by (intro exI [of _ obs]) (auto simp: outcome_def reports_def split: if_splits option.splits)
qed

lemma healthy_send:
  assumes "\<not> poisoned w" "pending_record w = None" "next_sequence w < MAX_FRAMES" "length (challenge w) = 32" "length (run_identity w) = 32" "frame_ok f" "0 \<le> d"
  shows "send_record (fst f) (snd f) d w \<lparr>clocks = [0, 0, 0], waits = [Ret True], writes = [Ret (int (length (next_wire w f)))], queues = [Ret 0], sent = x\<rparr> =
    Some (Inr (), w\<lparr>next_sequence := next_sequence w + 1, pending_record := None, pending_offset := 0\<rparr>,
      \<lparr>clocks = [], waits = [], writes = [], queues = [], sent = x @ next_wire w f\<rparr>)"
proof -
  let ?w = "w\<lparr>pending_record := Some (next_wire w f), pending_offset := 0\<rparr>"
  have st: "start_record (fst f) (snd f) w = Inr ?w" using assms by (simp add: start_record_iff next_wire_def)
  have ne: "0 < length (next_wire w f)" using wire_marker(3) by (simp add: next_wire_def)
  have "write_pending d ?w \<lparr>clocks = [0, 0, 0], waits = [Ret True], writes = [Ret (int (length (next_wire w f)))], queues = [Ret 0], sent = x\<rparr> =
      Some (Inr (), ?w\<lparr>next_sequence := next_sequence w + 1, pending_offset := length (next_wire w f)\<rparr>,
        \<lparr>clocks = [0], waits = [], writes = [], queues = [Ret 0], sent = x @ next_wire w f\<rparr>)"
    using ne assms(7) by (subst write_pending.simps) (simp add: write_pass_def write_pending.simps [of d "_\<lparr>pending_offset := length (next_wire w f)\<rparr>"])
  then show ?thesis using assms(7) by (simp add: send_record_def st then_call_def drain.simps drain_pass_def)
qed

lemma write_chunks_done: "length stream \<le> success_offset w \<Longrightarrow> write_chunks stream d w s = Some (Inr (), w\<lparr>success_complete_flag := True\<rparr>, s)"
  by (simp add: write_chunks.simps [of stream d w])

text \<open>A writer that has sent a stream of one chunk to a device that takes it at once.\<close>

lemma one_chunk_reach:
  assumes "length c = 32" "length r = 32" "1 \<le> length stream" "length stream \<le> MAX_S_PAYLOAD_BYTES"
  shows "\<exists>w s. uart_reach c r w s \<and> \<not> poisoned w \<and> success_complete_flag w \<and> success w = Some stream \<and> \<not> invalidated w \<and> \<not> terminal w \<and>
    sent s = uart_wire c r 0 (KIND_SUCCESS, stream)"
proof -
  let ?w = "\<lparr>challenge = c, run_identity = r, next_sequence = 0, pending_record = None, pending_offset = 0, poisoned = False, success = None,
       success_offset = 0, success_complete_flag = False, invalidated = False, terminal = False\<rparr>"
  let ?w1 = "?w\<lparr>success := Some stream\<rparr>" and ?f = "(KIND_SUCCESS, stream)"
  let ?s = "\<lparr>clocks = [0, 0, 0], waits = [Ret True], writes = [Ret (int (length (next_wire ?w1 ?f)))], queues = [Ret 0], sent = []\<rparr>"
  let ?w2 = "?w1\<lparr>next_sequence := 1, success_offset := length stream, success_complete_flag := True\<rparr>"
  let ?s2 = "\<lparr>clocks = [], waits = [], writes = [], queues = [], sent = next_wire ?w1 ?f\<rparr>"
  have "new_writer c r = Inr ?w" using assms by (simp add: new_writer_def require_identity_def)
  then have "uart_reach c r ?w ?s" by (rule fresh) simp
  moreover have "load_success stream ?w = (Inr (), ?w1)" using assms by (simp add: load_success_def MAX_SNAPSHOT_BYTES_def MAX_S_PAYLOAD_BYTES_def)
  ultimately have r1: "uart_reach c r ?w1 ?s" by (blast intro: uart_reach.step uart_step.load)
  have ok: "frame_ok ?f" unfolding frame_ok_def using assms by simp
  have ce: "chunk_end ?w1 stream = length stream" "pslice 0 (length stream) stream = stream" "0 < length stream" using assms by (auto simp: chunk_end_def)
  have sr: "send_record KIND_SUCCESS stream 0 ?w1 ?s = Some (Inr (), ?w1\<lparr>next_sequence := 1\<rparr>, ?s2)"
    using healthy_send [of ?w1 ?f 0 "[]"] ok assms by (simp add: MAX_FRAMES_def)
  have "write_chunks stream 0 ?w1 ?s = Some (Inr (), ?w2, ?s2)"
    using ce sr by (subst write_chunks.simps) (simp add: write_chunks_done)
  then have "write_success 0 ?w1 ?s = Some (Inr (), ?w2, ?s2)" by (simp add: write_success_def)
  then have "uart_reach c r ?w2 ?s2" by (rule uart_reach.step [OF r1 uart_step.success [OF refl]])
  then show ?thesis by (intro exI [of _ ?w2] exI [of _ ?s2]) (simp add: next_wire_def)
qed

text \<open>The stream of sixteen empty members and a capture of it.\<close>

definition example_c :: bytes where "example_c = replicate 32 (CHR ''c'')"
definition example_r :: bytes where "example_r = replicate 32 (CHR ''r'')"
definition example_members :: "bytes list" where "example_members = map (\<lambda>_. []) PAYLOAD_MEMBER_NAMES"
definition example_stream :: bytes where "example_stream = stream_bytes example_members example_c example_r"

lemma example_lengths: "length example_c = 32" "length example_r = 32" "length example_members = length PAYLOAD_MEMBER_NAMES"
  by (simp_all add: example_c_def example_r_def example_members_def)

lemma nfc_id: "nfc_ascii id"
  by (simp add: nfc_ascii_def)

lemma example_stream_length: "1 \<le> length example_stream" "length example_stream \<le> MAX_S_PAYLOAD_BYTES"
  by (simp_all add: example_stream_def stream_bytes_def stream_prefix_def length_terminal_bytes example_members_def example_lengths PAYLOAD_MEMBER_NAMES_def
      TERMINAL_NAME_def MAX_S_PAYLOAD_BYTES_def)

lemma example_fits: "stream_fits example_members example_c example_r"
  using example_stream_length example_lengths
  by (simp add: stream_fits_def example_stream_def example_members_def list_all_iff MAX_STREAM_BYTES_def MAX_MEMBER_BYTES_def MAX_S_PAYLOAD_BYTES_def)

lemma example_build: "build_export_stream id (zip PAYLOAD_MEMBER_NAMES example_members) example_c example_r = Inr example_stream"
  using build_stream [OF nfc_id example_lengths(3)] example_fits by (simp add: example_stream_def)

lemma example_parse: "parse_export_stream id example_stream (Some example_c) (Some example_r) = Inr (bundle_of example_members example_c example_r)"
  using parse_stream [OF nfc_id] example_fits by (auto simp: example_stream_def)

lemma find_here: "starts_with m s \<Longrightarrow> find_sub m s = Some 0"
  by (simp add: find_sub.simps [of m s])

lemma find_skip: "m \<noteq> [] \<Longrightarrow> hd m \<noteq> x \<Longrightarrow> find_sub m (x # s) = map_option Suc (find_sub m s)"
  by (cases m) (simp_all add: find_sub.simps [of _ "x # s"] starts_with_def)

lemma boot_find: "find_sub MARKER (''boot'' @ uart_wire c r n f @ z) = Some (length ''boot'')"
proof -
  have "MARKER \<noteq> []" "hd MARKER = CHR ''S''" by (simp_all add: MARKER_def MAGIC_def)
  then show ?thesis using find_here [OF wire_marker(1)] by (simp add: find_skip)
qed

lemma example_frame: "frame_ok (KIND_SUCCESS, example_stream)"
  unfolding frame_ok_def using example_stream_length by simp

lemma example_capture_length:
  "length (''boot'' @ uart_wire example_c example_r 0 (KIND_SUCCESS, example_stream) @ replicate 9 (CHR 0x00)) \<le> MAX_RAW_SNAPSHOT_BYTES"
  using wire_length_le [OF example_lengths(1,2) _ example_frame, of 0]
  by (simp add: MAX_FRAMES_def MAX_RECORD_WIRE_BYTES_def MAX_NON_PAYLOAD_OVERHEAD_def MAX_S_PAYLOAD_BYTES_def MAX_RAW_SNAPSHOT_BYTES_def)

theorem writer_observed_witness:
  "\<exists>w s obs. uart_reach example_c example_r w s \<and> success_complete_flag w \<and>
     observe_uart_blob id (''boot'' @ sent s @ replicate 9 (CHR 0x00)) example_c example_r = Inr obs \<and>
     obs_status obs = Complete_result \<and> obs_exported obs = Some (bundle_of example_members example_c example_r)"
proof -
  obtain w s where w: "uart_reach example_c example_r w s" "\<not> poisoned w" "success_complete_flag w" "success w = Some example_stream" "\<not> invalidated w"
      "\<not> terminal w" "sent s = uart_wire example_c example_r 0 (KIND_SUCCESS, example_stream)"
    using one_chunk_reach [OF example_lengths(1,2) example_stream_length] by blast
  let ?data = "''boot'' @ sent s @ replicate 9 (CHR 0x00)"
  have f: "find_sub MARKER ?data = Some (length ''boot'')" unfolding w(7) by (rule boot_find)
  have l: "length ?data \<le> MAX_RAW_SNAPSHOT_BYTES" unfolding w(7) by (rule example_capture_length)
  have "\<exists>obs. observe_uart_blob id ?data example_c example_r = Inr obs \<and>
      obs_status obs = (if invalidated w then Invalidated_result else if terminal w then Standalone_failure else Complete_result) \<and>
      obs_snapshot obs = success w \<and> (obs_failure obs \<noteq> None \<longleftrightarrow> terminal w) \<and>
      (obs_status obs = Complete_result \<longrightarrow> obs_exported obs = Some (bundle_of example_members example_c example_r))"
    by (rule writer_observed [OF w(1,2) _ nfc_id _ refl f _ l]) (use w(3,4) example_lengths(3) example_build in \<open>simp_all add: MAX_PREAMBLE_BYTES_def\<close>)
  then show ?thesis using w(1,3,5,6) by auto
qed

theorem observation_sound_witness:
  "\<exists>obs. observe_uart_blob id (''boot'' @ uart_wire example_c example_r 0 (KIND_SUCCESS, example_stream) @ replicate 9 (CHR 0x00)) example_c example_r = Inr obs \<and>
     obs_status obs = Complete_result \<and> (\<exists>qs voided fail. reports id example_c example_r qs voided fail obs)"
proof -
  let ?data = "''boot'' @ uart_wire example_c example_r 0 (KIND_SUCCESS, example_stream) @ replicate 9 (CHR 0x00)"
  have t: "transcript [example_stream] False None = [(KIND_SUCCESS, example_stream)]" by (simp add: transcript_def)
  have d: "?data = ''boot'' @ wires example_c example_r 0 (transcript [example_stream] False None) @ replicate 9 (CHR 0x00)" by (simp add: t)
  obtain obs where obs: "observe_uart_blob id ?data example_c example_r = Inr obs" "obs_status obs = outcome False None"
    using observe_transcript [OF example_lengths(1,2) d boot_find _ example_capture_length] example_frame example_stream_length example_parse
    by (auto simp: t MAX_PREAMBLE_BYTES_def MAX_SNAPSHOT_BYTES_def MAX_S_PAYLOAD_BYTES_def)
  then have "obs_status obs \<in> settled" by (simp add: outcome_def)
  from observation_sound [OF obs(1) this] obs show ?thesis by (auto simp: outcome_def)
qed

end
