(* ===== verification/Diag_Controller.thy ===== *)
theory Diag_Controller
  imports Diag_Inputs Uart_Observer
begin

text \<open>
  The operations of the diagnostic controller, \<open>conf_proc_spp_diag_controller.py\<close>, and its phases, \<open>run_controller\<close> with
  its helpers (the run around them is in \<open>Diag_Main\<close>), and what they do against a script that is written out call by call. What the
  operations of \<open>ControllerOps\<close> answer is an arbitrary function of everything asked so far; the
  log keeps each call with its answer. A reply of another shape than the call expects stands for an
  exception, and \<open>Raised_fault\<close> for the fault \<open>SPPFLR1_INPUT\<close> of phase 1 that the checks of the
  platform raise. The serial callbacks are the script of \<open>Uart_Writer\<close>. A successful poweroff ends the
  run there (\<open>Stopped\<close>), past every handler. Times are nanoseconds, where the source has seconds as floats.
\<close>

section \<open>Operations\<close>

datatype probe = Probe_path string | Probe_network network

datatype call = Monotonic | Write_control bytes | Read_stream nat | Run_child string "string list" int nat | Direct_operation string probe | Read_file string nat
  | Read_binding string | Write_file string bytes | Request_poweroff | Verify_pid_fds | Configure_uart | Mount_scratch | Preflight_fixture BootInputs bytes json

datatype reply = Raised | Raised_fault | Ok | Time int | Data bytes | Child_result int bytes bytes | Accepted bool | Off

datatype exit = Fault string int | Error | Poweroff_returned | Invalidation_failed | Stopped

type_synonym call_log = "(call \<times> reply) list"

record world =
  w_answer :: "call_log \<Rightarrow> call \<Rightarrow> reply"
  w_clock :: "call_log \<Rightarrow> int"
  w_log :: call_log
  w_serial :: serial
  w_writer :: "writer option"
  w_identity :: "ControllerIdentity option"
  w_usable :: bool

type_synonym 'a ctl = "world \<Rightarrow> ((exit + 'a) \<times> world) option"

definition ret :: "'a \<Rightarrow> 'a ctl" where
  "ret x w = Some (Inr x, w)"

definition exits :: "exit \<Rightarrow> 'a ctl" where
  "exits e w = Some (Inl e, w)"

definition fail :: "fault \<Rightarrow> 'a ctl" where
  "fail f = exits (Fault (fst f) (snd f))"

definition bindC :: "'a ctl \<Rightarrow> ('a \<Rightarrow> 'b ctl) \<Rightarrow> 'b ctl" where
  "bindC m f w = (case m w of None \<Rightarrow> None | Some (Inl e, w') \<Rightarrow> Some (Inl e, w') | Some (Inr x, w') \<Rightarrow> f x w')"

text \<open>\<open>try\<close> with a handler for every exception; a machine that has stopped is past it.\<close>

definition catching :: "'a ctl \<Rightarrow> (exit \<Rightarrow> 'a ctl) \<Rightarrow> 'a ctl" where
  "catching m h w = (case m w of None \<Rightarrow> None | Some (Inl e, w') \<Rightarrow> if e = Stopped then Some (Inl e, w') else h e w' | Some (Inr x, w') \<Rightarrow> Some (Inr x, w'))"

definition ask :: "call \<Rightarrow> reply ctl" where
  "ask c w = (let r = w_answer w (w_log w) c in Some (Inr r, w\<lparr>w_log := w_log w @ [(c, r)]\<rparr>))"

definition read_clock :: "int ctl" where
  "read_clock w = (let t = w_clock w (w_log w) in Some (Inr t, w\<lparr>w_log := w_log w @ [(Monotonic, Time t)]\<rparr>))"

text \<open>An operation without a value, one that reads bytes, and the poweroff.\<close>

definition do_call :: "call \<Rightarrow> unit ctl" where
  "do_call c = bindC (ask c) (\<lambda>r. case r of Ok \<Rightarrow> ret () | Raised_fault \<Rightarrow> fail (FLR_INPUT, 1) | _ \<Rightarrow> exits Error)"

definition get_bytes :: "call \<Rightarrow> bytes ctl" where
  "get_bytes c = bindC (ask c) (\<lambda>r. case r of Data b \<Rightarrow> ret b | Raised_fault \<Rightarrow> fail (FLR_INPUT, 1) | _ \<Rightarrow> exits Error)"

definition request_poweroff :: "unit ctl" where
  "request_poweroff = bindC (ask Request_poweroff) (\<lambda>r. case r of Off \<Rightarrow> exits Stopped | _ \<Rightarrow> ret ())"

definition reading :: "string \<Rightarrow> nat \<Rightarrow> fault \<Rightarrow> bytes ctl" where
  "reading path cap f = catching (get_bytes (Read_file path cap)) (\<lambda>_. fail f)"

definition SECOND :: int where "SECOND = 1000000000"

section \<open>The phases\<close>

definition require_deadline :: "int \<Rightarrow> int \<Rightarrow> string \<Rightarrow> unit ctl" where
  "require_deadline deadline phase reason = bindC read_clock (\<lambda>t. if t > deadline then fail (reason, phase) else ret ())"

definition advance :: "ControllerIdentity \<Rightarrow> nat \<Rightarrow> int \<Rightarrow> int \<Rightarrow> unit ctl" where
  "advance ident phase previous_phase deadline =
     bindC (require_deadline deadline previous_phase FLR_TRACE) (\<lambda>_.
     case encode_command ADVANCE phase ident of
       None \<Rightarrow> fail (FLR_TRACE, previous_phase)
     | Some cmd \<Rightarrow> catching (do_call (Write_control cmd)) (\<lambda>_. fail (FLR_TRACE, previous_phase)))"

text \<open>\<open>_child\<close>; the result is \<open>stdout\<close> and \<open>stderr\<close> of a child that ended with 0.\<close>

definition child :: "string \<Rightarrow> string list \<Rightarrow> int \<Rightarrow> nat \<Rightarrow> int \<Rightarrow> (bytes \<times> bytes) ctl" where
  "child name argv deadline cap phase =
     bindC (require_deadline deadline phase FLR_CHILD) (\<lambda>_.
     bindC (ask (Run_child name argv deadline cap)) (\<lambda>r. case r of
       Child_result returncode out err \<Rightarrow>
         bindC (require_deadline deadline phase FLR_CHILD) (\<lambda>_.
         if returncode \<noteq> 0 \<or> length out > cap \<or> length err > cap then fail (FLR_CHILD, phase) else ret (out, err))
     | _ \<Rightarrow> fail (FLR_CHILD, phase)))"

definition direct :: "string \<Rightarrow> probe \<Rightarrow> int \<Rightarrow> string \<Rightarrow> int \<Rightarrow> unit ctl" where
  "direct action value phase reason deadline =
     bindC (require_deadline deadline phase reason) (\<lambda>_.
     bindC (ask (Direct_operation action value)) (\<lambda>r. if r = Accepted True then ret () else fail (reason, phase)))"

definition PHASE_DEADLINE :: int where "PHASE_DEADLINE = 300 * SECOND"
definition CHILD_CAPTURE_BYTES :: nat where "CHILD_CAPTURE_BYTES = 1048576"

text \<open>The nine probes between inference and the cache.\<close>

definition PROBES :: "(nat \<times> string \<times> probe \<times> string) list" where
  "PROBES = [(4, ''poison-open'', Probe_path (POISONS ! 0), FLR_TRACE), (5, ''poison-open'', Probe_path (POISONS ! 1), FLR_TRACE), (6, ''poison-open'', Probe_path (POISONS ! 2), FLR_TRACE),
     (7, ''network'', Probe_network (NETWORKS ! 0), FLR_POLICY), (8, ''network'', Probe_network (NETWORKS ! 1), FLR_POLICY), (9, ''network'', Probe_network (NETWORKS ! 2), FLR_POLICY),
     (10, ''exec-denial'', Probe_path (EXEC_DENIALS ! 0), FLR_POLICY), (11, ''exec-denial'', Probe_path (EXEC_DENIALS ! 1), FLR_POLICY),
     (12, ''exec-denial'', Probe_path (EXEC_DENIALS ! 2), FLR_POLICY)]"

text \<open>A phase that is entered and probed under one deadline.\<close>

definition probed_phase :: "ControllerIdentity \<Rightarrow> nat \<times> string \<times> probe \<times> string \<Rightarrow> unit ctl" where
  "probed_phase ident = (\<lambda>(phase, action, value, reason).
     bindC read_clock (\<lambda>t. bindC (advance ident phase (int phase - 1) (t + PHASE_DEADLINE)) (\<lambda>_. direct action value (int phase) reason (t + PHASE_DEADLINE))))"

fun each_phase :: "ControllerIdentity \<Rightarrow> (nat \<times> string \<times> probe \<times> string) list \<Rightarrow> unit ctl" where
  "each_phase ident [] = ret ()"
| "each_phase ident (p # ps) = bindC (probed_phase ident p) (\<lambda>_. each_phase ident ps)"

definition cold_phase :: "ControllerIdentity \<Rightarrow> unit ctl" where
  "cold_phase ident = bindC read_clock (\<lambda>t. bindC (advance ident 2 1 (t + PHASE_DEADLINE)) (\<lambda>_.
     bindC read_clock (\<lambda>t'. bindC (child ''cuda-cold'' [CUDA, ''cold''] (t' + 120 * SECOND) CHILD_CAPTURE_BYTES 2) (\<lambda>(out, err).
     if out \<noteq> [] \<or> err \<noteq> [] then fail (FLR_GPU, 2) else ret ()))))"

definition infer_phase :: "ControllerIdentity \<Rightarrow> bytes \<Rightarrow> bytes ctl" where
  "infer_phase ident model = bindC read_clock (\<lambda>t. bindC (advance ident 3 2 (t + PHASE_DEADLINE)) (\<lambda>_.
     case output_oracle model (id_challenge ident) (id_run ident) of
       None \<Rightarrow> exits Error
     | Some expected_output \<Rightarrow>
         bindC read_clock (\<lambda>t'. bindC (child ''cuda-infer'' [CUDA, ''infer'', to_hex (seed (id_challenge ident) (id_run ident))] (t' + 300 * SECOND) CHILD_CAPTURE_BYTES 3)
           (\<lambda>(out, err). if out \<noteq> expected_output \<or> err \<noteq> [] then fail (FLR_GPU, 3) else ret expected_output))))"

text \<open>The seal and the first read of the stream; the phase of a fault is the one of the last write that went through.\<close>

definition seal_phase :: "ControllerIdentity \<Rightarrow> int \<Rightarrow> bytes ctl" where
  "seal_phase ident deadline =
     bindC (require_deadline deadline 14 FLR_TRACE) (\<lambda>_.
     case encode_command SEAL SEAL_PHASE ident of
       None \<Rightarrow> fail (FLR_TRACE, 14)
     | Some cmd \<Rightarrow>
         bindC (catching (do_call (Write_control cmd)) (\<lambda>_. fail (FLR_TRACE, 14))) (\<lambda>_.
         bindC (catching (get_bytes (Read_stream MAX_TRACE_BYTES)) (\<lambda>_. fail (FLR_TRACE, int SEAL_PHASE))) (\<lambda>stream.
         if length stream > MAX_TRACE_BYTES then fail (FLR_TRACE, int SEAL_PHASE) else ret stream)))"

definition run_controller :: "ControllerIdentity \<Rightarrow> bytes \<Rightarrow> (bytes \<times> bytes) ctl" where
  "run_controller ident model =
     (if length (id_challenge ident) \<noteq> 32 \<or> length (id_run ident) \<noteq> 32 \<or> length (id_plan ident) \<noteq> 32 then fail (FLR_INPUT, 0)
      else bindC (cold_phase ident) (\<lambda>_. bindC (infer_phase ident model) (\<lambda>expected_output.
        bindC (each_phase ident PROBES) (\<lambda>_. bindC (probed_phase ident (13, ''jit'', Probe_path JIT, FLR_TRACE)) (\<lambda>_.
        bindC read_clock (\<lambda>t. bindC (advance ident 14 13 (t + PHASE_DEADLINE)) (\<lambda>_.
        bindC (seal_phase ident (t + PHASE_DEADLINE)) (\<lambda>stream. ret (stream, expected_output)))))))))"

section \<open>Triples\<close>

text \<open>From a world that satisfies \<open>P\<close> the computation ends, with \<open>Q\<close> on a result and \<open>E\<close> on an exit.\<close>

definition triple :: "(world \<Rightarrow> bool) \<Rightarrow> 'a ctl \<Rightarrow> ('a \<Rightarrow> world \<Rightarrow> bool) \<Rightarrow> (exit \<Rightarrow> world \<Rightarrow> bool) \<Rightarrow> bool" where
  "triple P m Q E \<longleftrightarrow> (\<forall>w. P w \<longrightarrow> (\<exists>x w'. m w = Some (x, w') \<and> (case x of Inr a \<Rightarrow> Q a w' | Inl e \<Rightarrow> E e w')))"

named_theorems triples

lemma triple_ret [triples]: "(\<And>w. P w \<Longrightarrow> Q x w) \<Longrightarrow> triple P (ret x) Q E"
  by (simp add: triple_def ret_def)

lemma triple_exits [triples]: "(\<And>w. P w \<Longrightarrow> E e w) \<Longrightarrow> triple P (exits e) Q E"
  by (simp add: triple_def exits_def)

lemma triple_fail [triples]: "(\<And>w. P w \<Longrightarrow> E (Fault (fst f) (snd f)) w) \<Longrightarrow> triple P (fail f) Q E"
  by (simp add: fail_def triple_exits)

lemma triple_bind:
  assumes "triple P m R E" "\<And>x. triple (R x) (f x) Q E"
  shows "triple P (bindC m f) Q E"
  unfolding triple_def
proof (intro allI impI)
  fix w
  assume "P w"
  then obtain x w' where m: "m w = Some (x, w')" "case x of Inr a \<Rightarrow> R a w' | Inl e \<Rightarrow> E e w'" using assms(1) by (auto simp: triple_def)
  show "\<exists>x w'. bindC m f w = Some (x, w') \<and> (case x of Inr a \<Rightarrow> Q a w' | Inl e \<Rightarrow> E e w')"
  proof (cases x)
    case (Inr a)
    then show ?thesis using m assms(2) [of a] by (auto simp: bindC_def triple_def)
  qed (use m in \<open>simp add: bindC_def\<close>)
qed

lemma triple_catching:
  assumes "triple P m Q R" "\<And>e. e \<noteq> Stopped \<Longrightarrow> triple (R e) (h e) Q E" "\<And>w. R Stopped w \<Longrightarrow> E Stopped w"
  shows "triple P (catching m h) Q E"
  unfolding triple_def
proof (intro allI impI)
  fix w
  assume "P w"
  then obtain x w' where m: "m w = Some (x, w')" "case x of Inr a \<Rightarrow> Q a w' | Inl e \<Rightarrow> R e w'" using assms(1) by (auto simp: triple_def)
  show "\<exists>x w'. catching m h w = Some (x, w') \<and> (case x of Inr a \<Rightarrow> Q a w' | Inl e \<Rightarrow> E e w')"
  proof (cases x)
    case (Inl e)
    then show ?thesis using m assms(2) [of e] assms(3) by (cases "e = Stopped") (auto simp: catching_def triple_def)
  qed (use m in \<open>simp add: catching_def\<close>)
qed

lemma triple_ask: "(\<And>w r. P w \<Longrightarrow> r = w_answer w (w_log w) c \<Longrightarrow> Q r (w\<lparr>w_log := w_log w @ [(c, r)]\<rparr>)) \<Longrightarrow> triple P (ask c) Q E"
  by (simp add: triple_def ask_def Let_def)

lemma triple_clock: "(\<And>w t. P w \<Longrightarrow> Q t (w\<lparr>w_log := w_log w @ [(Monotonic, Time t)]\<rparr>)) \<Longrightarrow> triple P read_clock Q E"
  by (simp add: triple_def read_clock_def Let_def)

section \<open>The golden script\<close>

text \<open>
  What a run has to do, row by row: the call, the answer the controller goes on with, and the phase and the reasons of a
  fault at that row. A child is compared without its deadline.
\<close>

record row =
  row_call :: call
  row_accept :: "reply \<Rightarrow> bool"
  row_phase :: int
  row_reasons :: "string list"

definition command_row :: "ControllerIdentity \<Rightarrow> nat \<Rightarrow> nat \<Rightarrow> int \<Rightarrow> row" where
  "command_row ident code phase previous =
     \<lparr>row_call = Write_control (''SPPCMD1'' @ [CHR 0x00] @ to_be 2 1 @ to_be 2 code @ to_be 4 128 @ id_challenge ident @ id_run ident @ id_plan ident
        @ to_be 2 phase @ replicate 14 (CHR 0x00)),
      row_accept = (\<lambda>r. r = Ok), row_phase = previous, row_reasons = [''SPPFLR1_TRACE'']\<rparr>"

definition child_row :: "string \<Rightarrow> string list \<Rightarrow> bytes \<Rightarrow> int \<Rightarrow> row" where
  "child_row name argv expected phase =
     \<lparr>row_call = Run_child name argv 0 1048576, row_accept = (\<lambda>r. r = Child_result 0 expected [] \<and> length expected \<le> 1048576),
      row_phase = phase, row_reasons = [''SPPFLR1_CHILD'', ''SPPFLR1_GPU'']\<rparr>"

definition probe_row :: "string \<Rightarrow> probe \<Rightarrow> int \<Rightarrow> string \<Rightarrow> row" where
  "probe_row action value phase reason =
     \<lparr>row_call = Direct_operation action value, row_accept = (\<lambda>r. r = Accepted True), row_phase = phase, row_reasons = [reason]\<rparr>"

definition stream_row :: row where
  "stream_row = \<lparr>row_call = Read_stream MAX_TRACE_BYTES, row_accept = (\<lambda>r. \<exists>b. r = Data b \<and> length b \<le> MAX_TRACE_BYTES),
     row_phase = 15, row_reasons = [''SPPFLR1_TRACE'']\<rparr>"

definition golden :: "ControllerIdentity \<Rightarrow> bytes \<Rightarrow> row list" where
  "golden ident out =
     [command_row ident 1 2 1, child_row ''cuda-cold'' [CUDA, ''cold''] [] 2,
      command_row ident 1 3 2, child_row ''cuda-infer'' [CUDA, ''infer'', to_hex (seed (id_challenge ident) (id_run ident))] out 3,
      command_row ident 1 4 3, probe_row ''poison-open'' (Probe_path ''/var/lib/solstone/poison/import.py'') 4 ''SPPFLR1_TRACE'',
      command_row ident 1 5 4, probe_row ''poison-open'' (Probe_path ''/var/lib/solstone/poison/module.so'') 5 ''SPPFLR1_TRACE'',
      command_row ident 1 6 5, probe_row ''poison-open'' (Probe_path ''/var/lib/solstone/poison/libinject.so'') 6 ''SPPFLR1_TRACE'',
      command_row ident 1 7 6, probe_row ''network'' (Probe_network (NETWORKS ! 0)) 7 ''SPPFLR1_POLICY'',
      command_row ident 1 8 7, probe_row ''network'' (Probe_network (NETWORKS ! 1)) 8 ''SPPFLR1_POLICY'',
      command_row ident 1 9 8, probe_row ''network'' (Probe_network (NETWORKS ! 2)) 9 ''SPPFLR1_POLICY'',
      command_row ident 1 10 9, probe_row ''exec-denial'' (Probe_path ''/var/tmp/solstone-writable-exec'') 10 ''SPPFLR1_POLICY'',
      command_row ident 1 11 10, probe_row ''exec-denial'' (Probe_path ''/mnt/solstone-attached/foreign-exec'') 11 ''SPPFLR1_POLICY'',
      command_row ident 1 12 11, probe_row ''exec-denial'' (Probe_path ''/run/solstone/remote-code/foreign-exec'') 12 ''SPPFLR1_POLICY'',
      command_row ident 1 13 12, probe_row ''jit'' (Probe_path JIT) 13 ''SPPFLR1_TRACE'',
      command_row ident 1 14 13, command_row ident 2 15 14, stream_row]"

fun erase :: "call \<Rightarrow> call" where
  "erase (Run_child name argv d cap) = Run_child name argv 0 cap"
| "erase c = c"

text \<open>
  The calls of a log that are not readings of the clock; rows that were called in order with answers the controller
  goes on with; a row that was called next and refused; a last reading of the clock later than a deadline of 120
  seconds, the shortest of the controller, from an earlier one.
\<close>

definition trail :: "call_log \<Rightarrow> call_log" where
  "trail l = filter (\<lambda>(c, r). c \<noteq> Monotonic) l"

definition followed :: "row list \<Rightarrow> call_log \<Rightarrow> bool" where
  "followed rows cs \<longleftrightarrow> list_all2 (\<lambda>row (c, r). erase c = row_call row \<and> row_accept row r) rows cs"

definition refused :: "row list \<Rightarrow> nat \<Rightarrow> call_log \<Rightarrow> bool" where
  "refused rows i cs \<longleftrightarrow> cs \<noteq> [] \<and> followed (take i rows) (butlast cs) \<and> erase (fst (last cs)) = row_call (rows ! i) \<and> \<not> row_accept (rows ! i) (snd (last cs))"

definition too_late :: "call_log \<Rightarrow> bool" where
  "too_late l \<longleftrightarrow> l \<noteq> [] \<and> (\<exists>t t'. last l = (Monotonic, Time t') \<and> (Monotonic, Time t) \<in> set (butlast l) \<and> t + 120 * SECOND < t')"

section \<open>Runs along the script\<close>

text \<open>
  A world in which the first \<open>i\<close> rows were followed since the log \<open>l0\<close>, with some readings of the clock; one in which the
  row \<open>i\<close> was called as well and answered with \<open>r\<close>; and the worlds of the exits.
\<close>

definition at_row :: "row list \<Rightarrow> call_log \<Rightarrow> nat \<Rightarrow> int set \<Rightarrow> world \<Rightarrow> bool" where
  "at_row G l0 i S w \<longleftrightarrow> (\<exists>l. w_log w = l0 @ l \<and> followed (take i G) (trail l) \<and> (\<forall>t\<in>S. (Monotonic, Time t) \<in> set l))"

definition called_row :: "row list \<Rightarrow> call_log \<Rightarrow> nat \<Rightarrow> int set \<Rightarrow> reply \<Rightarrow> world \<Rightarrow> bool" where
  "called_row G l0 i S r w \<longleftrightarrow> (\<exists>l cs c. w_log w = l0 @ l \<and> trail l = cs @ [(c, r)] \<and> followed (take i G) cs \<and> erase c = row_call (G ! i) \<and>
     (\<forall>t\<in>S. (Monotonic, Time t) \<in> set l))"

definition stopped_at :: "row list \<Rightarrow> nat \<Rightarrow> call_log \<Rightarrow> bool" where
  "stopped_at G i l \<longleftrightarrow> refused G i (trail l) \<or> (followed (take i G) (trail l) \<or> followed (take (i + 1) G) (trail l)) \<and> too_late l"

definition row_exit :: "bytes option \<Rightarrow> row list \<Rightarrow> call_log \<Rightarrow> exit \<Rightarrow> world \<Rightarrow> bool" where
  "row_exit oracle G l0 e w \<longleftrightarrow> (\<exists>l. w_log w = l0 @ l \<and> (case e of
     Fault reason phase \<Rightarrow> \<exists>i < length G. phase = row_phase (G ! i) \<and> reason \<in> set (row_reasons (G ! i)) \<and> stopped_at G i l
   | Error \<Rightarrow> oracle = None \<and> followed (take 3 G) (trail l)
   | _ \<Rightarrow> False))"

lemma trail_snoc [simp]: "trail (l @ [(Monotonic, r)]) = trail l" "c \<noteq> Monotonic \<Longrightarrow> trail (l @ [(c, r)]) = trail l @ [(c, r)]"
  by (simp_all add: trail_def)

lemma followed_snoc: "i < length G \<Longrightarrow> followed (take i G) cs \<Longrightarrow> erase c = row_call (G ! i) \<Longrightarrow> row_accept (G ! i) r \<Longrightarrow> followed (take (i + 1) G) (cs @ [(c, r)])"
  by (simp add: followed_def take_Suc_conv_app_nth list_all2_appendI)

lemma accepted_row: "called_row G l0 i S r w \<Longrightarrow> i < length G \<Longrightarrow> row_accept (G ! i) r \<Longrightarrow> at_row G l0 (i + 1) S w"
  unfolding called_row_def at_row_def using followed_snoc by fastforce

lemma refused_row:
  assumes "called_row G l0 i S r w" "i < length G" "\<not> row_accept (G ! i) r" "p = row_phase (G ! i)" "x \<in> set (row_reasons (G ! i))"
  shows "row_exit oc G l0 (Fault x p) w"
  using assms by (auto simp: called_row_def row_exit_def stopped_at_def refused_def)

lemma clock_at: "triple (at_row G l0 i S) read_clock (\<lambda>t. at_row G l0 i (insert t S)) E"
  by (rule triple_clock) (auto simp: at_row_def)

lemma ask_at: "erase c = row_call (G ! i) \<Longrightarrow> c \<noteq> Monotonic \<Longrightarrow> triple (at_row G l0 i S) (ask c) (called_row G l0 i S) E"
  by (rule triple_ask) (auto simp: at_row_def called_row_def)

lemma late_reading:
  assumes "t \<in> S" "\<forall>t\<in>S. (Monotonic, Time t) \<in> set l" "t + 120 * SECOND \<le> d" "d < t'"
  shows "too_late (l @ [(Monotonic, Time t')])"
  using assms by (auto simp: too_late_def intro!: exI [of _ t])

lemma deadline_at:
  assumes "t \<in> S" "t + 120 * SECOND \<le> d" "i < length G" "p = row_phase (G ! i)" "x \<in> set (row_reasons (G ! i))" "j = i \<or> j = i + 1"
  shows "triple (at_row G l0 j S) (require_deadline d p x) (\<lambda>_. at_row G l0 j S) (row_exit oc G l0)"
  unfolding require_deadline_def
proof (rule triple_bind)
  show "triple (at_row G l0 j S) read_clock (\<lambda>t'. \<lambda>w. at_row G l0 j S w \<and> (d < t' \<longrightarrow> row_exit oc G l0 (Fault x p) w)) (row_exit oc G l0)"
  proof (rule triple_clock)
    fix w t'
    assume "at_row G l0 j S w"
    then obtain l where l: "w_log w = l0 @ l" "followed (take j G) (trail l)" "\<forall>t\<in>S. (Monotonic, Time t) \<in> set l" by (auto simp: at_row_def)
    let ?l = "l @ [(Monotonic, Time t')]"
    have "stopped_at G i ?l" if "d < t'" using l(2) assms(6) late_reading [OF assms(1) l(3) assms(2) that] by (auto simp: stopped_at_def)
    then show "at_row G l0 j S (w\<lparr>w_log := w_log w @ [(Monotonic, Time t')]\<rparr>) \<and>
        (d < t' \<longrightarrow> row_exit oc G l0 (Fault x p) (w\<lparr>w_log := w_log w @ [(Monotonic, Time t')]\<rparr>))"
      using l assms(3-5) by (auto simp: at_row_def row_exit_def)
  qed
qed (auto intro!: triples)

text \<open>A reading after a refused answer changes nothing.\<close>

lemma clock_called: "triple (called_row G l0 i S r) read_clock (\<lambda>_. called_row G l0 i S r) E"
  by (rule triple_clock) (fastforce simp: called_row_def)

lemma deadline_called:
  assumes "i < length G" "\<not> row_accept (G ! i) r" "p = row_phase (G ! i)" "x \<in> set (row_reasons (G ! i))"
  shows "triple (called_row G l0 i S r) (require_deadline d p x) (\<lambda>_. called_row G l0 i S r) (row_exit oc G l0)"
  unfolding require_deadline_def by (rule triple_bind [OF clock_called]) (auto intro!: triples intro: refused_row [OF _ assms])

lemma triple_pre: "triple P m Q E \<Longrightarrow> (\<And>w. P' w \<Longrightarrow> P w) \<Longrightarrow> triple P' m Q E"
  by (auto simp: triple_def)

lemma triple_post: "triple P m Q E \<Longrightarrow> (\<And>x w. Q x w \<Longrightarrow> Q' x w) \<Longrightarrow> triple P m Q' E"
  unfolding triple_def by (metis (mono_tags, lifting) old.sum.exhaust old.sum.simps(5) old.sum.simps(6))

lemmas reasons = FLR_TRACE_def FLR_CHILD_def FLR_GPU_def FLR_POLICY_def

lemma command_at:
  assumes "i < length G" "G ! i = command_row ident code n p" "Write_control cmd = row_call (G ! i)"
  shows "triple (at_row G l0 i S) (catching (do_call (Write_control cmd)) (\<lambda>_. fail (FLR_TRACE, p))) (\<lambda>_. at_row G l0 (i + 1) S) (row_exit oc G l0)"
proof (rule triple_catching)
  let ?R = "\<lambda>e w. e \<noteq> Stopped \<and> row_exit oc G l0 (Fault FLR_TRACE p) w"
  show "triple (at_row G l0 i S) (do_call (Write_control cmd)) (\<lambda>_. at_row G l0 (i + 1) S) ?R"
    unfolding do_call_def
  proof (rule triple_bind [OF ask_at])
    fix r
    show "triple (called_row G l0 i S r) (case r of Ok \<Rightarrow> ret () | Raised_fault \<Rightarrow> fail (FLR_INPUT, 1) | _ \<Rightarrow> exits Error) (\<lambda>_. at_row G l0 (i + 1) S) ?R"
      using assms(1,2) by (auto intro!: triples intro: accepted_row [simplified] refused_row simp: command_row_def reasons split: reply.splits)
  qed (simp_all add: assms(3) [symmetric])
qed (auto intro!: triples)

definition identity_ok :: "ControllerIdentity \<Rightarrow> bool" where
  "identity_ok ident \<longleftrightarrow> length (id_challenge ident) = 32 \<and> length (id_run ident) = 32 \<and> length (id_plan ident) = 32"

lemma command_encoded:
  assumes "identity_ok ident" "n \<le> 15"
  shows "\<exists>cmd. encode_command k n ident = Some cmd \<and> Write_control cmd = row_call (command_row ident (command_code k) n p)"
  using assms by (simp add: encode_command_def identity_ok_def command_row_def CMD_MAGIC_def CMD_SIZE_def)

lemma advance_at:
  assumes "identity_ok ident" "n \<le> 15" "i < length G" "G ! i = command_row ident 1 n p" "t \<in> S" "t + 120 * SECOND \<le> d"
  shows "triple (at_row G l0 i S) (advance ident n p d) (\<lambda>_. at_row G l0 (i + 1) S) (row_exit oc G l0)"
proof -
  obtain cmd where cmd: "encode_command ADVANCE n ident = Some cmd" "Write_control cmd = row_call (G ! i)"
    using command_encoded [OF assms(1,2), of ADVANCE p] assms(4) by auto
  show ?thesis unfolding advance_def cmd(1) option.case
    by (rule triple_bind [OF deadline_at [OF assms(5,6,3)] command_at [OF assms(3,4) cmd(2)]]) (simp_all add: assms(4) command_row_def reasons)
qed

lemma direct_at:
  assumes "i < length G" "G ! i = probe_row a v p x" "t \<in> S" "t + 120 * SECOND \<le> d"
  shows "triple (at_row G l0 i S) (direct a v p x d) (\<lambda>_. at_row G l0 (i + 1) S) (row_exit oc G l0)"
  unfolding direct_def
proof (rule triple_bind [OF deadline_at [OF assms(3,4,1)]], simp_all add: assms(2) probe_row_def, rule triple_bind [OF ask_at])
  fix r
  show "triple (called_row G l0 i S r) (if r = Accepted True then ret () else fail (x, p)) (\<lambda>_. at_row G l0 (Suc i) S) (row_exit oc G l0)"
    using assms(1,2) by (auto intro!: triples intro: accepted_row [simplified] refused_row simp: probe_row_def)
qed (simp_all add: assms(2) probe_row_def)

text \<open>A child that the controller goes on with wrote the expected bytes and nothing else.\<close>

lemma child_at:
  assumes "i < length G" "G ! i = child_row name argv expected p" "t \<in> S" "t + 120 * SECOND \<le> d"
  shows "triple (at_row G l0 i S) (bindC (child name argv d CHILD_CAPTURE_BYTES p) (\<lambda>(out, err). if out \<noteq> expected \<or> err \<noteq> [] then fail (FLR_GPU, p) else ret y))
    (\<lambda>z w. z = y \<and> at_row G l0 (i + 1) S w) (row_exit oc G l0)"
proof -
  have row: "p = row_phase (G ! i)" "FLR_CHILD \<in> set (row_reasons (G ! i))" "FLR_GPU \<in> set (row_reasons (G ! i))" "CHILD_CAPTURE_BYTES = 1048576"
    by (simp_all add: assms(2) child_row_def reasons CHILD_CAPTURE_BYTES_def)
  let ?R = "\<lambda>(out, err) w. if out = expected \<and> err = [] then at_row G l0 (i + 1) S w else row_exit oc G l0 (Fault FLR_GPU p) w"
  have ok: "row_accept (G ! i) r \<longleftrightarrow> r = Child_result 0 expected [] \<and> length expected \<le> CHILD_CAPTURE_BYTES" for r
    by (simp add: assms(2) child_row_def row(4))
  have "triple (at_row G l0 i S) (child name argv d CHILD_CAPTURE_BYTES p) ?R (row_exit oc G l0)"
    unfolding child_def
  proof (rule triple_bind [OF deadline_at [OF assms(3,4,1) row(1,2)]], simp, rule triple_bind [OF ask_at])
    fix r
    let ?m = "case r of Child_result rc out err \<Rightarrow> bindC (require_deadline d p FLR_CHILD) (\<lambda>_.
        if rc \<noteq> 0 \<or> CHILD_CAPTURE_BYTES < length out \<or> CHILD_CAPTURE_BYTES < length err then fail (FLR_CHILD, p) else ret (out, err)) | _ \<Rightarrow> fail (FLR_CHILD, p)"
    show "triple (called_row G l0 i S r) ?m ?R (row_exit oc G l0)"
    proof (cases "row_accept (G ! i) r")
      case True
      then have "triple (at_row G l0 (i + 1) S) ?m ?R (row_exit oc G l0)"
        by (auto simp: ok intro!: triples triple_bind [OF deadline_at [OF assms(3,4,1) row(1,2)]])
      then show ?thesis by (rule triple_pre) (rule accepted_row [OF _ assms(1) True])
    next
      case False
      note X = refused_row [OF _ assms(1) False row(1)]
      show ?thesis
      proof (cases r)
        case (Child_result rc out err)
        then show ?thesis using False X row(2,3) ok
          by (simp only: reply.case) (rule triple_bind [OF deadline_called], auto intro!: triples assms(1) row(1))
      qed (use X row(2) in \<open>auto intro!: triples\<close>)
    qed
  qed (simp_all add: assms(2) child_row_def row(4))
  then show ?thesis by (rule triple_bind) (auto intro!: triples)
qed

lemma at_row_fewer: "at_row G l0 i (insert t S) w \<Longrightarrow> at_row G l0 i S w"
  by (auto simp: at_row_def)

lemma phase_deadline [simp]: "120 * SECOND \<le> PHASE_DEADLINE" "0 \<le> SECOND"
  by (simp_all add: PHASE_DEADLINE_def SECOND_def)

lemma probed_at:
  assumes "identity_ok ident" "n \<le> 15" "i + 1 < length G" "G ! i = command_row ident 1 n (int n - 1)" "G ! (i + 1) = probe_row a v (int n) x"
  shows "triple (at_row G l0 i {}) (probed_phase ident (n, a, v, x)) (\<lambda>_. at_row G l0 (i + 2) {}) (row_exit oc G l0)"
  unfolding probed_phase_def prod.case
proof (rule triple_bind [OF clock_at])
  fix t
  show "triple (at_row G l0 i (insert t {})) (bindC (advance ident n (int n - 1) (t + PHASE_DEADLINE)) (\<lambda>_. direct a v (int n) x (t + PHASE_DEADLINE)))
      (\<lambda>_. at_row G l0 (i + 2) {}) (row_exit oc G l0)"
    by (rule triple_bind [OF advance_at [OF assms(1,2) _ assms(4)] triple_post [OF direct_at [OF assms(3,5)]]])
      (use assms(3) in \<open>auto intro: at_row_fewer\<close>)
qed

text \<open>Phases that are rows of the script from row \<open>i\<close> on.\<close>

fun laid_out :: "ControllerIdentity \<Rightarrow> row list \<Rightarrow> nat \<Rightarrow> (nat \<times> string \<times> probe \<times> string) list \<Rightarrow> bool" where
  "laid_out ident G i [] = True"
| "laid_out ident G i ((n, a, v, x) # ps) = (n \<le> 15 \<and> i + 1 < length G \<and> G ! i = command_row ident 1 n (int n - 1) \<and> G ! (i + 1) = probe_row a v (int n) x \<and>
     laid_out ident G (i + 2) ps)"

lemma each_phase_at:
  assumes "identity_ok ident"
  shows "laid_out ident G i ps \<Longrightarrow> triple (at_row G l0 i {}) (each_phase ident ps) (\<lambda>_. at_row G l0 (i + 2 * length ps) {}) (row_exit oc G l0)"
proof (induction ps arbitrary: i)
  case (Cons p ps)
  obtain n a v x where p: "p = (n, a, v, x)" by (metis prod_cases4)
  have h: "n \<le> 15" "i + 1 < length G" "G ! i = command_row ident 1 n (int n - 1)" "G ! (i + 1) = probe_row a v (int n) x" "laid_out ident G (i + 2) ps"
    using Cons.prems by (simp_all add: p)
  have "triple (at_row G l0 (i + 2) {}) (each_phase ident ps) (\<lambda>_. at_row G l0 (i + 2 + 2 * length ps) {}) (row_exit oc G l0)" by (rule Cons.IH [OF h(5)])
  then show ?case unfolding p each_phase.simps by (intro triple_bind [OF probed_at [OF assms h(1-4)]]) simp
qed (auto intro!: triples)

lemma cold_at:
  assumes "identity_ok ident" "G = golden ident out"
  shows "triple (at_row G l0 0 {}) (cold_phase ident) (\<lambda>_. at_row G l0 2 {}) (row_exit oc G l0)"
  unfolding cold_phase_def
proof (rule triple_bind [OF clock_at])
  fix t
  have a: "triple (at_row G l0 0 {t}) (advance ident 2 1 (t + PHASE_DEADLINE)) (\<lambda>_. at_row G l0 (0 + 1) {t}) (row_exit oc G l0)"
    by (rule advance_at [OF assms(1), of _ _ _ _ t]) (simp_all add: assms(2) golden_def)
  have c: "triple (at_row G l0 (0 + 1) {t', t}) (bindC (child ''cuda-cold'' [CUDA, ''cold''] (t' + 120 * SECOND) CHILD_CAPTURE_BYTES 2) (\<lambda>(out, err).
     if out \<noteq> [] \<or> err \<noteq> [] then fail (FLR_GPU, 2) else ret ())) (\<lambda>z w. z = () \<and> at_row G l0 (0 + 1 + 1) {t', t} w) (row_exit oc G l0)" for t'
    by (rule child_at [of _ _ _ _ _ _ t']) (simp_all add: assms(2) golden_def)
  show "triple (at_row G l0 0 {t}) (bindC (advance ident 2 1 (t + PHASE_DEADLINE)) (\<lambda>_.
     bindC read_clock (\<lambda>t'. bindC (child ''cuda-cold'' [CUDA, ''cold''] (t' + 120 * SECOND) CHILD_CAPTURE_BYTES 2) (\<lambda>(out, err).
     if out \<noteq> [] \<or> err \<noteq> [] then fail (FLR_GPU, 2) else ret ())))) (\<lambda>_. at_row G l0 2 {}) (row_exit oc G l0)"
    by (intro triple_bind [OF a] triple_bind [OF clock_at] triple_post [OF c]) (auto simp: numeral_2_eq_2 intro: at_row_fewer)
qed

lemma infer_at:
  assumes "identity_ok ident" "oc = output_oracle model (id_challenge ident) (id_run ident)" "G = golden ident (the oc)"
  shows "triple (at_row G l0 2 {}) (infer_phase ident model) (\<lambda>out w. oc = Some out \<and> at_row G l0 4 {} w) (row_exit oc G l0)"
  unfolding infer_phase_def
proof (rule triple_bind [OF clock_at])
  fix t
  let ?child = "\<lambda>t' expected. bindC (child ''cuda-infer'' [CUDA, ''infer'', to_hex (seed (id_challenge ident) (id_run ident))] (t' + 300 * SECOND) CHILD_CAPTURE_BYTES 3)
           (\<lambda>(out, err). if out \<noteq> expected \<or> err \<noteq> [] then fail (FLR_GPU, 3) else ret expected)"
  have a: "triple (at_row G l0 2 {t}) (advance ident 3 2 (t + PHASE_DEADLINE)) (\<lambda>_. at_row G l0 (2 + 1) {t}) (row_exit oc G l0)"
    by (rule advance_at [OF assms(1), of _ _ _ _ t]) (simp_all add: assms(3) golden_def)
  have c: "triple (at_row G l0 (2 + 1) {t', t}) (?child t' out) (\<lambda>z w. z = out \<and> at_row G l0 (2 + 1 + 1) {t', t} w) (row_exit oc G l0)" if "oc = Some out" for t' out
    by (rule child_at [of _ _ _ _ _ _ t']) (simp_all add: assms(3) golden_def that)
  have e: "row_exit None G l0 Error w" if "at_row G l0 (2 + 1) {t} w" for w
    using that by (auto simp: row_exit_def at_row_def numeral_3_eq_3)
  show "triple (at_row G l0 2 {t}) (bindC (advance ident 3 2 (t + PHASE_DEADLINE)) (\<lambda>_. case output_oracle model (id_challenge ident) (id_run ident) of
      None \<Rightarrow> exits Error | Some expected \<Rightarrow> bindC read_clock (\<lambda>t'. ?child t' expected))) (\<lambda>out w. oc = Some out \<and> at_row G l0 4 {} w) (row_exit oc G l0)"
  proof (rule triple_bind [OF a])
    show "triple (at_row G l0 (2 + 1) {t}) (case output_oracle model (id_challenge ident) (id_run ident) of
      None \<Rightarrow> exits Error | Some expected \<Rightarrow> bindC read_clock (\<lambda>t'. ?child t' expected)) (\<lambda>out w. oc = Some out \<and> at_row G l0 4 {} w) (row_exit oc G l0)"
    proof (cases oc)
      case None
      then show ?thesis using e by (auto simp: assms(2) [symmetric] intro!: triples)
    next
      case (Some out)
      show ?thesis unfolding assms(2) [symmetric] Some option.case
        by (rule triple_bind [OF clock_at], rule triple_post [OF c [OF Some, unfolded Some]]) (auto dest!: at_row_fewer)
    qed
  qed
qed

text \<open>The end of a run: the whole script was followed, the last answer being the stream.\<close>

definition read_out :: "row list \<Rightarrow> call_log \<Rightarrow> bytes \<Rightarrow> world \<Rightarrow> bool" where
  "read_out G l0 stream w \<longleftrightarrow> (\<exists>l. w_log w = l0 @ l \<and> followed G (trail l) \<and> trail l \<noteq> [] \<and> last (trail l) = (Read_stream MAX_TRACE_BYTES, Data stream))"

lemma erase_stream: "erase c = Read_stream n \<longleftrightarrow> c = Read_stream n"
  by (cases c) simp_all

lemma stream_read:
  assumes "called_row G l0 26 S (Data b) w" "G ! 26 = stream_row" "length G = 27" "length b \<le> MAX_TRACE_BYTES"
  shows "read_out G l0 b w"
proof -
  obtain l cs c where l: "w_log w = l0 @ l" "trail l = cs @ [(c, Data b)]" "followed (take 26 G) cs" "erase c = row_call (G ! 26)"
    using assms(1) by (auto simp: called_row_def)
  have "followed (take (26 + 1) G) (cs @ [(c, Data b)])"
    by (rule followed_snoc) (use l assms in \<open>simp_all add: stream_row_def\<close>)
  then show ?thesis using l assms(2,3) by (auto simp: read_out_def stream_row_def erase_stream)
qed

lemma seal_at:
  assumes "identity_ok ident" "G = golden ident out" "t \<in> S" "t + 120 * SECOND \<le> d"
  shows "triple (at_row G l0 25 S) (seal_phase ident d) (read_out G l0) (row_exit oc G l0)"
proof -
  obtain cmd where cmd: "encode_command SEAL SEAL_PHASE ident = Some cmd" "Write_control cmd = row_call (command_row ident 2 15 14)"
    using command_encoded [OF assms(1), of SEAL_PHASE SEAL 14] by (auto simp: SEAL_PHASE_def)
  have G: "G ! 25 = command_row ident 2 15 14" "G ! 26 = stream_row" "length G = 27" by (simp_all add: assms(2) golden_def)
  have refuse: "row_exit oc G l0 (Fault FLR_TRACE 15) w" if "called_row G l0 26 S r w" "\<not> row_accept stream_row r" for r w
    using refused_row [OF that(1)] that(2) G by (simp add: reasons) (simp add: stream_row_def)
  have rd: "triple (at_row G l0 26 S) (catching (get_bytes (Read_stream MAX_TRACE_BYTES)) (\<lambda>_. fail (FLR_TRACE, int SEAL_PHASE)))
      (\<lambda>b. called_row G l0 26 S (Data b)) (row_exit oc G l0)"
  proof (rule triple_catching)
    show "triple (at_row G l0 26 S) (get_bytes (Read_stream MAX_TRACE_BYTES)) (\<lambda>b. called_row G l0 26 S (Data b))
        (\<lambda>e w. e \<noteq> Stopped \<and> row_exit oc G l0 (Fault FLR_TRACE 15) w)"
      unfolding get_bytes_def
      by (rule triple_bind [OF ask_at]) (auto intro!: triples intro: refuse simp: G stream_row_def split: reply.splits)
  qed (auto intro!: triples simp: SEAL_PHASE_def)
  have dl: "triple (at_row G l0 25 S) (require_deadline d 14 FLR_TRACE) (\<lambda>_. at_row G l0 25 S) (row_exit oc G l0)"
    by (rule deadline_at [OF assms(3,4), of 25]) (simp_all add: G command_row_def reasons)
  have sl: "triple (at_row G l0 25 S) (catching (do_call (Write_control cmd)) (\<lambda>_. fail (FLR_TRACE, 14))) (\<lambda>_. at_row G l0 (25 + 1) S) (row_exit oc G l0)"
    by (rule command_at) (use G cmd(2) in simp_all)
  show ?thesis unfolding seal_phase_def cmd(1) option.case
    by (intro triple_bind [OF dl] triple_bind [OF sl [simplified]] triple_bind [OF rd])
      (auto intro!: triples intro: stream_read G simp: SEAL_PHASE_def elim!: refuse, simp add: stream_row_def)
qed

lemma golden_laid_out: "laid_out ident (golden ident out) 4 PROBES" "laid_out ident (golden ident out) 22 [(13, ''jit'', Probe_path JIT, FLR_TRACE)]" "length PROBES = 9"
  by (simp_all add: golden_def PROBES_def POISONS_def EXEC_DENIALS_def reasons)

lemma run_controller_at:
  assumes "identity_ok ident" "oc = output_oracle model (id_challenge ident) (id_run ident)" "G = golden ident (the oc)"
  shows "triple (at_row G l0 0 {}) (run_controller ident model) (\<lambda>a w. oc = Some (snd a) \<and> read_out G l0 (fst a) w) (row_exit oc G l0)"
proof -
  let ?E = "row_exit oc G l0" and ?O = "\<lambda>out P w. oc = Some out \<and> P w"
  have keep: "triple (?O out P) m (\<lambda>x. ?O out (Q x)) ?E" if "triple P m Q ?E" for out P Q and m :: "'x ctl"
    using that unfolding triple_def by (fastforce split: sum.splits)
  have probes: "triple (at_row G l0 4 {}) (each_phase ident PROBES) (\<lambda>_. at_row G l0 22 {}) ?E"
    using each_phase_at [OF assms(1), of G 4 PROBES] golden_laid_out(1,3) by (simp add: assms(3))
  have jit: "triple (at_row G l0 22 {}) (probed_phase ident (13, ''jit'', Probe_path JIT, FLR_TRACE)) (\<lambda>_. at_row G l0 24 {}) ?E"
    using probed_at [OF assms(1), of 13 22 G] golden_laid_out(2) by (simp add: assms(3))
  have adv: "triple (at_row G l0 24 {t}) (advance ident 14 13 (t + PHASE_DEADLINE)) (\<lambda>_. at_row G l0 (24 + 1) {t}) ?E" for t
    by (rule advance_at [OF assms(1), of _ _ _ _ t]) (simp_all add: assms(3) golden_def)
  have seal: "triple (at_row G l0 25 {t}) (seal_phase ident (t + PHASE_DEADLINE)) (read_out G l0) ?E" for t
    by (rule seal_at [OF assms(1,3), of t]) simp_all
  have "run_controller ident model = bindC (cold_phase ident) (\<lambda>_. bindC (infer_phase ident model) (\<lambda>out. bindC (each_phase ident PROBES) (\<lambda>_.
      bindC (probed_phase ident (13, ''jit'', Probe_path JIT, FLR_TRACE)) (\<lambda>_. bindC read_clock (\<lambda>t. bindC (advance ident 14 13 (t + PHASE_DEADLINE)) (\<lambda>_.
        bindC (seal_phase ident (t + PHASE_DEADLINE)) (\<lambda>stream. ret (stream, out))))))))"
    using assms(1) by (simp add: run_controller_def identity_ok_def)
  then show ?thesis
    by (simp only:) (intro triple_bind [OF cold_at [OF assms(1,3)]] triple_bind [OF infer_at [OF assms]] triple_bind [OF keep [OF probes]] triple_bind [OF keep [OF jit]]
        triple_bind [OF keep [OF clock_at]] triple_bind [OF keep [OF adv [simplified]]] triple_bind [OF keep [OF seal]] triple_ret, simp)
qed

text \<open>
  C16. Whatever the environment answers, the controller always ends. It ends with a result only after the whole script: the
  commands of phases 2 to 14 in order, in each phase its child or probe, the seal and the read of the stream, every call once, each only after the one before
  was answered as the script wants (the children with status 0, nothing from the cold start and the output of the oracle from the inference; every
  probe accepted), and the result is the stream read and that output. A fault names the phase and a reason of the first row that was not completed: the rows before were all
  followed, and either the call of that row was refused or the last reading of the clock is more than 120 seconds after an
  earlier one. The only other end is the error of an oracle without output, after the command of phase 3.
\<close>

theorem controller_phase_order:
  assumes "length (id_challenge ident) = 32" "length (id_run ident) = 32" "length (id_plan ident) = 32"
    and "oracle = output_oracle model (id_challenge ident) (id_run ident)" and "script = golden ident (the oracle)"
  shows "\<exists>x w' calls. run_controller ident model w = Some (x, w') \<and> w_log w' = w_log w @ calls \<and> (case x of
      Inr (stream, out) \<Rightarrow> oracle = Some out \<and> followed script (trail calls) \<and> last (trail calls) = (Read_stream MAX_TRACE_BYTES, Data stream)
    | Inl (Fault reason phase) \<Rightarrow> \<exists>i < length script. phase = row_phase (script ! i) \<and> reason \<in> set (row_reasons (script ! i)) \<and>
        (refused script i (trail calls) \<or> (followed (take i script) (trail calls) \<or> followed (take (i + 1) script) (trail calls)) \<and> too_late calls)
    | Inl e \<Rightarrow> e = Error \<and> oracle = None \<and> followed (take 3 script) (trail calls))"
proof -
  have "at_row script (w_log w) 0 {} w" by (simp add: at_row_def followed_def trail_def)
  then obtain x w' where x: "run_controller ident model w = Some (x, w')"
      "case x of Inr a \<Rightarrow> oracle = Some (snd a) \<and> read_out script (w_log w) (fst a) w' | Inl e \<Rightarrow> row_exit oracle script (w_log w) e w'"
    using run_controller_at [OF _ assms(4,5), of "w_log w"] assms(1-3) unfolding triple_def identity_ok_def by blast
  show ?thesis
  proof (cases x)
    case (Inl e)
    then show ?thesis using x by (cases e) (auto simp: row_exit_def stopped_at_def)
  qed (use x in \<open>auto simp: read_out_def\<close>)
qed

definition example_identity :: ControllerIdentity where
  "example_identity = \<lparr>id_challenge = example_c, id_run = example_r, id_plan = example_c, id_binding = []\<rparr>"

definition example_output :: bytes where
  "example_output = the (output_oracle ''m'' example_c example_r)"

text \<open>An environment that answers as the script wants.\<close>

definition example_world :: "call_log \<Rightarrow> world" where
  "example_world l = \<lparr>w_answer = (\<lambda>l c. case c of Write_control b \<Rightarrow> Ok | Run_child name argv d cap \<Rightarrow> Child_result 0 (if name = ''cuda-cold'' then [] else example_output) []
       | Direct_operation a v \<Rightarrow> Accepted True | Read_stream n \<Rightarrow> Data ''trace'' | _ \<Rightarrow> Raised), w_clock = (\<lambda>_. 0), w_log = l,
     w_serial = \<lparr>clocks = [], waits = [], writes = [], queues = [], sent = []\<rparr>, w_writer = None, w_identity = None, w_usable = False\<rparr>"

lemma example_identity_simps:
  "length (id_challenge example_identity) = 32" "length (id_run example_identity) = 32" "length (id_plan example_identity) = 32"
  "output_oracle ''m'' (id_challenge example_identity) (id_run example_identity) = Some example_output" "length example_output = 48"
  by (simp_all add: example_identity_def example_lengths example_output_def output_oracle_def MAX_TRACE_BYTES_def seed_def)

text \<open>Its steps.\<close>

lemma example_steps:
  "read_clock (example_world l) = Some (Inr 0, example_world (l @ [(Monotonic, Time 0)]))"
  "ask (Write_control b) (example_world l) = Some (Inr Ok, example_world (l @ [(Write_control b, Ok)]))"
  "ask (Direct_operation a v) (example_world l) = Some (Inr (Accepted True), example_world (l @ [(Direct_operation a v, Accepted True)]))"
  "ask (Read_stream n) (example_world l) = Some (Inr (Data ''trace''), example_world (l @ [(Read_stream n, Data ''trace'')]))"
  "\<exists>l'. ask (Run_child name argv d cap) (example_world l) = Some (Inr (Child_result 0 (if name = ''cuda-cold'' then [] else example_output) []), example_world l')"
  by (simp_all add: read_clock_def ask_def example_world_def Let_def)

lemma example_command: "n \<le> 15 \<Longrightarrow> \<exists>cmd. encode_command k n example_identity = Some cmd"
  by (simp add: encode_command_def example_identity_simps)

definition runs :: "'a ctl \<Rightarrow> 'a \<Rightarrow> bool" where
  "runs m x \<longleftrightarrow> (\<forall>l. \<exists>l'. m (example_world l) = Some (Inr x, example_world l'))"

lemma bind_runs: "runs m x \<Longrightarrow> runs (f x) y \<Longrightarrow> runs (bindC m f) y"
  unfolding runs_def bindC_def by (metis (no_types, lifting) case_prod_conv option.case(2) sum.case(2))

lemma ret_runs: "x = y \<Longrightarrow> runs (ret x) y"
  by (auto simp: runs_def ret_def)

lemma example_deadline: "0 \<le> d \<Longrightarrow> runs (require_deadline d p x) ()"
  by (auto simp: runs_def require_deadline_def bindC_def example_steps ret_def)

lemma example_clock: "runs read_clock 0"
  by (auto simp: runs_def example_steps)

lemma example_deadlines [simp]: "0 \<le> PHASE_DEADLINE"
  by (simp add: PHASE_DEADLINE_def)

lemma example_write: "runs (catching (do_call (Write_control b)) h) ()"
  by (auto simp: runs_def catching_def do_call_def bindC_def example_steps ret_def)

lemma example_advance: "n \<le> 15 \<Longrightarrow> 0 \<le> d \<Longrightarrow> runs (advance example_identity n p d) ()"
  unfolding advance_def using example_command [of n ADVANCE] by (auto intro!: bind_runs [OF example_deadline] example_write)

lemma example_ask: "runs (ask (Run_child name argv d cap)) (Child_result 0 (if name = ''cuda-cold'' then [] else example_output) [])"
  using example_steps(5) by (simp add: runs_def)

lemma example_child:
  "0 \<le> d \<Longrightarrow> y = (if name = ''cuda-cold'' then [] else example_output) \<Longrightarrow> 48 \<le> cap \<Longrightarrow> runs (child name argv d cap p) (y, [])"
  unfolding child_def
  by (rule bind_runs [OF example_deadline], assumption, rule bind_runs [OF example_ask])
    (auto intro!: bind_runs [OF example_deadline] ret_runs simp: example_identity_simps)

lemma example_direct: "0 \<le> d \<Longrightarrow> runs (direct a v p x d) ()"
  unfolding direct_def by (rule bind_runs [OF example_deadline]) (auto simp: runs_def bindC_def example_steps ret_def)

lemma example_probed: "n \<le> 15 \<Longrightarrow> runs (probed_phase example_identity (n, a, v, x)) ()"
  unfolding probed_phase_def prod.case
  by (rule bind_runs [OF example_clock], rule bind_runs [OF example_advance]) (auto intro!: example_direct)

lemma example_each: "\<forall>p\<in>set ps. fst p \<le> 15 \<Longrightarrow> runs (each_phase example_identity ps) ()"
proof (induction ps)
  case (Cons p ps)
  then show ?case by (cases p) (auto intro!: bind_runs [OF example_probed])
qed (simp add: ret_runs)

lemma example_cold: "runs (cold_phase example_identity) ()"
  unfolding cold_phase_def
  by (rule bind_runs [OF example_clock], rule bind_runs [OF example_advance])
    (auto intro!: bind_runs [OF example_clock] bind_runs [OF example_child] ret_runs simp: CHILD_CAPTURE_BYTES_def)

lemma example_infer: "runs (infer_phase example_identity ''m'') example_output"
  unfolding infer_phase_def example_identity_simps option.case
  by (rule bind_runs [OF example_clock], rule bind_runs [OF example_advance])
    (auto intro!: bind_runs [OF example_clock] bind_runs [OF example_child] ret_runs simp: CHILD_CAPTURE_BYTES_def)

lemma example_read: "runs (catching (get_bytes (Read_stream n)) h) ''trace''"
  by (auto simp: runs_def catching_def get_bytes_def bindC_def example_steps ret_def)

lemma example_seal: "0 \<le> d \<Longrightarrow> runs (seal_phase example_identity d) ''trace''"
  unfolding seal_phase_def using example_command [of SEAL_PHASE SEAL]
  by (auto intro!: bind_runs [OF example_deadline] bind_runs [OF example_write] bind_runs [OF example_read] ret_runs simp: SEAL_PHASE_def MAX_TRACE_BYTES_def)

lemma example_run: "runs (run_controller example_identity ''m'') (''trace'', example_output)"
  unfolding run_controller_def example_identity_simps
  by (simp only: simp_thms if_False)
    (rule bind_runs [OF example_cold], rule bind_runs [OF example_infer], rule bind_runs [OF example_each], simp add: PROBES_def, rule bind_runs [OF example_probed], simp,
     rule bind_runs [OF example_clock], rule bind_runs [OF example_advance], auto intro!: bind_runs [OF example_seal] ret_runs)

theorem controller_phase_order_witness:
  "\<exists>l. run_controller example_identity ''m'' (example_world []) = Some (Inr (''trace'', example_output), example_world l) \<and>
    followed (golden example_identity example_output) (trail l)"
proof -
  have l: "w_log (example_world l) = l" for l by (simp add: example_world_def)
  obtain l' where l': "run_controller example_identity ''m'' (example_world []) = Some (Inr (''trace'', example_output), example_world l')" using example_run by (auto simp: runs_def)
  show ?thesis using controller_phase_order [OF example_identity_simps(1-3) refl refl, of "''m''" "example_world []"] l' by (auto simp: l example_identity_simps)
qed

end
