(* ===== verification/Diag_Main.thy ===== *)
theory Diag_Main
  imports Diag_Controller
begin

text \<open>
  The run of the diagnostic controller around its phases: \<open>_preflight\<close>, \<open>_collect_and_export\<close>,
  \<open>framed_export_and_poweroff\<close>, \<open>_fail_stop\<close> and \<open>main\<close>, with the computations that leave the
  serial line alone and the errors of the writer that poison it.
\<close>

section \<open>Preflight\<close>

definition lift_fault :: "fault + 'a \<Rightarrow> 'a ctl" where
  "lift_fault r = (case r of Inl f \<Rightarrow> fail f | Inr x \<Rightarrow> ret x)"

definition lift_error :: "'e + 'a \<Rightarrow> 'a ctl" where
  "lift_error r = (case r of Inl _ \<Rightarrow> exits Error | Inr x \<Rightarrow> ret x)"

text \<open>A child that is started with a deadline from now and whose output is not used.\<close>

definition run_for :: "int \<Rightarrow> string \<Rightarrow> string list \<Rightarrow> int \<Rightarrow> unit ctl" where
  "run_for seconds name argv phase = bindC read_clock (\<lambda>t. bindC (child name argv (t + seconds * SECOND) CHILD_CAPTURE_BYTES phase) (\<lambda>_. ret ()))"

text \<open>Writing a file and reading it back; any exception and another content are the fault.\<close>

definition write_readback :: "string \<Rightarrow> bytes \<Rightarrow> bytes \<Rightarrow> fault \<Rightarrow> unit ctl" where
  "write_readback path data expected f =
     catching (bindC (do_call (Write_file path data)) (\<lambda>_. bindC (get_bytes (Read_file path 256)) (\<lambda>b. if b \<noteq> expected then exits Error else ret ())))
       (\<lambda>_. fail f)"

definition PROFILE_NAME :: string where "PROFILE_NAME = ''/usr/lib/spp/spp-diag-controller''"

definition preflight :: "BootInputs \<Rightarrow> (ControllerIdentity \<times> bytes \<times> json) ctl" where
  "preflight boot =
     bindC (catching (get_bytes (Read_binding (binding_partuuid boot))) (\<lambda>_. fail (FLR_BINDING, 1))) (\<lambda>binding.
     bindC (lift_fault (parse_binding_record binding boot)) (\<lambda>ident.
     bindC (reading ''/usr/lib/spp/control-plan.json'' MAX_PLAN_BYTES (FLR_INPUT, 1)) (\<lambda>plan_bytes.
     bindC (lift_fault (parse_control_plan plan_bytes (id_plan ident))) (\<lambda>plan.
     bindC (reading MODEL MAX_TRACE_BYTES (FLR_INPUT, 1)) (\<lambda>model.
     if output_oracle model (id_challenge ident) (id_run ident) = None then fail (FLR_INPUT, 1)
     else bindC (catching (bindC (do_call (Preflight_fixture boot model plan)) (\<lambda>_. do_call Mount_scratch))
         (\<lambda>e. case e of Fault reason phase \<Rightarrow> exits (Fault reason phase) | _ \<Rightarrow> fail (FLR_INPUT, 1))) (\<lambda>_.
       bindC (run_for 30 ''nvidia-crypto'' [''/usr/sbin/modprobe'', ''--all'', ''ecdh_generic'', ''ecdsa_generic'', ''aesni_intel''] 1) (\<lambda>_.
       bindC (run_for 30 ''nvidia-device'' [''/usr/bin/nvidia-modprobe'', ''-c'', ''0''] 1) (\<lambda>_.
       bindC (run_for 30 ''nvidia-uvm'' [''/usr/bin/nvidia-modprobe'', ''-u''] 1) (\<lambda>_.
       bindC (write_readback ''/proc/sys/kernel/modprobe'' [CHR 0x0A] [CHR 0x0A] (FLR_POLICY, 1)) (\<lambda>_.
       bindC (run_for 30 ''gpu-bootstrap'' [''/usr/bin/python3.10'', ''-I'', ''-B'', ''-S'', ''/usr/lib/spp/spp-diag-gpu-bootstrap.py''] 1) (\<lambda>_.
       bindC (run_for 10 ''apparmor'' [''/usr/sbin/apparmor_parser'', ''-B'', ''-r'', ''-K'', ''--abort-on-error'', ''/etc/apparmor.d/spp-diag-controller.bin''] 1) (\<lambda>_.
       bindC (write_readback ''/proc/self/attr/current'' (''changeprofile '' @ PROFILE_NAME) (PROFILE_NAME @ '' (enforce)'' @ [CHR 0x0A]) (FLR_POLICY, 1)) (\<lambda>_.
       ret (ident, model, plan))))))))))))))"

section \<open>Export\<close>

text \<open>A call of the writer with its serial script.\<close>

definition with_writer :: "(writer \<Rightarrow> serial \<Rightarrow> ('x \<times> writer \<times> serial) option) \<Rightarrow> 'x ctl" where
  "with_writer f w = (case w_writer w of
     None \<Rightarrow> Some (Inl Error, w)
   | Some u \<Rightarrow> (case f u (w_serial w) of None \<Rightarrow> None | Some (x, u', s') \<Rightarrow> Some (Inr x, w\<lparr>w_writer := Some u', w_serial := s'\<rparr>)))"

definition framed_export_and_poweroff :: "unit ctl" where
  "framed_export_and_poweroff =
     bindC read_clock (\<lambda>t.
     bindC (with_writer (write_success (t + 2400 * SECOND))) (\<lambda>x. case x of
       Inl _ \<Rightarrow> bindC request_poweroff (\<lambda>_. exits Poweroff_returned)
     | Inr _ \<Rightarrow>
         bindC (with_writer (\<lambda>u s. Some (success_complete u, u, s))) (\<lambda>ok.
         if \<not> ok then exits Error
         else bindC request_poweroff (\<lambda>_.
           bindC read_clock (\<lambda>t'. bindC (with_writer (emit_invalidator (t' + 1 * SECOND))) (\<lambda>y. case y of
             Inl _ \<Rightarrow> exits Invalidation_failed
           | Inr _ \<Rightarrow> exits Poweroff_returned))))))"

definition TERMINAL_FRAME_PREFIX :: bytes where "TERMINAL_FRAME_PREFIX = ''SPPDIAG'' @ [CHR 0x00, CHR 0x01, CHR 0x01, CHR 0x00, CHR ''@'']"

text \<open>The inner payloads in the order of the inventory.\<close>

definition inner_payloads :: "ControllerIdentity \<Rightarrow> bytes \<Rightarrow> bytes \<Rightarrow> bytes \<Rightarrow> bytes \<Rightarrow> bytes \<Rightarrow> bytes \<Rightarrow> (string \<times> bytes) list" where
  "inner_payloads ident ak_tpmt firmware gpu ima output trace =
     [(''ak-tpmt-public.bin'', ak_tpmt), (''firmware-event-log.sha256'', sha256 firmware), (''gpu-evidence.sha256'', sha256 gpu), (''ima-measurements.sha256'', sha256 ima),
      (''synthetic-output.bin'', output), (''trace.bin'', trace), (''terminal-frame.bin'', TERMINAL_FRAME_PREFIX @ id_challenge ident @ id_run ident)]"

definition export_members :: "ControllerIdentity \<Rightarrow> (string \<times> bytes) list \<Rightarrow> bytes \<Rightarrow> bytes \<Rightarrow> bytes \<Rightarrow> bytes \<Rightarrow> bytes \<Rightarrow> bytes \<Rightarrow> bytes \<Rightarrow> bytes \<Rightarrow> bytes \<Rightarrow>
    (string \<times> bytes) list" where
  "export_members ident inner ak_pem firmware gpu hcla ima receipt quote_msg quote_pcrs quote_sig =
     [(''ak-public.pem'', ak_pem), (''firmware-event-log.bin'', firmware), (''gpu-evidence.tlv'', gpu), (''hcla.bin'', hcla), (''ima-measurements.bin'', ima),
      (''inner-receipt/ak-tpmt-public.bin'', the (map_of inner ''ak-tpmt-public.bin'')),
      (''inner-receipt/firmware-event-log.sha256'', the (map_of inner ''firmware-event-log.sha256'')),
      (''inner-receipt/gpu-evidence.sha256'', the (map_of inner ''gpu-evidence.sha256'')),
      (''inner-receipt/ima-measurements.sha256'', the (map_of inner ''ima-measurements.sha256'')), (''inner-receipt/manifest.json'', receipt),
      (''inner-receipt/synthetic-output.bin'', the (map_of inner ''synthetic-output.bin'')), (''inner-receipt/terminal-frame.bin'', the (map_of inner ''terminal-frame.bin'')),
      (''inner-receipt/trace.bin'', the (map_of inner ''trace.bin'')), (''quote.msg'', quote_msg), (''quote.pcrs'', quote_pcrs), (''quote.sig'', quote_sig)]"

definition MAX_EVIDENCE :: nat where "MAX_EVIDENCE = 8388608"

definition load_stream :: "(ustr \<Rightarrow> ustr) \<Rightarrow> ControllerIdentity \<Rightarrow> (string \<times> bytes) list \<Rightarrow> unit ctl" where
  "load_stream nfc ident members = (case build_export_stream nfc members (id_challenge ident) (id_run ident) of
     Inl _ \<Rightarrow> fail (FLR_EXPORT, 15)
   | Inr stream \<Rightarrow> catching (bindC (with_writer (\<lambda>u s. let (x, u') = load_success stream u in Some (x, u', s))) lift_error) (\<lambda>_. fail (FLR_EXPORT, 15)))"

definition collect_and_export :: "(ustr \<Rightarrow> ustr) \<Rightarrow> ControllerIdentity \<Rightarrow> json \<Rightarrow> bytes \<Rightarrow> bytes \<Rightarrow> unit ctl" where
  "collect_and_export nfc ident plan trace output = (let nonce = gpu_nonce ident plan output in
     bindC (run_for 120 ''gpu-helper'' [''/usr/bin/python3.10'', ''-I'', ''-B'', ''-S'', ''/usr/lib/spp/spp-diag-gpu-evidence.py'', ''--nonce-hex'', to_hex nonce,
         ''--output'', ''/run/spp-diag/gpu-evidence.tlv''] 15) (\<lambda>_.
     bindC (reading ''/run/spp-diag/gpu-evidence.tlv'' MAX_EVIDENCE (FLR_GPU, 15)) (\<lambda>gpu.
     if \<not> gpu_nonce_matches gpu nonce then fail (FLR_GPU, 15)
     else bindC (run_for 15 ''tpm-readpublic-pem'' [''/usr/bin/tpm2_readpublic'', ''-c'', ''0x81000003'', ''-f'', ''pem'', ''-o'', ''/run/spp-diag/ak-public.pem''] 15) (\<lambda>_.
       bindC (run_for 15 ''tpm-readpublic-tpmt'' [''/usr/bin/tpm2_readpublic'', ''-c'', ''0x81000003'', ''-f'', ''tpmt'', ''-o'', ''/run/spp-diag/ak-tpmt-public.bin''] 15) (\<lambda>_.
       bindC (run_for 15 ''tpm-nvread'' [''/usr/bin/tpm2_nvread'', ''-C'', ''o'', ''-s'', ''2600'', ''-o'', ''/run/spp-diag/hcla.bin'', ''0x01400001''] 15) (\<lambda>_.
       bindC (reading ''/run/spp-diag/ak-public.pem'' CHILD_CAPTURE_BYTES (FLR_TPM, 15)) (\<lambda>ak_pem.
       bindC (reading ''/run/spp-diag/ak-tpmt-public.bin'' CHILD_CAPTURE_BYTES (FLR_TPM, 15)) (\<lambda>ak_tpmt.
       bindC (reading ''/run/spp-diag/hcla.bin'' 2600 (FLR_TPM, 15)) (\<lambda>hcla.
       bindC (reading ''/sys/kernel/security/tpm0/binary_bios_measurements'' MAX_EVIDENCE (FLR_TPM, 15)) (\<lambda>firmware.
       if length hcla \<noteq> 2600 then fail (FLR_TPM, 15)
       else bindC (reading ''/sys/kernel/security/ima/binary_runtime_measurements'' MAX_EVIDENCE (FLR_IMA, 15)) (\<lambda>ima_before.
         let inner = inner_payloads ident ak_tpmt firmware gpu ima_before output trace in
         bindC (lift_error (canonical_dumps (receipt_fields ident inner))) (\<lambda>receipt.
         bindC (lift_error (inner_receipt_digest ident inner)) (\<lambda>receipt_digest.
         bindC (lift_error (build_quote_invocation ident receipt_digest)) (\<lambda>argv.
         bindC (run_for 30 ''tpm-quote'' argv 15) (\<lambda>_.
         bindC (reading ''/run/spp-diag/quote.msg'' 65536 (FLR_TPM, 15)) (\<lambda>quote_msg.
         bindC (reading ''/run/spp-diag/quote.sig'' 16384 (FLR_TPM, 15)) (\<lambda>quote_sig.
         bindC (reading ''/run/spp-diag/quote.pcrs'' CHILD_CAPTURE_BYTES (FLR_TPM, 15)) (\<lambda>quote_pcrs.
         bindC (reading ''/sys/kernel/security/ima/binary_runtime_measurements'' MAX_EVIDENCE (FLR_IMA, 15)) (\<lambda>ima_after.
         if ima_after \<noteq> ima_before then fail (FLR_IMA, 15)
         else bindC (load_stream nfc ident (export_members ident inner ak_pem firmware gpu hcla ima_after receipt quote_msg quote_pcrs quote_sig)) (\<lambda>_.
           framed_export_and_poweroff))))))))))))))))))))"

section \<open>The end of a run\<close>

definition fail_stop :: "string \<Rightarrow> int \<Rightarrow> int ctl" where
  "fail_stop reason phase =
     bindC (\<lambda>w. if w_identity w \<noteq> None \<and> w_usable w \<and> w_writer w \<noteq> None
        then bindC read_clock (\<lambda>t. bindC (with_writer (emit_failure reason phase (t + 5 * SECOND))) (\<lambda>_. ret ())) w
        else ret () w) (\<lambda>_.
     bindC request_poweroff (\<lambda>_. ret 1))"

definition diag_body :: "(ustr \<Rightarrow> ustr) \<Rightarrow> string list \<Rightarrow> int ctl" where
  "diag_body nfc argv =
     bindC (get_bytes (Read_file ''/proc/cmdline'' 4096)) (\<lambda>cmdline.
     bindC (lift_fault (parse_boot_inputs argv cmdline)) (\<lambda>boot.
     bindC (\<lambda>w. ret () (w\<lparr>w_identity := Some (boot_identity boot)\<rparr>)) (\<lambda>_.
     bindC (do_call Configure_uart) (\<lambda>_.
     bindC (\<lambda>w. ret () (w\<lparr>w_usable := True\<rparr>)) (\<lambda>_.
     bindC (lift_error (new_writer (id_challenge (boot_identity boot)) (id_run (boot_identity boot)))) (\<lambda>u.
     bindC (\<lambda>w. ret () (w\<lparr>w_writer := Some u\<rparr>)) (\<lambda>_.
     bindC (do_call Verify_pid_fds) (\<lambda>_.
     bindC (preflight boot) (\<lambda>(ident, model, plan).
     bindC (\<lambda>w. ret () (w\<lparr>w_identity := Some ident\<rparr>)) (\<lambda>_.
     bindC (run_controller ident model) (\<lambda>(trace, output).
     bindC (collect_and_export nfc ident plan trace output) (\<lambda>_.
     fail (FLR_EXPORT, 15)))))))))))))"

definition diag_main :: "(ustr \<Rightarrow> ustr) \<Rightarrow> string list \<Rightarrow> int ctl" where
  "diag_main nfc argv = catching (diag_body nfc argv) (\<lambda>e. case e of
     Fault reason phase \<Rightarrow> fail_stop reason phase
   | Error \<Rightarrow> (\<lambda>w. fail_stop (if w_identity w = None then FLR_INPUT else FLR_EXPORT) 1 w)
   | _ \<Rightarrow> fail_stop FLR_EXPORT 15)"

section \<open>Quiet computations\<close>

definition ok_exit :: "exit \<Rightarrow> bool" where
  "ok_exit e = (case e of Fault r p \<Rightarrow> map_of REASON_CODES r \<noteq> None \<and> 0 \<le> p \<and> p \<le> 0xFFFFFFFF | Error \<Rightarrow> True | _ \<Rightarrow> False)"

definition same_line :: "world \<Rightarrow> world \<Rightarrow> bool" where
  "same_line w w' \<longleftrightarrow> w_writer w' = w_writer w \<and> w_serial w' = w_serial w \<and> w_identity w' = w_identity w \<and> w_usable w' = w_usable w"

text \<open>A computation that leaves the serial line alone and whose faults can be reported.\<close>

definition quiet :: "'a ctl \<Rightarrow> bool" where
  "quiet m \<longleftrightarrow> (\<forall>w x w'. m w = Some (x, w') \<longrightarrow> same_line w w' \<and> (\<forall>e. x = Inl e \<longrightarrow> ok_exit e))"

named_theorems quiets

lemma same_line_trans: "same_line w w' \<Longrightarrow> same_line w' w'' \<Longrightarrow> same_line w w''"
  by (simp add: same_line_def)

lemma quiet_ret [quiets]: "quiet (ret x)"
  by (simp add: quiet_def ret_def same_line_def)

lemma quiet_exits: "ok_exit e \<Longrightarrow> quiet (exits e)"
  by (simp add: quiet_def exits_def same_line_def)

lemma quiet_error [quiets]: "quiet (exits Error)"
  by (rule quiet_exits) (simp add: ok_exit_def)

lemma quiet_fail [quiets]: "ok_exit (Fault r p) \<Longrightarrow> quiet (fail (r, p))"
  by (simp add: fail_def quiet_exits)

lemma quiet_bind [quiets]: "quiet m \<Longrightarrow> (\<And>x. quiet (f x)) \<Longrightarrow> quiet (bindC m f)"
  unfolding quiet_def bindC_def by (auto split: option.splits sum.splits) (metis same_line_trans)+

lemma quiet_catching [quiets]: "quiet m \<Longrightarrow> (\<And>e. ok_exit e \<Longrightarrow> quiet (h e)) \<Longrightarrow> quiet (catching m h)"
  unfolding quiet_def catching_def by (auto split: option.splits sum.splits if_splits) (metis same_line_trans)+

lemma quiet_ask [quiets]: "quiet (ask c)" "quiet read_clock"
  by (simp_all add: quiet_def ask_def read_clock_def Let_def same_line_def)

lemma reasons_ok: "map_of REASON_CODES FLR_INPUT \<noteq> None" "map_of REASON_CODES FLR_BINDING \<noteq> None" "map_of REASON_CODES FLR_POLICY \<noteq> None"
  "map_of REASON_CODES FLR_TRACE \<noteq> None" "map_of REASON_CODES FLR_CHILD \<noteq> None" "map_of REASON_CODES FLR_GPU \<noteq> None"
  "map_of REASON_CODES FLR_TPM \<noteq> None" "map_of REASON_CODES FLR_IMA \<noteq> None" "map_of REASON_CODES FLR_EXPORT \<noteq> None"
  by (simp_all add: REASON_CODES_def flr_defs)

lemma ok_fault: "map_of REASON_CODES r \<noteq> None \<Longrightarrow> 0 \<le> p \<Longrightarrow> p \<le> 15 \<Longrightarrow> ok_exit (Fault r p)"
  by (simp add: ok_exit_def)

lemma quiet_calls [quiets]: "quiet (do_call c)" "quiet (get_bytes c)"
  by (auto simp: do_call_def get_bytes_def intro!: quiets ok_fault reasons_ok split: reply.splits)

lemma quiet_reading [quiets]: "map_of REASON_CODES r \<noteq> None \<Longrightarrow> 0 \<le> p \<Longrightarrow> p \<le> 15 \<Longrightarrow> quiet (reading path cap (r, p))"
  by (auto simp: reading_def intro!: quiets ok_fault)

lemma quiet_deadline [quiets]: "map_of REASON_CODES r \<noteq> None \<Longrightarrow> 0 \<le> p \<Longrightarrow> p \<le> 15 \<Longrightarrow> quiet (require_deadline d p r)"
  by (auto simp: require_deadline_def intro!: quiets ok_fault)

lemma quiet_child [quiets]: "0 \<le> p \<Longrightarrow> p \<le> 15 \<Longrightarrow> quiet (child name argv d cap p)"
  by (auto simp: child_def intro!: quiets ok_fault reasons_ok split: reply.splits)

lemma quiet_run_for [quiets]: "0 \<le> p \<Longrightarrow> p \<le> 15 \<Longrightarrow> quiet (run_for t name argv p)"
  by (auto simp: run_for_def intro!: quiets)

lemma quiet_direct [quiets]: "map_of REASON_CODES r \<noteq> None \<Longrightarrow> 0 \<le> p \<Longrightarrow> p \<le> 15 \<Longrightarrow> quiet (direct a v p r d)"
  by (auto simp: direct_def intro!: quiets ok_fault)

lemma quiet_advance [quiets]: "0 \<le> p \<Longrightarrow> p \<le> 15 \<Longrightarrow> quiet (advance ident n p d)"
  by (auto simp: advance_def intro!: quiets ok_fault reasons_ok split: option.splits)

lemma quiet_probed [quiets]: "map_of REASON_CODES r \<noteq> None \<Longrightarrow> 1 \<le> n \<Longrightarrow> n \<le> 15 \<Longrightarrow> quiet (probed_phase ident (n, a, v, r))"
  by (auto simp: probed_phase_def intro!: quiets)

lemma quiet_each [quiets]: "quiet (each_phase ident PROBES)"
  unfolding PROBES_def by (simp only: each_phase.simps) (intro quiets reasons_ok; simp)

lemma quiet_lift [quiets]: "quiet (lift_error r)"
  by (auto simp: lift_error_def intro!: quiets split: sum.splits)

lemma quiet_lift_fault: "(\<And>f. r' = Inl f \<Longrightarrow> ok_exit (Fault (fst f) (snd f))) \<Longrightarrow> quiet (lift_fault r')"
  by (auto simp: lift_fault_def fail_def intro!: quiets quiet_exits split: sum.splits)

lemma quiet_run_controller [quiets]: "quiet (run_controller ident model)"
  unfolding run_controller_def cold_phase_def infer_phase_def seal_phase_def SEAL_PHASE_def
  by (auto intro!: quiets ok_fault reasons_ok split: option.splits)

lemma binding_faults: "parse_binding_record data boot = Inl f \<Longrightarrow> ok_exit (Fault (fst f) (snd f))"
  using ok_fault reasons_ok(2) by (auto simp: parse_binding_record_def Let_def split: if_splits sum.splits json.splits)

lemma plan_faults: "parse_control_plan data a = Inl f \<Longrightarrow> ok_exit (Fault (fst f) (snd f))"
  using ok_fault reasons_ok(1,2) by (auto simp: parse_control_plan_def split: if_splits sum.splits json.splits)

lemma quiet_inputs [quiets]: "quiet (lift_fault (parse_binding_record data boot))" "quiet (lift_fault (parse_control_plan data a))"
  "ok_exit e \<Longrightarrow> quiet (case e of Fault reason phase \<Rightarrow> exits (Fault reason phase) | _ \<Rightarrow> fail (FLR_INPUT, 1))"
  subgoal by (rule quiet_lift_fault) (rule binding_faults)
  subgoal by (rule quiet_lift_fault) (rule plan_faults)
  subgoal by (cases e) (simp_all add: quiet_exits quiet_fail ok_fault reasons_ok)
  done

lemma quiet_preflight [quiets]: "quiet (preflight boot)"
  unfolding preflight_def write_readback_def by (auto intro!: quiets ok_fault reasons_ok)

section \<open>Errors of the writer\<close>

lemma send_record_error:
  assumes "send_record kind p d w s = Some (Inl e, w', s')" "start_record kind p w = Inr w1"
  shows "poisoned w'"
proof -
  have w1: "pending_record w1 = Some (next_wire w (kind, p))" "pending_offset w1 = 0" using assms(2) by (simp_all add: start_record_iff next_wire_def)
  have call: "then_call (write_pending d w1 s) (drain d) = Some (Inl e, w', s')" using assms by (simp add: send_record_def)
  then obtain y w2 s2 where wp: "write_pending d w1 s = Some (y, w2, s2)" by (auto simp: then_call_def split: option.splits)
  show ?thesis using write_pending_result [OF wp w1(1)] w1(2) call wp drain_result [of d w2 s2 "Inl e" w' s'] by (cases y) (auto simp: then_call_def)
qed

lemma start_ok:
  assumes "uart_inv u s" "\<not> poisoned u" "\<not> terminal u" "frame_ok (kind, p)"
  shows "\<exists>u1. start_record kind p u = Inr u1"
proof -
  obtain qs fl where i: "pending_record u = None" "transcript_of u qs fl" "next_sequence u = length (transcript qs (invalidated u) fl)"
    using assms(1,2) by (rule uart_inv_cleanE)
  have "fl = None" using i(2) assms(3) by (cases fl) (simp_all add: transcript_of_def failure_part_def)
  moreover have "length qs \<le> 256" using i(2) by (auto simp: transcript_of_def success_part_def split: option.splits)
  ultimately have "next_sequence u < MAX_FRAMES" using i(3) by (auto simp: transcript_def MAX_FRAMES_def)
  then show ?thesis using i(1,2) assms(2,4) by (auto simp: start_record_iff transcript_of_def)
qed

lemma write_chunks_error: "write_chunks stream d w s = Some (Inl e, w', s') \<Longrightarrow> success w = Some stream \<Longrightarrow> \<not> poisoned w \<Longrightarrow> \<not> success_complete_flag w \<Longrightarrow>
    \<not> invalidated w \<Longrightarrow> \<not> terminal w \<Longrightarrow> uart_inv w s \<Longrightarrow> poisoned w'"
proof (induction stream d w s rule: write_chunks.induct)
  case (1 stream d w s)
  note w = "1.prems"(2-6)
  let ?p = "pslice (success_offset w) (chunk_end w stream) stream"
  have lt: "success_offset w < length stream" using "1.prems"(1) by (auto simp: write_chunks.simps [of _ _ w] split: if_splits)
  obtain qs fl where i: "transcript_of w qs fl" using "1.prems"(7) w(2) by (rule uart_inv_cleanE)
  have sp: "success_part w qs" using i by (simp add: transcript_of_def)
  note ch = chunk_step [OF sp w(1) lt]
  obtain y w1 s1 where snd: "send_record KIND_SUCCESS ?p d w s = Some (y, w1, s1)"
    using "1.prems"(1) lt by (auto simp: write_chunks.simps [of _ _ w] split: option.splits)
  show ?case
  proof (cases y)
    case (Inl e')
    then have "w' = w1" using "1.prems"(1) lt snd by (simp add: write_chunks.simps [of _ _ w])
    then show ?thesis using send_record_error snd Inl start_ok [OF "1.prems"(7) w(2,5) ch(1)] by blast
  next
    case (Inr v)
    let ?w = "w1\<lparr>success_offset := chunk_end w stream\<rparr>"
    have rest: "write_chunks stream d ?w s1 = Some (Inl e, w', s')" using "1.prems"(1) lt snd Inr by (simp add: write_chunks.simps [of _ _ w])
    have w1: "w1 = w\<lparr>next_sequence := next_sequence w + 1, pending_record := None, pending_offset := 0\<rparr>" using snd Inr by (auto elim: send_record_cases)
    have "uart_inv ?w s1" using chunk_written [OF "1.prems"(7) w(1,2,4,5) lt snd [unfolded Inr]] .
    then show ?thesis using "1.IH" [OF lt snd refl Inr refl rest] w w1 by simp
  qed
qed

end
