(* ===== verification/Diag_Run.thy ===== *)
theory Diag_Run
  imports Diag_Main
begin

text \<open>
  What an off-box observer learns from the serial line of any run of the diagnostic controller:
  the state of the writer wherever \<open>main\<close> ends, and its observation.
\<close>

section \<open>Partial triples\<close>

text \<open>A run may wait forever for the serial device; where it ends, \<open>Q\<close> or \<open>E\<close> holds.\<close>

definition ends :: "(world \<Rightarrow> bool) \<Rightarrow> 'a ctl \<Rightarrow> ('a \<Rightarrow> world \<Rightarrow> bool) \<Rightarrow> (exit \<Rightarrow> world \<Rightarrow> bool) \<Rightarrow> bool" where
  "ends P m Q E \<longleftrightarrow> (\<forall>w x w'. P w \<longrightarrow> m w = Some (x, w') \<longrightarrow> (case x of Inr a \<Rightarrow> Q a w' | Inl e \<Rightarrow> E e w'))"

lemma ends_ret: "(\<And>w. P w \<Longrightarrow> Q x w) \<Longrightarrow> ends P (ret x) Q E"
  by (simp add: ends_def ret_def)

lemma ends_exits: "(\<And>w. P w \<Longrightarrow> E e w) \<Longrightarrow> ends P (exits e) Q E"
  by (simp add: ends_def exits_def)

lemma ends_bind: "ends P m R E \<Longrightarrow> (\<And>x. ends (R x) (f x) Q E) \<Longrightarrow> ends P (bindC m f) Q E"
  unfolding ends_def bindC_def by (fastforce split: option.splits sum.splits prod.splits)

lemma ends_catching: "ends P m Q R \<Longrightarrow> (\<And>e. e \<noteq> Stopped \<Longrightarrow> ends (R e) (h e) Q E) \<Longrightarrow> (\<And>w. R Stopped w \<Longrightarrow> E Stopped w) \<Longrightarrow> ends P (catching m h) Q E"
  unfolding ends_def catching_def by (fastforce split: option.splits sum.splits prod.splits if_splits)

text \<open>An assertion about the line only, which quiet computations keep.\<close>

definition on_line :: "(world \<Rightarrow> bool) \<Rightarrow> bool" where
  "on_line P \<longleftrightarrow> (\<forall>w w'. same_line w w' \<longrightarrow> P w \<longrightarrow> P w')"

lemma ends_quiet: "quiet m \<Longrightarrow> on_line P \<Longrightarrow> (\<And>e w. ok_exit e \<Longrightarrow> P w \<Longrightarrow> E e w) \<Longrightarrow> ends P m (\<lambda>_. P) E"
  unfolding ends_def quiet_def on_line_def by (fastforce split: sum.splits)

lemma ends_step: "(\<And>w. P w \<Longrightarrow> Q () (f w)) \<Longrightarrow> ends P (\<lambda>w. ret () (f w)) Q E"
  by (simp add: ends_def ret_def)

lemma ends_with_writer:
  "(\<And>w u x u' s'. P w \<Longrightarrow> w_writer w = Some u \<Longrightarrow> f u (w_serial w) = Some (x, u', s') \<Longrightarrow> Q x (w\<lparr>w_writer := Some u', w_serial := s'\<rparr>)) \<Longrightarrow>
    (\<And>w. P w \<Longrightarrow> w_writer w \<noteq> None) \<Longrightarrow> ends P (with_writer f) Q E"
  unfolding ends_def with_writer_def by (fastforce split: option.splits prod.splits)

lemma ends_poweroff: "on_line P \<Longrightarrow> (\<And>w. P w \<Longrightarrow> E Stopped w) \<Longrightarrow> ends P request_poweroff (\<lambda>_. P) E"
  unfolding ends_def request_poweroff_def bindC_def ask_def Let_def on_line_def
  by (auto simp: ret_def exits_def same_line_def split: reply.splits)

section \<open>The writer of a run\<close>

text \<open>The states of the line: no writer yet, and a writer reached from a fresh one with a condition on it.\<close>

definition silent :: "world \<Rightarrow> bool" where
  "silent w \<longleftrightarrow> w_writer w = None \<and> sent (w_serial w) = []"

definition identified :: "bytes \<Rightarrow> bytes \<Rightarrow> world \<Rightarrow> bool" where
  "identified c r w \<longleftrightarrow> (\<exists>ident. w_identity w = Some ident \<and> id_challenge ident = c \<and> id_run ident = r)"

lemma identified_updates [simp]: "identified c r (w\<lparr>w_log := l\<rparr>) = identified c r w" "identified c r (w\<lparr>w_writer := u\<rparr>) = identified c r w"
  "identified c r (w\<lparr>w_serial := s\<rparr>) = identified c r w"
  by (simp_all add: identified_def)

definition line :: "(ustr \<Rightarrow> ustr) \<Rightarrow> bytes \<Rightarrow> bytes \<Rightarrow> (writer \<Rightarrow> bool) \<Rightarrow> world \<Rightarrow> bool" where
  "line nfc c r A w \<longleftrightarrow> identified c r w \<and> w_usable w \<and> (\<exists>u. w_writer w = Some u \<and> uart_reach c r u (w_serial w) \<and> A u \<and>
     (\<forall>stream. success u = Some stream \<longrightarrow> (\<exists>members. build_export_stream nfc members c r = Inr stream)))"

definition unused :: "writer \<Rightarrow> bool" where
  "unused u \<longleftrightarrow> \<not> poisoned u \<and> success u = None \<and> \<not> success_complete_flag u \<and> \<not> invalidated u \<and> \<not> terminal u \<and> pending_record u = None"

definition loaded :: "writer \<Rightarrow> bool" where
  "loaded u \<longleftrightarrow> \<not> poisoned u \<and> success u \<noteq> None \<and> \<not> success_complete_flag u \<and> \<not> invalidated u \<and> \<not> terminal u \<and> pending_record u = None"

definition finished :: "writer \<Rightarrow> bool" where
  "finished u \<longleftrightarrow> \<not> poisoned u \<and> success_complete_flag u \<and> \<not> invalidated u \<and> \<not> terminal u \<and> pending_record u = None"

definition reportable :: "writer \<Rightarrow> bool" where
  "reportable u \<longleftrightarrow> poisoned u \<or> can_emit_failure u"

definition reported :: "writer \<Rightarrow> bool" where
  "reported u \<longleftrightarrow> poisoned u \<or> terminal u"

lemma line_on_line: "on_line (line nfc c r A)" "on_line silent" "on_line (\<lambda>w. silent w \<or> line nfc c r A w)"
  by (auto simp: on_line_def same_line_def line_def silent_def identified_def)

lemma line_weaken: "line nfc c r A w \<Longrightarrow> (\<And>u. A u \<Longrightarrow> B u) \<Longrightarrow> line nfc c r B w"
  by (auto simp: line_def)

lemma ends_weaken: "ends P m R F \<Longrightarrow> (\<And>w. P' w \<Longrightarrow> P w) \<Longrightarrow> (\<And>x w. R x w \<Longrightarrow> Q x w) \<Longrightarrow> (\<And>e w. F e w \<Longrightarrow> E e w) \<Longrightarrow> ends P' m Q E"
  unfolding ends_def by (fastforce split: sum.splits)

lemma unused_reportable: "unused u \<Longrightarrow> reportable u"
  by (simp add: unused_def reportable_def can_emit_failure_def empty_writer_def)

lemma lineE:
  assumes "line nfc c r A w" "w_writer w = Some u"
  shows "uart_reach c r u (w_serial w)" "A u" "uart_inv u (w_serial w)" "challenge u = c" "run_identity u = r"
    "\<And>stream. success u = Some stream \<Longrightarrow> \<exists>members. build_export_stream nfc members c r = Inr stream"
  using assms reach_inv by (auto simp: line_def)

lemma line_writer: "line nfc c r A w \<Longrightarrow> \<exists>u. w_writer w = Some u"
  by (auto simp: line_def)

text \<open>A step of the writer that keeps its stream.\<close>

lemma line_step:
  assumes "line nfc c r A w" "w_writer w = Some u" "uart_step u (w_serial w) u' s'" "success u' = success u" "B u'"
  shows "line nfc c r B (w\<lparr>w_writer := Some u', w_serial := s'\<rparr>)"
  using assms uart_reach.step [OF lineE(1) [OF assms(1,2)] assms(3)] by (auto simp: line_def)

lemma write_chunks_ok: "write_chunks stream d u s = Some (Inr y, u', s') \<Longrightarrow> \<not> poisoned u \<Longrightarrow> pending_record u = None \<Longrightarrow>
    \<not> poisoned u' \<and> pending_record u' = None \<and> success_complete_flag u' \<and> success u' = success u \<and> invalidated u' = invalidated u \<and> terminal u' = terminal u"
proof (induction stream d u s rule: write_chunks.induct)
  case (1 stream d w s)
  show ?case
  proof (cases "success_offset w < length stream")
    case False
    then show ?thesis using "1.prems" by (auto simp: write_chunks.simps [of _ _ w])
  next
    case True
    obtain z w1 s1 where snd: "send_record KIND_SUCCESS (pslice (success_offset w) (chunk_end w stream) stream) d w s = Some (Inr z, w1, s1)"
      and rest: "write_chunks stream d (w1\<lparr>success_offset := chunk_end w stream\<rparr>) s1 = Some (Inr y, u', s')"
      using "1.prems"(1) True by (auto simp: write_chunks.simps [of _ _ w] split: option.splits sum.splits)
    have w1: "w1 = w\<lparr>next_sequence := next_sequence w + 1, pending_record := None, pending_offset := 0\<rparr>" using snd by (auto elim: send_record_cases)
    show ?thesis using "1.IH" [OF True snd refl refl refl rest] "1.prems"(2) by (simp add: w1)
  qed
qed

lemma write_chunks_success: "write_chunks stream d u s = Some (x, u', s') \<Longrightarrow> success u' = success u"
proof (induction stream d u s rule: write_chunks.induct)
  case (1 stream d w s)
  show ?case using "1.prems" "1.IH" send_record_frame
    by (subst (asm) write_chunks.simps) (fastforce split: if_splits option.splits sum.splits)
qed

lemma write_success_line:
  assumes "line nfc c r loaded w" "w_writer w = Some u" "write_success d u (w_serial w) = Some (x, u', s')"
  shows "line nfc c r (\<lambda>u'. case x of Inl _ \<Rightarrow> poisoned u' | Inr _ \<Rightarrow> finished u') (w\<lparr>w_writer := Some u', w_serial := s'\<rparr>)"
proof -
  have u: "loaded u" "uart_inv u (w_serial w)" using lineE [OF assms(1,2)] by blast+
  then obtain stream where s: "success u = Some stream" by (auto simp: loaded_def)
  have wc: "write_chunks stream d u (w_serial w) = Some (x, u', s')" using assms(3) u(1) s by (simp add: write_success_def loaded_def)
  have "case x of Inl _ \<Rightarrow> poisoned u' | Inr _ \<Rightarrow> finished u'"
  proof (cases x)
    case (Inl e)
    then have "poisoned u'" using write_chunks_error [OF wc [unfolded Inl] s] u by (simp add: loaded_def)
    then show ?thesis by (simp add: Inl)
  next
    case (Inr y)
    have "finished u'" using write_chunks_ok [OF wc [unfolded Inr]] u by (simp add: loaded_def finished_def)
    then show ?thesis by (simp add: Inr)
  qed
  then show ?thesis by (intro line_step [OF assms(1,2) uart_step.success [OF refl assms(3)] write_chunks_success [OF wc]])
qed

lemma emit_invalidator_line:
  assumes "line nfc c r finished w" "w_writer w = Some u" "emit_invalidator d u (w_serial w) = Some (x, u', s')"
  shows "line nfc c r reportable (w\<lparr>w_writer := Some u', w_serial := s'\<rparr>)"
proof -
  have u: "finished u" "uart_inv u (w_serial w)" using lineE [OF assms(1,2)] by blast+
  obtain y u1 s1 where snd: "send_record KIND_INVALIDATE [CHR 0x00] d u (w_serial w) = Some (y, u1, s1)"
    and x: "(x, u', s') = (case y of Inl e \<Rightarrow> (Inl e, u1, s1) | Inr _ \<Rightarrow> (Inr (), u1\<lparr>invalidated := True\<rparr>, s1))"
    using assms(3) u(1) by (auto simp: emit_invalidator_def finished_def success_complete_def empty_writer_def then_call_def split: option.splits sum.splits)
  have "reportable u'"
  proof (cases y)
    case (Inl e)
    obtain v where "start_record KIND_INVALIDATE [CHR 0x00] u = Inr v" using start_ok [OF u(2) _ _ frame_ok_invalidate] u(1) by (auto simp: finished_def)
    then have "poisoned u1" using send_record_error snd Inl by blast
    then show ?thesis using x Inl by (simp add: reportable_def)
  next
    case (Inr z)
    then have "u1 = u\<lparr>next_sequence := next_sequence u + 1, pending_record := None, pending_offset := 0\<rparr>" using snd by (auto elim: send_record_cases)
    then show ?thesis using x Inr u(1) by (simp add: reportable_def can_emit_failure_def empty_writer_def finished_def)
  qed
  moreover have "success u' = success u" using send_record_frame [OF snd] x by (cases y) auto
  ultimately show ?thesis using line_step [OF assms(1,2) uart_step.invalidate [OF refl assms(3)]] by blast
qed

lemma emit_failure_line:
  assumes "line nfc c r reportable w" "w_writer w = Some u" "emit_failure reason phase d u (w_serial w) = Some (x, u', s')" "ok_exit (Fault reason phase)"
  shows "line nfc c r reported (w\<lparr>w_writer := Some u', w_serial := s'\<rparr>)"
proof -
  have u: "reportable u" "uart_inv u (w_serial w)" "challenge u = c" "run_identity u = r" using lineE [OF assms(1,2)] by blast+
  have "reported u' \<and> success u' = success u"
  proof (cases "can_emit_failure u")
    case False
    then show ?thesis using assms(3) u(1) by (simp add: emit_failure_def reportable_def reported_def)
  next
    case True
    then have c: "\<not> poisoned u" "\<not> terminal u" by (simp_all add: can_emit_failure_def)
    obtain qs fl where "transcript_of u qs fl" using u(2) c(1) by (rule uart_inv_cleanE)
    then have l: "length (challenge u) = 32" "length (run_identity u) = 32" by (simp_all add: transcript_of_def)
    obtain t where t: "encode_failure_terminal reason phase (challenge u) (run_identity u) = Inr t"
      using assms(4) l by (auto simp: ok_exit_def encode_failure_terminal_def Let_def)
    obtain y u1 s1 where snd: "send_record KIND_FAILURE t d u (w_serial w) = Some (y, u1, s1)"
      and x: "(x, u', s') = (case y of Inl e \<Rightarrow> (Inr (Inl e), u1, s1) | Inr _ \<Rightarrow> (Inr (Inr ()), u1\<lparr>terminal := True\<rparr>, s1))"
      using assms(3) True t by (auto simp: emit_failure_def then_call_def split: option.splits sum.splits)
    have "frame_ok (KIND_FAILURE, t)" using terminal_length [OF t] by (simp add: frame_ok_def)
    then obtain v where v: "start_record KIND_FAILURE t u = Inr v" using start_ok [OF u(2) c] by blast
    have "reported u'"
    proof (cases y)
      case (Inl e)
      then show ?thesis using send_record_error [OF snd [unfolded Inl] v] x by (simp add: reported_def)
    qed (use x in \<open>simp add: reported_def\<close>)
    then show ?thesis using send_record_frame [OF snd] x by (cases y) auto
  qed
  then show ?thesis using line_step [OF assms(1,2) uart_step.failure [OF refl assms(3)]] by blast
qed

section \<open>From the inputs to the end\<close>

definition body_exit :: "(ustr \<Rightarrow> ustr) \<Rightarrow> exit \<Rightarrow> world \<Rightarrow> bool" where
  "body_exit nfc e w = (if e = Stopped then \<exists>c r. line nfc c r (\<lambda>u. poisoned u \<or> finished u) w
     else (case e of Fault reason phase \<Rightarrow> ok_exit e | _ \<Rightarrow> True) \<and> (silent w \<or> (\<exists>c r. line nfc c r reportable w)))"

lemma exit_reportable: "line nfc c r reportable w \<Longrightarrow> e \<noteq> Stopped \<Longrightarrow> (\<And>reason phase. e = Fault reason phase \<Longrightarrow> ok_exit e) \<Longrightarrow> body_exit nfc e w"
  by (auto simp: body_exit_def split: exit.splits)

lemma ok_exit_simps [simp]: "\<not> ok_exit Stopped" "\<not> ok_exit Poweroff_returned" "\<not> ok_exit Invalidation_failed" "ok_exit Error"
  by (simp_all add: ok_exit_def)

lemma exit_quiet:
  assumes "quiet m" "\<And>u. A u \<Longrightarrow> reportable u"
  shows "ends (line nfc c r A) m (\<lambda>_. line nfc c r A) (body_exit nfc)"
  by (rule ends_quiet [OF assms(1) line_on_line(1)]) (auto intro!: exit_reportable elim: line_weaken [OF _ assms(2)])

lemma framed_export_ends: "ends (line nfc c r loaded) framed_export_and_poweroff (\<lambda>_ _. False) (body_exit nfc)"
proof -
  let ?L = "line nfc c r"
  have q: "ends (?L loaded) read_clock (\<lambda>_. ?L loaded) (body_exit nfc)" "ends (?L finished) read_clock (\<lambda>_. ?L finished) (body_exit nfc)"
    by (simp_all add: ends_def read_clock_def Let_def line_def)
  have ws: "ends (?L loaded) (with_writer (write_success d)) (\<lambda>x. ?L (\<lambda>u. case x of Inl _ \<Rightarrow> poisoned u | Inr _ \<Rightarrow> finished u)) (body_exit nfc)" for d
    by (rule ends_with_writer) (auto intro: write_success_line dest: line_writer)
  have po: "ends (?L A) request_poweroff (\<lambda>_. ?L A) (body_exit nfc)" if A: "\<And>u. A u \<Longrightarrow> poisoned u \<or> finished u" for A
  proof (rule ends_poweroff [OF line_on_line(1)])
    show "body_exit nfc Stopped w" if "?L A w" for w using line_weaken [OF that, of "\<lambda>u. poisoned u \<or> finished u"] A by (auto simp: body_exit_def)
  qed
  have cut: "ends (?L poisoned) (bindC request_poweroff (\<lambda>_. exits Poweroff_returned)) (\<lambda>_ _. False) (body_exit nfc)"
    by (rule ends_bind [OF po]) (auto intro!: ends_exits exit_reportable elim!: line_weaken simp: reportable_def)
  have sc: "ends (?L finished) (with_writer (\<lambda>u s. Some (success_complete u, u, s))) (\<lambda>ok w. ok \<and> ?L finished w) (body_exit nfc)"
    by (rule ends_with_writer) (auto simp: line_def finished_def success_complete_def empty_writer_def)
  have iv: "ends (?L finished) (with_writer (emit_invalidator d)) (\<lambda>_. ?L reportable) (body_exit nfc)" for d
    by (rule ends_with_writer) (auto intro: emit_invalidator_line dest: line_writer)
  have last: "ends (?L finished) (bindC request_poweroff (\<lambda>_. bindC read_clock (\<lambda>t'. bindC (with_writer (emit_invalidator (t' + 1 * SECOND))) (\<lambda>y. case y of
      Inl _ \<Rightarrow> exits Invalidation_failed | Inr _ \<Rightarrow> exits Poweroff_returned)))) (\<lambda>_ _. False) (body_exit nfc)"
    by (rule ends_bind [OF po], simp, rule ends_bind [OF q(2)], rule ends_bind [OF iv]) (auto intro!: ends_exits exit_reportable split: sum.splits)
  have fin: "ends (?L finished) (bindC (with_writer (\<lambda>u s. Some (success_complete u, u, s))) (\<lambda>ok. if \<not> ok then exits Error
      else bindC request_poweroff (\<lambda>_. bindC read_clock (\<lambda>t'. bindC (with_writer (emit_invalidator (t' + 1 * SECOND))) (\<lambda>y. case y of
      Inl _ \<Rightarrow> exits Invalidation_failed | Inr _ \<Rightarrow> exits Poweroff_returned))))) (\<lambda>_ _. False) (body_exit nfc)"
  proof (rule ends_bind [OF sc])
    fix ok
    show "ends (\<lambda>w. ok \<and> ?L finished w) (if \<not> ok then exits Error
      else bindC request_poweroff (\<lambda>_. bindC read_clock (\<lambda>t'. bindC (with_writer (emit_invalidator (t' + 1 * SECOND))) (\<lambda>y. case y of
      Inl _ \<Rightarrow> exits Invalidation_failed | Inr _ \<Rightarrow> exits Poweroff_returned)))) (\<lambda>_ _. False) (body_exit nfc)"
      using last by (cases ok) (simp_all add: ends_exits)
  qed
  show ?thesis unfolding framed_export_and_poweroff_def
    by (rule ends_bind [OF q(1)], rule ends_bind [OF ws]) (use cut fin in \<open>auto split: sum.splits\<close>)
qed

lemma load_stream_ends:
  assumes "id_challenge ident = c" "id_run ident = r"
  shows "ends (line nfc c r unused) (load_stream nfc ident members) (\<lambda>_. line nfc c r loaded) (body_exit nfc)"
proof (cases "build_export_stream nfc members c r")
  case (Inl e)
  then show ?thesis
    by (auto simp: load_stream_def assms fail_def unused_reportable intro!: ends_exits exit_reportable ok_fault reasons_ok elim!: line_weaken)
next
  case (Inr stream)
  let ?L = "line nfc c r" and ?f = "\<lambda>u s. let (x, u') = load_success stream u in Some (x, u', s)"
  have ws: "ends (?L unused) (with_writer ?f) (\<lambda>x w. case x of Inl _ \<Rightarrow> ?L unused w | Inr _ \<Rightarrow> ?L loaded w) (\<lambda>e w. e \<noteq> Stopped \<and> ?L unused w)"
  proof (rule ends_with_writer)
    fix w u x u' s'
    assume w: "?L unused w" "w_writer w = Some u" "?f u (w_serial w) = Some (x, u', s')"
    then have ls: "load_success stream u = (x, u')" "s' = w_serial w" by (auto split: prod.splits)
    show "case x of Inl _ \<Rightarrow> ?L unused (w\<lparr>w_writer := Some u', w_serial := s'\<rparr>) | Inr _ \<Rightarrow> ?L loaded (w\<lparr>w_writer := Some u', w_serial := s'\<rparr>)"
    proof (cases x)
      case (Inl e)
      then have "u' = u" using ls(1) by (auto simp: load_success_def split: if_splits)
      then show ?thesis using w(1,2) ls(2) by (simp add: Inl line_def)
    next
      case x: (Inr y)
      then have u': "u' = u\<lparr>success := Some stream\<rparr>" using ls(1) by (auto simp: load_success_def split: if_splits)
      have "uart_reach c r u' s'" using lineE(1) [OF w(1,2)] ls by (auto intro: uart_reach.step uart_step.load)
      then show ?thesis using w(1,2) Inr lineE(2) [OF w(1,2)] by (auto simp: x line_def u' unused_def loaded_def)
    qed
  qed (auto dest: line_writer)
  have "ends (?L unused) (bindC (with_writer ?f) lift_error) (\<lambda>_. ?L loaded) (\<lambda>e w. e \<noteq> Stopped \<and> ?L unused w)"
    by (rule ends_bind [OF ws]) (auto simp: lift_error_def ends_def ret_def exits_def split: sum.splits)
  then show ?thesis unfolding load_stream_def assms Inr sum.case fail_def
    by (rule ends_catching) (auto intro!: ends_exits exit_reportable ok_fault reasons_ok elim!: line_weaken simp: unused_reportable)
qed

text \<open>The identity that preflight returns is the one of the command line, with the binding address.\<close>

lemma binding_identity: "parse_binding_record data boot = Inr ident \<Longrightarrow> id_challenge ident = id_challenge (boot_identity boot) \<and> id_run ident = id_run (boot_identity boot)"
  by (auto simp: parse_binding_record_def Let_def split: if_splits sum.splits json.splits)

lemma ends_any: "ends P m (\<lambda>_ _. True) (\<lambda>_ _. True)"
  by (simp add: ends_def split: sum.splits)

lemma ends_const: "(K \<Longrightarrow> ends (\<lambda>_. True) m Q E) \<Longrightarrow> ends (\<lambda>_. K) m Q E"
  by (auto simp: ends_def)

lemma ends_result: "(\<And>x. K \<Longrightarrow> ends (\<lambda>_. K) (f x) Q (\<lambda>_ _. True)) \<Longrightarrow> ends (\<lambda>_. K) (bindC m f) Q (\<lambda>_ _. True)"
  by (rule ends_bind [of _ _ "\<lambda>_ _. K"]) (auto simp: ends_def split: sum.splits)

lemma preflight_identity: "ends (\<lambda>_. True) (preflight boot) (\<lambda>(ident, _) _. id_challenge ident = id_challenge (boot_identity boot) \<and> id_run ident = id_run (boot_identity boot)) (\<lambda>_ _. True)"
  unfolding preflight_def
proof (rule ends_bind [OF ends_any], rule ends_bind)
  fix binding
  show "ends (\<lambda>_. True) (lift_fault (parse_binding_record binding boot))
     (\<lambda>ident _. id_challenge ident = id_challenge (boot_identity boot) \<and> id_run ident = id_run (boot_identity boot)) (\<lambda>_ _. True)"
    using binding_identity by (auto simp: lift_fault_def ends_def ret_def fail_def exits_def split: sum.splits)
qed (auto intro!: ends_result ends_ret simp: fail_def ends_exits)

lemma ends_then: "quiet m \<Longrightarrow> (\<And>x. ends (line nfc c r unused) (f x) Q (body_exit nfc)) \<Longrightarrow> ends (line nfc c r unused) (bindC m f) Q (body_exit nfc)"
  by (rule ends_bind [OF exit_quiet]) (simp_all add: unused_reportable)

lemma ends_fault: "map_of REASON_CODES reason \<noteq> None \<Longrightarrow> 0 \<le> p \<Longrightarrow> p \<le> 15 \<Longrightarrow> ends (line nfc c r unused) (fail (reason, p)) Q (body_exit nfc)"
  by (auto simp: fail_def intro!: ends_exits exit_reportable ok_fault elim!: line_weaken dest: unused_reportable)

lemma collect_and_export_ends:
  assumes "id_challenge ident = c" "id_run ident = r"
  shows "ends (line nfc c r unused) (collect_and_export nfc ident plan trace output) (\<lambda>_ _. False) (body_exit nfc)"
proof -
  have fin: "ends (line nfc c r unused) (bindC (load_stream nfc ident members) (\<lambda>_. framed_export_and_poweroff)) (\<lambda>_ _. False) (body_exit nfc)" for members
    by (rule ends_bind [OF load_stream_ends [OF assms] framed_export_ends])
  show ?thesis unfolding collect_and_export_def Let_def
    by (auto intro!: fin ends_then ends_fault quiets reasons_ok)
qed

lemma ends_and: "ends P m Q E \<Longrightarrow> ends (\<lambda>_. True) m R (\<lambda>_ _. True) \<Longrightarrow> ends P m (\<lambda>x w. R x w \<and> Q x w) E"
  unfolding ends_def by (fastforce split: sum.splits)

lemma ends_never: "ends (\<lambda>_. False) m Q E"
  by (simp add: ends_def)

lemma boot_faults: "parse_boot_inputs argv cmdline = Inl f \<Longrightarrow> ok_exit (Fault (fst f) (snd f))"
  using ok_fault reasons_ok(1) by (auto simp: parse_boot_inputs_def Let_def split: if_splits option.splits list.splits sum.splits)

lemma silent_exit: "ok_exit e \<Longrightarrow> silent w \<Longrightarrow> body_exit nfc e w"
  by (cases e) (simp_all add: body_exit_def)

text \<open>The stages of \<open>main\<close> before it has a writer.\<close>

definition named :: "bytes \<Rightarrow> bytes \<Rightarrow> world \<Rightarrow> bool" where
  "named c r w \<longleftrightarrow> silent w \<and> identified c r w"

lemma named_on_line: "on_line (named c r)"
  by (auto simp: on_line_def same_line_def named_def silent_def identified_def)

lemma fresh_line: "named c r w \<Longrightarrow> w_usable w \<Longrightarrow> new_writer c r = Inr u \<Longrightarrow> line nfc c r unused (w\<lparr>w_writer := Some u\<rparr>)"
  by (auto simp: line_def named_def silent_def unused_def new_writer_def require_identity_def res_simps intro!: uart_reach.fresh split: if_splits)

lemma line_identity: "line nfc c r A w \<Longrightarrow> id_challenge ident = c \<Longrightarrow> id_run ident = r \<Longrightarrow> line nfc c r A (w\<lparr>w_identity := Some ident\<rparr>)"
  by (auto simp: line_def identified_def)

lemma after_writer_ends:
  assumes "id_challenge (boot_identity boot) = c" "id_run (boot_identity boot) = r"
  shows "ends (line nfc c r unused) (bindC (do_call Verify_pid_fds) (\<lambda>_. bindC (preflight boot) (\<lambda>(ident, model, plan).
     bindC (\<lambda>w. ret () (w\<lparr>w_identity := Some ident\<rparr>)) (\<lambda>_. bindC (run_controller ident model) (\<lambda>(trace, output).
     bindC (collect_and_export nfc ident plan trace output) (\<lambda>_. fail (FLR_EXPORT, 15))))))) (\<lambda>_ _. False) (body_exit nfc)"
proof (rule ends_then [OF quiet_calls(1)], rule ends_bind)
  show "ends (line nfc c r unused) (preflight boot) (\<lambda>x w. (case x of (ident, _) \<Rightarrow> id_challenge ident = c \<and> id_run ident = r) \<and> line nfc c r unused w) (body_exit nfc)"
    using ends_and [OF exit_quiet [OF quiet_preflight unused_reportable] preflight_identity [of boot]] by (simp add: assms split_def)
next
  fix x :: "ControllerIdentity \<times> bytes \<times> json"
  obtain ident model plan where x: "x = (ident, model, plan)" by (cases x) auto
  have "ends (line nfc c r unused) (bindC (\<lambda>w. ret () (w\<lparr>w_identity := Some ident\<rparr>)) (\<lambda>_. bindC (run_controller ident model) (\<lambda>(trace, output).
     bindC (collect_and_export nfc ident plan trace output) (\<lambda>_. fail (FLR_EXPORT, 15))))) (\<lambda>_ _. False) (body_exit nfc)"
    if i: "id_challenge ident = c" "id_run ident = r"
  proof (rule ends_bind [OF ends_step [where Q = "\<lambda>_. line nfc c r unused"]])
    show "line nfc c r unused (w\<lparr>w_identity := Some ident\<rparr>)" if "line nfc c r unused w" for w using line_identity that i .
    show "ends (line nfc c r unused) (bindC (run_controller ident model) (\<lambda>(trace, output).
     bindC (collect_and_export nfc ident plan trace output) (\<lambda>_. fail (FLR_EXPORT, 15)))) (\<lambda>_ _. False) (body_exit nfc)"
      by (rule ends_then [OF quiet_run_controller]) (auto intro!: ends_bind [OF collect_and_export_ends [OF i]] ends_never)
  qed
  then show "ends (\<lambda>w. (case x of (ident, _) \<Rightarrow> id_challenge ident = c \<and> id_run ident = r) \<and> line nfc c r unused w)
     (case x of (ident, model, plan) \<Rightarrow> bindC (\<lambda>w. ret () (w\<lparr>w_identity := Some ident\<rparr>)) (\<lambda>_. bindC (run_controller ident model) (\<lambda>(trace, output).
     bindC (collect_and_export nfc ident plan trace output) (\<lambda>_. fail (FLR_EXPORT, 15))))) (\<lambda>_ _. False) (body_exit nfc)"
    by (auto simp: x ends_def)
qed

lemma writer_ends:
  assumes "ends (line nfc c r unused) (f ()) Q (body_exit nfc)"
  shows "ends (\<lambda>w. w_usable w \<and> named c r w) (bindC (lift_error (new_writer c r)) (\<lambda>u. bindC (\<lambda>w. ret () (w\<lparr>w_writer := Some u\<rparr>)) f)) Q (body_exit nfc)"
proof (rule ends_bind [where R = "\<lambda>u w. new_writer c r = Inr u \<and> w_usable w \<and> named c r w"])
  show "ends (\<lambda>w. w_usable w \<and> named c r w) (lift_error (new_writer c r)) (\<lambda>u w. new_writer c r = Inr u \<and> w_usable w \<and> named c r w) (body_exit nfc)"
    by (auto simp: lift_error_def ends_def ret_def exits_def silent_exit named_def split: sum.splits)
  show "ends (\<lambda>w. new_writer c r = Inr u \<and> w_usable w \<and> named c r w) (bindC (\<lambda>w. ret () (w\<lparr>w_writer := Some u\<rparr>)) f) Q (body_exit nfc)" for u
    by (rule ends_bind [OF ends_step [where Q = "\<lambda>_. line nfc c r unused"]]) (use assms fresh_line in auto)
qed

lemma diag_body_ends: "ends silent (diag_body nfc argv) (\<lambda>_ _. False) (body_exit nfc)"
  unfolding diag_body_def
  apply (rule ends_bind [OF ends_quiet [OF quiet_calls(2) line_on_line(2) silent_exit]], assumption, assumption)
  apply (rule ends_bind [OF ends_quiet [OF quiet_lift_fault [OF boot_faults] line_on_line(2) silent_exit]], assumption, assumption, assumption)
  subgoal for cmdline boot
    apply (rule ends_bind [OF ends_step [where Q = "\<lambda>_. named (id_challenge (boot_identity boot)) (id_run (boot_identity boot))"]])
     apply (simp add: named_def silent_def identified_def)
    apply (rule ends_bind [OF ends_quiet [OF quiet_calls(1) named_on_line]])
     apply (simp add: silent_exit named_def)
    apply (rule ends_bind [OF ends_step [where Q = "\<lambda>_ w. w_usable w \<and> named (id_challenge (boot_identity boot)) (id_run (boot_identity boot)) w"]])
     apply (simp add: named_def silent_def identified_def)
    apply (rule writer_ends)
    apply (rule after_writer_ends [OF refl refl])
    done
  done

text \<open>What is on the line when a fault has been reported, as far as the line allows.\<close>

definition told :: "(ustr \<Rightarrow> ustr) \<Rightarrow> world \<Rightarrow> bool" where
  "told nfc w \<longleftrightarrow> silent w \<or> (\<exists>c r. line nfc c r reported w)"

lemma told_on_line: "on_line (told nfc)"
  using line_on_line(1) line_on_line(2) unfolding on_line_def told_def by blast

lemma report_ends:
  assumes "ok_exit (Fault reason phase)"
  shows "ends (line nfc c r reportable) (bindC read_clock (\<lambda>t. bindC (with_writer (emit_failure reason phase (t + 5 * SECOND))) (\<lambda>_. ret ()))) (\<lambda>_. told nfc) E"
proof (rule ends_bind)
  show "ends (line nfc c r reportable) read_clock (\<lambda>_. line nfc c r reportable) E" by (simp add: ends_def read_clock_def Let_def line_def)
  show "ends (line nfc c r reportable) (bindC (with_writer (emit_failure reason phase (t + 5 * SECOND))) (\<lambda>_. ret ())) (\<lambda>_. told nfc) E" for t
  proof (rule ends_bind)
    show "ends (line nfc c r reportable) (with_writer (emit_failure reason phase (t + 5 * SECOND))) (\<lambda>_. line nfc c r reported) E"
      by (rule ends_with_writer) (auto intro: emit_failure_line [OF _ _ _ assms] dest: line_writer)
  qed (auto intro!: ends_ret simp: told_def)
qed

lemma fail_stop_ends:
  assumes "ok_exit (Fault reason phase)"
  shows "ends (\<lambda>w. silent w \<or> (\<exists>c r. line nfc c r reportable w)) (fail_stop reason phase) (\<lambda>_. told nfc) (\<lambda>e w. e = Stopped \<and> told nfc w)"
  unfolding fail_stop_def
proof (rule ends_bind)
  let ?m = "\<lambda>w. if w_identity w \<noteq> None \<and> w_usable w \<and> w_writer w \<noteq> None
        then bindC read_clock (\<lambda>t. bindC (with_writer (emit_failure reason phase (t + 5 * SECOND))) (\<lambda>_. ret ())) w else ret () w"
  let ?E = "\<lambda>e w. e = Stopped \<and> told nfc w"
  have "ends silent ?m (\<lambda>_. told nfc) ?E" by (auto simp: ends_def silent_def told_def ret_def)
  moreover have "ends (line nfc c r reportable) ?m (\<lambda>_. told nfc) ?E" for c r
    using report_ends [OF assms, of nfc c r ?E] by (auto simp: ends_def line_def identified_def)
  ultimately show "ends (\<lambda>w. silent w \<or> (\<exists>c r. line nfc c r reportable w)) ?m (\<lambda>_. told nfc) ?E" unfolding ends_def by blast
  show "ends (told nfc) (bindC request_poweroff (\<lambda>_. ret 1)) (\<lambda>_. told nfc) ?E"
    by (rule ends_bind [OF ends_poweroff [OF told_on_line]]) (auto intro: ends_ret)
qed

text \<open>How a run of \<open>main\<close> ends: with a completed export when the machine is off, or after a report.\<close>

definition run_over :: "(ustr \<Rightarrow> ustr) \<Rightarrow> world \<Rightarrow> bool" where
  "run_over nfc w \<longleftrightarrow> told nfc w \<or> (\<exists>c r. line nfc c r (\<lambda>u. poisoned u \<or> finished u) w)"

lemma diag_main_ends: "ends silent (diag_main nfc argv) (\<lambda>_. told nfc) (\<lambda>e w. e = Stopped \<and> run_over nfc w)"
  unfolding diag_main_def
proof (rule ends_catching)
  show "ends silent (diag_body nfc argv) (\<lambda>_. told nfc) (body_exit nfc)" by (rule ends_weaken [OF diag_body_ends]) simp_all
next
  fix e assume e: "e \<noteq> Stopped"
  have fs: "ends (body_exit nfc e) (fail_stop reason phase) (\<lambda>_. told nfc) (\<lambda>e w. e = Stopped \<and> run_over nfc w)" if "ok_exit (Fault reason phase)" for reason phase
    by (rule ends_weaken [OF fail_stop_ends [OF that, of nfc]]) (use e in \<open>auto simp: body_exit_def run_over_def\<close>)
  show "ends (body_exit nfc e) (case e of Fault reason phase \<Rightarrow> fail_stop reason phase
   | Error \<Rightarrow> (\<lambda>w. fail_stop (if w_identity w = None then FLR_INPUT else FLR_EXPORT) 1 w) | _ \<Rightarrow> fail_stop FLR_EXPORT 15) (\<lambda>_. told nfc) (\<lambda>e w. e = Stopped \<and> run_over nfc w)"
  proof (cases e)
    case (Fault reason phase)
    show ?thesis
    proof (cases "ok_exit e")
      case True
      then show ?thesis using fs [of reason phase] by (simp add: Fault)
    next
      case False
      then show ?thesis by (simp add: ends_def body_exit_def Fault)
    qed
  next
    case Error
    show ?thesis using fs [of FLR_INPUT 1] fs [of FLR_EXPORT 1] by (auto simp: Error ends_def ok_fault reasons_ok)
  qed (use e fs in \<open>simp_all add: ok_fault reasons_ok\<close>)
next
  show "Stopped = Stopped \<and> run_over nfc w" if "body_exit nfc Stopped w" for w using that by (simp add: body_exit_def run_over_def)
qed

section \<open>What the observer learns\<close>

lemma built_parses:
  assumes "nfc_ascii nfc" "build_export_stream nfc members c r = Inr stream"
  shows "parse_export_stream nfc stream (Some c) (Some r) = Inr (bundle_of (map (\<lambda>n. the (map_of members n)) PAYLOAD_MEMBER_NAMES) c r)"
proof -
  let ?ps = "map (\<lambda>n. the (map_of members n)) PAYLOAD_MEMBER_NAMES"
  have look: "the (map_of (zip PAYLOAD_MEMBER_NAMES ?ps) n) = the (map_of members n)" if "n \<in> set PAYLOAD_MEMBER_NAMES" for n
    using that by (simp add: Map.map_of_zip_map)
  have "build_members nfc (zip PAYLOAD_MEMBER_NAMES ?ps) names p = build_members nfc members names p" if "set names \<subseteq> set PAYLOAD_MEMBER_NAMES" for names p
    using that by (induction names arbitrary: p) (simp_all add: look cong: if_cong)
  then have "build_export_stream nfc (zip PAYLOAD_MEMBER_NAMES ?ps) c r = Inr stream"
    using assms(2) by (simp add: build_export_stream_def map_fst_zip split: if_splits)
  then have "stream_fits ?ps c r" "stream = stream_bytes ?ps c r" using build_stream [OF assms(1), of ?ps c r stream] by simp_all
  then show ?thesis using parse_stream [OF assms(1)] by blast
qed

text \<open>The two things an observer can be told of a run: a failure, or the export of a list of members that the controller had loaded.\<close>

definition observed_failure :: "UartObservation \<Rightarrow> bool" where
  "observed_failure obs \<longleftrightarrow> obs_status obs \<in> {Standalone_failure, Invalidated_result} \<and> obs_exported obs = None \<and> obs_failure obs \<noteq> None"

definition observed_export :: "(ustr \<Rightarrow> ustr) \<Rightarrow> bytes \<Rightarrow> bytes \<Rightarrow> writer \<Rightarrow> UartObservation \<Rightarrow> bool" where
  "observed_export nfc c r u obs \<longleftrightarrow> obs_status obs = Complete_result \<and> obs_failure obs = None \<and> (\<exists>members stream. success u = Some stream \<and>
     build_export_stream nfc members c r = Inr stream \<and> obs_exported obs = Some (bundle_of (map (\<lambda>n. the (map_of members n)) PAYLOAD_MEMBER_NAMES) c r))"

lemma line_observed:
  assumes "line nfc c r A w" "nfc_ascii nfc" "w_writer w = Some u" "\<not> poisoned u" "success_complete_flag u \<or> terminal u"
    and "data = pre @ sent (w_serial w) @ replicate k (CHR 0x00)" "find_sub MARKER data = Some (length pre)" "length pre \<le> MAX_PREAMBLE_BYTES"
    and "length data \<le> MAX_RAW_SNAPSHOT_BYTES"
  shows "\<exists>obs. observe_uart_blob nfc data c r = Inr obs \<and>
    (if terminal u then observed_failure obs
     else \<not> invalidated u \<longrightarrow> observed_export nfc c r u obs)"
proof -
  note l = lineE [OF assms(1,3)]
  obtain qs fl where t: "transcript_of u qs fl" and snt: "sent (w_serial w) = wires c r 0 (transcript qs (invalidated u) fl)"
    using l(3) assms(4) by (auto simp: l(4,5) elim: uart_inv_cleanE)
  note tr = writer_transcript [OF t assms(5), unfolded l(4,5)]
  have len: "length c = 32" "length r = 32" using t l(4,5) by (simp_all add: transcript_of_def)
  have ex: "qs \<noteq> [] \<Longrightarrow> \<exists>b. parse_export_stream nfc (concat qs) (Some c) (Some r) = Inr b" using tr(7) l(6) built_parses [OF assms(2)] by blast
  obtain obs where obs: "observe_uart_blob nfc data c r = Inr obs" "obs_status obs = outcome (invalidated u) fl" "reports nfc c r qs (invalidated u) fl obs"
    using observe_transcript [OF len assms(6) [unfolded snt] assms(7-9) tr(1-4) ex tr(5,6,9)] by blast
  have f: "terminal u = (fl \<noteq> None)" using t by (simp add: transcript_of_def failure_part_def)
  have "observed_failure obs" if "terminal u"
    using that obs(2,3) f by (auto simp: observed_failure_def outcome_def reports_def split: if_splits option.splits)
  moreover have "observed_export nfc c r u obs" if v: "\<not> terminal u" "\<not> invalidated u"
  proof -
    have "qs \<noteq> []" using tr(2) f v by (auto simp: transcript_def)
    then obtain members where m: "success u = Some (concat qs)" "build_export_stream nfc members c r = Inr (concat qs)" using tr(7) l(6) by blast
    then show ?thesis using obs(2,3) f v built_parses [OF assms(2) m(2)] by (auto simp: observed_export_def outcome_def reports_def)
  qed
  ultimately show ?thesis using obs(1) by (intro exI [of _ obs]) simp
qed

text \<open>
  C15. What an off-box observer learns from any run of the diagnostic controller: whatever the environment answers, when \<open>main\<close> has
  ended and its writer is not poisoned, a capture of the serial line behind a preamble without the marker, filled up with zeros,
  is observed as a failure with its terminal or as the export of members that the controller had loaded, under the challenge and
  the run of the controller; it is the failure whenever \<open>main\<close> is still there to return, so that a complete result is only
  ever read from a machine that is off.
\<close>

theorem diag_run_observed:
  assumes "diag_main nfc argv w0 = Some (x, w)" "w_writer w0 = None" "sent (w_serial w0) = []" "nfc_ascii nfc" "w_writer w = Some u" "\<not> poisoned u"
    and "data = pre @ sent (w_serial w) @ replicate k (CHR 0x00)" "find_sub MARKER data = Some (length pre)" "length pre \<le> MAX_PREAMBLE_BYTES"
    and "length data \<le> MAX_RAW_SNAPSHOT_BYTES"
  shows "\<exists>ident obs. w_identity w = Some ident \<and> observe_uart_blob nfc data (id_challenge ident) (id_run ident) = Inr obs \<and>
    (observed_failure obs \<or> x = Inl Stopped \<and> observed_export nfc (id_challenge ident) (id_run ident) u obs)"
proof -
  have "case x of Inr _ \<Rightarrow> told nfc w | Inl e \<Rightarrow> e = Stopped \<and> run_over nfc w"
    using diag_main_ends [of nfc argv] assms(1-3) by (auto simp: ends_def silent_def split: sum.splits)
  then consider c r where "line nfc c r reported w" | c r where "x = Inl Stopped" "line nfc c r (\<lambda>u. poisoned u \<or> finished u) w"
    using assms(5) by (cases x) (auto simp: told_def run_over_def silent_def)
  then obtain c r A where l: "line nfc c r A w" and u: "terminal u \<or> x = Inl Stopped \<and> finished u"
  proof cases
    case (1 c r)
    then show ?thesis using that [OF 1] lineE(2) [OF 1 assms(5)] assms(6) by (simp add: reported_def)
  next
    case (2 c r)
    then show ?thesis using that [OF 2(2)] lineE(2) [OF 2(2) assms(5)] assms(6) by simp
  qed
  then have fl: "success_complete_flag u \<or> terminal u" by (auto simp: finished_def)
  obtain obs where obs: "observe_uart_blob nfc data c r = Inr obs" "if terminal u then observed_failure obs else \<not> invalidated u \<longrightarrow> observed_export nfc c r u obs"
    using line_observed [OF l assms(4-6) fl assms(7-10)] by blast
  obtain ident where "w_identity w = Some ident" "id_challenge ident = c" "id_run ident = r" using l by (auto simp: line_def identified_def)
  then show ?thesis using obs u by (intro exI [of _ ident] exI [of _ obs]) (auto simp: finished_def split: if_splits)
qed

text \<open>A run whose platform refuses the descriptors: its fault is reported and the poweroff returns.\<close>

definition run_data :: string where "run_data = ''00000000-0000-0000-0000-00000000000a''"
definition run_hash :: string where "run_hash = ''00000000-0000-0000-0000-00000000000b''"
definition run_binding :: string where "run_binding = ''00000000-0000-0000-0000-00000000000c''"

lemmas run_uuid_defs = run_data_def run_hash_def run_binding_def

definition run_cmdline :: bytes where
  "run_cmdline = cmdline_text [run_data, run_hash, replicate 64 (CHR ''0''), to_hex example_c, to_hex example_r, to_hex example_c, run_binding]"

definition run_argv :: "string list" where
  "run_argv = [CONTROLLER_PATH, ''sol_spp_diag.target_profile='' @ TARGET_PROFILE, ''sol_spp_diag.binding_partuuid='' @ run_binding]"

definition run_boot :: BootInputs where
  "run_boot = \<lparr>root_data_partuuid = run_data, root_hash_partuuid = run_hash, root_hash = replicate 64 (CHR ''0''), binding_partuuid = run_binding,
     boot_identity = \<lparr>id_challenge = example_c, id_run = example_r, id_plan = example_c, id_binding = []\<rparr>\<rparr>"

lemma match_parts_text:
  "list_all2 (\<lambda>(lit, n, ok) g. length g = n \<and> list_all ok g) ps gs \<Longrightarrow> match_parts ps (concat (map2 (\<lambda>(lit, _) g. lit @ g) ps gs)) = Some gs"
  by (induction rule: list_all2_induct) (auto simp: starts_with_def)

lemma hex_ascii: "list_all lower_hex s \<Longrightarrow> list_all (\<lambda>c. byte_val c < 128) s"
  by (auto simp: list_all_iff lower_hex_def)

lemma rstrip_last: "last s \<noteq> CHR 0x0D \<Longrightarrow> last s \<noteq> CHR 0x0A \<Longrightarrow> rstrip_eol s = s"
  by (cases s rule: rev_cases) (simp_all add: rstrip_eol_def)

lemma run_fields: "list_all2 (\<lambda>(lit, n, ok) g. length g = n \<and> list_all ok g) CMDLINE_PARTS
    [run_data, run_hash, replicate 64 (CHR ''0''), to_hex example_c, to_hex example_r, to_hex example_c, run_binding]"
  using example_lengths to_hex_lower by (simp add: CMDLINE_PARTS_def run_uuid_defs uuid_char_def lower_hex_def list_all_iff)

lemma run_match: "match_parts CMDLINE_PARTS run_cmdline =
    Some [run_data, run_hash, replicate 64 (CHR ''0''), to_hex example_c, to_hex example_r, to_hex example_c, run_binding]"
  unfolding run_cmdline_def cmdline_text_def by (rule match_parts_text [OF run_fields])

lemma list_all_replicate: "P x \<Longrightarrow> list_all P (replicate n x)"
  by (simp add: list_all_iff)

lemma run_ascii: "list_all (\<lambda>c. byte_val c < 128) run_cmdline"
  by (simp add: run_cmdline_def cmdline_text_def CMDLINE_PARTS_def TARGET_PROFILE_def run_uuid_defs list_all_replicate hex_ascii [OF to_hex_lower])

lemma run_strip: "rstrip_eol run_cmdline = run_cmdline"
  by (rule rstrip_last) (simp_all add: run_cmdline_def cmdline_text_def CMDLINE_PARTS_def run_uuid_defs)

lemma run_uuids_ok: "partuuid_ok run_data" "partuuid_ok run_hash" "partuuid_ok run_binding" "distinct [run_data, run_hash, run_binding]"
  by (simp_all add: run_uuid_defs partuuid_ok_def lower_hex_def upt_rec)

lemma run_inputs: "parse_boot_inputs run_argv run_cmdline = Inr run_boot"
  using run_uuids_ok
  by (simp add: parse_boot_inputs_def run_ascii run_strip run_match Let_def run_argv_def run_boot_def run_cmdline_def [symmetric])

text \<open>The writer of this run, its report, and the environment.\<close>

definition run_writer :: writer where
  "run_writer = \<lparr>challenge = example_c, run_identity = example_r, next_sequence = 0, pending_record = None, pending_offset = 0, poisoned = False, success = None,
     success_offset = 0, success_complete_flag = False, invalidated = False, terminal = False\<rparr>"

definition run_report :: "string \<times> bytes" where
  "run_report = (KIND_FAILURE, case encode_failure_terminal FLR_EXPORT 1 example_c example_r of Inr t \<Rightarrow> t)"

definition run_serial :: serial where
  "run_serial = \<lparr>clocks = [0, 0, 0], waits = [Ret True], writes = [Ret (int (length (next_wire run_writer run_report)))], queues = [Ret 0], sent = []\<rparr>"

definition run_world :: world where
  "run_world = \<lparr>w_answer = (\<lambda>l c. case c of Read_file path cap \<Rightarrow> Data run_cmdline | Configure_uart \<Rightarrow> Ok | _ \<Rightarrow> Raised), w_clock = (\<lambda>_. 0), w_log = [],
     w_serial = run_serial, w_writer = None, w_identity = None, w_usable = False\<rparr>"

lemma run_report_ok: "encode_failure_terminal FLR_EXPORT 1 example_c example_r = Inr (snd run_report)" "frame_ok run_report"
proof -
  obtain t where t: "encode_failure_terminal FLR_EXPORT 1 example_c example_r = Inr t"
    using reasons_ok(9) example_lengths by (auto simp: encode_failure_terminal_def Let_def)
  then show "encode_failure_terminal FLR_EXPORT 1 example_c example_r = Inr (snd run_report)" by (simp add: run_report_def)
  show "frame_ok run_report" using terminal_length [OF t] t by (simp add: run_report_def frame_ok_def)
qed

lemma run_sends: "emit_failure FLR_EXPORT 1 (5 * SECOND) run_writer run_serial =
    Some (Inr (Inr ()), run_writer\<lparr>next_sequence := 1, terminal := True\<rparr>, \<lparr>clocks = [], waits = [], writes = [], queues = [], sent = next_wire run_writer run_report\<rparr>)"
proof -
  have "send_record (fst run_report) (snd run_report) (5 * SECOND) run_writer run_serial = Some (Inr (), run_writer\<lparr>next_sequence := 1\<rparr>,
      \<lparr>clocks = [], waits = [], writes = [], queues = [], sent = next_wire run_writer run_report\<rparr>)"
    using healthy_send [of run_writer run_report "5 * SECOND" "[]"] run_report_ok(2) example_lengths
    by (simp add: run_serial_def run_writer_def MAX_FRAMES_def SECOND_def)
  moreover have "fst run_report = KIND_FAILURE" by (simp add: run_report_def)
  moreover have "can_emit_failure run_writer" "challenge run_writer = example_c" "run_identity run_writer = example_r"
    by (simp_all add: can_emit_failure_def empty_writer_def run_writer_def)
  ultimately show ?thesis using run_report_ok(1) by (simp add: emit_failure_def then_call_def)
qed

definition run_final :: "call_log \<Rightarrow> world" where
  "run_final l = run_world\<lparr>w_log := l, w_identity := Some (boot_identity run_boot), w_usable := True, w_writer := Some (run_writer\<lparr>next_sequence := 1, terminal := True\<rparr>),
     w_serial := \<lparr>clocks = [], waits = [], writes = [], queues = [], sent = next_wire run_writer run_report\<rparr>\<rparr>"

lemma run_body: "\<exists>l. diag_body id run_argv run_world = Some (Inl Error, run_world\<lparr>w_log := l, w_identity := Some (boot_identity run_boot), w_usable := True, w_writer := Some run_writer\<rparr>)"
proof -
  have "new_writer (id_challenge (boot_identity run_boot)) (id_run (boot_identity run_boot)) = Inr run_writer"
    using example_lengths by (simp add: run_boot_def new_writer_def require_identity_def run_writer_def)
  then show ?thesis
    by (simp add: diag_body_def bindC_def get_bytes_def do_call_def ask_def ret_def exits_def lift_fault_def lift_error_def run_inputs Let_def run_world_def)
qed

lemma run_main: "\<exists>l. diag_main id run_argv run_world = Some (Inr 1, run_final l)"
proof -
  obtain l where "diag_body id run_argv run_world = Some (Inl Error, run_world\<lparr>w_log := l, w_identity := Some (boot_identity run_boot), w_usable := True, w_writer := Some run_writer\<rparr>)"
    using run_body by blast
  then show ?thesis using run_sends
    by (simp add: diag_main_def catching_def fail_stop_def bindC_def read_clock_def with_writer_def request_poweroff_def ask_def ret_def Let_def run_final_def run_world_def)
qed

theorem diag_run_observed_witness:
  "\<exists>l obs. diag_main id run_argv run_world = Some (Inr 1, run_final l) \<and>
    observe_uart_blob id (''boot'' @ next_wire run_writer run_report @ [CHR 0x00]) example_c example_r = Inr obs \<and> observed_failure obs"
proof -
  obtain l where l: "diag_main id run_argv run_world = Some (Inr 1, run_final l)" using run_main by blast
  have start: "w_writer run_world = None" "sent (w_serial run_world) = []" by (simp_all add: run_world_def run_serial_def)
  have u: "w_writer (run_final l) = Some (run_writer\<lparr>next_sequence := 1, terminal := True\<rparr>)" "\<not> poisoned (run_writer\<lparr>next_sequence := 1, terminal := True\<rparr>)"
    by (simp_all add: run_final_def run_writer_def)
  have d: "''boot'' @ next_wire run_writer run_report @ [CHR 0x00] = ''boot'' @ sent (w_serial (run_final l)) @ replicate 1 (CHR 0x00)" by (simp add: run_final_def)
  have fs: "find_sub MARKER (''boot'' @ next_wire run_writer run_report @ [CHR 0x00]) = Some (length ''boot'')" unfolding next_wire_def by (rule boot_find)
  have "length (next_wire run_writer run_report) \<le> 384"
    using small_wire [of example_c example_r 0 "fst run_report" "snd run_report"] run_report_ok(2) example_lengths
    by (simp add: next_wire_def run_writer_def run_report_def MAX_FRAMES_def)
  then have lim: "length ''boot'' \<le> MAX_PREAMBLE_BYTES" "length (''boot'' @ next_wire run_writer run_report @ [CHR 0x00]) \<le> MAX_RAW_SNAPSHOT_BYTES"
    by (simp_all add: MAX_PREAMBLE_BYTES_def MAX_RAW_SNAPSHOT_BYTES_def)
  have "w_identity (run_final l) = Some (boot_identity run_boot)" "id_challenge (boot_identity run_boot) = example_c" "id_run (boot_identity run_boot) = example_r"
    by (simp_all add: run_final_def run_boot_def)
  with diag_run_observed [OF l start nfc_id u d fs lim] l show ?thesis by auto
qed

end
