(* ===== verification/Posix_Acl.thy ===== *)
theory Posix_Acl
  imports Struct_Pack
begin

text \<open>
  The codec of POSIX access lists in extended attributes, \<open>conf_proc_acl.py\<close>: \<open>encode_acl\<close>,
  \<open>decode_acl\<close> and the checks they share. The error of a check is its message. The theorem gives the
  lists that are accepted, which always have a mask.
\<close>

section \<open>Entries\<close>

definition ACL_VERSION :: nat where "ACL_VERSION = 2"
definition ACL_USER_OBJ :: int where "ACL_USER_OBJ = 0x01"
definition ACL_USER :: int where "ACL_USER = 0x02"
definition ACL_GROUP_OBJ :: int where "ACL_GROUP_OBJ = 0x04"
definition ACL_GROUP :: int where "ACL_GROUP = 0x08"
definition ACL_MASK :: int where "ACL_MASK = 0x10"
definition ACL_OTHER :: int where "ACL_OTHER = 0x20"
definition ACL_UNDEFINED_ID :: int where "ACL_UNDEFINED_ID = 0xFFFFFFFF"
definition ACL_ENTRY_SIZE :: nat where "ACL_ENTRY_SIZE = 8"

lemmas acl_defs = ACL_USER_OBJ_def ACL_USER_def ACL_GROUP_OBJ_def ACL_GROUP_def ACL_MASK_def ACL_OTHER_def ACL_UNDEFINED_ID_def

definition ACL_ALLOWED_TAGS :: "int list" where
  "ACL_ALLOWED_TAGS = [ACL_USER_OBJ, ACL_USER, ACL_GROUP_OBJ, ACL_GROUP, ACL_MASK, ACL_OTHER]"

record AclEntry =
  acl_tag :: int
  acl_perm :: int
  acl_qualifier :: int

section \<open>Validation\<close>

definition validate_entry :: "AclEntry \<Rightarrow> string + unit" where
  "validate_entry e =
     (if acl_tag e \<notin> set ACL_ALLOWED_TAGS then Inl ''invalid POSIX ACL tag''
      else if \<not> (0 \<le> acl_perm e \<and> acl_perm e \<le> 7) then Inl ''POSIX ACL permission must be between 0 and 7''
      else if \<not> (0 \<le> acl_qualifier e \<and> acl_qualifier e \<le> ACL_UNDEFINED_ID) then Inl ''invalid POSIX ACL qualifier''
      else if acl_tag e \<in> {ACL_USER, ACL_GROUP} then
        (if acl_qualifier e = ACL_UNDEFINED_ID then Inl ''named POSIX ACL entry requires a qualifier'' else Inr ())
      else if acl_qualifier e \<noteq> ACL_UNDEFINED_ID then Inl ''base POSIX ACL entry requires undefined qualifier''
      else Inr ())"

fun validate_each :: "AclEntry list \<Rightarrow> string + unit" where
  "validate_each [] = Inr ()"
| "validate_each (e # es) = bindE (validate_entry e) (\<lambda>_. validate_each es)"

text \<open>The loop of \<open>_consume_named\<close> with its variable \<open>previous\<close>.\<close>

function consume_loop :: "AclEntry list \<Rightarrow> nat \<Rightarrow> int \<Rightarrow> int \<Rightarrow> string + nat" where
  "consume_loop entries position tag previous =
     (if position < length entries \<and> acl_tag (entries ! position) = tag then
        (let qualifier = acl_qualifier (entries ! position) in
         if qualifier \<le> previous then Inl ''named POSIX ACL qualifiers must be sorted uniquely''
         else consume_loop entries (position + 1) tag qualifier)
      else Inr position)"
  by pat_completeness auto
termination
  by (relation "measure (\<lambda>(entries, position, tag, previous). length entries - position)") auto

declare consume_loop.simps [simp del]

definition consume_named :: "AclEntry list \<Rightarrow> nat \<Rightarrow> int \<Rightarrow> string + nat" where
  "consume_named entries position tag = consume_loop entries position tag (- 1)"

definition validate_end :: "AclEntry list \<Rightarrow> nat \<Rightarrow> string + unit" where
  "validate_end entries position =
     (if position + 1 \<noteq> length entries \<or> acl_tag (entries ! position) \<noteq> ACL_OTHER then Inl ''POSIX ACL must end with OTHER'' else Inr ())"

definition validate_entries :: "AclEntry list \<Rightarrow> string + unit" where
  "validate_entries entries =
     (if entries = [] then Inl ''POSIX ACL must be a non-empty list''
      else bindE (validate_each entries) (\<lambda>_.
        if acl_tag (entries ! 0) \<noteq> ACL_USER_OBJ then Inl ''POSIX ACL must start with USER_OBJ''
        else bindE (consume_named entries 1 ACL_USER) (\<lambda>position.
          if position \<ge> length entries \<or> acl_tag (entries ! position) \<noteq> ACL_GROUP_OBJ then Inl ''POSIX ACL requires GROUP_OBJ after named users''
          else let named_group_start = position + 1 in
            bindE (consume_named entries named_group_start ACL_GROUP) (\<lambda>position.
              let has_named_entries = position > 1 \<or> position > named_group_start in
              if position < length entries \<and> acl_tag (entries ! position) = ACL_MASK then validate_end entries (position + 1)
              else if has_named_entries then Inl ''extended POSIX ACL requires MASK''
              else validate_end entries position))))"

section \<open>The codec\<close>

definition pack_entry :: "AclEntry \<Rightarrow> bytes" where
  "pack_entry e = to_le 2 (nat (acl_tag e)) @ to_le 2 (nat (acl_perm e)) @ to_le 4 (nat (acl_qualifier e))"

definition unpack_entry :: "bytes \<Rightarrow> AclEntry" where
  "unpack_entry b = (let f = unpack [2, 2, 4] b in \<lparr>acl_tag = int (le_nat (f ! 0)), acl_perm = int (le_nat (f ! 1)), acl_qualifier = int (le_nat (f ! 2))\<rparr>)"

definition encode_acl :: "AclEntry list \<Rightarrow> string + bytes" where
  "encode_acl entries = bindE (validate_entries entries) (\<lambda>_. Inr (to_le 4 ACL_VERSION @ concat (map pack_entry entries)))"

definition decode_acl :: "bytes \<Rightarrow> string + AclEntry list" where
  "decode_acl data =
     (if length data < 4 \<or> (length data - 4) mod ACL_ENTRY_SIZE \<noteq> 0 then Inl ''invalid POSIX ACL xattr length''
      else if le_nat (take 4 data) \<noteq> ACL_VERSION then Inl ''unsupported POSIX ACL version''
      else let entries = map (\<lambda>i. unpack_entry (pslice (4 + ACL_ENTRY_SIZE * i) (4 + ACL_ENTRY_SIZE * i + ACL_ENTRY_SIZE) data)) [0..<(length data - 4) div ACL_ENTRY_SIZE] in
        bindE (validate_entries entries) (\<lambda>_. Inr entries))"

section \<open>The lists that are accepted\<close>

definition entry_ok :: "AclEntry \<Rightarrow> bool" where
  "entry_ok e \<longleftrightarrow> acl_tag e \<in> set ACL_ALLOWED_TAGS \<and> 0 \<le> acl_perm e \<and> acl_perm e \<le> 7 \<and> 0 \<le> acl_qualifier e \<and> acl_qualifier e \<le> ACL_UNDEFINED_ID \<and>
     (acl_tag e \<in> {ACL_USER, ACL_GROUP} \<longleftrightarrow> acl_qualifier e \<noteq> ACL_UNDEFINED_ID)"

definition named_entries :: "int \<Rightarrow> AclEntry list \<Rightarrow> bool" where
  "named_entries tag es \<longleftrightarrow> list_all (\<lambda>e. acl_tag e = tag) es \<and> sorted_wrt (<) (map acl_qualifier es)"

definition canonical_acl :: "AclEntry list \<Rightarrow> bool" where
  "canonical_acl es \<longleftrightarrow> list_all entry_ok es \<and> (\<exists>owner users grp groups mask other. es = owner # users @ grp # groups @ [mask, other] \<and>
     acl_tag owner = ACL_USER_OBJ \<and> named_entries ACL_USER users \<and> acl_tag grp = ACL_GROUP_OBJ \<and> named_entries ACL_GROUP groups \<and> acl_tag mask = ACL_MASK \<and> acl_tag other = ACL_OTHER)"

lemma validate_entry_iff: "validate_entry e = Inr () \<longleftrightarrow> entry_ok e"
  by (auto simp: validate_entry_def entry_ok_def)

lemma validate_each_iff: "validate_each es = Inr () \<longleftrightarrow> list_all entry_ok es"
  by (induction es) (auto simp: res_simps validate_entry_iff)

lemma consume_loop_eq:
  "position \<le> length es \<Longrightarrow> consume_loop es position tag previous = (let us = takeWhile (\<lambda>e. acl_tag e = tag) (drop position es) in
     if sorted_wrt (<) (previous # map acl_qualifier us) then Inr (position + length us) else Inl ''named POSIX ACL qualifiers must be sorted uniquely'')"
proof (induction es position tag previous rule: consume_loop.induct)
  case (1 es position tag previous)
  show ?case
  proof (cases "position < length es \<and> acl_tag (es ! position) = tag")
    case True
    let ?q = "acl_qualifier (es ! position)" and ?us = "takeWhile (\<lambda>e. acl_tag e = tag) (drop (Suc position) es)"
    have d: "takeWhile (\<lambda>e. acl_tag e = tag) (drop position es) = es ! position # ?us" using True by (simp add: Cons_nth_drop_Suc [symmetric])
    have "sorted_wrt (<) (previous # ?q # map acl_qualifier ?us) \<longleftrightarrow> previous < ?q \<and> sorted_wrt (<) (?q # map acl_qualifier ?us)" by auto
    then show ?thesis using "1.IH" [OF True refl] True d by (subst consume_loop.simps) (simp add: Let_def del: sorted_wrt.simps)
  next
    case False
    then have "takeWhile (\<lambda>e. acl_tag e = tag) (drop position es) = []" using "1.prems" by (cases "position < length es") (simp_all add: Cons_nth_drop_Suc [symmetric])
    then show ?thesis using False by (subst consume_loop.simps) auto
  qed
qed

lemma consume_split:
  assumes "list_all (\<lambda>e. acl_tag e = tag \<and> 0 \<le> acl_qualifier e) us" "z = [] \<or> acl_tag (hd z) \<noteq> tag"
  shows "consume_named (p @ us @ z) (length p) tag = Inr q \<longleftrightarrow> q = length p + length us \<and> named_entries tag us"
proof -
  have "takeWhile (\<lambda>e. acl_tag e = tag) z = []" using assms(2) by (cases z) auto
  then have "takeWhile (\<lambda>e. acl_tag e = tag) (us @ z) = us" using assms(1) by (subst takeWhile_append2) (auto simp: list_all_iff)
  then show ?thesis using assms(1) by (auto simp: consume_named_def consume_loop_eq Let_def named_entries_def list_all_iff)
qed

lemma validate_end_iff: "validate_end (p @ z) (length p) = Inr () \<longleftrightarrow> (\<exists>other. z = [other] \<and> acl_tag other = ACL_OTHER)"
  by (cases z) (auto simp: validate_end_def nth_append)

lemma split_run: "\<exists>us z. es = us @ z \<and> list_all (\<lambda>e. acl_tag e = tag) us \<and> (z = [] \<or> acl_tag (hd z) \<noteq> tag)"
  by (rule exI [of _ "takeWhile (\<lambda>e. acl_tag e = tag) es"], rule exI [of _ "dropWhile (\<lambda>e. acl_tag e = tag) es"])
    (use hd_dropWhile [of "\<lambda>e. acl_tag e = tag" es] in \<open>auto simp: list_all_iff dest: set_takeWhileD\<close>)

text \<open>The form with the runs of named entries written out: no list without a mask is accepted.\<close>

lemma validate_form:
  assumes "list_all entry_ok (owner # users @ grp # groups @ z)" "acl_tag owner = ACL_USER_OBJ" "acl_tag grp = ACL_GROUP_OBJ"
    and "list_all (\<lambda>e. acl_tag e = ACL_USER) users" "list_all (\<lambda>e. acl_tag e = ACL_GROUP) groups" "z = [] \<or> acl_tag (hd z) \<noteq> ACL_GROUP"
  shows "validate_entries (owner # users @ grp # groups @ z) = Inr () \<longleftrightarrow> named_entries ACL_USER users \<and> named_entries ACL_GROUP groups \<and>
    (\<exists>mask other. z = [mask, other] \<and> acl_tag mask = ACL_MASK \<and> acl_tag other = ACL_OTHER)"
proof -
  let ?es = "owner # users @ grp # groups @ z" and ?p = "1 + length users"
  have c1: "consume_named ?es 1 ACL_USER = Inr q \<longleftrightarrow> q = ?p \<and> named_entries ACL_USER users" for q
    using consume_split [of ACL_USER users "grp # groups @ z" "[owner]" q] assms by (auto simp: list_all_iff entry_ok_def acl_defs)
  have c2: "consume_named ?es (?p + 1) ACL_GROUP = Inr q \<longleftrightarrow> q = ?p + 1 + length groups \<and> named_entries ACL_GROUP groups" for q
    using consume_split [of ACL_GROUP groups z "owner # users @ [grp]" q] assms by (auto simp: list_all_iff entry_ok_def)
  have n1: "?es ! ?p = grp" "?p < length ?es" by (simp_all add: nth_append)
  have n2: "?p + 1 + length groups < length ?es \<longleftrightarrow> z \<noteq> []" "z \<noteq> [] \<Longrightarrow> ?es ! (?p + 1 + length groups) = hd z"
    by (simp_all add: nth_append hd_conv_nth)
  have e: "validate_end ?es (?p + 1 + length groups + 1) = Inr () \<longleftrightarrow> (\<exists>other. tl z = [other] \<and> acl_tag other = ACL_OTHER)" if "z \<noteq> []"
    using that validate_end_iff [of "owner # users @ grp # groups @ [hd z]" "tl z"] by simp
  show ?thesis
  proof (cases "z \<noteq> [] \<and> acl_tag (hd z) = ACL_MASK")
    case True
    then show ?thesis using n1 n2 e assms(1-3) validate_each_iff [of ?es] c1 c2
      by (cases z) (auto simp: validate_entries_def res_simps Let_def)
  next
    case False
    then show ?thesis using n1 n2 assms(1-3) c1 c2
      by (auto simp: validate_entries_def res_simps Let_def)
  qed
qed

lemma validate_entries_iff: "validate_entries es = Inr () \<longleftrightarrow> canonical_acl es"
proof
  assume v: "validate_entries es = Inr ()"
  then obtain owner rest where es: "es = owner # rest" and ok: "list_all entry_ok es" and ow: "acl_tag owner = ACL_USER_OBJ"
    by (cases es) (auto simp: validate_entries_def res_simps validate_each_iff validate_entry_iff split: if_splits)
  obtain users z where z: "rest = users @ z" "list_all (\<lambda>e. acl_tag e = ACL_USER) users" "z = [] \<or> acl_tag (hd z) \<noteq> ACL_USER" using split_run by blast
  have "consume_named es 1 ACL_USER = Inr q \<longleftrightarrow> q = 1 + length users \<and> named_entries ACL_USER users" for q
    using consume_split [of ACL_USER users z "[owner]" q] ok z by (auto simp: es list_all_iff entry_ok_def)
  then have "1 + length users < length es" "acl_tag (es ! (1 + length users)) = ACL_GROUP_OBJ" using v by (auto simp: validate_entries_def res_simps split: if_splits)
  then obtain grp w where w: "z = grp # w" "acl_tag grp = ACL_GROUP_OBJ" by (cases z) (auto simp: es z(1) nth_append)
  obtain groups y where y: "w = groups @ y" "list_all (\<lambda>e. acl_tag e = ACL_GROUP) groups" "y = [] \<or> acl_tag (hd y) \<noteq> ACL_GROUP" using split_run by blast
  have f: "es = owner # users @ grp # groups @ y" by (simp add: es z(1) w(1) y(1))
  show "canonical_acl es" using v validate_form [OF ok [unfolded f] ow w(2) z(2) y(2,3)] ok ow w(2) unfolding canonical_acl_def f by blast
next
  assume "canonical_acl es"
  then obtain owner users grp groups mask other where f: "es = owner # users @ grp # groups @ [mask, other]" and ok: "list_all entry_ok es"
    and t: "acl_tag owner = ACL_USER_OBJ" "named_entries ACL_USER users" "acl_tag grp = ACL_GROUP_OBJ" "named_entries ACL_GROUP groups" "acl_tag mask = ACL_MASK" "acl_tag other = ACL_OTHER"
    by (auto simp: canonical_acl_def)
  have "list_all (\<lambda>e. acl_tag e = ACL_USER) users" "list_all (\<lambda>e. acl_tag e = ACL_GROUP) groups" using t(2,4) by (simp_all add: named_entries_def)
  moreover have "acl_tag (hd [mask, other]) \<noteq> ACL_GROUP" using t(5) by (simp add: acl_defs)
  ultimately show "validate_entries es = Inr ()" using validate_form [OF ok [unfolded f] t(1,3)] t unfolding f by blast
qed

lemma pack_length [simp]: "length (pack_entry e) = 8"
  by (simp add: pack_entry_def)

lemma unpack_pack: "entry_ok e \<Longrightarrow> unpack_entry (pack_entry e) = e"
  by (cases e) (auto simp: entry_ok_def unpack_entry_def pack_entry_def unpack_append unpack_last ACL_ALLOWED_TAGS_def acl_defs)

lemma pack_unpack:
  assumes "length b = 8"
  shows "pack_entry (unpack_entry b) = b"
proof -
  obtain x y z where f: "b = x @ y @ z" "length x = 2" "length y = 2" "length z = 4" using layout_fields [of b "[2, 2, 4]"] assms by (auto simp: map_eq_Cons_conv)
  then have "unpack [2, 2, 4] b = [x, y, z]" by (simp add: unpack_append unpack_last)
  then show ?thesis using f by (simp add: pack_entry_def unpack_entry_def to_le_le_nat)
qed

lemma slice_of_concat: "list_all (\<lambda>x. length x = 8) xs \<Longrightarrow> i < length xs \<Longrightarrow> pslice (8 * i) (8 * i + 8) (concat xs) = xs ! i"
  by (induction xs arbitrary: i) (auto simp: pslice_def nth_Cons split: nat.splits)

lemma concat_slices: "8 * n \<le> length d \<Longrightarrow> concat (map (\<lambda>i. pslice (8 * i) (8 * i + 8) d) [0..<n]) = take (8 * n) d"
  by (induction n) (simp_all add: pslice_def take_add [symmetric] add.commute)

text \<open>
  C34. An access list has one encoding and one form: the decoder returns a list exactly when the encoder makes these bytes from it, and a
  list can be encoded exactly when it is an owner, named users in strictly ascending order, a group, named groups in strictly ascending order, a mask and the
  rest, each with its qualifier. A mask is always required, also where no entry is named.
\<close>

theorem acl_iff: "(decode_acl data = Inr es \<longleftrightarrow> encode_acl es = Inr data) \<and> ((\<exists>data. encode_acl es = Inr data) \<longleftrightarrow> canonical_acl es)"
proof -
  let ?sl = "\<lambda>d n. map (\<lambda>i. pslice (8 * i) (8 * i + 8) d) [0..<n]"
  have enc: "encode_acl es = Inr data \<longleftrightarrow> canonical_acl es \<and> data = to_le 4 ACL_VERSION @ concat (map pack_entry es)"
    by (auto simp: encode_acl_def res_simps validate_entries_iff)
  have sh: "pslice (4 + 8 * i) (4 + 8 * i + 8) data = pslice (8 * i) (8 * i + 8) (drop 4 data)" for i by (simp add: pslice_def add.commute)
  have sl: "map (\<lambda>i. unpack_entry (pslice (4 + 8 * i) (4 + 8 * i + 8) data)) [0..<n] = map unpack_entry (?sl (drop 4 data) n)" for n by (simp only: sh map_map o_def)
  have dec: "decode_acl data = Inr es \<longleftrightarrow> 4 \<le> length data \<and> (length data - 4) mod 8 = 0 \<and> le_nat (take 4 data) = ACL_VERSION \<and> canonical_acl es \<and>
      es = map unpack_entry (?sl (drop 4 data) ((length data - 4) div 8))"
    unfolding decode_acl_def ACL_ENTRY_SIZE_def sl Let_def by (auto simp: res_simps validate_entries_iff simp del: map_map)
  have "decode_acl data = Inr es" if e: "encode_acl es = Inr data"
  proof -
    have c: "canonical_acl es" "data = to_le 4 ACL_VERSION @ concat (map pack_entry es)" using e by (simp_all add: enc)
    have l: "length (concat (map pack_entry es)) = 8 * length es" by (induction es) simp_all
    have "?sl (concat (map pack_entry es)) (length es) = map pack_entry es"
      by (rule nth_equalityI) (simp_all add: slice_of_concat list_all_iff)
    moreover have "map unpack_entry (map pack_entry es) = es" using c(1) unpack_pack by (auto simp: canonical_acl_def list_all_iff intro!: map_idI)
    moreover have "drop 4 data = concat (map pack_entry es)" "take 4 data = to_le 4 ACL_VERSION" "length data = 4 + 8 * length es" using c(2) l by simp_all
    ultimately show ?thesis using c(1) unfolding dec by (simp add: ACL_VERSION_def del: map_map)
  qed
  moreover have "encode_acl es = Inr data" if d: "decode_acl data = Inr es"
  proof -
    let ?d = "drop 4 data"
    have c: "4 \<le> length data" "8 * (length ?d div 8) = length ?d" "le_nat (take 4 data) = ACL_VERSION" "canonical_acl es" "es = map unpack_entry (?sl ?d (length ?d div 8))"
      using d by (auto simp: dec)
    have "map pack_entry es = ?sl ?d (length ?d div 8)" unfolding c(5) map_map using c(2) by (auto intro!: pack_unpack)
    then have "concat (map pack_entry es) = ?d" using concat_slices [of "length ?d div 8" ?d] c(2) by simp
    moreover have "take 4 data = to_le 4 ACL_VERSION" using to_le_le_nat [of 4 "take 4 data"] c(1,3) by simp
    ultimately have "data = to_le 4 ACL_VERSION @ concat (map pack_entry es)" by (metis append_take_drop_id)
    with c(4) show ?thesis unfolding enc by blast
  qed
  moreover have "(\<exists>data. encode_acl es = Inr data) \<longleftrightarrow> canonical_acl es" by (auto simp: encode_acl_def res_simps validate_entries_iff)
  ultimately show ?thesis by blast
qed

end
