(* ===== verification/Spec2Isabelle.thy ===== *)
theory Spec2Isabelle
  imports Strict_Wav Ratls_Contract Conf_Json Gateway_Relay Message_Delivery Session_Owner Serving_Session Failure_Controller Diag_Run Posix_Acl
begin

text \<open>
  Verification of conf-proc, the confidential processing appliance: a measured machine that boots in a
  fixed order, proves what it runs, serves speech and chat requests of entitled clients, and can run a
  diagnostic whose evidence leaves over a serial line.

  \<^bold>\<open>The parts of the program.\<close>
  The boot engines (\<open>conf_proc_spp_boot.py\<close>, \<open>conf_proc_spp_boot_v3.py\<close>) issue one effect at a time to a transport and go on
  with its observation; the last steps extend PCR 15 and open the network. A launched version 3 system is
  four processes that talk in frames (\<open>conf_proc_spp_boot_v3_wire.py\<close>) over sockets
  (\<open>conf_proc_spp_candidate_ipc.py\<close>, \<open>conf_proc_spp_candidate_messages.py\<close>); the controller keeps sessions, leases
  and permits (\<open>conf_proc_spp_candidate_session.py\<close>, \<open>conf_proc_spp_boot_v3_resource.py\<close>). The gateway
  (\<open>ratls_gateway.py\<close>) authenticates a channel with attested evidence (\<open>ratls_contract.py\<close>), relays its requests, counts tokens
  (\<open>usage_tally.py\<close>) and keeps the daily allowance (\<open>allowance.py\<close>) and the usage histogram (\<open>fleet_usage.py\<close>). Audio is
  read by \<open>strict_wav.py\<close>, build documents by \<open>conf_proc_json.py\<close>. The diagnostic controller
  (\<open>conf_proc_spp_diag_controller.py\<close>) drives a traced run, collects evidence into a stream
  (\<open>conf_proc_spp_diag_export.py\<close>) and frames it on the serial line (\<open>conf_proc_spp_diag_uart.py\<close>), where
  \<open>conf_proc_spp_diag_uart_observation.py\<close> reads it.

  \<^bold>\<open>Foundations.\<close>
  \<open>Prelude\<close>: bytes as characters, slices, integers as bytes, results as sums (\<open>bindE\<close>), and the interfaces of the library:
  \<open>codec\<close> (an encoder and a decoder that accepts exactly the encodings), \<open>machine\<close> (a step function and an
  invariant, with its runs) and \<open>implements\<close> (a machine that behaves as a specification). \<open>Bytes_Methods\<close>,
  \<open>Text_Codecs\<close>, \<open>Unicode\<close>, \<open>Json\<close>, \<open>Sha256\<close>, \<open>Struct_Pack\<close>: what the program uses of the standard library; \<open>Struct_Pack\<close> has
  the interface \<open>int_enum\<close> that every enumeration of \<open>Wire_Enums\<close> interprets.

  \<^bold>\<open>Boot.\<close>
  \<open>Boot_Common\<close>, \<open>Boot_Values\<close>: checked values, effects, observations, and the latch of the process.
  \<open>Boot_Engine\<close>, \<open>Boot_Engine_V2\<close>, \<open>Boot_Engine_V3\<close>: one definition per method of the three engines, an invariant for each.
  \<open>Boot_Process\<close>: engines of both versions in one process; the golden order before serving, the single extension
  of PCR 15, the failure protocol, and a refused serving action that strands it. \<open>Readiness_Barrier\<close>: the
  census of the four roles. \<open>Boot_Admission\<close>: what serving admission stands for, what preempts it, and that a healthy launch
  gets there. \<open>Failure_Controller\<close>: diagnostic, closing of the gate, poweroff.

  \<^bold>\<open>Processes of a launched system.\<close>
  \<open>Wire_Enums\<close>, \<open>Wire_Payloads\<close>, \<open>Boot_Wire\<close>: every payload, the header and the frame, each interpreted as a \<open>codec\<close>, and
  the reassembly of chunks. \<open>Wire_Endpoint\<close>: one peer, its pending frame and the descriptors it owns. \<open>Message_Channel\<close>,
  \<open>Message_Delivery\<close>: the acknowledged train of a large message and its delivery. \<open>Boot_Resource\<close>: the ledger of
  permits. \<open>Session_Owner\<close>: sessions, leases and sockets on top of it. \<open>Serving_Session\<close>: one channel from its
  credential to its upstream.

  \<^bold>\<open>Gateway.\<close>
  \<open>Gateway_Http\<close>: header parsing, framing, forwarded heads, bindings, authorization. \<open>Relay_Reader\<close>: the buffered reader and the
  body copiers. \<open>Usage_Tally\<close>, \<open>Allowance\<close>, \<open>Fleet_Usage\<close>: the accounting; \<open>Allowance\<close> keeps the objects that leases share on an
  explicit heap and is shown to implement a ledger without objects. \<open>Gateway_Relay\<close>: the request loop with all its
  refusals and both \<open>finally\<close> blocks; its interface \<open>frame\<close> gives what every operation keeps of a channel.
  \<open>Ratls_Contract\<close>: the DER envelopes.

  \<^bold>\<open>Diagnostics.\<close>
  \<open>Diag_Export\<close>, \<open>Uart_Record\<close>: the export stream, the failure terminal and the record, each canonical. \<open>Uart_Writer\<close>: the
  fail-closed writer as a state machine; its invariant says that the line carries the records of a legal transcript,
  cut in the middle of one only when the writer is poisoned. \<open>Uart_Observer\<close>: the scan of a capture, what a
  settled observation proves and that every legal transcript is observed. \<open>Diag_Inputs\<close>, \<open>Diag_Controller\<close>, \<open>Diag_Main\<close>: the parsers, the phases
  (checked against a script of all their calls) and \<open>main\<close>. \<open>Diag_Run\<close>: from any environment to the observer.

  \<^bold>\<open>Single components.\<close>
  \<open>Strict_Wav\<close>: the accepted audio files are the canonical ones. \<open>Conf_Json\<close>: the accepted documents are the ones its
  printer writes. \<open>Posix_Acl\<close>: the accepted access lists, all with a mask.

  \<^bold>\<open>How the code is rendered.\<close>
  An exception is a value \<open>Inl\<close>, in the order of the checks of the source. A method is a function from the state of its object to its
  answer and the next state; object identity, where a check uses \<open>is\<close>, is a number. Arguments of a wrong Python type
  are excluded by the types of the model. Loops that end are total functions with a measure. Where a loop waits for
  a device (\<open>Uart_Writer\<close>, \<open>Relay_Reader\<close>, \<open>Gateway_Relay\<close>) the answers of the device are a script of any length, which is the
  measure; a call whose script runs out has not returned. No result depends on a bound chosen here: all limits are
  constants of the source.

  \<^bold>\<open>Code outside the sources.\<close>
  It is an argument of the definitions: the answers of kernel, transports, portal, upstreams and clocks, tokens that are drawn, the
  environment of the diagnostic controller as an arbitrary function of all calls so far, and Unicode normalization as a function
  \<open>nfc\<close>, of which the theorems use that it keeps ASCII text (\<open>nfc_ascii\<close>). The device behind the writer takes what
  \<open>os.write\<close> reports. SHA-256 is computed, and no theorem assumes that it has no collisions:
  \<open>binding_commits\<close> names them.

  \<^bold>\<open>What is not modelled.\<close>
  The parsers of the boot contracts and the sealing of a binding, whose result the engines take; processes, mounts,
  cgroups, TPM and other devices, which are the other side of the effects; certificate chains and signatures of a third-party library;
  HTTP servers around the modelled components; the offline build, inspection and provenance tools and the
  offline tools of the diagnostic appliance.

  \<^bold>\<open>Limits of the modelled components.\<close>
  A transport of the boot engines answers or raises an \<open>Exception\<close>; a \<open>BaseException\<close>, which would leave the extension pending, and a
  transport that calls back into its engine are not modelled. The relay has the allowance to itself, while the server shares it between
  the threads of its channels under a lock and also expires it from \<open>service_actions\<close>: a call of \<open>Allowance\<close> is one step, and
  calls of other channels between those of one relay are not modelled. The JSON parser has no recursion limit. The endpoint takes
  an error of \<open>socket_identity\<close> for a descriptor of another identity, and its \<open>dup\<close> does not fail. The callbacks of
  the serial writer return or raise the kinds of \<open>OSError\<close> that it handles. The registry of issued bindings of the version 3 engine is
  the lifetime of its binding, since an entry that was retired stays as a tombstone. Delivery of a collector response
  (\<open>Message_Delivery\<close>) is under clocks that stay within the budgets of the code, 5 seconds for a chunk with its acknowledgement and
  180 seconds for the transfer, and a kernel that carries every frame.
\<close>

end
